(* ===== verification/Prelude.thy ===== *)
theory Prelude
  imports Main "HOL-Library.Word" "HOL-Library.Monad_Syntax"
begin

text \<open>
  What the components share: the machine integer types of the Rust sources, panics as
  values, checked slicing, little-endian byte codecs (the \<open>from_ne_bytes\<close> and
  \<open>to_ne_bytes\<close> of the supported targets, x86-64 and arm64 Linux, which are little
  endian), powers of two, and the collections the proofs use.

  Conventions. An \<open>'a option\<close> that stands for the outcome of a call is \<open>Some v\<close> when the
  call returns \<open>v\<close> and \<open>None\<close> when it panics; the abbreviations \<open>Ret\<close> and \<open>Panic\<close> name
  the two. A Rust \<open>Option\<close> result is then an option inside it and a Rust \<open>Result\<close> is a sum
  (\<open>Inl\<close> the error). \<open>usize\<close> values are lengths and indices of buffers that exist in
  memory; they are \<open>nat\<close>. \<open>u8\<close> to \<open>u64\<close> are words and wrap.
\<close>

unbundle bit_operations_syntax

named_theorems panic_simps \<open>facts that discharge the bounds checks of slices and reads\<close>
named_theorems codec_simps \<open>lengths and round trips of the byte codecs\<close>

type_synonym byte = "8 word"
type_synonym u16 = "16 word"
type_synonym u32 = "32 word"
type_synonym u64 = "64 word"
type_synonym i32 = "32 word"

section \<open>Panics\<close>

abbreviation (input) Ret :: "'a \<Rightarrow> 'a option" where
  "Ret \<equiv> Some"

abbreviation (input) Panic :: "'a option" where
  "Panic \<equiv> None"

text \<open>An \<open>anyhow::Error\<close> is its message.\<close>

type_synonym err = string

section \<open>Slices\<close>

text \<open>\<open>&xs[a..b]\<close> panics unless \<open>a \<le> b \<le> len\<close>; \<open>&xs[a..]\<close> unless \<open>a \<le> len\<close>; \<open>xs[i]\<close>
  unless \<open>i < len\<close>.\<close>

definition subslice :: "'a list \<Rightarrow> nat \<Rightarrow> nat \<Rightarrow> 'a list option" where
  "subslice xs a b = (if a \<le> b \<and> b \<le> length xs then Ret (take (b - a) (drop a xs)) else Panic)"

definition slice_from :: "'a list \<Rightarrow> nat \<Rightarrow> 'a list option" where
  "slice_from xs a = (if a \<le> length xs then Ret (drop a xs) else Panic)"

definition at :: "'a list \<Rightarrow> nat \<Rightarrow> 'a option" where
  "at xs i = (if i < length xs then Ret (xs ! i) else Panic)"

lemma subslice_ok [panic_simps]:
  "a \<le> b \<Longrightarrow> b \<le> length xs \<Longrightarrow> subslice xs a b = Some (take (b - a) (drop a xs))"
  by (simp add: subslice_def)

lemma slice_from_ok [panic_simps]: "a \<le> length xs \<Longrightarrow> slice_from xs a = Some (drop a xs)"
  by (simp add: slice_from_def)

lemma at_ok [panic_simps]: "i < length xs \<Longrightarrow> at xs i = Some (xs ! i)"
  by (simp add: at_def)

lemma subslice_eq_Some_iff:
  "subslice xs a b = Some ys \<longleftrightarrow> a \<le> b \<and> b \<le> length xs \<and> ys = take (b - a) (drop a xs)"
  by (auto simp: subslice_def)

lemma at_eq_Some_iff: "at xs i = Some x \<longleftrightarrow> i < length xs \<and> x = xs ! i"
  by (auto simp: at_def)

lemma at_append_left: "at xs i = Some x \<Longrightarrow> at (xs @ ys) i = Some x"
  by (auto simp: at_def nth_append split: if_splits)

lemma subslice_append_left: "subslice xs a b = Some v \<Longrightarrow> subslice (xs @ ys) a b = Some v"
  by (auto simp: subslice_def split: if_splits)

lemma subslice_append_right [simp]: "subslice (xs @ ys) (length xs) (length xs + length ys) = Some ys"
  by (simp add: subslice_def)

lemma length_subslice: "subslice xs a b = Some v \<Longrightarrow> length v = b - a"
  by (auto simp: subslice_def split: if_splits)

section \<open>Little-endian codecs\<close>

text \<open>\<open>le_nat\<close> reads bytes, least significant first; \<open>to_le n\<close> writes \<open>n\<close> of them.\<close>

fun le_nat :: "byte list \<Rightarrow> nat" where
  "le_nat [] = 0"
| "le_nat (b # bs) = unat b + 256 * le_nat bs"

fun to_le :: "nat \<Rightarrow> nat \<Rightarrow> byte list" where
  "to_le 0 k = []"
| "to_le (Suc n) k = of_nat (k mod 256) # to_le n (k div 256)"

lemma length_to_le [simp, codec_simps]: "length (to_le n k) = n"
  by (induction n arbitrary: k) auto

lemma le_nat_to_le [codec_simps]: "le_nat (to_le n k) = k mod 256 ^ n"
proof (induction n arbitrary: k)
  case 0
  then show ?case by simp
next
  case (Suc n)
  have "unat (of_nat (k mod 256) :: byte) = k mod 256"
    by (simp add: unat_of_nat take_bit_eq_mod)
  with Suc show ?case
    by (simp add: mod_mult2_eq mult.commute)
qed

lemma le_nat_less: "le_nat bs < 256 ^ length bs"
proof (induction bs)
  case Nil
  then show ?case by simp
next
  case (Cons b bs)
  have "unat b < 256" using unsigned_less [of b] by simp
  with Cons show ?case by simp
qed

lemma to_le_le_nat: "to_le (length bs) (le_nat bs) = bs"
proof (induction bs)
  case Nil
  then show ?case by simp
next
  case (Cons b bs)
  have b: "unat b < 256" using unsigned_less [of b] by simp
  then have "(unat b + 256 * le_nat bs) mod 256 = unat b" by simp
  moreover have "(unat b + 256 * le_nat bs) div 256 = le_nat bs" using b by simp
  ultimately show ?case using Cons by simp
qed

text \<open>\<open>uN::from_ne_bytes\<close> and \<open>uN::to_ne_bytes\<close>.\<close>

definition u16_of :: "byte list \<Rightarrow> u16" where "u16_of bs = of_nat (le_nat bs)"
definition u32_of :: "byte list \<Rightarrow> u32" where "u32_of bs = of_nat (le_nat bs)"
definition u64_of :: "byte list \<Rightarrow> u64" where "u64_of bs = of_nat (le_nat bs)"

definition u16_bytes :: "u16 \<Rightarrow> byte list" where "u16_bytes w = to_le 2 (unat w)"
definition u32_bytes :: "u32 \<Rightarrow> byte list" where "u32_bytes w = to_le 4 (unat w)"
definition u64_bytes :: "u64 \<Rightarrow> byte list" where "u64_bytes w = to_le 8 (unat w)"

lemma length_word_bytes [simp, codec_simps]:
  "length (u16_bytes a) = 2" "length (u32_bytes b) = 4" "length (u64_bytes c) = 8"
  by (simp_all add: u16_bytes_def u32_bytes_def u64_bytes_def)

lemma word_bytes_roundtrip [simp, codec_simps]:
  "u16_of (u16_bytes a) = a" "u32_of (u32_bytes b) = b" "u64_of (u64_bytes c) = c"
proof -
  have "unat a < 65536" using unsigned_less [of a] by simp
  then show "u16_of (u16_bytes a) = a" by (simp add: u16_of_def u16_bytes_def le_nat_to_le)
  have "unat b < 4294967296" using unsigned_less [of b] by simp
  then show "u32_of (u32_bytes b) = b" by (simp add: u32_of_def u32_bytes_def le_nat_to_le)
  have "unat c < 18446744073709551616" using unsigned_less [of c] by simp
  then show "u64_of (u64_bytes c) = c" by (simp add: u64_of_def u64_bytes_def le_nat_to_le)
qed

lemma unat_word_of_bytes:
  "length bs = 2 \<Longrightarrow> unat (u16_of bs) = le_nat bs"
  "length bs = 4 \<Longrightarrow> unat (u32_of bs) = le_nat bs"
  "length bs = 8 \<Longrightarrow> unat (u64_of bs) = le_nat bs"
  using le_nat_less [of bs]
  by (auto simp: u16_of_def u32_of_def u64_of_def unat_of_nat take_bit_nat_eq_self)

lemma unat_of_nat_word:
  "m < 2 ^ 16 \<Longrightarrow> unat (of_nat m :: u16) = m"
  "m < 2 ^ 32 \<Longrightarrow> unat (of_nat m :: u32) = m"
  "m < 2 ^ 64 \<Longrightarrow> unat (of_nat m :: u64) = m"
  by (simp_all add: unat_of_nat take_bit_nat_eq_self)

section \<open>Powers of two\<close>

text \<open>\<open>usize::next_power_of_two\<close>: the smallest power of two that is at least \<open>n\<close>; 1 for 0.\<close>

function next_pow2_from :: "nat \<Rightarrow> nat \<Rightarrow> nat" where
  "next_pow2_from p n = (if 0 < p \<and> p < n then next_pow2_from (2 * p) n else p)"
  by pat_completeness auto
termination
  by (relation "measure (\<lambda>(p, n). n - p)") auto

declare next_pow2_from.simps [simp del]

definition next_power_of_two :: "nat \<Rightarrow> nat" where
  "next_power_of_two n = next_pow2_from 1 n"

definition is_power_of_two :: "nat \<Rightarrow> bool" where
  "is_power_of_two n \<longleftrightarrow> n \<noteq> 0 \<and> next_power_of_two n = n"

lemma next_pow2_from_power:
  "p = 2 ^ k \<Longrightarrow> \<exists>j. next_pow2_from p n = 2 ^ j \<and> k \<le> j \<and> n \<le> next_pow2_from p n"
proof (induction p n arbitrary: k rule: next_pow2_from.induct)
  case (1 p n)
  show ?case
  proof (cases "0 < p \<and> p < n")
    case True
    have "2 * p = 2 ^ Suc k" using "1.prems" by simp
    with "1.IH" [OF True this] True show ?thesis
      by (metis next_pow2_from.simps Suc_leD)
  next
    case False
    with "1.prems" show ?thesis
      by (subst (1 2) next_pow2_from.simps) auto
  qed
qed

lemma next_power_of_two_power: "\<exists>k. next_power_of_two n = 2 ^ k"
  using next_pow2_from_power [of 1 0 n] by (auto simp: next_power_of_two_def)

lemma next_power_of_two_ge: "n \<le> next_power_of_two n"
  using next_pow2_from_power [of 1 0 n] by (auto simp: next_power_of_two_def)

lemma next_power_of_two_pos [simp]: "0 < next_power_of_two n"
  using next_power_of_two_power [of n] by auto

lemma is_power_of_two_power: "is_power_of_two n \<Longrightarrow> \<exists>k. n = 2 ^ k"
  using next_power_of_two_power [of n] by (auto simp: is_power_of_two_def)

text \<open>Masking with \<open>2 ^ k - 1\<close> is the remainder.\<close>

lemma nat_and_mask: "(x::nat) AND (2 ^ k - 1) = x mod 2 ^ k"
  using take_bit_eq_mask [of k x] by (simp add: mask_eq_exp_minus_1 take_bit_eq_mod)

lemma word_and_mask_less:
  fixes x :: "'a::len word"
  assumes "unat m < n"
  shows "unat (x AND m) < n"
proof -
  have "x AND m \<le> m" by (rule word_and_le1)
  then have "unat (x AND m) \<le> unat m" by (simp add: word_le_nat_alt)
  with assms show ?thesis by simp
qed

section \<open>Checked arithmetic\<close>

text \<open>
  \<open>+\<close> and \<open>-\<close> on unsigned integers panic on overflow in the dev and test profiles and wrap
  in release. The model panics; where a theorem shows that an operation returns, both
  profiles compute the same value.
\<close>

definition add64 :: "u64 \<Rightarrow> u64 \<Rightarrow> u64 option" where
  "add64 a b = (if unat a + unat b < 2 ^ 64 then Ret (a + b) else Panic)"

definition sub64 :: "u64 \<Rightarrow> u64 \<Rightarrow> u64 option" where
  "sub64 a b = (if b \<le> a then Ret (a - b) else Panic)"

definition mul64 :: "u64 \<Rightarrow> u64 \<Rightarrow> u64 option" where
  "mul64 a b = (if unat a * unat b < 2 ^ 64 then Ret (a * b) else Panic)"

lemma add64_SomeD: "add64 a b = Some c \<Longrightarrow> unat c = unat a + unat b \<and> c = a + b"
  by (auto simp: add64_def unat_word_ariths split: if_splits)

lemma sub64_SomeD: "sub64 a b = Some c \<Longrightarrow> unat c = unat a - unat b \<and> b \<le> a \<and> c = a - b"
  by (auto simp: sub64_def unat_sub split: if_splits)

lemma add64_ok [panic_simps]: "unat a + unat b < 2 ^ 64 \<Longrightarrow> add64 a b = Some (a + b)"
  by (simp add: add64_def)

lemma unat_add64: "unat (a :: u64) + unat b < 2 ^ 64 \<Longrightarrow> unat (a + b) = unat a + unat b"
  by (simp add: unat_word_ariths)

lemma sub64_ok [panic_simps]: "b \<le> a \<Longrightarrow> sub64 a b = Some (a - b)"
  by (simp add: sub64_def)

section \<open>Sorted prefixes\<close>

lemma takeWhile_sorted_filter:
  fixes f :: "'a \<Rightarrow> 'b::linorder"
  shows "sorted (map f xs) \<Longrightarrow> takeWhile (\<lambda>x. f x \<le> a) xs = filter (\<lambda>x. f x \<le> a) xs"
proof (induction xs)
  case Nil
  then show ?case by simp
next
  case (Cons y xs)
  show ?case
  proof (cases "f y \<le> a")
    case True
    then show ?thesis using Cons by simp
  next
    case False
    then have "\<forall>x \<in> set xs. \<not> f x \<le> a" using Cons.prems by force
    then show ?thesis using False by simp
  qed
qed

lemma dropWhile_sorted_greater:
  fixes f :: "'a \<Rightarrow> 'b::linorder"
  assumes "sorted (map f xs)" "x \<in> set (dropWhile (\<lambda>x. f x \<le> a) xs)"
  shows "a < f x"
  using assms
proof (induction xs)
  case Nil
  then show ?case by simp
next
  case (Cons y xs)
  then show ?case by (cases "f y \<le> a") (auto simp: not_le intro: less_le_trans)
qed

section \<open>Runs and simulations\<close>

text \<open>Running a list of operations, collecting the outputs: of operations that may panic, and of
  operations of a specification.\<close>

fun run_steps :: "('op \<Rightarrow> 'c \<Rightarrow> ('o \<times> 'c) option) \<Rightarrow> 'op list \<Rightarrow> 'c \<Rightarrow> ('o list \<times> 'c) option" where
  "run_steps step [] c = Ret ([], c)"
| "run_steps step (op # ops) c = do {
     (out, c') \<leftarrow> step op c;
     (outs, c'') \<leftarrow> run_steps step ops c';
     Ret (out # outs, c'')
   }"

fun run_spec :: "('op \<Rightarrow> 'a \<Rightarrow> 'o \<times> 'a) \<Rightarrow> 'op list \<Rightarrow> 'a \<Rightarrow> 'o list \<times> 'a" where
  "run_spec step [] a = ([], a)"
| "run_spec step (op # ops) a =
     (let (out, a') = step op a; (outs, a'') = run_spec step ops a' in (out # outs, a''))"

text \<open>
  The contract of an implementation that follows a specification step by step, as long as a
  resource that the operations spend (positions of a ring, identifiers) stays below its limit:
  then every run of it returns, with the specification's outputs.
\<close>

locale simulation =
  fixes cstep :: "'op \<Rightarrow> 'c \<Rightarrow> ('o \<times> 'c) option"
    and astep :: "'op \<Rightarrow> 'a \<Rightarrow> 'o \<times> 'a"
    and rel :: "'c \<Rightarrow> 'a \<Rightarrow> bool"
    and op_ok :: "'op \<Rightarrow> bool"
    and cost :: "'op \<Rightarrow> nat"
    and spent :: "'c \<Rightarrow> nat"
    and limit :: nat
  assumes step: "rel c a \<Longrightarrow> op_ok op \<Longrightarrow> spent c + cost op < limit \<Longrightarrow>
    \<exists>c'. cstep op c = Some (fst (astep op a), c') \<and> rel c' (snd (astep op a)) \<and>
      spent c' \<le> spent c + cost op"
begin

lemma run:
  "rel c a \<Longrightarrow> list_all op_ok ops \<Longrightarrow> spent c + sum_list (map cost ops) < limit \<Longrightarrow>
   \<exists>c'. run_steps cstep ops c = Some (fst (run_spec astep ops a), c') \<and>
     rel c' (snd (run_spec astep ops a)) \<and> spent c' \<le> spent c + sum_list (map cost ops)"
proof (induction ops arbitrary: c a)
  case Nil
  then show ?case by simp
next
  case (Cons op ops)
  have "op_ok op" "spent c + cost op < limit" using Cons.prems by simp_all
  from step [OF Cons.prems(1) this] obtain c' where c':
    "cstep op c = Some (fst (astep op a), c')" "rel c' (snd (astep op a))"
    "spent c' \<le> spent c + cost op" by blast
  have "spent c' + sum_list (map cost ops) < limit" using Cons.prems c'(3) by simp
  from Cons.IH [OF c'(2) _ this] Cons.prems(2) obtain c'' where c'':
    "run_steps cstep ops c' = Some (fst (run_spec astep ops (snd (astep op a))), c'')"
    "rel c'' (snd (run_spec astep ops (snd (astep op a))))"
    "spent c'' \<le> spent c' + sum_list (map cost ops)" by auto
  then show ?case using c' by (auto simp: split_beta Let_def)
qed

end

end
