(* ===== verification/Intern.thy ===== *)
theory Intern
  imports Prelude
begin

text \<open>
  \<open>one_collect/src/intern.rs\<close>: slices stored once, found again through a chained hash
  table, and named by a dense id. The hash function (\<open>XxHash64\<close> of the \<open>twox_hash\<close> crate)
  is the parameter \<open>h\<close> of the operations; nothing is assumed of it, collisions included.

  The locale \<open>interner\<close> is the contract the exporters rely on; it is interpreted on slices
  and on strings at the end.
\<close>

section \<open>State\<close>

record interned_span =
  span_start :: nat
  span_end :: nat

record interned_bucket =
  bucket_hash :: u64
  bucket_len :: nat
  bucket_index :: nat

record 'a interned_slices =
  buckets :: "interned_bucket list list"
  bucket_mask :: u64
  slices :: "'a list"
  spans :: "interned_span list"

definition span_len :: "interned_span \<Rightarrow> nat option" where
  "span_len sp = (if span_start sp \<le> span_end sp then Ret (span_end sp - span_start sp) else Panic)"

section \<open>Operations\<close>

definition slices_new :: "nat \<Rightarrow> 'a interned_slices" where
  "slices_new bucket_count =
     (let n = (if \<not> is_power_of_two bucket_count then next_power_of_two bucket_count
               else bucket_count)
      in \<lparr>buckets = replicate n [], bucket_mask = of_nat (n - 1), slices = [], spans = []\<rparr>)"

text \<open>The loop over one chain, shared by \<open>find_id\<close> and \<open>to_id\<close>.\<close>

fun chain_find ::
  "'a interned_slices \<Rightarrow> u64 \<Rightarrow> 'a list \<Rightarrow> interned_bucket list \<Rightarrow> nat option option" where
  "chain_find s hash sl [] = Ret None"
| "chain_find s hash sl (b # chain) =
     (if bucket_hash b = hash \<and> bucket_len b = length sl
      then do {
        span \<leftarrow> at (spans s) (bucket_index b);
        items \<leftarrow> subslice (slices s) (span_start span) (span_end span);
        if items = sl then Ret (Some (bucket_index b)) else chain_find s hash sl chain
      }
      else chain_find s hash sl chain)"

definition find_id :: "('a list \<Rightarrow> u64) \<Rightarrow> 'a interned_slices \<Rightarrow> 'a list \<Rightarrow> nat option option" where
  "find_id h s sl = do {
     chain \<leftarrow> at (buckets s) (unat (h sl AND bucket_mask s));
     chain_find s (h sl) sl chain
   }"

definition to_id ::
  "('a list \<Rightarrow> u64) \<Rightarrow> 'a interned_slices \<Rightarrow> 'a list \<Rightarrow> (nat \<times> 'a interned_slices) option" where
  "to_id h s sl = do {
     let hash = h sl;
     let bi = unat (hash AND bucket_mask s);
     chain \<leftarrow> at (buckets s) bi;
     found \<leftarrow> chain_find s hash sl chain;
     (case found of
        Some i \<Rightarrow> Ret (i, s)
      | None \<Rightarrow>
          (let start = length (slices s);
               span_index = length (spans s);
               span = \<lparr>span_start = start, span_end = start + length sl\<rparr>;
               b = \<lparr>bucket_hash = hash, bucket_len = length sl, bucket_index = span_index\<rparr>
           in Ret (span_index,
                s\<lparr>spans := spans s @ [span],
                  buckets := (buckets s)[bi := chain @ [b]],
                  slices := slices s @ sl\<rparr>)))
   }"

definition from_id :: "'a interned_slices \<Rightarrow> nat \<Rightarrow> 'a list option option" where
  "from_id s i =
     (if i < length (spans s) then do {
        span \<leftarrow> at (spans s) i;
        items \<leftarrow> subslice (slices s) (span_start span) (span_end span);
        Ret (Some items)
      } else Ret None)"

text \<open>\<open>for_each\<close> as the list of calls it makes to its closure, in order.\<close>

fun for_each_from :: "'a list \<Rightarrow> nat \<Rightarrow> interned_span list \<Rightarrow> (nat \<times> 'a list) list option" where
  "for_each_from d i [] = Ret []"
| "for_each_from d i (sp # sps) = do {
     items \<leftarrow> subslice d (span_start sp) (span_end sp);
     rest \<leftarrow> for_each_from d (Suc i) sps;
     Ret ((i, items) # rest)
   }"

definition for_each :: "'a interned_slices \<Rightarrow> (nat \<times> 'a list) list option" where
  "for_each s = for_each_from (slices s) 0 (spans s)"

text \<open>\<open>InternedCallstacks\<close> and \<open>InternedStrings\<close> wrap the slices; a string is its bytes.\<close>

type_synonym interned_callstacks = "u64 interned_slices"
type_synonym interned_strings = "byte interned_slices"

definition callstacks_new :: "nat \<Rightarrow> interned_callstacks" where
  "callstacks_new n = slices_new n"

definition callstacks_to_id ::
  "(u64 list \<Rightarrow> u64) \<Rightarrow> interned_callstacks \<Rightarrow> u64 list \<Rightarrow> (nat \<times> interned_callstacks) option" where
  "callstacks_to_id h s frames = to_id h s frames"

text \<open>\<open>from_id\<close> clears the caller's vector first, also when the id is unknown.\<close>

definition callstacks_from_id ::
  "interned_callstacks \<Rightarrow> nat \<Rightarrow> u64 list \<Rightarrow> ((err + unit) \<times> u64 list) option" where
  "callstacks_from_id s i frames = do {
     found \<leftarrow> from_id s i;
     (case found of
        Some fs \<Rightarrow> Ret (Inr (), fs)
      | None \<Rightarrow> Ret (Inl ''ID not found.'', []))
   }"

definition callstacks_for_each :: "interned_callstacks \<Rightarrow> (nat \<times> u64 list) list option" where
  "callstacks_for_each s = for_each s"

definition strings_new :: "nat \<Rightarrow> interned_strings" where
  "strings_new n = slices_new n"

definition strings_find_id ::
  "(byte list \<Rightarrow> u64) \<Rightarrow> interned_strings \<Rightarrow> byte list \<Rightarrow> nat option option" where
  "strings_find_id h s str = find_id h s str"

definition strings_to_id ::
  "(byte list \<Rightarrow> u64) \<Rightarrow> interned_strings \<Rightarrow> byte list \<Rightarrow> (nat \<times> interned_strings) option" where
  "strings_to_id h s str = to_id h s str"

definition strings_from_id :: "interned_strings \<Rightarrow> nat \<Rightarrow> (err + byte list) option" where
  "strings_from_id s i = do {
     found \<leftarrow> from_id s i;
     (case found of Some bs \<Rightarrow> Ret (Inr bs) | None \<Rightarrow> Ret (Inl ''ID not found.''))
   }"

definition strings_for_each :: "interned_strings \<Rightarrow> (nat \<times> byte list) list option" where
  "strings_for_each s = for_each s"

section \<open>The contract\<close>

text \<open>
  The abstract interner is the list of the distinct values interned so far; the id of a
  value is its position. \<open>intern\<close> appends a new value and leaves the list alone otherwise.
\<close>

fun intern_all :: "('s \<Rightarrow> 'k \<Rightarrow> (nat \<times> 's) option) \<Rightarrow> 's \<Rightarrow> 'k list \<Rightarrow> (nat list \<times> 's) option"
  where
  "intern_all f s [] = Some ([], s)"
| "intern_all f s (k # ks) = do {
     (i, s') \<leftarrow> f s k;
     (is, s'') \<leftarrow> intern_all f s' ks;
     Some (i # is, s'')
   }"

locale interner =
  fixes intern :: "'s \<Rightarrow> 'k \<Rightarrow> (nat \<times> 's) option"
    and look :: "'s \<Rightarrow> nat \<Rightarrow> 'k option option"
    and inv :: "'s \<Rightarrow> bool"
    and contents :: "'s \<Rightarrow> 'k list"
  assumes intern_spec: "inv s \<Longrightarrow> \<exists>i s'. intern s k = Some (i, s') \<and> inv s' \<and>
      i < length (contents s') \<and> contents s' ! i = k \<and>
      contents s' = (if k \<in> set (contents s) then contents s else contents s @ [k])"
    and look_spec: "inv s \<Longrightarrow>
      look s i = Some (if i < length (contents s) then Some (contents s ! i) else None)"
    and contents_distinct: "inv s \<Longrightarrow> distinct (contents s)"
begin

lemma intern_SomeD:
  assumes "inv s" "intern s k = Some (i, s')"
  shows "inv s'" "i < length (contents s')" "contents s' ! i = k"
    "contents s' = (if k \<in> set (contents s) then contents s else contents s @ [k])"
proof -
  from intern_spec [OF assms(1), of k] obtain j t where
    *: "intern s k = Some (j, t)" "inv t" "j < length (contents t)" "contents t ! j = k"
      "contents t = (if k \<in> set (contents s) then contents s else contents s @ [k])" by blast
  from *(1) assms(2) have "j = i" "t = s'" by simp_all
  with * show "inv s'" "i < length (contents s')" "contents s' ! i = k"
    "contents s' = (if k \<in> set (contents s) then contents s else contents s @ [k])" by blast+
qed

lemma intern_look:
  assumes "inv s" "intern s k = Some (i, s')"
  shows "look s' i = Some (Some k)"
  using intern_SomeD [OF assms] look_spec by simp

lemma intern_keeps:
  assumes "inv s" "intern s k = Some (i, s')" "look s j = Some (Some v)"
  shows "look s' j = Some (Some v)"
proof -
  from assms(3) look_spec [OF assms(1), of j]
  have "j < length (contents s)" "contents s ! j = v" by (auto split: if_splits)
  then have "j < length (contents s')" "contents s' ! j = v"
    using intern_SomeD(4) [OF assms(1,2)] by (auto simp: nth_append)
  then show ?thesis using look_spec [OF intern_SomeD(1) [OF assms(1,2)], of j] by simp
qed

lemma look_inj:
  assumes "inv s" "look s i = Some (Some v)" "look s j = Some (Some v)"
  shows "i = j"
  using assms look_spec [of s] contents_distinct [of s]
  by (auto simp: nth_eq_iff_index_eq split: if_splits)

lemma intern_all_spec:
  "inv s \<Longrightarrow> \<exists>is s'. intern_all intern s ks = Some (is, s') \<and> inv s' \<and> length is = length ks \<and>
     (\<forall>j v. look s j = Some (Some v) \<longrightarrow> look s' j = Some (Some v)) \<and>
     (\<forall>n < length ks. look s' (is ! n) = Some (Some (ks ! n)))"
proof (induction ks arbitrary: s)
  case Nil
  then show ?case by simp
next
  case (Cons k ks)
  from intern_spec [OF Cons.prems, of k] obtain i s1 where 1: "intern s k = Some (i, s1)" by blast
  from Cons.IH [OF intern_SomeD(1) [OF Cons.prems 1]] obtain js s2 where
    2: "intern_all intern s1 ks = Some (js, s2)" "inv s2" "length js = length ks"
      "\<forall>j v. look s1 j = Some (Some v) \<longrightarrow> look s2 j = Some (Some v)"
      "\<forall>n < length ks. look s2 (js ! n) = Some (Some (ks ! n))" by blast
  have "look s2 i = Some (Some k)"
    using intern_look [OF Cons.prems 1] 2(4) by blast
  moreover have "look s2 j = Some (Some v)" if "look s j = Some (Some v)" for j v
    using intern_keeps [OF Cons.prems 1 that] 2(4) by blast
  ultimately show ?case
    using 1 2 by (auto simp: nth_Cons split: nat.splits)
qed

lemma intern_all_ids:
  assumes "inv s" "intern_all intern s ks = Some (is, s')" "m < length ks" "n < length ks"
  shows "is ! m = is ! n \<longleftrightarrow> ks ! m = ks ! n"
  using intern_all_spec [OF assms(1), of ks] assms look_inj [of s']
  by (metis Pair_inject option.inject)

end

section \<open>The slices keep the contract\<close>

definition span_items :: "'a interned_slices \<Rightarrow> interned_span \<Rightarrow> 'a list" where
  "span_items s sp = take (span_end sp - span_start sp) (drop (span_start sp) (slices s))"

definition slices_contents :: "'a interned_slices \<Rightarrow> 'a list list" where
  "slices_contents s = map (span_items s) (spans s)"

definition span_ok :: "'a interned_slices \<Rightarrow> interned_span \<Rightarrow> bool" where
  "span_ok s sp \<longleftrightarrow> span_start sp \<le> span_end sp \<and> span_end sp \<le> length (slices s)"

text \<open>Every id has an entry, with its hash and length, in the chain its hash selects.\<close>

definition chained :: "('a list \<Rightarrow> u64) \<Rightarrow> 'a interned_slices \<Rightarrow> nat \<Rightarrow> bool" where
  "chained h s i \<longleftrightarrow> (let v = slices_contents s ! i in
     \<lparr>bucket_hash = h v, bucket_len = length v, bucket_index = i\<rparr>
       \<in> set (buckets s ! unat (h v AND bucket_mask s)))"

definition slices_inv :: "('a list \<Rightarrow> u64) \<Rightarrow> 'a interned_slices \<Rightarrow> bool" where
  "slices_inv h s \<longleftrightarrow>
     unat (bucket_mask s) < length (buckets s) \<and>
     (\<forall>sp \<in> set (spans s). span_ok s sp) \<and>
     (\<forall>chain \<in> set (buckets s). \<forall>b \<in> set chain. bucket_index b < length (spans s)) \<and>
     (\<forall>i < length (spans s). chained h s i) \<and>
     distinct (slices_contents s)"

lemma length_slices_contents [simp]: "length (slices_contents s) = length (spans s)"
  by (simp add: slices_contents_def)

lemma bucket_in_range: "slices_inv h s \<Longrightarrow> unat (hash AND bucket_mask s) < length (buckets s)"
  by (simp add: slices_inv_def word_and_mask_less)

lemma subslice_span [panic_simps]:
  "span_ok s sp \<Longrightarrow> subslice (slices s) (span_start sp) (span_end sp) = Some (span_items s sp)"
  by (simp add: span_ok_def span_items_def subslice_ok)

lemma chain_find_spec:
  assumes "\<forall>sp \<in> set (spans s). span_ok s sp" "\<forall>b \<in> set chain. bucket_index b < length (spans s)"
  shows "\<exists>r. chain_find s hash sl chain = Some r \<and>
    (\<forall>i. r = Some i \<longrightarrow> i < length (spans s) \<and> slices_contents s ! i = sl) \<and>
    (r = None \<longrightarrow> (\<forall>b \<in> set chain. bucket_hash b = hash \<longrightarrow> bucket_len b = length sl \<longrightarrow>
        slices_contents s ! bucket_index b \<noteq> sl))"
  using assms(2)
proof (induction chain)
  case Nil
  then show ?case by simp
next
  case (Cons b chain)
  then have b: "bucket_index b < length (spans s)" by simp
  then have "span_ok s (spans s ! bucket_index b)" using assms(1) by simp
  then show ?case
    using b Cons by (auto simp: at_ok subslice_span slices_contents_def)
qed

lemma chain_lookup:
  assumes inv: "slices_inv h s"
  shows "\<exists>r. chain_find s (h sl) sl (buckets s ! unat (h sl AND bucket_mask s)) = Some r \<and>
    (case r of Some i \<Rightarrow> i < length (spans s) \<and> slices_contents s ! i = sl
     | None \<Rightarrow> sl \<notin> set (slices_contents s))"
proof -
  let ?chain = "buckets s ! unat (h sl AND bucket_mask s)"
  have "\<forall>b \<in> set ?chain. bucket_index b < length (spans s)"
    using inv bucket_in_range [OF inv] by (auto simp: slices_inv_def)
  with inv obtain r where r: "chain_find s (h sl) sl ?chain = Some r"
    and some: "\<forall>i. r = Some i \<longrightarrow> i < length (spans s) \<and> slices_contents s ! i = sl"
    and none: "r = None \<longrightarrow> (\<forall>b \<in> set ?chain. bucket_hash b = h sl \<longrightarrow>
        bucket_len b = length sl \<longrightarrow> slices_contents s ! bucket_index b \<noteq> sl)"
    using chain_find_spec [of s ?chain "h sl" sl] by (auto simp: slices_inv_def)
  have "sl \<notin> set (slices_contents s)" if "r = None"
  proof
    assume "sl \<in> set (slices_contents s)"
    then obtain i where i: "i < length (spans s)" "slices_contents s ! i = sl"
      by (auto simp: in_set_conv_nth)
    then have "\<lparr>bucket_hash = h sl, bucket_len = length sl, bucket_index = i\<rparr> \<in> set ?chain"
      using inv by (auto simp: slices_inv_def chained_def Let_def)
    with none that i show False by fastforce
  qed
  with r some show ?thesis by (auto split: option.splits)
qed

text \<open>The state after a new slice is appended.\<close>

definition push_slice :: "('a list \<Rightarrow> u64) \<Rightarrow> 'a interned_slices \<Rightarrow> 'a list \<Rightarrow> 'a interned_slices" where
  "push_slice h s sl = (let bi = unat (h sl AND bucket_mask s) in
     s\<lparr>spans := spans s @ [\<lparr>span_start = length (slices s), span_end = length (slices s) + length sl\<rparr>],
       buckets := (buckets s)[bi := buckets s ! bi @
         [\<lparr>bucket_hash = h sl, bucket_len = length sl, bucket_index = length (spans s)\<rparr>]],
       slices := slices s @ sl\<rparr>)"

lemma to_id_cases:
  assumes inv: "slices_inv h s"
  shows "(sl \<in> set (slices_contents s) \<longrightarrow>
      (\<exists>i. to_id h s sl = Some (i, s) \<and> i < length (spans s) \<and> slices_contents s ! i = sl)) \<and>
    (sl \<notin> set (slices_contents s) \<longrightarrow> to_id h s sl = Some (length (spans s), push_slice h s sl))"
proof -
  obtain r where "chain_find s (h sl) sl (buckets s ! unat (h sl AND bucket_mask s)) = Some r"
    and "case r of Some i \<Rightarrow> i < length (spans s) \<and> slices_contents s ! i = sl
     | None \<Rightarrow> sl \<notin> set (slices_contents s)"
    using chain_lookup [OF inv] by blast
  then show ?thesis using bucket_in_range [OF inv, of "h sl"]
    by (auto simp: to_id_def at_ok push_slice_def Let_def split: option.splits)
qed

lemma span_items_push:
  "span_ok s sp \<Longrightarrow> span_items (push_slice h s sl) sp = span_items s sp"
  by (simp add: span_items_def push_slice_def Let_def span_ok_def)

lemma contents_push:
  assumes "slices_inv h s"
  shows "slices_contents (push_slice h s sl) = slices_contents s @ [sl]"
proof -
  have "map (span_items (push_slice h s sl)) (spans s) = map (span_items s) (spans s)"
    using assms by (auto simp: slices_inv_def span_items_push)
  moreover have "span_items (push_slice h s sl)
      \<lparr>span_start = length (slices s), span_end = length (slices s) + length sl\<rparr> = sl"
    by (simp add: span_items_def push_slice_def Let_def)
  ultimately show ?thesis by (simp add: slices_contents_def push_slice_def Let_def)
qed

lemma buckets_push:
  assumes "unat (x AND bucket_mask s) < length (buckets s)"
  shows "set (buckets s ! unat (x AND bucket_mask s)) \<subseteq> set (buckets (push_slice h s sl) ! unat (x AND bucket_mask s))"
  using assms
  by (cases "unat (x AND bucket_mask s) = unat (h sl AND bucket_mask s)")
     (auto simp: push_slice_def Let_def)

lemma push_slice_inv:
  assumes inv: "slices_inv h s" and new: "sl \<notin> set (slices_contents s)"
  shows "slices_inv h (push_slice h s sl)"
proof -
  let ?s = "push_slice h s sl"
  let ?bi = "unat (h sl AND bucket_mask s)"
  have mask: "bucket_mask ?s = bucket_mask s" and len: "length (buckets ?s) = length (buckets s)"
    and n: "length (spans ?s) = Suc (length (spans s))"
    by (simp_all add: push_slice_def Let_def)
  have spans: "\<forall>sp \<in> set (spans ?s). span_ok ?s sp"
    using inv by (auto simp: slices_inv_def push_slice_def Let_def span_ok_def)
  have index: "\<forall>b \<in> set chain. bucket_index b < Suc (length (spans s))"
    if "chain \<in> set (buckets ?s)" for chain
  proof -
    have "buckets s ! ?bi \<in> set (buckets s)" using bucket_in_range [OF inv] by simp
    with that inv show ?thesis
      by (fastforce simp: push_slice_def Let_def slices_inv_def less_Suc_eq
          dest!: set_update_subset_insert [THEN subsetD])
  qed
  have chained: "chained h ?s i" if "i < Suc (length (spans s))" for i
  proof (cases "i = length (spans s)")
    case True
    then have "slices_contents ?s ! i = sl"
      using contents_push [OF inv, of sl] by (metis length_slices_contents nth_append_length)
    with True show ?thesis
      using bucket_in_range [OF inv, of "h sl"] by (simp add: chained_def mask Let_def)
        (simp add: push_slice_def Let_def)
  next
    case False
    with that have i: "i < length (spans s)" by simp
    then have "slices_contents ?s ! i = slices_contents s ! i"
      using contents_push [OF inv, of sl] by (simp add: nth_append)
    with i inv show ?thesis
      using buckets_push [OF bucket_in_range [OF inv]]
      by (fastforce simp: chained_def mask slices_inv_def Let_def)
  qed
  show ?thesis
    using inv spans index chained new
    by (auto simp: slices_inv_def mask len n contents_push [OF inv])
qed

lemma slices_new_inv: "slices_inv h (slices_new n)"
proof -
  have *: "unat (of_nat k - 1 :: u64) < k" if "0 < k" for k
  proof -
    have "of_nat k - 1 = (of_nat (k - 1) :: u64)" using that by (simp add: of_nat_diff)
    then have "unat (of_nat k - 1 :: u64) = (k - 1) mod 2 ^ LENGTH(64)" by (simp only: unat_of_nat)
    then show ?thesis using that mod_less_eq_dividend [of "k - 1" "2 ^ LENGTH(64)"] by linarith
  qed
  show ?thesis
    using * [of n] * [of "next_power_of_two n"]
    by (auto simp: slices_new_def slices_inv_def slices_contents_def Let_def is_power_of_two_def
        of_nat_diff)
qed

lemma slices_new_contents [simp]: "slices_contents (slices_new n) = []"
  by (simp add: slices_new_def slices_contents_def Let_def)

lemma from_id_contents:
  assumes "slices_inv h s"
  shows "from_id s i = Some (if i < length (slices_contents s) then Some (slices_contents s ! i) else None)"
proof (cases "i < length (spans s)")
  case True
  then have "span_ok s (spans s ! i)" using assms by (simp add: slices_inv_def)
  with True show ?thesis by (simp add: from_id_def at_ok subslice_span slices_contents_def)
qed (simp add: from_id_def)

interpretation sl: interner "to_id h" from_id "slices_inv h" slices_contents for h
proof (unfold_locales, goal_cases)
  case (1 s k)
  then show ?case
    using to_id_cases [OF 1, of k] push_slice_inv [OF 1, of k] contents_push [OF 1, of k]
    by (cases "k \<in> set (slices_contents s)")
       (auto simp: nth_append push_slice_def Let_def simp flip: length_slices_contents)
next
  case (2 s i)
  then show ?case by (rule from_id_contents)
next
  case (3 s)
  then show ?case by (simp add: slices_inv_def)
qed

section \<open>Properties\<close>

text \<open>
  C3. The interner is correct for every history and every hash function: from a new
  container of any bucket count, interning any sequence of slices never panics, every id
  resolves to its slice afterwards, and two ids are equal exactly when the slices are.
\<close>

theorem intern_history_correct:
  "\<exists>ids s. intern_all (to_id h) (slices_new n) xs = Some (ids, s) \<and> length ids = length xs \<and>
     (\<forall>i < length xs. from_id s (ids ! i) = Some (Some (xs ! i))) \<and>
     (\<forall>i < length xs. \<forall>j < length xs. ids ! i = ids ! j \<longleftrightarrow> xs ! i = xs ! j)"
proof -
  obtain ids s where s: "intern_all (to_id h) (slices_new n) xs = Some (ids, s)"
    "length ids = length xs" "\<forall>i < length xs. from_id s (ids ! i) = Some (Some (xs ! i))"
    using sl.intern_all_spec [OF slices_new_inv, of h n xs] by blast
  moreover have "ids ! i = ids ! j \<longleftrightarrow> xs ! i = xs ! j" if "i < length xs" "j < length xs" for i j
    using sl.intern_all_ids [OF slices_new_inv s(1) that] .
  ultimately show ?thesis by blast
qed

text \<open>A hash with nothing but collisions still tells the slices apart.\<close>

lemma intern_history_correct_witness:
  "\<exists>ids s. intern_all (to_id (\<lambda>_. 0)) (slices_new 3) [[1 :: u64, 2], [2, 1], [1, 2]] = Some (ids, s) \<and>
     from_id s (ids ! 0) = Some (Some [1, 2]) \<and> ids ! 0 \<noteq> ids ! 1 \<and> ids ! 0 = ids ! 2"
  using intern_history_correct [of "\<lambda>_. 0" 3 "[[1 :: u64, 2], [2, 1], [1, 2]]"]
  by (fastforce simp: numeral_2_eq_2)

text \<open>
  Refinement: on a reachable container \<open>to_id\<close> computes exactly the abstract step on the
  list of interned values (the position of the value, appended first if it is new), and
  keeps the representation invariant.
\<close>

theorem to_id_refines:
  assumes "slices_inv h s"
  shows "\<exists>i s'. to_id h s x = Some (i, s') \<and> slices_inv h s' \<and>
    i < length (slices_contents s') \<and> slices_contents s' ! i = x \<and>
    slices_contents s' = (if x \<in> set (slices_contents s) then slices_contents s else slices_contents s @ [x])"
  by (rule sl.intern_spec [OF assms])

lemma to_id_refines_witness:
  "\<exists>i s'. to_id (\<lambda>_. 7) (slices_new 8 :: u64 interned_slices) [1, 2] = Some (i, s') \<and>
    slices_contents s' = [[1, 2]]"
  using to_id_refines [OF slices_new_inv [of "\<lambda>_. 7" 8], of "[1, 2 :: u64]"] by auto

lemma find_id_spec:
  assumes "slices_inv h s"
  shows "find_id h s x = Some (if x \<in> set (slices_contents s)
      then map_option fst (to_id h s x) else None)"
proof -
  obtain r where "chain_find s (h x) x (buckets s ! unat (h x AND bucket_mask s)) = Some r"
    and "case r of Some i \<Rightarrow> i < length (spans s) \<and> slices_contents s ! i = x
     | None \<Rightarrow> x \<notin> set (slices_contents s)"
    using chain_lookup [OF assms] by blast
  moreover from this have "r \<noteq> None \<Longrightarrow> x \<in> set (slices_contents s)"
    by (auto simp: in_set_conv_nth)
  ultimately show ?thesis using bucket_in_range [OF assms, of "h x"]
    by (auto simp: find_id_def to_id_def at_ok split: option.splits)
qed

text \<open>
  \<open>find_id\<close> is a query: on a reachable container it never panics, and it returns an id
  exactly for the slices interned so far, namely the id that \<open>to_id\<close> gives them.
\<close>

theorem find_id_correct:
  assumes "slices_inv h s"
  shows "find_id h s x = Some (if x \<in> set (slices_contents s)
      then map_option fst (to_id h s x) else None)"
  by (rule find_id_spec [OF assms])

lemma find_id_correct_witness:
  "find_id (\<lambda>_. 7) (slices_new 8 :: u64 interned_slices) [1, 2] = Some None"
  using find_id_correct [OF slices_new_inv [of "\<lambda>_. 7" 8], of "[1, 2 :: u64]"] by simp

text \<open>\<open>for_each\<close> visits every interned slice once, in id order.\<close>

lemma for_each_from_contents:
  "\<forall>sp \<in> set sps. span_ok s sp \<Longrightarrow>
    for_each_from (slices s) i sps = Some (zip [i..<i + length sps] (map (span_items s) sps))"
proof (induction sps arbitrary: i)
  case Nil
  then show ?case by simp
next
  case (Cons sp sps)
  then show ?case
    by (simp add: subslice_span upt_conv_Cons del: upt_Suc)
qed

lemma for_each_contents:
  "slices_inv h s \<Longrightarrow> for_each s = Some (enumerate 0 (slices_contents s))"
  by (simp add: for_each_def slices_inv_def for_each_from_contents slices_contents_def
      enumerate_eq_zip)

text \<open>
  The string wrapper round-trips: after \<open>to_id\<close> of any sequence of strings, \<open>from_id\<close>
  of the id of the last one is that string, and \<open>for_each\<close> lists each string once under
  the id by which \<open>from_id\<close> finds it.
\<close>

theorem strings_roundtrip:
  assumes "slices_inv h s" "strings_to_id h s str = Some (i, s')"
  shows "strings_from_id s' i = Some (Inr str) \<and> slices_inv h s' \<and>
    strings_find_id h s' str = Some (Some i) \<and>
    (\<exists>calls. strings_for_each s' = Some calls \<and> distinct (map snd calls) \<and>
       (\<forall>(j, v) \<in> set calls. strings_from_id s' j = Some (Inr v)))"
proof -
  have to: "to_id h s str = Some (i, s')" using assms(2) by (simp add: strings_to_id_def)
  note s' = sl.intern_SomeD [OF assms(1) to]
  have find: "find_id h s' str = Some (Some i)"
  proof -
    have mem: "str \<in> set (slices_contents s')" using s'(2,3) nth_mem by blast
    then obtain j where j: "to_id h s' str = Some (j, s')" "j < length (spans s')"
      "slices_contents s' ! j = str"
      using to_id_cases [OF s'(1), of str] by blast
    then have "j = i"
      using s'(2,3) nth_eq_iff_index_eq [OF sl.contents_distinct [OF s'(1)], of j i] by simp
    then show ?thesis using find_id_spec [OF s'(1), of str] j(1) mem by simp
  qed
  have "\<forall>(j, v) \<in> set (enumerate 0 (slices_contents s')). strings_from_id s' j = Some (Inr v)"
    using from_id_contents [OF s'(1)]
    by (auto simp: strings_from_id_def in_set_enumerate_eq)
  then have "\<exists>calls. strings_for_each s' = Some calls \<and> distinct (map snd calls) \<and>
       (\<forall>(j, v) \<in> set calls. strings_from_id s' j = Some (Inr v))"
    using for_each_contents [OF s'(1)] sl.contents_distinct [OF s'(1)]
    by (simp add: strings_for_each_def)
  moreover have "strings_from_id s' i = Some (Inr str)"
    using from_id_contents [OF s'(1), of i] s'(2,3) by (simp add: strings_from_id_def)
  ultimately show ?thesis using s'(1) find by (simp add: strings_find_id_def)
qed

lemma strings_roundtrip_witness:
  "\<exists>s'. strings_to_id (\<lambda>_. 7) (strings_new 8) [104, 105] = Some (0, s') \<and>
     strings_from_id s' 0 = Some (Inr [104, 105])"
proof -
  let ?s = "push_slice (\<lambda>_. 7) (strings_new 8) [104, 105]"
  have inv: "slices_inv (\<lambda>_. 7) (strings_new 8)"
    unfolding strings_new_def by (rule slices_new_inv)
  have to: "strings_to_id (\<lambda>_. 7) (strings_new 8) [104, 105] = Some (0, ?s)"
    using to_id_cases [OF inv, of "[104, 105]"]
    by (simp add: strings_to_id_def strings_new_def) (simp add: slices_new_def Let_def)
  show ?thesis using to strings_roundtrip [OF inv to] by blast
qed

text \<open>An unknown call stack id is an error, and the caller's vector is cleared all the same.\<close>

lemma callstacks_from_id_cases:
  "slices_inv h s \<Longrightarrow> callstacks_from_id s i frames =
    Some (if i < length (slices_contents s) then (Inr (), slices_contents s ! i)
          else (Inl ''ID not found.'', []))"
  by (simp add: callstacks_from_id_def from_id_contents)

end
