(* ===== verification/Mappings.thy ===== *)
theory Mappings
  imports Intern
begin

text \<open>
  \<open>helpers/exporting/lookup.rs\<close> and \<open>mappings.rs\<close>: the mappings of a process, the address
  index that answers lookups when there are many, its lazy cache, and the symbols a mapping
  collects from a symbol reader.

  The index keeps its running set in a \<open>HashSet\<close>, whose iteration order is unspecified:
  it is the parameter \<open>it\<close>, an order for the set at each step, with \<open>iter_ok\<close> saying that
  it lists the set's elements once each.
\<close>

section \<open>Symbols and mappings\<close>

record export_symbol =
  sym_name_id :: nat
  sym_start :: u64
  sym_end :: u64

datatype unwind_type = DWARF | Prolog

record module_key =
  key_dev :: u64
  key_ino :: u64

record export_mapping =
  map_time :: u64
  map_filename_id :: nat
  map_start :: u64
  map_end :: u64
  map_file_offset :: u64
  map_va_offset :: u64
  map_anon :: bool
  map_id :: nat
  map_unwind_type :: unwind_type
  map_node :: "module_key option"
  map_symbols :: "export_symbol list"

definition KERNEL_START :: u64 where
  "KERNEL_START = 0xFFFF800000000000"

definition mapping_new ::
  "u64 \<Rightarrow> nat \<Rightarrow> u64 \<Rightarrow> u64 \<Rightarrow> u64 \<Rightarrow> bool \<Rightarrow> nat \<Rightarrow> unwind_type \<Rightarrow> export_mapping" where
  "mapping_new time filename_id start stop file_offset anon ident unwind =
     \<lparr>map_time = time, map_filename_id = filename_id, map_start = start, map_end = stop,
      map_file_offset = file_offset, map_va_offset = 0, map_anon = anon, map_id = ident,
      map_unwind_type = unwind, map_node = None, map_symbols = []\<rparr>"

text \<open>\<open>CodeSection for ExportMapping\<close>: the address the unwind tables are searched with.\<close>

definition mapping_rva :: "export_mapping \<Rightarrow> u64 \<Rightarrow> u64 option" where
  "mapping_rva m ip = do {
     d \<leftarrow> sub64 ip (map_start m);
     f \<leftarrow> add64 d (map_file_offset m);
     add64 f (map_va_offset m)
   }"

definition mapping_key :: "export_mapping \<Rightarrow> module_key" where
  "mapping_key m = (case map_node m of Some node \<Rightarrow> node | None \<Rightarrow> \<lparr>key_dev = 0, key_ino = 0\<rparr>)"

definition mapping_len :: "export_mapping \<Rightarrow> u64 option" where
  "mapping_len m = sub64 (map_end m) (map_start m)"

definition add_symbol :: "export_mapping \<Rightarrow> export_symbol \<Rightarrow> export_mapping" where
  "add_symbol m symb = m\<lparr>map_symbols := map_symbols m @ [symb]\<rparr>"

definition contains_ip :: "export_mapping \<Rightarrow> u64 \<Rightarrow> bool" where
  "contains_ip m ip \<longleftrightarrow> map_start m \<le> ip \<and> ip \<le> map_end m"

definition file_to_va_range :: "export_mapping \<Rightarrow> u64 \<Rightarrow> u64 \<Rightarrow> (u64 \<times> u64) option option" where
  "file_to_va_range m file_start file_end = do {
     let map_file_start = map_file_offset m;
     len \<leftarrow> mapping_len m;
     map_file_end \<leftarrow> add64 map_file_start len;
     if map_anon m \<or> KERNEL_START \<le> map_start m then Ret (Some (file_start, file_end))
     else if file_end < map_file_start \<or> map_file_end < file_start then Ret None
     else do {
       let fs = (if file_start < map_file_start then map_file_start else file_start);
       let fe = (if map_file_end < file_end then map_file_end else file_end);
       file_len \<leftarrow> sub64 fe fs;
       file_offset \<leftarrow> sub64 fs map_file_start;
       va_start \<leftarrow> add64 file_offset (map_start m);
       va_end \<leftarrow> add64 va_start file_len;
       Ret (Some (va_start, va_end))
     }
   }"

section \<open>The address index\<close>

record address_lookup_item =
  item_address :: u64
  item_index :: u32
  item_valid :: bool

record address_lookup =
  lookup_items :: "address_lookup_item list"
  lookup_index :: "u32 list"

definition lookup_default :: address_lookup where
  "lookup_default = \<lparr>lookup_items = [], lookup_index = []\<rparr>"

definition lookup_is_empty :: "address_lookup \<Rightarrow> bool" where
  "lookup_is_empty al \<longleftrightarrow> lookup_items al = []"

definition lookup_clear :: "address_lookup \<Rightarrow> address_lookup" where
  "lookup_clear al = al\<lparr>lookup_items := []\<rparr>"

text \<open>
  \<open>find\<close>: the last item at or below the address, then every earlier item at that item's
  address. \<open>partition_point\<close> of a sorted vector is the number of items in the prefix that
  satisfies the predicate.
\<close>

fun walk_back :: "address_lookup_item list \<Rightarrow> u64 \<Rightarrow> nat \<Rightarrow> u32 list" where
  "walk_back items a 0 = []"
| "walk_back items a (Suc i) =
     (if item_address (items ! i) = a then item_index (items ! i) # walk_back items a i else [])"

definition lookup_find :: "address_lookup \<Rightarrow> u64 \<Rightarrow> (u32 list \<times> address_lookup) option" where
  "lookup_find al address = do {
     let index = length (takeWhile (\<lambda>item. item_address item \<le> address) (lookup_items al)) - 1;
     item \<leftarrow> at (lookup_items al) index;
     let found = item_index item # walk_back (lookup_items al) (item_address item) index;
     Ret (found, al\<lparr>lookup_index := found\<rparr>)
   }"

type_synonym set_iter = "nat \<Rightarrow> u32 set \<Rightarrow> u32 list"

definition iter_ok :: "set_iter \<Rightarrow> bool" where
  "iter_ok it \<longleftrightarrow> (\<forall>k S. finite S \<longrightarrow> set (it k S) = S \<and> distinct (it k S))"

definition entries_at :: "u64 \<Rightarrow> u32 list \<Rightarrow> address_lookup_item list" where
  "entries_at a = map (\<lambda>i. \<lparr>item_address = a, item_index = i, item_valid = True\<rparr>)"

fun update_loop :: "set_iter \<Rightarrow> nat \<Rightarrow> u32 set \<Rightarrow> address_lookup_item list \<Rightarrow> address_lookup_item list" where
  "update_loop it k S [] = []"
| "update_loop it k S (item # items) =
     (let S' = (if item_valid item then insert (item_index item) S else S - {item_index item})
      in entries_at (item_address item) (it k S') @ update_loop it (Suc k) S' items)"

text \<open>\<open>sort_by\<close> is stable, as \<open>sort_key\<close> is.\<close>

definition lookup_update :: "set_iter \<Rightarrow> address_lookup \<Rightarrow> address_lookup_item list \<Rightarrow> address_lookup" where
  "lookup_update it al items =
     al\<lparr>lookup_items := update_loop it 0 {} (sort_key item_address items)\<rparr>"

section \<open>The mappings of a process\<close>

record export_mapping_lookup =
  eml_lookup :: address_lookup
  eml_mappings :: "export_mapping list"
  eml_min_lookup :: nat

definition eml_default :: export_mapping_lookup where
  "eml_default = \<lparr>eml_lookup = lookup_default, eml_mappings = [], eml_min_lookup = 16\<rparr>"

definition eml_clone :: "export_mapping_lookup \<Rightarrow> export_mapping_lookup" where
  "eml_clone s = \<lparr>eml_lookup = lookup_default, eml_mappings = eml_mappings s,
     eml_min_lookup = eml_min_lookup s\<rparr>"

definition set_lookup_min_size :: "export_mapping_lookup \<Rightarrow> nat \<Rightarrow> export_mapping_lookup" where
  "set_lookup_min_size s n = s\<lparr>eml_min_lookup := n\<rparr>"

text \<open>\<open>mappings_mut\<close> clears the index and hands out the vector; \<open>f\<close> is what the caller does
  to it.\<close>

definition mappings_mut ::
  "export_mapping_lookup \<Rightarrow> (export_mapping list \<Rightarrow> export_mapping list) \<Rightarrow> export_mapping_lookup" where
  "mappings_mut s f =
     s\<lparr>eml_lookup := lookup_clear (eml_lookup s), eml_mappings := f (eml_mappings s)\<rparr>"

definition sort_mappings_by_time :: "export_mapping_lookup \<Rightarrow> export_mapping_lookup" where
  "sort_mappings_by_time s = mappings_mut s (sort_key map_time)"

fun boundary_items :: "nat \<Rightarrow> export_mapping list \<Rightarrow> address_lookup_item list" where
  "boundary_items i [] = []"
| "boundary_items i (m # ms) =
     \<lparr>item_address = map_start m, item_index = of_nat i, item_valid = True\<rparr> #
     \<lparr>item_address = map_end m, item_index = of_nat i, item_valid = False\<rparr> #
     boundary_items (Suc i) ms"

definition build_lookup :: "set_iter \<Rightarrow> export_mapping_lookup \<Rightarrow> export_mapping_lookup" where
  "build_lookup it s =
     s\<lparr>eml_lookup := lookup_update it (eml_lookup s) (boundary_items 0 (eml_mappings s))\<rparr>"

text \<open>The body both loops of \<open>find_index\<close> share: keep the first newest mapping that contains
  the address and is not younger than \<open>time\<close>.\<close>

definition keep_newest ::
  "u64 \<Rightarrow> u64 \<Rightarrow> nat \<Rightarrow> export_mapping \<Rightarrow> (nat \<times> export_mapping) option \<Rightarrow> (nat \<times> export_mapping) option" where
  "keep_newest address time i m best =
     (if contains_ip m address \<and> map_time m \<le> time then
        (case best of
           Some (_, existing) \<Rightarrow> if map_time existing < map_time m then Some (i, m) else best
         | None \<Rightarrow> Some (i, m))
      else best)"

fun scan_indices ::
  "export_mapping list \<Rightarrow> u64 \<Rightarrow> u64 \<Rightarrow> u32 list \<Rightarrow> (nat \<times> export_mapping) option \<Rightarrow>
   (nat \<times> export_mapping) option option" where
  "scan_indices ms address time [] best = Ret best"
| "scan_indices ms address time (i # is) best = do {
     m \<leftarrow> at ms (unat i);
     scan_indices ms address time is (keep_newest address time (unat i) m best)
   }"

fun scan_all ::
  "u64 \<Rightarrow> u64 \<Rightarrow> nat \<Rightarrow> export_mapping list \<Rightarrow> (nat \<times> export_mapping) option \<Rightarrow>
   (nat \<times> export_mapping) option" where
  "scan_all address time i [] best = best"
| "scan_all address time i (m # ms) best =
     scan_all address time (Suc i) ms (keep_newest address time i m best)"

definition find_index ::
  "set_iter \<Rightarrow> export_mapping_lookup \<Rightarrow> u64 \<Rightarrow> u64 option \<Rightarrow>
   (nat option \<times> export_mapping_lookup) option" where
  "find_index it s address time = do {
     let time = (case time of Some t \<Rightarrow> t | None \<Rightarrow> - 1);
     (if eml_min_lookup s \<le> length (eml_mappings s) then do {
        let s = (if lookup_is_empty (eml_lookup s) then build_lookup it s else s);
        (found, al) \<leftarrow> lookup_find (eml_lookup s) address;
        best \<leftarrow> scan_indices (eml_mappings s) address time found None;
        Ret (map_option fst best, s\<lparr>eml_lookup := al\<rparr>)
      } else Ret (map_option fst (scan_all address time 0 (eml_mappings s) None), s))
   }"

definition find_mapping ::
  "set_iter \<Rightarrow> export_mapping_lookup \<Rightarrow> u64 \<Rightarrow> u64 option \<Rightarrow>
   (export_mapping option \<times> export_mapping_lookup) option" where
  "find_mapping it s address time = do {
     (found, s') \<leftarrow> find_index it s address time;
     (case found of
        Some i \<Rightarrow> do { m \<leftarrow> at (eml_mappings s') i; Ret (Some m, s') }
      | None \<Rightarrow> Ret (None, s'))
   }"

section \<open>What a lookup is meant to return\<close>

definition candidate :: "export_mapping list \<Rightarrow> u64 \<Rightarrow> u64 \<Rightarrow> nat \<Rightarrow> bool" where
  "candidate ms address time i \<longleftrightarrow>
     i < length ms \<and> contains_ip (ms ! i) address \<and> map_time (ms ! i) \<le> time"

text \<open>The newest candidate; none when there is no candidate.\<close>

definition newest :: "export_mapping list \<Rightarrow> u64 \<Rightarrow> u64 \<Rightarrow> nat option \<Rightarrow> bool" where
  "newest ms address time r \<longleftrightarrow> (case r of
     None \<Rightarrow> \<forall>j. \<not> candidate ms address time j
   | Some i \<Rightarrow> candidate ms address time i \<and>
       (\<forall>j. candidate ms address time j \<longrightarrow> map_time (ms ! j) \<le> map_time (ms ! i)))"

definition eml_time :: "u64 option \<Rightarrow> u64" where
  "eml_time time = (case time of Some t \<Rightarrow> t | None \<Rightarrow> - 1)"

section \<open>The scans\<close>

definition scan_pairs ::
  "u64 \<Rightarrow> u64 \<Rightarrow> (nat \<times> export_mapping) list \<Rightarrow> (nat \<times> export_mapping) option \<Rightarrow>
   (nat \<times> export_mapping) option" where
  "scan_pairs address time ps best = fold (\<lambda>(i, m). keep_newest address time i m) ps best"

definition fits :: "u64 \<Rightarrow> u64 \<Rightarrow> export_mapping \<Rightarrow> bool" where
  "fits address time m \<longleftrightarrow> contains_ip m address \<and> map_time m \<le> time"

lemma scan_all_pairs: "scan_all address time i ms best = scan_pairs address time (enumerate i ms) best"
  by (induction ms arbitrary: i best) (auto simp: scan_pairs_def)

lemma scan_indices_pairs:
  "\<forall>i \<in> set is. unat i < length ms \<Longrightarrow>
   scan_indices ms address time is best =
     Some (scan_pairs address time (map (\<lambda>i. (unat i, ms ! unat i)) is) best)"
  by (induction "is" arbitrary: best) (auto simp: scan_pairs_def at_ok)

lemma scan_pairs_simps [simp]:
  "scan_pairs address time [] best = best"
  "scan_pairs address time ((i, m) # ps) best =
     scan_pairs address time ps (keep_newest address time i m best)"
  by (simp_all add: scan_pairs_def)

lemma keep_newest_fits:
  "keep_newest address time i m best =
     (if fits address time m \<and> (\<forall>j n. best = Some (j, n) \<longrightarrow> map_time n < map_time m)
      then Some (i, m) else best)"
  by (auto simp: keep_newest_def fits_def split: option.splits)

text \<open>The result of a scan is one of the pairs (or the start value), and no pair that fits is
  newer.\<close>

lemma scan_pairs_from:
  "scan_pairs address time ps best = Some (i, m) \<Longrightarrow>
    best = Some (i, m) \<or> (i, m) \<in> set ps \<and> fits address time m"
proof (induction ps arbitrary: best)
  case Nil
  then show ?case by simp
next
  case (Cons p ps)
  then show ?case by (cases p) (auto simp: keep_newest_fits split: if_splits)
qed

lemma scan_pairs_grows:
  "best = Some (i, m) \<Longrightarrow> \<exists>j n. scan_pairs address time ps best = Some (j, n) \<and> map_time m \<le> map_time n"
proof (induction ps arbitrary: best i m)
  case Nil
  then show ?case by simp
next
  case (Cons p ps)
  obtain j n where p: "p = (j, n)" by (cases p)
  show ?case
  proof (cases "keep_newest address time j n best = best")
    case True
    then show ?thesis using Cons p by simp
  next
    case False
    then have "keep_newest address time j n best = Some (j, n)" "map_time m < map_time n"
      using Cons.prems by (auto simp: keep_newest_fits split: if_splits)
    then show ?thesis using Cons.IH [of "Some (j, n)" j n] p by fastforce
  qed
qed

lemma scan_pairs_max:
  "(j, n) \<in> set ps \<Longrightarrow> fits address time n \<Longrightarrow>
    \<exists>i m. scan_pairs address time ps best = Some (i, m) \<and> map_time n \<le> map_time m"
proof (induction ps arbitrary: best)
  case Nil
  then show ?case by simp
next
  case (Cons p ps)
  show ?case
  proof (cases "p = (j, n)")
    case True
    have "\<exists>i m. keep_newest address time j n best = Some (i, m) \<and> map_time n \<le> map_time m"
      using Cons.prems(2)
      by (cases best; cases "the best") (auto simp: keep_newest_fits not_less)
    then obtain i m where "keep_newest address time j n best = Some (i, m)" "map_time n \<le> map_time m"
      by blast
    with True show ?thesis using scan_pairs_grows by (fastforce intro: order_trans)
  next
    case False
    with Cons show ?thesis by (cases p) auto
  qed
qed

lemma scan_all_newest: "newest ms address time (map_option fst (scan_all address time 0 ms None))"
proof -
  have mem: "(i, m) \<in> set (enumerate 0 ms) \<longleftrightarrow> i < length ms \<and> m = ms ! i" for i m
    by (auto simp: in_set_enumerate_eq)
  show ?thesis
  proof (cases "scan_pairs address time (enumerate 0 ms) None")
    case None
    then show ?thesis
      using scan_pairs_max [of _ _ "enumerate 0 ms" address time None] mem
      by (fastforce simp: newest_def candidate_def fits_def scan_all_pairs)
  next
    case (Some p)
    obtain i m where p: "p = (i, m)" by (cases p)
    have "(i, m) \<in> set (enumerate 0 ms)" "fits address time m"
      using scan_pairs_from [OF Some [unfolded p]] by auto
    moreover have "map_time n \<le> map_time m"
      if "(j, n) \<in> set (enumerate 0 ms)" "fits address time n" for j n
      using scan_pairs_max [OF that, of None] Some p by simp
    ultimately show ?thesis
      using Some p mem by (simp add: newest_def candidate_def fits_def scan_all_pairs)
  qed
qed

section \<open>The index finds every mapping that spans an address\<close>

text \<open>The running set after a prefix of the items.\<close>

definition active :: "u32 set \<Rightarrow> address_lookup_item list \<Rightarrow> u32 set" where
  "active S items = fold (\<lambda>item S. if item_valid item then insert (item_index item) S
     else S - {item_index item}) items S"

lemma finite_active: "finite S \<Longrightarrow> finite (active S items)"
  by (induction items arbitrary: S) (auto simp: active_def)

lemma active_in:
  "i \<in> S \<or> (\<exists>item \<in> set items. item_valid item \<and> item_index item = i) \<Longrightarrow>
   \<forall>item \<in> set items. item_index item = i \<longrightarrow> item_valid item \<Longrightarrow> i \<in> active S items"
  by (induction items arbitrary: S) (auto simp: active_def)

lemma update_loop_append:
  "update_loop it k S (xs @ ys) =
     update_loop it k S xs @ update_loop it (k + length xs) (active S xs) ys"
  by (induction xs arbitrary: k S) (auto simp: active_def Let_def)

lemma update_loop_addresses:
  "e \<in> set (update_loop it k S items) \<Longrightarrow> \<exists>item \<in> set items. item_address e = item_address item"
  by (induction items arbitrary: k S) (auto simp: Let_def entries_at_def)

lemma update_loop_indices:
  assumes "iter_ok it"
  shows "finite S \<Longrightarrow> e \<in> set (update_loop it k S items) \<Longrightarrow>
    item_index e \<in> S \<or> (\<exists>item \<in> set items. item_index e = item_index item)"
proof (induction items arbitrary: k S)
  case Nil
  then show ?case by simp
next
  case (Cons item items)
  define S' where "S' = (if item_valid item then insert (item_index item) S else S - {item_index item})"
  have "finite S'" using Cons.prems by (simp add: S'_def)
  then have "set (it k S') = S'" using assms by (simp add: iter_ok_def)
  with Cons.prems Cons.IH [OF \<open>finite S'\<close>] show ?case
    by (auto simp: Let_def entries_at_def S'_def [symmetric] split: if_splits)
       (auto simp: S'_def split: if_splits)
qed

lemma update_loop_nonempty:
  assumes "iter_ok it"
  shows "finite S \<Longrightarrow> \<exists>item \<in> set items. item_valid item \<Longrightarrow> update_loop it k S items \<noteq> []"
proof (induction items arbitrary: k S)
  case Nil
  then show ?case by simp
next
  case (Cons item items)
  show ?case
  proof (cases "item_valid item")
    case True
    have "set (it k (insert (item_index item) S)) = insert (item_index item) S"
      using assms Cons.prems(1) by (simp add: iter_ok_def)
    then show ?thesis using True by (auto simp: Let_def entries_at_def)
  next
    case False
    then show ?thesis using Cons by (simp add: Let_def)
  qed
qed

lemma walk_back_block:
  "m \<le> n \<Longrightarrow> \<forall>i. m \<le> i \<and> i < n \<longrightarrow> item_address (xs ! i) = a \<Longrightarrow> m \<le> j \<Longrightarrow> j < n \<Longrightarrow>
   item_index (xs ! j) \<in> set (walk_back xs a n)"
proof (induction n)
  case 0
  then show ?case by simp
next
  case (Suc n)
  then show ?case by (cases "j = n") (auto simp: less_Suc_eq)
qed

lemma walk_back_subset: "set (walk_back xs a n) \<subseteq> item_index ` (nth xs ` {..<n})"
  by (induction n) auto

text \<open>A block of entries at one address that ends the prefix is found whole.\<close>

lemma lookup_find_block:
  assumes items: "lookup_items al = xs @ block @ ys" and "block \<noteq> []"
    and "\<forall>e \<in> set block. item_address e = a" "\<forall>e \<in> set xs. item_address e \<le> address"
    and "a \<le> address" "\<forall>e \<in> set ys. address < item_address e"
  shows "\<exists>found. lookup_find al address = Some (found, al\<lparr>lookup_index := found\<rparr>) \<and>
    item_index ` set block \<subseteq> set found \<and> set found \<subseteq> item_index ` set (lookup_items al)"
proof -
  let ?n = "length xs + length block - 1"
  have nil: "takeWhile (\<lambda>item. item_address item \<le> address) ys = []"
    using assms(6) by (cases ys) (auto simp: not_le)
  have tw: "takeWhile (\<lambda>item. item_address item \<le> address) (lookup_items al) = xs @ block"
    using assms nil by (auto simp: takeWhile_append2)
  have n: "?n < length (lookup_items al)" using items assms(2) by (cases block) auto
  have block: "lookup_items al ! i \<in> set block" if "length xs \<le> i" "i < length xs + length block" for i
  proof -
    have "i - length xs < length block" using that by linarith
    then show ?thesis using that by (simp add: items nth_append)
  qed
  then have last: "lookup_items al ! ?n \<in> set block" using assms(2) by (cases block) auto
  let ?found = "item_index (lookup_items al ! ?n) # walk_back (lookup_items al) a ?n"
  have find: "lookup_find al address = Some (?found, al\<lparr>lookup_index := ?found\<rparr>)"
    using n last assms(3) by (simp add: lookup_find_def tw at_ok Let_def)
  have "item_index e \<in> set ?found" if e: "e \<in> set block" for e
  proof -
    from e obtain j where j: "j < length block" "e = block ! j" by (auto simp: in_set_conv_nth)
    have "e = lookup_items al ! (length xs + j)" using j by (simp add: items nth_append)
    moreover have "\<forall>i. length xs \<le> i \<and> i < ?n \<longrightarrow> item_address (lookup_items al ! i) = a"
      using block assms(3) by auto
    moreover have "length xs + j = ?n \<or> length xs + j < ?n" using j by linarith
    ultimately show ?thesis
      using walk_back_block [of "length xs" ?n "lookup_items al" a "length xs + j"] by auto
  qed
  moreover have "set ?found \<subseteq> item_index ` set (lookup_items al)"
    using walk_back_subset [of "lookup_items al" a ?n] n by fastforce
  ultimately show ?thesis using find by blast
qed

lemma lookup_find_total:
  assumes "lookup_items al \<noteq> []"
  shows "\<exists>found. lookup_find al address = Some (found, al\<lparr>lookup_index := found\<rparr>) \<and>
    set found \<subseteq> item_index ` set (lookup_items al)"
proof -
  let ?i = "length (takeWhile (\<lambda>item. item_address item \<le> address) (lookup_items al)) - 1"
  have i: "?i < length (lookup_items al)"
    using assms length_takeWhile_le [of "\<lambda>item. item_address item \<le> address" "lookup_items al"]
    by (cases "lookup_items al") auto
  let ?found = "item_index (lookup_items al ! ?i) #
    walk_back (lookup_items al) (item_address (lookup_items al ! ?i)) ?i"
  have "lookup_find al address = Some (?found, al\<lparr>lookup_index := ?found\<rparr>)"
    using i by (simp add: lookup_find_def at_ok Let_def)
  moreover have "set ?found \<subseteq> item_index ` set (lookup_items al)"
    using i walk_back_subset [of "lookup_items al" _ ?i] by fastforce
  ultimately show ?thesis by blast
qed

lemma boundary_items_iff:
  "item \<in> set (boundary_items i ms) \<longleftrightarrow> (\<exists>j < length ms.
     item = \<lparr>item_address = map_start (ms ! j), item_index = of_nat (i + j), item_valid = True\<rparr> \<or>
     item = \<lparr>item_address = map_end (ms ! j), item_index = of_nat (i + j), item_valid = False\<rparr>)"
  by (induction ms arbitrary: i) (auto simp: less_Suc_eq_0_disj)

lemma unat_of_nat_u32: "j < 2 ^ 32 \<Longrightarrow> unat (of_nat j :: u32) = j"
  by (simp add: unat_of_nat take_bit_nat_eq_self)

lemma of_nat_u32_inj: "i < 2 ^ 32 \<Longrightarrow> j < 2 ^ 32 \<Longrightarrow> (of_nat i :: u32) = of_nat j \<longleftrightarrow> i = j"
  using unat_of_nat_u32 [of i] unat_of_nat_u32 [of j] by metis

abbreviation sorted_boundaries :: "export_mapping list \<Rightarrow> address_lookup_item list" where
  "sorted_boundaries ms \<equiv> sort_key item_address (boundary_items 0 ms)"

lemma spanning_active:
  assumes "length ms \<le> 2 ^ 32" "j < length ms" "map_start (ms ! j) \<le> address" "address < map_end (ms ! j)"
  shows "of_nat j \<in> active {} (takeWhile (\<lambda>item. item_address item \<le> address) (sorted_boundaries ms))"
proof (rule active_in)
  let ?pre = "takeWhile (\<lambda>item. item_address item \<le> address) (sorted_boundaries ms)"
  have pre: "item \<in> set ?pre \<longleftrightarrow> item \<in> set (boundary_items 0 ms) \<and> item_address item \<le> address" for item
  proof -
    have "?pre = filter (\<lambda>item. item_address item \<le> address) (sorted_boundaries ms)"
      by (rule takeWhile_sorted_filter) simp
    then show ?thesis by simp
  qed
  show "of_nat j \<in> {} \<or> (\<exists>item \<in> set ?pre. item_valid item \<and> item_index item = of_nat j)"
    using assms(2,3) by (auto simp: pre boundary_items_iff intro!: bexI)
  show "\<forall>item \<in> set ?pre. item_index item = of_nat j \<longrightarrow> item_valid item"
    using assms by (auto simp: pre boundary_items_iff of_nat_u32_inj)
qed

text \<open>Every mapping that spans the address (its end excluded) is among the indices the index
  returns, and every returned index is in range.\<close>

lemma lookup_find_complete:
  assumes it: "iter_ok it" and "length ms \<le> 2 ^ 32" "ms \<noteq> []"
    and items: "lookup_items al = update_loop it 0 {} (sorted_boundaries ms)"
  shows "\<exists>found. lookup_find al address = Some (found, al\<lparr>lookup_index := found\<rparr>) \<and>
    (\<forall>i \<in> set found. unat i < length ms) \<and>
    (\<forall>j < length ms. map_start (ms ! j) \<le> address \<longrightarrow> address < map_end (ms ! j) \<longrightarrow>
       of_nat j \<in> set found)"
proof -
  let ?P = "\<lambda>item. item_address item \<le> address"
  let ?pre = "takeWhile ?P (sorted_boundaries ms)" and ?post = "dropWhile ?P (sorted_boundaries ms)"
  let ?A = "active {} ?pre"
  have split: "lookup_items al = update_loop it 0 {} ?pre @ update_loop it (length ?pre) ?A ?post"
    using update_loop_append [of it 0 "{}" ?pre ?post] items by simp
  have post: "\<forall>e \<in> set (update_loop it (length ?pre) ?A ?post). address < item_address e"
    using update_loop_addresses dropWhile_sorted_greater [of item_address "sorted_boundaries ms"]
    by fastforce
  have range: "unat i < length ms" if i: "i \<in> item_index ` set (lookup_items al)" for i
  proof -
    obtain e where e: "e \<in> set (update_loop it 0 {} (sorted_boundaries ms))" "i = item_index e"
      using i items by auto
    then obtain item where "item \<in> set (boundary_items 0 ms)" "i = item_index item"
      using update_loop_indices [OF it _ e(1)] by auto
    then show ?thesis using assms(2) by (auto simp: boundary_items_iff unat_of_nat_u32)
  qed
  show ?thesis
  proof (cases "?A = {}")
    case True
    have "lookup_items al \<noteq> []"
    proof -
      have "\<exists>item \<in> set (sorted_boundaries ms). item_valid item"
        using assms(3) by (cases ms) (simp_all add: set_insort_key del: sort_key_simps)
      then show ?thesis
        using update_loop_nonempty [OF it, of "{}" "sorted_boundaries ms" 0] by (simp add: items)
    qed
    then obtain found where "lookup_find al address = Some (found, al\<lparr>lookup_index := found\<rparr>)"
      "set found \<subseteq> item_index ` set (lookup_items al)"
      using lookup_find_total by blast
    moreover have "\<not> (map_start (ms ! j) \<le> address \<and> address < map_end (ms ! j))"
      if "j < length ms" for j
      using spanning_active [OF assms(2) that] True by blast
    ultimately show ?thesis using range by blast
  next
    case False
    then have "?pre \<noteq> []" by (auto simp: active_def)
    then obtain pre' x where pre: "?pre = pre' @ [x]" by (metis rev_exhaust)
    have act: "active (active {} pre') [x] = ?A" by (simp add: pre) (simp add: active_def)
    have fin: "finite ?A" by (simp add: finite_active)
    have block: "update_loop it 0 {} ?pre =
        update_loop it 0 {} pre' @ entries_at (item_address x) (it (length pre') ?A)"
      using update_loop_append [of it 0 "{}" pre' "[x]"] act by (simp add: pre Let_def active_def)
    have setA: "set (it (length pre') ?A) = ?A" using it fin by (simp add: iter_ok_def)
    then have "it (length pre') ?A \<noteq> []" using False by fastforce
    moreover have "x \<in> set ?pre" "set pre' \<subseteq> set ?pre" using pre by auto
    ultimately obtain found where found:
      "lookup_find al address = Some (found, al\<lparr>lookup_index := found\<rparr>)"
      "item_index ` set (entries_at (item_address x) (it (length pre') ?A)) \<subseteq> set found"
      "set found \<subseteq> item_index ` set (lookup_items al)"
      using lookup_find_block [of al "update_loop it 0 {} pre'"
          "entries_at (item_address x) (it (length pre') ?A)"
          "update_loop it (length ?pre) ?A ?post" "item_address x" address]
        split block post update_loop_addresses [of _ it 0 "{}" pre'] set_takeWhileD
      by (fastforce simp: entries_at_def)
    have "item_index ` set (entries_at a is) = set is" for a "is"
      by (force simp: entries_at_def)
    then have "?A \<subseteq> set found" using found(2) setA by simp
    then show ?thesis
      using found range spanning_active [OF assms(2)] by blast
  qed
qed

section \<open>The cache\<close>

text \<open>The cached index is either cleared or the index of the current mappings.\<close>

definition cache_ok :: "export_mapping_lookup \<Rightarrow> bool" where
  "cache_ok s \<longleftrightarrow> lookup_items (eml_lookup s) = [] \<or>
     (\<exists>it. iter_ok it \<and>
        lookup_items (eml_lookup s) = update_loop it 0 {} (sorted_boundaries (eml_mappings s)))"

lemma cache_ok_ops:
  "cache_ok eml_default"
  "cache_ok (eml_clone s)"
  "cache_ok (mappings_mut s f)"
  "cache_ok (sort_mappings_by_time s)"
  "cache_ok (set_lookup_min_size s n) = cache_ok s"
  by (simp_all add: cache_ok_def eml_default_def eml_clone_def lookup_default_def mappings_mut_def
      lookup_clear_def sort_mappings_by_time_def set_lookup_min_size_def)

lemma build_lookup_cache: "iter_ok it \<Longrightarrow> cache_ok (build_lookup it s)"
  by (auto simp: cache_ok_def build_lookup_def lookup_update_def)

text \<open>A spanning candidate is one whose end is not the address itself.\<close>

definition spanning :: "export_mapping list \<Rightarrow> u64 \<Rightarrow> u64 \<Rightarrow> nat \<Rightarrow> bool" where
  "spanning ms address time i \<longleftrightarrow> candidate ms address time i \<and> address < map_end (ms ! i)"

lemma find_index_indexed:
  assumes it: "iter_ok it" and cache: "cache_ok s" and ne: "eml_mappings s \<noteq> []"
    and len: "length (eml_mappings s) \<le> 2 ^ 32" and min: "eml_min_lookup s \<le> length (eml_mappings s)"
  shows "\<exists>r s'. find_index it s address time = Some (r, s') \<and> cache_ok s' \<and>
    eml_mappings s' = eml_mappings s \<and> eml_min_lookup s' = eml_min_lookup s \<and>
    (case r of
       None \<Rightarrow> \<forall>j. \<not> spanning (eml_mappings s) address (eml_time time) j
     | Some i \<Rightarrow> candidate (eml_mappings s) address (eml_time time) i \<and>
         (\<forall>j. spanning (eml_mappings s) address (eml_time time) j \<longrightarrow>
            map_time (eml_mappings s ! j) \<le> map_time (eml_mappings s ! i)))"
proof -
  let ?ms = "eml_mappings s" and ?t = "eml_time time"
  define s1 where "s1 = (if lookup_is_empty (eml_lookup s) then build_lookup it s else s)"
  have s1: "eml_mappings s1 = ?ms" "eml_min_lookup s1 = eml_min_lookup s"
    by (simp_all add: s1_def build_lookup_def)
  obtain it' where it': "iter_ok it'"
    and items: "lookup_items (eml_lookup s1) = update_loop it' 0 {} (sorted_boundaries ?ms)"
  proof (cases "lookup_is_empty (eml_lookup s)")
    case True
    then have "lookup_items (eml_lookup s1) = update_loop it 0 {} (sorted_boundaries ?ms)"
      by (simp add: s1_def build_lookup_def lookup_update_def)
    with it show ?thesis by (rule that)
  next
    case False
    then show ?thesis
      using cache that by (auto simp: s1_def cache_ok_def lookup_is_empty_def)
  qed
  obtain found where find: "lookup_find (eml_lookup s1) address =
      Some (found, (eml_lookup s1)\<lparr>lookup_index := found\<rparr>)"
    and range: "\<forall>i \<in> set found. unat i < length ?ms"
    and complete: "\<forall>j < length ?ms. map_start (?ms ! j) \<le> address \<longrightarrow>
      address < map_end (?ms ! j) \<longrightarrow> of_nat j \<in> set found"
    using lookup_find_complete [OF it' len ne items] by blast
  let ?ps = "map (\<lambda>i. (unat i, ?ms ! unat i)) found"
  let ?best = "scan_pairs address ?t ?ps None"
  let ?s' = "s1\<lparr>eml_lookup := (eml_lookup s1)\<lparr>lookup_index := found\<rparr>\<rparr>"
  have res: "find_index it s address time = Some (map_option fst ?best, ?s')"
    using min find scan_indices_pairs [OF range, of address ?t None] s1
    by (simp add: find_index_def eml_time_def Let_def flip: s1_def)
  have cand: "candidate ?ms address ?t i \<and> m = ?ms ! i" if "?best = Some (i, m)" for i m
    using scan_pairs_from [OF that] range by (auto simp: candidate_def fits_def)
  have max: "\<exists>i m. ?best = Some (i, m) \<and> map_time (?ms ! j) \<le> map_time m"
    if "spanning ?ms address ?t j" for j
  proof -
    have j: "j < length ?ms" "fits address ?t (?ms ! j)" "of_nat j \<in> set found"
      using that complete by (auto simp: spanning_def candidate_def fits_def contains_ip_def)
    have "unat (of_nat j :: u32) = j" using j(1) len by (simp add: unat_of_nat_u32)
    then have "(j, ?ms ! j) \<in> set ?ps" using j(3) by force
    then show ?thesis using scan_pairs_max [OF _ j(2)] by blast
  qed
  have "cache_ok ?s'" using it' items by (auto simp: cache_ok_def s1)
  then show ?thesis
    using res cand max s1 by (cases ?best) (fastforce split: prod.splits)+
qed

lemma find_index_linear:
  assumes "length (eml_mappings s) < eml_min_lookup s"
  shows "\<exists>r. find_index it s address time = Some (r, s) \<and>
    newest (eml_mappings s) address (eml_time time) r"
  using assms scan_all_newest by (auto simp: find_index_def eml_time_def)

section \<open>Properties\<close>

lemma spanning_iff_candidate:
  assumes "\<forall>m \<in> set ms. map_end m \<noteq> address"
  shows "spanning ms address time i \<longleftrightarrow> candidate ms address time i"
  using assms
  by (auto simp: spanning_def candidate_def contains_ip_def order.strict_iff_order)

lemma find_index_spec:
  assumes "iter_ok it" "cache_ok s" "length (eml_mappings s) \<le> 2 ^ 32"
    and "eml_mappings s \<noteq> [] \<or> 0 < eml_min_lookup s"
    and "\<forall>m \<in> set (eml_mappings s). map_end m \<noteq> address"
  shows "\<exists>r s'. find_index it s address time = Some (r, s') \<and>
    newest (eml_mappings s) address (eml_time time) r \<and>
    cache_ok s' \<and> eml_mappings s' = eml_mappings s"
proof (cases "eml_min_lookup s \<le> length (eml_mappings s)")
  case True
  with assms(4) have "eml_mappings s \<noteq> []" by auto
  from find_index_indexed [OF assms(1,2) this assms(3) True, of address time]
  obtain r s' where rs: "find_index it s address time = Some (r, s')" "cache_ok s'"
      "eml_mappings s' = eml_mappings s"
    and r: "case r of
       None \<Rightarrow> \<forall>j. \<not> spanning (eml_mappings s) address (eml_time time) j
     | Some i \<Rightarrow> candidate (eml_mappings s) address (eml_time time) i \<and>
         (\<forall>j. spanning (eml_mappings s) address (eml_time time) j \<longrightarrow>
            map_time (eml_mappings s ! j) \<le> map_time (eml_mappings s ! i))" by blast
  from r have "newest (eml_mappings s) address (eml_time time) r"
    by (cases r) (simp_all add: newest_def spanning_iff_candidate [OF assms(5)])
  with rs show ?thesis by blast
next
  case False
  then have "length (eml_mappings s) < eml_min_lookup s" by simp
  from find_index_linear [OF this, of it address time] assms(2) show ?thesis by blast
qed

definition example_maps :: "export_mapping list" where
  "example_maps = [mapping_new 5 0 0 1023 0 False 1 Prolog, mapping_new 0 0 0 3071 0 False 2 Prolog]"

lemma iter_ok_sorted: "iter_ok (\<lambda>_. sorted_list_of_set)"
  by (simp add: iter_ok_def)



lemma newest_unique:
  assumes "distinct (map map_time ms)" "newest ms address time r" "newest ms address time r'"
  shows "r = r'"
proof (cases r; cases r')
  fix i j
  assume ij: "r = Some i" "r' = Some j"
  then have "map_time (ms ! i) = map_time (ms ! j)" "i < length ms" "j < length ms"
    using assms(2,3) by (auto simp: newest_def candidate_def intro: antisym)
  then show "r = r'" using ij nth_eq_iff_index_eq [OF assms(1), of i j] by simp
qed (use assms in \<open>auto simp: newest_def\<close>)



text \<open>
  On the last address of a mapping they do not agree: \<open>contains_ip\<close> includes the end, and
  the index drops a mapping at its end as soon as another one is active there. Here the
  newer mapping ends at 1023 inside an older one; the scan returns it and the index returns
  the older one, for every iteration order.
\<close>

theorem index_misses_mapping_end:
  assumes "iter_ok it"
  shows "map_option fst (find_index it (mappings_mut eml_default (\<lambda>_. example_maps)) 1023 None)
      = Some (Some 0) \<and>
    map_option fst (find_index it
        (set_lookup_min_size (mappings_mut eml_default (\<lambda>_. example_maps)) 0) 1023 None)
      = Some (Some 1)"
proof
  show "map_option fst (find_index it (mappings_mut eml_default (\<lambda>_. example_maps)) 1023 None)
      = Some (Some 0)"
    by (simp add: find_index_def mappings_mut_def eml_default_def example_maps_def mapping_new_def
        keep_newest_def contains_ip_def)
  have set_it: "set (it k S) = S" "distinct (it k S)" for k S
    using assms by (simp_all add: iter_ok_def)
  have one: "it k {i} = [i]" for k i
  proof -
    have "length (it k {i}) = 1" using distinct_card [OF set_it(2), of k "{i}"] set_it(1) by simp
    then show ?thesis using set_it(1) [of k "{i}"] by (auto simp: length_Suc_conv)
  qed
  have none: "it k {} = []" for k using set_it(1) [of k "{}"] by simp
  have two: "it k {1, 0} = [0, 1] \<or> it k {1, 0} = [1, 0]" for k
  proof -
    have "length (it k {1, 0}) = 2"
      using distinct_card [OF set_it(2), of k "{1, 0}"] by (simp add: set_it(1))
    then obtain a b where "it k {1, 0} = [a, b]" by (auto simp: length_Suc_conv numeral_2_eq_2)
    then show ?thesis using set_it [of k "{1, 0}"] by (auto simp: doubleton_eq_iff)
  qed
  have sorted: "sorted_boundaries example_maps =
    [\<lparr>item_address = 0, item_index = 0, item_valid = True\<rparr>,
     \<lparr>item_address = 0, item_index = 1, item_valid = True\<rparr>,
     \<lparr>item_address = 1023, item_index = 0, item_valid = False\<rparr>,
     \<lparr>item_address = 3071, item_index = 1, item_valid = False\<rparr>]"
    by (simp add: example_maps_def mapping_new_def)
  have items: "update_loop it 0 {} (sorted_boundaries example_maps) =
      entries_at 0 (0 # it (Suc 0) {1, 0}) @ entries_at 1023 [1]"
  proof -
    have "{1, 0} - {0} = {1 :: u32}" by auto
    then show ?thesis unfolding sorted by (simp add: one none entries_at_def Let_def)
  qed
  let ?al = "lookup_update it (lookup_clear lookup_default) (boundary_items 0 example_maps)"
  have "lookup_find ?al 1023 = Some ([1], ?al\<lparr>lookup_index := [1]\<rparr>)"
    using two [of "Suc 0"]
    by (auto simp: lookup_update_def items lookup_find_def entries_at_def at_def Let_def
        lookup_clear_def lookup_default_def)
  moreover have "scan_indices example_maps 1023 (- 1) [1] None = Some (Some (1, example_maps ! 1))"
    by (simp add: example_maps_def at_def keep_newest_def contains_ip_def mapping_new_def)
  ultimately show "map_option fst (find_index it
        (set_lookup_min_size (mappings_mut eml_default (\<lambda>_. example_maps)) 0) 1023 None)
      = Some (Some 1)"
    by (simp add: find_index_def mappings_mut_def eml_default_def set_lookup_min_size_def
        lookup_is_empty_def build_lookup_def) (simp add: lookup_clear_def lookup_default_def)
qed

lemma index_misses_mapping_end_witness:
  "map_option fst (find_index (\<lambda>_. sorted_list_of_set)
     (set_lookup_min_size (mappings_mut eml_default (\<lambda>_. example_maps)) 0) 1023 None) = Some (Some 1)"
  using index_misses_mapping_end [OF iter_ok_sorted] by blast

text \<open>
  The only panic of a lookup: on a coherent state \<open>find_index\<close> panics exactly when there
  are no mappings at all and the minimum size for the index is 0 (the index is then used and
  is empty).
\<close>

theorem find_index_panics_iff:
  assumes "iter_ok it" "cache_ok s" "length (eml_mappings s) \<le> 2 ^ 32"
  shows "find_index it s address time = None \<longleftrightarrow> eml_mappings s = [] \<and> eml_min_lookup s = 0"
proof (cases "eml_mappings s = []")
  case True
  have "lookup_items (eml_lookup s) = []" using assms(2) True by (auto simp: cache_ok_def)
  then show ?thesis
    using True by (simp add: find_index_def lookup_is_empty_def build_lookup_def lookup_update_def
        lookup_find_def at_def Let_def)
next
  case False
  then show ?thesis
    using find_index_indexed [OF assms(1,2) False assms(3), of address time]
      find_index_linear [of s it address time]
    by (cases "eml_min_lookup s \<le> length (eml_mappings s)") auto
qed

lemma find_index_panics_iff_witness:
  "find_index (\<lambda>_. sorted_list_of_set) (set_lookup_min_size eml_default 0) 7 None = None"
proof -
  let ?s = "set_lookup_min_size eml_default 0"
  have "cache_ok ?s" by (simp add: cache_ok_ops)
  moreover have "eml_mappings ?s = []" "eml_min_lookup ?s = 0"
    by (simp_all add: set_lookup_min_size_def eml_default_def)
  ultimately show ?thesis
    using find_index_panics_iff [OF iter_ok_sorted, of ?s 7 None] by simp
qed

text \<open>
  C32. \<open>file_to_va_range\<close> translates a range of the mapped file exactly: for a file mapping of
  user space that is well formed, it never panics, returns \<open>None\<close> exactly when the range does
  not meet the mapped part of the file, and otherwise the part that does, moved to the
  mapping's addresses and inside the mapping.
\<close>

theorem file_to_va_range_exact:
  assumes "\<not> map_anon m" "map_start m < KERNEL_START" "map_start m \<le> map_end m"
    and "unat (map_file_offset m) + (unat (map_end m) - unat (map_start m)) < 2 ^ 64"
    and "fs \<le> fe"
  shows "let off = unat (map_file_offset m); len = unat (map_end m) - unat (map_start m) in
    (if unat fe < off \<or> off + len < unat fs then file_to_va_range m fs fe = Some None
     else \<exists>vs ve. file_to_va_range m fs fe = Some (Some (vs, ve)) \<and>
       unat vs = max (unat fs) off - off + unat (map_start m) \<and>
       unat ve = min (unat fe) (off + len) - off + unat (map_start m) \<and>
       map_start m \<le> vs \<and> vs \<le> ve \<and> ve \<le> map_end m)"
proof -
  let ?off = "unat (map_file_offset m)" and ?s = "unat (map_start m)" and ?e = "unat (map_end m)"
  have se: "?s \<le> ?e" "unat fs \<le> unat fe" "?e < 2 ^ 64"
    using assms(3,5) unsigned_less [of "map_end m"] by (simp_all add: word_le_nat_alt)
  have len: "mapping_len m = Some (map_end m - map_start m)" "unat (map_end m - map_start m) = ?e - ?s"
    using assms(3) by (simp_all add: mapping_len_def sub64_ok unat_sub)
  have fend: "add64 (map_file_offset m) (map_end m - map_start m) =
      Some (map_file_offset m + (map_end m - map_start m))"
    "unat (map_file_offset m + (map_end m - map_start m)) = ?off + (?e - ?s)"
    using assms(4) len(2) by (simp_all add: add64_def unat_word_ariths)
  note [simp] = word_less_nat_alt word_le_nat_alt
  show ?thesis
  proof (cases "unat fe < ?off \<or> ?off + (?e - ?s) < unat fs")
    case True
    then show ?thesis using assms(1,2) len fend by (simp add: file_to_va_range_def Let_def)
  next
    case False
    define f1 where "f1 = (if fs < map_file_offset m then map_file_offset m else fs)"
    define f2 where "f2 = (if map_file_offset m + (map_end m - map_start m) < fe
      then map_file_offset m + (map_end m - map_start m) else fe)"
    have f1: "unat f1 = max (unat fs) ?off" and f2: "unat f2 = min (unat fe) (?off + (?e - ?s))"
      by (simp_all add: f1_def f2_def fend(2))
    have le: "f1 \<le> f2" "map_file_offset m \<le> f1" using False f1 f2 se by simp_all
    have u: "unat (f2 - f1) = unat f2 - unat f1" "unat (f1 - map_file_offset m) = unat f1 - ?off"
      using le by (simp_all add: unat_sub)
    have a: "unat (f1 - map_file_offset m) + ?s < 2 ^ 64"
    proof -
      have "unat f1 - ?off \<le> ?e - ?s" using f1 False by auto
      then show ?thesis using u(2) se by linarith
    qed
    define v1 where "v1 = f1 - map_file_offset m + map_start m"
    have v1: "add64 (f1 - map_file_offset m) (map_start m) = Some v1" "unat v1 = unat f1 - ?off + ?s"
      using a u(2) by (simp_all only: v1_def add64_ok unat_add64)
    have "unat f2 - ?off + ?s \<le> ?e"
    proof -
      have "unat f2 \<le> ?off + (?e - ?s)" using f2 by simp
      then show ?thesis using se(1) by linarith
    qed
    moreover have sum: "unat v1 + unat (f2 - f1) = unat f2 - ?off + ?s" using v1(2) u(1) le by simp
    ultimately have le_end: "unat v1 + unat (f2 - f1) \<le> ?e" by simp
    then have b: "unat v1 + unat (f2 - f1) < 2 ^ 64" using se(3) by linarith
    define v2 where "v2 = v1 + (f2 - f1)"
    have v2: "add64 v1 (f2 - f1) = Some v2" "unat v2 = unat f2 - ?off + ?s"
      using b sum by (simp_all only: v2_def add64_ok unat_add64)
    have user: "\<not> KERNEL_START \<le> map_start m" using assms(2) by simp
    have meets: "\<not> (fe < map_file_offset m \<or> map_file_offset m + (map_end m - map_start m) < fs)"
      using False fend(2) by simp
    have "sub64 f2 f1 = Some (f2 - f1)" "sub64 f1 (map_file_offset m) = Some (f1 - map_file_offset m)"
      using le by (simp_all only: sub64_ok)
    then have "file_to_va_range m fs fe = Some (Some (v1, v2))"
      using assms(1) user len(1) fend(1) meets v1(1) v2(1)
      by (simp add: file_to_va_range_def Let_def del: word_less_nat_alt word_le_nat_alt not_less
          flip: f1_def f2_def)
    moreover have "unat v1 = max (unat fs) ?off - ?off + ?s" using v1(2) f1 by (simp only:)
    moreover have "unat v2 = min (unat fe) (?off + (?e - ?s)) - ?off + ?s"
      using v2(2) f2 by (simp only:)
    moreover have "map_start m \<le> v1" "v1 \<le> v2" "v2 \<le> map_end m"
      using v1(2) v2(2) sum le_end by (simp_all only: word_le_nat_alt)
    ultimately show ?thesis using False by (simp only: Let_def if_False) blast
  qed
qed

lemma file_to_va_range_exact_witness:
  "file_to_va_range (mapping_new 0 0 4096 8192 1024 False 0 Prolog) 956 1096 = Some (Some (4096, 4168))"
proof -
  let ?m = "mapping_new 0 0 4096 8192 1024 False 0 Prolog"
  obtain vs ve where r: "file_to_va_range ?m 956 1096 = Some (Some (vs, ve))"
    "unat vs = 4096" "unat ve = 4168"
    using file_to_va_range_exact [of ?m 956 1096]
    by (auto simp: mapping_new_def KERNEL_START_def)
  then have "vs = 4096" "ve = 4168" by (simp_all add: word_unat_eq_iff)
  with r show ?thesis by simp
qed

end
