(* ===== verification/EventFormat.thy ===== *)
theory EventFormat
  imports Prelude
begin

text \<open>
  The data access of \<open>one_collect/src/event/mod.rs\<close>: \<open>DataField\<close> and \<open>DataFieldRef\<close>, the
  event format with its fields, the location decoders (\<open>get_data_with_offset_direct\<close>, the
  skipping closures) and the typed readers. Event payloads are byte lists; every index and
  slice of the code is a checked operation of the model, so a panic is the value \<open>Panic\<close>.
  A closure the code returns is a function of the payload.
\<close>

section \<open>Data fields\<close>

text \<open>\<open>DataFieldRef\<close> is a shared cell of a \<open>DataField\<close>; the model passes its content.\<close>

record data_field =
  df_start :: u32
  df_end :: u32

definition data_field_default :: data_field where
  "data_field_default = \<lparr>df_start = 0, df_end = 0\<rparr>"

definition field_ref_get_data :: "data_field \<Rightarrow> byte list \<Rightarrow> byte list option" where
  "field_ref_get_data field data =
     (if length data < unat (df_end field) then Ret []
      else subslice data (unat (df_start field)) (unat (df_end field)))"

text \<open>\<open>update\<close> truncates both ends to \<open>u32\<close> and returns the length.\<close>

definition field_ref_update :: "data_field \<Rightarrow> nat \<Rightarrow> nat \<Rightarrow> nat \<times> data_field" where
  "field_ref_update field start len =
     (len, \<lparr>df_start = of_nat start, df_end = of_nat (start + len)\<rparr>)"

definition field_ref_reset :: "data_field \<Rightarrow> data_field" where
  "field_ref_reset field = snd (field_ref_update field 0 0)"

text \<open>The typed readers of a slice: an error when there are too few bytes, else the first
  bytes read as a number.\<close>

definition not_enough :: err where "not_enough = ''Not enough data.''"

definition read_u64 :: "byte list \<Rightarrow> err + u64" where
  "read_u64 sl = (if length sl < 8 then Inl not_enough else Inr (u64_of (take 8 sl)))"

definition read_u32 :: "byte list \<Rightarrow> err + u32" where
  "read_u32 sl = (if length sl < 4 then Inl not_enough else Inr (u32_of (take 4 sl)))"

definition read_u16 :: "byte list \<Rightarrow> err + u16" where
  "read_u16 sl = (if length sl < 2 then Inl not_enough else Inr (u16_of (take 2 sl)))"

definition read_u8 :: "byte list \<Rightarrow> err + byte" where
  "read_u8 sl = (case sl of [] \<Rightarrow> Inl not_enough | b # _ \<Rightarrow> Inr b)"

definition ok_value :: "err + 'a \<Rightarrow> 'a option" where
  "ok_value r = (case r of Inl _ \<Rightarrow> None | Inr v \<Rightarrow> Some v)"

definition field_ref_get_u64 :: "data_field \<Rightarrow> byte list \<Rightarrow> (err + u64) option" where
  "field_ref_get_u64 field data = map_option read_u64 (field_ref_get_data field data)"
definition field_ref_try_get_u64 :: "data_field \<Rightarrow> byte list \<Rightarrow> u64 option option" where
  "field_ref_try_get_u64 field data = map_option (ok_value \<circ> read_u64) (field_ref_get_data field data)"
definition field_ref_get_u32 :: "data_field \<Rightarrow> byte list \<Rightarrow> (err + u32) option" where
  "field_ref_get_u32 field data = map_option read_u32 (field_ref_get_data field data)"
definition field_ref_try_get_u32 :: "data_field \<Rightarrow> byte list \<Rightarrow> u32 option option" where
  "field_ref_try_get_u32 field data = map_option (ok_value \<circ> read_u32) (field_ref_get_data field data)"
definition field_ref_get_u16 :: "data_field \<Rightarrow> byte list \<Rightarrow> (err + u16) option" where
  "field_ref_get_u16 field data = map_option read_u16 (field_ref_get_data field data)"
definition field_ref_try_get_u16 :: "data_field \<Rightarrow> byte list \<Rightarrow> u16 option option" where
  "field_ref_try_get_u16 field data = map_option (ok_value \<circ> read_u16) (field_ref_get_data field data)"
definition field_ref_get_u8 :: "data_field \<Rightarrow> byte list \<Rightarrow> (err + byte) option" where
  "field_ref_get_u8 field data = map_option read_u8 (field_ref_get_data field data)"
definition field_ref_try_get_u8 :: "data_field \<Rightarrow> byte list \<Rightarrow> byte option option" where
  "field_ref_try_get_u8 field data = map_option (ok_value \<circ> read_u8) (field_ref_get_data field data)"

section \<open>The format of an event\<close>

datatype location_type =
  Static | StaticString | DynRelative | DynAbsolute | StaticLenPrefixArray | StaticUTF16String

record event_field =
  ef_name :: string
  ef_type_name :: string
  ef_location :: location_type
  ef_offset :: nat
  ef_size :: nat

type_synonym event_format = "event_field list"

definition format_new :: event_format where
  "format_new = []"

definition format_add_field :: "event_format \<Rightarrow> event_field \<Rightarrow> event_format" where
  "format_add_field fmt field = fmt @ [field]"

fun get_field_ref_from :: "nat \<Rightarrow> event_format \<Rightarrow> string \<Rightarrow> nat option" where
  "get_field_ref_from i [] name = None"
| "get_field_ref_from i (f # fs) name =
     (if ef_name f = name then Some i else get_field_ref_from (Suc i) fs name)"

definition get_field_ref :: "event_format \<Rightarrow> string \<Rightarrow> nat option" where
  "get_field_ref fmt name = get_field_ref_from 0 fmt name"

text \<open>The \<open>unchecked\<close> variants panic on a miss.\<close>

definition get_field_ref_unchecked :: "event_format \<Rightarrow> string \<Rightarrow> nat option" where
  "get_field_ref_unchecked fmt name =
     (case get_field_ref fmt name of Some i \<Rightarrow> Ret i | None \<Rightarrow> Panic)"

definition get_field_unchecked :: "event_format \<Rightarrow> nat \<Rightarrow> event_field option" where
  "get_field_unchecked fmt i = at fmt i"

definition get_field :: "event_format \<Rightarrow> string \<Rightarrow> event_field option option" where
  "get_field fmt name = (case get_field_ref fmt name of
     Some i \<Rightarrow> do { f \<leftarrow> get_field_unchecked fmt i; Ret (Some f) }
   | None \<Rightarrow> Ret None)"

section \<open>Decoding a location\<close>

text \<open>The counting loops: bytes before the first null, bytes before the first null unit.\<close>

fun null_len :: "byte list \<Rightarrow> nat" where
  "null_len [] = 0"
| "null_len (b # bs) = (if b = 0 then 0 else Suc (null_len bs))"

fun utf16_null_len :: "byte list \<Rightarrow> nat" where
  "utf16_null_len (a # b # bs) = (if a = 0 \<and> b = 0 then 0 else 2 + utf16_null_len bs)"
| "utf16_null_len _ = 0"

fun get_data_with_offset_direct ::
  "nat \<Rightarrow> location_type \<Rightarrow> nat \<Rightarrow> byte list \<Rightarrow> byte list option" where
  "get_data_with_offset_direct sz Static offset data =
     (if length data < offset + sz then Ret [] else subslice data offset (offset + sz))"
| "get_data_with_offset_direct sz StaticString offset data =
     (if length data < offset then Ret []
      else do { sl \<leftarrow> slice_from data offset; subslice sl 0 (null_len sl) })"
| "get_data_with_offset_direct sz StaticUTF16String offset data =
     (if length data < offset then Ret []
      else do { sl \<leftarrow> slice_from data offset; subslice sl 0 (utf16_null_len sl) })"
| "get_data_with_offset_direct sz StaticLenPrefixArray offset data =
     (if length data < offset then Ret []
      else do {
        sl \<leftarrow> slice_from data offset;
        if length sl < 2 then Ret []
        else do {
          prefix \<leftarrow> subslice sl 0 2;
          let len = unat (u16_of prefix);
          let element_size = (if sz = 0 then 1 else sz);
          let bytes = len * element_size;
          if length sl < 2 + bytes then Ret [] else subslice sl 2 (2 + bytes)
        }
      })"
| "get_data_with_offset_direct sz loc offset data =
     (let desc_end = offset + 4 in
      if length data < desc_end then Ret []
      else do {
        b0 \<leftarrow> at data offset;
        b1 \<leftarrow> at data (offset + 1);
        b2 \<leftarrow> at data (offset + 2);
        b3 \<leftarrow> at data (offset + 3);
        let desc = u32_of [b0, b1, b2, b3];
        let base = (if loc = DynRelative then desc_end else 0);
        let start = base + unat (desc AND 0xFFFF);
        let stop = start + unat (drop_bit 16 desc);
        if length data < stop then Ret [] else subslice data start stop
      })"

section \<open>Skipping dynamic fields\<close>

record field_skip =
  skip_loc :: location_type
  skip_off :: nat
  skip_size :: "u16 option"

fun skip_string :: "byte list \<Rightarrow> nat" where
  "skip_string [] = 0"
| "skip_string (b # bs) = (if b = 0 then 1 else Suc (skip_string bs))"

fun skip_utf16 :: "byte list \<Rightarrow> nat" where
  "skip_utf16 (a # b # bs) = (if a = 0 \<and> b = 0 then 2 else 2 + skip_utf16 bs)"
| "skip_utf16 _ = 0"

text \<open>The loop over the skips: the offset gained, or \<open>None\<close> for the early \<open>return EMPTY\<close>.\<close>

fun run_skips :: "field_skip list \<Rightarrow> byte list \<Rightarrow> nat \<Rightarrow> nat option option" where
  "run_skips [] data skip_offset = Ret (Some skip_offset)"
| "run_skips (skip # skips) data skip_offset =
     (let start = skip_offset + skip_off skip in
      if length data < start then Ret None
      else do {
        sl \<leftarrow> slice_from data start;
        (case skip_loc skip of
           StaticString \<Rightarrow> run_skips skips data (skip_offset + skip_string sl)
         | StaticUTF16String \<Rightarrow> run_skips skips data (skip_offset + skip_utf16 sl)
         | StaticLenPrefixArray \<Rightarrow>
             (let element_size = (case skip_size skip of Some s \<Rightarrow> unat s | None \<Rightarrow> 0) in
              if length sl < 2 then Ret None
              else do {
                prefix \<leftarrow> subslice sl 0 2;
                run_skips skips data (skip_offset + 2 + element_size * unat (u16_of prefix))
              })
         | _ \<Rightarrow> Ret None)
      })"

definition get_field_data_closure ::
  "nat \<Rightarrow> nat \<Rightarrow> location_type \<Rightarrow> field_skip list \<Rightarrow> byte list \<Rightarrow> byte list option" where
  "get_field_data_closure offset sz loc skips data = do {
     skipped \<leftarrow> run_skips skips data 0;
     (case skipped of
        None \<Rightarrow> Ret []
      | Some skip_offset \<Rightarrow> get_data_with_offset_direct sz loc (offset + skip_offset) data)
   }"

section \<open>Element sizes\<close>

text \<open>\<open>str::split_whitespace\<close> on the ASCII white space a type name can hold.\<close>

definition is_ws :: "char \<Rightarrow> bool" where
  "is_ws c \<longleftrightarrow> c = CHR '' '' \<or> ((of_char c :: nat) \<in> {9..13})"

function split_whitespace :: "string \<Rightarrow> string list" where
  "split_whitespace s =
     (let t = dropWhile is_ws s in
      if t = [] then []
      else takeWhile (Not \<circ> is_ws) t # split_whitespace (dropWhile (Not \<circ> is_ws) t))"
  by pat_completeness auto
termination
proof (relation "measure length", goal_cases)
  case (2 s t)
  then obtain c cs where t: "t = c # cs" "\<not> is_ws c"
    by (metis dropWhile_eq_Cons_conv neq_Nil_conv)
  have "length (dropWhile (Not \<circ> is_ws) t) \<le> length cs"
    using t by (simp add: length_dropWhile_le)
  also have "\<dots> < length t" using t by simp
  also have "\<dots> \<le> length s" using 2(1) by (simp add: length_dropWhile_le)
  finally show ?case by simp
qed simp

definition element_size_of :: "string \<Rightarrow> u16 option" where
  "element_size_of t =
     (if t \<in> {''u8'', ''s8'', ''char'', ''counted_string'', ''counted_wstring'', ''string'', ''wstring''}
      then Some 1
      else if t \<in> {''u16'', ''s16'', ''short''} then Some 2
      else if t \<in> {''u32'', ''s32'', ''int''} then Some 4
      else if t \<in> {''u64'', ''s64'', ''long''} then Some 8
      else None)"

definition next_word :: "string list \<Rightarrow> string option \<times> string list" where
  "next_word ws = (case ws of [] \<Rightarrow> (None, []) | w # ws' \<Rightarrow> (Some w, ws'))"

definition try_get_element_size :: "string \<Rightarrow> u16 option" where
  "try_get_element_size type_name =
     (let (first, split) = next_word (split_whitespace type_name);
          (first, split) = (if first = Some ''__dyn_array'' then next_word split else (first, split))
      in case first of
           Some t \<Rightarrow>
             (if t = ''unsigned''
              then element_size_of (case fst (next_word split) of Some t' \<Rightarrow> t' | None \<Rightarrow> '''')
              else element_size_of t)
         | None \<Rightarrow> None)"

section \<open>Data closures\<close>

text \<open>\<open>try_get_field_data_closure\<close>: the loop over the fields with the running offset and the
  skips so far.\<close>

fun data_closure_from ::
  "event_format \<Rightarrow> string \<Rightarrow> nat \<Rightarrow> field_skip list \<Rightarrow> (byte list \<Rightarrow> byte list option) option" where
  "data_closure_from [] name offset skips = None"
| "data_closure_from (f # fs) name offset skips =
     (if ef_name f = name then
        (case (if ef_size f = 0 \<and> ef_location f = StaticLenPrefixArray
               then map_option unat (try_get_element_size (ef_type_name f))
               else Some (ef_size f)) of
           None \<Rightarrow> None
         | Some sz \<Rightarrow>
             if skips = [] then
               Some (\<lambda>data. get_data_with_offset_direct sz (ef_location f) (ef_offset f) data)
             else
               Some (\<lambda>data. get_field_data_closure offset sz (ef_location f) skips data))
      else if ef_size f = 0 then
        (case ef_location f of
           StaticString \<Rightarrow>
             data_closure_from fs name offset
               (skips @ [\<lparr>skip_loc = StaticString, skip_off = offset, skip_size = None\<rparr>])
         | StaticUTF16String \<Rightarrow>
             data_closure_from fs name offset
               (skips @ [\<lparr>skip_loc = StaticUTF16String, skip_off = offset, skip_size = None\<rparr>])
         | StaticLenPrefixArray \<Rightarrow>
             (case try_get_element_size (ef_type_name f) of
                None \<Rightarrow> None
              | Some es \<Rightarrow>
                  data_closure_from fs name offset
                    (skips @ [\<lparr>skip_loc = StaticLenPrefixArray, skip_off = offset,
                               skip_size = Some es\<rparr>]))
         | _ \<Rightarrow> None)
      else data_closure_from fs name (offset + ef_size f) skips)"

definition try_get_field_data_closure ::
  "event_format \<Rightarrow> string \<Rightarrow> (byte list \<Rightarrow> byte list option) option" where
  "try_get_field_data_closure fmt name = data_closure_from fmt name 0 []"

section \<open>Readers by reference\<close>

definition get_data_with_offset :: "event_format \<Rightarrow> nat \<Rightarrow> byte list \<Rightarrow> nat \<Rightarrow> byte list option" where
  "get_data_with_offset fmt index data offset =
     (if length fmt \<le> index then Ret []
      else do {
        field \<leftarrow> at fmt index;
        get_data_with_offset_direct (ef_size field) (ef_location field) (ef_offset field + offset) data
      })"

definition get_data :: "event_format \<Rightarrow> nat \<Rightarrow> byte list \<Rightarrow> byte list option" where
  "get_data fmt index data = get_data_with_offset fmt index data 0"

definition get_rel_loc :: "event_format \<Rightarrow> nat \<Rightarrow> byte list \<Rightarrow> (err + nat \<times> nat) option" where
  "get_rel_loc fmt index data =
     (if length fmt \<le> index then Ret (Inl ''Invalid field ref'')
      else do {
        field \<leftarrow> at fmt index;
        if ef_size field \<noteq> 4 then Ret (Inl ''Field size must be 4'')
        else if length data < ef_offset field + 4 then Ret (Inl not_enough)
        else do {
          sl \<leftarrow> subslice data (ef_offset field) (ef_offset field + 4);
          let rel_loc = u32_of sl;
          let start = ef_offset field + 4 + unat (rel_loc AND 0xFFFF);
          let stop = start + unat (drop_bit 16 rel_loc);
          if length data < stop then Ret (Inl not_enough) else Ret (Inr (start, stop))
        }
      })"

definition format_get_u64 :: "event_format \<Rightarrow> nat \<Rightarrow> byte list \<Rightarrow> (err + u64) option" where
  "format_get_u64 fmt i data = map_option read_u64 (get_data fmt i data)"
definition format_try_get_u64 :: "event_format \<Rightarrow> nat \<Rightarrow> byte list \<Rightarrow> u64 option option" where
  "format_try_get_u64 fmt i data = map_option (ok_value \<circ> read_u64) (get_data fmt i data)"
definition format_get_u32 :: "event_format \<Rightarrow> nat \<Rightarrow> byte list \<Rightarrow> (err + u32) option" where
  "format_get_u32 fmt i data = map_option read_u32 (get_data fmt i data)"
definition format_try_get_u32 :: "event_format \<Rightarrow> nat \<Rightarrow> byte list \<Rightarrow> u32 option option" where
  "format_try_get_u32 fmt i data = map_option (ok_value \<circ> read_u32) (get_data fmt i data)"
definition format_get_u16 :: "event_format \<Rightarrow> nat \<Rightarrow> byte list \<Rightarrow> (err + u16) option" where
  "format_get_u16 fmt i data = map_option read_u16 (get_data fmt i data)"
definition format_try_get_u16 :: "event_format \<Rightarrow> nat \<Rightarrow> byte list \<Rightarrow> u16 option option" where
  "format_try_get_u16 fmt i data = map_option (ok_value \<circ> read_u16) (get_data fmt i data)"
definition format_get_u8 :: "event_format \<Rightarrow> nat \<Rightarrow> byte list \<Rightarrow> (err + byte) option" where
  "format_get_u8 fmt i data = map_option read_u8 (get_data fmt i data)"
definition format_try_get_u8 :: "event_format \<Rightarrow> nat \<Rightarrow> byte list \<Rightarrow> byte option option" where
  "format_try_get_u8 fmt i data = map_option (ok_value \<circ> read_u8) (get_data fmt i data)"

text \<open>\<open>std::str::from_utf8\<close>, the well-formed byte sequences of the Unicode standard; the
  error is its kind only. A \<open>&str\<close> is its bytes.\<close>

definition cont :: "byte \<Rightarrow> bool" where
  "cont b \<longleftrightarrow> 0x80 \<le> b \<and> b \<le> 0xBF"

fun utf8_valid :: "byte list \<Rightarrow> bool" where
  "utf8_valid [] = True"
| "utf8_valid (a # bs) =
     (if a \<le> 0x7F then utf8_valid bs
      else if 0xC2 \<le> a \<and> a \<le> 0xDF then
        (case bs of b # cs \<Rightarrow> cont b \<and> utf8_valid cs | _ \<Rightarrow> False)
      else if 0xE0 \<le> a \<and> a \<le> 0xEF then
        (case bs of b # c # ds \<Rightarrow> cont b \<and> cont c \<and> (a = 0xE0 \<longrightarrow> 0xA0 \<le> b) \<and>
             (a = 0xED \<longrightarrow> b \<le> 0x9F) \<and> utf8_valid ds
         | _ \<Rightarrow> False)
      else if 0xF0 \<le> a \<and> a \<le> 0xF4 then
        (case bs of b # c # d # es \<Rightarrow> cont b \<and> cont c \<and> cont d \<and> (a = 0xF0 \<longrightarrow> 0x90 \<le> b) \<and>
             (a = 0xF4 \<longrightarrow> b \<le> 0x8F) \<and> utf8_valid es
         | _ \<Rightarrow> False)
      else False)"

definition read_str :: "byte list \<Rightarrow> err + byte list" where
  "read_str sl = (if sl = [] then Inr [] else if utf8_valid sl then Inr sl else Inl ''invalid utf-8'')"

definition format_get_str :: "event_format \<Rightarrow> nat \<Rightarrow> byte list \<Rightarrow> (err + byte list) option" where
  "format_get_str fmt i data = map_option read_str (get_data fmt i data)"

definition format_try_get_str :: "event_format \<Rightarrow> nat \<Rightarrow> byte list \<Rightarrow> byte list option option" where
  "format_try_get_str fmt i data = map_option (ok_value \<circ> read_str) (get_data fmt i data)"


section \<open>Reads stay inside the payload\<close>

text \<open>\<open>returns_part r data\<close>: the call returns, with a contiguous part of the payload.\<close>

definition part_of :: "'a list \<Rightarrow> 'a list \<Rightarrow> bool" where
  "part_of v data \<longleftrightarrow> (\<exists>pre post. data = pre @ v @ post)"

definition returns_part :: "byte list option \<Rightarrow> byte list \<Rightarrow> bool" where
  "returns_part r data \<longleftrightarrow> (case r of Some v \<Rightarrow> part_of v data | None \<Rightarrow> False)"

lemma part_of_Nil [simp]: "part_of [] data"
  unfolding part_of_def by (metis append_Nil)

lemma part_of_take_drop [simp]: "part_of (take n (drop m data)) data"
  unfolding part_of_def
  by (metis append_take_drop_id)

lemma part_of_take_self [simp]: "part_of (take n data) data"
  using part_of_take_drop [of n 0 data] by simp

lemma returns_part_simps [simp]:
  "returns_part (Some v) data = part_of v data" "returns_part None data = False"
  by (simp_all add: returns_part_def)

lemma subslice_drop_part: "b \<le> length data - m \<Longrightarrow> a \<le> b \<Longrightarrow> returns_part (subslice (drop m data) a b) data"
  by (simp add: subslice_ok drop_drop)

lemma returns_part_subslice: "a \<le> b \<Longrightarrow> b \<le> length data \<Longrightarrow> returns_part (subslice data a b) data"
  by (simp add: subslice_ok)

lemma null_len_le: "null_len bs \<le> length bs"
  by (induction bs) auto

lemma utf16_null_len_le: "utf16_null_len bs \<le> length bs"
  by (induction bs rule: utf16_null_len.induct) auto

lemma direct_part: "returns_part (get_data_with_offset_direct sz loc offset data) data"
proof (cases loc)
  case Static
  then show ?thesis by (simp add: returns_part_subslice)
next
  case StaticString
  have "null_len (drop offset data) \<le> length data - offset"
    using null_len_le [of "drop offset data"] by simp
  with StaticString show ?thesis by (simp add: slice_from_ok subslice_drop_part)
next
  case StaticUTF16String
  have "utf16_null_len (drop offset data) \<le> length data - offset"
    using utf16_null_len_le [of "drop offset data"] by simp
  with StaticUTF16String show ?thesis by (simp add: slice_from_ok subslice_drop_part)
next
  case StaticLenPrefixArray
  then show ?thesis
    by (auto simp: slice_from_ok subslice_ok Let_def drop_drop)
next
  case DynRelative
  then show ?thesis by (auto simp: at_ok Let_def intro!: returns_part_subslice)
next
  case DynAbsolute
  then show ?thesis by (auto simp: at_ok Let_def intro!: returns_part_subslice)
qed

lemma run_skips_returns: "\<exists>r. run_skips skips data k = Some r"
proof (induction skips arbitrary: k)
  case Nil
  then show ?case by simp
next
  case (Cons skip skips)
  then show ?case
    by (auto simp: Let_def slice_from_ok subslice_ok split: location_type.split)
qed

lemma closure_part: "returns_part (get_field_data_closure offset sz loc skips data) data"
  using run_skips_returns [of skips data 0]
  by (auto simp: get_field_data_closure_def direct_part split: option.split)

lemma data_closure_part:
  "data_closure_from fs name offset skips = Some c \<Longrightarrow> returns_part (c data) data"
  by (induction fs name offset skips rule: data_closure_from.induct)
    (auto simp: direct_part closure_part simp del: get_data_with_offset_direct.simps split: if_splits option.splits location_type.splits)

lemma get_data_part: "returns_part (get_data fmt i data) data"
  by (simp add: get_data_def get_data_with_offset_def at_ok direct_part)



section \<open>Round trip of sequential payloads\<close>

text \<open>
  The contract of a field closure: a payload that is the fields' encodings one after the
  other gives back each field's value. \<open>enc_value\<close> is the encoding the decoders expect:
  a sized field is its bytes, a string ends in a null (a null unit for UTF-16), an array is
  prefixed by its element count in a \<open>u16\<close>.
\<close>

definition elem_size :: "event_field \<Rightarrow> nat" where
  "elem_size f = (case try_get_element_size (ef_type_name f) of Some n \<Rightarrow> unat n | None \<Rightarrow> 0)"

definition value_ok :: "event_field \<Rightarrow> byte list \<Rightarrow> bool" where
  "value_ok f v = (if 0 < ef_size f then ef_location f = Static \<and> length v = ef_size f
     else (case ef_location f of
         StaticString \<Rightarrow> 0 \<notin> set v
       | StaticUTF16String \<Rightarrow> even (length v) \<and> utf16_null_len v = length v
       | StaticLenPrefixArray \<Rightarrow> 0 < elem_size f \<and> elem_size f dvd length v \<and> length v div elem_size f < 65536
       | _ \<Rightarrow> False))"

definition enc_value :: "event_field \<Rightarrow> byte list \<Rightarrow> byte list" where
  "enc_value f v = (if 0 < ef_size f then v
     else (case ef_location f of
         StaticString \<Rightarrow> v @ [0]
       | StaticUTF16String \<Rightarrow> v @ [0, 0]
       | StaticLenPrefixArray \<Rightarrow> u16_bytes (of_nat (length v div elem_size f)) @ v
       | _ \<Rightarrow> v))"

fun encode_fields :: "event_format \<Rightarrow> byte list list \<Rightarrow> byte list" where
  "encode_fields (f # fs) (v # vs) = enc_value f v @ encode_fields fs vs"
| "encode_fields _ _ = []"

text \<open>The static part of the layout: up to the first dynamic field, a field's offset is the
  sum of the sizes before it.\<close>

fun packed_from :: "nat \<Rightarrow> event_format \<Rightarrow> bool" where
  "packed_from k [] = True"
| "packed_from k (f # fs) =
     (ef_offset f = k \<and> (if ef_size f = 0 then True else packed_from (k + ef_size f) fs))"

lemma null_len_enc: "0 \<notin> set v \<Longrightarrow> null_len (v @ 0 # rest) = length v"
  by (induction v) auto

lemma skip_string_enc: "0 \<notin> set v \<Longrightarrow> skip_string (v @ 0 # rest) = Suc (length v)"
  by (induction v) auto

lemma utf16_null_len_enc:
  "even (length v) \<Longrightarrow> utf16_null_len v = length v \<Longrightarrow> utf16_null_len (v @ 0 # 0 # rest) = length v"
  by (induction v rule: utf16_null_len.induct) (auto split: if_splits)

lemma skip_utf16_enc:
  "even (length v) \<Longrightarrow> utf16_null_len v = length v \<Longrightarrow> skip_utf16 (v @ 0 # 0 # rest) = length v + 2"
  by (induction v rule: utf16_null_len.induct) (auto split: if_splits)

lemma run_skips_append:
  "run_skips (xs @ [s]) data k =
     (case run_skips xs data k of None \<Rightarrow> None | Some None \<Rightarrow> Some None
      | Some (Some k') \<Rightarrow> run_skips [s] data k')"
proof (induction xs arbitrary: k)
  case Nil
  then show ?case by (simp del: run_skips.simps(2))
next
  case (Cons x xs)
  show ?case
  proof (cases "k + skip_off x \<le> length data")
    case True
    then show ?thesis
      unfolding append_Cons run_skips.simps(2) [of x] Let_def
      by (cases "skip_loc x")
        (simp_all add: slice_from_ok subslice_ok Cons.IH not_less del: run_skips.simps)
  next
    case False
    then show ?thesis by (simp add: Let_def)
  qed
qed

text \<open>What the skip of a dynamic field adds: the length of its encoding.\<close>

definition skip_of :: "event_field \<Rightarrow> nat \<Rightarrow> field_skip" where
  "skip_of f offset = \<lparr>skip_loc = ef_location f, skip_off = offset,
     skip_size = (if ef_location f = StaticLenPrefixArray then try_get_element_size (ef_type_name f) else None)\<rparr>"

lemma value_ok_array:
  assumes "value_ok f v" "ef_size f = 0" "ef_location f = StaticLenPrefixArray"
  shows "try_get_element_size (ef_type_name f) = Some (of_nat (elem_size f))"
    and "unat (of_nat (elem_size f) :: u16) = elem_size f" "0 < elem_size f"
    and "unat (of_nat (length v div elem_size f) :: u16) * elem_size f = length v"
proof -
  from assms obtain n where n: "try_get_element_size (ef_type_name f) = Some n"
    by (auto simp: value_ok_def elem_size_def split: option.splits)
  then have e: "elem_size f = unat n" by (simp add: elem_size_def)
  with n show "try_get_element_size (ef_type_name f) = Some (of_nat (elem_size f))" by simp
  show "unat (of_nat (elem_size f) :: u16) = elem_size f" by (simp add: e)
  show "0 < elem_size f" using assms by (simp add: value_ok_def)
  have "elem_size f dvd length v" "length v div elem_size f < 65536"
    using assms by (simp_all add: value_ok_def)
  then show "unat (of_nat (length v div elem_size f) :: u16) * elem_size f = length v"
    by (simp add: unat_of_nat_word)
qed

lemma run_skip_of:
  assumes "value_ok f v" "ef_size f = 0" "length pre = k + offset"
  shows "run_skips [skip_of f offset] (pre @ enc_value f v @ rest) k =
    Some (Some (k + length (enc_value f v)))"
proof (cases "ef_location f")
  case StaticString
  with assms show ?thesis
    by (simp add: skip_of_def enc_value_def value_ok_def slice_from_ok skip_string_enc)
next
  case StaticUTF16String
  with assms show ?thesis
    by (simp add: skip_of_def enc_value_def value_ok_def slice_from_ok skip_utf16_enc)
next
  case StaticLenPrefixArray
  note a = value_ok_array [OF assms(1,2) this]
  show ?thesis
    using assms StaticLenPrefixArray a
    by (simp add: skip_of_def enc_value_def slice_from_ok subslice_ok mult.commute)
qed (use assms in \<open>simp_all add: value_ok_def\<close>)

lemma direct_enc:
  assumes "value_ok f v" "length pre = offset"
    "sz = (if ef_size f = 0 \<and> ef_location f = StaticLenPrefixArray then elem_size f else ef_size f)"
  shows "get_data_with_offset_direct sz (ef_location f) offset (pre @ enc_value f v @ rest) = Some v"
proof (cases "0 < ef_size f")
  case True
  with assms show ?thesis by (simp add: value_ok_def enc_value_def subslice_ok)
next
  case zero: False
  show ?thesis
  proof (cases "ef_location f")
    case StaticString
    with assms zero show ?thesis
      by (simp add: enc_value_def value_ok_def slice_from_ok subslice_ok null_len_enc)
  next
    case StaticUTF16String
    with assms zero show ?thesis
      by (simp add: enc_value_def value_ok_def slice_from_ok subslice_ok utf16_null_len_enc)
  next
    case StaticLenPrefixArray
    note a = value_ok_array [OF assms(1) _ this]
    show ?thesis
      using assms StaticLenPrefixArray a zero
      by (simp add: enc_value_def slice_from_ok subslice_ok mult.commute)
  qed (use assms zero in \<open>simp_all add: value_ok_def\<close>)
qed

lemma get_field_ref_from_shift:
  "get_field_ref_from (Suc n) fs name = map_option Suc (get_field_ref_from n fs name)"
  by (induction fs arbitrary: n) auto

lemma closure_size:
  assumes "value_ok f v"
  shows "(if ef_size f = 0 \<and> ef_location f = StaticLenPrefixArray
      then map_option unat (try_get_element_size (ef_type_name f)) else Some (ef_size f)) =
    Some (if ef_size f = 0 \<and> ef_location f = StaticLenPrefixArray then elem_size f else ef_size f)"
  using value_ok_array(1,2) [OF assms] by auto

text \<open>A field that is passed over extends the prefix by its encoding.\<close>

lemma data_closure_step:
  assumes "value_ok f v" "ef_name f \<noteq> name"
  shows "data_closure_from (f # fs) name offset skips =
    (if ef_size f = 0 then data_closure_from fs name offset (skips @ [skip_of f offset])
     else data_closure_from fs name (offset + ef_size f) skips)"
proof (cases "ef_size f = 0")
  case True
  show ?thesis
  proof (cases "ef_location f")
    case StaticLenPrefixArray
    then show ?thesis using assms True value_ok_array(1) [OF assms(1) True] by (simp add: skip_of_def)
  qed (use assms True in \<open>simp_all add: skip_of_def value_ok_def\<close>)
qed (use assms in simp)

lemma data_closure_roundtrip:
  assumes "list_all2 value_ok fs vs" "get_field_ref_from 0 fs name = Some i"
    "length pre = offset + k" "\<And>rest. run_skips skips (pre @ rest) 0 = Some (Some k)"
    "skips = [] \<Longrightarrow> k = 0 \<and> packed_from offset fs"
  shows "\<exists>c. data_closure_from fs name offset skips = Some c \<and>
    (\<forall>rest. c (pre @ encode_fields fs vs @ rest) = Some (vs ! i))"
  using assms
proof (induction fs arbitrary: vs i pre offset k skips)
  case Nil
  then show ?case by simp
next
  case (Cons f fs)
  then obtain v vs' where vs: "vs = v # vs'" "value_ok f v" "list_all2 value_ok fs vs'"
    by (auto simp: list_all2_Cons1)
  let ?sz = "if ef_size f = 0 \<and> ef_location f = StaticLenPrefixArray then elem_size f else ef_size f"
  show ?case
  proof (cases "ef_name f = name")
    case True
    then have i: "i = 0" using Cons.prems(2) by simp
    have d: "get_data_with_offset_direct ?sz (ef_location f) (offset + k)
        (pre @ enc_value f v @ encode_fields fs vs' @ rest) = Some v" for rest
      by (rule direct_enc [OF vs(2) Cons.prems(3) refl])
    show ?thesis
    proof (cases "skips = []")
      case True
      then have "k = 0" "ef_offset f = offset" using Cons.prems(5) by simp_all
      then show ?thesis
        using d True i vs \<open>ef_name f = name\<close> closure_size [OF vs(2)]
        by (simp del: get_data_with_offset_direct.simps)
    next
      case False
      then show ?thesis
        using d i vs \<open>ef_name f = name\<close> closure_size [OF vs(2)] Cons.prems(4)
        by (simp add: get_field_data_closure_def del: get_data_with_offset_direct.simps run_skips.simps)
    qed
  next
    case other: False
    then obtain i' where i': "i = Suc i'" "get_field_ref_from 0 fs name = Some i'"
      using Cons.prems(2) get_field_ref_from_shift [of 0 fs name] by auto
    show ?thesis
    proof (cases "ef_size f = 0")
      case True
      let ?skips = "skips @ [skip_of f offset]"
      have run: "run_skips ?skips ((pre @ enc_value f v) @ rest) 0 = Some (Some (k + length (enc_value f v)))" for rest
        using run_skip_of [OF vs(2) True, of pre k offset rest] Cons.prems(3,4)
        by (simp add: run_skips_append add.commute del: run_skips.simps)
      have len: "length (pre @ enc_value f v) = offset + (k + length (enc_value f v))"
        using Cons.prems(3) by simp
      from Cons.IH [OF vs(3) i'(2) len run] show ?thesis
        using i' vs data_closure_step [OF vs(2) other] True by simp
    next
      case False
      have enc: "enc_value f v = v" "length v = ef_size f"
        using vs(2) False by (simp_all add: enc_value_def value_ok_def)
      have len: "length (pre @ v) = (offset + ef_size f) + k" using enc Cons.prems(3) by simp
      have run: "run_skips skips ((pre @ v) @ rest) 0 = Some (Some k)" for rest
        using Cons.prems(4) [of "v @ rest"] by simp
      have "skips = [] \<Longrightarrow> k = 0 \<and> packed_from (offset + ef_size f) fs"
        using Cons.prems(5) False by simp
      from Cons.IH [OF vs(3) i'(2) len run this] show ?thesis
        using i' vs data_closure_step [OF vs(2) other] False enc by simp
    qed
  qed
qed

text \<open>C29. Round trip of field access: when the payload is the encoding of the fields' values one
  after the other (followed by anything), the fields before the first variable-sized one are packed
  and every value fits its field, the closure for a name exists and returns the value of the first
  field of that name, strings without their terminators and arrays without their length prefix.\<close>

theorem field_closure_roundtrip:
  assumes "list_all2 value_ok fmt vs" "packed_from 0 fmt" "get_field_ref fmt name = Some i"
  shows "\<exists>c. try_get_field_data_closure fmt name = Some c \<and>
    (\<forall>rest. c (encode_fields fmt vs @ rest) = Some (vs ! i))"
  using data_closure_roundtrip [OF assms(1) assms(3) [unfolded get_field_ref_def], of "[]" 0 0 "[]"] assms(2)
  by (simp add: try_get_field_data_closure_def)

theorem field_closure_roundtrip_witness:
  "\<exists>c. try_get_field_data_closure
      [\<lparr>ef_name = ''id'', ef_type_name = ''u8'', ef_location = Static, ef_offset = 0, ef_size = 1\<rparr>,
       \<lparr>ef_name = ''s'', ef_type_name = ''string'', ef_location = StaticString, ef_offset = 1, ef_size = 0\<rparr>,
       \<lparr>ef_name = ''a'', ef_type_name = ''__dyn_array unsigned short'', ef_location = StaticLenPrefixArray, ef_offset = 1, ef_size = 0\<rparr>,
       \<lparr>ef_name = ''w'', ef_type_name = ''wstring'', ef_location = StaticUTF16String, ef_offset = 1, ef_size = 0\<rparr>] ''w'' = Some c \<and>
    c [7, 65, 66, 0, 2, 0, 1, 2, 3, 4, 88, 0, 0, 0, 99] = Some [88, 0]"
proof -
  let ?fmt = "[\<lparr>ef_name = ''id'', ef_type_name = ''u8'', ef_location = Static, ef_offset = 0, ef_size = 1\<rparr>,
       \<lparr>ef_name = ''s'', ef_type_name = ''string'', ef_location = StaticString, ef_offset = 1, ef_size = 0\<rparr>,
       \<lparr>ef_name = ''a'', ef_type_name = ''__dyn_array unsigned short'', ef_location = StaticLenPrefixArray, ef_offset = 1, ef_size = 0\<rparr>,
       \<lparr>ef_name = ''w'', ef_type_name = ''wstring'', ef_location = StaticUTF16String, ef_offset = 1, ef_size = 0\<rparr>]"
  let ?vs = "[[7], [65, 66], [1, 2, 3, 4], [88, 0]] :: byte list list"
  have sz: "try_get_element_size ''__dyn_array unsigned short'' = Some 2" by code_simp
  have ok: "list_all2 value_ok ?fmt ?vs"
    by (simp add: value_ok_def elem_size_def sz)
  have enc: "encode_fields ?fmt ?vs @ [99] = [7, 65, 66, 0, 2, 0, 1, 2, 3, 4, 88, 0, 0, 0, 99]"
    by code_simp
  have "get_field_ref ?fmt ''w'' = Some 3" by (simp add: get_field_ref_def)
  from field_closure_roundtrip [OF ok _ this] enc show ?thesis by fastforce
qed

section \<open>Relative locations and field references\<close>

text \<open>The two decoders of a relative location agree: for a 4-byte field marked relative,
  \<open>get_rel_loc\<close> never panics; when it returns a range, \<open>get_data\<close> returns exactly the payload's
  bytes in that range; when it returns an error, \<open>get_data\<close> returns the empty slice.\<close>

theorem rel_loc_agrees:
  assumes "i < length fmt" "ef_location (fmt ! i) = DynRelative" "ef_size (fmt ! i) = 4"
  shows "case get_rel_loc fmt i data of
      None \<Rightarrow> False
    | Some (Inl e) \<Rightarrow> get_data fmt i data = Some []
    | Some (Inr (a, b)) \<Rightarrow> a \<le> b \<and> b \<le> length data \<and> get_data fmt i data = subslice data a b"
proof -
  let ?o = "ef_offset (fmt ! i)"
  show ?thesis
  proof (cases "length data < ?o + 4")
    case True
    then show ?thesis
      using assms by (simp add: get_rel_loc_def get_data_def get_data_with_offset_def at_ok Let_def)
  next
    case False
    then have four: "take 4 (drop ?o data) = [data ! ?o, data ! (?o + 1), data ! (?o + 2), data ! (?o + 3)]"
      by (subst (1) Cons_nth_drop_Suc [symmetric], simp, subst (1) Cons_nth_drop_Suc [symmetric], simp,
        subst (1) Cons_nth_drop_Suc [symmetric], simp, subst (1) Cons_nth_drop_Suc [symmetric], simp)
      (simp add: numeral_eq_Suc)
    show ?thesis
      using assms False four
      by (simp add: get_rel_loc_def get_data_def get_data_with_offset_def at_ok subslice_ok Let_def
            ac_simps)
  qed
qed

theorem rel_loc_agrees_witness:
  "get_rel_loc [\<lparr>ef_name = ''m'', ef_type_name = ''__rel_loc char[]'', ef_location = DynRelative, ef_offset = 1, ef_size = 4\<rparr>]
      0 [9, 1, 0, 2, 0, 50, 60, 70] = Some (Inr (6, 8)) \<and>
   get_data [\<lparr>ef_name = ''m'', ef_type_name = ''__rel_loc char[]'', ef_location = DynRelative, ef_offset = 1, ef_size = 4\<rparr>]
      0 [9, 1, 0, 2, 0, 50, 60, 70] = Some [60, 70]"
proof -
  let ?fmt = "[\<lparr>ef_name = ''m'', ef_type_name = ''__rel_loc char[]'', ef_location = DynRelative, ef_offset = 1, ef_size = 4\<rparr>]"
  have r: "get_rel_loc ?fmt 0 [9, 1, 0, 2, 0, 50, 60, 70] = Some (Inr (6, 8))"
    by (simp add: get_rel_loc_def at_def subslice_def u32_of_def Let_def)
  from rel_loc_agrees [of 0 ?fmt "[9, 1, 0, 2, 0, 50, 60, 70]"] r show ?thesis
    by (simp add: subslice_def)
qed

lemma field_ref_get_update:
  assumes "start + len < 2 ^ 32"
  shows "field_ref_get_data (snd (field_ref_update field start len)) data =
    Some (if start + len \<le> length data then take len (drop start data) else [])"
proof -
  have "unat (of_nat start :: u32) = start" "unat (of_nat (start + len) :: u32) = start + len"
    using assms by (simp_all only: unat_of_nat_word)
  then show ?thesis
    by (simp add: field_ref_get_data_def field_ref_update_def subslice_ok del: of_nat_add)
qed

text \<open>A data field reference designates the range it was last updated to: below the 4 GiB that
  its \<open>u32\<close> ends can hold, \<open>get_data\<close> returns those bytes of the payload, or the empty slice when
  they are not all there, and never panics. Once the end does not fit in 32 bits both ends are
  truncated, and a reference that straddles the limit makes \<open>get_data\<close> panic on any payload that
  reaches the truncated end.\<close>

theorem field_ref_designates:
  "(start + len < 2 ^ 32 \<longrightarrow>
     field_ref_get_data (snd (field_ref_update field start len)) data =
       Some (if start + len \<le> length data then take len (drop start data) else [])) \<and>
   (start < 2 ^ 32 \<and> 2 ^ 32 \<le> start + len \<and> len < 2 ^ 32 \<and> start + len - 2 ^ 32 \<le> length data \<and>
     0 < len \<longrightarrow>
     field_ref_get_data (snd (field_ref_update field start len)) data = None)"
proof (intro conjI impI)
  assume "start + len < 2 ^ 32"
  then show "field_ref_get_data (snd (field_ref_update field start len)) data =
       Some (if start + len \<le> length data then take len (drop start data) else [])"
    by (rule field_ref_get_update)
next
  assume a: "start < 2 ^ 32 \<and> 2 ^ 32 \<le> start + len \<and> len < 2 ^ 32 \<and>
    start + len - 2 ^ 32 \<le> length data \<and> 0 < len"
  define stop where "stop = start + len"
  have "stop mod 2 ^ 32 = (stop - 2 ^ 32) mod 2 ^ 32" using a by (simp add: le_mod_geq stop_def)
  also have "\<dots> = stop - 2 ^ 32"
    by (rule mod_less) (use a in \<open>unfold stop_def, linarith\<close>)
  finally have "unat (of_nat stop :: u32) = stop - 2 ^ 32" by (simp add: unat_of_nat take_bit_eq_mod)
  moreover have "unat (of_nat start :: u32) = start" using a by (simp add: unat_of_nat_word)
  moreover have "\<not> start \<le> stop - 2 ^ 32" "\<not> length data < stop - 2 ^ 32"
    using a unfolding stop_def by linarith+
  ultimately show "field_ref_get_data (snd (field_ref_update field start len)) data = None"
    by (simp add: field_ref_get_data_def field_ref_update_def stop_def [symmetric] subslice_def del: of_nat_add)
qed

theorem field_ref_designates_witness:
  "field_ref_get_data (snd (field_ref_update data_field_default 1 2)) [5, 6, 7, 8] = Some [6, 7] \<and>
   field_ref_get_data (snd (field_ref_update data_field_default 4294967295 2)) [5, 6] = None"
  using field_ref_designates [of 1 2 data_field_default "[5, 6, 7, 8]"]
    field_ref_designates [of 4294967295 2 data_field_default "[5, 6]"]
  by simp

text \<open>The typed readers read back what was written: after a reference is updated to where a
  number's little-endian bytes start, with its width as length, \<open>get_uN\<close> and \<open>try_get_uN\<close> return
  that number, and a payload that ends before it gives the error and \<open>None\<close>.\<close>

theorem field_ref_typed_roundtrip:
  assumes "length pre + 8 < 2 ^ 32"
  shows "field_ref_get_u64 (snd (field_ref_update field (length pre) 8)) (pre @ u64_bytes a @ rest) = Some (Inr a) \<and>
    field_ref_try_get_u32 (snd (field_ref_update field (length pre) 4)) (pre @ u32_bytes b @ rest) = Some (Some b) \<and>
    field_ref_get_u16 (snd (field_ref_update field (length pre) 2)) (pre @ u16_bytes c @ rest) = Some (Inr c) \<and>
    (n < 8 \<longrightarrow>
      field_ref_get_u64 (snd (field_ref_update field (length pre) 8)) (pre @ take n (u64_bytes a)) = Some (Inl not_enough) \<and>
      field_ref_try_get_u64 (snd (field_ref_update field (length pre) 8)) (pre @ take n (u64_bytes a)) = Some None)"
  using assms
  by (simp add: field_ref_get_u64_def field_ref_try_get_u32_def field_ref_get_u16_def
      field_ref_try_get_u64_def field_ref_get_update read_u64_def read_u32_def read_u16_def ok_value_def)

theorem field_ref_typed_roundtrip_witness:
  "field_ref_get_u16 (snd (field_ref_update data_field_default 1 2)) [9, 0x34, 0x12, 0] = Some (Inr 0x1234)"
proof -
  have "u16_bytes 0x1234 = [0x34, 0x12]" by code_simp
  then show ?thesis
    using field_ref_typed_roundtrip [of "[9]" data_field_default 0 "[0]" 0 "0x1234" 0] by simp
qed

end
