(* ===== verification/EventText.thy ===== *)
theory EventText
  imports EventFormat
begin

text \<open>
  The text side of \<open>one_collect/src/event/mod.rs\<close>: field filters
  (\<open>try_get_field_filter_closure\<close>) and field printing (\<open>try_get_field_write_closure\<close>,
  \<open>get_write_closure\<close>). A \<open>&str\<close> value is its list of code points (\<open>chars()\<close>), with its
  bytes by UTF-8; integers are \<open>int\<close> with the range of their type written out. The printing
  of floating point numbers is a parameter (\<open>show32\<close>, \<open>show64\<close>, from the bytes).
\<close>

section \<open>Text\<close>

type_synonym ustr = "nat list"

definition code_points :: "string \<Rightarrow> ustr" where
  "code_points s = map of_char s"

definition utf8_char :: "nat \<Rightarrow> byte list" where
  "utf8_char c =
     (if c < 0x80 then [of_nat c]
      else if c < 0x800 then [of_nat (0xC0 + c div 64), of_nat (0x80 + c mod 64)]
      else if c < 0x10000 then
        [of_nat (0xE0 + c div 4096), of_nat (0x80 + c div 64 mod 64), of_nat (0x80 + c mod 64)]
      else [of_nat (0xF0 + c div 262144), of_nat (0x80 + c div 4096 mod 64),
            of_nat (0x80 + c div 64 mod 64), of_nat (0x80 + c mod 64)])"

definition as_bytes :: "ustr \<Rightarrow> byte list" where
  "as_bytes s = concat (map utf8_char s)"

text \<open>\<open>c as u16\<close> truncates.\<close>

definition utf16_truncated :: "ustr \<Rightarrow> byte list" where
  "utf16_truncated s = concat (map (\<lambda>c. u16_bytes (of_nat c)) s)"

section \<open>Numbers\<close>

text \<open>\<open>str::parse\<close> of an integer type: an optional \<open>+\<close> (or \<open>-\<close> for a signed type), at least
  one digit, digits only, and in range. The width is in bytes.\<close>

fun parse_digits :: "ustr \<Rightarrow> nat \<Rightarrow> nat option" where
  "parse_digits [] acc = Some acc"
| "parse_digits (c # cs) acc =
     (if 48 \<le> c \<and> c \<le> 57 then parse_digits cs (10 * acc + (c - 48)) else None)"

definition in_range :: "bool \<Rightarrow> nat \<Rightarrow> int \<Rightarrow> bool" where
  "in_range sg w v \<longleftrightarrow>
     (if sg then - (2 ^ (8 * w - 1)) \<le> v \<and> v < 2 ^ (8 * w - 1) else 0 \<le> v \<and> v < 2 ^ (8 * w))"

definition parse_int :: "bool \<Rightarrow> nat \<Rightarrow> ustr \<Rightarrow> int option" where
  "parse_int sg w s =
     (let (neg, digits) = (case s of
          [] \<Rightarrow> (False, [])
        | c # cs \<Rightarrow> if c = 43 then (False, cs) else if c = 45 \<and> sg then (True, cs) else (False, s))
      in if digits = [] then None
         else (case parse_digits digits 0 of
             None \<Rightarrow> None
           | Some n \<Rightarrow> let v = (if neg then - int n else int n)
                       in if in_range sg w v then Some v else None))"

text \<open>\<open>from_ne_bytes\<close> of an integer type.\<close>

definition int_of_bytes :: "bool \<Rightarrow> byte list \<Rightarrow> int" where
  "int_of_bytes sg bs =
     (let n = int (le_nat bs)
      in if sg \<and> 2 ^ (8 * length bs - 1) \<le> n then n - 2 ^ (8 * length bs) else n)"

definition bytes_of_int :: "nat \<Rightarrow> int \<Rightarrow> byte list" where
  "bytes_of_int w v = to_le w (nat (v mod 2 ^ (8 * w)))"

section \<open>Filters\<close>

definition is_text_type :: "string \<Rightarrow> bool" where
  "is_text_type t \<longleftrightarrow> t \<in> {''char'', ''unsigned char'', ''string'', ''wstring'', ''wchar''}"

text \<open>The numeric types of a filter: signedness and width.\<close>

definition filter_num_type :: "string \<Rightarrow> (bool \<times> nat) option" where
  "filter_num_type t =
     (if t = ''u8'' then Some (False, 1) else if t = ''s8'' then Some (True, 1)
      else if t \<in> {''u16'', ''unsigned short''} then Some (False, 2)
      else if t \<in> {''s16'', ''short''} then Some (True, 2)
      else if t \<in> {''u32'', ''unsigned int''} then Some (False, 4)
      else if t \<in> {''s32'', ''int''} then Some (True, 4)
      else if t \<in> {''u64'', ''unsigned long''} then Some (False, 8)
      else if t \<in> {''s64'', ''long''} then Some (True, 8)
      else None)"

definition compare_op :: "string \<Rightarrow> int \<Rightarrow> int \<Rightarrow> bool" where
  "compare_op op a b =
     (if op = ''>'' then a > b else if op = ''>='' then a \<ge> b else if op = ''=='' then a = b
      else if op = ''!='' then a \<noteq> b else if op = ''<'' then a < b else a \<le> b)"

definition numeric_ops :: "string list" where
  "numeric_ops = [''>'', ''>='', ''<'', ''<='', ''=='', ''!='']"

definition string_ops :: "string list" where
  "string_ops = [''contains'', ''not_contains'', ''starts_with'', ''ends_with'', ''equals'', ''not_equals'']"

text \<open>The bytes a string value is compared by, and whether they are UTF-16.\<close>

definition filter_bytes :: "string \<Rightarrow> ustr \<Rightarrow> (byte list \<times> bool) option" where
  "filter_bytes t value =
     (if t \<in> {''char'', ''unsigned char'', ''string''} then Some (as_bytes value, False)
      else if t \<in> {''wchar'', ''wstring''} then Some (utf16_truncated value, True)
      else None)"

text \<open>The null-trimming macros.\<close>

definition utf8_null_term :: "byte list \<Rightarrow> byte list" where
  "utf8_null_term sl = takeWhile (\<lambda>b. b \<noteq> 0) sl"

fun first_null_unit :: "nat \<Rightarrow> byte list \<Rightarrow> nat option" where
  "first_null_unit i (a # b # bs) = (if a = 0 \<and> b = 0 then Some i else first_null_unit (Suc i) bs)"
| "first_null_unit i _ = None"

definition utf16_null_term :: "byte list \<Rightarrow> byte list" where
  "utf16_null_term sl = (case first_null_unit 0 sl of Some i \<Rightarrow> take (2 * i) sl | None \<Rightarrow> sl)"

text \<open>\<open>windows(len)\<close> panics for a length of zero.\<close>

definition windows :: "nat \<Rightarrow> 'a list \<Rightarrow> 'a list list option" where
  "windows n xs =
     (if n = 0 then Panic
      else Ret (if length xs < n then [] else map (\<lambda>i. take n (drop i xs)) [0..<Suc (length xs - n)]))"

definition starts_with :: "'a list \<Rightarrow> 'a list \<Rightarrow> bool" where
  "starts_with xs ys \<longleftrightarrow> length ys \<le> length xs \<and> take (length ys) xs = ys"

definition ends_with :: "'a list \<Rightarrow> 'a list \<Rightarrow> bool" where
  "ends_with xs ys \<longleftrightarrow> length ys \<le> length xs \<and> drop (length xs - length ys) xs = ys"

definition string_test :: "string \<Rightarrow> bool \<Rightarrow> byte list \<Rightarrow> byte list \<Rightarrow> bool option" where
  "string_test op utf16 bytes sl =
     (let trimmed = (if utf16 then utf16_null_term sl else utf8_null_term sl) in
      if op = ''contains'' then do { ws \<leftarrow> windows (length bytes) sl; Ret (bytes \<in> set ws) }
      else if op = ''not_contains'' then do { ws \<leftarrow> windows (length bytes) sl; Ret (bytes \<notin> set ws) }
      else if op = ''starts_with'' then Ret (starts_with sl bytes)
      else if op = ''ends_with'' then Ret (ends_with trimmed bytes)
      else if op = ''equals'' then Ret (bytes = trimmed)
      else Ret (bytes \<noteq> trimmed))"

definition swap_operation :: "string \<Rightarrow> string \<Rightarrow> string" where
  "swap_operation op t =
     (if op = ''=='' \<and> is_text_type t then ''equals''
      else if op = ''!='' \<and> is_text_type t then ''not_equals'' else op)"

definition filter_by_type ::
  "(byte list \<Rightarrow> byte list option) \<Rightarrow> string \<Rightarrow> string \<Rightarrow> ustr \<Rightarrow> (byte list \<Rightarrow> bool option) option" where
  "filter_by_type data_closure t op value =
     (if op \<in> set numeric_ops then
        (case filter_num_type t of
           None \<Rightarrow> None
         | Some (sg, w) \<Rightarrow>
             (case parse_int sg w value of
                None \<Rightarrow> None
              | Some v \<Rightarrow> Some (\<lambda>data. do {
                  d \<leftarrow> data_closure data;
                  Ret (if length d = w then compare_op op (int_of_bytes sg d) v else False)
                })))
      else if op \<in> set string_ops then
        (case filter_bytes t value of
           None \<Rightarrow> None
         | Some (bytes, utf16) \<Rightarrow> Some (\<lambda>data. do {
             d \<leftarrow> data_closure data;
             string_test op utf16 bytes d
           }))
      else None)"

definition try_get_field_filter_closure ::
  "event_format \<Rightarrow> string \<Rightarrow> string \<Rightarrow> ustr \<Rightarrow> (byte list \<Rightarrow> bool option) option option" where
  "try_get_field_filter_closure fmt name op value =
     (case try_get_field_data_closure fmt name of
        None \<Rightarrow> Ret None
      | Some data_closure \<Rightarrow> do {
          fo \<leftarrow> get_field fmt name;
          Ret (case fo of
              None \<Rightarrow> None
            | Some f \<Rightarrow> filter_by_type data_closure (ef_type_name f)
                          (swap_operation op (ef_type_name f)) value)
        })"

section \<open>Printing\<close>

fun chunks_exact :: "nat \<Rightarrow> 'a list \<Rightarrow> 'a list list" where
  "chunks_exact n xs =
     (if n = 0 \<or> length xs < n then [] else take n xs # chunks_exact n (drop n xs))"

declare chunks_exact.simps [simp del]

fun decimal :: "nat \<Rightarrow> ustr" where
  "decimal n = (if n < 10 then [48 + n] else decimal (n div 10) @ [48 + n mod 10])"

declare decimal.simps [simp del]

definition show_int :: "int \<Rightarrow> ustr" where
  "show_int v = (if v < 0 then 45 # decimal (nat (- v)) else decimal (nat v))"

definition hex_digit :: "nat \<Rightarrow> nat" where
  "hex_digit n = (if n < 10 then 48 + n else 55 + n)"

definition show_hex :: "byte \<Rightarrow> ustr" where
  "show_hex b = [48, 120, hex_digit (unat b div 16), hex_digit (unat b mod 16), 32]"

definition char_of_unit :: "u16 \<Rightarrow> nat" where
  "char_of_unit u = (if 0xD800 \<le> u \<and> u \<le> 0xDFFF then 63 else unat u)"

definition write_num_type :: "string \<Rightarrow> (bool \<times> nat) option" where
  "write_num_type t =
     (if t \<in> {''u16'', ''unsigned short''} then Some (False, 2)
      else if t \<in> {''s16'', ''short''} then Some (True, 2)
      else if t \<in> {''u32'', ''unsigned int''} then Some (False, 4)
      else if t \<in> {''s32'', ''int''} then Some (True, 4)
      else if t \<in> {''u64'', ''unsigned long''} then Some (False, 8)
      else if t \<in> {''s64'', ''long''} then Some (True, 8)
      else None)"

text \<open>What a field's closure appends for the field's data.\<close>

definition render_field ::
  "(byte list \<Rightarrow> ustr) \<Rightarrow> (byte list \<Rightarrow> ustr) \<Rightarrow> event_field \<Rightarrow> byte list \<Rightarrow> ustr" where
  "render_field show32 show64 f d =
     (let t = ef_type_name f in
      case write_num_type t of
        Some (sg, w) \<Rightarrow> concat (map (\<lambda>c. show_int (int_of_bytes sg c) @ [32]) (chunks_exact w d))
      | None \<Rightarrow>
          if t = ''float'' then concat (map (\<lambda>c. show32 c @ [32]) (chunks_exact 4 d))
          else if t = ''double'' then concat (map (\<lambda>c. show64 c @ [32]) (chunks_exact 8 d))
          else if t \<in> {''char'', ''unsigned char'', ''string'', ''wstring'', ''counted_string'', ''counted_wstring''} then
            if ef_location f = StaticUTF16String \<or> t \<in> {''wstring'', ''counted_string'', ''counted_wstring''}
            then map char_of_unit (takeWhile (\<lambda>u. u \<noteq> 0) (map u16_of (chunks_exact 2 d))) @ [32]
            else map unat (takeWhile (\<lambda>b. b \<noteq> 0) d) @ [32]
          else concat (map show_hex d))"

definition try_get_field_write_closure ::
  "(byte list \<Rightarrow> ustr) \<Rightarrow> (byte list \<Rightarrow> ustr) \<Rightarrow> event_format \<Rightarrow> string \<Rightarrow>
     (ustr \<Rightarrow> byte list \<Rightarrow> ustr option) option option" where
  "try_get_field_write_closure show32 show64 fmt name =
     (case try_get_field_data_closure fmt name of
        None \<Rightarrow> Ret None
      | Some data_closure \<Rightarrow> do {
          fo \<leftarrow> get_field fmt name;
          Ret (case fo of
              None \<Rightarrow> None
            | Some f \<Rightarrow> Some (\<lambda>out data. do {
                d \<leftarrow> data_closure data;
                Ret (out @ render_field show32 show64 f d)
              }))
        })"

text \<open>\<open>get_write_closure\<close>: the contexts of the fields that have a closure, then all of them.\<close>

fun write_contexts ::
  "(byte list \<Rightarrow> ustr) \<Rightarrow> (byte list \<Rightarrow> ustr) \<Rightarrow> event_format \<Rightarrow> event_field list \<Rightarrow>
     (string \<times> (ustr \<Rightarrow> byte list \<Rightarrow> ustr option)) list option" where
  "write_contexts show32 show64 fmt [] = Ret []"
| "write_contexts show32 show64 fmt (f # fs) = do {
     c \<leftarrow> try_get_field_write_closure show32 show64 fmt (ef_name f);
     rest \<leftarrow> write_contexts show32 show64 fmt fs;
     Ret (case c of Some closure \<Rightarrow> (ef_name f, closure) # rest | None \<Rightarrow> rest)
   }"

fun run_contexts ::
  "(string \<times> (ustr \<Rightarrow> byte list \<Rightarrow> ustr option)) list \<Rightarrow> ustr \<Rightarrow> byte list \<Rightarrow> ustr option" where
  "run_contexts [] out data = Ret out"
| "run_contexts ((name, closure) # cs) out data = do {
     out' \<leftarrow> closure (out @ code_points name @ [61]) data;
     run_contexts cs out' data
   }"

definition get_write_closure ::
  "(byte list \<Rightarrow> ustr) \<Rightarrow> (byte list \<Rightarrow> ustr) \<Rightarrow> event_format \<Rightarrow> (ustr \<Rightarrow> byte list \<Rightarrow> ustr option) option" where
  "get_write_closure show32 show64 fmt = do {
     contexts \<leftarrow> write_contexts show32 show64 fmt fmt;
     Ret (run_contexts contexts)
   }"

section \<open>Numbers print and parse back\<close>

lemma parse_digits_append:
  "parse_digits (xs @ ys) acc = (case parse_digits xs acc of None \<Rightarrow> None | Some a \<Rightarrow> parse_digits ys a)"
  by (induction xs acc rule: parse_digits.induct) auto

lemma parse_decimal: "parse_digits (decimal n) 0 = Some n"
proof (induction n rule: less_induct)
  case (less n)
  show ?case
  proof (cases "n < 10")
    case True
    then show ?thesis by (subst decimal.simps) simp
  next
    case False
    then have "parse_digits (decimal (n div 10)) 0 = Some (n div 10)" by (intro less) simp
    moreover have "n mod 10 \<le> 9" by presburger
    ultimately show ?thesis using False by (subst decimal.simps) (simp add: parse_digits_append)
  qed
qed

lemma decimal_digits: "\<exists>c cs. decimal n = c # cs \<and> 48 \<le> c \<and> c \<le> 57"
proof (induction n rule: less_induct)
  case (less n)
  show ?case
  proof (cases "n < 10")
    case True
    then show ?thesis by (subst decimal.simps) auto
  next
    case False
    then obtain c cs where "decimal (n div 10) = c # cs" "48 \<le> c" "c \<le> 57"
      using less [of "n div 10"] by auto
    then show ?thesis using False by (subst decimal.simps) auto
  qed
qed

lemma parse_show_int: "in_range sg w v \<Longrightarrow> parse_int sg w (show_int v) = Some v"
proof -
  assume r: "in_range sg w v"
  show ?thesis
  proof (cases "v < 0")
    case True
    then have sg using r by (auto simp: in_range_def split: if_splits)
    moreover have "decimal (nat (- v)) \<noteq> []" using decimal_digits [of "nat (- v)"] by auto
    ultimately show ?thesis using True r
      by (simp add: parse_int_def show_int_def parse_decimal)
  next
    case False
    from decimal_digits [of "nat v"] obtain c cs where c: "decimal (nat v) = c # cs" "48 \<le> c" "c \<le> 57"
      by blast
    then have "parse_digits (c # cs) 0 = Some (nat v)" using parse_decimal [of "nat v"] by simp
    with c False r show ?thesis
      by (simp add: parse_int_def show_int_def del: parse_digits.simps)
  qed
qed

lemma length_bytes_of_int [simp]: "length (bytes_of_int w v) = w"
  by (simp add: bytes_of_int_def)

lemma int_bytes_roundtrip:
  assumes "in_range sg w v" "0 < w"
  shows "int_of_bytes sg (bytes_of_int w v) = v"
proof -
  define M :: int where "M = 2 ^ (8 * w)"
  define H :: int where "H = 2 ^ (8 * w - 1)"
  have M: "M = 2 * H" "0 < H" using assms(2) by (simp_all add: M_def H_def flip: power_Suc)
  have pow: "int (256 ^ w) = M" by (simp add: M_def power_mult)
  have "le_nat (bytes_of_int w v) = nat (v mod M)"
  proof -
    have "nat (v mod M) < 256 ^ w"
      using M pos_mod_bound [of M v] pos_mod_sign [of M v] pow by linarith
    then show ?thesis by (simp add: bytes_of_int_def le_nat_to_le M_def)
  qed
  then have n: "int (le_nat (bytes_of_int w v)) = v mod M" using M by simp
  show ?thesis
  proof (cases "v < 0")
    case True
    then have "sg" "- H \<le> v" using assms(1) by (auto simp: in_range_def H_def split: if_splits)
    moreover have "v mod M = v + M"
      using True M \<open>- H \<le> v\<close> mod_pos_pos_trivial [of "v + M" M] by simp
    ultimately show ?thesis using n True M
      by (simp add: int_of_bytes_def Let_def H_def [symmetric] M_def [symmetric] del: One_nat_def)
  next
    case False
    then have "v < M" "sg \<Longrightarrow> v < H" using assms(1) M by (auto simp: in_range_def H_def M_def split: if_splits)
    then show ?thesis using n False
      by (auto simp: int_of_bytes_def Let_def H_def [symmetric] M_def [symmetric] simp del: One_nat_def)
  qed
qed

section \<open>Filters on sequential payloads\<close>

lemma get_field_ref_from_Some:
  "get_field_ref_from k fs name = Some i \<Longrightarrow> k \<le> i \<and> i - k < length fs \<and> ef_name (fs ! (i - k)) = name"
proof (induction k fs name rule: get_field_ref_from.induct)
  case (2 k f fs name)
  then show ?case by (cases "i = k") (auto split: if_splits simp: nth_Cons' Suc_diff_le)
qed simp

lemma get_field_of_ref:
  assumes "get_field_ref fmt name = Some i"
  shows "get_field fmt name = Some (Some (fmt ! i))" "i < length fmt" "ef_name (fmt ! i) = name"
  using get_field_ref_from_Some [of 0 fmt name i] assms
  by (auto simp: get_field_def get_field_ref_def get_field_unchecked_def at_ok)

lemma text_not_num: "is_text_type t \<Longrightarrow> filter_num_type t = None"
  unfolding is_text_type_def by (elim insertE emptyE) (simp_all add: filter_num_type_def)

lemma filter_num_not_text: "filter_num_type t = Some p \<Longrightarrow> \<not> is_text_type t"
  using text_not_num by fastforce

lemma filter_num_width: "filter_num_type t = Some (sg, w) \<Longrightarrow> 0 < w"
  unfolding filter_num_type_def by (simp split: if_splits)

text \<open>C33. Numeric filters are right, from the payload to the answer: on a payload that encodes the
  fields' values, the filter of a numeric field exists exactly when the value parses as that
  field's type, and then it answers the comparison of the field's number, with its width and
  sign, against the parsed value; the payload may go on after the fields.\<close>

theorem numeric_filter_correct:
  assumes "list_all2 value_ok fmt vs" "packed_from 0 fmt" "get_field_ref fmt name = Some i"
    "filter_num_type (ef_type_name (fmt ! i)) = Some (sg, w)" "op \<in> set numeric_ops"
    "vs ! i = bytes_of_int w x" "in_range sg w x"
  shows "case parse_int sg w value of
      None \<Rightarrow> try_get_field_filter_closure fmt name op value = Some None
    | Some v \<Rightarrow> \<exists>c. try_get_field_filter_closure fmt name op value = Some (Some c) \<and>
        (\<forall>rest. c (encode_fields fmt vs @ rest) = Some (compare_op op x v))"
proof -
  obtain dc where dc: "try_get_field_data_closure fmt name = Some dc"
    "\<And>rest. dc (encode_fields fmt vs @ rest) = Some (bytes_of_int w x)"
    using data_closure_roundtrip [OF assms(1) assms(3) [unfolded get_field_ref_def], of "[]" 0 0 "[]"]
      assms(2,6) by (auto simp: try_get_field_data_closure_def)
  have swap: "swap_operation op (ef_type_name (fmt ! i)) = op"
    using filter_num_not_text [OF assms(4)] by (simp add: swap_operation_def)
  have x: "int_of_bytes sg (bytes_of_int w x) = x"
    using assms(7) filter_num_width [OF assms(4)] by (rule int_bytes_roundtrip)
  show ?thesis
    using dc assms(4,5) x
    by (auto simp: try_get_field_filter_closure_def get_field_of_ref [OF assms(3)] swap filter_by_type_def
        split: option.splits)
qed

definition demo_format :: event_format where
  "demo_format =
     [\<lparr>ef_name = ''s'', ef_type_name = ''string'', ef_location = StaticString, ef_offset = 0, ef_size = 0\<rparr>,
      \<lparr>ef_name = ''n'', ef_type_name = ''s16'', ef_location = Static, ef_offset = 0, ef_size = 2\<rparr>]"

lemma demo_format_ok:
  "list_all2 value_ok demo_format [[104, 105], bytes_of_int 2 (-5)]" "packed_from 0 demo_format"
  "get_field_ref demo_format ''n'' = Some 1" "get_field_ref demo_format ''s'' = Some 0"
  by (simp_all add: demo_format_def value_ok_def get_field_ref_def)

text \<open>The filter \<open>n < 3\<close> on a payload with the text \<open>hi\<close> and the number \<open>-5\<close>.\<close>

theorem numeric_filter_correct_witness:
  "\<exists>c. try_get_field_filter_closure demo_format ''n'' ''<'' [51] = Some (Some c) \<and>
    c [104, 105, 0, 251, 255] = Some True"
proof -
  have n: "filter_num_type (ef_type_name (demo_format ! 1)) = Some (True, 2)"
    by (simp add: demo_format_def filter_num_type_def)
  have p: "parse_int True 2 [51] = Some 3" by (simp add: parse_int_def in_range_def)
  have e: "encode_fields demo_format [[104, 105], bytes_of_int 2 (-5)] @ [] = [104, 105, 0, 251, 255]"
    by (simp add: demo_format_def enc_value_def bytes_of_int_def numeral_2_eq_2)
  have cmp: "compare_op ''<'' (-5) 3" by (simp add: compare_op_def)
  have "''<'' \<in> set numeric_ops" "in_range True 2 (-5)" by (simp_all add: numeric_ops_def in_range_def)
  from numeric_filter_correct [OF demo_format_ok(1,2,3) n this(1) _ this(2), of "[51]"]
  obtain c where "try_get_field_filter_closure demo_format ''n'' ''<'' [51] = Some (Some c)"
    "\<forall>rest. c (encode_fields demo_format [[104, 105], bytes_of_int 2 (-5)] @ rest) = Some (compare_op ''<'' (-5) 3)"
    by (auto simp: p)
  with e show ?thesis by (intro exI [of _ c]) (metis cmp)
qed

lemma contains_iff:
  assumes "bytes \<noteq> []"
  shows "\<exists>ws. windows (length bytes) sl = Some ws \<and> (bytes \<in> set ws \<longleftrightarrow> part_of bytes sl)"
proof (cases "length sl < length bytes")
  case True
  then have "\<not> part_of bytes sl" by (auto simp: part_of_def)
  with True assms show ?thesis by (simp add: windows_def)
next
  case False
  let ?ws = "map (\<lambda>i. take (length bytes) (drop i sl)) [0..<Suc (length sl - length bytes)]"
  have "bytes \<in> set ?ws \<longleftrightarrow> part_of bytes sl"
  proof
    assume "bytes \<in> set ?ws"
    then obtain i where "bytes = take (length bytes) (drop i sl)" by (auto simp del: upt_Suc)
    then show "part_of bytes sl" by (metis part_of_take_drop)
  next
    assume "part_of bytes sl"
    then obtain pre post where sl: "sl = pre @ bytes @ post" by (auto simp: part_of_def)
    then have "bytes = take (length bytes) (drop (length pre) sl)"
      "length pre < Suc (length sl - length bytes)" by simp_all
    then show "bytes \<in> set ?ws" by (metis (no_types, lifting) atLeastLessThan_iff image_eqI list.set_map set_upt le0)
  qed
  with False assms show ?thesis by (simp add: windows_def)
qed

lemma starts_with_iff: "starts_with xs ys \<longleftrightarrow> (\<exists>zs. xs = ys @ zs)"
  unfolding starts_with_def by (metis append_eq_conv_conj append_take_drop_id length_append le_add1)

lemma ends_with_iff: "ends_with xs ys \<longleftrightarrow> (\<exists>zs. xs = zs @ ys)"
proof
  assume "ends_with xs ys"
  then show "\<exists>zs. xs = zs @ ys" unfolding ends_with_def by (metis append_take_drop_id)
qed (auto simp: ends_with_def)

text \<open>What a string operation means for the bytes of a field (\<open>trimmed\<close> up to the first null).\<close>

definition text_spec :: "string \<Rightarrow> byte list \<Rightarrow> byte list \<Rightarrow> byte list \<Rightarrow> bool" where
  "text_spec op bytes sl trimmed =
     (if op = ''contains'' then part_of bytes sl else if op = ''not_contains'' then \<not> part_of bytes sl
      else if op = ''starts_with'' then \<exists>zs. sl = bytes @ zs
      else if op = ''ends_with'' then \<exists>zs. trimmed = zs @ bytes
      else if op \<in> {''equals'', ''==''} then trimmed = bytes else trimmed \<noteq> bytes)"

lemma string_test_spec:
  assumes "op \<in> set string_ops" "bytes \<noteq> [] \<or> op \<notin> {''contains'', ''not_contains''}"
  shows "string_test op utf16 bytes sl =
    Some (text_spec op bytes sl (if utf16 then utf16_null_term sl else utf8_null_term sl))"
proof (cases "op \<in> {''contains'', ''not_contains''}")
  case True
  then have "bytes \<noteq> []" using assms(2) by blast
  from contains_iff [OF this, of sl] obtain ws where
    ws: "windows (length bytes) sl = Some ws" "bytes \<in> set ws \<longleftrightarrow> part_of bytes sl" by blast
  from True show ?thesis
    by (elim insertE emptyE) (simp_all add: string_test_def text_spec_def Let_def ws)
next
  case False
  then have "op \<in> {''starts_with'', ''ends_with'', ''equals'', ''not_equals''}"
    using assms(1) by (auto simp: string_ops_def)
  then show ?thesis
    by (elim insertE emptyE)
      (auto simp: string_test_def text_spec_def Let_def starts_with_iff ends_with_iff)
qed

lemma utf8_null_term_id: "0 \<notin> set v \<Longrightarrow> utf8_null_term v = v"
  by (auto simp: utf8_null_term_def)



text \<open>Filters on UTF-16 fields compare bytes, not units: \<open>contains\<close> on a \<open>wstring\<close> field can
  answer true although no unit of the text is in the value, because a match may start in the middle
  of a unit. The payload here is the two units \<open>U+4100 U+4200\<close> and the value is \<open>A\<close>.\<close>

theorem utf16_contains_unaligned:
  "\<exists>c. try_get_field_filter_closure
      [\<lparr>ef_name = ''w'', ef_type_name = ''wstring'', ef_location = StaticUTF16String, ef_offset = 0, ef_size = 0\<rparr>]
      ''w'' ''contains'' [65] = Some (Some c) \<and>
    c [0x00, 0x41, 0x00, 0x42, 0x00, 0x00] = Some True \<and>
    65 \<notin> set (map u16_of (chunks_exact 2 [0x00, 0x41, 0x00, 0x42]))"
proof -
  have "chunks_exact 2 [0x00, 0x41, 0x00, 0x42 :: byte] = [[0x00, 0x41], [0x00, 0x42]]"
    by (simp add: chunks_exact.simps)
  moreover have "utf16_truncated [65] = [65, 0]" by code_simp
  moreover have "(65 :: u16) \<noteq> u16_of [0x00, 0x41]" "(65 :: u16) \<noteq> u16_of [0x00, 0x42]"
    by (simp_all add: u16_of_def)
  ultimately show ?thesis
    by (simp add: try_get_field_filter_closure_def try_get_field_data_closure_def get_field_def
        get_field_ref_def get_field_unchecked_def at_def swap_operation_def is_text_type_def filter_by_type_def
        numeric_ops_def string_ops_def filter_bytes_def slice_from_def subslice_def
        string_test_def windows_def)
qed

section \<open>Printing sequential payloads\<close>

lemma chunks_exact_one: "0 < w \<Longrightarrow> length v = w \<Longrightarrow> chunks_exact w v = [v]"
  by (subst chunks_exact.simps) (simp add: chunks_exact.simps)

lemma write_num_filter: "write_num_type t = Some p \<Longrightarrow> filter_num_type t = Some p"
proof -
  assume w: "write_num_type t = Some p"
  have "t \<in> {''u16'', ''unsigned short'', ''s16'', ''short'', ''u32'', ''unsigned int'', ''s32'', ''int'',
      ''u64'', ''unsigned long'', ''s64'', ''long''}"
    using w unfolding write_num_type_def by (simp split: if_splits) (elim disjE, simp_all)+
  then show ?thesis using w by (elim insertE emptyE) (simp_all add: write_num_type_def filter_num_type_def)
qed

text \<open>What is printed filters back: the text printed for a number of a 16, 32 or 64 bit field is
  its decimal text and a space, that text parses as the field's type to the same number, and given
  as the value of \<open>==\<close> it makes a filter that accepts the payload it was printed from.\<close>

theorem printed_number_filters_back:
  assumes "list_all2 value_ok fmt vs" "packed_from 0 fmt" "get_field_ref fmt name = Some i"
    "write_num_type (ef_type_name (fmt ! i)) = Some (sg, w)" "vs ! i = bytes_of_int w x" "in_range sg w x"
  shows "render_field show32 show64 (fmt ! i) (vs ! i) = show_int x @ [32] \<and>
    parse_int sg w (show_int x) = Some x \<and>
    (\<exists>c. try_get_field_filter_closure fmt name ''=='' (show_int x) = Some (Some c) \<and>
      (\<forall>rest. c (encode_fields fmt vs @ rest) = Some True))"
proof -
  note num = write_num_filter [OF assms(4)]
  have "chunks_exact w (bytes_of_int w x) = [bytes_of_int w x]"
    using filter_num_width [OF num] by (intro chunks_exact_one) simp_all
  then have r: "render_field show32 show64 (fmt ! i) (vs ! i) = show_int x @ [32]"
    using assms(4-6) int_bytes_roundtrip [OF assms(6) filter_num_width [OF num]]
    by (simp add: render_field_def)
  have p: "parse_int sg w (show_int x) = Some x" using assms(6) by (rule parse_show_int)
  obtain dc where dc: "try_get_field_data_closure fmt name = Some dc"
    "\<And>rest. dc (encode_fields fmt vs @ rest) = Some (bytes_of_int w x)"
    using data_closure_roundtrip [OF assms(1) assms(3) [unfolded get_field_ref_def], of "[]" 0 0 "[]"]
      assms(2,5) by (auto simp: try_get_field_data_closure_def)
  have "swap_operation ''=='' (ef_type_name (fmt ! i)) = ''==''"
    using filter_num_not_text [OF num] by (simp add: swap_operation_def)
  then have "\<exists>c. try_get_field_filter_closure fmt name ''=='' (show_int x) = Some (Some c) \<and>
      (\<forall>rest. c (encode_fields fmt vs @ rest) = Some True)"
    using dc num p int_bytes_roundtrip [OF assms(6) filter_num_width [OF num]]
    by (simp add: try_get_field_filter_closure_def get_field_of_ref [OF assms(3)] filter_by_type_def
        numeric_ops_def compare_op_def)
  with r p show ?thesis by blast
qed

theorem printed_number_filters_back_witness:
  "\<exists>c. try_get_field_filter_closure demo_format ''n'' ''=='' (show_int (-5)) = Some (Some c) \<and>
    c (encode_fields demo_format [[104, 105], bytes_of_int 2 (-5)] @ [7]) = Some True"
proof -
  have t: "write_num_type (ef_type_name (demo_format ! 1)) = Some (True, 2)"
    by (simp add: demo_format_def write_num_type_def)
  have "in_range True 2 (-5)" by (simp add: in_range_def)
  from printed_number_filters_back [OF demo_format_ok(1,2,3) t _ this] show ?thesis by force
qed

lemma get_field_ref_distinct:
  "distinct (map ef_name fs) \<Longrightarrow> j < length fs \<Longrightarrow> get_field_ref_from k fs (ef_name (fs ! j)) = Some (k + j)"
proof (induction fs arbitrary: k j)
  case (Cons f fs)
  then show ?case by (cases j) auto
qed simp

lemma field_write_closure:
  assumes "list_all2 value_ok fmt vs" "packed_from 0 fmt" "distinct (map ef_name fmt)" "i < length fmt"
  shows "\<exists>c. try_get_field_write_closure show32 show64 fmt (ef_name (fmt ! i)) = Some (Some c) \<and>
    (\<forall>out rest. c out (encode_fields fmt vs @ rest) = Some (out @ render_field show32 show64 (fmt ! i) (vs ! i)))"
proof -
  have ref: "get_field_ref fmt (ef_name (fmt ! i)) = Some i"
    using get_field_ref_distinct [OF assms(3,4), of 0] by (simp add: get_field_ref_def)
  obtain dc where "try_get_field_data_closure fmt (ef_name (fmt ! i)) = Some dc"
    "\<And>rest. dc (encode_fields fmt vs @ rest) = Some (vs ! i)"
    using data_closure_roundtrip [OF assms(1) ref [unfolded get_field_ref_def], of "[]" 0 0 "[]"]
      assms(2) by (auto simp: try_get_field_data_closure_def)
  then show ?thesis
    by (simp add: try_get_field_write_closure_def get_field_of_ref(1) [OF ref])
qed

definition printed_field ::
  "(byte list \<Rightarrow> ustr) \<Rightarrow> (byte list \<Rightarrow> ustr) \<Rightarrow> event_field \<Rightarrow> byte list \<Rightarrow> ustr" where
  "printed_field show32 show64 f v = code_points (ef_name f) @ [61] @ render_field show32 show64 f v"

lemma contexts_run:
  assumes "list_all2 value_ok fmt vs" "packed_from 0 fmt" "distinct (map ef_name fmt)" "\<forall>i \<in> set is. i < length fmt"
  shows "\<exists>cs. write_contexts show32 show64 fmt (map ((!) fmt) is) = Some cs \<and>
    (\<forall>out rest. run_contexts cs out (encode_fields fmt vs @ rest) =
      Some (out @ concat (map (\<lambda>i. printed_field show32 show64 (fmt ! i) (vs ! i)) is)))"
  using assms(4)
proof (induction "is")
  case Nil
  then show ?case by simp
next
  case (Cons i "is")
  then obtain cs where cs: "write_contexts show32 show64 fmt (map ((!) fmt) is) = Some cs"
    "\<forall>out rest. run_contexts cs out (encode_fields fmt vs @ rest) =
      Some (out @ concat (map (\<lambda>i. printed_field show32 show64 (fmt ! i) (vs ! i)) is))" by auto
  have "i < length fmt" using Cons.prems by simp
  from field_write_closure [OF assms(1-3) this] obtain c where
    "try_get_field_write_closure show32 show64 fmt (ef_name (fmt ! i)) = Some (Some c)"
    "\<forall>out rest. c out (encode_fields fmt vs @ rest) = Some (out @ render_field show32 show64 (fmt ! i) (vs ! i))"
    by blast
  with cs show ?case by (simp add: printed_field_def)
qed

text \<open>Printing an event: for a format whose field names are distinct, the closure of
  \<open>get_write_closure\<close> appends, on a sequential payload, each field in order as its name, \<open>=\<close> and the
  rendering of its own value; no field is skipped and the text written before is kept.\<close>

theorem event_printing_correct:
  assumes "list_all2 value_ok fmt vs" "packed_from 0 fmt" "distinct (map ef_name fmt)"
  shows "\<exists>c. get_write_closure show32 show64 fmt = Some c \<and>
    (\<forall>out rest. c out (encode_fields fmt vs @ rest) =
      Some (out @ concat (map2 (printed_field show32 show64) fmt vs)))"
proof -
  have len: "length vs = length fmt" using assms(1) by (simp add: list_all2_lengthD)
  have ix: "map ((!) fmt) [0..<length fmt] = fmt" by (rule map_nth)
  have "map (\<lambda>i. printed_field show32 show64 (fmt ! i) (vs ! i)) [0..<length fmt] =
      map2 (printed_field show32 show64) fmt vs"
    using len by (intro nth_equalityI) simp_all
  with contexts_run [OF assms, of "[0..<length fmt]" show32 show64] show ?thesis
    by (auto simp: get_write_closure_def ix)
qed

theorem event_printing_correct_witness:
  "\<exists>c. get_write_closure (\<lambda>_. []) (\<lambda>_. []) demo_format = Some c \<and>
    c [] (encode_fields demo_format [[104, 105], bytes_of_int 2 (-5)] @ []) =
      Some (concat (map2 (printed_field (\<lambda>_. []) (\<lambda>_. [])) demo_format [[104, 105], bytes_of_int 2 (-5)]))"
proof -
  have "distinct (map ef_name demo_format)" by (simp add: demo_format_def)
  from event_printing_correct [OF demo_format_ok(1,2) this, of "\<lambda>_. []" "\<lambda>_. []"] obtain c where
    "get_write_closure (\<lambda>_. []) (\<lambda>_. []) demo_format = Some c"
    "\<forall>out rest. c out (encode_fields demo_format [[104, 105], bytes_of_int 2 (-5)] @ rest) =
      Some (out @ concat (map2 (printed_field (\<lambda>_. []) (\<lambda>_. [])) demo_format [[104, 105], bytes_of_int 2 (-5)]))"
    by blast
  then show ?thesis by (intro exI [of _ c] conjI) (assumption, metis append_Nil)
qed

lemma utf8_char_length: "1 \<le> length (utf8_char c) \<and> (length (utf8_char c) = 1 \<longleftrightarrow> c < 0x80)"
  by (simp add: utf8_char_def)

lemma as_bytes_length: "length s \<le> length (as_bytes s) \<and> (length (as_bytes s) = length s \<longleftrightarrow> (\<forall>c \<in> set s. c < 0x80))"
proof (induction s)
  case Nil
  then show ?case by (simp add: as_bytes_def)
next
  case (Cons c s)
  then show ?case using utf8_char_length [of c] by (auto simp: as_bytes_def)
qed

lemma as_bytes_ascii: "\<forall>c \<in> set s. c < 0x80 \<Longrightarrow> map unat (as_bytes s) = s"
proof (induction s)
  case (Cons c s)
  then show ?case by (simp add: as_bytes_def utf8_char_def unat_of_nat take_bit_nat_eq_self)
qed (simp add: as_bytes_def)

text \<open>A UTF-8 text field prints as its text exactly when the text is ASCII: the closure prints
  each byte as the code point of that number, so a text with any other character comes out
  different (and longer).\<close>

theorem text_prints_iff_ascii:
  assumes "ef_type_name f = ''string''" "ef_location f = StaticString" "0 \<notin> set (as_bytes s)"
  shows "render_field show32 show64 f (as_bytes s) = s @ [32] \<longleftrightarrow> (\<forall>c \<in> set s. c < 0x80)"
proof -
  have t: "takeWhile (\<lambda>b. b \<noteq> 0) (as_bytes s) = as_bytes s"
    using utf8_null_term_id [OF assms(3)] by (simp add: utf8_null_term_def)
  have r: "render_field show32 show64 f (as_bytes s) = map unat (as_bytes s) @ [32]"
    using assms(1,2) by (simp add: render_field_def write_num_type_def t)
  show ?thesis
  proof
    assume "render_field show32 show64 f (as_bytes s) = s @ [32]"
    then have "length (as_bytes s) = length s" using r by (metis append_same_eq length_map)
    then show "\<forall>c \<in> set s. c < 0x80" using as_bytes_length by blast
  qed (simp add: r as_bytes_ascii)
qed

theorem text_prints_iff_ascii_witness:
  "render_field (\<lambda>_. []) (\<lambda>_. []) \<lparr>ef_name = ''s'', ef_type_name = ''string'', ef_location = StaticString, ef_offset = 0, ef_size = 0\<rparr>
     (as_bytes [0xE9]) \<noteq> [0xE9, 32]"
  using text_prints_iff_ascii [of "\<lparr>ef_name = ''s'', ef_type_name = ''string'', ef_location = StaticString, ef_offset = 0, ef_size = 0\<rparr>" "[0xE9]" "\<lambda>_. []" "\<lambda>_. []"]
  by (simp add: as_bytes_def utf8_char_def)

end
