(* ===== verification/EventObj.thy ===== *)
theory EventObj
  imports EventText
begin

text \<open>
  The event object of \<open>one_collect/src/event/mod.rs\<close> (\<open>Event\<close>, \<open>EventData\<close>) with its Linux
  extension (\<open>event/os/linux.rs\<close>). A callback may change whatever state \<open>'s\<close> its closure has
  captured; it returns \<open>Ok\<close> or an error.
\<close>

definition EVENT_FLAG_NO_CALLSTACK :: u64 where "EVENT_FLAG_NO_CALLSTACK = push_bit 0 1"
definition EVENT_FLAG_PROXY :: u64 where "EVENT_FLAG_PROXY = push_bit 1 1"
definition EVENT_FLAG_NO_CPU_MASK :: u64 where "EVENT_FLAG_NO_CPU_MASK = push_bit 2 1"
definition EVENT_FLAG_ID_WILD_CARD :: u64 where "EVENT_FLAG_ID_WILD_CARD = push_bit 3 1"

lemmas event_flag_defs = EVENT_FLAG_NO_CALLSTACK_def EVENT_FLAG_PROXY_def
  EVENT_FLAG_NO_CPU_MASK_def EVENT_FLAG_ID_WILD_CARD_def

record event_data =
  ed_full_data :: "byte list"
  ed_event_data :: "byte list"
  ed_format :: event_format

definition event_data_new :: "byte list \<Rightarrow> byte list \<Rightarrow> event_format \<Rightarrow> event_data" where
  "event_data_new full_data data fmt = \<lparr>ed_full_data = full_data, ed_event_data = data, ed_format = fmt\<rparr>"

type_synonym 's callback = "event_data \<Rightarrow> 's \<Rightarrow> (err + unit) \<times> 's"

record event_extension =
  ext_perf_filter :: "string option"

record 's event =
  ev_id :: nat
  ev_proxy_id :: nat
  ev_name :: string
  ev_flags :: u64
  ev_callbacks :: "'s callback list"
  ev_format :: event_format
  ev_extension :: event_extension

definition event_new :: "nat \<Rightarrow> string \<Rightarrow> 's event" where
  "event_new i name = \<lparr>ev_id = i, ev_proxy_id = 0, ev_name = name, ev_flags = 0, ev_callbacks = [],
     ev_format = format_new, ev_extension = \<lparr>ext_perf_filter = None\<rparr>\<rparr>"

definition set_no_callstack_flag :: "'s event \<Rightarrow> 's event" where
  "set_no_callstack_flag e = e\<lparr>ev_flags := ev_flags e OR EVENT_FLAG_NO_CALLSTACK\<rparr>"

definition has_no_callstack_flag :: "'s event \<Rightarrow> bool" where
  "has_no_callstack_flag e \<longleftrightarrow> ev_flags e AND EVENT_FLAG_NO_CALLSTACK \<noteq> 0"

definition set_id_wild_card_flag :: "'s event \<Rightarrow> 's event" where
  "set_id_wild_card_flag e = e\<lparr>ev_flags := ev_flags e OR EVENT_FLAG_ID_WILD_CARD\<rparr>"

definition has_id_wild_card_flag :: "'s event \<Rightarrow> bool" where
  "has_id_wild_card_flag e \<longleftrightarrow> ev_flags e AND EVENT_FLAG_ID_WILD_CARD \<noteq> 0"

definition set_no_cpu_mask_flag :: "'s event \<Rightarrow> 's event" where
  "set_no_cpu_mask_flag e = e\<lparr>ev_flags := ev_flags e OR EVENT_FLAG_NO_CPU_MASK\<rparr>"

definition has_no_cpu_mask_flag :: "'s event \<Rightarrow> bool" where
  "has_no_cpu_mask_flag e \<longleftrightarrow> ev_flags e AND EVENT_FLAG_NO_CPU_MASK \<noteq> 0"

definition set_proxy_id :: "nat \<Rightarrow> 's event \<Rightarrow> 's event" where
  "set_proxy_id i e = e\<lparr>ev_flags := ev_flags e OR EVENT_FLAG_PROXY, ev_proxy_id := i\<rparr>"

definition get_proxy_id :: "'s event \<Rightarrow> nat option" where
  "get_proxy_id e = (if ev_flags e AND EVENT_FLAG_PROXY \<noteq> 0 then Some (ev_proxy_id e) else None)"

definition set_perf_filter :: "string \<Rightarrow> 's event \<Rightarrow> 's event" where
  "set_perf_filter filt e = e\<lparr>ev_extension := (ev_extension e)\<lparr>ext_perf_filter := Some filt\<rparr>\<rparr>"

definition clear_perf_filter :: "'s event \<Rightarrow> 's event" where
  "clear_perf_filter e = e\<lparr>ev_extension := (ev_extension e)\<lparr>ext_perf_filter := None\<rparr>\<rparr>"

definition add_callback :: "'s callback \<Rightarrow> 's event \<Rightarrow> 's event" where
  "add_callback cb e = e\<lparr>ev_callbacks := ev_callbacks e @ [cb]\<rparr>"

fun run_callbacks :: "'s callback list \<Rightarrow> event_data \<Rightarrow> err list \<Rightarrow> 's \<Rightarrow> err list \<times> 's" where
  "run_callbacks [] data errors s = (errors, s)"
| "run_callbacks (cb # cbs) data errors s =
     (case cb data s of
        (Inl e, s') \<Rightarrow> run_callbacks cbs data (errors @ [e]) s'
      | (Inr _, s') \<Rightarrow> run_callbacks cbs data errors s')"

definition event_process :: "'s event \<Rightarrow> byte list \<Rightarrow> byte list \<Rightarrow> err list \<Rightarrow> 's \<Rightarrow> err list \<times> 's" where
  "event_process e full_data data errors s =
     run_callbacks (ev_callbacks e) (event_data_new full_data data (ev_format e)) errors s"

text \<open>The event's own closures are its format's.\<close>

definition event_filter_closure where
  "event_filter_closure e name op value = try_get_field_filter_closure (ev_format e) name op value"

definition event_write_closure where
  "event_write_closure show32 show64 e = get_write_closure show32 show64 (ev_format e)"

definition event_field_write_closure where
  "event_field_write_closure show32 show64 e name =
     try_get_field_write_closure show32 show64 (ev_format e) name"

definition event_data_closure where
  "event_data_closure e name = try_get_field_data_closure (ev_format e) name"

section \<open>Flags\<close>

datatype flag_op = NoCallstack | IdWildCard | NoCpuMask | Proxy nat

fun apply_flag :: "flag_op \<Rightarrow> 's event \<Rightarrow> 's event" where
  "apply_flag NoCallstack e = set_no_callstack_flag e"
| "apply_flag IdWildCard e = set_id_wild_card_flag e"
| "apply_flag NoCpuMask e = set_no_cpu_mask_flag e"
| "apply_flag (Proxy i) e = set_proxy_id i e"

fun last_proxy :: "flag_op list \<Rightarrow> nat option \<Rightarrow> nat option" where
  "last_proxy [] p = p"
| "last_proxy (Proxy i # ops) p = last_proxy ops (Some i)"
| "last_proxy (_ # ops) p = last_proxy ops p"

lemma flag_bits:
  "has_no_callstack_flag e \<longleftrightarrow> bit (ev_flags e) 0"
  "has_id_wild_card_flag e \<longleftrightarrow> bit (ev_flags e) 3"
  "has_no_cpu_mask_flag e \<longleftrightarrow> bit (ev_flags e) 2"
  "get_proxy_id e = (if bit (ev_flags e) 1 then Some (ev_proxy_id e) else None)"
  using and_exp_eq_0_iff_not_bit [of "ev_flags e" 0] and_exp_eq_0_iff_not_bit [of "ev_flags e" 1]
    and_exp_eq_0_iff_not_bit [of "ev_flags e" 2] and_exp_eq_0_iff_not_bit [of "ev_flags e" 3]
  by (simp_all add: has_no_callstack_flag_def has_id_wild_card_flag_def has_no_cpu_mask_flag_def
      get_proxy_id_def event_flag_defs)

lemma bit_or_flag: "bit (w OR push_bit n 1) k \<longleftrightarrow> bit w k \<or> (k = n \<and> n < 64)" for w :: u64
  by (auto simp: bit_or_iff bit_exp_iff)

lemma or_flags:
  "bit (w OR EVENT_FLAG_NO_CALLSTACK) k \<longleftrightarrow> bit w k \<or> k = 0"
  "bit (w OR EVENT_FLAG_PROXY) k \<longleftrightarrow> bit w k \<or> k = 1"
  "bit (w OR EVENT_FLAG_NO_CPU_MASK) k \<longleftrightarrow> bit w k \<or> k = 2"
  "bit (w OR EVENT_FLAG_ID_WILD_CARD) k \<longleftrightarrow> bit w k \<or> k = 3"
  unfolding event_flag_defs bit_or_flag by simp_all

lemma flags_step:
  "has_no_callstack_flag (apply_flag op e) \<longleftrightarrow> has_no_callstack_flag e \<or> op = NoCallstack"
  "has_id_wild_card_flag (apply_flag op e) \<longleftrightarrow> has_id_wild_card_flag e \<or> op = IdWildCard"
  "has_no_cpu_mask_flag (apply_flag op e) \<longleftrightarrow> has_no_cpu_mask_flag e \<or> op = NoCpuMask"
  "get_proxy_id (apply_flag op e) = last_proxy [op] (get_proxy_id e)"
  by (cases op; simp add: flag_bits set_no_callstack_flag_def set_id_wild_card_flag_def
      set_no_cpu_mask_flag_def set_proxy_id_def or_flags)+

text \<open>The flags of an event are independent: after any sequence of the setters, each flag reads
  as set exactly when it was set before or its setter was called, and the proxy id is the last one
  set.\<close>

theorem event_flags_independent:
  "has_no_callstack_flag (fold apply_flag ops e) = (has_no_callstack_flag e \<or> NoCallstack \<in> set ops) \<and>
   has_id_wild_card_flag (fold apply_flag ops e) = (has_id_wild_card_flag e \<or> IdWildCard \<in> set ops) \<and>
   has_no_cpu_mask_flag (fold apply_flag ops e) = (has_no_cpu_mask_flag e \<or> NoCpuMask \<in> set ops) \<and>
   get_proxy_id (fold apply_flag ops e) = last_proxy ops (get_proxy_id e)"
proof (induction ops arbitrary: e)
  case (Cons op ops)
  have "last_proxy (op # ops) p = last_proxy ops (last_proxy [op] p)" for p by (cases op) auto
  then show ?case using Cons.IH [of "apply_flag op e"] by (auto simp: flags_step)
qed simp

section \<open>Processing\<close>

definition callback_error :: "event_data \<Rightarrow> 's callback \<Rightarrow> 's \<Rightarrow> err list" where
  "callback_error data cb s = (case fst (cb data s) of Inl e \<Rightarrow> [e] | Inr _ \<Rightarrow> [])"

lemma run_callbacks_append:
  "run_callbacks (xs @ ys) data errors s =
     run_callbacks ys data (fst (run_callbacks xs data errors s)) (snd (run_callbacks xs data errors s))"
  by (induction xs data errors s rule: run_callbacks.induct) (auto split: prod.split sum.split)

lemma run_callbacks_errors:
  "run_callbacks cbs data errors s = (errors @ fst (run_callbacks cbs data [] s), snd (run_callbacks cbs data [] s))"
proof (induction cbs arbitrary: errors s)
  case (Cons cb cbs)
  obtain r s' where r: "cb data s = (r, s')" by (cases "cb data s")
  show ?case
  proof (cases r)
    case (Inl e)
    show ?thesis using Cons.IH [of "errors @ [e]" s'] Cons.IH [of "[e]" s'] r Inl by simp
  next
    case (Inr u)
    show ?thesis using Cons.IH [of errors s'] r Inr by simp
  qed
qed simp

text \<open>Processing an event runs every callback exactly once, in the order they were added, each on
  the state the previous ones left, and a failing callback stops nothing: its error is appended
  after the errors before it. So a callback added last sees the state of all the others, and its
  error, if any, comes last.\<close>

theorem event_process_runs_all:
  "event_process (add_callback cb e) full_data data errors s =
     (let d = event_data_new full_data data (ev_format e);
          (errors', s') = event_process e full_data data errors s
      in (errors' @ callback_error d cb s', snd (cb d s'))) \<and>
   fst (event_process e full_data data errors s) = errors @ fst (event_process e full_data data [] s) \<and>
   snd (event_process e full_data data errors s) =
     fold (\<lambda>cb. snd \<circ> cb (event_data_new full_data data (ev_format e))) (ev_callbacks e) s"
proof (intro conjI)
  let ?d = "event_data_new full_data data (ev_format e)"
  show "event_process (add_callback cb e) full_data data errors s =
     (let d = ?d; (errors', s') = event_process e full_data data errors s
      in (errors' @ callback_error d cb s', snd (cb d s')))"
    by (auto simp: event_process_def add_callback_def run_callbacks_append callback_error_def Let_def
        split: prod.split sum.split)
  show "fst (event_process e full_data data errors s) = errors @ fst (event_process e full_data data [] s)"
    unfolding event_process_def by (subst run_callbacks_errors) simp
  have "snd (run_callbacks cbs d es st) = fold (\<lambda>cb. snd \<circ> cb d) cbs st" for cbs and d and es and st :: 'a
    by (induction cbs d es st rule: run_callbacks.induct) (auto split: prod.split sum.split)
  then show "snd (event_process e full_data data errors s) = fold (\<lambda>cb. snd \<circ> cb ?d) (ev_callbacks e) s"
    by (simp add: event_process_def)
qed

end
