(* ===== verification/PerfAbi.thy ===== *)
theory PerfAbi
  imports Prelude
begin

text \<open>
  The perf record ABI of \<open>one_collect/src/perf_event/abi.rs\<close> (record alignment, event
  attributes, the trailing sample-id fields, the record header) and the attribute builders of
  \<open>perf_event/rb/mod.rs\<close> (\<open>RingBufOptions\<close>, \<open>RingBufBuilder\<close>, \<open>CommonRingBuf\<close>). A builder
  is its attributes; the type parameter that selects its methods is not a value. \<open>usize\<close>
  sizes are \<open>nat\<close>.
\<close>

section \<open>Alignment\<close>

definition PERF_RECORD_ALIGNMENT :: nat where "PERF_RECORD_ALIGNMENT = 8"

definition align_to_perf_record :: "nat \<Rightarrow> nat" where
  "align_to_perf_record sz =
     unat ((of_nat (sz + (PERF_RECORD_ALIGNMENT - 1)) :: u64) AND NOT (of_nat (PERF_RECORD_ALIGNMENT - 1)))"

section \<open>Constants\<close>

definition PERF_SAMPLE_IP :: u64 where "PERF_SAMPLE_IP = push_bit 0 1"
definition PERF_SAMPLE_TID :: u64 where "PERF_SAMPLE_TID = push_bit 1 1"
definition PERF_SAMPLE_TIME :: u64 where "PERF_SAMPLE_TIME = push_bit 2 1"
definition PERF_SAMPLE_CALLCHAIN :: u64 where "PERF_SAMPLE_CALLCHAIN = push_bit 5 1"
definition PERF_SAMPLE_ID :: u64 where "PERF_SAMPLE_ID = push_bit 6 1"
definition PERF_SAMPLE_CPU :: u64 where "PERF_SAMPLE_CPU = push_bit 7 1"
definition PERF_SAMPLE_STREAM_ID :: u64 where "PERF_SAMPLE_STREAM_ID = push_bit 9 1"
definition PERF_SAMPLE_RAW :: u64 where "PERF_SAMPLE_RAW = push_bit 10 1"
definition PERF_SAMPLE_REGS_USER :: u64 where "PERF_SAMPLE_REGS_USER = push_bit 12 1"
definition PERF_SAMPLE_STACK_USER :: u64 where "PERF_SAMPLE_STACK_USER = push_bit 13 1"
definition PERF_SAMPLE_IDENTIFIER :: u64 where "PERF_SAMPLE_IDENTIFIER = push_bit 16 1"
definition PERF_SAMPLE_CGROUP :: u64 where "PERF_SAMPLE_CGROUP = push_bit 21 1"

definition PERF_RECORD_LOST :: u32 where "PERF_RECORD_LOST = 2"
definition PERF_RECORD_SAMPLE :: u32 where "PERF_RECORD_SAMPLE = 9"

definition PERF_FORMAT_ID :: u64 where "PERF_FORMAT_ID = push_bit 2 1"

definition FLAG_DISABLED :: u64 where "FLAG_DISABLED = push_bit 0 1"
definition FLAG_INHERIT :: u64 where "FLAG_INHERIT = push_bit 1 1"
definition FLAG_EXCLUDE_HV :: u64 where "FLAG_EXCLUDE_HV = push_bit 6 1"
definition FLAG_EXCLUDE_IDLE :: u64 where "FLAG_EXCLUDE_IDLE = push_bit 7 1"
definition FLAG_MMAP :: u64 where "FLAG_MMAP = push_bit 8 1"
definition FLAG_COMM :: u64 where "FLAG_COMM = push_bit 9 1"
definition FLAG_FREQ :: u64 where "FLAG_FREQ = push_bit 10 1"
definition FLAG_TASK :: u64 where "FLAG_TASK = push_bit 13 1"
definition FLAG_WATERMARK :: u64 where "FLAG_WATERMARK = push_bit 14 1"
definition FLAG_PRECISE_IP :: u64 where "FLAG_PRECISE_IP = push_bit 15 1"
definition FLAG_MMAP_DATA :: u64 where "FLAG_MMAP_DATA = push_bit 17 1"
definition FLAG_SAMPLE_ID_ALL :: u64 where "FLAG_SAMPLE_ID_ALL = push_bit 18 1"
definition FLAG_EXCLUDE_CALLCHAIN_KERNEL :: u64 where "FLAG_EXCLUDE_CALLCHAIN_KERNEL = push_bit 21 1"
definition FLAG_EXCLUDE_CALLCHAIN_USER :: u64 where "FLAG_EXCLUDE_CALLCHAIN_USER = push_bit 22 1"
definition FLAG_MMAP2 :: u64 where "FLAG_MMAP2 = push_bit 23 1"
definition FLAG_COMM_EXEC :: u64 where "FLAG_COMM_EXEC = push_bit 24 1"
definition FLAG_USE_CLOCKID :: u64 where "FLAG_USE_CLOCKID = push_bit 25 1"
definition FLAG_CONTEXT_SWITCH :: u64 where "FLAG_CONTEXT_SWITCH = push_bit 26 1"

definition PERF_TYPE_SOFTWARE :: u32 where "PERF_TYPE_SOFTWARE = 1"
definition PERF_TYPE_TRACEPOINT :: u32 where "PERF_TYPE_TRACEPOINT = 2"

definition PERF_COUNT_SW_CPU_CLOCK :: u64 where "PERF_COUNT_SW_CPU_CLOCK = 0"
definition PERF_COUNT_SW_PAGE_FAULTS_MIN :: u64 where "PERF_COUNT_SW_PAGE_FAULTS_MIN = 2"
definition PERF_COUNT_SW_CONTEXT_SWITCHES :: u64 where "PERF_COUNT_SW_CONTEXT_SWITCHES = 3"
definition PERF_COUNT_SW_PAGE_FAULTS_MAJ :: u64 where "PERF_COUNT_SW_PAGE_FAULTS_MAJ = 6"
definition PERF_COUNT_SW_BPF_OUTPUT :: u64 where "PERF_COUNT_SW_BPF_OUTPUT = 10"
definition PERF_COUNT_SW_DUMMY :: u64 where "PERF_COUNT_SW_DUMMY = 9"

definition PERF_ATTR_SIZE_VER4 :: u32 where "PERF_ATTR_SIZE_VER4 = 104"

text \<open>\<open>CLOCK_MONOTONIC_RAW\<close> of Linux.\<close>

definition CLOCK_MONOTONIC_RAW :: i32 where "CLOCK_MONOTONIC_RAW = 4"

lemmas perf_sample_defs = PERF_SAMPLE_IP_def PERF_SAMPLE_TID_def PERF_SAMPLE_TIME_def
  PERF_SAMPLE_CALLCHAIN_def PERF_SAMPLE_ID_def PERF_SAMPLE_CPU_def PERF_SAMPLE_STREAM_ID_def
  PERF_SAMPLE_RAW_def PERF_SAMPLE_REGS_USER_def PERF_SAMPLE_STACK_USER_def
  PERF_SAMPLE_IDENTIFIER_def PERF_SAMPLE_CGROUP_def

lemmas perf_flag_defs = FLAG_DISABLED_def FLAG_INHERIT_def FLAG_EXCLUDE_HV_def
  FLAG_EXCLUDE_IDLE_def FLAG_MMAP_def FLAG_COMM_def FLAG_FREQ_def FLAG_TASK_def
  FLAG_WATERMARK_def FLAG_PRECISE_IP_def FLAG_MMAP_DATA_def FLAG_SAMPLE_ID_ALL_def
  FLAG_EXCLUDE_CALLCHAIN_KERNEL_def FLAG_EXCLUDE_CALLCHAIN_USER_def FLAG_MMAP2_def
  FLAG_COMM_EXEC_def FLAG_USE_CLOCKID_def FLAG_CONTEXT_SWITCH_def

section \<open>Attributes\<close>

record perf_event_attr =
  event_type :: u32
  attr_size :: u32
  config :: u64
  sample_period_freq :: u64
  sample_type :: u64
  read_format :: u64
  flags :: u64
  wakeup_events_watermark :: u32
  bp_type :: u32
  bp_addr :: u64
  bp_len :: u64
  branch_sample_type :: u64
  sample_regs_user :: u64
  sample_stack_user :: u32
  clockid :: i32
  sample_regs_intr :: u64

definition attr_default :: perf_event_attr where
  "attr_default = \<lparr>event_type = 0, attr_size = 0, config = 0, sample_period_freq = 0,
     sample_type = 0, read_format = 0, flags = 0, wakeup_events_watermark = 0, bp_type = 0,
     bp_addr = 0, bp_len = 0, branch_sample_type = 0, sample_regs_user = 0,
     sample_stack_user = 0, clockid = 0, sample_regs_intr = 0\<rparr>"

definition has_flag :: "perf_event_attr \<Rightarrow> u64 \<Rightarrow> bool" where
  "has_flag a flag \<longleftrightarrow> flags a AND flag = flag"

definition has_format :: "perf_event_attr \<Rightarrow> u64 \<Rightarrow> bool" where
  "has_format a fmt \<longleftrightarrow> sample_type a AND fmt = fmt"

definition has_read_format :: "perf_event_attr \<Rightarrow> u64 \<Rightarrow> bool" where
  "has_read_format a fmt \<longleftrightarrow> read_format a AND fmt = fmt"

record sample_id_offsets =
  off_pid :: "nat option"
  off_tid :: "nat option"
  off_time :: "nat option"
  off_id :: "nat option"
  off_stream_id :: "nat option"
  off_cpu :: "nat option"
  off_identifier :: "nat option"
  off_size :: nat

definition offsets_default :: sample_id_offsets where
  "offsets_default = \<lparr>off_pid = None, off_tid = None, off_time = None, off_id = None,
     off_stream_id = None, off_cpu = None, off_identifier = None, off_size = 0\<rparr>"

definition non_sampled_id_offsets :: "perf_event_attr \<Rightarrow> sample_id_offsets option" where
  "non_sampled_id_offsets a =
     (if \<not> has_flag a FLAG_SAMPLE_ID_ALL then None
      else
        let o0 = offsets_default;
            o1 = (if has_format a PERF_SAMPLE_TID
                  then o0\<lparr>off_pid := Some (off_size o0), off_tid := Some (off_size o0 + 4),
                          off_size := off_size o0 + 8\<rparr> else o0);
            o2 = (if has_format a PERF_SAMPLE_TIME
                  then o1\<lparr>off_time := Some (off_size o1), off_size := off_size o1 + 8\<rparr> else o1);
            o3 = (if has_format a PERF_SAMPLE_ID
                  then o2\<lparr>off_id := Some (off_size o2), off_size := off_size o2 + 8\<rparr> else o2);
            o4 = (if has_format a PERF_SAMPLE_STREAM_ID
                  then o3\<lparr>off_stream_id := Some (off_size o3), off_size := off_size o3 + 8\<rparr> else o3);
            o5 = (if has_format a PERF_SAMPLE_CPU
                  then o4\<lparr>off_cpu := Some (off_size o4), off_size := off_size o4 + 8\<rparr> else o4)
        in Some (if has_format a PERF_SAMPLE_IDENTIFIER
                 then o5\<lparr>off_identifier := Some (off_size o5), off_size := off_size o5 + 8\<rparr> else o5))"

section \<open>Record headers\<close>

record header =
  entry_type :: u32
  misc :: u16
  hdr_size :: u16
  hdr_data :: "byte list"

definition data_offset :: nat where "data_offset = 8"

text \<open>The slices are of the width their conversion needs, so a short record panics and the
  \<open>TryFromSliceError\<close> of the signature does not arise.\<close>

definition header_from_slice :: "byte list \<Rightarrow> header option" where
  "header_from_slice sl = do {
     et \<leftarrow> subslice sl 0 4;
     mi \<leftarrow> subslice sl 4 6;
     sz \<leftarrow> subslice sl 6 8;
     rest \<leftarrow> slice_from sl data_offset;
     Ret \<lparr>entry_type = u32_of et, misc = u16_of mi, hdr_size = u16_of sz, hdr_data = rest\<rparr>
   }"

text \<open>The size is truncated to \<open>u16\<close>; the padding is a checked subtraction.\<close>

definition header_write :: "u32 \<Rightarrow> u16 \<Rightarrow> byte list \<Rightarrow> byte list \<Rightarrow> byte list option" where
  "header_write et mi data out =
     (let unaligned_size = length data + 8;
          sz = (of_nat (align_to_perf_record unaligned_size) :: u16);
          out1 = out @ u32_bytes et @ u16_bytes mi @ u16_bytes sz @ data
      in if unat sz < unaligned_size then Panic
         else let padding = unat sz - unaligned_size
              in Ret (if 0 < padding then out1 @ replicate padding 0 else out1))"

definition write_time :: "u64 \<Rightarrow> byte list \<Rightarrow> byte list" where
  "write_time time out = out @ u64_bytes time"

section \<open>Ring buffer builders\<close>

text \<open>\<open>RingBufOptions\<close>: each method works on a clone.\<close>

definition with_callchain_data :: "perf_event_attr \<Rightarrow> perf_event_attr" where
  "with_callchain_data a = a\<lparr>sample_type := sample_type a OR PERF_SAMPLE_CALLCHAIN\<rparr>"

definition without_user_callchain_data :: "perf_event_attr \<Rightarrow> perf_event_attr" where
  "without_user_callchain_data a = a\<lparr>flags := flags a OR FLAG_EXCLUDE_CALLCHAIN_USER\<rparr>"

definition without_kernel_callchain_data :: "perf_event_attr \<Rightarrow> perf_event_attr" where
  "without_kernel_callchain_data a = a\<lparr>flags := flags a OR FLAG_EXCLUDE_CALLCHAIN_KERNEL\<rparr>"

definition with_ip :: "perf_event_attr \<Rightarrow> perf_event_attr" where
  "with_ip a = a\<lparr>sample_type := sample_type a OR PERF_SAMPLE_IP, flags := flags a OR FLAG_PRECISE_IP\<rparr>"

definition with_user_regs_data :: "u64 \<Rightarrow> perf_event_attr \<Rightarrow> perf_event_attr" where
  "with_user_regs_data regs a =
     a\<lparr>sample_type := sample_type a OR PERF_SAMPLE_REGS_USER, sample_regs_user := regs\<rparr>"

definition with_user_stack_data :: "u32 \<Rightarrow> perf_event_attr \<Rightarrow> perf_event_attr" where
  "with_user_stack_data stack_bytes a =
     a\<lparr>sample_type := sample_type a OR PERF_SAMPLE_STACK_USER, sample_stack_user := stack_bytes\<rparr>"

definition with_cgroup_data :: "perf_event_attr \<Rightarrow> perf_event_attr" where
  "with_cgroup_data a = a\<lparr>sample_type := sample_type a OR PERF_SAMPLE_CGROUP\<rparr>"

definition common_attributes :: perf_event_attr where
  "common_attributes = attr_default\<lparr>
     attr_size := PERF_ATTR_SIZE_VER4,
     flags := FLAG_USE_CLOCKID OR FLAG_SAMPLE_ID_ALL OR FLAG_DISABLED OR FLAG_EXCLUDE_HV OR
       FLAG_EXCLUDE_IDLE OR FLAG_INHERIT,
     clockid := CLOCK_MONOTONIC_RAW,
     read_format := PERF_FORMAT_ID,
     sample_type := PERF_SAMPLE_IDENTIFIER OR PERF_SAMPLE_TIME OR PERF_SAMPLE_TID\<rparr>"

definition for_kernel :: perf_event_attr where
  "for_kernel = common_attributes\<lparr>event_type := PERF_TYPE_SOFTWARE, config := PERF_COUNT_SW_DUMMY\<rparr>"

definition for_cswitches :: perf_event_attr where
  "for_cswitches = common_attributes\<lparr>event_type := PERF_TYPE_SOFTWARE,
     config := PERF_COUNT_SW_CONTEXT_SWITCHES, sample_period_freq := 1\<rparr>"

definition for_soft_page_faults :: perf_event_attr where
  "for_soft_page_faults = common_attributes\<lparr>event_type := PERF_TYPE_SOFTWARE,
     config := PERF_COUNT_SW_PAGE_FAULTS_MIN, sample_period_freq := 1\<rparr>"

definition for_hard_page_faults :: perf_event_attr where
  "for_hard_page_faults = common_attributes\<lparr>event_type := PERF_TYPE_SOFTWARE,
     config := PERF_COUNT_SW_PAGE_FAULTS_MAJ, sample_period_freq := 1\<rparr>"

definition for_profiling :: "u64 \<Rightarrow> perf_event_attr" where
  "for_profiling sampling_frequency = common_attributes\<lparr>event_type := PERF_TYPE_SOFTWARE,
     config := PERF_COUNT_SW_CPU_CLOCK, sample_period_freq := sampling_frequency,
     flags := flags common_attributes OR FLAG_FREQ\<rparr>"

definition for_tracepoint :: perf_event_attr where
  "for_tracepoint = common_attributes\<lparr>event_type := PERF_TYPE_TRACEPOINT, sample_period_freq := 1,
     sample_type := sample_type common_attributes OR PERF_SAMPLE_RAW\<rparr>"

definition for_bpf :: perf_event_attr where
  "for_bpf = common_attributes\<lparr>event_type := PERF_TYPE_SOFTWARE, config := PERF_COUNT_SW_BPF_OUTPUT,
     sample_period_freq := 1, sample_type := sample_type common_attributes OR PERF_SAMPLE_RAW\<rparr>"

definition set_wakeup_watermark :: "u32 \<Rightarrow> perf_event_attr \<Rightarrow> perf_event_attr" where
  "set_wakeup_watermark bytes a =
     a\<lparr>flags := flags a OR FLAG_WATERMARK, wakeup_events_watermark := bytes\<rparr>"

definition with_executable_mmap_records :: "perf_event_attr \<Rightarrow> perf_event_attr" where
  "with_executable_mmap_records a = a\<lparr>flags := flags a OR (FLAG_MMAP OR FLAG_MMAP2)\<rparr>"

definition with_all_mmap_records :: "perf_event_attr \<Rightarrow> perf_event_attr" where
  "with_all_mmap_records a = a\<lparr>flags := flags a OR (FLAG_MMAP OR FLAG_MMAP2 OR FLAG_MMAP_DATA)\<rparr>"

definition with_comm_records :: "perf_event_attr \<Rightarrow> perf_event_attr" where
  "with_comm_records a = a\<lparr>flags := flags a OR (FLAG_COMM OR FLAG_COMM_EXEC)\<rparr>"

definition with_task_records :: "perf_event_attr \<Rightarrow> perf_event_attr" where
  "with_task_records a = a\<lparr>flags := flags a OR FLAG_TASK\<rparr>"

definition with_cswitch_records :: "perf_event_attr \<Rightarrow> perf_event_attr" where
  "with_cswitch_records a = a\<lparr>flags := flags a OR FLAG_CONTEXT_SWITCH\<rparr>"

text \<open>\<open>build\<close> of the tracepoint builder sets the tracepoint's id; the others keep the
  attributes.\<close>

definition build_tracepoint :: "u64 \<Rightarrow> perf_event_attr \<Rightarrow> perf_event_attr" where
  "build_tracepoint tracepoint_id a = a\<lparr>config := tracepoint_id\<rparr>"

definition without_callstack :: "perf_event_attr \<Rightarrow> perf_event_attr" where
  "without_callstack a =
     (if \<not> has_format a PERF_SAMPLE_CALLCHAIN \<and> \<not> has_format a PERF_SAMPLE_STACK_USER then a
      else a\<lparr>sample_type :=
          (sample_type a AND NOT PERF_SAMPLE_CALLCHAIN AND NOT PERF_SAMPLE_STACK_USER
             AND NOT PERF_SAMPLE_REGS_USER) OR PERF_SAMPLE_IP\<rparr>)"

text \<open>\<open>CpuRingBuf::new\<close>: where the time of a sample is.\<close>

definition sample_time_offset :: "perf_event_attr \<Rightarrow> u16" where
  "sample_time_offset a =
     (let t0 = of_nat data_offset;
          t1 = (if has_format a PERF_SAMPLE_IDENTIFIER then t0 + 8 else t0);
          t2 = (if has_format a PERF_SAMPLE_IP then t1 + 8 else t1)
      in if has_format a PERF_SAMPLE_TID then t2 + 8 else t2)"

section \<open>The header round trip\<close>

lemma align_eq:
  assumes "sz + 7 < 2 ^ 64"
  shows "align_to_perf_record sz = (sz + 7) div 8 * 8"
proof -
  have m: "(of_nat (PERF_RECORD_ALIGNMENT - 1) :: u64) = mask 3"
    by (simp add: PERF_RECORD_ALIGNMENT_def mask_eq_exp_minus_1)
  have a: "(w AND NOT (mask 3)) = push_bit 3 (drop_bit 3 w)" for w :: u64
  proof (rule bit_eqI)
    fix n
    assume "possible_bit TYPE(u64) n"
    then show "bit (w AND NOT (mask 3)) n = bit (push_bit 3 (drop_bit 3 w)) n"
      by (cases "n < 3") (auto simp: bit_and_iff bit_not_iff bit_mask_iff bit_push_bit_iff bit_drop_bit_eq)
  qed
  have "align_to_perf_record sz = unat (push_bit 3 (drop_bit 3 (of_nat (sz + 7) :: u64)))"
    by (simp only: align_to_perf_record_def m a) (simp add: PERF_RECORD_ALIGNMENT_def)
  also have "\<dots> = (sz + 7) div 8 * 8"
  proof -
    define w where "w = (of_nat (sz + 7) :: u64)"
    have u: "unat w = sz + 7"
      unfolding w_def by (rule unat_of_nat_word(3)) (rule assms)
    have "unat (push_bit 3 (drop_bit 3 w)) = take_bit 64 (push_bit 3 (drop_bit 3 (sz + 7)))"
      by (simp add: unsigned_push_bit_eq unsigned_drop_bit_eq u take_bit_nat_eq_self [OF assms])
    also have "\<dots> = take_bit 64 ((sz + 7) div 8 * 8)"
      by (simp add: push_bit_eq_mult drop_bit_eq_div)
    also have "\<dots> = (sz + 7) div 8 * 8"
      using assms by (intro take_bit_nat_eq_self) (meson div_times_less_eq_dividend le_less_trans)
    finally show ?thesis by (simp only: w_def)
  qed
  finally show ?thesis .
qed

lemma align_props:
  assumes "sz + 7 < 2 ^ 64"
  shows "sz \<le> align_to_perf_record sz" "align_to_perf_record sz < sz + 8"
    "8 dvd align_to_perf_record sz" "8 dvd sz \<Longrightarrow> align_to_perf_record sz = sz"
proof -
  show "8 dvd align_to_perf_record sz" using assms by (simp add: align_eq)
  show "sz \<le> align_to_perf_record sz" "align_to_perf_record sz < sz + 8"
    unfolding align_eq [OF assms] by presburger+
  show "8 dvd sz \<Longrightarrow> align_to_perf_record sz = sz"
    unfolding align_eq [OF assms] by presburger
qed

text \<open>The record \<open>header_write\<close> appends when it returns.\<close>

definition perf_record :: "u32 \<Rightarrow> u16 \<Rightarrow> byte list \<Rightarrow> byte list" where
  "perf_record et mi data =
     (let n = align_to_perf_record (length data + 8)
      in u32_bytes et @ u16_bytes mi @ u16_bytes (of_nat n) @ data @ replicate (n - (length data + 8)) 0)"

lemma length_perf_record:
  assumes "length data + 15 < 2 ^ 64"
  shows "length (perf_record et mi data) = align_to_perf_record (length data + 8)"
  using align_props(1) [of "length data + 8"] assms by (simp add: perf_record_def Let_def)

lemma align_max: "n \<le> 65520 \<Longrightarrow> align_to_perf_record (n + 8) \<le> 65528"
proof -
  assume n: "n \<le> 65520"
  then have "(n + 8 + 7) div 8 \<le> (65520 + 8 + 7) div 8" by (intro div_le_mono) simp
  then show ?thesis using align_eq [of "n + 8"] n by simp
qed

lemma header_write_eq:
  assumes "length data + 15 < 2 ^ 64"
  shows "header_write et mi data out =
    (if length data \<le> 65520 then Some (out @ perf_record et mi data) else None)"
proof -
  let ?n = "align_to_perf_record (length data + 8)"
  note p = align_props [of "length data + 8"]
  have n: "?n mod 65536 = unat (of_nat ?n :: u16)" by (simp add: unat_of_nat take_bit_eq_mod)
  show ?thesis
  proof (cases "length data \<le> 65520")
    case True
    then have "?n \<le> 65528" by (rule align_max)
    with n have "unat (of_nat ?n :: u16) = ?n" by simp
    then show ?thesis
      using True p(1) assms by (auto simp: header_write_def perf_record_def Let_def)
  next
    case False
    have "unat (of_nat ?n :: u16) < length data + 8"
    proof (cases "?n < 65536")
      case True
      have "(65521 + 8 + 7) div 8 \<le> (length data + 8 + 7) div 8" using False by (intro div_le_mono) simp
      then have "65536 \<le> ?n" using align_eq [of "length data + 8"] assms by simp
      with True show ?thesis by simp
    next
      case big: False
      have "?n - 65536 < length data + 8" using p(2) assms by simp
      moreover have "?n mod 65536 \<le> ?n - 65536" using big
        by (metis le_mod_geq linorder_not_le mod_less_eq_dividend)
      ultimately show ?thesis using n by simp
    qed
    then show ?thesis using False by (simp add: header_write_def Let_def)
  qed
qed

lemma header_from_perf_record:
  assumes "length data \<le> 65520"
  shows "header_from_slice (perf_record et mi data @ rest) = Some \<lparr>entry_type = et, misc = mi,
      hdr_size = of_nat (length (perf_record et mi data)),
      hdr_data = data @ replicate (length (perf_record et mi data) - (length data + 8)) 0 @ rest\<rparr>"
  using assms
  by (simp add: header_from_slice_def length_perf_record)
    (simp add: perf_record_def Let_def subslice_def slice_from_def data_offset_def)

text \<open>The record header round trip: \<open>Header::write\<close> appends one record whose length is a
  multiple of 8 and is the size its header states, and \<open>Header::from_slice\<close> at the start of that
  record gives back the type, the flags and the data (followed by at most seven zero bytes of
  padding). It does so exactly for data of at most 65520 bytes; beyond that the \<open>u16\<close> size
  wraps and the padding subtraction overflows, so the write panics.\<close>

theorem header_roundtrip:
  assumes "length data + 15 < 2 ^ 64"
  shows "if length data \<le> 65520
    then \<exists>rec pad. header_write et mi data out = Some (out @ rec) \<and> 8 dvd length rec \<and>
      set pad \<subseteq> {0} \<and> length pad < 8 \<and>
      header_from_slice (rec @ rest) = Some \<lparr>entry_type = et, misc = mi,
        hdr_size = of_nat (length rec), hdr_data = data @ pad @ rest\<rparr> \<and>
      unat (of_nat (length rec) :: u16) = length rec
    else header_write et mi data out = None"
proof (cases "length data \<le> 65520")
  case True
  let ?rec = "perf_record et mi data"
  let ?pad = "replicate (length ?rec - (length data + 8)) (0 :: byte)"
  have len: "length ?rec = align_to_perf_record (length data + 8)"
    using True by (simp add: length_perf_record)
  have "length ?rec \<le> 65528"
    unfolding len using True by (rule align_max)
  then have "unat (of_nat (length ?rec) :: u16) = length ?rec"
    by (intro unat_of_nat_word) simp
  moreover have "length ?pad < 8" "8 dvd length ?rec"
    using align_props(2,3) [of "length data + 8"] True by (simp_all add: len)
  ultimately show ?thesis
    using True header_from_perf_record [OF True, of et mi rest] header_write_eq [OF assms, of et mi out]
    by (auto intro!: exI [of _ ?rec] exI [of _ ?pad] simp del: length_replicate)
qed (use header_write_eq [OF assms] in simp)

theorem header_roundtrip_witness:
  "\<exists>rec pad. header_write 9 0 [1, 2, 3] [] = Some rec \<and>
    header_from_slice rec = Some \<lparr>entry_type = 9, misc = 0, hdr_size = of_nat (length rec),
      hdr_data = [1, 2, 3] @ pad\<rparr>"
  using header_roundtrip [of "[1, 2, 3]" 9 0 "[]" "[]"] by auto

section \<open>Where the fields of a record are\<close>

text \<open>The layouts of the kernel, as the comment at the top of \<open>abi.rs\<close> gives them: the fields a
  sample starts with, and the fields that end a record that is not a sample.\<close>

definition opt_bytes :: "perf_event_attr \<Rightarrow> u64 \<Rightarrow> byte list \<Rightarrow> byte list" where
  "opt_bytes a fmt bs = (if has_format a fmt then bs else [])"

definition sample_prefix :: "perf_event_attr \<Rightarrow> u64 \<Rightarrow> u64 \<Rightarrow> u32 \<Rightarrow> u32 \<Rightarrow> u64 \<Rightarrow> byte list" where
  "sample_prefix a ident ip pid tid time =
     opt_bytes a PERF_SAMPLE_IDENTIFIER (u64_bytes ident) @ opt_bytes a PERF_SAMPLE_IP (u64_bytes ip) @
     opt_bytes a PERF_SAMPLE_TID (u32_bytes pid @ u32_bytes tid) @
     opt_bytes a PERF_SAMPLE_TIME (u64_bytes time)"

definition sample_id_bytes ::
  "perf_event_attr \<Rightarrow> u32 \<Rightarrow> u32 \<Rightarrow> u64 \<Rightarrow> u64 \<Rightarrow> u64 \<Rightarrow> u64 \<Rightarrow> u64 \<Rightarrow> byte list" where
  "sample_id_bytes a pid tid time sid stream cpu ident =
     opt_bytes a PERF_SAMPLE_TID (u32_bytes pid @ u32_bytes tid) @
     opt_bytes a PERF_SAMPLE_TIME (u64_bytes time) @ opt_bytes a PERF_SAMPLE_ID (u64_bytes sid) @
     opt_bytes a PERF_SAMPLE_STREAM_ID (u64_bytes stream) @ opt_bytes a PERF_SAMPLE_CPU (u64_bytes cpu) @
     opt_bytes a PERF_SAMPLE_IDENTIFIER (u64_bytes ident)"

definition field_at :: "nat option \<Rightarrow> nat \<Rightarrow> byte list \<Rightarrow> byte list option" where
  "field_at off n bs = (case off of None \<Rightarrow> None | Some k \<Rightarrow> subslice bs k (k + n))"

text \<open>The trailing sample-id fields: when the attributes ask for them, the offsets
  \<open>non_sampled_id_offsets\<close> returns locate, in the kernel's layout, the process, the thread, the
  time, the id, the stream, the cpu and the identifier, each exactly when its format is enabled,
  and the size is the length of the layout; without \<open>FLAG_SAMPLE_ID_ALL\<close> there are none.\<close>

theorem sample_id_offsets_correct:
  "(case non_sampled_id_offsets a of
     None \<Rightarrow> \<not> has_flag a FLAG_SAMPLE_ID_ALL
   | Some off \<Rightarrow> has_flag a FLAG_SAMPLE_ID_ALL \<and>
      (let bs = sample_id_bytes a pid tid time sid stream cpu ident in
        length bs = off_size off \<and>
        field_at (off_pid off) 4 bs = (if has_format a PERF_SAMPLE_TID then Some (u32_bytes pid) else None) \<and>
        field_at (off_tid off) 4 bs = (if has_format a PERF_SAMPLE_TID then Some (u32_bytes tid) else None) \<and>
        field_at (off_time off) 8 bs = (if has_format a PERF_SAMPLE_TIME then Some (u64_bytes time) else None) \<and>
        field_at (off_id off) 8 bs = (if has_format a PERF_SAMPLE_ID then Some (u64_bytes sid) else None) \<and>
        field_at (off_stream_id off) 8 bs = (if has_format a PERF_SAMPLE_STREAM_ID then Some (u64_bytes stream) else None) \<and>
        field_at (off_cpu off) 8 bs = (if has_format a PERF_SAMPLE_CPU then Some (u64_bytes cpu) else None) \<and>
        field_at (off_identifier off) 8 bs = (if has_format a PERF_SAMPLE_IDENTIFIER then Some (u64_bytes ident) else None)))"
proof -
  define b1 where "b1 = has_format a PERF_SAMPLE_TID"
  define b2 where "b2 = has_format a PERF_SAMPLE_TIME"
  define b3 where "b3 = has_format a PERF_SAMPLE_ID"
  define b4 where "b4 = has_format a PERF_SAMPLE_STREAM_ID"
  define b5 where "b5 = has_format a PERF_SAMPLE_CPU"
  define b6 where "b6 = has_format a PERF_SAMPLE_IDENTIFIER"
  note b = b1_def [symmetric] b2_def [symmetric] b3_def [symmetric] b4_def [symmetric]
    b5_def [symmetric] b6_def [symmetric]
  show ?thesis
    unfolding non_sampled_id_offsets_def sample_id_bytes_def opt_bytes_def b
    by (cases b1; cases b2; cases b3; cases b4; cases b5; cases b6;
        simp add: offsets_default_def Let_def field_at_def subslice_def)
qed

text \<open>\<open>sample_time_offset\<close> locates the time: in a sample record of the kernel's layout whose
  attributes ask for the time, the eight bytes at that offset (the offset counts the header) are
  the time.\<close>

theorem sample_time_offset_correct:
  assumes "has_format a PERF_SAMPLE_TIME" "length hdr = data_offset"
  shows "subslice (hdr @ sample_prefix a ident ip pid tid time @ rest)
      (unat (sample_time_offset a)) (unat (sample_time_offset a) + 8) = Some (u64_bytes time)"
proof -
  define b1 where "b1 = has_format a PERF_SAMPLE_IDENTIFIER"
  define b2 where "b2 = has_format a PERF_SAMPLE_IP"
  define b3 where "b3 = has_format a PERF_SAMPLE_TID"
  note b = b1_def [symmetric] b2_def [symmetric] b3_def [symmetric]
  show ?thesis
    using assms unfolding sample_time_offset_def sample_prefix_def opt_bytes_def b
    by (cases b1; cases b2; cases b3; simp add: subslice_def data_offset_def)
qed

theorem sample_time_offset_correct_witness:
  "subslice (replicate 8 0 @ sample_prefix common_attributes 1 2 3 4 5)
     (unat (sample_time_offset common_attributes)) (unat (sample_time_offset common_attributes) + 8) =
   Some (u64_bytes 5)"
  using sample_time_offset_correct [of common_attributes "replicate 8 0" 1 2 3 4 5 "[]"]
  by (simp add: has_format_def common_attributes_def perf_sample_defs data_offset_def)

section \<open>The attributes a session uses\<close>

text \<open>The attributes the builders can produce, and what \<open>without_callstack\<close> makes of them.\<close>

inductive built :: "perf_event_attr \<Rightarrow> bool" where
  built_kernel: "built for_kernel"
| built_cswitches: "built for_cswitches"
| built_soft: "built for_soft_page_faults"
| built_hard: "built for_hard_page_faults"
| built_profiling: "built (for_profiling freq)"
| built_tracepoint: "built for_tracepoint"
| built_bpf: "built for_bpf"
| built_callchain: "built a \<Longrightarrow> built (with_callchain_data a)"
| built_no_user: "built a \<Longrightarrow> built (without_user_callchain_data a)"
| built_no_kernel: "built a \<Longrightarrow> built (without_kernel_callchain_data a)"
| built_ip: "built a \<Longrightarrow> built (with_ip a)"
| built_regs: "built a \<Longrightarrow> built (with_user_regs_data regs a)"
| built_stack: "built a \<Longrightarrow> built (with_user_stack_data n a)"
| built_cgroup: "built a \<Longrightarrow> built (with_cgroup_data a)"
| built_watermark: "built a \<Longrightarrow> built (set_wakeup_watermark bytes a)"
| built_exec: "built a \<Longrightarrow> built (with_executable_mmap_records a)"
| built_mmap: "built a \<Longrightarrow> built (with_all_mmap_records a)"
| built_comm: "built a \<Longrightarrow> built (with_comm_records a)"
| built_task: "built a \<Longrightarrow> built (with_task_records a)"
| built_cswitch: "built a \<Longrightarrow> built (with_cswitch_records a)"
| built_tp: "built a \<Longrightarrow> built (build_tracepoint tid a)"
| built_without: "built a \<Longrightarrow> built (without_callstack a)"

text \<open>Bits the builders set and never clear, and bits they never set.\<close>

definition attr_inv :: "perf_event_attr \<Rightarrow> bool" where
  "attr_inv a \<longleftrightarrow> bit (flags a) 0 \<and> bit (flags a) 18 \<and> bit (flags a) 25 \<and>
     bit (sample_type a) 1 \<and> bit (sample_type a) 2 \<and> bit (sample_type a) 16 \<and>
     \<not> bit (sample_type a) 6 \<and> \<not> bit (sample_type a) 7 \<and> \<not> bit (sample_type a) 9 \<and>
     read_format a = PERF_FORMAT_ID \<and> clockid a = CLOCK_MONOTONIC_RAW"

lemma bit_push_one: "bit (push_bit n (1 :: u64)) k \<longleftrightarrow> k = n \<and> n < 64"
  by (auto simp: bit_exp_iff)

lemma and_push_one: "w AND push_bit n 1 = push_bit n 1 \<longleftrightarrow> bit w n" if "n < 64" for w :: u64
proof
  assume "w AND push_bit n 1 = push_bit n 1"
  then have "bit (w AND push_bit n 1) n" using that by (simp only: bit_push_one)
  then show "bit w n" by (simp add: bit_and_iff)
next
  assume "bit w n"
  then show "w AND push_bit n 1 = push_bit n 1"
    by (intro bit_eqI) (auto simp: bit_and_iff bit_push_one simp del: push_bit_of_1)
qed

lemma built_inv: "built a \<Longrightarrow> attr_inv a"
  by (induction rule: built.induct)
    (simp_all only: attr_inv_def for_kernel_def for_cswitches_def for_soft_page_faults_def
      for_hard_page_faults_def for_profiling_def for_tracepoint_def for_bpf_def with_callchain_data_def
      without_user_callchain_data_def without_kernel_callchain_data_def with_ip_def
      with_user_regs_data_def with_user_stack_data_def with_cgroup_data_def set_wakeup_watermark_def
      with_executable_mmap_records_def with_all_mmap_records_def with_comm_records_def
      with_task_records_def with_cswitch_records_def build_tracepoint_def without_callstack_def
      common_attributes_def perf_event_attr.simps perf_sample_defs perf_flag_defs
      bit_or_iff bit_and_iff bit_not_iff bit_push_one if_split simp_thms,
     auto simp: bit_or_iff bit_and_iff bit_not_iff bit_push_one simp del: push_bit_of_1)

lemma has_bits:
  "has_flag a (push_bit n 1) \<longleftrightarrow> bit (flags a) n" "has_format a (push_bit n 1) \<longleftrightarrow> bit (sample_type a) n"
  "has_read_format a (push_bit n 1) \<longleftrightarrow> bit (read_format a) n" if "n < 64"
  using that by (simp_all only: has_flag_def has_format_def has_read_format_def and_push_one)

lemma has_all_bits:
  "has_flag a FLAG_SAMPLE_ID_ALL \<longleftrightarrow> bit (flags a) 18" "has_flag a FLAG_DISABLED \<longleftrightarrow> bit (flags a) 0"
  "has_flag a FLAG_USE_CLOCKID \<longleftrightarrow> bit (flags a) 25"
  "has_format a PERF_SAMPLE_IP \<longleftrightarrow> bit (sample_type a) 0" "has_format a PERF_SAMPLE_TID \<longleftrightarrow> bit (sample_type a) 1"
  "has_format a PERF_SAMPLE_TIME \<longleftrightarrow> bit (sample_type a) 2"
  "has_format a PERF_SAMPLE_CALLCHAIN \<longleftrightarrow> bit (sample_type a) 5"
  "has_format a PERF_SAMPLE_ID \<longleftrightarrow> bit (sample_type a) 6" "has_format a PERF_SAMPLE_CPU \<longleftrightarrow> bit (sample_type a) 7"
  "has_format a PERF_SAMPLE_STREAM_ID \<longleftrightarrow> bit (sample_type a) 9"
  "has_format a PERF_SAMPLE_STACK_USER \<longleftrightarrow> bit (sample_type a) 13"
  "has_format a PERF_SAMPLE_IDENTIFIER \<longleftrightarrow> bit (sample_type a) 16"
  by (simp_all only: perf_sample_defs perf_flag_defs has_bits)

lemma without_callstack_formats:
  "\<not> has_format (without_callstack a) PERF_SAMPLE_CALLCHAIN"
  "\<not> has_format (without_callstack a) PERF_SAMPLE_STACK_USER"
  "has_format a PERF_SAMPLE_CALLCHAIN \<Longrightarrow> has_format (without_callstack a) PERF_SAMPLE_IP"
  by (auto simp: without_callstack_def has_all_bits)
    (auto simp: perf_sample_defs bit_or_iff bit_and_iff bit_not_iff bit_push_one simp del: push_bit_of_1)

text \<open>C30. Every attribute set the builders produce, in any sequence of the options (callstacks
  removed or not), lets the session find a record's time: the events start disabled, on the raw
  monotonic clock, with process, thread, time and identifier enabled; a record that is not a sample
  ends in 24 bytes of which bytes 8 to 15 are the time; a sample has its time at offset 24, or 32
  when it carries an instruction pointer. After \<open>without_callstack\<close> no callstack is sampled.\<close>

theorem built_attributes_locate_time:
  assumes "built a"
  shows "has_flag a FLAG_DISABLED \<and> has_flag a FLAG_USE_CLOCKID \<and> clockid a = CLOCK_MONOTONIC_RAW \<and>
    has_format a PERF_SAMPLE_TIME \<and> has_format a PERF_SAMPLE_IDENTIFIER \<and>
    non_sampled_id_offsets a = Some (offsets_default\<lparr>off_pid := Some 0, off_tid := Some 4,
      off_time := Some 8, off_identifier := Some 16, off_size := 24\<rparr>) \<and>
    sample_time_offset a = (if has_format a PERF_SAMPLE_IP then 32 else 24) \<and>
    \<not> has_format (without_callstack a) PERF_SAMPLE_CALLCHAIN \<and>
    \<not> has_format (without_callstack a) PERF_SAMPLE_STACK_USER"
  using built_inv [OF assms]
  by (simp add: attr_inv_def has_all_bits(1-6,8-10,12) non_sampled_id_offsets_def Let_def
      offsets_default_def sample_time_offset_def data_offset_def without_callstack_formats)

theorem built_attributes_locate_time_witness:
  "sample_time_offset (without_callstack (with_callchain_data (for_profiling 1000))) = 32"
proof -
  let ?a = "with_callchain_data (for_profiling 1000)"
  have "has_format ?a PERF_SAMPLE_CALLCHAIN"
    by (simp add: has_format_def with_callchain_data_def for_profiling_def common_attributes_def perf_sample_defs)
  then have "has_format (without_callstack ?a) PERF_SAMPLE_IP" by (rule without_callstack_formats)
  moreover have "built (without_callstack ?a)" by (intro built.intros)
  ultimately show ?thesis using built_attributes_locate_time [of "without_callstack ?a"] by simp
qed

end
