(* ===== verification/RingBuf.thy ===== *)
theory RingBuf
  imports PerfAbi "HOL-Library.Sublist"
begin

text \<open>
  The perf ring buffer of \<open>one_collect/src/perf_event/rb/mod.rs\<close>: the cursor and the reader of
  the shared pages (\<open>CpuRingCursor\<close>, \<open>CpuRingReader\<close>), and the ring in user memory with its
  writer (\<open>InProcessRingBuf\<close>, \<open>InProcessRingBufWriter\<close>). The shared pages are one byte list
  that reader and writer operations take and return; a raw pointer is an offset in it. A raw
  copy out of the pages is undefined behaviour in the code and \<open>Panic\<close> here, so a theorem that
  an operation returns shows that its copies stay inside. The memory barriers order the accesses
  of the two sides; the model interleaves whole operations.

  The last part refines both sides, under every interleaving, to a queue of records.
\<close>

section \<open>Raw memory\<close>

text \<open>\<open>copy_nonoverlapping\<close> and \<open>write_bytes\<close> into the pages.\<close>

definition blit :: "byte list \<Rightarrow> nat \<Rightarrow> byte list \<Rightarrow> byte list option" where
  "blit mem pos bs =
     (if pos + length bs \<le> length mem then Ret (take pos mem @ bs @ drop (pos + length bs) mem) else Panic)"

text \<open>A checked subtraction of \<open>usize\<close>.\<close>

definition sub_usize :: "nat \<Rightarrow> nat \<Rightarrow> nat option" where
  "sub_usize a b = (if b \<le> a then Ret (a - b) else Panic)"

section \<open>The cursor\<close>

record ring_cursor =
  cur_start :: u64
  cur_end :: u64

definition cursor_default :: ring_cursor where
  "cursor_default = \<lparr>cur_start = 0, cur_end = 0\<rparr>"

definition cursor_set :: "ring_cursor \<Rightarrow> u64 \<Rightarrow> u64 \<Rightarrow> ring_cursor" where
  "cursor_set cur start stop = cur\<lparr>cur_start := start, cur_end := stop\<rparr>"

definition cursor_advance :: "ring_cursor \<Rightarrow> u16 \<Rightarrow> ring_cursor option" where
  "cursor_advance cur len = do { s \<leftarrow> add64 (cur_start cur) (ucast len); Ret (cur\<lparr>cur_start := s\<rparr>) }"

definition cursor_more :: "ring_cursor \<Rightarrow> bool" where
  "cursor_more cur \<longleftrightarrow> cur_start cur < cur_end cur"

section \<open>The reader\<close>

record ring_reader =
  rd_data_offset :: u64
  rd_data_size :: u64
  rd_data_mask :: u64
  rd_owned :: bool

definition reader_new :: "byte list \<Rightarrow> ring_reader option" where
  "reader_new mem = do {
     o_bytes \<leftarrow> subslice mem 1040 1048;
     s_bytes \<leftarrow> subslice mem 1048 1056;
     dmask \<leftarrow> sub64 (u64_of s_bytes) 1;
     Ret \<lparr>rd_data_offset = u64_of o_bytes, rd_data_size = u64_of s_bytes, rd_data_mask = dmask,
          rd_owned = True\<rparr>
   }"

definition reader_new_unowned :: "byte list \<Rightarrow> ring_reader option" where
  "reader_new_unowned mem = do { rd \<leftarrow> reader_new mem; Ret (rd\<lparr>rd_owned := False\<rparr>) }"

definition reader_head :: "byte list \<Rightarrow> u64 option" where
  "reader_head mem = do { b \<leftarrow> subslice mem 1024 1032; Ret (u64_of b) }"

definition reader_tail :: "byte list \<Rightarrow> u64 option" where
  "reader_tail mem = do { b \<leftarrow> subslice mem 1032 1040; Ret (u64_of b) }"

definition begin_reading :: "byte list \<Rightarrow> ring_cursor \<Rightarrow> ring_cursor option" where
  "begin_reading mem cur = do {
     hd_pos \<leftarrow> reader_head mem;
     tl_pos \<leftarrow> reader_tail mem;
     Ret (cursor_set cur tl_pos hd_pos)
   }"

definition data_slice :: "ring_reader \<Rightarrow> byte list \<Rightarrow> byte list option" where
  "data_slice rd mem =
     subslice mem (unat (rd_data_offset rd)) (unat (rd_data_offset rd) + unat (rd_data_size rd))"

definition peek_header :: "ring_reader \<Rightarrow> ring_cursor \<Rightarrow> byte list \<Rightarrow> (nat \<times> header) option" where
  "peek_header rd cur dslice = (
     let start = unat (cur_start cur AND rd_data_mask rd) in do {
     header_slice \<leftarrow> subslice dslice start (start + data_offset);
     h \<leftarrow> header_from_slice header_slice;
     Ret (start, h)
   })"

definition peek_u64 :: "ring_reader \<Rightarrow> byte list \<Rightarrow> ring_cursor \<Rightarrow> u64 \<Rightarrow> u64 option" where
  "peek_u64 rd mem cur offset = do {
     pos \<leftarrow> add64 (cur_start cur) offset;
     let start = unat (pos AND rd_data_mask rd);
     dslice \<leftarrow> data_slice rd mem;
     b \<leftarrow> subslice dslice start (start + 8);
     Ret (u64_of b)
   }"

text \<open>The record at the cursor and the advanced cursor.\<close>

definition reader_read :: "ring_reader \<Rightarrow> byte list \<Rightarrow> ring_cursor \<Rightarrow> (byte list \<times> ring_cursor) option" where
  "reader_read rd mem cur = do {
     dslice \<leftarrow> data_slice rd mem;
     (header_start, h) \<leftarrow> peek_header rd cur dslice;
     let dsize = unat (hdr_size h);
     cur' \<leftarrow> cursor_advance cur (hdr_size h);
     if header_start + dsize \<le> unat (rd_data_size rd) then do {
       bs \<leftarrow> subslice dslice header_start (header_start + dsize);
       Ret (bs, cur')
     } else do {
       temp \<leftarrow> slice_from dslice header_start;
       remaining \<leftarrow> sub_usize dsize (length temp);
       rest \<leftarrow> subslice dslice 0 remaining;
       Ret (temp @ rest, cur')
     }
   }"

definition end_reading :: "byte list \<Rightarrow> ring_cursor \<Rightarrow> byte list option" where
  "end_reading mem cur = blit mem 1032 (u64_bytes (cur_start cur))"

section \<open>The in-process ring\<close>

record in_process_ring =
  rb_data :: "byte list"
  rb_data_offset :: nat
  rb_data_size :: nat
  rb_data_mask :: nat
  rb_head :: nat

text \<open>\<open>page_size\<close> is \<open>sysconf(_SC_PAGE_SIZE)\<close>.\<close>

definition ring_data_bytes :: "nat \<Rightarrow> nat \<Rightarrow> nat" where
  "ring_data_bytes page_size page_count = next_power_of_two page_count * page_size"

definition in_process_new :: "nat \<Rightarrow> nat \<Rightarrow> in_process_ring option" where
  "in_process_new page_size data_pages = (
     let data_pages = next_power_of_two data_pages;
         dsize = data_pages * page_size;
         offset = page_size;
         total_size = offset + dsize in do {
     d0 \<leftarrow> blit (replicate total_size 0) 1040 (u64_bytes (of_nat offset));
     d1 \<leftarrow> blit d0 1048 (u64_bytes (of_nat dsize));
     dmask \<leftarrow> sub_usize dsize 1;
     Ret \<lparr>rb_data = d1, rb_data_offset = offset, rb_data_size = dsize, rb_data_mask = dmask, rb_head = 0\<rparr>
   })"

definition create_reader :: "in_process_ring \<Rightarrow> ring_reader option" where
  "create_reader rb = reader_new_unowned (rb_data rb)"

record ring_writer =
  w_data_offset :: nat
  w_data_size :: nat
  w_data_mask :: nat
  w_head :: nat
  w_lost_count :: u64

definition ring_writer_of :: "in_process_ring \<Rightarrow> ring_writer" where
  "ring_writer_of rb = \<lparr>w_data_offset = rb_data_offset rb, w_data_size = rb_data_size rb,
     w_data_mask = rb_data_mask rb, w_head = rb_head rb, w_lost_count = 0\<rparr>"

definition LOST_RECORD_SIZE :: nat where "LOST_RECORD_SIZE = 48"

definition writer_tail :: "byte list \<Rightarrow> nat option" where
  "writer_tail mem = do { b \<leftarrow> subslice mem 1032 1040; Ret (unat (u64_of b)) }"

definition available :: "ring_writer \<Rightarrow> byte list \<Rightarrow> nat option" where
  "available w mem = do {
     tl_pos \<leftarrow> writer_tail mem;
     used \<leftarrow> sub_usize (w_head w) tl_pos;
     sub_usize (w_data_size w) used
   }"

text \<open>The polling loop. \<open>polls\<close> is what happens during the sleeps until the timeout: before
  each further poll the reader stores a tail. The pages are returned as the loop leaves them.\<close>

fun wait_for_space :: "ring_writer \<Rightarrow> nat \<Rightarrow> u64 list \<Rightarrow> byte list \<Rightarrow> (bool \<times> byte list) option" where
  "wait_for_space w needed polls mem = do {
     a \<leftarrow> available w mem;
     if needed \<le> a then Ret (True, mem)
     else (case polls of
         [] \<Rightarrow> Ret (False, mem)
       | t # ts \<Rightarrow> do { mem' \<leftarrow> blit mem 1032 (u64_bytes t); wait_for_space w needed ts mem' })
   }"

text \<open>The copy with its wrap-around, which \<open>write_raw\<close> does for the record and for the padding.\<close>

definition copy_wrapped :: "byte list \<Rightarrow> nat \<Rightarrow> nat \<Rightarrow> nat \<Rightarrow> byte list \<Rightarrow> byte list option" where
  "copy_wrapped mem dest dsize pos bs =
     (if pos + length bs \<le> dsize then blit mem (dest + pos) bs
      else let first_part = dsize - pos in do {
        mem' \<leftarrow> blit mem (dest + pos) (take first_part bs);
        blit mem' dest (drop first_part bs)
      })"

definition write_raw :: "ring_writer \<Rightarrow> byte list \<Rightarrow> nat \<Rightarrow> byte list \<Rightarrow> (ring_writer \<times> byte list) option" where
  "write_raw w rec aligned_len mem = (
     let write_pos = w_head w AND w_data_mask w in do {
     mem1 \<leftarrow> copy_wrapped mem (w_data_offset w) (w_data_size w) write_pos rec;
     padding \<leftarrow> sub_usize aligned_len (length rec);
     mem2 \<leftarrow> (if 0 < padding
        then let padding_start = (write_pos + length rec) AND w_data_mask w
             in copy_wrapped mem1 (w_data_offset w) (w_data_size w) padding_start (replicate padding 0)
        else Ret mem1);
     let w' = w\<lparr>w_head := w_head w + aligned_len\<rparr>;
     mem3 \<leftarrow> blit mem2 1024 (u64_bytes (of_nat (w_head w')));
     Ret (w', mem3)
   })"

text \<open>\<open>now\<close> is \<open>perf_timestamp\<close>, the clock.\<close>

definition lost_payload :: "u64 \<Rightarrow> u64 \<Rightarrow> byte list" where
  "lost_payload lost now =
     u64_bytes 0 @ u64_bytes lost @ u64_bytes 0 @ u64_bytes now @ u64_bytes 0"

definition flush_pending_lost :: "ring_writer \<Rightarrow> u64 \<Rightarrow> byte list \<Rightarrow> (ring_writer \<times> byte list) option" where
  "flush_pending_lost w now mem =
     (if w_lost_count w = 0 then Ret (w, mem)
      else do {
        a \<leftarrow> available w mem;
        if a < LOST_RECORD_SIZE then Ret (w, mem)
        else do {
          rec \<leftarrow> header_write PERF_RECORD_LOST 0 (lost_payload (w_lost_count w) now) [];
          write_raw (w\<lparr>w_lost_count := 0\<rparr>) rec (align_to_perf_record (length rec)) mem
        }
      })"

definition writer_flush :: "ring_writer \<Rightarrow> u64 \<Rightarrow> byte list \<Rightarrow> (ring_writer \<times> byte list) option" where
  "writer_flush w now mem = flush_pending_lost w now mem"

definition lose :: "ring_writer \<Rightarrow> ring_writer option" where
  "lose w = do { n \<leftarrow> add64 (w_lost_count w) 1; Ret (w\<lparr>w_lost_count := n\<rparr>) }"

definition writer_write ::
  "ring_writer \<Rightarrow> u64 \<Rightarrow> u64 list \<Rightarrow> byte list \<Rightarrow> byte list \<Rightarrow> (ring_writer \<times> byte list) option" where
  "writer_write w now polls rec mem = (
     let aligned_len = align_to_perf_record (length rec) in
     if w_data_size w < aligned_len then do { w' \<leftarrow> lose w; Ret (w', mem) }
     else
       let extra = (if 0 < w_lost_count w then LOST_RECORD_SIZE else 0);
           needed = aligned_len + extra in do {
       a \<leftarrow> available w mem;
       (ok, mem') \<leftarrow> (if a < needed then wait_for_space w needed polls mem else Ret (True, mem));
       if \<not> ok then do { w' \<leftarrow> lose w; Ret (w', mem') }
       else do {
         (w', mem'') \<leftarrow> flush_pending_lost w now mem';
         write_raw w' rec aligned_len mem''
       }
     })"

declare wait_for_space.simps [simp del]

section \<open>Bytes by ring position\<close>

text \<open>The byte a position of the ring designates, and a run of positions. \<open>meta\<close> is a word of the
  metadata page.\<close>

definition rbyte :: "nat \<Rightarrow> nat \<Rightarrow> byte list \<Rightarrow> nat \<Rightarrow> byte" where
  "rbyte off n mem i = mem ! (off + i mod n)"

definition segment :: "nat \<Rightarrow> nat \<Rightarrow> byte list \<Rightarrow> nat \<Rightarrow> nat \<Rightarrow> byte list" where
  "segment off n mem a b = map (rbyte off n mem) [a..<b]"

definition meta :: "byte list \<Rightarrow> nat \<Rightarrow> u64" where
  "meta mem k = u64_of (take 8 (drop k mem))"

lemma length_segment [simp]: "length (segment off n mem a b) = b - a"
  by (simp add: segment_def)

lemma segment_append: "a \<le> b \<Longrightarrow> b \<le> c \<Longrightarrow> segment off n mem a c = segment off n mem a b @ segment off n mem b c"
  using upt_add_eq_append [of a b "c - b"] by (simp add: segment_def)

lemma segment_cong:
  "(\<And>i. a \<le> i \<Longrightarrow> i < b \<Longrightarrow> rbyte off n mem i = rbyte off n mem' i) \<Longrightarrow>
   segment off n mem a b = segment off n mem' a b"
  by (simp add: segment_def)

lemma rbyte_period [simp]: "rbyte off n mem (i + n) = rbyte off n mem i"
  by (simp add: rbyte_def)

lemma blit_Some:
  assumes "pos + length bs \<le> length mem"
  obtains m where "blit mem pos bs = Some m" "length m = length mem"
    "\<And>j. j < length mem \<Longrightarrow> m ! j = (if pos \<le> j \<and> j < pos + length bs then bs ! (j - pos) else mem ! j)"
proof
  let ?m = "take pos mem @ bs @ drop (pos + length bs) mem"
  show "blit mem pos bs = Some ?m" using assms by (simp add: blit_def)
  show "length ?m = length mem" using assms by simp
  show "?m ! j = (if pos \<le> j \<and> j < pos + length bs then bs ! (j - pos) else mem ! j)"
    if "j < length mem" for j
    using assms that by (auto simp: nth_append)
qed

lemma mod_shift:
  fixes p n i :: nat
  assumes "i < n"
  shows "(p + i) mod n = (if p mod n + i < n then p mod n + i else p mod n + i - n)"
proof -
  have s: "p mod n < n" using assms by simp
  have "(p + i) mod n = (p mod n + i) mod n" by (simp add: mod_add_left_eq)
  also have "\<dots> = (if p mod n + i < n then p mod n + i else p mod n + i - n)"
  proof (cases "p mod n + i < n")
    case False
    then have "p mod n + i - n < n" using assms s by linarith
    then show ?thesis using False by (simp add: le_mod_geq del: mod_add_left_eq)
  qed simp
  finally show ?thesis .
qed

lemma copy_wrapped_Some:
  assumes "length mem = off + n" "length bs \<le> n" "0 < n"
  obtains m where "copy_wrapped mem off n (p mod n) bs = Some m" "length m = length mem"
    "\<And>j. j < off \<Longrightarrow> m ! j = mem ! j"
    "\<And>i. p \<le> i \<Longrightarrow> i < p + n \<Longrightarrow>
      rbyte off n m i = (if i < p + length bs then bs ! (i - p) else rbyte off n mem i)"
proof -
  define s where "s = p mod n"
  have s: "s < n" using assms by (simp add: s_def)
  have pos: "i mod n = (if s + (i - p) < n then s + (i - p) else s + (i - p) - n)"
    if "p \<le> i" "i < p + n" for i
    using mod_shift [of "i - p" n p] that by (simp add: s_def)
  show thesis
  proof (cases "s + length bs \<le> n")
    case True
    have "off + s + length bs \<le> length mem" using True assms by simp
    from blit_Some [OF this] obtain m where m: "blit mem (off + s) bs = Some m" "length m = length mem"
      "\<And>j. j < length mem \<Longrightarrow> m ! j = (if off + s \<le> j \<and> j < off + s + length bs then bs ! (j - (off + s)) else mem ! j)"
      by blast
    show thesis
    proof (rule that [of m])
      show "copy_wrapped mem off n (p mod n) bs = Some m"
        using True m(1) by (simp add: copy_wrapped_def s_def)
      show "m ! j = mem ! j" if "j < off" for j using m(3) [of j] that assms by simp
      show "rbyte off n m i = (if i < p + length bs then bs ! (i - p) else rbyte off n mem i)"
        if "p \<le> i" "i < p + n" for i
      proof -
        define d where "d = i - p"
        have d: "i = p + d" "d < n" using that by (simp_all add: d_def)
        show ?thesis
        proof (cases "s + d < n")
          case lo: True
          then have "i mod n = s + d" using pos [OF that] d by simp
          then show ?thesis using m(3) [of "off + (s + d)"] assms(1) lo d by (simp add: rbyte_def)
        next
          case hi: False
          then have "i mod n = s + d - n" "s + d - n < s" "length bs \<le> d" using pos [OF that] d s True by simp_all
          then show ?thesis using m(3) [of "off + (s + d - n)"] assms(1) s d by (simp add: rbyte_def)
        qed
      qed
    qed (rule m(2))
  next
    case False
    let ?f = "n - s"
    have f: "length (take ?f bs) = ?f" using False by simp
    have "off + s + length (take ?f bs) \<le> length mem" using assms s f by simp
    from blit_Some [OF this] obtain m1 where m1: "blit mem (off + s) (take ?f bs) = Some m1"
      "length m1 = length mem"
      "\<And>j. j < length mem \<Longrightarrow> m1 ! j = (if off + s \<le> j \<and> j < off + s + ?f then take ?f bs ! (j - (off + s)) else mem ! j)"
      unfolding f by blast
    have "off + length (drop ?f bs) \<le> length m1" using assms s m1(2) by simp
    from blit_Some [OF this] obtain m where m: "blit m1 off (drop ?f bs) = Some m" "length m = length m1"
      "\<And>j. j < length m1 \<Longrightarrow> m ! j = (if off \<le> j \<and> j < off + length (drop ?f bs) then drop ?f bs ! (j - off) else m1 ! j)"
      by blast
    show thesis
    proof (rule that [of m])
      show "copy_wrapped mem off n (p mod n) bs = Some m"
        using False m1(1) m(1) by (simp add: copy_wrapped_def s_def [symmetric] Let_def)
      show "m ! j = mem ! j" if "j < off" for j
        using m(3) [of j] m1 that assms by simp
      show "rbyte off n m i = (if i < p + length bs then bs ! (i - p) else rbyte off n mem i)"
        if "p \<le> i" "i < p + n" for i
      proof -
        define d where "d = i - p"
        have d: "i = p + d" "d < n" using that by (simp_all add: d_def)
        show ?thesis
        proof (cases "s + d < n")
          case lo: True
          then have e: "i mod n = s + d" "d < ?f" "d < length bs" using pos [OF that] d False by simp_all
          moreover have "length bs - ?f \<le> s" using assms(2) s by simp
          ultimately show ?thesis
            using m(3) [of "off + (s + d)"] m1(2) m1(3) [of "off + (s + d)"] assms(1) lo d
            by (simp add: rbyte_def)
        next
          case hi: False
          define t where "t = s + d - n"
          have e: "i mod n = t" "t < s" "d = ?f + t" using pos [OF that] d s hi by (simp_all add: t_def)
          have ft: "t < length bs - ?f \<longleftrightarrow> d < length bs" using e(3) False by linarith
          have "m ! (off + t) = (if t < length bs - ?f then bs ! (?f + t) else mem ! (off + t))"
            using m(3) [of "off + t"] m1(2) m1(3) [of "off + t"] assms(1) e(2) s f by auto
          then show ?thesis using d(1) e ft by (simp add: rbyte_def)
        qed
      qed
    qed (use m m1 in simp)
  qed
qed

section \<open>The state of a ring\<close>

text \<open>Writer, reader and pages agree: the data area is a power of two, its place and size are in
  the metadata, the head is the writer's, and at most one area lies between tail and head.
  Positions are multiples of the record alignment.\<close>

definition ring_inv :: "ring_writer \<Rightarrow> ring_reader \<Rightarrow> byte list \<Rightarrow> bool" where
  "ring_inv w rd mem \<longleftrightarrow>
     (\<exists>k. 3 \<le> k \<and> k < 63 \<and> w_data_size w = 2 ^ k) \<and> w_data_mask w = w_data_size w - 1 \<and>
     1056 \<le> w_data_offset w \<and> w_data_offset w < 2 ^ 63 \<and>
     length mem = w_data_offset w + w_data_size w \<and>
     unat (rd_data_offset rd) = w_data_offset w \<and> unat (rd_data_size rd) = w_data_size w \<and>
     unat (rd_data_mask rd) = w_data_mask w \<and>
     unat (meta mem 1024) = w_head w \<and> unat (meta mem 1032) \<le> w_head w \<and>
     w_head w - unat (meta mem 1032) \<le> w_data_size w \<and>
     8 dvd w_head w \<and> 8 dvd unat (meta mem 1032)"

lemma ring_inv_lost: "ring_inv (w\<lparr>w_lost_count := n\<rparr>) rd mem = ring_inv w rd mem"
  by (simp add: ring_inv_def)

abbreviation ring_tail :: "byte list \<Rightarrow> nat" where
  "ring_tail mem \<equiv> unat (meta mem 1032)"

abbreviation ring_bytes :: "ring_writer \<Rightarrow> byte list \<Rightarrow> nat \<Rightarrow> nat \<Rightarrow> byte list" where
  "ring_bytes w mem a b \<equiv> segment (w_data_offset w) (w_data_size w) mem a b"

text \<open>A record as readers expect it: aligned, and as long as its header states.\<close>

definition rec_ok :: "byte list \<Rightarrow> bool" where
  "rec_ok rec \<longleftrightarrow> 8 \<le> length rec \<and> 8 dvd length rec \<and> length rec < 65536 \<and>
     u16_of (take 2 (drop 6 rec)) = of_nat (length rec)"

definition padded :: "byte list \<Rightarrow> byte list" where
  "padded rec = rec @ replicate (align_to_perf_record (length rec) - length rec) 0"

lemma rec_ok_align: "rec_ok rec \<Longrightarrow> align_to_perf_record (length rec) = length rec"
  by (rule align_props(4)) (simp_all add: rec_ok_def)

lemma rec_ok_padded [simp]: "rec_ok rec \<Longrightarrow> padded rec = rec"
  by (simp add: padded_def rec_ok_align)

lemma rec_ok_perf_record:
  assumes "length data \<le> 65520"
  shows "rec_ok (perf_record et mi data)"
proof -
  let ?n = "align_to_perf_record (length data + 8)"
  note p = align_props [of "length data + 8"]
  have len: "length (perf_record et mi data) = ?n" using assms by (simp add: length_perf_record)
  have "take 2 (drop 6 (perf_record et mi data)) = u16_bytes (of_nat ?n)"
    by (simp add: perf_record_def Let_def)
  then show ?thesis
    using p assms align_max [OF assms] by (simp add: rec_ok_def len)
qed

section \<open>Single steps of the two sides\<close>

lemma subslice_take: "k + m \<le> length mem \<Longrightarrow> b = k + m \<Longrightarrow> subslice mem k b = Some (take m (drop k mem))"
  by (simp add: subslice_def)

lemma meta_cong:
  assumes "length m = length mem" "\<And>j. k \<le> j \<Longrightarrow> j < k + 8 \<Longrightarrow> m ! j = mem ! j" "k + 8 \<le> length mem"
  shows "meta m k = meta mem k"
proof -
  have "take 8 (drop k m) = take 8 (drop k mem)"
    using assms by (intro nth_equalityI) auto
  then show ?thesis by (simp add: meta_def)
qed

lemma blit_meta:
  assumes "k + 8 \<le> length mem"
  obtains m where "blit mem k (u64_bytes v) = Some m" "length m = length mem" "meta m k = v"
    "\<And>k'. k' + 8 \<le> k \<or> k + 8 \<le> k' \<Longrightarrow> k' + 8 \<le> length mem \<Longrightarrow> meta m k' = meta mem k'"
    "\<And>j. j < length mem \<Longrightarrow> k + 8 \<le> j \<Longrightarrow> m ! j = mem ! j"
proof -
  have "k + length (u64_bytes v) \<le> length mem" using assms by simp
  from blit_Some [OF this] obtain m where m: "blit mem k (u64_bytes v) = Some m" "length m = length mem"
    "\<And>j. j < length mem \<Longrightarrow> m ! j = (if k \<le> j \<and> j < k + 8 then u64_bytes v ! (j - k) else mem ! j)"
    by (metis length_word_bytes(3))
  have "take 8 (drop k m) = u64_bytes v"
    using m assms by (intro nth_equalityI) auto
  then have "meta m k = v" by (simp add: meta_def)
  moreover have "meta m k' = meta mem k'" if "k' + 8 \<le> k \<or> k + 8 \<le> k'" "k' + 8 \<le> length mem" for k'
    using that m by (intro meta_cong) auto
  moreover have "m ! j = mem ! j" if "j < length mem" "k + 8 \<le> j" for j using m(3) that by simp
  ultimately show thesis by (rule that [OF m(1,2)])
qed

lemma ring_inv_meta_fits: "ring_inv w rd mem \<Longrightarrow> 1056 \<le> length mem"
  by (auto simp: ring_inv_def)

lemma available_eq:
  assumes "ring_inv w rd mem"
  shows "available w mem = Some (w_data_size w - (w_head w - ring_tail mem))"
  using assms ring_inv_meta_fits [OF assms]
  by (auto simp: available_def writer_tail_def subslice_def sub_usize_def ring_inv_def meta_def)

lemma and_mask_size:
  assumes "ring_inv w rd mem"
  shows "x AND w_data_mask w = x mod w_data_size w" "0 < w_data_size w" "8 dvd w_data_size w"
    "8 \<le> w_data_size w"
proof -
  from assms obtain k where k: "3 \<le> k" "w_data_size w = 2 ^ k" "w_data_mask w = w_data_size w - 1"
    by (auto simp: ring_inv_def)
  then show "x AND w_data_mask w = x mod w_data_size w" by (simp only: nat_and_mask)
  show "0 < w_data_size w" using k by simp
  have "(2 :: nat) ^ 3 dvd 2 ^ k" using k(1) by (rule le_imp_power_dvd)
  then show "8 dvd w_data_size w" using k by simp
  then show "8 \<le> w_data_size w" using \<open>0 < w_data_size w\<close> by (rule dvd_imp_le)
qed

text \<open>The two copies of \<open>write_raw\<close> together.\<close>

lemma copies_Some:
  assumes mem: "length mem = off + n" "0 < n" and len: "length rec + pad \<le> n"
  obtains m1 m2 where "copy_wrapped mem off n (h mod n) rec = Some m1"
    "(if 0 < pad then copy_wrapped m1 off n ((h mod n + length rec) mod n) (replicate pad 0) else Some m1) = Some m2"
    "length m2 = length mem" "\<And>j. j < off \<Longrightarrow> m2 ! j = mem ! j"
    "\<And>i. h \<le> i \<Longrightarrow> i < h + n \<Longrightarrow> rbyte off n m2 i =
      (if i < h + (length rec + pad) then (rec @ replicate pad 0) ! (i - h) else rbyte off n mem i)"
proof -
  have "length rec \<le> n" using len by linarith
  from copy_wrapped_Some [OF mem(1) this mem(2), of h] obtain m1 where m1:
    "copy_wrapped mem off n (h mod n) rec = Some m1" "length m1 = length mem"
    "\<And>j. j < off \<Longrightarrow> m1 ! j = mem ! j"
    "\<And>i. h \<le> i \<Longrightarrow> i < h + n \<Longrightarrow>
      rbyte off n m1 i = (if i < h + length rec then rec ! (i - h) else rbyte off n mem i)"
    by blast
  show thesis
  proof (cases "0 < pad")
    case False
    show thesis
      by (rule that [of m1 m1]) (use False m1 in auto)
  next
    case True
    let ?p = "h + length rec"
    have "length (replicate pad (0 :: byte)) \<le> n" "length m1 = off + n" using len m1(2) mem by simp_all
    from copy_wrapped_Some [OF this(2,1) mem(2), of ?p] obtain m2 where m2:
      "copy_wrapped m1 off n (?p mod n) (replicate pad 0) = Some m2" "length m2 = length m1"
      "\<And>j. j < off \<Longrightarrow> m2 ! j = m1 ! j"
      "\<And>i. ?p \<le> i \<Longrightarrow> i < ?p + n \<Longrightarrow>
        rbyte off n m2 i = (if i < ?p + length (replicate pad (0 :: byte)) then replicate pad 0 ! (i - ?p) else rbyte off n m1 i)"
      by blast
    show thesis
    proof (rule that [OF m1(1), of m2])
      show "rbyte off n m2 i =
          (if i < h + (length rec + pad) then (rec @ replicate pad 0) ! (i - h) else rbyte off n mem i)"
        if i: "h \<le> i" "i < h + n" for i
      proof (cases "i < ?p")
        case True
        have "rbyte off n m2 i = rbyte off n m1 (i + n)"
          using m2(4) [of "i + n"] True i len by simp
        moreover have "i - h < length rec" using True i by linarith
        ultimately show ?thesis using m1(4) [of i] i True by (simp add: nth_append)
      next
        case False
        have nth: "(rec @ replicate pad 0) ! (i - h) = replicate pad 0 ! (i - ?p)"
        proof -
          have "\<not> i - h < length rec" using False by linarith
          then show ?thesis by (simp add: nth_append)
        qed
        have "rbyte off n m2 i = (if i < ?p + pad then replicate pad 0 ! (i - ?p) else rbyte off n m1 i)"
          using m2(4) [of i] False i by simp
        then show ?thesis using m1(4) [of i] i False nth by (simp add: add.assoc)
      qed
    qed (use True m1 m2 in \<open>auto simp: mod_add_left_eq\<close>)
  qed
qed

lemma write_raw_Some:
  assumes inv: "ring_inv w rd mem" and len: "length rec \<le> aligned" "8 dvd aligned"
    and fits: "w_head w - ring_tail mem + aligned \<le> w_data_size w"
    and small: "w_head w + aligned < 2 ^ 64"
  obtains m where "write_raw w rec aligned mem = Some (w\<lparr>w_head := w_head w + aligned\<rparr>, m)"
    "ring_inv (w\<lparr>w_head := w_head w + aligned\<rparr>) rd m" "meta m 1032 = meta mem 1032"
    "ring_bytes w m (ring_tail mem) (w_head w + aligned) =
      ring_bytes w mem (ring_tail mem) (w_head w) @ rec @ replicate (aligned - length rec) 0"
proof -
  let ?off = "w_data_offset w" and ?n = "w_data_size w" and ?h = "w_head w"
  let ?pad = "aligned - length rec"
  note mask = and_mask_size [OF inv]
  have mem: "length mem = ?off + ?n" "1056 \<le> ?off" using inv by (simp_all add: ring_inv_def)
  have tl: "ring_tail mem \<le> ?h" using inv by (simp add: ring_inv_def)
  have "length rec + ?pad \<le> ?n" using len fits by linarith
  from copies_Some [OF mem(1) mask(2) this, of ?h] obtain m1 m2 where m:
    "copy_wrapped mem ?off ?n (?h mod ?n) rec = Some m1"
    "(if 0 < ?pad then copy_wrapped m1 ?off ?n ((?h mod ?n + length rec) mod ?n) (replicate ?pad 0) else Some m1) = Some m2"
    "length m2 = length mem" "\<And>j. j < ?off \<Longrightarrow> m2 ! j = mem ! j"
    "\<And>i. ?h \<le> i \<Longrightarrow> i < ?h + ?n \<Longrightarrow> rbyte ?off ?n m2 i =
      (if i < ?h + (length rec + ?pad) then (rec @ replicate ?pad 0) ! (i - ?h) else rbyte ?off ?n mem i)"
    by blast
  have "1024 + 8 \<le> length m2" using m(3) mem by simp
  from blit_meta [OF this, of "of_nat (?h + aligned)"] obtain m3 where m3:
    "blit m2 1024 (u64_bytes (of_nat (?h + aligned))) = Some m3" "length m3 = length m2"
    "meta m3 1024 = of_nat (?h + aligned)"
    "\<And>k'. k' + 8 \<le> 1024 \<or> 1024 + 8 \<le> k' \<Longrightarrow> k' + 8 \<le> length m2 \<Longrightarrow> meta m3 k' = meta m2 k'"
    "\<And>j. j < length m2 \<Longrightarrow> 1024 + 8 \<le> j \<Longrightarrow> m3 ! j = m2 ! j"
    by blast
  have run: "write_raw w rec aligned mem = Some (w\<lparr>w_head := ?h + aligned\<rparr>, m3)"
    using m(1,2) m3(1) len
    by (simp add: write_raw_def mask(1) sub_usize_def Let_def del: of_nat_add split: if_splits)
  have "meta m2 1032 = meta mem 1032"
    using m(3,4) mem by (intro meta_cong) auto
  then have tl3: "meta m3 1032 = meta mem 1032" using m3(4) [of 1032] m(3) mem by simp
  have head3: "unat (meta m3 1024) = ?h + aligned"
    unfolding m3(3) using small by (rule unat_of_nat_word(3))
  have inv3: "ring_inv (w\<lparr>w_head := ?h + aligned\<rparr>) rd m3"
    using inv head3 tl3 m3(2) m(3) fits tl len by (auto simp: ring_inv_def)
  have rb: "rbyte ?off ?n m3 i = rbyte ?off ?n m2 i" for i
    using m3(5) [of "?off + i mod ?n"] m(3) mem mask(2) by (simp add: rbyte_def)
  have old: "rbyte ?off ?n m3 i = rbyte ?off ?n mem i" if "ring_tail mem \<le> i" "i < ?h" for i
  proof -
    have "?h \<le> i + ?n" "i + ?n < ?h + ?n" "\<not> i + ?n < ?h + (length rec + ?pad)"
      using that fits len tl by linarith+
    then show ?thesis using m(5) [of "i + ?n"] unfolding rb by simp
  qed
  have new: "ring_bytes w m3 ?h (?h + aligned) = rec @ replicate ?pad 0"
    using m(5) len fits by (intro nth_equalityI) (auto simp: segment_def rb)
  have "ring_bytes w m3 (ring_tail mem) (?h + aligned) =
      ring_bytes w m3 (ring_tail mem) ?h @ ring_bytes w m3 ?h (?h + aligned)"
    using tl by (intro segment_append) simp_all
  also have "ring_bytes w m3 (ring_tail mem) ?h = ring_bytes w mem (ring_tail mem) ?h"
    using old by (rule segment_cong)
  finally have seg: "ring_bytes w m3 (ring_tail mem) (?h + aligned) =
      ring_bytes w mem (ring_tail mem) ?h @ rec @ replicate ?pad 0"
    by (simp only: new)
  show thesis by (rule that [OF run inv3 tl3 seg])
qed

lemma wrapped_slice:
  assumes "length mem = off + n" "len \<le> n" "0 < n"
  shows "segment off n mem p (p + len) =
    (if p mod n + len \<le> n then take len (drop (p mod n) (take n (drop off mem)))
     else drop (p mod n) (take n (drop off mem)) @ take (p mod n + len - n) (take n (drop off mem)))"
    (is "_ = ?r")
proof (rule nth_equalityI)
  have s: "p mod n < n" using assms by simp
  show "length (segment off n mem p (p + len)) = length ?r"
    using assms s by simp
  show "segment off n mem p (p + len) ! i = ?r ! i" if "i < length (segment off n mem p (p + len))" for i
  proof -
    have i: "i < len" "i < n" using that assms by simp_all
    have m: "(p + i) mod n = (if p mod n + i < n then p mod n + i else p mod n + i - n)"
      using i(2) by (rule mod_shift)
    have l: "segment off n mem p (p + len) ! i = mem ! (off + (p + i) mod n)"
      using i by (simp add: segment_def rbyte_def)
    have len_ds: "length (drop (p mod n) (take n (drop off mem))) = n - p mod n"
      using assms by simp
    show ?thesis
    proof (cases "p mod n + i < n")
      case True
      then have "i < n - p mod n" using s by linarith
      then show ?thesis using l m True i assms s len_ds by (auto simp: nth_append ac_simps)
    next
      case False
      then have "\<not> i < n - p mod n" "i - (n - p mod n) = p mod n + i - n"
        "p mod n + i - n < p mod n + len - n" using s i by linarith+
      then show ?thesis using l m False i assms s len_ds by (auto simp: nth_append ac_simps)
    qed
  qed
qed

lemma data_slice_eq:
  assumes "ring_inv w rd mem"
  shows "data_slice rd mem = Some (take (w_data_size w) (drop (w_data_offset w) mem))"
  using assms by (simp add: data_slice_def ring_inv_def subslice_ok)

lemma header_of_rec:
  assumes "rec_ok rec"
  shows "\<exists>h. header_from_slice (take 8 rec) = Some h \<and> unat (hdr_size h) = length rec"
proof -
  have eight: "length (take 8 rec) = 8" using assms by (simp add: rec_ok_def)
  have "take 2 (drop 6 (take 8 rec)) = take 2 (drop 6 rec)"
    by (simp add: drop_take)
  then have "header_from_slice (take 8 rec) = Some \<lparr>entry_type = u32_of (take 4 (take 8 rec)),
      misc = u16_of (take 2 (drop 4 (take 8 rec))), hdr_size = of_nat (length rec),
      hdr_data = drop 8 (take 8 rec)\<rparr>"
    using assms eight by (simp add: header_from_slice_def subslice_def slice_from_def data_offset_def rec_ok_def)
  moreover have "unat (of_nat (length rec) :: u16) = length rec"
    using assms by (intro unat_of_nat_word) (simp add: rec_ok_def)
  ultimately show ?thesis by simp
qed

lemma cursor_advance_Some:
  assumes "unat (cur_start cur) + unat len < 2 ^ 64"
  shows "\<exists>c. cursor_advance cur len = Some (cur\<lparr>cur_start := c\<rparr>) \<and> unat c = unat (cur_start cur) + unat len"
proof -
  have u: "unat (ucast len :: u64) = unat len" 
  proof -
    have "unat len < 2 ^ 16" using unsigned_less [of len] by simp
    then show ?thesis by (simp add: unsigned_ucast_eq take_bit_nat_eq_self)
  qed
  then show ?thesis using assms
    by (intro exI [of _ "cur_start cur + ucast len"]) (simp add: cursor_advance_def add64_ok unat_add64)
qed

lemma reader_read_Some:
  assumes inv: "ring_inv w rd mem" and rec: "rec_ok rec" "length rec \<le> w_data_size w"
    and p: "unat (cur_start cur) = p" "8 dvd p" "p + length rec < 2 ^ 64"
    and seg: "ring_bytes w mem p (p + length rec) = rec"
  shows "\<exists>c. reader_read rd mem cur = Some (rec, cur\<lparr>cur_start := c\<rparr>) \<and> unat c = p + length rec"
proof -
  let ?n = "w_data_size w" and ?ds = "take (w_data_size w) (drop (w_data_offset w) mem)"
  note mask = and_mask_size [OF inv]
  have mem: "length mem = w_data_offset w + ?n" using inv by (simp add: ring_inv_def)
  have start: "unat (cur_start cur AND rd_data_mask rd) = p mod ?n"
    using inv mask(1) [of p] by (simp add: unsigned_and_eq p(1) ring_inv_def)
  have s8: "p mod ?n + 8 \<le> ?n"
  proof -
    have "8 dvd p mod ?n" using p(2) mask(3) by (simp add: dvd_mod)
    moreover have "p mod ?n < ?n" using mask(2) by simp
    ultimately show ?thesis using mask(3) by (auto elim!: dvdE)
  qed
  have "8 \<le> length rec" using rec(1) by (simp add: rec_ok_def)
  then have "ring_bytes w mem p (p + length rec) =
      ring_bytes w mem p (p + 8) @ ring_bytes w mem (p + 8) (p + length rec)"
    by (intro segment_append) simp_all
  with seg have "ring_bytes w mem p (p + 8) = take 8 rec"
    by (metis append_eq_conv_conj length_segment add_diff_cancel_left')
  with wrapped_slice [OF mem mask(4) mask(2), of p] s8
  have h8: "take 8 (drop (p mod ?n) ?ds) = take 8 rec" by simp
  obtain h where h: "header_from_slice (take 8 rec) = Some h" "unat (hdr_size h) = length rec"
    using header_of_rec [OF rec(1)] by blast
  have ds: "length ?ds = ?n" using mem by simp
  have peek: "peek_header rd cur ?ds = Some (p mod ?n, h)"
    using s8 h h8 ds by (simp add: peek_header_def start subslice_def data_offset_def Let_def)
  obtain c where c: "cursor_advance cur (hdr_size h) = Some (cur\<lparr>cur_start := c\<rparr>)" "unat c = p + length rec"
    using cursor_advance_Some [of cur "hdr_size h"] p h(2) by auto
  have size: "unat (rd_data_size rd) = ?n" using inv by (simp add: ring_inv_def)
  note w = wrapped_slice [OF mem rec(2) mask(2), of p, unfolded seg]
  show ?thesis
  proof (cases "p mod ?n + length rec \<le> ?n")
    case True
    then have "subslice ?ds (p mod ?n) (p mod ?n + length rec) = Some rec"
      using w ds by (simp add: subslice_def)
    then show ?thesis using True c h(2) peek
      by (intro exI [of _ c]) (simp add: reader_read_def data_slice_eq [OF inv] size Let_def)
  next
    case False
    have len: "length (drop (p mod ?n) ?ds) = ?n - p mod ?n" using ds by simp
    have "length rec - (?n - p mod ?n) = p mod ?n + length rec - ?n" "?n - p mod ?n \<le> length rec"
      using False s8 by linarith+
    moreover have "subslice ?ds 0 (p mod ?n + length rec - ?n) = Some (take (p mod ?n + length rec - ?n) ?ds)"
      using rec(2) ds s8 by (simp add: subslice_def)
    moreover have "slice_from ?ds (p mod ?n) = Some (drop (p mod ?n) ?ds)"
      using ds s8 by (intro slice_from_ok) linarith
    ultimately show ?thesis using False c h(2) peek w len
      by (intro exI [of _ c])
        (simp add: reader_read_def data_slice_eq [OF inv] size Let_def sub_usize_def del: drop_take length_drop)
  qed
qed

section \<open>The queue the ring implements\<close>

text \<open>The two sides as operations on the whole state. A write carries the clock and what the
  reader does during the writer's sleeps: before each poll it either publishes its cursor
  (\<open>end_reading\<close>) or does nothing. \<open>Read\<close> is guarded by \<open>more\<close>, as its callers do.\<close>

datatype ring_op = Write "byte list" u64 "bool list" | Flush u64 | Begin | Read | End

record ring_state =
  rs_writer :: ring_writer
  rs_reader :: ring_reader
  rs_mem :: "byte list"
  rs_cursor :: ring_cursor

fun poll_tails :: "u64 \<Rightarrow> u64 \<Rightarrow> bool list \<Rightarrow> u64 list" where
  "poll_tails tl_pos start [] = []"
| "poll_tails tl_pos start (released # rs) =
     (let t = (if released then start else tl_pos) in t # poll_tails t start rs)"

fun ring_step :: "ring_op \<Rightarrow> ring_state \<Rightarrow> (byte list option \<times> ring_state) option" where
  "ring_step (Write rec now released) s = do {
     (w, mem) \<leftarrow> writer_write (rs_writer s) now
       (poll_tails (meta (rs_mem s) 1032) (cur_start (rs_cursor s)) released) rec (rs_mem s);
     Ret (None, s\<lparr>rs_writer := w, rs_mem := mem\<rparr>)
   }"
| "ring_step (Flush now) s = do {
     (w, mem) \<leftarrow> writer_flush (rs_writer s) now (rs_mem s);
     Ret (None, s\<lparr>rs_writer := w, rs_mem := mem\<rparr>)
   }"
| "ring_step Begin s = do {
     cur \<leftarrow> begin_reading (rs_mem s) (rs_cursor s);
     Ret (None, s\<lparr>rs_cursor := cur\<rparr>)
   }"
| "ring_step Read s =
     (if cursor_more (rs_cursor s) then do {
        (bs, cur) \<leftarrow> reader_read (rs_reader s) (rs_mem s) (rs_cursor s);
        Ret (Some bs, s\<lparr>rs_cursor := cur\<rparr>)
      } else Ret (None, s))"
| "ring_step End s = do {
     mem \<leftarrow> end_reading (rs_mem s) (rs_cursor s);
     Ret (None, s\<lparr>rs_mem := mem\<rparr>)
   }"

text \<open>The specification: a bounded queue of entries, of which the first have been read but not
  released, the next are visible to the reader's cursor and the rest are not yet. An entry is an
  accepted record or the notice of a number of lost ones.\<close>

datatype entry = Accepted "byte list" | Lost nat u64

fun entry_bytes :: "entry \<Rightarrow> byte list" where
  "entry_bytes (Accepted rec) = padded rec"
| "entry_bytes (Lost n now) = perf_record PERF_RECORD_LOST 0 (lost_payload (of_nat n) now)"

record ring_queue =
  q_done :: "entry list"
  q_avail :: "entry list"
  q_rest :: "entry list"
  q_lost :: nat

definition entries_len :: "entry list \<Rightarrow> nat" where
  "entries_len es = length (concat (map entry_bytes es))"

definition q_all :: "ring_queue \<Rightarrow> entry list" where
  "q_all q = q_done q @ q_avail q @ q_rest q"

definition q_free :: "nat \<Rightarrow> ring_queue \<Rightarrow> nat" where
  "q_free n q = n - entries_len (q_all q)"

definition q_flush :: "nat \<Rightarrow> u64 \<Rightarrow> ring_queue \<Rightarrow> ring_queue" where
  "q_flush n now q =
     (if q_lost q = 0 \<or> q_free n q < LOST_RECORD_SIZE then q
      else q\<lparr>q_rest := q_rest q @ [Lost (q_lost q) now], q_lost := 0\<rparr>)"

definition q_write :: "nat \<Rightarrow> byte list \<Rightarrow> u64 \<Rightarrow> bool list \<Rightarrow> ring_queue \<Rightarrow> ring_queue" where
  "q_write n rec now released q =
     (let needed = length (padded rec) + (if 0 < q_lost q then LOST_RECORD_SIZE else 0);
          q1 = (if n < length (padded rec) \<or> needed \<le> q_free n q \<or> True \<notin> set released then q
                else q\<lparr>q_done := []\<rparr>)
      in if n < length (padded rec) \<or> q_free n q1 < needed then q1\<lparr>q_lost := q_lost q + 1\<rparr>
         else let q2 = q_flush n now q1 in q2\<lparr>q_rest := q_rest q2 @ [Accepted rec]\<rparr>)"

fun queue_step :: "nat \<Rightarrow> ring_op \<Rightarrow> ring_queue \<Rightarrow> byte list option \<times> ring_queue" where
  "queue_step n (Write rec now released) q = (None, q_write n rec now released q)"
| "queue_step n (Flush now) q = (None, q_flush n now q)"
| "queue_step n Begin q = (None, q\<lparr>q_done := [], q_avail := q_all q, q_rest := []\<rparr>)"
| "queue_step n Read q =
     (case q_avail q of
        [] \<Rightarrow> (None, q)
      | e # es \<Rightarrow> (Some (entry_bytes e), q\<lparr>q_done := q_done q @ [e], q_avail := es\<rparr>))"
| "queue_step n End q = (None, q\<lparr>q_done := []\<rparr>)"

text \<open>The abstraction: the bytes from the tail to the head are the entries, and the cursor is
  where the queue says.\<close>

definition ring_rel :: "nat \<Rightarrow> ring_state \<Rightarrow> ring_queue \<Rightarrow> bool" where
  "ring_rel n s q \<longleftrightarrow>
     ring_inv (rs_writer s) (rs_reader s) (rs_mem s) \<and> w_data_size (rs_writer s) = n \<and>
     unat (w_lost_count (rs_writer s)) = q_lost q \<and>
     (\<forall>e \<in> set (q_all q). rec_ok (entry_bytes e)) \<and>
     concat (map entry_bytes (q_all q)) =
       ring_bytes (rs_writer s) (rs_mem s) (ring_tail (rs_mem s)) (w_head (rs_writer s)) \<and>
     unat (cur_start (rs_cursor s)) = ring_tail (rs_mem s) + entries_len (q_done q) \<and>
     unat (cur_end (rs_cursor s)) = unat (cur_start (rs_cursor s)) + entries_len (q_avail q)"

definition write_ok :: "ring_op \<Rightarrow> bool" where
  "write_ok op = (case op of Write rec now released \<Rightarrow> rec_ok (padded rec) | _ \<Rightarrow> True)"

definition op_cost :: "ring_op \<Rightarrow> nat" where
  "op_cost op = (case op of Write rec now released \<Rightarrow> length (padded rec) + LOST_RECORD_SIZE
     | Flush now \<Rightarrow> LOST_RECORD_SIZE | _ \<Rightarrow> 0)"

definition ring_spent :: "ring_state \<Rightarrow> nat" where
  "ring_spent s = w_head (rs_writer s) + unat (w_lost_count (rs_writer s))"

section \<open>The ring refines the queue\<close>

lemma set_tail_Some:
  assumes inv: "ring_inv w rd mem" and t: "ring_tail mem \<le> unat t" "unat t \<le> w_head w" "8 dvd unat t"
  obtains m where "blit mem 1032 (u64_bytes t) = Some m" "ring_inv w rd m" "meta m 1032 = t"
    "\<And>a b. ring_bytes w m a b = ring_bytes w mem a b"
proof -
  note mask = and_mask_size [OF inv]
  have mem: "length mem = w_data_offset w + w_data_size w" "1056 \<le> w_data_offset w"
    using inv by (simp_all add: ring_inv_def)
  have "1032 + 8 \<le> length mem" using mem by simp
  from blit_meta [OF this, of t] obtain m where m: "blit mem 1032 (u64_bytes t) = Some m"
    "length m = length mem" "meta m 1032 = t"
    "\<And>k'. k' + 8 \<le> 1032 \<or> 1032 + 8 \<le> k' \<Longrightarrow> k' + 8 \<le> length mem \<Longrightarrow> meta m k' = meta mem k'"
    "\<And>j. j < length mem \<Longrightarrow> 1032 + 8 \<le> j \<Longrightarrow> m ! j = mem ! j"
    by blast
  have "meta m 1024 = meta mem 1024" using m(4) [of 1024] mem by simp
  then have inv': "ring_inv w rd m" using inv t m(2,3) by (auto simp: ring_inv_def)
  have "rbyte (w_data_offset w) (w_data_size w) m i = rbyte (w_data_offset w) (w_data_size w) mem i" for i
    using m(5) [of "w_data_offset w + i mod w_data_size w"] mem mask(2) by (simp add: rbyte_def)
  then have seg: "ring_bytes w m a b = ring_bytes w mem a b" for a b by (simp add: segment_def)
  show thesis by (rule that [OF m(1) inv' m(3) seg])
qed

text \<open>The free space when the tail is at a position.\<close>

definition free_at :: "ring_writer \<Rightarrow> nat \<Rightarrow> nat" where
  "free_at w t = w_data_size w - (w_head w - t)"

lemma wait_for_space_Some:
  assumes "ring_inv w rd mem" "ring_tail mem \<le> unat start" "unat start \<le> w_head w" "8 dvd unat start"
  shows "\<exists>m. wait_for_space w needed (poll_tails (meta mem 1032) start released) mem =
      Some (needed \<le> free_at w (ring_tail mem) \<or> (True \<in> set released \<and> needed \<le> free_at w (unat start)), m) \<and>
    ring_inv w rd m \<and> (\<forall>a b. ring_bytes w m a b = ring_bytes w mem a b) \<and>
    meta m 1032 = (if needed \<le> free_at w (ring_tail mem) \<or> True \<notin> set released then meta mem 1032 else start)"
  using assms
proof (induction released arbitrary: mem)
  case Nil
  then show ?case by (simp add: wait_for_space.simps available_eq free_at_def)
next
  case (Cons r rs)
  let ?t = "if r then start else meta mem 1032"
  have unfold: "wait_for_space w needed (poll_tails (meta mem 1032) start (r # rs)) mem =
    (if needed \<le> free_at w (ring_tail mem) then Some (True, mem)
     else blit mem 1032 (u64_bytes ?t) \<bind> wait_for_space w needed (poll_tails ?t start rs))"
    by (subst wait_for_space.simps) (simp add: available_eq [OF Cons.prems(1)] free_at_def Let_def)
  show ?case
  proof (cases "needed \<le> free_at w (ring_tail mem)")
    case True
    then show ?thesis using Cons.prems(1) unfolding unfold by simp
  next
    case False
    have t: "ring_tail mem \<le> unat ?t" "unat ?t \<le> w_head w" "8 dvd unat ?t"
      using Cons.prems by (auto simp: ring_inv_def)
    from set_tail_Some [OF Cons.prems(1) t] obtain m where m:
      "blit mem 1032 (u64_bytes ?t) = Some m" "ring_inv w rd m" "meta m 1032 = ?t"
      "\<And>a b. ring_bytes w m a b = ring_bytes w mem a b" by blast
    have "ring_tail m \<le> unat start" using m(3) Cons.prems(2) by simp
    note IH = Cons.IH [OF m(2) this Cons.prems(3,4)]
    have eq: "wait_for_space w needed (poll_tails (meta mem 1032) start (r # rs)) mem =
        wait_for_space w needed (poll_tails (meta m 1032) start rs) m"
      unfolding unfold m(1) using False by (simp add: m(3))
    show ?thesis
      unfolding eq using IH False m(3,4) by (cases r) auto
  qed
qed

lemma wait_poll:
  assumes "ring_inv w rd mem" "ring_tail mem \<le> unat start" "unat start \<le> w_head w" "8 dvd unat start"
  shows "\<exists>m. (if free_at w (ring_tail mem) < needed
        then wait_for_space w needed (poll_tails (meta mem 1032) start released) mem else Some (True, mem)) =
      Some (needed \<le> free_at w (ring_tail mem) \<or> (True \<in> set released \<and> needed \<le> free_at w (unat start)), m) \<and>
    ring_inv w rd m \<and> (\<forall>a b. ring_bytes w m a b = ring_bytes w mem a b) \<and>
    meta m 1032 = (if needed \<le> free_at w (ring_tail mem) \<or> True \<notin> set released then meta mem 1032 else start)"
  using wait_for_space_Some [OF assms, of needed released] assms(1) by (auto simp: not_le)

lemma lost_payload_length [simp]: "length (lost_payload n now) = 40"
  by (simp add: lost_payload_def)

lemma lost_record_length [simp]: "length (perf_record PERF_RECORD_LOST 0 (lost_payload n now)) = LOST_RECORD_SIZE"
  by (simp add: length_perf_record align_eq LOST_RECORD_SIZE_def)

lemma flush_Some:
  assumes inv: "ring_inv w rd mem" and small: "w_head w + LOST_RECORD_SIZE < 2 ^ 64"
  shows "\<exists>w' m. flush_pending_lost w now mem = Some (w', m) \<and> ring_inv w' rd m \<and>
    w_data_size w' = w_data_size w \<and> w_data_offset w' = w_data_offset w \<and> meta m 1032 = meta mem 1032 \<and>
    (if w_lost_count w = 0 \<or> free_at w (ring_tail mem) < LOST_RECORD_SIZE then w' = w \<and> m = mem
     else w_lost_count w' = 0 \<and> w_head w' = w_head w + LOST_RECORD_SIZE \<and>
       ring_bytes w m (ring_tail mem) (w_head w') = ring_bytes w mem (ring_tail mem) (w_head w) @
         perf_record PERF_RECORD_LOST 0 (lost_payload (w_lost_count w) now))"
proof (cases "w_lost_count w = 0 \<or> free_at w (ring_tail mem) < LOST_RECORD_SIZE")
  case True
  then show ?thesis using inv by (auto simp: flush_pending_lost_def available_eq free_at_def)
next
  case False
  let ?rec = "perf_record PERF_RECORD_LOST 0 (lost_payload (w_lost_count w) now)"
  let ?w = "w\<lparr>w_lost_count := 0\<rparr>"
  have hw: "header_write PERF_RECORD_LOST 0 (lost_payload (w_lost_count w) now) [] = Some ?rec"
    using header_write_eq [of "lost_payload (w_lost_count w) now"] by simp
  have "rec_ok ?rec" by (intro rec_ok_perf_record) simp
  then have al: "align_to_perf_record LOST_RECORD_SIZE = LOST_RECORD_SIZE"
    using rec_ok_align by fastforce
  have inv': "ring_inv ?w rd mem" using inv by (simp add: ring_inv_def)
  have fits: "w_head ?w - ring_tail mem + LOST_RECORD_SIZE \<le> w_data_size ?w"
    using False and_mask_size(2) [OF inv] inv
    by (auto simp: free_at_def ring_inv_def LOST_RECORD_SIZE_def)
  have len: "length ?rec \<le> LOST_RECORD_SIZE" "8 dvd LOST_RECORD_SIZE" by (simp_all add: LOST_RECORD_SIZE_def)
  have small': "w_head ?w + LOST_RECORD_SIZE < 2 ^ 64" using small by simp
  from write_raw_Some [OF inv' len fits small'] obtain m where
    "write_raw ?w ?rec LOST_RECORD_SIZE mem = Some (?w\<lparr>w_head := w_head ?w + LOST_RECORD_SIZE\<rparr>, m)"
    "ring_inv (?w\<lparr>w_head := w_head ?w + LOST_RECORD_SIZE\<rparr>) rd m" "meta m 1032 = meta mem 1032"
    "ring_bytes ?w m (ring_tail mem) (w_head ?w + LOST_RECORD_SIZE) =
      ring_bytes ?w mem (ring_tail mem) (w_head ?w) @ ?rec @ replicate (LOST_RECORD_SIZE - length ?rec) 0"
    by blast
  then show ?thesis
    using False hw al inv
    by (auto simp: flush_pending_lost_def available_eq free_at_def)
qed

lemma entries_len_simps [simp]:
  "entries_len [] = 0" "entries_len (e # es) = length (entry_bytes e) + entries_len es"
  "entries_len (es @ fs) = entries_len es + entries_len fs"
  by (simp_all add: entries_len_def)

lemma entries_len_dvd: "\<forall>e \<in> set es. rec_ok (entry_bytes e) \<Longrightarrow> 8 dvd entries_len es"
  by (induction es) (auto simp: rec_ok_def)

text \<open>What the abstraction says of the positions.\<close>

lemma ring_rel_positions:
  assumes "ring_rel n s q"
  shows "w_head (rs_writer s) = ring_tail (rs_mem s) + entries_len (q_all q)"
    and "free_at (rs_writer s) (ring_tail (rs_mem s)) = q_free n q"
    and "free_at (rs_writer s) (unat (cur_start (rs_cursor s))) = q_free n (q\<lparr>q_done := []\<rparr>)"
    and "ring_tail (rs_mem s) \<le> unat (cur_start (rs_cursor s))"
    and "unat (cur_start (rs_cursor s)) \<le> w_head (rs_writer s)"
    and "8 dvd unat (cur_start (rs_cursor s))" and "entries_len (q_all q) \<le> n"
proof -
  let ?w = "rs_writer s" and ?t = "ring_tail (rs_mem s)"
  have inv: "ring_inv ?w (rs_reader s) (rs_mem s)" and n: "w_data_size ?w = n"
    and seg: "concat (map entry_bytes (q_all q)) = ring_bytes ?w (rs_mem s) ?t (w_head ?w)"
    and cur: "unat (cur_start (rs_cursor s)) = ?t + entries_len (q_done q)"
    and ok: "\<forall>e \<in> set (q_all q). rec_ok (entry_bytes e)"
    using assms by (simp_all add: ring_rel_def)
  have "entries_len (q_all q) = w_head ?w - ?t" using arg_cong [OF seg, of length] by (simp add: entries_len_def)
  then show h: "w_head ?w = ?t + entries_len (q_all q)" using inv by (simp add: ring_inv_def)
  show "entries_len (q_all q) \<le> n" using inv h n by (simp add: ring_inv_def)
  show "free_at ?w ?t = q_free n q" by (simp add: free_at_def q_free_def h n)
  show "free_at ?w (unat (cur_start (rs_cursor s))) = q_free n (q\<lparr>q_done := []\<rparr>)"
    by (simp add: free_at_def q_free_def h n cur q_all_def)
  show "?t \<le> unat (cur_start (rs_cursor s))" by (simp add: cur)
  show "unat (cur_start (rs_cursor s)) \<le> w_head ?w" by (simp add: cur h q_all_def)
  have "8 dvd ?t" using inv by (simp add: ring_inv_def)
  moreover have "8 dvd entries_len (q_done q)" using ok by (intro entries_len_dvd) (auto simp: q_all_def)
  ultimately show "8 dvd unat (cur_start (rs_cursor s))" by (simp add: cur)
qed

lemma ring_rel_mem:
  assumes "ring_rel n s q" "ring_inv (rs_writer s) (rs_reader s) m" "meta m 1032 = meta (rs_mem s) 1032"
    "\<And>a b. ring_bytes (rs_writer s) m a b = ring_bytes (rs_writer s) (rs_mem s) a b"
  shows "ring_rel n (s\<lparr>rs_mem := m\<rparr>) q"
  using assms by (simp add: ring_rel_def)

lemma ring_rel_release:
  assumes rel: "ring_rel n s q" and inv: "ring_inv (rs_writer s) (rs_reader s) m"
    and tl: "meta m 1032 = cur_start (rs_cursor s)"
    and seg: "\<And>a b. ring_bytes (rs_writer s) m a b = ring_bytes (rs_writer s) (rs_mem s) a b"
  shows "ring_rel n (s\<lparr>rs_mem := m\<rparr>) (q\<lparr>q_done := []\<rparr>)"
proof -
  let ?w = "rs_writer s" and ?t = "ring_tail (rs_mem s)" and ?c = "unat (cur_start (rs_cursor s))"
  note pos = ring_rel_positions [OF rel]
  have "concat (map entry_bytes (q_done q)) @ concat (map entry_bytes (q_avail q @ q_rest q)) =
      ring_bytes ?w (rs_mem s) ?t ?c @ ring_bytes ?w (rs_mem s) ?c (w_head ?w)"
    using rel segment_append [OF pos(4,5)] by (simp add: ring_rel_def q_all_def)
  moreover have "length (concat (map entry_bytes (q_done q))) = length (ring_bytes ?w (rs_mem s) ?t ?c)"
    using rel by (simp add: ring_rel_def entries_len_def)
  ultimately have "concat (map entry_bytes (q_avail q @ q_rest q)) = ring_bytes ?w (rs_mem s) ?c (w_head ?w)"
    using append_eq_append_conv by blast
  then show ?thesis
    using rel inv tl seg by (simp add: ring_rel_def q_all_def)
qed

lemma ring_rel_append:
  assumes rel: "ring_rel n s q" and inv: "ring_inv w (rs_reader s) m"
    and w: "w_data_size w = w_data_size (rs_writer s)" "w_data_offset w = w_data_offset (rs_writer s)"
    "unat (w_lost_count w) = lost"
    and tl: "meta m 1032 = meta (rs_mem s) 1032" and ok: "rec_ok (entry_bytes e)"
    and seg: "ring_bytes w m (ring_tail (rs_mem s)) (w_head w) =
      ring_bytes w (rs_mem s) (ring_tail (rs_mem s)) (w_head (rs_writer s)) @ entry_bytes e"
  shows "ring_rel n (s\<lparr>rs_writer := w, rs_mem := m\<rparr>) (q\<lparr>q_rest := q_rest q @ [e], q_lost := lost\<rparr>)"
  using assms by (simp add: ring_rel_def q_all_def)

lemma ring_rel_flush:
  assumes rel: "ring_rel n s q" and small: "w_head (rs_writer s) + LOST_RECORD_SIZE < 2 ^ 64"
  obtains w m where "flush_pending_lost (rs_writer s) now (rs_mem s) = Some (w, m)"
    "ring_rel n (s\<lparr>rs_writer := w, rs_mem := m\<rparr>) (q_flush n now q)"
    "w_head w = w_head (rs_writer s) +
      (if q_lost q = 0 \<or> q_free n q < LOST_RECORD_SIZE then 0 else LOST_RECORD_SIZE)"
proof -
  have inv: "ring_inv (rs_writer s) (rs_reader s) (rs_mem s)"
    and lost: "unat (w_lost_count (rs_writer s)) = q_lost q"
    using rel by (simp_all add: ring_rel_def)
  have z: "w_lost_count (rs_writer s) = 0 \<longleftrightarrow> q_lost q = 0"
    by (simp add: word_unat_eq_iff flip: lost)
  note pos = ring_rel_positions [OF rel]
  from flush_Some [OF inv small, of now] obtain w m where f:
    "flush_pending_lost (rs_writer s) now (rs_mem s) = Some (w, m)" "ring_inv w (rs_reader s) m"
    "w_data_size w = w_data_size (rs_writer s)" "w_data_offset w = w_data_offset (rs_writer s)"
    "meta m 1032 = meta (rs_mem s) 1032"
    "if q_lost q = 0 \<or> q_free n q < LOST_RECORD_SIZE then w = rs_writer s \<and> m = rs_mem s
     else w_lost_count w = 0 \<and> w_head w = w_head (rs_writer s) + LOST_RECORD_SIZE \<and>
       ring_bytes (rs_writer s) m (ring_tail (rs_mem s)) (w_head w) =
         ring_bytes (rs_writer s) (rs_mem s) (ring_tail (rs_mem s)) (w_head (rs_writer s)) @
         perf_record PERF_RECORD_LOST 0 (lost_payload (w_lost_count (rs_writer s)) now)"
    using pos(2) by (auto simp: z)
  show thesis
  proof (cases "q_lost q = 0 \<or> q_free n q < LOST_RECORD_SIZE")
    case True
    then have "w = rs_writer s" "m = rs_mem s" using f(6) by auto
    with that [OF f(1)] True rel show thesis by (simp add: q_flush_def)
  next
    case False
    have e: "entry_bytes (Lost (q_lost q) now) =
        perf_record PERF_RECORD_LOST 0 (lost_payload (w_lost_count (rs_writer s)) now)"
      by (simp flip: lost)
    have "ring_rel n (s\<lparr>rs_writer := w, rs_mem := m\<rparr>)
        (q\<lparr>q_rest := q_rest q @ [Lost (q_lost q) now], q_lost := 0\<rparr>)"
    proof (rule ring_rel_append [OF rel f(2,3,4) _ f(5)])
      show "unat (w_lost_count w) = 0" using f(6) False by simp
      show "rec_ok (entry_bytes (Lost (q_lost q) now))" unfolding e by (simp add: rec_ok_perf_record)
      show "ring_bytes w m (ring_tail (rs_mem s)) (w_head w) =
          ring_bytes w (rs_mem s) (ring_tail (rs_mem s)) (w_head (rs_writer s)) @ entry_bytes (Lost (q_lost q) now)"
        unfolding e f(3,4) using f(6) False by auto
    qed
    then show thesis using that [OF f(1)] False f(6) by (simp add: q_flush_def)
  qed
qed

lemma align_padded: "rec_ok (padded rec) \<Longrightarrow> align_to_perf_record (length rec) = length (padded rec)"
proof -
  assume "rec_ok (padded rec)"
  then have "length rec < 65536" by (simp add: rec_ok_def padded_def)
  then have "length rec \<le> align_to_perf_record (length rec)" by (intro align_props) simp
  then show ?thesis by (simp add: padded_def)
qed

lemma ring_rel_lose:
  assumes rel: "ring_rel n s q" and small: "q_lost q + 1 < 2 ^ 64"
  shows "\<exists>w. lose (rs_writer s) = Some w \<and> ring_rel n (s\<lparr>rs_writer := w\<rparr>) (q\<lparr>q_lost := q_lost q + 1\<rparr>) \<and>
    w_head w = w_head (rs_writer s)"
proof -
  let ?l = "w_lost_count (rs_writer s)"
  have l: "unat ?l = q_lost q" using rel by (simp add: ring_rel_def)
  then have "unat ?l + unat (1 :: u64) < 2 ^ 64" using small by simp
  note a = add64_ok [OF this] unat_add64 [OF this]
  show ?thesis
    using a rel l by (simp add: lose_def ring_rel_def ring_inv_lost q_all_def)
qed

text \<open>The write after its space check: pending notice, then the record.\<close>

lemma ring_rel_put:
  assumes rel: "ring_rel n s q" and ok: "rec_ok (padded rec)"
    and space: "length (padded rec) + (if 0 < q_lost q then LOST_RECORD_SIZE else 0) \<le> q_free n q"
    and small: "w_head (rs_writer s) + length (padded rec) + LOST_RECORD_SIZE < 2 ^ 64"
  obtains w1 m1 w2 m2 where
    "flush_pending_lost (rs_writer s) now (rs_mem s) = Some (w1, m1)"
    "write_raw w1 rec (length (padded rec)) m1 = Some (w2, m2)"
    "ring_rel n (s\<lparr>rs_writer := w2, rs_mem := m2\<rparr>)
       (let q2 = q_flush n now q in q2\<lparr>q_rest := q_rest q2 @ [Accepted rec]\<rparr>)"
    "w_head w2 \<le> w_head (rs_writer s) + length (padded rec) + LOST_RECORD_SIZE"
    "unat (w_lost_count w2) = 0"
proof -
  let ?al = "length (padded rec)"
  have "w_head (rs_writer s) + LOST_RECORD_SIZE < 2 ^ 64" using small by linarith
  from ring_rel_flush [OF rel this, of now] obtain w1 m1 where f:
    "flush_pending_lost (rs_writer s) now (rs_mem s) = Some (w1, m1)"
    "ring_rel n (s\<lparr>rs_writer := w1, rs_mem := m1\<rparr>) (q_flush n now q)"
    "w_head w1 = w_head (rs_writer s) +
      (if q_lost q = 0 \<or> q_free n q < LOST_RECORD_SIZE then 0 else LOST_RECORD_SIZE)" by blast
  let ?s1 = "s\<lparr>rs_writer := w1, rs_mem := m1\<rparr>" and ?q2 = "q_flush n now q"
  have inv: "ring_inv w1 (rs_reader s) m1" and size: "w_data_size w1 = n"
    and lost: "unat (w_lost_count w1) = q_lost ?q2"
    using f(2) by (simp_all add: ring_rel_def)
  have flushed: "q_lost ?q2 = 0"
    using space by (auto simp: q_flush_def split: if_splits)
  have free: "?al \<le> q_free n ?q2"
  proof -
    have "length (entry_bytes (Lost (q_lost q) now)) = LOST_RECORD_SIZE" by simp
    then show ?thesis using space by (auto simp: q_flush_def q_free_def q_all_def simp del: entry_bytes.simps)
  qed
  note pos = ring_rel_positions [OF f(2), simplified]
  have fits: "w_head w1 - ring_tail m1 + ?al \<le> w_data_size w1"
  proof -
    have "0 < ?al" using ok by (auto simp: rec_ok_def)
    then show ?thesis using free pos(1,7) size by (simp add: q_free_def)
  qed
  have len: "length rec \<le> ?al" "8 dvd ?al" using ok by (simp_all add: padded_def rec_ok_def)
  have "w_head w1 + ?al < 2 ^ 64" using f(3) small by (auto split: if_splits)
  from write_raw_Some [OF inv len fits this] obtain m2 where w:
    "write_raw w1 rec ?al m1 = Some (w1\<lparr>w_head := w_head w1 + ?al\<rparr>, m2)"
    "ring_inv (w1\<lparr>w_head := w_head w1 + ?al\<rparr>) (rs_reader s) m2" "meta m2 1032 = meta m1 1032"
    "ring_bytes w1 m2 (ring_tail m1) (w_head w1 + ?al) =
      ring_bytes w1 m1 (ring_tail m1) (w_head w1) @ rec @ replicate (?al - length rec) 0"
    by blast
  let ?w2 = "w1\<lparr>w_head := w_head w1 + ?al\<rparr>"
  have "rec @ replicate (?al - length rec) 0 = entry_bytes (Accepted rec)"
    by (simp add: padded_def)
  then have rel2: "ring_rel n (?s1\<lparr>rs_writer := ?w2, rs_mem := m2\<rparr>)
      (?q2\<lparr>q_rest := q_rest ?q2 @ [Accepted rec], q_lost := q_lost ?q2\<rparr>)"
    using w(2,3,4) ok lost by (intro ring_rel_append [OF f(2)]) simp_all
  show thesis
  proof (rule that [OF f(1) w(1)])
    show "ring_rel n (s\<lparr>rs_writer := ?w2, rs_mem := m2\<rparr>)
       (let q2 = ?q2 in q2\<lparr>q_rest := q_rest q2 @ [Accepted rec]\<rparr>)"
      using rel2 by (simp add: Let_def)
    show "unat (w_lost_count ?w2) = 0" using lost flushed by simp
  qed (use f(3) in auto)
qed

lemma ring_rel_write:
  assumes rel: "ring_rel n s q" and ok: "rec_ok (padded rec)"
    and small: "ring_spent s + length (padded rec) + LOST_RECORD_SIZE < 2 ^ 63"
  shows "\<exists>s'. ring_step (Write rec now released) s = Some (None, s') \<and>
    ring_rel n s' (q_write n rec now released q) \<and>
    ring_spent s' \<le> ring_spent s + length (padded rec) + LOST_RECORD_SIZE"
proof -
  let ?w = "rs_writer s" and ?mem = "rs_mem s" and ?al = "length (padded rec)"
  let ?start = "cur_start (rs_cursor s)"
  let ?needed = "?al + (if 0 < q_lost q then LOST_RECORD_SIZE else 0)"
  have inv: "ring_inv ?w (rs_reader s) ?mem" and size: "w_data_size ?w = n"
    and lost: "unat (w_lost_count ?w) = q_lost q"
    using rel by (simp_all add: ring_rel_def)
  have pos_lost: "0 < w_lost_count ?w \<longleftrightarrow> 0 < q_lost q"
    by (simp add: word_less_nat_alt flip: lost)
  note pos = ring_rel_positions [OF rel]
  have al: "align_to_perf_record (length rec) = ?al" using ok by (rule align_padded)
  have small_lost: "q_lost q + 1 < 2 ^ 64" and small_head: "w_head ?w + ?al + LOST_RECORD_SIZE < 2 ^ 64"
    using small lost by (simp_all add: ring_spent_def)
  show ?thesis
  proof (cases "n < ?al")
    case True
    from ring_rel_lose [OF rel small_lost] obtain w where w:
      "lose ?w = Some w" "ring_rel n (s\<lparr>rs_writer := w\<rparr>) (q\<lparr>q_lost := q_lost q + 1\<rparr>)"
      "w_head w = w_head ?w" by blast
    moreover have "unat (w_lost_count w) = q_lost q + 1" using w(2) by (simp add: ring_rel_def)
    ultimately show ?thesis
      using True lost by (simp add: writer_write_def al size q_write_def Let_def ring_spent_def LOST_RECORD_SIZE_def)
  next
    case False
    let ?q1 = "if ?needed \<le> q_free n q \<or> True \<notin> set released then q else q\<lparr>q_done := []\<rparr>"
    from wait_poll [OF inv pos(4,5,6), of ?needed released] obtain m where m:
      "(if q_free n q < ?needed then wait_for_space ?w ?needed (poll_tails (meta ?mem 1032) ?start released) ?mem
        else Some (True, ?mem)) = Some (?needed \<le> q_free n ?q1, m)"
      "ring_inv ?w (rs_reader s) m" "\<And>a b. ring_bytes ?w m a b = ring_bytes ?w ?mem a b"
      "meta m 1032 = (if ?needed \<le> q_free n q \<or> True \<notin> set released then meta ?mem 1032 else ?start)"
      unfolding pos(2,3) by auto
    let ?s1 = "s\<lparr>rs_mem := m\<rparr>"
    have rel1: "ring_rel n ?s1 ?q1"
      using ring_rel_mem [OF rel m(2) _ m(3)] ring_rel_release [OF rel m(2) _ m(3)] m(4) by (auto split: if_splits)
    have lost1: "q_lost ?q1 = q_lost q" by simp
    have av: "available ?w ?mem = Some (q_free n q)"
      using available_eq [OF inv] pos(2) by (simp add: free_at_def)
    show ?thesis
    proof (cases "?needed \<le> q_free n ?q1")
      case no: False
      from ring_rel_lose [OF rel1] small_lost lost1 obtain w where w:
        "lose ?w = Some w" "ring_rel n (?s1\<lparr>rs_writer := w\<rparr>) (?q1\<lparr>q_lost := q_lost q + 1\<rparr>)"
        "w_head w = w_head ?w" by auto
      have l1: "unat (w_lost_count w) = q_lost q + 1" using w(2) by (simp add: ring_rel_def)
      have "ring_step (Write rec now released) s = Some (None, ?s1\<lparr>rs_writer := w\<rparr>)"
        using False m(1) no w(1) by (simp add: writer_write_def al size Let_def av pos_lost)
      moreover have "q_write n rec now released q = ?q1\<lparr>q_lost := q_lost q + 1\<rparr>"
        using False no by (auto simp: q_write_def Let_def)
      ultimately show ?thesis
        using w l1 lost by (simp add: ring_spent_def LOST_RECORD_SIZE_def)
    next
      case yes: True
      have space: "?al + (if 0 < q_lost ?q1 then LOST_RECORD_SIZE else 0) \<le> q_free n ?q1"
        using yes lost1 by simp
      have "w_head (rs_writer ?s1) + ?al + LOST_RECORD_SIZE < 2 ^ 64" using small_head by simp
      from ring_rel_put [OF rel1 ok space this, of now] obtain w1 m1 w2 m2 where p:
        "flush_pending_lost (rs_writer ?s1) now (rs_mem ?s1) = Some (w1, m1)"
        "write_raw w1 rec ?al m1 = Some (w2, m2)"
        "ring_rel n (?s1\<lparr>rs_writer := w2, rs_mem := m2\<rparr>)
          (let q2 = q_flush n now ?q1 in q2\<lparr>q_rest := q_rest q2 @ [Accepted rec]\<rparr>)"
        "w_head w2 \<le> w_head (rs_writer ?s1) + ?al + LOST_RECORD_SIZE" "unat (w_lost_count w2) = 0"
        by blast
      have "ring_step (Write rec now released) s = Some (None, ?s1\<lparr>rs_writer := w2, rs_mem := m2\<rparr>)"
        using False m(1) yes p(1,2) by (simp add: writer_write_def al size Let_def av pos_lost)
      moreover have "q_write n rec now released q =
          (let q2 = q_flush n now ?q1 in q2\<lparr>q_rest := q_rest q2 @ [Accepted rec]\<rparr>)"
        using False yes by (auto simp: q_write_def Let_def)
      ultimately show ?thesis
        using p(3,4,5) by (simp add: ring_spent_def)
    qed
  qed
qed

lemma ring_rel_read:
  assumes rel: "ring_rel n s q" and small: "ring_spent s < 2 ^ 63"
  shows "\<exists>s'. ring_step Read s = Some (fst (queue_step n Read q), s') \<and>
    ring_rel n s' (snd (queue_step n Read q)) \<and> ring_spent s' = ring_spent s"
proof -
  let ?w = "rs_writer s" and ?cur = "rs_cursor s" and ?t = "ring_tail (rs_mem s)"
  have inv: "ring_inv ?w (rs_reader s) (rs_mem s)" and size: "w_data_size ?w = n"
    and stop: "unat (cur_end ?cur) = unat (cur_start ?cur) + entries_len (q_avail q)"
    and cur: "unat (cur_start ?cur) = ?t + entries_len (q_done q)"
    and ok: "\<forall>e \<in> set (q_all q). rec_ok (entry_bytes e)"
    and seg: "concat (map entry_bytes (q_all q)) = ring_bytes ?w (rs_mem s) ?t (w_head ?w)"
    using rel by (simp_all add: ring_rel_def)
  note pos = ring_rel_positions [OF rel]
  have more: "cursor_more ?cur \<longleftrightarrow> 0 < entries_len (q_avail q)"
    by (simp add: cursor_more_def word_less_nat_alt stop)
  show ?thesis
  proof (cases "q_avail q")
    case Nil
    then show ?thesis using more rel by simp
  next
    case (Cons e es)
    have e: "rec_ok (entry_bytes e)" using ok Cons by (simp add: q_all_def)
    let ?p = "unat (cur_start ?cur)" and ?len = "length (entry_bytes e)"
    have end_le: "?p + ?len \<le> w_head ?w" using pos(1) cur Cons by (simp add: q_all_def)
    have "concat (map entry_bytes (q_done q)) @ entry_bytes e @ concat (map entry_bytes (es @ q_rest q)) =
        ring_bytes ?w (rs_mem s) ?t ?p @ ring_bytes ?w (rs_mem s) ?p (?p + ?len) @
        ring_bytes ?w (rs_mem s) (?p + ?len) (w_head ?w)"
      using seg segment_append [OF pos(4,5)] segment_append [of ?p "?p + ?len" "w_head ?w"] end_le Cons
      by (simp add: q_all_def)
    moreover have "length (concat (map entry_bytes (q_done q))) = length (ring_bytes ?w (rs_mem s) ?t ?p)"
      using cur by (simp add: entries_len_def)
    ultimately have "ring_bytes ?w (rs_mem s) ?p (?p + ?len) = entry_bytes e"
      by (simp add: append_eq_append_conv)
    moreover have "?len \<le> w_data_size ?w" using pos(7) Cons by (simp add: q_all_def size)
    moreover have "?p + ?len < 2 ^ 64" using end_le small by (simp add: ring_spent_def)
    ultimately obtain c where c:
      "reader_read (rs_reader s) (rs_mem s) ?cur = Some (entry_bytes e, ?cur\<lparr>cur_start := c\<rparr>)"
      "unat c = ?p + ?len"
      using reader_read_Some [OF inv e _ refl pos(6)] by blast
    have "0 < ?len" using e by (auto simp: rec_ok_def)
    then have "ring_step Read s = Some (Some (entry_bytes e), s\<lparr>rs_cursor := ?cur\<lparr>cur_start := c\<rparr>\<rparr>)"
      using more Cons c(1) by simp
    moreover have "ring_rel n (s\<lparr>rs_cursor := ?cur\<lparr>cur_start := c\<rparr>\<rparr>) (q\<lparr>q_done := q_done q @ [e], q_avail := es\<rparr>)"
      using rel c(2) Cons by (simp add: ring_rel_def q_all_def)
    ultimately show ?thesis using Cons by (simp add: ring_spent_def)
  qed
qed

lemma ring_rel_begin:
  assumes rel: "ring_rel n s q"
  shows "\<exists>s'. ring_step Begin s = Some (None, s') \<and> ring_rel n s' (snd (queue_step n Begin q)) \<and>
    ring_spent s' = ring_spent s"
proof -
  let ?mem = "rs_mem s"
  have inv: "ring_inv (rs_writer s) (rs_reader s) ?mem" using rel by (simp add: ring_rel_def)
  note pos = ring_rel_positions [OF rel]
  have "begin_reading ?mem (rs_cursor s) =
      Some (rs_cursor s\<lparr>cur_start := meta ?mem 1032, cur_end := meta ?mem 1024\<rparr>)"
    using ring_inv_meta_fits [OF inv]
    by (simp add: begin_reading_def reader_head_def reader_tail_def subslice_def meta_def cursor_set_def)
  moreover have "unat (meta ?mem 1024) = ring_tail ?mem + entries_len (q_all q)"
    using inv pos(1) by (simp add: ring_inv_def)
  ultimately show ?thesis
    using rel by (auto simp: ring_rel_def q_all_def ring_spent_def)
qed

lemma ring_rel_end:
  assumes rel: "ring_rel n s q"
  shows "\<exists>s'. ring_step End s = Some (None, s') \<and> ring_rel n s' (snd (queue_step n End q)) \<and>
    ring_spent s' = ring_spent s"
proof -
  have inv: "ring_inv (rs_writer s) (rs_reader s) (rs_mem s)" using rel by (simp add: ring_rel_def)
  note pos = ring_rel_positions [OF rel]
  from set_tail_Some [OF inv pos(4,5,6)] obtain m where m:
    "blit (rs_mem s) 1032 (u64_bytes (cur_start (rs_cursor s))) = Some m"
    "ring_inv (rs_writer s) (rs_reader s) m" "meta m 1032 = cur_start (rs_cursor s)"
    "\<And>a b. ring_bytes (rs_writer s) m a b = ring_bytes (rs_writer s) (rs_mem s) a b" by blast
  then show ?thesis
    using ring_rel_release [OF rel m(2,3,4)] by (simp add: end_reading_def ring_spent_def)
qed

lemma ring_rel_flush_step:
  assumes rel: "ring_rel n s q" and small: "ring_spent s + LOST_RECORD_SIZE < 2 ^ 63"
  shows "\<exists>s'. ring_step (Flush now) s = Some (None, s') \<and> ring_rel n s' (q_flush n now q) \<and>
    ring_spent s' \<le> ring_spent s + LOST_RECORD_SIZE"
proof -
  have "w_head (rs_writer s) + LOST_RECORD_SIZE < 2 ^ 64" using small by (simp add: ring_spent_def)
  from ring_rel_flush [OF rel this, of now] obtain w m where f:
    "flush_pending_lost (rs_writer s) now (rs_mem s) = Some (w, m)"
    "ring_rel n (s\<lparr>rs_writer := w, rs_mem := m\<rparr>) (q_flush n now q)"
    "w_head w = w_head (rs_writer s) +
      (if q_lost q = 0 \<or> q_free n q < LOST_RECORD_SIZE then 0 else LOST_RECORD_SIZE)" by blast
  have "unat (w_lost_count w) \<le> unat (w_lost_count (rs_writer s))"
    using f(2) rel by (auto simp: ring_rel_def q_flush_def split: if_splits)
  then show ?thesis using f by (auto simp: writer_flush_def ring_spent_def split: if_splits)
qed

interpretation ring: simulation ring_step "queue_step n" "ring_rel n" write_ok op_cost ring_spent "2 ^ 63" for n
proof
  fix s q op
  assume a: "ring_rel n s q" "write_ok op" "ring_spent s + op_cost op < 2 ^ 63"
  show "\<exists>s'. ring_step op s = Some (fst (queue_step n op q), s') \<and> ring_rel n s' (snd (queue_step n op q)) \<and>
      ring_spent s' \<le> ring_spent s + op_cost op"
  proof (cases op)
    case (Write rec now released)
    then show ?thesis
      using ring_rel_write [OF a(1), of rec now released] a(2,3) by (simp add: write_ok_def op_cost_def add.assoc del: ring_step.simps)
  next
    case (Flush now)
    then show ?thesis
      using ring_rel_flush_step [OF a(1), of now] a(3) by (simp add: op_cost_def del: ring_step.simps)
  next
    case Begin
    then show ?thesis using ring_rel_begin [OF a(1)] by (auto simp del: ring_step.simps)
  next
    case Read
    then show ?thesis using ring_rel_read [OF a(1)] a(3) by (auto simp del: ring_step.simps)
  next
    case End
    then show ?thesis using ring_rel_end [OF a(1)] by (auto simp del: ring_step.simps)
  qed
qed

section \<open>A fresh ring\<close>

definition ring_start :: "nat \<Rightarrow> nat \<Rightarrow> ring_state option" where
  "ring_start page_size data_pages = do {
     rb \<leftarrow> in_process_new page_size data_pages;
     rd \<leftarrow> create_reader rb;
     Ret \<lparr>rs_writer = ring_writer_of rb, rs_reader = rd, rs_mem = rb_data rb, rs_cursor = cursor_default\<rparr>
   }"

definition empty_queue :: ring_queue where
  "empty_queue = \<lparr>q_done = [], q_avail = [], q_rest = [], q_lost = 0\<rparr>"

text \<open>What the system has to provide: pages of a power of two bytes that hold the metadata, and
  a data area that can be addressed.\<close>

definition page_ok :: "nat \<Rightarrow> nat \<Rightarrow> bool" where
  "page_ok page_size data_pages \<longleftrightarrow> is_power_of_two page_size \<and> 1056 \<le> page_size \<and>
     ring_data_bytes page_size data_pages < 2 ^ 63"

lemma ring_start_rel:
  assumes "page_ok page_size data_pages"
  obtains s where "ring_start page_size data_pages = Some s"
    "ring_rel (ring_data_bytes page_size data_pages) s empty_queue" "ring_spent s = 0"
proof -
  define n where "n = ring_data_bytes page_size data_pages"
  obtain j where j: "page_size = 2 ^ j" using assms is_power_of_two_power by (auto simp: page_ok_def)
  obtain i where i: "next_power_of_two data_pages = 2 ^ i" using next_power_of_two_power by blast
  have n: "n = 2 ^ (i + j)" by (simp add: n_def ring_data_bytes_def j i power_add)
  have page: "1056 \<le> page_size" "n < 2 ^ 63" using assms by (simp_all add: page_ok_def n_def)
  have "page_size \<le> n" using i by (simp add: n_def ring_data_bytes_def)
  have "2 ^ 3 < (2 :: nat) ^ (i + j)" using page \<open>page_size \<le> n\<close> unfolding n by simp
  then have k: "3 \<le> i + j" "i + j < 63"
    using page(2) power_less_imp_less_exp [of "2 :: nat" 3 "i + j"]
      power_less_imp_less_exp [of "2 :: nat" "i + j" 63] unfolding n by simp_all
  let ?mem = "replicate (page_size + n) (0 :: byte)"
  have "1040 + 8 \<le> length ?mem" using page by simp
  then obtain d0 where d0:
    "blit ?mem 1040 (u64_bytes (of_nat page_size)) = Some d0" "length d0 = length ?mem"
    "meta d0 1040 = of_nat page_size"
    "\<And>k'. k' + 8 \<le> 1040 \<or> 1040 + 8 \<le> k' \<Longrightarrow> k' + 8 \<le> length ?mem \<Longrightarrow> meta d0 k' = meta ?mem k'"
    by (rule blit_meta [of _ _ "of_nat page_size"]) (rule that, assumption+)
  have "1048 + 8 \<le> length d0" using page d0(2) by simp
  then obtain d1 where d1:
    "blit d0 1048 (u64_bytes (of_nat n)) = Some d1" "length d1 = length d0" "meta d1 1048 = of_nat n"
    "\<And>k'. k' + 8 \<le> 1048 \<or> 1048 + 8 \<le> k' \<Longrightarrow> k' + 8 \<le> length d0 \<Longrightarrow> meta d1 k' = meta d0 k'"
    by (rule blit_meta [of _ _ "of_nat n"]) (rule that, assumption+)
  have zero: "meta ?mem k = 0" for k
  proof -
    have "le_nat (replicate m 0) = 0" for m by (induction m) auto
    then show ?thesis by (simp add: meta_def u64_of_def)
  qed
  have m: "meta d1 1024 = 0" "meta d1 1032 = 0" "meta d1 1040 = of_nat page_size" "length d1 = page_size + n"
    using d0 d1 page zero by simp_all
  have npos: "0 < n" by (simp add: n)
  have new: "in_process_new page_size data_pages = Some \<lparr>rb_data = d1, rb_data_offset = page_size,
      rb_data_size = n, rb_data_mask = n - 1, rb_head = 0\<rparr>"
  proof -
    have "next_power_of_two data_pages * page_size = n" by (simp add: n_def ring_data_bytes_def)
    then show ?thesis unfolding in_process_new_def Let_def using d0(1) d1(1) npos
      by (simp add: sub_usize_def del: of_nat_mult One_nat_def)
  qed
  have un: "unat (of_nat n :: u64) = n" "unat (of_nat page_size :: u64) = page_size"
    using page \<open>page_size \<le> n\<close> by (auto intro!: unat_of_nat_word(3))
  have "(1 :: u64) \<le> of_nat n" using npos un(1) by (simp add: word_le_nat_alt)
  then have sub: "sub64 (of_nat n) 1 = Some (of_nat n - 1)" "unat (of_nat n - 1 :: u64) = n - 1"
    using un(1) by (simp_all add: sub64_ok unat_sub)
  have rd: "create_reader \<lparr>rb_data = d1, rb_data_offset = page_size, rb_data_size = n,
      rb_data_mask = n - 1, rb_head = 0\<rparr> = Some \<lparr>rd_data_offset = of_nat page_size, rd_data_size = of_nat n,
      rd_data_mask = of_nat n - 1, rd_owned = False\<rparr>"
    using m(3,4) d1(3) sub(1) page
    by (simp add: create_reader_def reader_new_unowned_def reader_new_def subslice_def meta_def)
  show thesis
  proof (rule that)
    show "ring_start page_size data_pages = Some \<lparr>rs_writer = ring_writer_of \<lparr>rb_data = d1, rb_data_offset = page_size,
        rb_data_size = n, rb_data_mask = n - 1, rb_head = 0\<rparr>, rs_reader = \<lparr>rd_data_offset = of_nat page_size,
        rd_data_size = of_nat n, rd_data_mask = of_nat n - 1, rd_owned = False\<rparr>, rs_mem = d1, rs_cursor = cursor_default\<rparr>"
      using new rd by (simp add: ring_start_def)
  qed (use k m un sub page n \<open>page_size \<le> n\<close> in
      \<open>auto simp: ring_rel_def ring_inv_def ring_writer_of_def empty_queue_def q_all_def
        cursor_default_def ring_spent_def segment_def n_def [symmetric]\<close>)
qed

section \<open>Order and accounting\<close>

fun writes :: "ring_op list \<Rightarrow> byte list list" where
  "writes [] = []"
| "writes (Write rec now released # ops) = padded rec # writes ops"
| "writes (_ # ops) = writes ops"

definition delivered :: "byte list option list \<Rightarrow> byte list list" where
  "delivered outs = List.map_filter id outs"

fun accepted :: "entry list \<Rightarrow> byte list list" where
  "accepted [] = []"
| "accepted (Accepted rec # es) = padded rec # accepted es"
| "accepted (Lost n now # es) = accepted es"

fun accounted :: "entry list \<Rightarrow> nat" where
  "accounted [] = 0"
| "accounted (Accepted rec # es) = 1 + accounted es"
| "accounted (Lost n now # es) = n + accounted es"

text \<open>Reading sessions are closed when a new one begins only after what was read is released.\<close>

fun closed_sessions :: "bool \<Rightarrow> ring_op list \<Rightarrow> bool" where
  "closed_sessions dirty [] = True"
| "closed_sessions dirty (Read # ops) = closed_sessions True ops"
| "closed_sessions dirty (End # ops) = closed_sessions False ops"
| "closed_sessions dirty (Begin # ops) = (\<not> dirty \<and> closed_sessions False ops)"
| "closed_sessions dirty (_ # ops) = closed_sessions dirty ops"

lemma delivered_simps [simp]:
  "delivered [] = []" "delivered (None # outs) = delivered outs" "delivered (Some b # outs) = b # delivered outs"
  by (simp_all add: delivered_def)

lemma accepted_append [simp]: "accepted (es @ fs) = accepted es @ accepted fs"
  by (induction es rule: accepted.induct) auto

lemma accounted_append [simp]: "accounted (es @ fs) = accounted es + accounted fs"
  by (induction es rule: accounted.induct) auto

lemma q_flush_log:
  "\<exists>new. q_rest (q_flush n now q) = q_rest q @ new \<and> accepted new = [] \<and>
    accounted new + q_lost (q_flush n now q) = q_lost q \<and>
    q_done (q_flush n now q) = q_done q \<and> q_avail (q_flush n now q) = q_avail q"
  by (simp add: q_flush_def)

lemma q_write_log:
  "\<exists>new. q_rest (q_write n rec now released q) = q_rest q @ new \<and>
    subseq (accepted new) [padded rec] \<and> accounted new + q_lost (q_write n rec now released q) = q_lost q + 1 \<and>
    q_done (q_write n rec now released q) \<in> {q_done q, []} \<and> q_avail (q_write n rec now released q) = q_avail q"
  by (auto simp: q_write_def q_flush_def Let_def)

lemma queue_log:
  assumes "closed_sessions dirty ops" "\<not> dirty \<Longrightarrow> q_done q = []"
  shows "\<exists>new. delivered (fst (run_spec (queue_step n) ops q)) @
      map entry_bytes (q_avail (snd (run_spec (queue_step n) ops q)) @ q_rest (snd (run_spec (queue_step n) ops q))) =
      map entry_bytes (q_avail q @ q_rest q @ new) \<and>
    subseq (accepted new) (writes ops) \<and>
    length (writes ops) + q_lost q = accounted new + q_lost (snd (run_spec (queue_step n) ops q))"
  using assms
proof (induction ops arbitrary: q dirty)
  case Nil
  then show ?case by (auto intro: exI [of _ "[]"])
next
  case (Cons op ops)
  show ?case
  proof (cases op)
    case (Write rec now released)
    let ?q = "q_write n rec now released q"
    from q_write_log obtain new1 where n1: "q_rest ?q = q_rest q @ new1"
      "subseq (accepted new1) [padded rec]" "accounted new1 + q_lost ?q = q_lost q + 1"
      "q_done ?q \<in> {q_done q, []}" "q_avail ?q = q_avail q" by blast
    have "closed_sessions dirty ops" "\<not> dirty \<Longrightarrow> q_done ?q = []" using Cons.prems n1(4) Write by auto
    from Cons.IH [OF this] obtain new2 where n2:
      "delivered (fst (run_spec (queue_step n) ops ?q)) @ map entry_bytes
        (q_avail (snd (run_spec (queue_step n) ops ?q)) @ q_rest (snd (run_spec (queue_step n) ops ?q))) =
        map entry_bytes (q_avail ?q @ q_rest ?q @ new2)"
      "subseq (accepted new2) (writes ops)"
      "length (writes ops) + q_lost ?q = accounted new2 + q_lost (snd (run_spec (queue_step n) ops ?q))" by blast
    have "subseq (accepted (new1 @ new2)) ([padded rec] @ writes ops)"
      unfolding accepted_append by (rule list_emb_append_mono [OF n1(2) n2(2)])
    then show ?thesis
      using n1 n2 Write by (intro exI [of _ "new1 @ new2"]) (simp add: split_beta Let_def)
  next
    case (Flush now)
    let ?q = "q_flush n now q"
    from q_flush_log obtain new1 where n1: "q_rest ?q = q_rest q @ new1" "accepted new1 = []"
      "accounted new1 + q_lost ?q = q_lost q" "q_done ?q = q_done q" "q_avail ?q = q_avail q" by blast
    have "closed_sessions dirty ops" "\<not> dirty \<Longrightarrow> q_done ?q = []" using Cons.prems n1(4) Flush by auto
    from Cons.IH [OF this] obtain new2 where n2:
      "delivered (fst (run_spec (queue_step n) ops ?q)) @ map entry_bytes
        (q_avail (snd (run_spec (queue_step n) ops ?q)) @ q_rest (snd (run_spec (queue_step n) ops ?q))) =
        map entry_bytes (q_avail ?q @ q_rest ?q @ new2)"
      "subseq (accepted new2) (writes ops)"
      "length (writes ops) + q_lost ?q = accounted new2 + q_lost (snd (run_spec (queue_step n) ops ?q))" by blast
    then show ?thesis
      using n1 Flush by (intro exI [of _ "new1 @ new2"]) (simp add: split_beta Let_def)
  next
    case Begin
    then have "\<not> dirty" "q_done q = []" using Cons.prems by auto
    then show ?thesis
      using Cons.IH [of False "q\<lparr>q_done := [], q_avail := q_all q, q_rest := []\<rparr>"] Cons.prems Begin
      by (simp add: split_beta Let_def q_all_def)
  next
    case Read
    show ?thesis
    proof (cases "q_avail q")
      case Nil
      then show ?thesis using Cons.IH [of True q] Cons.prems Read by (simp add: split_beta Let_def)
    next
      case c: (Cons e es)
      then show ?thesis
        using Cons.IH [of True "q\<lparr>q_done := q_done q @ [e], q_avail := es\<rparr>"] Cons.prems Read
        by (simp add: split_beta Let_def)
    qed
  next
    case End
    then show ?thesis
      using Cons.IH [of False "q\<lparr>q_done := []\<rparr>"] Cons.prems by (simp add: split_beta Let_def)
  qed
qed

text \<open>C1. The ring refines a bounded queue of records: from a fresh ring, whatever writes, flushes,
  reading sessions and tail updates (also during a writer's wait) are interleaved, no operation
  panics or copies outside the pages, and the reader sees what the queue specification says:
  whole records in the order written, through any number of wrap-arounds, with rejected
  writes counted. The writes are of well-formed records and the ring's positions stay below
  \<open>2 ^ 63\<close>.\<close>

theorem ring_refines_queue:
  assumes "page_ok page_size data_pages" "ring_start page_size data_pages = Some s0"
    "list_all write_ok ops" "sum_list (map op_cost ops) < 2 ^ 63"
  shows "\<exists>s'. run_steps ring_step ops s0 =
      Some (fst (run_spec (queue_step (ring_data_bytes page_size data_pages)) ops empty_queue), s') \<and>
    ring_rel (ring_data_bytes page_size data_pages) s'
      (snd (run_spec (queue_step (ring_data_bytes page_size data_pages)) ops empty_queue))"
proof -
  from ring_start_rel [OF assms(1)] assms(2) have s0:
    "ring_rel (ring_data_bytes page_size data_pages) s0 empty_queue" "ring_spent s0 = 0" by auto
  show ?thesis using ring.run [OF s0(1) assms(3)] s0(2) assms(4) by auto
qed

text \<open>A concrete schedule: one record written, read and released, a second one written.\<close>

definition demo_record :: "byte list" where
  "demo_record = perf_record PERF_RECORD_SAMPLE 0 [1, 2, 3]"

definition demo_ops :: "ring_op list" where
  "demo_ops = [Write demo_record 0 [], Begin, Read, End, Write demo_record 0 [False, True], Begin, Read, Read]"

lemma demo_ok:
  "list_all write_ok demo_ops" "sum_list (map op_cost demo_ops) < 2 ^ 63" "page_ok 4096 1"
proof -
  have r: "rec_ok demo_record" unfolding demo_record_def by (rule rec_ok_perf_record) simp
  have len: "length demo_record = 16"
    by (simp add: demo_record_def length_perf_record align_eq)
  show "list_all write_ok demo_ops" by (simp add: demo_ops_def write_ok_def r)
  show "sum_list (map op_cost demo_ops) < 2 ^ 63"
    by (simp add: demo_ops_def op_cost_def r len LOST_RECORD_SIZE_def)
  have "next_power_of_two 1 = 1" "next_power_of_two 4096 = 4096" by code_simp+
  then show "page_ok 4096 1" by (simp add: page_ok_def is_power_of_two_def ring_data_bytes_def)
qed

theorem ring_refines_queue_witness:
  "\<exists>s0 s' outs. ring_start 4096 1 = Some s0 \<and> run_steps ring_step demo_ops s0 = Some (outs, s') \<and>
    outs = fst (run_spec (queue_step (ring_data_bytes 4096 1)) demo_ops empty_queue)"
proof -
  from ring_start_rel [OF demo_ok(3)] obtain s0 where s0: "ring_start 4096 1 = Some s0" by blast
  from ring_refines_queue [OF demo_ok(3) s0 demo_ok(1,2)] s0 show ?thesis by blast
qed



text \<open>A limit of the loss accounting: once a loss is pending, a record whose size is within 48
  bytes of the whole data area is dropped however empty the ring is and however often the reader
  frees space, although the same record fits when no loss is pending; each attempt only adds to the
  pending count.\<close>

theorem pending_loss_blocks_large_records:
  assumes "ring_rel n s q" "rec_ok (padded rec)" "length (padded rec) \<le> n"
    "n < length (padded rec) + LOST_RECORD_SIZE" "0 < w_lost_count (rs_writer s)"
    "ring_spent s + length (padded rec) + LOST_RECORD_SIZE < 2 ^ 63"
  shows "\<exists>s'. ring_step (Write rec now released) s = Some (None, s') \<and>
    unat (w_lost_count (rs_writer s')) = unat (w_lost_count (rs_writer s)) + 1 \<and>
    (\<exists>q'. ring_rel n s' q' \<and> q_avail q' @ q_rest q' = q_avail q @ q_rest q)"
proof -
  have lost: "unat (w_lost_count (rs_writer s)) = q_lost q" using assms(1) by (simp add: ring_rel_def)
  then have pos: "0 < q_lost q" using assms(5) by (simp add: word_less_nat_alt)
  have free: "q_free n q' < length (padded rec) + LOST_RECORD_SIZE" for q'
    using assms(4) by (simp add: q_free_def)
  have w: "q_lost (q_write n rec now released q) = q_lost q + 1"
    "q_avail (q_write n rec now released q) = q_avail q" "q_rest (q_write n rec now released q) = q_rest q"
    using pos free assms(3) by (auto simp: q_write_def Let_def not_less [symmetric])
  from ring_rel_write [OF assms(1,2,6), of now released] obtain s' where
    "ring_step (Write rec now released) s = Some (None, s')"
    "ring_rel n s' (q_write n rec now released q)" by blast
  moreover from this(2) have "unat (w_lost_count (rs_writer s')) = unat (w_lost_count (rs_writer s)) + 1"
    using w(1) lost by (simp add: ring_rel_def)
  ultimately show ?thesis using w(2,3) by metis
qed

text \<open>A ring of one page with a pending loss: the first record is larger than the ring.\<close>

theorem pending_loss_blocks_large_records_witness:
  "\<exists>s s' big rec. ring_start 4096 1 \<noteq> None \<and> rec_ok rec \<and> length rec = 4096 \<and>
    run_steps ring_step [Write big 0 []] (the (ring_start 4096 1)) = Some ([None], s) \<and>
    ring_step (Write rec 0 []) s = Some (None, s') \<and>
    unat (w_lost_count (rs_writer s')) = unat (w_lost_count (rs_writer s)) + 1"
proof -
  define big where "big = perf_record 9 0 (replicate 8000 0)"
  define rec where "rec = perf_record 9 0 (replicate 4088 0)"
  have "rec_ok (perf_record 9 0 (replicate k 0)) \<and>
      length (perf_record 9 0 (replicate k 0)) = (k + 15) div 8 * 8" if "k \<le> 65520" for k
    using that by (simp add: rec_ok_perf_record length_perf_record align_eq)
  from this [of 8000] this [of 4088]
  have big: "rec_ok big" "length big = 8008" and rec: "rec_ok rec" "length rec = 4096"
    unfolding big_def rec_def by simp_all
  have n: "ring_data_bytes 4096 1 = 4096"
  proof -
    have "next_power_of_two 1 = 1" by code_simp
    then show ?thesis by (simp add: ring_data_bytes_def)
  qed
  from ring_start_rel [OF demo_ok(3)] n obtain s0 where s0: "ring_start 4096 1 = Some s0"
    "ring_rel 4096 s0 empty_queue" "ring_spent s0 = 0" by auto
  have cost: "op_cost (Write big 0 []) = 8056" using big by (simp add: op_cost_def LOST_RECORD_SIZE_def)
  have "list_all write_ok [Write big 0 []]" "ring_spent s0 + sum_list (map op_cost [Write big 0 []]) < 2 ^ 63"
    using big(1) cost s0(3) by (simp_all add: write_ok_def)
  from ring.run [OF s0(2) this] obtain s where s:
    "run_steps ring_step [Write big 0 []] s0 = Some ([None], s)"
    "ring_rel 4096 s (q_write 4096 big 0 [] empty_queue)" "ring_spent s \<le> 8056"
    using cost s0(3) by auto
  have "q_lost (q_write 4096 big 0 [] empty_queue) = 1"
    using big by (simp add: q_write_def empty_queue_def)
  then have "0 < w_lost_count (rs_writer s)" using s(2) by (simp add: ring_rel_def word_less_nat_alt)
  from pending_loss_blocks_large_records [OF s(2), of rec 0 "[]"] this rec s(3) obtain s' where
    "ring_step (Write rec 0 []) s = Some (None, s')"
    "unat (w_lost_count (rs_writer s')) = unat (w_lost_count (rs_writer s)) + 1"
    by (auto simp: LOST_RECORD_SIZE_def simp del: ring_step.simps)
  with s0(1) s(1) rec show ?thesis by (auto simp del: ring_step.simps run_steps.simps)
qed

end
