(* ===== verification/Process.thy ===== *)
theory Process
  imports Mappings EventText
begin

text \<open>
  \<open>helpers/exporting/process.rs\<close>: metric values, samples, the replay of a process in time order
  and the process itself (\<open>ExportProcess\<close>), with the page map of \<open>symbols.rs\<close> that filters dynamic
  symbols, and \<open>replay_by_time\<close> of \<open>helpers/exporting/mod.rs\<close>, which merges the replays of the
  processes. The operating system's part of a process (\<open>OSExportProcess\<close>) is the type parameter
  \<open>'o\<close>; the page size and mask of the system are parameters. A \<open>HashSet\<close> of addresses is a set.
\<close>

section \<open>Metric values\<close>

datatype metric_value = Count u64 | Duration u64 | Bytes u64 | Span nat

definition metric_data_type :: "string \<Rightarrow> (bool \<times> nat) option" where
  "metric_data_type t =
     (if t \<in> {''char'', ''s8'', ''i8''} then Some (True, 1)
      else if t \<in> {''unsigned char'', ''u8''} then Some (False, 1)
      else if t \<in> {''short'', ''s16'', ''i16''} then Some (True, 2)
      else if t \<in> {''unsigned short'', ''u16''} then Some (False, 2)
      else if t \<in> {''int'', ''s32'', ''i32''} then Some (True, 4)
      else if t \<in> {''unsigned int'', ''u32''} then Some (False, 4)
      else if t \<in> {''long'', ''s64'', ''i64''} then Some (True, 8)
      else if t \<in> {''unsigned long'', ''u64''} then Some (False, 8)
      else None)"

text \<open>The constructor each arm uses: one byte unsigned is a \<open>Count\<close> in every arm of the code.\<close>

definition metric_ctor :: "string \<Rightarrow> bool \<Rightarrow> nat \<Rightarrow> (u64 \<Rightarrow> metric_value) option" where
  "metric_ctor metric_type sg sz =
     (if metric_type = ''count'' then Some Count
      else if metric_type = ''duration'' then Some (if \<not> sg \<and> sz = 1 then Count else Duration)
      else if metric_type = ''bytes'' then Some (if \<not> sg \<and> sz = 1 then Count else Bytes)
      else None)"

definition metric_value_of :: "(u64 \<Rightarrow> metric_value) \<Rightarrow> bool \<Rightarrow> nat \<Rightarrow> byte list \<Rightarrow> metric_value option" where
  "metric_value_of ctor sg sz data = do {
     bs \<leftarrow> subslice data 0 sz;
     let i = int_of_bytes sg bs;
     Ret (if \<not> sg \<or> 0 < i then ctor (of_int i) else ctor 0)
   }"

definition try_get_value_closure :: "string \<Rightarrow> string \<Rightarrow> (byte list \<Rightarrow> metric_value option) option" where
  "try_get_value_closure metric_type data_type =
     (case metric_data_type data_type of
        None \<Rightarrow> None
      | Some (sg, sz) \<Rightarrow>
          (case metric_ctor metric_type sg sz of
             None \<Rightarrow> None
           | Some ctor \<Rightarrow> Some (metric_value_of ctor sg sz)))"

section \<open>Samples\<close>

record export_sample =
  smp_time :: u64
  smp_value :: metric_value
  smp_cpu :: u16
  smp_kind :: u16
  smp_tid :: u32
  smp_ip :: u64
  smp_callstack_id :: u32
  smp_record_id :: u32
  smp_attributes_id :: u32

definition sample_new :: "u64 \<Rightarrow> metric_value \<Rightarrow> u16 \<Rightarrow> u16 \<Rightarrow> u32 \<Rightarrow> u64 \<Rightarrow> nat \<Rightarrow> export_sample" where
  "sample_new time val cpu kind tid ip callstack_id =
     \<lparr>smp_time = time, smp_value = val, smp_cpu = cpu, smp_kind = kind, smp_tid = tid, smp_ip = ip,
      smp_callstack_id = of_nat callstack_id, smp_record_id = 0, smp_attributes_id = 0\<rparr>"

definition has_record :: "export_sample \<Rightarrow> bool" where
  "has_record s \<longleftrightarrow> smp_record_id s \<noteq> 0"

definition attach_record :: "nat \<Rightarrow> export_sample \<Rightarrow> export_sample" where
  "attach_record record_id s = s\<lparr>smp_record_id := of_nat record_id\<rparr>"

definition has_attributes :: "export_sample \<Rightarrow> bool" where
  "has_attributes s \<longleftrightarrow> smp_attributes_id s \<noteq> 0"

definition attach_attributes :: "nat \<Rightarrow> export_sample \<Rightarrow> export_sample" where
  "attach_attributes attributes_id s = s\<lparr>smp_attributes_id := of_nat attributes_id\<rparr>"

section \<open>The page map of dynamic symbols\<close>

record symbol_page_map =
  pm_pages :: "u64 set"
  pm_page_size :: u64
  pm_page_mask :: u64

text \<open>\<open>next_power_of_two\<close> panics when there is none in 64 bits.\<close>

definition page_map_new :: "u64 \<Rightarrow> symbol_page_map option" where
  "page_map_new page_size =
     (if next_power_of_two (unat page_size) < 2 ^ 64
      then Ret \<lparr>pm_pages = {}, pm_page_size = page_size,
                pm_page_mask = NOT (of_nat (next_power_of_two (unat page_size)) - 1)\<rparr>
      else Panic)"

definition mark_ip :: "u64 \<Rightarrow> symbol_page_map \<Rightarrow> symbol_page_map" where
  "mark_ip ip pm = pm\<lparr>pm_pages := insert (ip AND pm_page_mask pm) (pm_pages pm)\<rparr>"

text \<open>The loop has no result when the next page overflows (and when the page size is zero, for
  which it does not end).\<close>

partial_function (option) seen_from :: "symbol_page_map \<Rightarrow> u64 \<Rightarrow> u64 \<Rightarrow> bool option" where
  "seen_from pm page end_page =
     (if page \<le> end_page then
        (if page \<in> pm_pages pm then Ret True
         else (case add64 page (pm_page_size pm) of None \<Rightarrow> Panic | Some next \<Rightarrow> seen_from pm next end_page))
      else Ret False)"

definition seen_range :: "symbol_page_map \<Rightarrow> u64 \<Rightarrow> u64 \<Rightarrow> bool option" where
  "seen_range pm start stop = seen_from pm (start AND pm_page_mask pm) (stop AND pm_page_mask pm)"

record dynamic_symbol =
  ds_time :: u64
  ds_pid :: u32
  ds_start :: u64
  ds_end :: u64
  ds_name :: "byte list"
  ds_flags :: byte

definition SYM_FLAG_MUST_MATCH :: byte where "SYM_FLAG_MUST_MATCH = push_bit 0 1"

definition ds_set_flag :: "byte \<Rightarrow> dynamic_symbol \<Rightarrow> dynamic_symbol" where
  "ds_set_flag flag s = s\<lparr>ds_flags := ds_flags s OR flag\<rparr>"

definition ds_has_flag :: "dynamic_symbol \<Rightarrow> byte \<Rightarrow> bool" where
  "ds_has_flag s flag \<longleftrightarrow> ds_flags s AND flag = flag"

record time_symbol =
  ts_time :: u64
  ts_symbol :: export_symbol

section \<open>Processes\<close>

record 'o export_process =
  ep_pid :: u32
  ep_comm_id :: "nat option"
  ep_ns_pid :: "u32 option"
  ep_os :: 'o
  ep_samples :: "export_sample list"
  ep_mappings :: export_mapping_lookup
  ep_anon_maps :: bool
  ep_create_time :: "u64 option"
  ep_exit_time :: "u64 option"
  ep_dyn_symbols :: "time_symbol list"
  ep_page_map :: "symbol_page_map option"

definition process_new :: "'o \<Rightarrow> u32 \<Rightarrow> 'o export_process" where
  "process_new os pid = \<lparr>ep_pid = pid, ep_comm_id = None, ep_ns_pid = None, ep_os = os,
     ep_samples = [], ep_mappings = eml_default, ep_anon_maps = False, ep_create_time = None,
     ep_exit_time = None, ep_dyn_symbols = [], ep_page_map = None\<rparr>"

definition process_find_mapping ::
  "set_iter \<Rightarrow> 'o export_process \<Rightarrow> u64 \<Rightarrow> u64 option \<Rightarrow> (export_mapping option \<times> 'o export_process) option" where
  "process_find_mapping it p ip time = do {
     (m, maps) \<leftarrow> find_mapping it (ep_mappings p) ip time;
     Ret (m, p\<lparr>ep_mappings := maps\<rparr>)
   }"

definition add_mapping :: "export_mapping \<Rightarrow> 'o export_process \<Rightarrow> 'o export_process" where
  "add_mapping m p =
     p\<lparr>ep_anon_maps := ep_anon_maps p \<or> map_anon m,
       ep_mappings := mappings_mut (ep_mappings p) (\<lambda>ms. ms @ [m])\<rparr>"

definition add_sample :: "export_sample \<Rightarrow> 'o export_process \<Rightarrow> 'o export_process" where
  "add_sample s p = p\<lparr>ep_samples := ep_samples p @ [s], ep_page_map := None\<rparr>"

definition add_dynamic_symbol :: "time_symbol \<Rightarrow> 'o export_process \<Rightarrow> 'o export_process" where
  "add_dynamic_symbol s p = p\<lparr>ep_dyn_symbols := ep_dyn_symbols p @ [s]\<rparr>"

definition set_comm_id :: "nat \<Rightarrow> 'o export_process \<Rightarrow> 'o export_process" where
  "set_comm_id c p = p\<lparr>ep_comm_id := Some c\<rparr>"

definition set_create_time_qpc :: "u64 \<Rightarrow> 'o export_process \<Rightarrow> 'o export_process" where
  "set_create_time_qpc t p = p\<lparr>ep_create_time := Some t\<rparr>"

definition set_exit_time_qpc :: "u64 \<Rightarrow> 'o export_process \<Rightarrow> 'o export_process" where
  "set_exit_time_qpc t p = p\<lparr>ep_exit_time := Some t\<rparr>"

definition sort_samples_by_time :: "'o export_process \<Rightarrow> 'o export_process" where
  "sort_samples_by_time p = p\<lparr>ep_samples := sort_key smp_time (ep_samples p)\<rparr>"

definition process_sort_mappings :: "'o export_process \<Rightarrow> 'o export_process" where
  "process_sort_mappings p = p\<lparr>ep_mappings := sort_mappings_by_time (ep_mappings p)\<rparr>"

definition process_mappings :: "'o export_process \<Rightarrow> export_mapping list" where
  "process_mappings p = eml_mappings (ep_mappings p)"

definition process_fork :: "'o \<Rightarrow> 'o export_process \<Rightarrow> u32 \<Rightarrow> 'o export_process" where
  "process_fork os p pid =
     (process_new os pid)\<lparr>ep_comm_id := ep_comm_id p, ep_mappings := eml_clone (ep_mappings p),
       ep_os := ep_os p\<rparr>"

section \<open>Addresses a process was seen at\<close>

text \<open>One frame of the loop over a sample's frames, with the optional mapping.\<close>

definition user_ip :: "export_mapping option \<Rightarrow> u64 \<Rightarrow> bool" where
  "user_ip mapping ip \<longleftrightarrow> ip < KERNEL_START \<and>
     (case mapping of Some m \<Rightarrow> contains_ip m ip | None \<Rightarrow> True)"

fun add_user_frames :: "export_mapping option \<Rightarrow> u64 list \<Rightarrow> u64 set \<Rightarrow> u64 set" where
  "add_user_frames mapping [] addrs = addrs"
| "add_user_frames mapping (frame # frames) addrs =
     add_user_frames mapping frames (if user_ip mapping frame then insert frame addrs else addrs)"

fun add_user_samples ::
  "interned_callstacks \<Rightarrow> export_mapping option \<Rightarrow> export_sample list \<Rightarrow> u64 set \<Rightarrow> u64 list \<Rightarrow>
   (u64 set \<times> u64 list) option" where
  "add_user_samples cs mapping [] addrs frames = Ret (addrs, frames)"
| "add_user_samples cs mapping (s # ss) addrs frames = do {
     let addrs = (if user_ip mapping (smp_ip s) then insert (smp_ip s) addrs else addrs);
     (r, frames) \<leftarrow> callstacks_from_id cs (unat (smp_callstack_id s)) frames;
     let addrs = (case r of Inr _ \<Rightarrow> add_user_frames mapping frames addrs | Inl _ \<Rightarrow> addrs);
     add_user_samples cs mapping ss addrs frames
   }"

definition get_unique_user_ips ::
  "export_sample list \<Rightarrow> interned_callstacks \<Rightarrow> export_mapping option \<Rightarrow> (u64 set \<times> u64 list) option" where
  "get_unique_user_ips samples cs mapping = add_user_samples cs mapping samples {} []"

fun add_kernel_frames :: "u64 list \<Rightarrow> u64 set \<Rightarrow> u64 set" where
  "add_kernel_frames [] addrs = addrs"
| "add_kernel_frames (frame # frames) addrs =
     (if frame < KERNEL_START then addrs else add_kernel_frames frames (insert frame addrs))"

fun add_kernel_samples ::
  "interned_callstacks \<Rightarrow> export_sample list \<Rightarrow> u64 set \<Rightarrow> u64 list \<Rightarrow> (u64 set \<times> u64 list) option" where
  "add_kernel_samples cs [] addrs frames = Ret (addrs, frames)"
| "add_kernel_samples cs (s # ss) addrs frames =
     (if smp_ip s < KERNEL_START then add_kernel_samples cs ss addrs frames
      else do {
        let addrs = insert (smp_ip s) addrs;
        (r, frames) \<leftarrow> callstacks_from_id cs (unat (smp_callstack_id s)) frames;
        let addrs = (case r of Inr _ \<Rightarrow> add_kernel_frames frames addrs | Inl _ \<Rightarrow> addrs);
        add_kernel_samples cs ss addrs frames
      })"

definition get_unique_kernel_ips ::
  "'o export_process \<Rightarrow> interned_callstacks \<Rightarrow> (u64 set \<times> u64 list) option" where
  "get_unique_kernel_ips p cs = add_kernel_samples cs (ep_samples p) {} []"

text \<open>The page map marks each address once; the order does not matter to a set of pages.\<close>

definition build_page_map :: "'o export_process \<Rightarrow> interned_callstacks \<Rightarrow> symbol_page_map option" where
  "build_page_map p cs = do {
     pm \<leftarrow> page_map_new 256;
     (addrs, _) \<leftarrow> get_unique_user_ips (ep_samples p) cs None;
     Ret (pm\<lparr>pm_pages := (\<lambda>ip. ip AND pm_page_mask pm) ` addrs\<rparr>)
   }"

definition needs_dynamic_symbol ::
  "'o export_process \<Rightarrow> dynamic_symbol \<Rightarrow> interned_callstacks \<Rightarrow> (bool \<times> 'o export_process) option" where
  "needs_dynamic_symbol p symb cs =
     (if ds_has_flag symb SYM_FLAG_MUST_MATCH then do {
        pm \<leftarrow> (case ep_page_map p of Some pm \<Rightarrow> Ret pm | None \<Rightarrow> build_page_map p cs);
        seen \<leftarrow> seen_range pm (ds_start symb) (ds_end symb);
        Ret (seen, p\<lparr>ep_page_map := Some pm\<rparr>)
      } else Ret (True, p))"

section \<open>Replay\<close>

text \<open>The replay holds a reference to the process; the two flag bits are two booleans.\<close>

record replay =
  rp_time :: u64
  rp_sample_index :: nat
  rp_mapping_index :: nat
  rp_created :: bool
  rp_exited :: bool

definition nth_opt :: "'a list \<Rightarrow> nat \<Rightarrow> 'a option" where
  "nth_opt xs i = (if i < length xs then Some (xs ! i) else None)"

definition created_event :: "'o export_process \<Rightarrow> replay \<Rightarrow> bool" where
  "created_event p r \<longleftrightarrow> ep_create_time p = Some (rp_time r)"

definition exited_event :: "'o export_process \<Rightarrow> replay \<Rightarrow> bool" where
  "exited_event p r \<longleftrightarrow> ep_exit_time p = Some (rp_time r)"

definition try_get_sample :: "'o export_process \<Rightarrow> replay \<Rightarrow> export_sample option" where
  "try_get_sample p r = nth_opt (ep_samples p) (rp_sample_index r)"

definition try_get_mapping :: "'o export_process \<Rightarrow> replay \<Rightarrow> export_mapping option" where
  "try_get_mapping p r = nth_opt (process_mappings p) (rp_mapping_index r)"

definition sample_event :: "'o export_process \<Rightarrow> replay \<Rightarrow> export_sample option" where
  "sample_event p r = (case try_get_sample p r of
     Some s \<Rightarrow> if smp_time s = rp_time r then Some s else None | None \<Rightarrow> None)"

definition mapping_event :: "'o export_process \<Rightarrow> replay \<Rightarrow> export_mapping option" where
  "mapping_event p r = (case try_get_mapping p r of
     Some m \<Rightarrow> if map_time m = rp_time r then Some m else None | None \<Rightarrow> None)"

definition replay_done :: "replay \<Rightarrow> bool" where
  "replay_done r \<longleftrightarrow> rp_time r = - 1"

definition earlier :: "u64 option \<Rightarrow> u64 \<Rightarrow> u64" where
  "earlier t current = (case t of Some t \<Rightarrow> if t < current then t else current | None \<Rightarrow> current)"

definition replay_advance :: "'o export_process \<Rightarrow> replay \<Rightarrow> replay" where
  "replay_advance p r =
     (let r1 = (if sample_event p r \<noteq> None then r\<lparr>rp_sample_index := rp_sample_index r + 1\<rparr> else r);
          r2 = (if mapping_event p r1 \<noteq> None then r1\<lparr>rp_mapping_index := rp_mapping_index r1 + 1\<rparr> else r1);
          t0 = - 1;
          t1 = earlier (map_option smp_time (try_get_sample p r2)) t0;
          t2 = earlier (map_option map_time (try_get_mapping p r2)) t1;
          t3 = (if rp_created r2 then t2 else earlier (ep_create_time p) t2);
          c3 = (rp_created r2 \<or> ep_create_time p = None);
          t4 = (if rp_exited r2 then t3 else earlier (ep_exit_time p) t3);
          e4 = (rp_exited r2 \<or> ep_exit_time p = None);
          r3 = r2\<lparr>rp_time := t4, rp_created := c3, rp_exited := e4\<rparr>;
          r4 = (if created_event p r3 then r3\<lparr>rp_created := True\<rparr> else r3)
      in if exited_event p r4 then r4\<lparr>rp_exited := True\<rparr> else r4)"

definition replay_new :: "'o export_process \<Rightarrow> replay" where
  "replay_new p = replay_advance p
     \<lparr>rp_time = - 1, rp_sample_index = 0, rp_mapping_index = 0, rp_created = False, rp_exited = False\<rparr>"

text \<open>The events of a replay until it is done, at most \<open>n\<close>; the code drives it from
  \<open>replay_by_time\<close>.\<close>

record replay_event =
  re_time :: u64
  re_sample :: "export_sample option"
  re_mapping :: "export_mapping option"
  re_created :: bool
  re_exited :: bool

definition event_at :: "'o export_process \<Rightarrow> replay \<Rightarrow> replay_event" where
  "event_at p r = \<lparr>re_time = rp_time r, re_sample = sample_event p r, re_mapping = mapping_event p r,
     re_created = created_event p r, re_exited = exited_event p r\<rparr>"

fun replay_run :: "nat \<Rightarrow> 'o export_process \<Rightarrow> replay \<Rightarrow> replay_event list" where
  "replay_run 0 p r = []"
| "replay_run (Suc n) p r = (if replay_done r then [] else event_at p r # replay_run n p (replay_advance p r))"

section \<open>One step of a replay\<close>

lemma earlier_le:
  "earlier t c \<le> c" "t = Some x \<Longrightarrow> earlier t c \<le> x"
  by (auto simp: earlier_def split: option.split)

lemma earlier_cases: "earlier t c = c \<or> t = Some (earlier t c)"
  by (auto simp: earlier_def split: option.split)

lemma sample_event_cong:
  "rp_time r' = rp_time r \<Longrightarrow> rp_sample_index r' = rp_sample_index r \<Longrightarrow> sample_event p r' = sample_event p r"
  "rp_time r' = rp_time r \<Longrightarrow> rp_mapping_index r' = rp_mapping_index r \<Longrightarrow> mapping_event p r' = mapping_event p r"
  by (simp_all add: sample_event_def mapping_event_def try_get_sample_def try_get_mapping_def
      split: option.split)

lemma replay_advance_index:
  "rp_sample_index (replay_advance p r) = rp_sample_index r + (if sample_event p r = None then 0 else 1)"
  "rp_mapping_index (replay_advance p r) = rp_mapping_index r + (if mapping_event p r = None then 0 else 1)"
proof -
  have "mapping_event p (r\<lparr>rp_sample_index := i\<rparr>) = mapping_event p r" for i
    by (rule sample_event_cong) simp_all
  then show "rp_sample_index (replay_advance p r) = rp_sample_index r + (if sample_event p r = None then 0 else 1)"
    "rp_mapping_index (replay_advance p r) = rp_mapping_index r + (if mapping_event p r = None then 0 else 1)"
    by (simp_all add: replay_advance_def Let_def)
qed

text \<open>The new time and flags from the indices the step leaves.\<close>

definition time_of :: "'o export_process \<Rightarrow> replay \<Rightarrow> replay \<Rightarrow> u64" where
  "time_of p r r' =
     (let t1 = earlier (map_option smp_time (try_get_sample p r')) (- 1);
          t2 = earlier (map_option map_time (try_get_mapping p r')) t1;
          t3 = (if rp_created r then t2 else earlier (ep_create_time p) t2)
      in if rp_exited r then t3 else earlier (ep_exit_time p) t3)"

lemma replay_advance_time:
  "rp_time (replay_advance p r) = time_of p r (replay_advance p r)"
  "rp_created (replay_advance p r) \<longleftrightarrow> rp_created r \<or> ep_create_time p = None \<or>
     ep_create_time p = Some (rp_time (replay_advance p r))"
  "rp_exited (replay_advance p r) \<longleftrightarrow> rp_exited r \<or> ep_exit_time p = None \<or>
     ep_exit_time p = Some (rp_time (replay_advance p r))"
proof -
  define r1 where "r1 = (if sample_event p r \<noteq> None then r\<lparr>rp_sample_index := rp_sample_index r + 1\<rparr> else r)"
  define r2 where "r2 = (if mapping_event p r1 \<noteq> None then r1\<lparr>rp_mapping_index := rp_mapping_index r1 + 1\<rparr> else r1)"
  have keep: "rp_created r2 = rp_created r" "rp_exited r2 = rp_exited r"
    by (simp_all add: r1_def r2_def)
  define t where "t = time_of p r r2"
  define r3 where "r3 = r2\<lparr>rp_time := t, rp_created := rp_created r \<or> ep_create_time p = None,
    rp_exited := rp_exited r \<or> ep_exit_time p = None\<rparr>"
  define r4 where "r4 = (if created_event p r3 then r3\<lparr>rp_created := True\<rparr> else r3)"
  have adv: "replay_advance p r = (if exited_event p r4 then r4\<lparr>rp_exited := True\<rparr> else r4)"
    unfolding replay_advance_def Let_def r1_def [symmetric] r2_def [symmetric]
    by (simp add: t_def time_of_def r3_def r4_def keep Let_def)
  have same: "try_get_sample p (replay_advance p r) = try_get_sample p r2"
    "try_get_mapping p (replay_advance p r) = try_get_mapping p r2" "rp_time (replay_advance p r) = t"
    by (simp_all add: adv r4_def r3_def try_get_sample_def try_get_mapping_def)
  then show "rp_time (replay_advance p r) = time_of p r (replay_advance p r)"
    by (simp add: t_def time_of_def)
  show "rp_created (replay_advance p r) \<longleftrightarrow> rp_created r \<or> ep_create_time p = None \<or>
     ep_create_time p = Some (rp_time (replay_advance p r))"
    "rp_exited (replay_advance p r) \<longleftrightarrow> rp_exited r \<or> ep_exit_time p = None \<or>
     ep_exit_time p = Some (rp_time (replay_advance p r))"
    unfolding same(3) by (auto simp: adv r4_def r3_def created_event_def exited_event_def)
qed

lemma time_of_le:
  "try_get_sample p r' = Some s \<Longrightarrow> time_of p r r' \<le> smp_time s"
  "try_get_mapping p r' = Some m \<Longrightarrow> time_of p r r' \<le> map_time m"
  "\<not> rp_created r \<Longrightarrow> ep_create_time p = Some t \<Longrightarrow> time_of p r r' \<le> t"
  "\<not> rp_exited r \<Longrightarrow> ep_exit_time p = Some t' \<Longrightarrow> time_of p r r' \<le> t'"
proof -
  define t1 where "t1 = earlier (map_option smp_time (try_get_sample p r')) (- 1)"
  define t2 where "t2 = earlier (map_option map_time (try_get_mapping p r')) t1"
  define t3 where "t3 = (if rp_created r then t2 else earlier (ep_create_time p) t2)"
  have t: "time_of p r r' = (if rp_exited r then t3 else earlier (ep_exit_time p) t3)"
    by (simp add: time_of_def t1_def t2_def t3_def)
  then have "time_of p r r' \<le> t3" "t3 \<le> t2" "t2 \<le> t1"
    by (simp_all add: t3_def t2_def earlier_le)
  note chain = order_trans [OF this(1) order_trans [OF this(2,3)]] order_trans [OF this(1,2)] this(1)
  show "try_get_sample p r' = Some s \<Longrightarrow> time_of p r r' \<le> smp_time s"
    by (rule order_trans [OF chain(1)]) (simp add: t1_def earlier_le(2))
  show "try_get_mapping p r' = Some m \<Longrightarrow> time_of p r r' \<le> map_time m"
    by (rule order_trans [OF chain(2)]) (simp add: t2_def earlier_le(2))
  show "\<not> rp_created r \<Longrightarrow> ep_create_time p = Some t \<Longrightarrow> time_of p r r' \<le> t"
    by (rule order_trans [OF chain(3)]) (simp add: t3_def earlier_le(2))
  show "\<not> rp_exited r \<Longrightarrow> ep_exit_time p = Some t' \<Longrightarrow> time_of p r r' \<le> t'"
    by (simp add: t earlier_le(2))
qed

lemma time_of_cases:
  "time_of p r r' = - 1 \<or> (\<exists>s. try_get_sample p r' = Some s \<and> smp_time s = time_of p r r') \<or>
   (\<exists>m. try_get_mapping p r' = Some m \<and> map_time m = time_of p r r') \<or>
   (\<not> rp_created r \<and> ep_create_time p = Some (time_of p r r')) \<or>
   (\<not> rp_exited r \<and> ep_exit_time p = Some (time_of p r r'))"
proof -
  define t1 where "t1 = earlier (map_option smp_time (try_get_sample p r')) (- 1)"
  define t2 where "t2 = earlier (map_option map_time (try_get_mapping p r')) t1"
  define t3 where "t3 = (if rp_created r then t2 else earlier (ep_create_time p) t2)"
  have "time_of p r r' = (if rp_exited r then t3 else earlier (ep_exit_time p) t3)"
    by (simp add: time_of_def t1_def t2_def t3_def)
  then have "time_of p r r' = t3 \<or> (\<not> rp_exited r \<and> ep_exit_time p = Some (time_of p r r'))"
    using earlier_cases [of "ep_exit_time p" t3] by auto
  moreover have "t3 = t2 \<or> (\<not> rp_created r \<and> ep_create_time p = Some t3)"
    using earlier_cases [of "ep_create_time p" t2] by (auto simp: t3_def)
  moreover have "t2 = t1 \<or> (\<exists>m. try_get_mapping p r' = Some m \<and> map_time m = t2)"
    using earlier_cases [of "map_option map_time (try_get_mapping p r')" t1] by (auto simp: t2_def)
  moreover have "t1 = - 1 \<or> (\<exists>s. try_get_sample p r' = Some s \<and> smp_time s = t1)"
    using earlier_cases [of "map_option smp_time (try_get_sample p r')" "- 1"] by (auto simp: t1_def)
  ultimately show ?thesis by metis
qed

text \<open>What holds between two steps: everything not yet reported is not before the current time,
  and unless the replay is done something is reported now.\<close>

definition replay_sorted :: "'o export_process \<Rightarrow> bool" where
  "replay_sorted p \<longleftrightarrow> sorted (map smp_time (ep_samples p)) \<and> sorted (map map_time (process_mappings p)) \<and>
     (\<forall>s \<in> set (ep_samples p). smp_time s \<noteq> - 1) \<and> (\<forall>m \<in> set (process_mappings p). map_time m \<noteq> - 1)"

definition replay_inv :: "'o export_process \<Rightarrow> replay \<Rightarrow> bool" where
  "replay_inv p r \<longleftrightarrow>
     rp_sample_index r \<le> length (ep_samples p) \<and> rp_mapping_index r \<le> length (process_mappings p) \<and>
     (\<forall>s \<in> set (drop (rp_sample_index r) (ep_samples p)). rp_time r \<le> smp_time s) \<and>
     (\<forall>m \<in> set (drop (rp_mapping_index r) (process_mappings p)). rp_time r \<le> map_time m) \<and>
     (\<forall>t. \<not> rp_created r \<longrightarrow> ep_create_time p = Some t \<longrightarrow> rp_time r < t) \<and>
     (\<forall>t. \<not> rp_exited r \<longrightarrow> ep_exit_time p = Some t \<longrightarrow> rp_time r < t) \<and>
     (replay_done r \<or> sample_event p r \<noteq> None \<or> mapping_event p r \<noteq> None \<or> created_event p r \<or> exited_event p r)"

lemma nth_opt_drop: "nth_opt xs i = Some x \<Longrightarrow> i < length xs \<and> xs ! i = x \<and> drop i xs = x # drop (Suc i) xs"
  by (auto simp: nth_opt_def Cons_nth_drop_Suc split: if_splits)

lemma nth_opt_in_drop:
  assumes "nth_opt xs j = Some x" "i \<le> j"
  shows "x \<in> set (drop i xs)"
proof -
  have j: "j < length xs" "x = xs ! j" using assms(1) by (auto simp: nth_opt_def split: if_splits)
  then have "x = drop i xs ! (j - i)" "j - i < length (drop i xs)" using assms(2) by auto
  then show ?thesis by (metis nth_mem)
qed

lemma sorted_head_le:
  fixes f :: "'a \<Rightarrow> 'b::linorder"
  assumes "sorted (map f xs)" "\<And>x. nth_opt xs i = Some x \<Longrightarrow> t \<le> f x" "y \<in> set (drop i xs)"
  shows "t \<le> f y"
proof -
  from assms(3) have i: "i < length xs" by (cases "i < length xs") simp_all
  then have h: "nth_opt xs i = Some (xs ! i)" "drop i xs = xs ! i # drop (Suc i) xs"
    by (simp_all add: nth_opt_def Cons_nth_drop_Suc)
  have "sorted (map f (drop i xs))" using assms(1) by (simp add: sorted_wrt_drop drop_map [symmetric])
  then have "f (xs ! i) \<le> f y" using assms(3) unfolding h(2) by auto
  with assms(2) [OF h(1)] show ?thesis by (rule order_trans)
qed

lemma index_after:
  assumes "replay_inv p r"
  shows "rp_sample_index (replay_advance p r) \<le> length (ep_samples p)"
    "rp_mapping_index (replay_advance p r) \<le> length (process_mappings p)"
  using assms
  by (auto simp: replay_advance_index replay_inv_def sample_event_def mapping_event_def
      try_get_sample_def try_get_mapping_def nth_opt_def split: option.splits if_splits)

lemma replay_inv_of_advance:
  assumes sorted: "replay_sorted p"
    and ix: "rp_sample_index (replay_advance p r) \<le> length (ep_samples p)"
    "rp_mapping_index (replay_advance p r) \<le> length (process_mappings p)"
  shows "replay_inv p (replay_advance p r)"
proof -
  let ?r = "replay_advance p r"
  note t = replay_advance_time(1) [of p r]
  have "rp_time ?r \<le> smp_time s" if "s \<in> set (drop (rp_sample_index ?r) (ep_samples p))" for s
    using sorted time_of_le(1) [of p ?r _ r] that unfolding t replay_sorted_def try_get_sample_def
    by (blast intro: sorted_head_le)
  moreover have "rp_time ?r \<le> map_time m" if "m \<in> set (drop (rp_mapping_index ?r) (process_mappings p))" for m
    using sorted time_of_le(2) [of p ?r _ r] that unfolding t replay_sorted_def try_get_mapping_def
    by (blast intro: sorted_head_le)
  moreover have "rp_time ?r < c" if "\<not> rp_created ?r" "ep_create_time p = Some c" for c
    using that replay_advance_time(2) [of p r] time_of_le(3) [of r p c ?r] unfolding t [symmetric]
    by (auto simp: le_less)
  moreover have "rp_time ?r < c" if "\<not> rp_exited ?r" "ep_exit_time p = Some c" for c
    using that replay_advance_time(3) [of p r] time_of_le(4) [of r p c ?r] unfolding t [symmetric]
    by (auto simp: le_less)
  moreover have "replay_done ?r \<or> sample_event p ?r \<noteq> None \<or> mapping_event p ?r \<noteq> None \<or> created_event p ?r \<or> exited_event p ?r"
    using time_of_cases [of p r ?r] unfolding t [symmetric]
    by (auto simp: replay_done_def sample_event_def mapping_event_def created_event_def exited_event_def)
  ultimately show ?thesis using ix by (simp add: replay_inv_def)
qed

lemma replay_time_mono:
  assumes "replay_inv p r"
  shows "rp_time r \<le> rp_time (replay_advance p r)"
proof -
  let ?r = "replay_advance p r"
  have s: "rp_time r \<le> smp_time x" if "try_get_sample p ?r = Some x" for x
  proof -
    have "x \<in> set (drop (rp_sample_index r) (ep_samples p))"
      using that unfolding try_get_sample_def by (rule nth_opt_in_drop) (simp add: replay_advance_index)
    then show ?thesis using assms by (simp add: replay_inv_def)
  qed
  have m: "rp_time r \<le> map_time x" if "try_get_mapping p ?r = Some x" for x
  proof -
    have "x \<in> set (drop (rp_mapping_index r) (process_mappings p))"
      using that unfolding try_get_mapping_def by (rule nth_opt_in_drop) (simp add: replay_advance_index)
    then show ?thesis using assms by (simp add: replay_inv_def)
  qed
  have c: "\<not> rp_created r \<Longrightarrow> ep_create_time p = Some t \<Longrightarrow> rp_time r \<le> t"
    and e: "\<not> rp_exited r \<Longrightarrow> ep_exit_time p = Some t \<Longrightarrow> rp_time r \<le> t" for t
    using assms by (simp_all add: replay_inv_def less_imp_le)
  consider "rp_time ?r = - 1" | x where "try_get_sample p ?r = Some x" "smp_time x = rp_time ?r"
    | x where "try_get_mapping p ?r = Some x" "map_time x = rp_time ?r"
    | "\<not> rp_created r" "ep_create_time p = Some (rp_time ?r)"
    | "\<not> rp_exited r" "ep_exit_time p = Some (rp_time ?r)"
    using time_of_cases [of p r ?r] unfolding replay_advance_time(1) [symmetric] by metis
  then show ?thesis
  proof cases
    case 1
    then show ?thesis by (simp only: word_order.extremum)
  next
    case 2
    then show ?thesis using s by metis
  next
    case 3
    then show ?thesis using m by metis
  qed (fact c e)+
qed

section \<open>The whole replay of a process\<close>

definition samples_of :: "replay_event list \<Rightarrow> export_sample list" where
  "samples_of evs = List.map_filter re_sample evs"

definition mappings_of :: "replay_event list \<Rightarrow> export_mapping list" where
  "mappings_of evs = List.map_filter re_mapping evs"

lemma events_of_simps [simp]:
  "samples_of [] = []" "mappings_of [] = []"
  "samples_of (e # evs) = (case re_sample e of Some s \<Rightarrow> s # samples_of evs | None \<Rightarrow> samples_of evs)"
  "mappings_of (e # evs) = (case re_mapping e of Some m \<Rightarrow> m # mappings_of evs | None \<Rightarrow> mappings_of evs)"
  by (simp_all add: samples_of_def mappings_of_def List.map_filter_def split: option.split)

text \<open>How many steps may remain: a step reports a sample or a mapping, or it follows one whose
  only news was a creation or an exit.\<close>

definition replay_measure :: "'o export_process \<Rightarrow> replay \<Rightarrow> nat" where
  "replay_measure p r =
     2 * ((length (ep_samples p) - rp_sample_index r) + (length (process_mappings p) - rp_mapping_index r) +
          (if rp_created r then 0 else 1) + (if rp_exited r then 0 else 1)) +
     (if sample_event p r = None \<and> mapping_event p r = None \<and> \<not> replay_done r then 1 else 0)"

lemma replay_measure_less:
  assumes inv: "replay_inv p r" and nd: "\<not> replay_done r"
  shows "replay_measure p (replay_advance p r) < replay_measure p r \<or>
    replay_done (replay_advance p r) \<and> replay_measure p (replay_advance p r) \<le> replay_measure p r"
proof -
  let ?r = "replay_advance p r"
  have s: "sample_event p r \<noteq> None \<Longrightarrow> rp_sample_index r < length (ep_samples p)"
    by (auto simp: sample_event_def try_get_sample_def nth_opt_def split: option.splits if_splits)
  have m: "mapping_event p r \<noteq> None \<Longrightarrow> rp_mapping_index r < length (process_mappings p)"
    by (auto simp: mapping_event_def try_get_mapping_def nth_opt_def split: option.splits if_splits)
  have c: "(if rp_created ?r then 0 else 1 :: nat) \<le> (if rp_created r then 0 else 1)"
    "(if rp_exited ?r then 0 else 1 :: nat) \<le> (if rp_exited r then 0 else 1)"
    by (simp_all add: replay_advance_time)
  show ?thesis
  proof (cases "sample_event p r = None \<and> mapping_event p r = None")
    case False
    then have "(length (ep_samples p) - rp_sample_index ?r) + (length (process_mappings p) - rp_mapping_index ?r) <
        (length (ep_samples p) - rp_sample_index r) + (length (process_mappings p) - rp_mapping_index r)"
      using s m by (auto simp: replay_advance_index)
    then have "replay_measure p ?r < replay_measure p r"
      using c by (simp add: replay_measure_def split del: if_split) (auto split: if_splits)
    then show ?thesis by blast
  next
    case True
    then have ix: "rp_sample_index ?r = rp_sample_index r" "rp_mapping_index ?r = rp_mapping_index r"
      by (simp_all add: replay_advance_index)
    consider "replay_done ?r" | "sample_event p ?r \<noteq> None \<or> mapping_event p ?r \<noteq> None"
      | "\<not> rp_created r" "rp_created ?r" | "\<not> rp_exited r" "rp_exited ?r"
      using time_of_cases [of p r ?r] unfolding replay_advance_time(1) [symmetric]
      by (auto simp: replay_done_def sample_event_def mapping_event_def replay_advance_time(2,3))
    then show ?thesis
      using True nd c ix by cases (auto simp: replay_measure_def split: if_splits)
  qed
qed

lemma drop_event:
  "replay_inv p r \<Longrightarrow> drop (rp_sample_index r) (ep_samples p) =
     (case sample_event p r of Some s \<Rightarrow> [s] | None \<Rightarrow> []) @ drop (rp_sample_index (replay_advance p r)) (ep_samples p)"
  "replay_inv p r \<Longrightarrow> drop (rp_mapping_index r) (process_mappings p) =
     (case mapping_event p r of Some s \<Rightarrow> [s] | None \<Rightarrow> []) @ drop (rp_mapping_index (replay_advance p r)) (process_mappings p)"
  by (auto simp: replay_advance_index sample_event_def mapping_event_def try_get_sample_def
      try_get_mapping_def dest: nth_opt_drop split: option.splits if_splits)

lemma done_rest:
  assumes "replay_sorted p" "replay_inv p r" "replay_done r"
  shows "drop (rp_sample_index r) (ep_samples p) = []" "drop (rp_mapping_index r) (process_mappings p) = []"
    "\<not> rp_created r \<Longrightarrow> ep_create_time p = None" "\<not> rp_exited r \<Longrightarrow> ep_exit_time p = None"
proof -
  have max: "t = - 1" if "rp_time r \<le> t" for t
    using that assms(3) word_order.extremum_unique [of t] by (simp add: replay_done_def)
  have "s = - 1 \<Longrightarrow> False" if "s = smp_time x" "x \<in> set (drop (rp_sample_index r) (ep_samples p))" for s x
    using that assms(1) by (auto simp: replay_sorted_def dest: in_set_dropD)
  then show "drop (rp_sample_index r) (ep_samples p) = []"
    using assms(2) max by (metis list.set_sel(1) replay_inv_def)
  have "s = - 1 \<Longrightarrow> False" if "s = map_time x" "x \<in> set (drop (rp_mapping_index r) (process_mappings p))" for s x
    using that assms(1) by (auto simp: replay_sorted_def dest: in_set_dropD)
  then show "drop (rp_mapping_index r) (process_mappings p) = []"
    using assms(2) max by (metis list.set_sel(1) replay_inv_def)
  have "\<not> (- 1 :: u64) < t" for t by simp
  then show "\<not> rp_created r \<Longrightarrow> ep_create_time p = None" "\<not> rp_exited r \<Longrightarrow> ep_exit_time p = None"
    using assms(2,3) unfolding replay_inv_def replay_done_def by (metis not_None_eq)+
qed

text \<open>A flag that is set belongs to a time already passed.\<close>

definition replay_seen :: "'o export_process \<Rightarrow> replay \<Rightarrow> bool" where
  "replay_seen p r \<longleftrightarrow>
     (\<forall>t. rp_created r \<longrightarrow> ep_create_time p = Some t \<longrightarrow> t \<le> rp_time r) \<and>
     (\<forall>t. rp_exited r \<longrightarrow> ep_exit_time p = Some t \<longrightarrow> t \<le> rp_time r)"

lemma replay_seen_advance:
  assumes "replay_seen p r" "rp_time r \<le> rp_time (replay_advance p r)"
  shows "replay_seen p (replay_advance p r)"
  using assms order_trans unfolding replay_seen_def replay_advance_time(2,3) by fastforce

lemma event_at_marks:
  "samples_of (event_at p r # evs) = (case sample_event p r of Some s \<Rightarrow> [s] | None \<Rightarrow> []) @ samples_of evs"
  "mappings_of (event_at p r # evs) = (case mapping_event p r of Some m \<Rightarrow> [m] | None \<Rightarrow> []) @ mappings_of evs"
  "re_time (event_at p r) = rp_time r"
  "re_created (event_at p r) \<longleftrightarrow> ep_create_time p = Some (rp_time r)"
  "re_exited (event_at p r) \<longleftrightarrow> ep_exit_time p = Some (rp_time r)"
  by (simp_all add: event_at_def created_event_def exited_event_def split: option.split)

text \<open>A time is still to be reported from \<open>r\<close> on.\<close>

definition ahead :: "u64 option \<Rightarrow> replay \<Rightarrow> bool" where
  "ahead t r \<longleftrightarrow> (\<exists>x. t = Some x \<and> x \<noteq> - 1 \<and> rp_time r \<le> x)"

lemma ahead_between:
  assumes "rp_time r \<le> rp_time r'" "rp_time r \<noteq> - 1" "\<And>x. \<not> f \<Longrightarrow> t = Some x \<Longrightarrow> rp_time r' \<le> x"
    "\<And>x. f \<Longrightarrow> t = Some x \<Longrightarrow> x \<le> rp_time r"
  shows "ahead t r \<longleftrightarrow> t = Some (rp_time r) \<or> ahead t r'"
proof (cases t)
  case (Some x)
  show ?thesis
  proof (cases f)
    case True
    then have le: "x \<le> rp_time r" using assms(4) Some by simp
    have "rp_time r' \<le> x \<Longrightarrow> x = rp_time r" "rp_time r \<le> x \<Longrightarrow> x = rp_time r"
      using le assms(1) by simp_all
    then show ?thesis using Some assms(2) by (auto simp: ahead_def)
  next
    case False
    then have "rp_time r' \<le> x" using assms(3) Some by simp
    then show ?thesis using Some assms(1,2) by (auto simp: ahead_def)
  qed
qed (simp add: ahead_def)

lemma ahead_step:
  assumes "replay_inv p r" "replay_seen p r" "\<not> replay_done r"
  shows "ahead (ep_create_time p) r \<longleftrightarrow> ep_create_time p = Some (rp_time r) \<or> ahead (ep_create_time p) (replay_advance p r)"
    "ahead (ep_exit_time p) r \<longleftrightarrow> ep_exit_time p = Some (rp_time r) \<or> ahead (ep_exit_time p) (replay_advance p r)"
proof -
  have mono: "rp_time r \<le> rp_time (replay_advance p r)" using assms(1) by (rule replay_time_mono)
  have pos: "rp_time r \<noteq> - 1" using assms(3) by (simp add: replay_done_def)
  show "ahead (ep_create_time p) r \<longleftrightarrow> ep_create_time p = Some (rp_time r) \<or> ahead (ep_create_time p) (replay_advance p r)"
  proof (rule ahead_between [OF mono pos, of "rp_created r"])
    show "rp_time (replay_advance p r) \<le> x" if "\<not> rp_created r" "ep_create_time p = Some x" for x
      unfolding replay_advance_time(1) using that by (rule time_of_le(3))
  qed (use assms(2) in \<open>simp add: replay_seen_def\<close>)
  show "ahead (ep_exit_time p) r \<longleftrightarrow> ep_exit_time p = Some (rp_time r) \<or> ahead (ep_exit_time p) (replay_advance p r)"
  proof (rule ahead_between [OF mono pos, of "rp_exited r"])
    show "rp_time (replay_advance p r) \<le> x" if "\<not> rp_exited r" "ep_exit_time p = Some x" for x
      unfolding replay_advance_time(1) using that by (rule time_of_le(4))
  qed (use assms(2) in \<open>simp add: replay_seen_def\<close>)
qed

lemma ahead_done:
  "replay_done r \<Longrightarrow> \<not> ahead t r"
  using word_order.extremum_unique by (auto simp: ahead_def replay_done_def)

text \<open>The whole run from a state between two steps, with fuel above the measure.\<close>

lemma replay_run_all:
  assumes "replay_sorted p"
  shows "replay_inv p r \<Longrightarrow> replay_seen p r \<Longrightarrow> replay_done r \<or> replay_measure p r < n \<Longrightarrow>
    samples_of (replay_run n p r) = drop (rp_sample_index r) (ep_samples p) \<and>
    mappings_of (replay_run n p r) = drop (rp_mapping_index r) (process_mappings p) \<and>
    sorted (map re_time (replay_run n p r)) \<and> (\<forall>e \<in> set (replay_run n p r). rp_time r \<le> re_time e) \<and>
    ((\<exists>e \<in> set (replay_run n p r). re_created e) \<longleftrightarrow> ahead (ep_create_time p) r) \<and>
    ((\<exists>e \<in> set (replay_run n p r). re_exited e) \<longleftrightarrow> ahead (ep_exit_time p) r) \<and>
    replay_run (Suc n) p r = replay_run n p r"
proof (induction n arbitrary: r)
  case 0
  then have "replay_done r" by simp
  then show ?case using done_rest(1,2) [OF assms 0(1)] by (simp add: ahead_done)
next
  case (Suc n)
  show ?case
  proof (cases "replay_done r")
    case True
    then show ?thesis using done_rest(1,2) [OF assms Suc.prems(1)] by (simp add: ahead_done)
  next
    case False
    let ?r = "replay_advance p r"
    have inv: "replay_inv p ?r"
      using assms index_after [OF Suc.prems(1)] by (rule replay_inv_of_advance)
    have mono: "rp_time r \<le> rp_time ?r" using Suc.prems(1) by (rule replay_time_mono)
    have "replay_done ?r \<or> replay_measure p ?r < n"
      using replay_measure_less [OF Suc.prems(1) False] Suc.prems(3) False by auto
    note IH = Suc.IH [OF inv replay_seen_advance [OF Suc.prems(2) mono] this]
    have run: "replay_run (Suc n) p r = event_at p r # replay_run n p ?r"
      "replay_run (Suc (Suc n)) p r = event_at p r # replay_run (Suc n) p ?r"
      using False by simp_all
    have le: "\<forall>e \<in> set (replay_run n p ?r). rp_time r \<le> re_time e"
      using IH mono order_trans by blast
    show ?thesis
      unfolding run drop_event [OF Suc.prems(1)] ahead_step [OF Suc.prems(1,2) False] event_at_marks
      using IH le by (simp add: event_at_marks del: events_of_simps(3,4) replay_run.simps)
  qed
qed

lemma replay_new_inv:
  assumes "replay_sorted p"
  shows "replay_inv p (replay_new p)" "replay_seen p (replay_new p)"
    "rp_sample_index (replay_new p) = 0" "rp_mapping_index (replay_new p) = 0"
    "ahead t (replay_new p) \<Longrightarrow> \<exists>x. t = Some x \<and> x \<noteq> - 1"
    "ahead (ep_create_time p) (replay_new p) \<longleftrightarrow> (\<exists>x. ep_create_time p = Some x \<and> x \<noteq> - 1)"
    "ahead (ep_exit_time p) (replay_new p) \<longleftrightarrow> (\<exists>x. ep_exit_time p = Some x \<and> x \<noteq> - 1)"
proof -
  define r0 where "r0 = \<lparr>rp_time = - 1, rp_sample_index = 0, rp_mapping_index = 0, rp_created = False, rp_exited = False\<rparr>"
  have new: "replay_new p = replay_advance p r0" by (simp add: replay_new_def r0_def)
  have none: "sample_event p r0 = None" "mapping_event p r0 = None"
    using assms by (auto simp: r0_def sample_event_def mapping_event_def try_get_sample_def
        try_get_mapping_def nth_opt_def replay_sorted_def split: option.split)
  then show ix: "rp_sample_index (replay_new p) = 0" "rp_mapping_index (replay_new p) = 0"
    by (simp_all add: new replay_advance_index r0_def)
  show "replay_inv p (replay_new p)"
    unfolding new by (rule replay_inv_of_advance [OF assms]) (use ix in \<open>simp_all add: new\<close>)
  show "replay_seen p (replay_new p)"
    unfolding replay_seen_def new replay_advance_time(2,3) by (auto simp: r0_def)
  show "ahead t (replay_new p) \<Longrightarrow> \<exists>x. t = Some x \<and> x \<noteq> - 1" by (auto simp: ahead_def)
  have "rp_time (replay_new p) \<le> t" if "ep_create_time p = Some t" for t
    using time_of_le(3) [OF _ that, of r0 "replay_new p"]
    unfolding new replay_advance_time(1) [symmetric] by (simp add: r0_def)
  then show "ahead (ep_create_time p) (replay_new p) \<longleftrightarrow> (\<exists>x. ep_create_time p = Some x \<and> x \<noteq> - 1)"
    by (auto simp: ahead_def)
  have "rp_time (replay_new p) \<le> t" if "ep_exit_time p = Some t" for t
    using time_of_le(4) [OF _ that, of r0 "replay_new p"]
    unfolding new replay_advance_time(1) [symmetric] by (simp add: r0_def)
  then show "ahead (ep_exit_time p) (replay_new p) \<longleftrightarrow> (\<exists>x. ep_exit_time p = Some x \<and> x \<noteq> - 1)"
    by (auto simp: ahead_def)
qed

lemma replay_measure_bound:
  "replay_measure p r < 2 * (length (ep_samples p) + length (process_mappings p) + 2) + 2"
proof -
  have bound: "2 * (a + b + c + d) + e < 2 * (A + B + 2) + 2"
    if "a \<le> A" "b \<le> B" "c \<le> 1" "d \<le> 1" "e \<le> 1" for a b c d e A B :: nat
    using that by (simp add: distrib_left)
  show ?thesis unfolding replay_measure_def by (rule bound) simp_all
qed

lemma replay_run_stable:
  assumes "replay_sorted p" "replay_inv p r" "replay_seen p r" "replay_measure p r < n" "n \<le> m"
  shows "replay_run m p r = replay_run n p r"
  using assms(5)
proof (induction m rule: dec_induct)
  case (step m)
  then show ?case using replay_run_all [OF assms(1-3), of m] assms(4) by simp
qed simp

text \<open>C5. The replay of a process loses nothing and ends: given samples and mappings in time order
  and none at the reserved last time, the run reports exactly the samples and exactly the mappings of
  the process, in their order, at times that never go back; it reports the creation (the exit) iff
  the process has a creation (exit) time other than the reserved one; and it is over within
  \<open>2 * (samples + mappings + 2) + 2\<close> steps, since more fuel gives the same run.\<close>

theorem replay_delivers_all:
  assumes "replay_sorted p" "2 * (length (ep_samples p) + length (process_mappings p) + 2) + 2 \<le> n"
  shows "samples_of (replay_run n p (replay_new p)) = ep_samples p \<and>
    mappings_of (replay_run n p (replay_new p)) = process_mappings p \<and>
    sorted (map re_time (replay_run n p (replay_new p))) \<and>
    ((\<exists>e \<in> set (replay_run n p (replay_new p)). re_created e) \<longleftrightarrow> ep_create_time p \<notin> {None, Some (- 1)}) \<and>
    ((\<exists>e \<in> set (replay_run n p (replay_new p)). re_exited e) \<longleftrightarrow> ep_exit_time p \<notin> {None, Some (- 1)}) \<and>
    replay_run n p (replay_new p) =
      replay_run (2 * (length (ep_samples p) + length (process_mappings p) + 2) + 2) p (replay_new p)"
proof -
  note new = replay_new_inv [OF assms(1)]
  have some: "(\<exists>x. t = Some x \<and> x \<noteq> - 1) \<longleftrightarrow> t \<notin> {None, Some (- 1)}" for t :: "u64 option"
    by (cases t) simp_all
  have "replay_measure p (replay_new p) < n"
    using replay_measure_bound [of p "replay_new p"] assms(2) by (rule less_le_trans)
  then show ?thesis
    using replay_run_all [OF assms(1) new(1,2), of n] assms(2)
      replay_run_stable [OF assms(1) new(1,2) replay_measure_bound assms(2)]
    unfolding new(6,7) some by (simp add: new(3,4))
qed

text \<open>A process with two samples and a creation between them.\<close>

definition replayed_process :: "unit export_process" where
  "replayed_process = set_create_time_qpc 4 (add_sample (sample_new 7 (Count 1) 0 0 1 16 0)
     (add_sample (sample_new 3 (Count 1) 0 0 1 16 0) (process_new () 5)))"

theorem replay_delivers_all_witness:
  "samples_of (replay_run 10 replayed_process (replay_new replayed_process)) = ep_samples replayed_process \<and>
   (\<exists>e \<in> set (replay_run 10 replayed_process (replay_new replayed_process)). re_created e) \<and>
   \<not> (\<exists>e \<in> set (replay_run 10 replayed_process (replay_new replayed_process)). re_exited e)"
proof -
  have s: "replay_sorted replayed_process"
    "2 * (length (ep_samples replayed_process) + length (process_mappings replayed_process) + 2) + 2 \<le> (10::nat)"
    by (simp_all add: replay_sorted_def replayed_process_def process_mappings_def process_new_def
        add_sample_def set_create_time_qpc_def sample_new_def eml_default_def)
  have "ep_create_time replayed_process = Some 4" "ep_exit_time replayed_process = None"
    by (simp_all add: replayed_process_def process_new_def add_sample_def set_create_time_qpc_def)
  moreover have "Some (4 :: u64) \<notin> {None, Some (- 1)}" "None \<in> {None, Some (- 1 :: u64)}" by simp_all
  ultimately show ?thesis
    using replay_delivers_all [OF s] by (elim conjE) (simp only: HOL.simp_thms)
qed

section \<open>Metric values of fields\<close>

definition metric_unit :: "string \<Rightarrow> (u64 \<Rightarrow> metric_value) option" where
  "metric_unit t = (if t = ''count'' then Some Count else if t = ''duration'' then Some Duration
     else if t = ''bytes'' then Some Bytes else None)"

lemma metric_data_type_width: "metric_data_type t = Some (sg, w) \<Longrightarrow> w \<in> {1, 2, 4, 8}"
  by (auto simp: metric_data_type_def split: if_splits)

text \<open>A metric closure reads the field's value, negative ones as zero, and panics exactly on data
  that is too short; the value has the unit asked for, except that an unsigned byte is a count
  whatever the unit asked for.\<close>

theorem metric_unit_kept_iff:
  assumes "metric_data_type data_type = Some (sg, w)" "metric_unit metric_type = Some unit_of" "in_range sg w v"
  shows "\<exists>f. try_get_value_closure metric_type data_type = Some f \<and>
    (\<forall>data. f data = None \<longleftrightarrow> length data < w) \<and>
    (f (bytes_of_int w v @ rest) = Some (unit_of (of_int (max 0 v))) \<longleftrightarrow> metric_type = ''count'' \<or> sg \<or> w \<noteq> 1) \<and>
    (metric_type \<noteq> ''count'' \<and> \<not> sg \<and> w = 1 \<longrightarrow> f (bytes_of_int w v @ rest) = Some (Count (of_int v)))"
proof -
  define ctor where "ctor = (if metric_type \<noteq> ''count'' \<and> \<not> sg \<and> w = 1 then Count else unit_of)"
  have ctor1: "metric_ctor metric_type sg w = Some ctor"
    using assms(2) by (auto simp: metric_ctor_def metric_unit_def ctor_def split: if_splits)
  have unit_of: "unit_of x = Count x \<longleftrightarrow> metric_type = ''count''" for x
    using assms(2) by (auto simp: metric_unit_def split: if_splits)
  have w: "0 < w" "w \<in> {1, 2, 4, 8}" using metric_data_type_width [OF assms(1)] by auto
  have v: "int_of_bytes sg (bytes_of_int w v) = v" using assms(3) w(1) by (rule int_bytes_roundtrip)
  have pos: "\<not> sg \<Longrightarrow> 0 \<le> v" using assms(3) by (simp add: in_range_def)
  have val: "metric_value_of ctor sg w (bytes_of_int w v @ rest) = Some (ctor (of_int (max 0 v)))"
    by (cases sg) (use v pos in \<open>auto simp: metric_value_of_def subslice_def max_def\<close>)
  have "metric_value_of ctor sg w data = None \<longleftrightarrow> length data < w" for data
    by (auto simp: metric_value_of_def subslice_def)
  moreover have "ctor x = unit_of x \<longleftrightarrow> metric_type = ''count'' \<or> sg \<or> w \<noteq> 1" for x
    using unit_of [of x] by (auto simp: ctor_def)
  moreover have "metric_type \<noteq> ''count'' \<and> \<not> sg \<and> w = 1 \<Longrightarrow> ctor (of_int (max 0 v)) = Count (of_int v)"
    using pos by (simp add: ctor_def max_def)
  ultimately show ?thesis
    using ctor1 val assms(1) by (intro exI [of _ "metric_value_of ctor sg w"]) (auto simp: try_get_value_closure_def)
qed

theorem metric_unit_kept_iff_witness:
  "(\<exists>f. try_get_value_closure ''bytes'' ''u16'' = Some f \<and> f (bytes_of_int 2 300) = Some (Bytes 300)) \<and>
   (\<exists>f. try_get_value_closure ''bytes'' ''u8'' = Some f \<and> f (bytes_of_int 1 9) = Some (Count 9))"
proof -
  have "metric_data_type ''u16'' = Some (False, 2)" "metric_data_type ''u8'' = Some (False, 1)"
    "metric_unit ''bytes'' = Some Bytes" "in_range False 2 300" "in_range False 1 9"
    by (simp_all add: metric_data_type_def metric_unit_def in_range_def)
  note t = this
  show ?thesis
    using metric_unit_kept_iff [OF t(1,3,4), of "[]"] metric_unit_kept_iff [OF t(2,3,5), of "[]"] by auto
qed

end
