(* ===== verification/DynSymbols.thy ===== *)
theory DynSymbols
  imports Process "HOL-Library.Multiset"
begin

text \<open>
  \<open>ExportProcess::add_dynamic_symbol_mappings\<close> of \<open>helpers/exporting/process.rs\<close>: the dynamic
  symbols of a process (JIT code, most often) move into its mappings; those outside every mapping
  get anonymous mappings of whole pages. The page size and mask of the system are parameters, and
  so is the iteration order of the address index (see \<open>Mappings\<close>).
\<close>

section \<open>The operation\<close>

text \<open>The end of the page an address lies on.\<close>

definition page_end :: "u64 \<Rightarrow> u64 \<Rightarrow> u64 \<Rightarrow> u64 option" where
  "page_end page_mask page_size a = do { e \<leftarrow> add64 (a AND page_mask) page_size; sub64 e 1 }"

text \<open>The scan of the mappings in progress: the first that holds the symbol's start takes it.\<close>

definition extend_mapping :: "u64 \<Rightarrow> u64 \<Rightarrow> time_symbol \<Rightarrow> export_mapping \<Rightarrow> export_mapping option" where
  "extend_mapping page_mask page_size s m = (
     let symb = ts_symbol s;
         m1 = (if ts_time s < map_time m then m\<lparr>map_time := ts_time s\<rparr> else m) in do {
     m2 \<leftarrow> (if map_end m1 < sym_end symb
        then do { e \<leftarrow> page_end page_mask page_size (sym_end symb); Ret (m1\<lparr>map_end := e\<rparr>) }
        else Ret m1);
     Ret (add_symbol m2 symb)
   })"

fun scan_dynamic ::
  "u64 \<Rightarrow> u64 \<Rightarrow> time_symbol \<Rightarrow> export_mapping list \<Rightarrow> (bool \<times> export_mapping list) option" where
  "scan_dynamic page_mask page_size s [] = Ret (False, [])"
| "scan_dynamic page_mask page_size s (m # ms) =
     (if contains_ip m (sym_start (ts_symbol s))
      then do { m' \<leftarrow> extend_mapping page_mask page_size s m; Ret (True, m' # ms) }
      else do { (found, ms') \<leftarrow> scan_dynamic page_mask page_size s ms; Ret (found, m # ms') })"

definition new_dynamic_mapping :: "u64 \<Rightarrow> u64 \<Rightarrow> time_symbol \<Rightarrow> nat \<Rightarrow> export_mapping option" where
  "new_dynamic_mapping page_mask page_size s map_index = (
     let symb = ts_symbol s in do {
     stop \<leftarrow> page_end page_mask page_size (sym_end symb);
     Ret (add_symbol (mapping_new (ts_time s) 0 (sym_start symb AND page_mask) stop 0 True map_index Prolog) symb)
   })"

text \<open>One turn of the loop, for the symbol just popped.\<close>

definition place_symbol ::
  "set_iter \<Rightarrow> u64 \<Rightarrow> u64 \<Rightarrow> time_symbol \<Rightarrow> 'o export_process \<Rightarrow> export_mapping list \<Rightarrow> nat \<Rightarrow>
   ('o export_process \<times> export_mapping list \<times> nat) option" where
  "place_symbol it page_mask page_size s p dyn map_index = do {
     (found, maps) \<leftarrow> find_index it (ep_mappings p) (sym_start (ts_symbol s)) (Some (ts_time s));
     (case found of
        Some i \<Rightarrow> do {
          m \<leftarrow> at (eml_mappings maps) i;
          Ret (p\<lparr>ep_mappings := mappings_mut maps (\<lambda>ms. ms[i := add_symbol m (ts_symbol s)])\<rparr>, dyn, map_index)
        }
      | None \<Rightarrow> do {
          (hit, dyn') \<leftarrow> scan_dynamic page_mask page_size s dyn;
          if hit then Ret (p\<lparr>ep_mappings := maps\<rparr>, dyn', map_index)
          else do {
            m \<leftarrow> new_dynamic_mapping page_mask page_size s map_index;
            Ret (p\<lparr>ep_mappings := maps\<rparr>, dyn' @ [m], map_index + 1)
          }
        })
   }"

fun place_symbols ::
  "set_iter \<Rightarrow> u64 \<Rightarrow> u64 \<Rightarrow> time_symbol list \<Rightarrow> 'o export_process \<Rightarrow> export_mapping list \<Rightarrow> nat \<Rightarrow>
   ('o export_process \<times> export_mapping list \<times> nat) option" where
  "place_symbols it page_mask page_size [] p dyn map_index = Ret (p, dyn, map_index)"
| "place_symbols it page_mask page_size (s # ss) p dyn map_index = do {
     (p', dyn', map_index') \<leftarrow> place_symbol it page_mask page_size s p dyn map_index;
     place_symbols it page_mask page_size ss p' dyn' map_index'
   }"

text \<open>The stable descending sort (\<open>b.cmp(a)\<close>), which the loop then pops from the back.\<close>

definition sort_descending :: "time_symbol list \<Rightarrow> time_symbol list" where
  "sort_descending = sort_key (\<lambda>s. - uint (sym_start (ts_symbol s)))"

definition add_dynamic_symbol_mappings ::
  "set_iter \<Rightarrow> u64 \<Rightarrow> u64 \<Rightarrow> 'o export_process \<Rightarrow> nat \<Rightarrow> ('o export_process \<times> nat) option" where
  "add_dynamic_symbol_mappings it page_mask page_size p map_index = do {
     (p', dyn, map_index') \<leftarrow> place_symbols it page_mask page_size (rev (sort_descending (ep_dyn_symbols p)))
        (p\<lparr>ep_dyn_symbols := []\<rparr>) [] map_index;
     Ret (p'\<lparr>ep_mappings := mappings_mut (ep_mappings p') (\<lambda>ms. ms @ dyn)\<rparr>, map_index')
   }"

section \<open>Pages\<close>

text \<open>A mask and a size that belong together: the page size is a power of two.\<close>

definition paging :: "u64 \<Rightarrow> u64 \<Rightarrow> bool" where
  "paging page_mask page_size \<longleftrightarrow>
     (\<exists>k < 64. page_size = of_nat (2 ^ k) \<and> page_mask = NOT (of_nat (2 ^ k) - 1))"

lemma page_mask_floor:
  fixes a :: u64
  assumes "k < 64"
  shows "unat (a AND NOT (of_nat (2 ^ k) - 1)) = unat a div 2 ^ k * 2 ^ k"
proof -
  have m: "(of_nat (2 ^ k) - 1 :: u64) = Bit_Operations.mask k" by (simp add: mask_eq_exp_minus_1)
  have "unat (a AND NOT (Bit_Operations.mask k)) = push_bit k (drop_bit k (unat a))"
    using assms by (intro bit_eqI) (auto simp: bit_simps dest: bit_imp_le_length)
  then show ?thesis unfolding m by (simp add: push_bit_eq_mult drop_bit_eq_div)
qed

text \<open>Outside the last page the end of a page is at or above every address of the page.\<close>

lemma page_end_ok:
  assumes "paging page_mask page_size" "unat a + unat page_size < 2 ^ 64"
  shows "\<exists>e. page_end page_mask page_size a = Some e \<and> a \<le> e"
proof -
  obtain k where k: "k < 64" "page_size = of_nat (2 ^ k)" "page_mask = NOT (of_nat (2 ^ k) - 1)"
    using assms(1) by (auto simp: paging_def)
  have size: "unat page_size = 2 ^ k"
    unfolding k(2) using k(1) by (intro unat_of_nat_word(3)) (rule power_strict_increasing, simp_all)
  have fl: "unat (a AND page_mask) = unat a div 2 ^ k * 2 ^ k"
    unfolding k(3) using k(1) by (rule page_mask_floor)
  then have le: "unat (a AND page_mask) \<le> unat a" by simp
  then have "unat (a AND page_mask) + unat page_size < 2 ^ 64" using assms(2) by simp
  note add = add64_ok [OF this] unat_add64 [OF this]
  have pos: "1 \<le> (a AND page_mask) + page_size"
    unfolding word_le_nat_alt add(2) size by (simp add: trans_le_add2)
  have lt: "unat a < unat a div 2 ^ k * 2 ^ k + 2 ^ k"
  proof -
    have "unat a mod 2 ^ k < 2 ^ k" by simp
    then show ?thesis using div_mult_mod_eq [of "unat a" "2 ^ k"] by linarith
  qed
  have "unat ((a AND page_mask) + page_size - 1) = unat ((a AND page_mask) + page_size) - 1"
    using sub64_SomeD [OF sub64_ok [OF pos]] by simp
  then have "a \<le> (a AND page_mask) + page_size - 1"
    using lt fl add(2) size by (simp add: word_le_nat_alt)
  then show ?thesis using add(1) sub64_ok [OF pos] by (simp add: page_end_def)
qed

lemma page_start_le: "a AND m \<le> (a :: u64)"
  by (rule word_and_le2)

section \<open>What one symbol does\<close>

text \<open>A mapping holds a symbol for its time; a mapping that takes symbols keeps everything else,
  one in progress may also grow.\<close>

definition holds_symbol :: "time_symbol \<Rightarrow> export_mapping \<Rightarrow> bool" where
  "holds_symbol s m \<longleftrightarrow> ts_symbol s \<in> set (map_symbols m) \<and>
     contains_ip m (sym_start (ts_symbol s)) \<and> map_time m \<le> ts_time s"

definition takes_symbols :: "export_mapping \<Rightarrow> export_mapping \<Rightarrow> bool" where
  "takes_symbols m m' \<longleftrightarrow> (\<exists>xs. m' = m\<lparr>map_symbols := map_symbols m @ xs\<rparr>)"

definition grows :: "export_mapping \<Rightarrow> export_mapping \<Rightarrow> bool" where
  "grows m m' \<longleftrightarrow> map_start m' = map_start m \<and> map_end m \<le> map_end m' \<and> map_time m' \<le> map_time m \<and>
     set (map_symbols m) \<subseteq> set (map_symbols m') \<and> map_anon m' = map_anon m \<and> map_id m' = map_id m"

definition all_symbols :: "export_mapping list \<Rightarrow> export_symbol multiset" where
  "all_symbols ms = (\<Sum>m \<leftarrow> ms. mset (map_symbols m))"

lemma takes_refl [simp]: "takes_symbols m m"
  unfolding takes_symbols_def by (rule exI [of _ "[]"]) simp

lemma takes_trans: "takes_symbols a b \<Longrightarrow> takes_symbols b c \<Longrightarrow> takes_symbols a c"
  by (auto simp: takes_symbols_def)

lemma takes_grows: "takes_symbols m m' \<Longrightarrow> grows m m'"
  by (auto simp: takes_symbols_def grows_def)

lemma grows_refl [simp]: "grows m m"
  by (simp add: grows_def)

lemma grows_trans: "grows a b \<Longrightarrow> grows b c \<Longrightarrow> grows a c"
  by (auto simp: grows_def)

lemma holds_grows: "holds_symbol s m \<Longrightarrow> grows m m' \<Longrightarrow> holds_symbol s m'"
  by (auto simp: holds_symbol_def grows_def contains_ip_def)

lemma holds_list_grows:
  "list_all2 grows ms ms' \<Longrightarrow> \<exists>m \<in> set ms. holds_symbol s m \<Longrightarrow> \<exists>m \<in> set ms'. holds_symbol s m"
  by (induction rule: list_all2_induct) (auto intro: holds_grows)

lemma list_all2_takes_update:
  "i < length ms \<Longrightarrow> takes_symbols (ms ! i) m \<Longrightarrow> list_all2 takes_symbols ms (ms[i := m])"
  by (simp add: list_all2_conv_all_nth nth_list_update)

lemma all_symbols_simps [simp]:
  "all_symbols [] = {#}" "all_symbols (m # ms) = mset (map_symbols m) + all_symbols ms"
  "all_symbols (ms @ ns) = all_symbols ms + all_symbols ns"
  by (simp_all add: all_symbols_def)

lemma all_symbols_update:
  "i < length ms \<Longrightarrow> all_symbols (ms[i := add_symbol (ms ! i) symb]) = all_symbols ms + {#symb#}"
  by (induction ms arbitrary: i) (auto simp: add_symbol_def nth_Cons split: nat.split)

text \<open>The symbols a page size lets the loop place without overflow.\<close>

definition placeable :: "u64 \<Rightarrow> time_symbol \<Rightarrow> bool" where
  "placeable page_size s \<longleftrightarrow> sym_start (ts_symbol s) \<le> sym_end (ts_symbol s) \<and>
     unat (sym_end (ts_symbol s)) + unat page_size < 2 ^ 64"

lemma extend_mapping_spec:
  assumes "paging page_mask page_size" "placeable page_size s" "contains_ip m (sym_start (ts_symbol s))"
  shows "\<exists>m'. extend_mapping page_mask page_size s m = Some m' \<and> grows m m' \<and> holds_symbol s m' \<and>
    mset (map_symbols m') = mset (map_symbols m) + {#ts_symbol s#}"
proof -
  obtain e where e: "page_end page_mask page_size (sym_end (ts_symbol s)) = Some e" "sym_end (ts_symbol s) \<le> e"
    using page_end_ok [OF assms(1)] assms(2) unfolding placeable_def by blast
  show ?thesis
    using e assms(2,3)
    by (auto simp: extend_mapping_def Let_def add_symbol_def grows_def holds_symbol_def contains_ip_def
        placeable_def)
qed

lemma scan_dynamic_spec:
  assumes "paging page_mask page_size" "placeable page_size s"
  shows "\<exists>hit ms'. scan_dynamic page_mask page_size s ms = Some (hit, ms') \<and> list_all2 grows ms ms' \<and>
    (hit \<longrightarrow> (\<exists>m \<in> set ms'. holds_symbol s m)) \<and>
    all_symbols ms' = all_symbols ms + (if hit then {#ts_symbol s#} else {#}) \<and> (\<not> hit \<longrightarrow> ms' = ms)"
proof (induction ms)
  case (Cons m ms)
  show ?case
  proof (cases "contains_ip m (sym_start (ts_symbol s))")
    case True
    obtain m' where m': "extend_mapping page_mask page_size s m = Some m'" "grows m m'" "holds_symbol s m'"
      "mset (map_symbols m') = mset (map_symbols m) + {#ts_symbol s#}"
      using extend_mapping_spec [OF assms True] by blast
    then show ?thesis
      using True by (intro exI [of _ True] exI [of _ "m' # ms"]) (simp add: list_all2_refl)
  next
    case False
    obtain hit ms' where "scan_dynamic page_mask page_size s ms = Some (hit, ms')" "list_all2 grows ms ms'"
      "hit \<longrightarrow> (\<exists>m \<in> set ms'. holds_symbol s m)"
      "all_symbols ms' = all_symbols ms + (if hit then {#ts_symbol s#} else {#})" "\<not> hit \<longrightarrow> ms' = ms"
      using Cons by blast
    then show ?thesis using False by (intro exI [of _ hit] exI [of _ "m # ms'"]) simp
  qed
qed (intro exI [of _ False] exI [of _ "[]"], simp)

lemma new_dynamic_mapping_spec:
  assumes "paging page_mask page_size" "placeable page_size s"
  shows "\<exists>m. new_dynamic_mapping page_mask page_size s n = Some m \<and> holds_symbol s m \<and>
    mset (map_symbols m) = {#ts_symbol s#} \<and> map_anon m \<and> map_id m = n"
proof -
  obtain e where e: "page_end page_mask page_size (sym_end (ts_symbol s)) = Some e" "sym_end (ts_symbol s) \<le> e"
    using page_end_ok [OF assms(1)] assms(2) unfolding placeable_def by blast
  then have "sym_start (ts_symbol s) \<le> e" using assms(2) by (auto simp: placeable_def)
  then show ?thesis
    using e page_start_le by (auto simp: new_dynamic_mapping_def Let_def add_symbol_def mapping_new_def
        holds_symbol_def contains_ip_def)
qed

section \<open>The whole loop\<close>

definition table_ok :: "'o export_process \<Rightarrow> bool" where
  "table_ok p \<longleftrightarrow> cache_ok (ep_mappings p) \<and> length (process_mappings p) \<le> 2 ^ 32 \<and>
     (process_mappings p \<noteq> [] \<or> 0 < eml_min_lookup (ep_mappings p))"

lemma find_index_sound:
  assumes "iter_ok it" "cache_ok s" "length (eml_mappings s) \<le> 2 ^ 32"
    "eml_mappings s \<noteq> [] \<or> 0 < eml_min_lookup s"
  shows "\<exists>r s'. find_index it s address time = Some (r, s') \<and> cache_ok s' \<and>
    eml_mappings s' = eml_mappings s \<and> eml_min_lookup s' = eml_min_lookup s \<and>
    (\<forall>i. r = Some i \<longrightarrow> candidate (eml_mappings s) address (eml_time time) i)"
proof (cases "eml_min_lookup s \<le> length (eml_mappings s)")
  case True
  with assms(4) have "eml_mappings s \<noteq> []" by auto
  from find_index_indexed [OF assms(1,2) this assms(3) True, of address time]
  obtain r s' where "find_index it s address time = Some (r, s')" "cache_ok s'"
    "eml_mappings s' = eml_mappings s" "eml_min_lookup s' = eml_min_lookup s"
    "case r of None \<Rightarrow> True | Some i \<Rightarrow> candidate (eml_mappings s) address (eml_time time) i"
    by (auto split: option.splits)
  then show ?thesis by (intro exI [of _ r] exI [of _ s']) (simp split: option.splits)
next
  case False
  then have "length (eml_mappings s) < eml_min_lookup s" by simp
  from find_index_linear [OF this, of it address time] obtain r
    where "find_index it s address time = Some (r, s)" "newest (eml_mappings s) address (eml_time time) r" by blast
  then show ?thesis
    using assms(2) by (intro exI [of _ r] exI [of _ s]) (auto simp: newest_def split: option.splits)
qed

lemma place_symbol_spec:
  assumes "iter_ok it" "table_ok p" "paging page_mask page_size" "placeable page_size s"
  shows "\<exists>p' dyn' n'. place_symbol it page_mask page_size s p dyn n = Some (p', dyn', n') \<and> table_ok p' \<and>
    ep_dyn_symbols p' = ep_dyn_symbols p \<and>
    list_all2 takes_symbols (process_mappings p) (process_mappings p') \<and>
    list_all2 grows dyn (take (length dyn) dyn') \<and> length dyn \<le> length dyn' \<and>
    n' + length dyn = n + length dyn' \<and>
    (\<exists>m \<in> set (process_mappings p' @ dyn'). holds_symbol s m) \<and>
    all_symbols (process_mappings p' @ dyn') = all_symbols (process_mappings p @ dyn) + {#ts_symbol s#}"
proof -
  obtain r maps where r: "find_index it (ep_mappings p) (sym_start (ts_symbol s)) (Some (ts_time s)) = Some (r, maps)"
    "cache_ok maps" "eml_mappings maps = process_mappings p" "eml_min_lookup maps = eml_min_lookup (ep_mappings p)"
    "\<forall>i. r = Some i \<longrightarrow> candidate (process_mappings p) (sym_start (ts_symbol s)) (ts_time s) i"
    using find_index_sound [OF assms(1), of "ep_mappings p" "sym_start (ts_symbol s)" "Some (ts_time s)"] assms(2)
    unfolding table_ok_def process_mappings_def eml_time_def by auto
  show ?thesis
  proof (cases r)
    case (Some i)
    let ?ms = "process_mappings p" and ?m = "add_symbol (process_mappings p ! i) (ts_symbol s)"
    have i: "i < length ?ms" "contains_ip (?ms ! i) (sym_start (ts_symbol s))" "map_time (?ms ! i) \<le> ts_time s"
      using r(5) Some by (auto simp: candidate_def)
    define p' where "p' = p\<lparr>ep_mappings := mappings_mut maps (\<lambda>ms. ms[i := ?m])\<rparr>"
    have new: "process_mappings p' = ?ms[i := ?m]"
      by (simp add: p'_def process_mappings_def mappings_mut_def r(3) [unfolded process_mappings_def])
    have "place_symbol it page_mask page_size s p dyn n = Some (p', dyn, n)"
      using r(1,3) Some i(1) by (simp add: place_symbol_def at_ok p'_def)
    moreover have "table_ok p'"
    proof -
      have "cache_ok (ep_mappings p')" by (simp add: p'_def cache_ok_ops(3))
      moreover have "eml_min_lookup (ep_mappings p') = eml_min_lookup (ep_mappings p)"
        by (simp add: p'_def mappings_mut_def r(4))
      ultimately show ?thesis using assms(2) unfolding table_ok_def new by simp
    qed
    moreover have "list_all2 takes_symbols ?ms (process_mappings p')"
      unfolding new using i(1)
      by (rule list_all2_takes_update) (auto simp: takes_symbols_def add_symbol_def)
    moreover have "\<exists>m \<in> set (process_mappings p' @ dyn). holds_symbol s m"
      using i unfolding new
      by (intro bexI [of _ ?m]) (auto simp: holds_symbol_def add_symbol_def contains_ip_def set_update_memI)
    moreover have "all_symbols (process_mappings p' @ dyn) = all_symbols (?ms @ dyn) + {#ts_symbol s#}"
      unfolding new using i(1) by (simp add: all_symbols_update)
    ultimately show ?thesis
      by (intro exI [of _ p'] exI [of _ dyn] exI [of _ n]) (simp add: p'_def list_all2_refl)
  next
    case None
    define p' where "p' = p\<lparr>ep_mappings := maps\<rparr>"
    have same: "process_mappings p' = process_mappings p" "table_ok p'"
      using assms(2) r(2-4) by (simp_all add: p'_def table_ok_def process_mappings_def)
    obtain hit dyn1 where scan: "scan_dynamic page_mask page_size s dyn = Some (hit, dyn1)" "list_all2 grows dyn dyn1"
      "hit \<longrightarrow> (\<exists>m \<in> set dyn1. holds_symbol s m)"
      "all_symbols dyn1 = all_symbols dyn + (if hit then {#ts_symbol s#} else {#})" "\<not> hit \<longrightarrow> dyn1 = dyn"
      using scan_dynamic_spec [OF assms(3,4)] by blast
    obtain m where m: "new_dynamic_mapping page_mask page_size s n = Some m" "holds_symbol s m"
      "mset (map_symbols m) = {#ts_symbol s#}"
      using new_dynamic_mapping_spec [OF assms(3,4)] by blast
    note len = list_all2_lengthD [OF scan(2)]
    show ?thesis
    proof (cases hit)
      case True
      then have "place_symbol it page_mask page_size s p dyn n = Some (p', dyn1, n)"
        using r(1) None scan(1) by (simp add: place_symbol_def p'_def)
      then show ?thesis
        using True scan same len
        by (intro exI [of _ p'] exI [of _ dyn1] exI [of _ n]) (auto simp: p'_def list_all2_refl)
    next
      case False
      then have "place_symbol it page_mask page_size s p dyn n = Some (p', dyn @ [m], n + 1)"
        using r(1) None scan(1,5) m(1) by (simp add: place_symbol_def p'_def)
      then show ?thesis
        using same m
        by (intro exI [of _ p'] exI [of _ "dyn @ [m]"] exI [of _ "n + 1"])
          (auto simp: p'_def list_all2_refl)
    qed
  qed
qed

lemma list_all2_take_trans:
  assumes "\<And>x y z. P x y \<Longrightarrow> P y z \<Longrightarrow> P x z"
    and "list_all2 P xs (take (length xs) ys)" "list_all2 P ys (take (length ys) zs)" "length xs \<le> length ys"
  shows "list_all2 P xs (take (length xs) zs)"
proof -
  have "length ys \<le> length zs"
    using list_all2_lengthD [OF assms(3)] by simp
  then show ?thesis
    using assms by (auto simp: list_all2_conv_all_nth)
qed

lemma place_symbols_spec:
  assumes "iter_ok it" "paging page_mask page_size"
  shows "table_ok p \<Longrightarrow> \<forall>s \<in> set ss. placeable page_size s \<Longrightarrow>
    \<exists>p' dyn' n'. place_symbols it page_mask page_size ss p dyn n = Some (p', dyn', n') \<and> table_ok p' \<and>
    ep_dyn_symbols p' = ep_dyn_symbols p \<and>
    list_all2 takes_symbols (process_mappings p) (process_mappings p') \<and>
    list_all2 grows dyn (take (length dyn) dyn') \<and> length dyn \<le> length dyn' \<and>
    n' + length dyn = n + length dyn' \<and>
    (\<forall>s \<in> set ss. \<exists>m \<in> set (process_mappings p' @ dyn'). holds_symbol s m) \<and>
    all_symbols (process_mappings p' @ dyn') =
      all_symbols (process_mappings p @ dyn) + mset (map ts_symbol ss)"
proof (induction ss arbitrary: p dyn n)
  case Nil
  then show ?case by (simp add: list_all2_refl)
next
  case (Cons s ss)
  obtain p1 dyn1 n1 where one: "place_symbol it page_mask page_size s p dyn n = Some (p1, dyn1, n1)" "table_ok p1"
    "ep_dyn_symbols p1 = ep_dyn_symbols p" "list_all2 takes_symbols (process_mappings p) (process_mappings p1)"
    "list_all2 grows dyn (take (length dyn) dyn1)" "length dyn \<le> length dyn1" "n1 + length dyn = n + length dyn1"
    "\<exists>m \<in> set (process_mappings p1 @ dyn1). holds_symbol s m"
    "all_symbols (process_mappings p1 @ dyn1) = all_symbols (process_mappings p @ dyn) + {#ts_symbol s#}"
    using place_symbol_spec [OF assms(1) Cons.prems(1) assms(2), of s dyn n] Cons.prems(2) by auto
  obtain p2 dyn2 n2 where two: "place_symbols it page_mask page_size ss p1 dyn1 n1 = Some (p2, dyn2, n2)" "table_ok p2"
    "ep_dyn_symbols p2 = ep_dyn_symbols p1" "list_all2 takes_symbols (process_mappings p1) (process_mappings p2)"
    "list_all2 grows dyn1 (take (length dyn1) dyn2)" "length dyn1 \<le> length dyn2" "n2 + length dyn1 = n1 + length dyn2"
    "\<forall>s \<in> set ss. \<exists>m \<in> set (process_mappings p2 @ dyn2). holds_symbol s m"
    "all_symbols (process_mappings p2 @ dyn2) = all_symbols (process_mappings p1 @ dyn1) + mset (map ts_symbol ss)"
    using Cons.IH [OF one(2), of dyn1 n1] Cons.prems(2) by auto
  have "list_all2 grows (process_mappings p1 @ dyn1) (process_mappings p2 @ take (length dyn1) dyn2)"
    using list_all2_mono [OF two(4) takes_grows] two(5) by (rule list_all2_appendI)
  then have "\<exists>m \<in> set (process_mappings p2 @ take (length dyn1) dyn2). holds_symbol s m"
    using one(8) by (rule holds_list_grows)
  then have "\<exists>m \<in> set (process_mappings p2 @ dyn2). holds_symbol s m"
    using set_take_subset by fastforce
  moreover have "list_all2 takes_symbols (process_mappings p) (process_mappings p2)"
    using takes_trans one(4) two(4) by (rule list_all2_trans)
  moreover have "list_all2 grows dyn (take (length dyn) dyn2)"
    using grows_trans one(5) two(5) one(6) by (rule list_all2_take_trans)
  ultimately show ?case
    using one two by (intro exI [of _ p2] exI [of _ dyn2] exI [of _ n2]) (simp add: ac_simps)
qed


text \<open>Two methods compiled onto one page of a process without mappings.\<close>

definition jitted :: "unit export_process" where
  "jitted = add_dynamic_symbol \<lparr>ts_time = 9, ts_symbol = \<lparr>sym_name_id = 2, sym_start = 0x1800, sym_end = 0x2010\<rparr>\<rparr>
     (add_dynamic_symbol \<lparr>ts_time = 5, ts_symbol = \<lparr>sym_name_id = 1, sym_start = 0x1010, sym_end = 0x1100\<rparr>\<rparr>
        (process_new () 7))"


section \<open>The page map\<close>

lemma next_multiple:
  fixes a b :: nat
  assumes "b \<noteq> a" "b mod 256 = 0" "a mod 256 = 0"
  shows "a + 256 \<le> b \<longleftrightarrow> a \<le> b"
proof -
  obtain i j where "a = 256 * i" "b = 256 * j" using assms(2,3) by (auto dest!: mod_0_imp_dvd elim!: dvdE)
  then show ?thesis using assms(1) by auto
qed

lemma seen_from_spec:
  assumes "pm_page_size pm = 256" "\<forall>q \<in> pm_pages pm. unat q mod 256 = 0" "unat stop + 256 < 2 ^ 64"
  shows "unat page mod 256 = 0 \<Longrightarrow> unat page \<le> unat stop + 256 \<Longrightarrow>
    seen_from pm page stop = Some (\<exists>q \<in> pm_pages pm. page \<le> q \<and> q \<le> stop)"
proof (induction "unat stop + 512 - unat page" arbitrary: page rule: less_induct)
  case less
  show ?case
  proof (cases "page \<le> stop \<and> page \<notin> pm_pages pm")
    case True
    then have le: "unat page \<le> unat stop" by (simp add: word_le_nat_alt)
    have u: "unat (256 :: u64) = 256" by simp
    have "unat page + unat (256 :: u64) < 2 ^ 64" using le assms(3) u by linarith
    note add = add64_ok [OF this] unat_add64 [OF this, unfolded u]
    have "seen_from pm page stop = seen_from pm (page + 256) stop"
      using True add(1) assms(1) by (subst seen_from.simps) simp
    also have "\<dots> = Some (\<exists>q \<in> pm_pages pm. page + 256 \<le> q \<and> q \<le> stop)"
    proof (rule less.hyps)
      show "unat stop + 512 - unat (page + 256) < unat stop + 512 - unat page" unfolding add(2) using le by simp
    qed (use add(2) le less.prems(1) in \<open>simp_all add: mod_add_eq [symmetric]\<close>)
    also have "(\<exists>q \<in> pm_pages pm. page + 256 \<le> q \<and> q \<le> stop) \<longleftrightarrow> (\<exists>q \<in> pm_pages pm. page \<le> q \<and> q \<le> stop)"
    proof -
      have "page + 256 \<le> q \<longleftrightarrow> page \<le> q" if q: "q \<in> pm_pages pm" for q
      proof -
        have "unat q \<noteq> unat page" using True q by (metis unsigned_word_eqI)
        moreover have "unat q mod 256 = 0" "unat page mod 256 = 0" using q assms(2) less.prems(1) by simp_all
        ultimately have "unat page + 256 \<le> unat q \<longleftrightarrow> unat page \<le> unat q" by (intro next_multiple)
        then show ?thesis unfolding word_le_nat_alt add(2) .
      qed
      then show ?thesis by blast
    qed
    finally show ?thesis .
  next
    case False
    show ?thesis
    proof (cases "page \<le> stop")
      case True
      then show ?thesis using False by (subst seen_from.simps) auto
    next
      case False
      then have "\<not> (page \<le> q \<and> q \<le> stop)" for q using order_trans by blast
      then show ?thesis using False by (subst seen_from.simps) auto
    qed
  qed
qed

text \<open>The page an address lies on, as the process's map has it.\<close>

definition page_of :: "u64 \<Rightarrow> u64" where
  "page_of ip = ip AND - 256"

lemma unat_page_of: "unat (page_of ip) = unat ip div 256 * 256"
  using page_mask_floor [of 8 ip] by (simp add: page_of_def)

lemma page_of_mono: "a \<le> b \<Longrightarrow> page_of a \<le> page_of b"
  by (simp add: word_le_nat_alt unat_page_of div_le_mono)

lemma page_map_256: "page_map_new 256 = Some \<lparr>pm_pages = {}, pm_page_size = 256, pm_page_mask = - 256\<rparr>"
proof -
  have "next_power_of_two 256 = 256"
    by (simp add: next_power_of_two_def next_pow2_from.simps)
  then show ?thesis by (simp add: page_map_new_def)
qed

lemma seen_range_spec:
  assumes "unat stop + 256 < 2 ^ 64" "start \<le> stop"
  shows "seen_range \<lparr>pm_pages = page_of ` addrs, pm_page_size = 256, pm_page_mask = - 256\<rparr> start stop =
    Some (\<exists>ip \<in> addrs. page_of start \<le> page_of ip \<and> page_of ip \<le> page_of stop)"
proof -
  have "unat stop div 256 * 256 \<le> unat stop" by simp
  then have bound: "unat (page_of stop) + 256 < 2 ^ 64" using assms(1) unfolding unat_page_of by linarith
  have le: "unat (page_of start) \<le> unat (page_of stop) + 256"
    using page_of_mono [OF assms(2)] by (simp add: word_le_nat_alt)
  have "a AND - 256 = page_of a" for a by (simp add: page_of_def)
  then show ?thesis
    unfolding seen_range_def
    using seen_from_spec [of "\<lparr>pm_pages = page_of ` addrs, pm_page_size = 256, pm_page_mask = - 256\<rparr>" "page_of stop" "page_of start"]
      bound le by (simp add: unat_page_of)
qed

text \<open>The addresses of a process: the user addresses of its samples and of their stacks.\<close>

definition stack_of :: "interned_callstacks \<Rightarrow> export_sample \<Rightarrow> u64 list" where
  "stack_of cs s = (case from_id cs (unat (smp_callstack_id s)) of Some (Some fs) \<Rightarrow> fs | _ \<Rightarrow> [])"

lemma add_user_frames_set: "add_user_frames mapping fs addrs = addrs \<union> {f \<in> set fs. user_ip mapping f}"
  by (induction mapping fs addrs rule: add_user_frames.induct) auto

lemma callstacks_from_id_total:
  assumes "slices_inv h cs"
  shows "\<exists>r. callstacks_from_id cs i frames = Some (r, case from_id cs i of Some (Some fs) \<Rightarrow> fs | _ \<Rightarrow> []) \<and>
    ((\<exists>u. r = Inr u) \<or> from_id cs i = Some None)"
  using from_id_contents [OF assms, of i] by (auto simp: callstacks_from_id_def)

lemma add_user_samples_set:
  assumes "slices_inv h cs"
  shows "\<exists>frames'. add_user_samples cs mapping ss addrs frames =
    Some (addrs \<union> {ip. \<exists>s \<in> set ss. ip \<in> set (smp_ip s # stack_of cs s) \<and> user_ip mapping ip}, frames')"
proof (induction ss arbitrary: addrs frames)
  case (Cons s ss)
  let ?a1 = "if user_ip mapping (smp_ip s) then insert (smp_ip s) addrs else addrs"
  obtain r where r: "callstacks_from_id cs (unat (smp_callstack_id s)) frames = Some (r, stack_of cs s)"
    "(\<exists>u. r = Inr u) \<or> from_id cs (unat (smp_callstack_id s)) = Some None"
    using callstacks_from_id_total [OF assms, of "unat (smp_callstack_id s)" frames] by (auto simp: stack_of_def)
  have "(case r of Inr _ \<Rightarrow> add_user_frames mapping (stack_of cs s) ?a1 | Inl _ \<Rightarrow> ?a1) =
      ?a1 \<union> {f \<in> set (stack_of cs s). user_ip mapping f}"
    using r(2) by (auto simp: add_user_frames_set stack_of_def split: sum.split)
  then show ?case
    using Cons [of "?a1 \<union> {f \<in> set (stack_of cs s). user_ip mapping f}" "stack_of cs s"] r(1)
    by (auto simp: Let_def)
qed simp

text \<open>The addresses the process was seen at, in its samples and their stacks.\<close>

definition seen_ips :: "interned_callstacks \<Rightarrow> 'o export_process \<Rightarrow> u64 set" where
  "seen_ips cs p = {ip. ip < KERNEL_START \<and> (\<exists>s \<in> set (ep_samples p). ip \<in> set (smp_ip s # stack_of cs s))}"

definition needed :: "interned_callstacks \<Rightarrow> 'o export_process \<Rightarrow> dynamic_symbol \<Rightarrow> bool" where
  "needed cs p symb \<longleftrightarrow> (ds_has_flag symb SYM_FLAG_MUST_MATCH \<longrightarrow>
     (\<exists>ip \<in> seen_ips cs p. page_of (ds_start symb) \<le> page_of ip \<and> page_of ip \<le> page_of (ds_end symb)))"

text \<open>A cached map is the one of the addresses seen.\<close>

definition page_map_ok :: "interned_callstacks \<Rightarrow> 'o export_process \<Rightarrow> bool" where
  "page_map_ok cs p \<longleftrightarrow>
     ep_page_map p \<in> {None, Some \<lparr>pm_pages = page_of ` seen_ips cs p, pm_page_size = 256, pm_page_mask = - 256\<rparr>}"

lemma needs_dynamic_symbol_spec:
  assumes "slices_inv h cs" "page_map_ok cs p" "ds_start symb \<le> ds_end symb" "unat (ds_end symb) + 256 < 2 ^ 64"
  shows "\<exists>pm. needs_dynamic_symbol p symb cs = Some (needed cs p symb, p\<lparr>ep_page_map := pm\<rparr>) \<and>
    page_map_ok cs (p\<lparr>ep_page_map := pm\<rparr>)"
proof -
  obtain fr where "get_unique_user_ips (ep_samples p) cs None = Some (seen_ips cs p, fr)"
    using add_user_samples_set [OF assms(1), of None "ep_samples p" "{}" "[]"]
    by (auto simp: get_unique_user_ips_def seen_ips_def user_ip_def conj_commute)
  then have build: "build_page_map p cs =
      Some \<lparr>pm_pages = page_of ` seen_ips cs p, pm_page_size = 256, pm_page_mask = - 256\<rparr>"
    by (simp add: build_page_map_def page_map_256 page_of_def [abs_def])
  have same: "seen_ips cs (p\<lparr>ep_page_map := pm\<rparr>) = seen_ips cs p" for pm by (simp add: seen_ips_def)
  show ?thesis
  proof (cases "ds_has_flag symb SYM_FLAG_MUST_MATCH")
    case True
    let ?pm = "\<lparr>pm_pages = page_of ` seen_ips cs p, pm_page_size = 256, pm_page_mask = - 256\<rparr>"
    have "(case ep_page_map p of Some pm \<Rightarrow> Ret pm | None \<Rightarrow> build_page_map p cs) = Some ?pm"
      using assms(2) build by (auto simp: page_map_ok_def)
    then show ?thesis
      using True seen_range_spec [OF assms(4,3), of "seen_ips cs p"]
      by (intro exI [of _ "Some ?pm"]) (simp add: needs_dynamic_symbol_def needed_def page_map_ok_def same)
  next
    case False
    have "p\<lparr>ep_page_map := ep_page_map p\<rparr> = p" by simp
    then show ?thesis
      using False assms(2) by (intro exI [of _ "ep_page_map p"]) (simp add: needs_dynamic_symbol_def needed_def)
  qed
qed

text \<open>The page map only ever saves work: with no cached map or a current one, a dynamic symbol that
  must match is kept exactly when the process was seen, in a sample or in a stack, on one of the 256-byte
  pages the symbol touches; so no symbol whose code was hit is dropped. Other symbols are always kept.
  The map stays current until the next sample, which clears it.\<close>

theorem needs_dynamic_symbol_exact:
  assumes "slices_inv h cs" "page_map_ok cs p" "ds_start symb \<le> ds_end symb" "unat (ds_end symb) + 256 < 2 ^ 64"
  shows "\<exists>keep p'. needs_dynamic_symbol p symb cs = Some (keep, p') \<and> page_map_ok cs p' \<and>
    (keep \<longleftrightarrow> ds_has_flag symb SYM_FLAG_MUST_MATCH \<longrightarrow>
       (\<exists>ip \<in> seen_ips cs p. page_of (ds_start symb) \<le> page_of ip \<and> page_of ip \<le> page_of (ds_end symb))) \<and>
    ((\<exists>ip \<in> seen_ips cs p. ds_start symb \<le> ip \<and> ip \<le> ds_end symb) \<longrightarrow> keep) \<and>
    page_map_ok cs (add_sample s p')"
proof -
  have hit: "page_of (ds_start symb) \<le> page_of ip \<and> page_of ip \<le> page_of (ds_end symb)"
    if "ds_start symb \<le> ip" "ip \<le> ds_end symb" for ip
    using that by (simp add: page_of_mono)
  obtain pm where pm: "needs_dynamic_symbol p symb cs = Some (needed cs p symb, p\<lparr>ep_page_map := pm\<rparr>)"
    "page_map_ok cs (p\<lparr>ep_page_map := pm\<rparr>)"
    using needs_dynamic_symbol_spec [OF assms] by blast
  then show ?thesis
    using hit
    by (intro exI [of _ "needed cs p symb"] exI [of _ "p\<lparr>ep_page_map := pm\<rparr>"])
      (auto simp: needed_def page_map_ok_def add_sample_def)
qed

text \<open>A sample at \<open>0x1010\<close>, a symbol on its page and one on the next.\<close>

definition sampled :: "unit export_process" where
  "sampled = add_sample (sample_new 3 (Count 1) 0 0 1 0x1010 0) (process_new () 5)"

definition must_match :: "u64 \<Rightarrow> u64 \<Rightarrow> dynamic_symbol" where
  "must_match a b = ds_set_flag SYM_FLAG_MUST_MATCH
     \<lparr>ds_time = 0, ds_pid = 5, ds_start = a, ds_end = b, ds_name = [], ds_flags = 0\<rparr>"

theorem needs_dynamic_symbol_exact_witness:
  "(\<exists>p'. needs_dynamic_symbol sampled (must_match 0x1020 0x1030) (slices_new 8) = Some (True, p')) \<and>
   (\<exists>p'. needs_dynamic_symbol sampled (must_match 0x1100 0x1130) (slices_new 8) = Some (False, p'))"
proof -
  have inv: "slices_inv (\<lambda>_. 0) (slices_new 8 :: interned_callstacks)" by (rule slices_new_inv)
  have cs: "stack_of (slices_new 8) s = []" for s
    by (simp add: stack_of_def from_id_contents [OF inv])
  have seen: "seen_ips (slices_new 8) sampled = {0x1010}" "ep_page_map sampled = None"
    by (auto simp: seen_ips_def cs sampled_def add_sample_def process_new_def sample_new_def KERNEL_START_def)
  have flag: "ds_has_flag (must_match a b) SYM_FLAG_MUST_MATCH" for a b
    by (simp add: ds_has_flag_def must_match_def ds_set_flag_def)
  have "page_map_ok (slices_new 8) sampled" using seen(2) by (simp add: page_map_ok_def)
  note spec = needs_dynamic_symbol_exact [OF inv this]
  show ?thesis
    using spec [of "must_match 0x1020 0x1030" undefined] spec [of "must_match 0x1100 0x1130" undefined]
    by (auto simp: seen flag page_of_def) (auto simp: must_match_def ds_set_flag_def)
qed

end
