(* ===== verification/SymReaders.thy ===== *)
theory SymReaders
  imports Process
begin

text \<open>
  The symbol readers of \<open>helpers/exporting/symbols.rs\<close> and what the exporter does with them:
  \<open>ExportMapping::add_matching_symbols\<close> (\<open>mappings.rs\<close>) and
  \<open>ExportProcess::add_matching_anon_symbols\<close> (\<open>process.rs\<close>). The trait \<open>ExportSymbolReader\<close> is the
  record \<open>reader_ops\<close> of its functions and the locale \<open>symbol_reader\<close> its contract: after a reset a
  reader lists its symbols once, in order. The readers of perf maps, of ready-to-run maps and of
  \<open>kallsyms\<close> are interpretations. A file is the list of its lines as \<open>read_line\<close> returns them, \<open>None\<close>
  for one that is not UTF-8; \<open>/proc/kallsyms\<close> is a parameter.
\<close>

section \<open>Text\<close>

text \<open>\<open>u64::from_str_radix(_, 16)\<close>: an optional \<open>+\<close>, at least one digit, digits only, in range.\<close>

definition hex_value :: "nat \<Rightarrow> nat option" where
  "hex_value c =
     (if 48 \<le> c \<and> c \<le> 57 then Some (c - 48) else if 97 \<le> c \<and> c \<le> 102 then Some (c - 87)
      else if 65 \<le> c \<and> c \<le> 70 then Some (c - 55) else None)"

fun hex_digits :: "ustr \<Rightarrow> nat \<Rightarrow> nat option" where
  "hex_digits [] acc = Some acc"
| "hex_digits (c # cs) acc =
     (case hex_value c of Some d \<Rightarrow> hex_digits cs (16 * acc + d) | None \<Rightarrow> None)"

definition parse_hex :: "nat \<Rightarrow> ustr \<Rightarrow> nat option" where
  "parse_hex bound s =
     (let digits = (if s \<noteq> [] \<and> hd s = 43 then tl s else s)
      in if digits = [] then None
         else (case hex_digits digits 0 of Some n \<Rightarrow> if n < bound then Some n else None | None \<Rightarrow> None))"

definition parse_hex64 :: "ustr \<Rightarrow> u64 option" where
  "parse_hex64 s = map_option of_nat (parse_hex (2 ^ 64) s)"

fun splitn :: "nat \<Rightarrow> nat \<Rightarrow> ustr \<Rightarrow> ustr list" where
  "splitn 0 c s = []"
| "splitn (Suc 0) c s = [s]"
| "splitn (Suc (Suc n)) c s =
     (if c \<in> set s then takeWhile (\<lambda>x. x \<noteq> c) s # splitn (Suc n) c (tl (dropWhile (\<lambda>x. x \<noteq> c) s)) else [s])"

text \<open>\<open>char::is_whitespace\<close>.\<close>

definition is_whitespace :: "nat \<Rightarrow> bool" where
  "is_whitespace c \<longleftrightarrow> 9 \<le> c \<and> c \<le> 13 \<or> c \<in> {32, 0x85, 0xA0, 0x1680, 0x2028, 0x2029, 0x202F, 0x205F, 0x3000} \<or>
     0x2000 \<le> c \<and> c \<le> 0x200A"

function split_whitespace :: "ustr \<Rightarrow> ustr list" where
  "split_whitespace s =
     (let t = dropWhile is_whitespace s
      in if t = [] then []
         else takeWhile (\<lambda>c. \<not> is_whitespace c) t # split_whitespace (dropWhile (\<lambda>c. \<not> is_whitespace c) t))"
  by pat_completeness auto
termination
proof (relation "measure length", simp)
  fix s t :: ustr
  assume t: "t = dropWhile is_whitespace s" "t \<noteq> []"
  then have "\<not> is_whitespace (hd t)" using hd_dropWhile by blast
  then have "length (dropWhile (\<lambda>c. \<not> is_whitespace c) t) < length t"
    using t(2) by (cases t) (auto simp: le_imp_less_Suc length_dropWhile_le)
  moreover have "length t \<le> length s" using t(1) by (simp add: length_dropWhile_le)
  ultimately show "(dropWhile (\<lambda>c. \<not> is_whitespace c) t, s) \<in> measure length" by simp
qed

declare split_whitespace.simps [simp del]

definition strip_0x :: "ustr \<Rightarrow> ustr" where
  "strip_0x s = (if take 2 s = [48, 120] \<or> take 2 s = [48, 88] then drop 2 s else s)"

definition trim_last :: "nat \<Rightarrow> ustr \<Rightarrow> ustr" where
  "trim_last c s = (if s \<noteq> [] \<and> last s = c then butlast s else s)"

text \<open>The name on a line: up to a null, without the end of the line.\<close>

definition line_name :: "ustr \<Rightarrow> ustr" where
  "line_name part = trim_last 13 (trim_last 10 (takeWhile (\<lambda>c. c \<noteq> 0) part))"

record text_file =
  tf_lines :: "ustr option list"
  tf_seekable :: bool

section \<open>The readers' interface\<close>

record 'r reader_ops =
  rd_reset :: "'r \<Rightarrow> 'r option"
  rd_next :: "'r \<Rightarrow> (bool \<times> 'r) option"
  rd_start :: "'r \<Rightarrow> u64 option"
  rd_end :: "'r \<Rightarrow> u64 option"
  rd_name :: "'r \<Rightarrow> ustr"
  rd_demangle :: "'r \<Rightarrow> (ustr option \<times> 'r) option"

type_synonym file_symbol = "u64 \<times> u64 \<times> ustr"

section \<open>Perf maps\<close>

record perf_reader =
  pm_file :: text_file
  pm_rest :: "ustr option list"
  pm_start :: u64
  pm_stop :: u64
  pm_name :: ustr
  pm_done :: bool

definition perf_new :: "text_file \<Rightarrow> perf_reader" where
  "perf_new f = \<lparr>pm_file = f, pm_rest = tf_lines f, pm_start = 0, pm_stop = 0, pm_name = [], pm_done = True\<rparr>"

text \<open>A line: a symbol, or nothing when it is malformed. The end overflows to a panic.\<close>

definition perf_line :: "ustr \<Rightarrow> file_symbol option option" where
  "perf_line l =
     (case splitn 3 32 l of
        start_str # parts \<Rightarrow>
          (case parse_hex64 (strip_0x start_str) of
             None \<Rightarrow> Ret None
           | Some start \<Rightarrow>
               (case parts of
                  [] \<Rightarrow> Ret None
                | size_str # names \<Rightarrow>
                    (case parse_hex64 size_str of
                       None \<Rightarrow> Ret None
                     | Some sz \<Rightarrow> do {
                         stop \<leftarrow> add64 start sz;
                         Ret (Some (start, stop, (case names of part # _ \<Rightarrow> line_name part | [] \<Rightarrow> [])))
                       })))
      | [] \<Rightarrow> Ret None)"

fun perf_load :: "ustr option list \<Rightarrow> perf_reader \<Rightarrow> perf_reader option" where
  "perf_load [] r = Ret (r\<lparr>pm_rest := [], pm_start := 0, pm_stop := 0, pm_name := [], pm_done := True\<rparr>)"
| "perf_load (None # ls) r = Ret (r\<lparr>pm_rest := ls, pm_start := 0, pm_stop := 0, pm_name := [], pm_done := True\<rparr>)"
| "perf_load (Some l # ls) r = do {
     p \<leftarrow> perf_line l;
     (case p of
        None \<Rightarrow> perf_load ls r
      | Some (start, stop, name) \<Rightarrow>
          Ret (r\<lparr>pm_rest := ls, pm_start := start, pm_stop := stop, pm_name := name, pm_done := False\<rparr>))
   }"

definition perf_reset :: "perf_reader \<Rightarrow> perf_reader option" where
  "perf_reset r =
     Ret (if tf_seekable (pm_file r) then r\<lparr>pm_rest := tf_lines (pm_file r), pm_done := False\<rparr>
          else r\<lparr>pm_start := 0, pm_stop := 0, pm_name := [], pm_done := True\<rparr>)"

definition perf_next :: "perf_reader \<Rightarrow> (bool \<times> perf_reader) option" where
  "perf_next r = (if pm_done r then Ret (False, r) else do { r' \<leftarrow> perf_load (pm_rest r) r; Ret (\<not> pm_done r', r') })"

definition perf_ops :: "perf_reader reader_ops" where
  "perf_ops = \<lparr>rd_reset = perf_reset, rd_next = perf_next, rd_start = \<lambda>r. Ret (pm_start r),
     rd_end = \<lambda>r. Ret (pm_stop r), rd_name = pm_name, rd_demangle = \<lambda>r. Ret (None, r)\<rparr>"

section \<open>Ready-to-run maps\<close>

record r2r_reader =
  rr_file :: text_file
  rr_rest :: "ustr option list"
  rr_start :: u64
  rr_stop :: u64
  rr_name :: ustr
  rr_done :: bool
  rr_signature :: "byte list"

definition r2r_new :: "text_file \<Rightarrow> r2r_reader" where
  "r2r_new f = \<lparr>rr_file = f, rr_rest = tf_lines f, rr_start = 0, rr_stop = 0, rr_name = [], rr_done = True,
     rr_signature = replicate 16 0\<rparr>"

text \<open>Here a malformed number is a panic (\<open>unwrap\<close>).\<close>

definition r2r_line :: "ustr \<Rightarrow> file_symbol option" where
  "r2r_line l =
     (case splitn 3 32 l of
        start_str # parts \<Rightarrow> do {
          start \<leftarrow> parse_hex64 (strip_0x start_str);
          (case parts of
             [] \<Rightarrow> Ret (start, 0, [])
           | size_str # names \<Rightarrow> do {
               sz \<leftarrow> parse_hex64 size_str;
               stop \<leftarrow> add64 start sz;
               Ret (start, stop, (case names of part # _ \<Rightarrow> line_name part | [] \<Rightarrow> []))
             })
        }
      | [] \<Rightarrow> Ret (0, 0, []))"

definition r2r_load :: "r2r_reader \<Rightarrow> r2r_reader option" where
  "r2r_load r =
     (case rr_rest r of
        Some l # ls \<Rightarrow> do {
          (start, stop, name) \<leftarrow> r2r_line l;
          Ret (r\<lparr>rr_rest := ls, rr_start := start, rr_stop := stop, rr_name := name, rr_done := False\<rparr>)
        }
      | rest \<Rightarrow> Ret (r\<lparr>rr_rest := tl rest, rr_start := 0, rr_stop := 0, rr_name := [], rr_done := True\<rparr>))"

text \<open>\<open>&name[a..b]\<close> of a string panics off a character boundary; the bytes of a pair that are not
  ASCII are no digits.\<close>

definition char_boundary :: "byte list \<Rightarrow> nat \<Rightarrow> bool" where
  "char_boundary bs i \<longleftrightarrow> i = 0 \<or> i = length bs \<or> i < length bs \<and> \<not> (0x80 \<le> bs ! i \<and> bs ! i < 0xC0)"

fun signature_bytes :: "byte list \<Rightarrow> nat list \<Rightarrow> byte list option option" where
  "signature_bytes bs [] = Ret (Some [])"
| "signature_bytes bs (i # is) =
     (if char_boundary bs (2 * i) \<and> char_boundary bs (2 * i + 2)
      then (case parse_hex 256 (map unat (take 2 (drop (2 * i) bs))) of
          None \<Rightarrow> Ret None
        | Some n \<Rightarrow> do { rest \<leftarrow> signature_bytes bs is; Ret (map_option (Cons (of_nat n)) rest) })
      else Panic)"

definition read_signature :: "ustr \<Rightarrow> byte list \<Rightarrow> byte list option option" where
  "read_signature name buf =
     (if length (as_bytes name) \<noteq> 32 then Ret (Some buf) else signature_bytes (as_bytes name) [0..<16])"

lemma r2r_load_less: "r2r_load r = Some r' \<Longrightarrow> \<not> rr_done r' \<Longrightarrow> length (rr_rest r') < length (rr_rest r)"
  by (auto simp: r2r_load_def Option.bind_eq_Some_conv split: list.splits option.splits)

text \<open>\<open>initialize\<close>: lines are consumed up to the signature's pseudo address.\<close>

function r2r_initialize :: "r2r_reader \<Rightarrow> r2r_reader option" where
  "r2r_initialize r =
     (case r2r_load r of
        None \<Rightarrow> Panic
      | Some r' \<Rightarrow>
          if rr_done r' then Ret r'
          else if rr_start r' = 0xFFFFFFFF then do {
            sig \<leftarrow> read_signature (rr_name r') (rr_signature r');
            Ret (r'\<lparr>rr_signature := (case sig of Some s \<Rightarrow> s | None \<Rightarrow> replicate 16 0)\<rparr>)
          }
          else r2r_initialize r')"
  by pat_completeness auto

termination
  by (relation "measure (\<lambda>r. length (rr_rest r))") (auto dest: r2r_load_less)

definition r2r_reset :: "r2r_reader \<Rightarrow> r2r_reader option" where
  "r2r_reset r =
     (if tf_seekable (rr_file r) then r2r_initialize (r\<lparr>rr_rest := tf_lines (rr_file r), rr_done := False\<rparr>)
      else Ret (r\<lparr>rr_start := 0, rr_stop := 0, rr_name := [], rr_done := True\<rparr>))"

function r2r_next :: "r2r_reader \<Rightarrow> (bool \<times> r2r_reader) option" where
  "r2r_next r =
     (if rr_done r then Ret (False, r)
      else (case r2r_load r of
          None \<Rightarrow> Panic
        | Some r' \<Rightarrow>
            if rr_done r' then Ret (False, r')
            else if rr_start r' \<le> 0xFFFFFFF0 then Ret (True, r')
            else r2r_next r'))"
  by pat_completeness auto

termination
  by (relation "measure (\<lambda>r. length (rr_rest r))") (auto dest: r2r_load_less)

declare r2r_initialize.simps [simp del] r2r_next.simps [simp del]

definition r2r_ops :: "r2r_reader reader_ops" where
  "r2r_ops = \<lparr>rd_reset = r2r_reset, rd_next = r2r_next, rd_start = \<lambda>r. Ret (rr_start r),
     rd_end = \<lambda>r. Ret (rr_stop r), rd_name = rr_name, rd_demangle = \<lambda>r. Ret (None, r)\<rparr>"

text \<open>\<open>R2RLoadedLayoutSymbolTransformer\<close>: the same symbols, seen from a mapping \<open>offset\<close> into the
  image.\<close>

definition layout_ops :: "u64 \<Rightarrow> 'r reader_ops \<Rightarrow> 'r reader_ops" where
  "layout_ops offset ops =
     ops\<lparr>rd_start := \<lambda>r. do { s \<leftarrow> rd_start ops r; sub64 s offset },
         rd_end := \<lambda>r. do { e \<leftarrow> rd_end ops r; sub64 e offset }\<rparr>"

section \<open>Kernel symbols\<close>

record kernel_reader =
  kr_file :: "text_file option"
  kr_rest :: "ustr option list"
  kr_ip :: u64
  kr_stop :: "u64 option"
  kr_name :: ustr
  kr_next_ip :: "u64 option"
  kr_next_name :: ustr
  kr_done :: bool

definition kernel_new :: kernel_reader where
  "kernel_new = \<lparr>kr_file = None, kr_rest = [], kr_ip = 0, kr_stop = None, kr_name = [], kr_next_ip = None,
     kr_next_name = [], kr_done = True\<rparr>"

text \<open>The columns of a line: address, type, symbol and module.\<close>

definition kallsyms_line :: "ustr \<Rightarrow> (u64 \<times> ustr \<times> ustr) option" where
  "kallsyms_line l = (
     let parts = split_whitespace l in do {
     addr \<leftarrow> (case parts of a # _ \<Rightarrow> parse_hex64 a | [] \<Rightarrow> Ret 0);
     let symtype = (case parts of _ # t # _ \<Rightarrow> t | _ \<Rightarrow> []);
     let method = (case parts of _ # _ # m # _ \<Rightarrow> m | _ \<Rightarrow> []);
     Ret (addr, symtype, (case parts of _ # _ # _ # module # _ \<Rightarrow> module @ [32] @ method | _ \<Rightarrow> method))
   })"

definition is_method :: "ustr \<Rightarrow> bool" where
  "is_method symtype \<longleftrightarrow> symtype \<noteq> [] \<and> hd symtype \<in> {116, 84}"

text \<open>The loop that loads the next symbol; a line after the current symbol's gives it its end.\<close>

fun kernel_scan :: "ustr option list \<Rightarrow> kernel_reader \<Rightarrow> kernel_reader option" where
  "kernel_scan [] r = Ret (r\<lparr>kr_rest := [], kr_done := True\<rparr>)"
| "kernel_scan (None # ls) r = Ret (r\<lparr>kr_rest := ls, kr_done := True\<rparr>)"
| "kernel_scan (Some l # ls) r = do {
     (addr, symtype, name) \<leftarrow> kallsyms_line l;
     stop \<leftarrow> (if kr_stop r = None \<and> kr_ip r \<noteq> 0 then do { e \<leftarrow> sub64 addr 1; Ret (Some e) } else Ret (kr_stop r));
     let r = r\<lparr>kr_stop := stop\<rparr>;
     (if is_method symtype
      then Ret (r\<lparr>kr_rest := ls, kr_next_ip := Some addr, kr_next_name := kr_next_name r @ name, kr_done := False\<rparr>)
      else kernel_scan ls r)
   }"

definition kernel_shift :: "kernel_reader \<Rightarrow> kernel_reader" where
  "kernel_shift r =
     (case kr_next_ip r of
        Some ip \<Rightarrow> r\<lparr>kr_ip := ip, kr_stop := None, kr_name := kr_next_name r, kr_next_ip := None, kr_next_name := []\<rparr>
      | None \<Rightarrow> r)"

definition kernel_load :: "kernel_reader \<Rightarrow> kernel_reader option" where
  "kernel_load r = (
     let r = kernel_shift r
     in case kr_file r of
          Some _ \<Rightarrow> kernel_scan (kr_rest r) r
        | None \<Rightarrow> Ret (r\<lparr>kr_done := True\<rparr>))"

definition kernel_open :: "text_file \<Rightarrow> kernel_reader \<Rightarrow> kernel_reader option" where
  "kernel_open f r = kernel_load (r\<lparr>kr_file := Some f, kr_rest := tf_lines f, kr_done := False\<rparr>)"

definition kernel_reset :: "text_file option \<Rightarrow> kernel_reader \<Rightarrow> kernel_reader option" where
  "kernel_reset proc_kallsyms r = (
     let r = r\<lparr>kr_ip := 0, kr_stop := None, kr_next_ip := None, kr_done := True\<rparr>
     in case kr_file r of
          Some f \<Rightarrow>
            if tf_seekable f then kernel_open f r
            else (case proc_kallsyms of Some g \<Rightarrow> kernel_open g r | None \<Rightarrow> Ret r)
        | None \<Rightarrow> (case proc_kallsyms of Some g \<Rightarrow> kernel_open g r | None \<Rightarrow> Ret r))"

definition kernel_set_file :: "text_file option \<Rightarrow> text_file \<Rightarrow> kernel_reader \<Rightarrow> kernel_reader option" where
  "kernel_set_file proc_kallsyms f r = kernel_reset proc_kallsyms (r\<lparr>kr_file := Some f, kr_rest := tf_lines f\<rparr>)"

definition kernel_next :: "kernel_reader \<Rightarrow> (bool \<times> kernel_reader) option" where
  "kernel_next r = (if kr_done r then Ret (False, r) else do { r' \<leftarrow> kernel_load r; Ret (True, r') })"

definition kernel_ops :: "text_file option \<Rightarrow> kernel_reader reader_ops" where
  "kernel_ops proc_kallsyms = \<lparr>rd_reset = kernel_reset proc_kallsyms, rd_next = kernel_next,
     rd_start = \<lambda>r. Ret (kr_ip r), rd_end = \<lambda>r. Ret (case kr_stop r of Some e \<Rightarrow> e | None \<Rightarrow> - 1),
     rd_name = kr_name, rd_demangle = \<lambda>r. Ret (None, r)\<rparr>"

section \<open>Adding the symbols that samples hit\<close>

text \<open>\<open>binary_search\<close> in the sorted addresses: found, or the address at the insertion point is at
  most the end.\<close>

definition symbol_hit :: "u64 list \<Rightarrow> u64 \<Rightarrow> u64 \<Rightarrow> bool" where
  "symbol_hit ips start_ip end_ip =
     (if start_ip \<in> set ips then True
      else let i = length (takeWhile (\<lambda>ip. ip < start_ip) ips);
               addr = (if i < length ips then ips ! i else 0)
           in i < length ips \<and> addr \<le> end_ip)"

partial_function (option) match_symbols ::
  "'r reader_ops \<Rightarrow> (byte list \<Rightarrow> u64) \<Rightarrow> u64 list \<Rightarrow> 'r \<Rightarrow> export_mapping \<Rightarrow> interned_strings \<Rightarrow>
   (export_mapping \<times> 'r \<times> interned_strings) option" where
  "match_symbols ops h ips r m strings = do {
     (more, r) \<leftarrow> rd_next ops r;
     if \<not> more then Ret (m, r, strings)
     else do {
       start \<leftarrow> rd_start ops r;
       stop \<leftarrow> rd_end ops r;
       range \<leftarrow> file_to_va_range m start stop;
       (case range of
          None \<Rightarrow> match_symbols ops h ips r m strings
        | Some (start_ip, end_ip) \<Rightarrow>
            if symbol_hit ips start_ip end_ip then do {
              (demangled, r) \<leftarrow> rd_demangle ops r;
              let name = (case demangled of Some n \<Rightarrow> n | None \<Rightarrow> rd_name ops r);
              (name_id, strings) \<leftarrow> strings_to_id h strings (as_bytes name);
              match_symbols ops h ips r
                (add_symbol m \<lparr>sym_name_id = name_id, sym_start = start_ip, sym_end = end_ip\<rparr>) strings
            }
            else match_symbols ops h ips r m strings)
     }
   }"

definition add_matching_symbols ::
  "'r reader_ops \<Rightarrow> (byte list \<Rightarrow> u64) \<Rightarrow> u64 list \<Rightarrow> 'r \<Rightarrow> export_mapping \<Rightarrow> interned_strings \<Rightarrow>
   (export_mapping \<times> 'r \<times> interned_strings) option" where
  "add_matching_symbols ops h unique_ips r m strings = do {
     r \<leftarrow> rd_reset ops r;
     match_symbols ops h (sort unique_ips) r m strings
   }"

text \<open>\<open>add_matching_anon_symbols\<close>: the addresses of a mapping are a set that is listed in some order
  and sorted at once, so the list is the sorted one.\<close>

fun match_anon_mappings ::
  "'r reader_ops \<Rightarrow> (byte list \<Rightarrow> u64) \<Rightarrow> export_sample list \<Rightarrow> interned_callstacks \<Rightarrow> export_mapping list \<Rightarrow>
   'r \<Rightarrow> interned_strings \<Rightarrow> (export_mapping list \<times> 'r \<times> interned_strings) option" where
  "match_anon_mappings ops h samples cs [] r strings = Ret ([], r, strings)"
| "match_anon_mappings ops h samples cs (m # ms) r strings =
     (if \<not> map_anon m then do {
        (ms', r, strings) \<leftarrow> match_anon_mappings ops h samples cs ms r strings;
        Ret (m # ms', r, strings)
      } else do {
        (addrs, _) \<leftarrow> get_unique_user_ips samples cs (Some m);
        (m', r, strings) \<leftarrow> (if addrs = {} then Ret (m, r, strings)
          else add_matching_symbols ops h (sorted_list_of_set addrs) r m strings);
        (ms', r, strings) \<leftarrow> match_anon_mappings ops h samples cs ms r strings;
        Ret (m' # ms', r, strings)
      })"

definition add_matching_anon_symbols ::
  "'r reader_ops \<Rightarrow> (byte list \<Rightarrow> u64) \<Rightarrow> interned_callstacks \<Rightarrow> 'o export_process \<Rightarrow> 'r \<Rightarrow> interned_strings \<Rightarrow>
   ('o export_process \<times> 'r \<times> interned_strings) option" where
  "add_matching_anon_symbols ops h cs p r strings = do {
     (ms, r, strings) \<leftarrow> match_anon_mappings ops h (ep_samples p) cs (process_mappings p) r strings;
     Ret (p\<lparr>ep_mappings := mappings_mut (ep_mappings p) (\<lambda>_. ms)\<rparr>, r, strings)
   }"

section \<open>The contract of a reader\<close>

text \<open>From a state on, a reader lists these symbols and then ends.\<close>

inductive lists :: "'r reader_ops \<Rightarrow> 'r \<Rightarrow> file_symbol list \<Rightarrow> bool" for ops :: "'r reader_ops" where
  lists_end: "rd_next ops r = Some (False, r') \<Longrightarrow> lists ops r []"
| lists_next: "rd_next ops r = Some (True, r') \<Longrightarrow> rd_start ops r' = Some start \<Longrightarrow> rd_end ops r' = Some stop \<Longrightarrow>
    rd_demangle ops r' = Some (demangled, r') \<Longrightarrow>
    name = (case demangled of Some n \<Rightarrow> n | None \<Rightarrow> rd_name ops r') \<Longrightarrow> lists ops r' syms \<Longrightarrow>
    lists ops r ((start, stop, name) # syms)"

inductive_cases lists_NilE: "lists ops r []"
inductive_cases lists_ConsE: "lists ops r ((start, stop, name) # syms)"

text \<open>The symbols of a mapping that addresses hit.\<close>

definition hits :: "u64 list \<Rightarrow> u64 \<Rightarrow> u64 \<Rightarrow> bool" where
  "hits ips a b \<longleftrightarrow> a \<in> set ips \<or> (\<exists>ip \<in> set ips. a \<le> ip \<and> ip \<le> b)"

fun wanted :: "export_mapping \<Rightarrow> u64 list \<Rightarrow> file_symbol list \<Rightarrow> file_symbol list" where
  "wanted m ips [] = []"
| "wanted m ips ((start, stop, name) # syms) =
     (case file_to_va_range m start stop of
        Some (Some (a, b)) \<Rightarrow> if hits ips a b then (a, b, name) # wanted m ips syms else wanted m ips syms
      | _ \<Rightarrow> wanted m ips syms)"

lemma symbol_hit_iff:
  assumes "sorted ips"
  shows "symbol_hit ips a b \<longleftrightarrow> hits ips a b"
proof (cases "a \<in> set ips")
  case False
  let ?i = "length (takeWhile (\<lambda>ip. ip < a) ips)"
  have taken: "take ?i ips = takeWhile (\<lambda>ip. ip < a) ips" by (rule takeWhile_eq_take [symmetric])
  show ?thesis
  proof (cases "?i < length ips")
    case True
    have ge: "a \<le> ips ! ?i" using nth_length_takeWhile [OF True] by simp
    have low: "ip < a" if "ip \<in> set (take ?i ips)" for ip
      using that unfolding taken by (blast dest: set_takeWhileD)
    have high: "ips ! ?i \<le> ip" if "ip \<in> set (drop ?i ips)" for ip
      by (rule sorted_head_le [of "\<lambda>ip. ip" ips ?i, OF _ _ that]) (use assms True in \<open>simp_all add: nth_opt_def\<close>)
    have "ips ! ?i \<le> b" if ip: "ip \<in> set ips" "a \<le> ip" "ip \<le> b" for ip
    proof -
      have "ip \<in> set (take ?i ips @ drop ?i ips)" using ip(1) by (simp only: append_take_drop_id)
      moreover have "ip \<notin> set (take ?i ips)" using low ip(2) by (auto simp only: not_less [symmetric])
      ultimately have "ip \<in> set (drop ?i ips)" by (simp only: set_append Un_iff simp_thms)
      from high [OF this] show ?thesis using ip(3) by (rule order_trans)
    qed
    moreover have "ips ! ?i \<in> set ips" using True by simp
    ultimately show ?thesis
      using False True ge by (auto simp: symbol_hit_def hits_def Let_def)
  next
    case none: False
    then have "takeWhile (\<lambda>ip. ip < a) ips = ips"
      by (metis length_takeWhile_le linorder_neqE_nat not_less takeWhile_eq_take take_all)
    then have "\<forall>ip \<in> set ips. ip < a" by (metis set_takeWhileD)
    then show ?thesis using False none by (auto simp: symbol_hit_def hits_def Let_def)
  qed
qed (simp add: symbol_hit_def hits_def)

section \<open>What add\_matching\_symbols adds\<close>

lemma file_to_va_range_add [simp]: "file_to_va_range (add_symbol m symb) a b = file_to_va_range m a b"
proof -
  have "map_start (add_symbol m symb) = map_start m" "map_end (add_symbol m symb) = map_end m"
    "map_file_offset (add_symbol m symb) = map_file_offset m" "map_anon (add_symbol m symb) = map_anon m"
    by (simp_all add: add_symbol_def)
  then show ?thesis unfolding file_to_va_range_def mapping_len_def by (simp only:)
qed

lemma wanted_add [simp]: "wanted (add_symbol m symb) ips syms = wanted m ips syms"
  by (induction syms) (auto split: option.split)

text \<open>The new symbols are the wanted ones, under ids that stand for their names.\<close>

definition named :: "interned_strings \<Rightarrow> file_symbol \<Rightarrow> export_symbol \<Rightarrow> bool" where
  "named strings f symb \<longleftrightarrow> (case f of (a, b, name) \<Rightarrow> sym_start symb = a \<and> sym_end symb = b \<and>
     strings_from_id strings (sym_name_id symb) = Some (Inr (as_bytes name)))"

definition resolves :: "interned_strings \<Rightarrow> export_symbol \<Rightarrow> byte list \<Rightarrow> bool" where
  "resolves strings symb name \<longleftrightarrow> strings_from_id strings (sym_name_id symb) = Some (Inr name)"

lemma resolves_iff:
  "slices_inv h s \<Longrightarrow> resolves s symb name \<longleftrightarrow>
     sym_name_id symb < length (slices_contents s) \<and> slices_contents s ! sym_name_id symb = name"
  by (auto simp: resolves_def strings_from_id_def from_id_contents)

text \<open>One reader's symbols are matched in order; the table of strings only grows.\<close>

lemma match_symbols_spec:
  assumes "lists ops r syms" "sorted ips" "slices_inv h strings"
    "\<forall>(start, stop, name) \<in> set syms. file_to_va_range m start stop \<noteq> None"
  shows "\<exists>m' r' strings' new. match_symbols ops h ips r m strings = Some (m', r', strings') \<and>
    m' = m\<lparr>map_symbols := map_symbols m @ new\<rparr> \<and> slices_inv h strings' \<and>
    list_all2 (\<lambda>(a, b, name) symb. sym_start symb = a \<and> sym_end symb = b \<and> resolves strings' symb (as_bytes name))
      (wanted m ips syms) new \<and>
    (\<forall>symb bs. resolves strings symb bs \<longrightarrow> resolves strings' symb bs)"
  using assms
proof (induction arbitrary: m strings rule: lists.induct)
  case (lists_end r r')
  then show ?case
    by (subst match_symbols.simps) (auto intro!: exI [of _ "[]"])
next
  case (lists_next r r' start stop demangled name syms)
  let ?f = "\<lambda>strings. \<lambda>(a, b, name) symb. sym_start symb = a \<and> sym_end symb = b \<and> resolves strings symb (as_bytes name)"
  obtain range where range: "file_to_va_range m start stop = Some range" using lists_next.prems(3) by auto
  have rest: "\<forall>(start, stop, name) \<in> set syms. file_to_va_range m start stop \<noteq> None"
    using lists_next.prems(3) by auto
  show ?case
  proof (cases "\<exists>a b. range = Some (a, b) \<and> hits ips a b")
    case False
    then have "wanted m ips ((start, stop, name) # syms) = wanted m ips syms"
      using range by (auto split: option.splits)
    moreover have "match_symbols ops h ips r m strings = match_symbols ops h ips r' m strings"
      using lists_next.hyps(1-5) range False lists_next.prems(1)
      by (subst match_symbols.simps) (auto simp: symbol_hit_iff split: option.splits)
    ultimately show ?thesis
      using lists_next.IH [OF lists_next.prems(1,2) rest] by simp
  next
    case True
    then obtain a b where ab: "range = Some (a, b)" "hits ips a b" by blast
    obtain i s1 where intern: "to_id h strings (as_bytes name) = Some (i, s1)"
      using sl.intern_spec [OF lists_next.prems(2), of "as_bytes name"] by blast
    note s1 = sl.intern_SomeD [OF lists_next.prems(2) intern]
    let ?symb = "\<lparr>sym_name_id = i, sym_start = a, sym_end = b\<rparr>"
    have step: "match_symbols ops h ips r m strings = match_symbols ops h ips r' (add_symbol m ?symb) s1"
      using lists_next.hyps(1-5) range ab lists_next.prems(1) intern
      by (subst match_symbols.simps) (simp add: symbol_hit_iff strings_to_id_def)
    obtain m' r'' s2 new where m': "match_symbols ops h ips r' (add_symbol m ?symb) s1 = Some (m', r'', s2)"
      "m' = (add_symbol m ?symb)\<lparr>map_symbols := map_symbols (add_symbol m ?symb) @ new\<rparr>" "slices_inv h s2"
      "list_all2 (?f s2) (wanted m ips syms) new" "\<forall>symb bs. resolves s1 symb bs \<longrightarrow> resolves s2 symb bs"
      using lists_next.IH [OF lists_next.prems(1) s1(1), of "add_symbol m ?symb"] rest by auto
    have "resolves s1 ?symb (as_bytes name)" using s1 by (simp add: resolves_iff [OF s1(1)])
    then have "list_all2 (?f s2) (wanted m ips ((start, stop, name) # syms)) (?symb # new)"
      using m'(4,5) range ab by simp
    moreover have "\<forall>symb bs. resolves strings symb bs \<longrightarrow> resolves s1 symb bs"
      using s1(4) by (auto simp: resolves_iff [OF s1(1)] resolves_iff [OF lists_next.prems(2)] nth_append)
    ultimately show ?thesis
      using m' step by (intro exI [of _ m'] exI [of _ r''] exI [of _ s2] exI [of _ "?symb # new"])
        (auto simp: add_symbol_def)
  qed
qed

text \<open>The interface: a reader that keeps its invariant lists \<open>contents\<close> after a reset.\<close>

locale symbol_reader =
  fixes ops :: "'r reader_ops"
    and reader_ok :: "'r \<Rightarrow> bool"
    and contents :: "'r \<Rightarrow> file_symbol list"
  assumes reset_lists: "reader_ok r \<Longrightarrow> \<exists>r'. rd_reset ops r = Some r' \<and> lists ops r' (contents r)"
begin

lemma adds_wanted:
  assumes "reader_ok r" "slices_inv h strings"
    "\<forall>(start, stop, name) \<in> set (contents r). file_to_va_range m start stop \<noteq> None"
  shows "\<exists>m' r' strings' new. add_matching_symbols ops h ips r m strings = Some (m', r', strings') \<and>
    m' = m\<lparr>map_symbols := map_symbols m @ new\<rparr> \<and> slices_inv h strings' \<and>
    list_all2 (\<lambda>(a, b, name) symb. sym_start symb = a \<and> sym_end symb = b \<and> resolves strings' symb (as_bytes name))
      (wanted m (sort ips) (contents r)) new \<and>
    (\<forall>symb bs. resolves strings symb bs \<longrightarrow> resolves strings' symb bs)"
proof -
  obtain r1 where "rd_reset ops r = Some r1" "lists ops r1 (contents r)"
    using reset_lists [OF assms(1)] by blast
  then show ?thesis
    using match_symbols_spec [OF _ sorted_sort assms(2,3), of ops r1 ips] by (simp add: add_matching_symbols_def)
qed

end

section \<open>The perf map reader keeps the contract\<close>

text \<open>The symbols of a perf map: of its lines up to the first that is not UTF-8, the well-formed
  ones; nothing when an end overflows.\<close>

fun perf_contents :: "ustr option list \<Rightarrow> file_symbol list option" where
  "perf_contents [] = Some []"
| "perf_contents (None # ls) = Some []"
| "perf_contents (Some l # ls) =
     (case perf_line l of
        None \<Rightarrow> None
      | Some None \<Rightarrow> perf_contents ls
      | Some (Some f) \<Rightarrow> map_option (Cons f) (perf_contents ls))"

lemma perf_load_contents:
  "perf_contents ls = Some syms \<Longrightarrow>
   (case syms of
      [] \<Rightarrow> \<exists>r'. perf_load ls r = Some r' \<and> pm_done r'
    | (start, stop, name) # syms' \<Rightarrow> \<exists>ls'. perf_contents ls' = Some syms' \<and> length ls' < length ls \<and>
        perf_load ls r = Some (r\<lparr>pm_rest := ls', pm_start := start, pm_stop := stop, pm_name := name, pm_done := False\<rparr>))"
proof (induction ls r arbitrary: syms rule: perf_load.induct)
  case (3 l ls r)
  then show ?case
    by (cases "perf_line l") (fastforce split: option.splits list.splits)+
qed auto

lemma perf_lists:
  "perf_contents (pm_rest r) = Some syms \<Longrightarrow> \<not> pm_done r \<Longrightarrow> lists perf_ops r syms"
proof (induction syms arbitrary: r)
  case Nil
  then obtain r' where "perf_load (pm_rest r) r = Some r'" "pm_done r'"
    using perf_load_contents [OF Nil(1), of r] by auto
  then show ?case
    using Nil(2) by (intro lists_end [of _ _ r']) (simp add: perf_ops_def perf_next_def)
next
  case (Cons f syms)
  obtain start stop name where f: "f = (start, stop, name)" by (cases f) auto
  obtain ls' where "perf_contents ls' = Some syms"
    "perf_load (pm_rest r) r = Some (r\<lparr>pm_rest := ls', pm_start := start, pm_stop := stop, pm_name := name, pm_done := False\<rparr>)"
    using perf_load_contents [OF Cons.prems(1), of r] f by auto
  then show ?case
    unfolding f using Cons.prems(2)
    by (intro lists_next [where demangled = None and r' = "r\<lparr>pm_rest := ls', pm_start := start, pm_stop := stop, pm_name := name, pm_done := False\<rparr>"] Cons.IH)
      (simp_all add: perf_ops_def perf_next_def)
qed

definition perf_ok :: "perf_reader \<Rightarrow> bool" where
  "perf_ok r \<longleftrightarrow> tf_seekable (pm_file r) \<and> perf_contents (tf_lines (pm_file r)) \<noteq> None"

interpretation perf: symbol_reader perf_ops perf_ok "\<lambda>r. the (perf_contents (tf_lines (pm_file r)))"
proof unfold_locales
  fix r assume ok: "perf_ok r"
  let ?r = "r\<lparr>pm_rest := tf_lines (pm_file r), pm_done := False\<rparr>"
  have "lists perf_ops ?r (the (perf_contents (tf_lines (pm_file r))))"
    by (rule perf_lists) (use ok in \<open>auto simp: perf_ok_def\<close>)
  moreover have "rd_reset perf_ops r = Some ?r"
    using ok by (simp add: perf_ops_def perf_reset_def perf_ok_def)
  ultimately show "\<exists>r'. rd_reset perf_ops r = Some r' \<and> lists perf_ops r' (the (perf_contents (tf_lines (pm_file r))))"
    by blast
qed

section \<open>The ready-to-run map reader keeps the contract\<close>

fun r2r_records :: "ustr option list \<Rightarrow> file_symbol list option" where
  "r2r_records (Some l # ls) = do { f \<leftarrow> r2r_line l; fs \<leftarrow> r2r_records ls; Some (f # fs) }"
| "r2r_records _ = Some []"

text \<open>The symbols after the header that ends with the signature, without the pseudo addresses.\<close>

definition r2r_symbols :: "file_symbol list \<Rightarrow> file_symbol list" where
  "r2r_symbols fs = filter (\<lambda>f. fst f \<le> 0xFFFFFFF0) (tl (dropWhile (\<lambda>f. fst f \<noteq> 0xFFFFFFFF) fs))"

lemma r2r_load_records:
  "r2r_records (rr_rest r) = Some fs \<Longrightarrow>
   (case fs of
      [] \<Rightarrow> \<exists>r'. r2r_load r = Some r' \<and> rr_done r'
    | (start, stop, name) # fs' \<Rightarrow> \<exists>ls. r2r_records ls = Some fs' \<and>
        r2r_load r = Some (r\<lparr>rr_rest := ls, rr_start := start, rr_stop := stop, rr_name := name, rr_done := False\<rparr>))"
  by (cases "rr_rest r" rule: r2r_records.cases)
    (auto simp: r2r_load_def Option.bind_eq_Some_conv split: list.splits)

lemma r2r_next_lists:
  "r2r_records (rr_rest r) = Some fs \<Longrightarrow> \<not> rr_done r \<Longrightarrow>
   lists r2r_ops r (filter (\<lambda>f. fst f \<le> 0xFFFFFFF0) fs)"
proof (induction fs arbitrary: r)
  case Nil
  then obtain r' where "r2r_load r = Some r'" "rr_done r'"
    using r2r_load_records [OF Nil(1)] by auto
  then show ?case
    using Nil(2) by (auto intro!: lists_end [of _ _ r'] simp: r2r_ops_def r2r_next.simps [of r])
next
  case (Cons f fs)
  obtain start stop name where f: "f = (start, stop, name)" by (cases f) auto
  obtain ls where ls: "r2r_records ls = Some fs"
    "r2r_load r = Some (r\<lparr>rr_rest := ls, rr_start := start, rr_stop := stop, rr_name := name, rr_done := False\<rparr>)"
    (is "_ = Some ?r")
    using r2r_load_records [OF Cons.prems(1)] f by auto
  have IH: "lists r2r_ops ?r (filter (\<lambda>f. fst f \<le> 0xFFFFFFF0) fs)"
    using ls(1) by (intro Cons.IH) simp_all
  have next_r: "r2r_next r = (if start \<le> 0xFFFFFFF0 then Some (True, ?r) else r2r_next ?r)"
    using Cons.prems(2) ls(2) by (subst r2r_next.simps) simp
  show ?case
  proof (cases "start \<le> 0xFFFFFFF0")
    case True
    then have "lists r2r_ops r ((start, stop, name) # filter (\<lambda>f. fst f \<le> 0xFFFFFFF0) fs)"
      using next_r by (intro lists_next [where demangled = None and r' = ?r] IH) (simp_all add: r2r_ops_def)
    then show ?thesis unfolding f using True by simp
  next
    case False
    have "lists r2r_ops r syms" if "lists r2r_ops ?r syms" for syms
      using that next_r False
      by (cases rule: lists.cases) (auto intro: lists.intros simp: r2r_ops_def)
    then show ?thesis unfolding f using False IH by simp
  qed
qed

text \<open>The header of the file: it names the symbols and holds the signature.\<close>

lemma r2r_initialize_lists:
  "r2r_records (rr_rest r) = Some fs \<Longrightarrow>
   \<forall>f \<in> set fs. fst f = 0xFFFFFFFF \<longrightarrow> read_signature (snd (snd f)) (rr_signature r) \<noteq> None \<Longrightarrow>
   \<exists>r'. r2r_initialize r = Some r' \<and> lists r2r_ops r' (r2r_symbols fs)"
proof (induction fs arbitrary: r)
  case Nil
  then obtain r' where "r2r_load r = Some r'" "rr_done r'"
    using r2r_load_records [OF Nil(1)] by auto
  then show ?case
    by (subst r2r_initialize.simps) (auto intro!: lists_end [of _ _ r'] simp: r2r_ops_def r2r_next.simps [of r'] r2r_symbols_def)
next
  case (Cons f fs)
  obtain start stop name where f: "f = (start, stop, name)" by (cases f) auto
  obtain ls where ls: "r2r_records ls = Some fs"
    "r2r_load r = Some (r\<lparr>rr_rest := ls, rr_start := start, rr_stop := stop, rr_name := name, rr_done := False\<rparr>)"
    (is "_ = Some ?r")
    using r2r_load_records [OF Cons.prems(1)] f by auto
  show ?case
  proof (cases "start = 0xFFFFFFFF")
    case True
    then obtain sig where "read_signature name (rr_signature r) = Some sig" using Cons.prems(2) f by auto
    define s where "s = (case sig of Some s \<Rightarrow> s | None \<Rightarrow> replicate 16 0)"
    have "r2r_initialize r = Some (?r\<lparr>rr_signature := s\<rparr>)"
      using True ls(2) \<open>read_signature name _ = _\<close> by (subst r2r_initialize.simps) (simp add: s_def)
    moreover have "lists r2r_ops (?r\<lparr>rr_signature := s\<rparr>) (filter (\<lambda>f. fst f \<le> 0xFFFFFFF0) fs)"
      using ls(1) by (intro r2r_next_lists) simp_all
    ultimately show ?thesis using True f by (simp add: r2r_symbols_def)
  next
    case False
    then have "r2r_initialize r = r2r_initialize ?r" using ls(2) by (subst r2r_initialize.simps) simp
    moreover have "\<exists>r'. r2r_initialize ?r = Some r' \<and> lists r2r_ops r' (r2r_symbols fs)"
      using ls(1) Cons.prems(2) by (intro Cons.IH) simp_all
    ultimately show ?thesis using False f by (simp add: r2r_symbols_def)
  qed
qed

definition r2r_ok :: "r2r_reader \<Rightarrow> bool" where
  "r2r_ok r \<longleftrightarrow> tf_seekable (rr_file r) \<and> (\<exists>fs. r2r_records (tf_lines (rr_file r)) = Some fs \<and>
     (\<forall>f \<in> set fs. fst f = 0xFFFFFFFF \<longrightarrow> read_signature (snd (snd f)) (rr_signature r) \<noteq> None))"

interpretation r2r: symbol_reader r2r_ops r2r_ok "\<lambda>r. r2r_symbols (the (r2r_records (tf_lines (rr_file r))))"
proof unfold_locales
  fix r assume ok: "r2r_ok r"
  then obtain fs where fs: "r2r_records (tf_lines (rr_file r)) = Some fs"
    "\<forall>f \<in> set fs. fst f = 0xFFFFFFFF \<longrightarrow> read_signature (snd (snd f)) (rr_signature r) \<noteq> None"
    by (auto simp: r2r_ok_def)
  have "\<exists>r'. r2r_initialize (r\<lparr>rr_rest := tf_lines (rr_file r), rr_done := False\<rparr>) = Some r' \<and>
      lists r2r_ops r' (r2r_symbols fs)"
    by (rule r2r_initialize_lists) (use fs in simp_all)
  then show "\<exists>r'. rd_reset r2r_ops r = Some r' \<and> lists r2r_ops r' (r2r_symbols (the (r2r_records (tf_lines (rr_file r)))))"
    using ok fs(1) by (simp add: r2r_ops_def r2r_reset_def r2r_ok_def)
qed

section \<open>The kernel symbol reader keeps the contract\<close>

text \<open>A parsed line: address, whether it is a method, and name. The symbols are the methods, each up
  to the address of the next line.\<close>

fun kallsyms_lines :: "ustr option list \<Rightarrow> (u64 \<times> bool \<times> ustr) list option" where
  "kallsyms_lines (Some l # ls) = do {
     (addr, symtype, name) \<leftarrow> kallsyms_line l;
     rest \<leftarrow> kallsyms_lines ls;
     Some ((addr, is_method symtype, name) # rest)
   }"
| "kallsyms_lines _ = Some []"

definition line_end :: "(u64 \<times> bool \<times> ustr) list \<Rightarrow> u64" where
  "line_end ls = (case ls of (b, _) # _ \<Rightarrow> b - 1 | [] \<Rightarrow> - 1)"

fun kernel_symbols :: "(u64 \<times> bool \<times> ustr) list \<Rightarrow> file_symbol list" where
  "kernel_symbols [] = []"
| "kernel_symbols ((a, meth, name) # ls) =
     (if meth then (a, line_end ls, name) # kernel_symbols ls else kernel_symbols ls)"

text \<open>What the scan leaves, from a reader whose next symbol is empty.\<close>

lemma kernel_scan_lines:
  "kallsyms_lines ls = Some ps \<Longrightarrow> \<forall>p \<in> set ps. fst p \<noteq> 0 \<Longrightarrow> kr_next_ip r = None \<Longrightarrow> kr_next_name r = [] \<Longrightarrow>
   \<exists>r'. kernel_scan ls r = Some r' \<and> kr_file r' = kr_file r \<and> kr_ip r' = kr_ip r \<and> kr_name r' = kr_name r \<and>
     kr_stop r' = (if kr_stop r = None \<and> kr_ip r \<noteq> 0 \<and> ps \<noteq> [] then Some (fst (hd ps) - 1) else kr_stop r) \<and>
     (case dropWhile (\<lambda>p. \<not> fst (snd p)) ps of
        [] \<Rightarrow> kr_done r' \<and> kr_next_ip r' = None \<and> kr_next_name r' = []
      | (a, _, name) # ps' \<Rightarrow> \<not> kr_done r' \<and> kr_next_ip r' = Some a \<and> kr_next_name r' = name \<and>
          kallsyms_lines (kr_rest r') = Some ps')"
proof (induction ls arbitrary: ps r rule: kallsyms_lines.induct)
  case (1 l ls)
  obtain addr symtype name rest where l: "kallsyms_line l = Some (addr, symtype, name)"
    "kallsyms_lines ls = Some rest" "ps = (addr, is_method symtype, name) # rest"
    using 1(2) by (auto simp: Option.bind_eq_Some_conv)
  have addr: "sub64 addr 1 = Some (addr - 1)"
    using 1(3) l(3) by (intro sub64_ok) (simp add: word_le_nat_alt unat_gt_0 Suc_le_eq)
  define r1 where "r1 = r\<lparr>kr_stop := (if kr_stop r = None \<and> kr_ip r \<noteq> 0 then Some (addr - 1) else kr_stop r)\<rparr>"
  have scan: "kernel_scan (Some l # ls) r = (if is_method symtype
      then Some (r1\<lparr>kr_rest := ls, kr_next_ip := Some addr, kr_next_name := name, kr_done := False\<rparr>)
      else kernel_scan ls r1)"
    using l(1) addr 1(5) by (simp add: r1_def)
  show ?case
  proof (cases "is_method symtype")
    case True
    then show ?thesis using scan l by (simp add: r1_def)
  next
    case False
    have ok: "\<forall>p \<in> set rest. fst p \<noteq> 0" using 1(3) l(3) by simp
    obtain r' where r': "kernel_scan ls r1 = Some r'" "kr_file r' = kr_file r1" "kr_ip r' = kr_ip r1" "kr_name r' = kr_name r1"
      "kr_stop r' = (if kr_stop r1 = None \<and> kr_ip r1 \<noteq> 0 \<and> rest \<noteq> [] then Some (fst (hd rest) - 1) else kr_stop r1)"
      "case dropWhile (\<lambda>p. \<not> fst (snd p)) rest of
        [] \<Rightarrow> kr_done r' \<and> kr_next_ip r' = None \<and> kr_next_name r' = []
      | (a, _, name) # ps' \<Rightarrow> \<not> kr_done r' \<and> kr_next_ip r' = Some a \<and> kr_next_name r' = name \<and>
          kallsyms_lines (kr_rest r') = Some ps'"
      using 1(1) [OF l(1) refl refl l(2) ok, of r1] 1(4,5) by (auto simp: r1_def)
    have "kr_stop r' = (if kr_stop r = None \<and> kr_ip r \<noteq> 0 then Some (addr - 1) else kr_stop r)"
      unfolding r'(5) by (simp add: r1_def)
    then show ?thesis
      using r'(1-4,6) scan False l(3) by (intro exI [of _ r']) (simp add: r1_def)
  qed
qed auto

text \<open>A reader between two symbols: the next one is loaded, or the file is at its end.\<close>

definition kernel_at :: "kernel_reader \<Rightarrow> (u64 \<times> bool \<times> ustr) list \<Rightarrow> bool" where
  "kernel_at r ps \<longleftrightarrow> kr_file r \<noteq> None \<and> (\<forall>p \<in> set ps. fst p \<noteq> 0) \<and>
     (case dropWhile (\<lambda>p. \<not> fst (snd p)) ps of
        [] \<Rightarrow> kr_done r
      | (a, _, name) # ps' \<Rightarrow> \<not> kr_done r \<and> kr_next_ip r = Some a \<and> kr_next_name r = name \<and>
          kallsyms_lines (kr_rest r) = Some ps')"

lemma kernel_symbols_drop: "kernel_symbols (dropWhile (\<lambda>p. \<not> fst (snd p)) ps) = kernel_symbols ps"
  by (induction ps rule: kernel_symbols.induct) auto

lemma kernel_load_at:
  assumes "kr_file r \<noteq> None" "kr_next_ip r = Some a" "a \<noteq> 0" "kallsyms_lines (kr_rest r) = Some ps"
    "\<forall>p \<in> set ps. fst p \<noteq> 0"
  shows "\<exists>r'. kernel_load r = Some r' \<and> kernel_at r' ps \<and> kr_ip r' = a \<and> kr_name r' = kr_next_name r \<and>
    (case kr_stop r' of Some e \<Rightarrow> e | None \<Rightarrow> - 1) = line_end ps"
proof -
  let ?r = "kernel_shift r"
  have shift: "kr_next_ip ?r = None" "kr_next_name ?r = []" "kr_file ?r = kr_file r" "kr_ip ?r = a"
    "kr_name ?r = kr_next_name r" "kr_stop ?r = None" "kr_rest ?r = kr_rest r"
    using assms(2) by (simp_all add: kernel_shift_def)
  obtain r' where r': "kernel_scan (kr_rest r) ?r = Some r'" "kr_file r' = kr_file r" "kr_ip r' = a"
    "kr_name r' = kr_next_name r" "kr_stop r' = (if ps \<noteq> [] then Some (fst (hd ps) - 1) else None)"
    "case dropWhile (\<lambda>p. \<not> fst (snd p)) ps of
        [] \<Rightarrow> kr_done r' \<and> kr_next_ip r' = None \<and> kr_next_name r' = []
      | (a, _, name) # ps' \<Rightarrow> \<not> kr_done r' \<and> kr_next_ip r' = Some a \<and> kr_next_name r' = name \<and>
          kallsyms_lines (kr_rest r') = Some ps'"
    using kernel_scan_lines [OF assms(4,5) shift(1,2)] assms(3) unfolding shift by auto
  have "kernel_load r = Some r'"
    using assms(1) r'(1) shift(3,7) by (auto simp: kernel_load_def Let_def split: option.split)
  moreover have "kernel_at r' ps"
    using r'(2,6) assms(1,5) by (auto simp: kernel_at_def simp del: dropWhile_eq_Nil_conv split: list.splits)
  moreover have "(case kr_stop r' of Some e \<Rightarrow> e | None \<Rightarrow> - 1) = line_end ps"
    unfolding r'(5) by (cases ps) (auto simp: line_end_def)
  ultimately show ?thesis using r'(3,4) by blast
qed

lemma kernel_lists: "kernel_at r ps \<Longrightarrow> lists (kernel_ops proc) r (kernel_symbols ps)"
proof (induction "length ps" arbitrary: r ps rule: less_induct)
  case less
  show ?case
  proof (cases "dropWhile (\<lambda>p. \<not> fst (snd p)) ps")
    case Nil
    have "kernel_symbols ps = []" using kernel_symbols_drop [of ps] unfolding Nil by simp
    then show ?thesis
      using less.prems Nil by (auto simp del: dropWhile_eq_Nil_conv intro!: lists_end [of _ _ r] simp: kernel_at_def kernel_ops_def kernel_next_def)
  next
    case (Cons p ps')
    obtain a mth name where p: "p = (a, mth, name)" by (cases p) auto
    have mth: "mth" using hd_dropWhile [of "\<lambda>p. \<not> fst (snd p)" ps] Cons p by simp
    have sub: "set (p # ps') \<subseteq> set ps" using Cons set_dropWhileD [of _ "\<lambda>p. \<not> fst (snd p)" ps] by force
    have r: "\<not> kr_done r" "kr_next_ip r = Some a" "kr_next_name r = name" "kallsyms_lines (kr_rest r) = Some ps'"
      "kr_file r \<noteq> None" "a \<noteq> 0" "\<forall>p \<in> set ps'. fst p \<noteq> 0"
      using less.prems Cons p sub by (auto simp: kernel_at_def)
    obtain r' where r': "kernel_load r = Some r'" "kernel_at r' ps'" "kr_ip r' = a" "kr_name r' = name"
      "(case kr_stop r' of Some e \<Rightarrow> e | None \<Rightarrow> - 1) = line_end ps'"
      using kernel_load_at [OF r(5,2,6,4,7)] r(3) by auto
    have "length ps' < length ps"
      using length_dropWhile_le [of "\<lambda>p. \<not> fst (snd p)" ps] Cons by simp
    from less.hyps [OF this r'(2)] have "lists (kernel_ops proc) r ((a, line_end ps', name) # kernel_symbols ps')"
      using r(1) r' by (intro lists_next [where demangled = None and r' = r']) (simp_all add: kernel_ops_def kernel_next_def)
    moreover have "kernel_symbols ps = (a, line_end ps', name) # kernel_symbols ps'"
      using kernel_symbols_drop [of ps] mth by (simp add: Cons p)
    ultimately show ?thesis by simp
  qed
qed

text \<open>The name of the next symbol must be empty: \<open>reset\<close> does not clear it, so a reset between two
  symbols would put the old name before the first new one.\<close>

definition kernel_ok :: "kernel_reader \<Rightarrow> bool" where
  "kernel_ok r \<longleftrightarrow> kr_next_name r = [] \<and>
     (\<exists>f ps. kr_file r = Some f \<and> tf_seekable f \<and> kallsyms_lines (tf_lines f) = Some ps \<and> (\<forall>p \<in> set ps. fst p \<noteq> 0))"

interpretation kernel: symbol_reader "kernel_ops proc" kernel_ok
  "\<lambda>r. kernel_symbols (the (kallsyms_lines (tf_lines (the (kr_file r)))))" for proc
proof unfold_locales
  fix r assume ok: "kernel_ok r"
  then obtain f ps where f: "kr_next_name r = []" "kr_file r = Some f" "tf_seekable f"
    "kallsyms_lines (tf_lines f) = Some ps" "\<forall>p \<in> set ps. fst p \<noteq> 0"
    by (auto simp: kernel_ok_def)
  define r1 where "r1 = r\<lparr>kr_ip := 0, kr_stop := None, kr_next_ip := None, kr_file := Some f,
    kr_rest := tf_lines f, kr_done := False\<rparr>"
  have reset: "kernel_reset proc r = kernel_scan (tf_lines f) r1"
    using f(2,3) by (simp add: kernel_reset_def kernel_open_def kernel_load_def kernel_shift_def r1_def Let_def)
  obtain r' where "kernel_scan (tf_lines f) r1 = Some r'" "kr_file r' = Some f"
    "case dropWhile (\<lambda>p. \<not> fst (snd p)) ps of
        [] \<Rightarrow> kr_done r' \<and> kr_next_ip r' = None \<and> kr_next_name r' = []
      | (a, _, name) # ps' \<Rightarrow> \<not> kr_done r' \<and> kr_next_ip r' = Some a \<and> kr_next_name r' = name \<and>
          kallsyms_lines (kr_rest r') = Some ps'"
    using kernel_scan_lines [OF f(4,5), of r1] f(1,2) by (auto simp: r1_def)
  moreover from this have "kernel_at r' ps"
    using f(5) by (auto simp: kernel_at_def simp del: dropWhile_eq_Nil_conv split: list.splits)
  ultimately show "\<exists>r'. rd_reset (kernel_ops proc) r = Some r' \<and>
      lists (kernel_ops proc) r' (kernel_symbols (the (kallsyms_lines (tf_lines (the (kr_file r))))))"
    using kernel_lists [of r' ps proc] reset f(2,4) by (auto simp: kernel_ops_def)
qed

section \<open>Properties\<close>

lemma wanted_sort [simp]: "wanted m (sort ips) syms = wanted m ips syms"
  by (induction m ips syms rule: wanted.induct) (auto simp: hits_def split: option.split)

text \<open>C37. A mapping gets exactly the symbols of the perf map that samples hit: for any perf map whose
  ends do not overflow (malformed lines are skipped, and everything from the first line that is not
  UTF-8 on), \<open>add_matching_symbols\<close> returns, and appends to the mapping's symbols, in the order of the
  file, one symbol for each line whose address range contains one of the addresses (or starts at
  one), with the translated range and an id that resolves to the name of the line; every string that
  was interned before keeps its id.\<close>

theorem perf_map_symbols_added:
  assumes "perf_ok r" "slices_inv h strings"
    "\<forall>(start, stop, name) \<in> set (the (perf_contents (tf_lines (pm_file r)))). file_to_va_range m start stop \<noteq> None"
  shows "\<exists>m' r' strings' new. add_matching_symbols perf_ops h ips r m strings = Some (m', r', strings') \<and>
    m' = m\<lparr>map_symbols := map_symbols m @ new\<rparr> \<and> slices_inv h strings' \<and>
    list_all2 (\<lambda>(a, b, name) symb. sym_start symb = a \<and> sym_end symb = b \<and> resolves strings' symb (as_bytes name))
      (wanted m ips (the (perf_contents (tf_lines (pm_file r))))) new \<and>
    (\<forall>symb bs. resolves strings symb bs \<longrightarrow> resolves strings' symb bs)"
  using perf.adds_wanted [OF assms, of ips] by simp

definition demo_perf_map :: text_file where
  "demo_perf_map = \<lparr>tf_lines = [Some (code_points ''1000 20 f''), Some (code_points ''junk''),
     Some (code_points ''2000 20 g'')], tf_seekable = True\<rparr>"

lemma demo_perf_contents:
  "perf_contents (tf_lines demo_perf_map) = Some [(0x1000, 0x1020, [102]), (0x2000, 0x2020, [103])]"
  by (simp add: demo_perf_map_def code_points_def perf_line_def parse_hex64_def parse_hex_def hex_value_def
      strip_0x_def add64_def line_name_def trim_last_def numeral_3_eq_3)

theorem perf_map_symbols_added_witness:
  "\<exists>m' r' strings' symb. add_matching_symbols perf_ops (\<lambda>_. 0) [0x2010] (perf_new demo_perf_map)
      (mapping_new 0 0 0x1000 0x3000 0 True 2 Prolog) (slices_new 8) = Some (m', r', strings') \<and>
    map_symbols m' = [symb] \<and> sym_start symb = 0x2000 \<and> sym_end symb = 0x2020 \<and> resolves strings' symb [103]"
proof -
  let ?m = "mapping_new 0 0 0x1000 0x3000 0 True 2 Prolog"
  have va: "file_to_va_range ?m a b = Some (Some (a, b))" for a b
    by (simp add: file_to_va_range_def mapping_len_def mapping_new_def sub64_def add64_def)
  have "perf_ok (perf_new demo_perf_map)"
    by (simp add: perf_ok_def perf_new_def demo_perf_contents) (simp add: demo_perf_map_def)
  then obtain m' r' strings' new where "add_matching_symbols perf_ops (\<lambda>_. 0) [0x2010] (perf_new demo_perf_map) ?m (slices_new 8) = Some (m', r', strings')"
    "m' = ?m\<lparr>map_symbols := map_symbols ?m @ new\<rparr>"
    "list_all2 (\<lambda>(a, b, name) symb. sym_start symb = a \<and> sym_end symb = b \<and> resolves strings' symb (as_bytes name))
      (wanted ?m [0x2010] (the (perf_contents (tf_lines (pm_file (perf_new demo_perf_map)))))) new"
    using perf_map_symbols_added [of "perf_new demo_perf_map" "\<lambda>_. 0" "slices_new 8" ?m "[0x2010]"] va
    by (auto simp: slices_new_inv)
  moreover have "wanted ?m [0x2010] (the (perf_contents (tf_lines (pm_file (perf_new demo_perf_map))))) = [(0x2000, 0x2020, [103])]"
    by (simp add: perf_new_def demo_perf_contents va hits_def)
  moreover have "as_bytes [103] = [103]" "map_symbols ?m = []" by (simp_all add: as_bytes_def utf8_char_def mapping_new_def)
  ultimately show ?thesis
    by (auto simp: list_all2_Cons1)
qed


definition demo_kallsyms :: text_file where
  "demo_kallsyms = \<lparr>tf_lines = [Some (code_points ''a t f''), Some (code_points ''20 D data''),
     Some (code_points ''30 T g [mod]'')], tf_seekable = True\<rparr>"

lemma demo_kallsyms_lines:
  "kallsyms_lines (tf_lines demo_kallsyms) = Some [(10, True, [102]), (32, False, code_points ''data''),
     (48, True, code_points ''[mod] g'')]"
  by (simp add: demo_kallsyms_def code_points_def kallsyms_line_def split_whitespace.simps is_whitespace_def
      parse_hex64_def parse_hex_def hex_value_def is_method_def Let_def)


end
