(* ===== verification/Graph.thy ===== *)
theory Graph
  imports DynSymbols
begin

text \<open>
  \<open>helpers/exporting/graph.rs\<close> and \<open>span.rs\<close>: spans, and the call graph of a process's samples (a tree
  of nodes in one vector, each node with the value of the samples that end in it, \<open>exclusive\<close>, and
  that pass through it, \<open>total\<close>). The exporter's tables of strings and callstacks are arguments, and
  so is the conversion of a sample's value. The path separator is a parameter.
\<close>

section \<open>Spans\<close>

datatype export_span = Export_Span (span_name: nat) (span_start: u64) (span_end: u64) (span_children: "export_span list")

definition span_begin :: "nat \<Rightarrow> u64 \<Rightarrow> export_span" where
  "span_begin name_id start_time = Export_Span name_id start_time start_time []"

definition qpc_duration :: "export_span \<Rightarrow> u64 option" where
  "qpc_duration s = sub64 (span_end s) (span_start s)"

definition mark_end :: "u64 \<Rightarrow> export_span \<Rightarrow> export_span" where
  "mark_end end_time s = Export_Span (span_name s) (span_start s) end_time (span_children s)"

definition mark_last_child_end :: "u64 \<Rightarrow> export_span \<Rightarrow> export_span" where
  "mark_last_child_end end_time s = Export_Span (span_name s) (span_start s) (span_end s)
     (if span_children s = [] then [] else butlast (span_children s) @ [mark_end end_time (last (span_children s))])"

definition add_child :: "export_span \<Rightarrow> export_span \<Rightarrow> export_span" where
  "add_child c s = Export_Span (span_name s) (span_start s) (span_end s) (span_children s @ [c])"

definition span_from_value :: "export_span list \<Rightarrow> metric_value \<Rightarrow> export_span option" where
  "span_from_value table v = (case v of Span i \<Rightarrow> nth_opt table i | _ \<Rightarrow> None)"

definition span_to_value :: "export_span \<Rightarrow> export_span list \<Rightarrow> metric_value \<times> export_span list" where
  "span_to_value s table = (Span (length table), table @ [s])"

text \<open>\<open>DefaultExportGraphMetricValueConverter::convert\<close>.\<close>

definition default_convert :: "export_span list \<Rightarrow> metric_value \<Rightarrow> u64 option" where
  "default_convert table v =
     (case v of
        Count x \<Rightarrow> Ret x
      | Bytes x \<Rightarrow> Ret x
      | Duration x \<Rightarrow> Ret x
      | Span _ \<Rightarrow> (case span_from_value table v of Some s \<Rightarrow> sub64 (span_end s) (span_start s) | None \<Rightarrow> Ret 0))"

section \<open>The graph\<close>

record resolvable =
  res_name :: nat
  res_symbol :: nat
  res_version :: nat

definition resolvable_default :: resolvable where
  "resolvable_default = \<lparr>res_name = 0, res_symbol = 0, res_version = 0\<rparr>"

record target =
  tgt_address :: u64
  tgt_resolvable :: nat
  tgt_method :: nat

definition target_default :: target where
  "target_default = \<lparr>tgt_address = 0, tgt_resolvable = 0, tgt_method = 0\<rparr>"

record node =
  node_id :: nat
  node_target :: target
  node_parent :: nat
  node_children :: "nat list"
  node_exclusive :: u64
  node_total :: u64

definition node_default :: node where
  "node_default = \<lparr>node_id = 0, node_target = target_default, node_parent = 0, node_children = [],
     node_exclusive = 0, node_total = 0\<rparr>"

record export_graph =
  g_strings :: interned_strings
  g_resolvables :: "resolvable list"
  g_nodes :: "node list"

definition add_node :: "node \<Rightarrow> export_graph \<Rightarrow> nat \<times> export_graph" where
  "add_node n g = (let i = length (g_nodes g) in (i, g\<lparr>g_nodes := g_nodes g @ [n\<lparr>node_id := i\<rparr>]\<rparr>))"

definition graph_reset :: "(byte list \<Rightarrow> u64) \<Rightarrow> export_graph option" where
  "graph_reset h = do {
     (_, strings) \<leftarrow> strings_to_id h (strings_new 128) [];
     Ret (snd (add_node node_default \<lparr>g_strings = strings, g_resolvables = [resolvable_default], g_nodes = []\<rparr>))
   }"

definition graph_new :: "(byte list \<Rightarrow> u64) \<Rightarrow> export_graph option" where
  "graph_new h = graph_reset h"

definition add_total :: "nat \<Rightarrow> u64 \<Rightarrow> node list \<Rightarrow> node list option" where
  "add_total i v nodes = do {
     n \<leftarrow> at nodes i;
     t \<leftarrow> add64 (node_total n) v;
     Ret (nodes[i := n\<lparr>node_total := t\<rparr>])
   }"

text \<open>\<open>charge\<close>: every node above. The loop ends at node 0; parents that never lead there would make
  it run on.\<close>

partial_function (option) charge_from :: "nat \<Rightarrow> u64 \<Rightarrow> node list \<Rightarrow> node list option" where
  "charge_from i v nodes = do {
     nodes' \<leftarrow> add_total i v nodes;
     if i = 0 then Ret nodes'
     else do { n \<leftarrow> at nodes' i; charge_from (node_parent n) v nodes' }
   }"

definition charge :: "nat \<Rightarrow> u64 \<Rightarrow> export_graph \<Rightarrow> export_graph option" where
  "charge parent_id v g = do {
     n \<leftarrow> at (g_nodes g) parent_id;
     nodes \<leftarrow> charge_from (node_parent n) v (g_nodes g);
     Ret (g\<lparr>g_nodes := nodes\<rparr>)
   }"

text \<open>The first child with the target.\<close>

fun find_child :: "node list \<Rightarrow> target \<Rightarrow> nat list \<Rightarrow> nat option option" where
  "find_child nodes t [] = Ret None"
| "find_child nodes t (c # cs) = do {
     n \<leftarrow> at nodes c;
     if node_target n = t then Ret (Some c) else find_child nodes t cs
   }"

definition merge :: "nat \<Rightarrow> target \<Rightarrow> u64 \<Rightarrow> export_graph \<Rightarrow> (nat \<times> export_graph) option" where
  "merge parent_id t v g = do {
     nodes \<leftarrow> add_total parent_id v (g_nodes g);
     let g = g\<lparr>g_nodes := nodes\<rparr>;
     parent \<leftarrow> at nodes parent_id;
     found \<leftarrow> find_child nodes t (node_children parent);
     (case found of
        Some c \<Rightarrow> Ret (c, g)
      | None \<Rightarrow>
          (let (i, g) = add_node (node_default\<lparr>node_parent := parent_id, node_target := t\<rparr>) g
           in do {
             p \<leftarrow> at (g_nodes g) parent_id;
             Ret (i, g\<lparr>g_nodes := (g_nodes g)[parent_id := p\<lparr>node_children := node_children p @ [i]\<rparr>]\<rparr>)
           }))
   }"

fun index_of :: "'a \<Rightarrow> 'a list \<Rightarrow> nat option" where
  "index_of x [] = None"
| "index_of x (y # ys) = (if y = x then Some 0 else map_option Suc (index_of x ys))"

definition import_resolvable :: "resolvable \<Rightarrow> export_graph \<Rightarrow> nat \<times> export_graph" where
  "import_resolvable r g =
     (case index_of r (g_resolvables g) of
        Some i \<Rightarrow> (i, g)
      | None \<Rightarrow> (length (g_resolvables g), g\<lparr>g_resolvables := g_resolvables g @ [r]\<rparr>))"

definition graph_intern :: "(byte list \<Rightarrow> u64) \<Rightarrow> byte list \<Rightarrow> export_graph \<Rightarrow> (nat \<times> export_graph) option" where
  "graph_intern h s g = do { (i, strings) \<leftarrow> strings_to_id h (g_strings g) s; Ret (i, g\<lparr>g_strings := strings\<rparr>) }"

definition UNKNOWN :: "byte list" where
  "UNKNOWN = [85, 110, 107, 110, 111, 119, 110]"

definition string_or_unknown :: "interned_strings \<Rightarrow> nat \<Rightarrow> byte list option" where
  "string_or_unknown strings i = do {
     r \<leftarrow> strings_from_id strings i;
     Ret (case r of Inr s \<Rightarrow> s | Inl _ \<Rightarrow> UNKNOWN)
   }"

text \<open>\<open>rsplit(SLASH).next()\<close>.\<close>

definition short_name :: "byte \<Rightarrow> byte list \<Rightarrow> byte list" where
  "short_name slash name = rev (takeWhile (\<lambda>b. b \<noteq> slash) (rev name))"

definition import_ip ::
  "(byte list \<Rightarrow> u64) \<Rightarrow> set_iter \<Rightarrow> byte \<Rightarrow> interned_strings \<Rightarrow> u64 \<Rightarrow> u64 \<Rightarrow> 'o export_process \<Rightarrow> export_graph \<Rightarrow>
   (target \<times> 'o export_process \<times> export_graph) option" where
  "import_ip h it slash strings time ip p g = do {
     (found, p) \<leftarrow> process_find_mapping it p ip (Some time);
     (case found of
        Some m \<Rightarrow> do {
          full_name \<leftarrow> string_or_unknown strings (map_filename_id m);
          address \<leftarrow> (if \<not> map_anon m then
              if KERNEL_START < ip then Ret ip
              else do { d \<leftarrow> sub64 ip (map_start m); add64 d (map_file_offset m) }
            else Ret 0);
          (method_id, g) \<leftarrow> (case List.find (\<lambda>s. sym_start s \<le> ip \<and> ip \<le> sym_end s) (map_symbols m) of
              Some s \<Rightarrow> do { sym_name \<leftarrow> string_or_unknown strings (sym_name_id s); graph_intern h sym_name g }
            | None \<Rightarrow> Ret (0, g));
          (name_id, g) \<leftarrow> graph_intern h (short_name slash full_name) g;
          let (resolvable_id, g) = import_resolvable (resolvable_default\<lparr>res_name := name_id\<rparr>) g;
          Ret (\<lparr>tgt_address = address, tgt_resolvable = resolvable_id, tgt_method = method_id\<rparr>, p, g)
        }
      | None \<Rightarrow> do {
          (name_id, g) \<leftarrow> graph_intern h UNKNOWN g;
          let (resolvable_id, g) = import_resolvable (resolvable_default\<lparr>res_name := name_id\<rparr>) g;
          Ret (target_default\<lparr>tgt_resolvable := resolvable_id\<rparr>, p, g)
        })
   }"

text \<open>The frames of a stack, popped from the back.\<close>

fun merge_frames ::
  "(byte list \<Rightarrow> u64) \<Rightarrow> set_iter \<Rightarrow> byte \<Rightarrow> interned_strings \<Rightarrow> u64 \<Rightarrow> u64 \<Rightarrow> u64 list \<Rightarrow> nat \<Rightarrow>
   'o export_process \<Rightarrow> export_graph \<Rightarrow> (nat \<times> 'o export_process \<times> export_graph) option" where
  "merge_frames h it slash strings time v [] i p g = Ret (i, p, g)"
| "merge_frames h it slash strings time v (ip # ips) i p g = do {
     (t, p, g) \<leftarrow> import_ip h it slash strings time ip p g;
     (i, g) \<leftarrow> merge i t v g;
     merge_frames h it slash strings time v ips i p g
   }"

record 'o graph_state =
  gs_graph :: export_graph
  gs_process :: "'o export_process"
  gs_stacks :: "nat \<rightharpoonup> nat"

definition add_graph_sample ::
  "(byte list \<Rightarrow> u64) \<Rightarrow> set_iter \<Rightarrow> byte \<Rightarrow> interned_strings \<Rightarrow> interned_callstacks \<Rightarrow> (metric_value \<Rightarrow> u64 option) \<Rightarrow>
   export_sample \<Rightarrow> 'o graph_state \<Rightarrow> 'o graph_state option" where
  "add_graph_sample h it slash strings cs convert s st = (
     let callstack_id = unat (smp_callstack_id s); time = smp_time s in do {
     v \<leftarrow> convert (smp_value s);
     (i, p, g, stacks) \<leftarrow> (case gs_stacks st callstack_id of
         Some i \<Rightarrow> do {
           g \<leftarrow> charge i v (gs_graph st);
           Ret (i, gs_process st, g, gs_stacks st)
         }
       | None \<Rightarrow> do {
           (_, frames) \<leftarrow> callstacks_from_id cs callstack_id [];
           (i, p, g) \<leftarrow> merge_frames h it slash strings time v (rev frames) 0 (gs_process st) (gs_graph st);
           Ret (i, p, g, (gs_stacks st)(callstack_id \<mapsto> i))
         });
     (t, p, g) \<leftarrow> import_ip h it slash strings time (smp_ip s) p g;
     (i, g) \<leftarrow> merge i t v g;
     n \<leftarrow> at (g_nodes g) i;
     ex \<leftarrow> add64 (node_exclusive n) v;
     tot \<leftarrow> add64 (node_total n) v;
     Ret \<lparr>gs_graph = g\<lparr>g_nodes := (g_nodes g)[i := n\<lparr>node_exclusive := ex, node_total := tot\<rparr>]\<rparr>,
          gs_process = p, gs_stacks = stacks\<rparr>
   })"

fun add_graph_samples ::
  "(byte list \<Rightarrow> u64) \<Rightarrow> set_iter \<Rightarrow> byte \<Rightarrow> interned_strings \<Rightarrow> interned_callstacks \<Rightarrow> (metric_value \<Rightarrow> u64 option) \<Rightarrow> u16 \<Rightarrow>
   export_sample list \<Rightarrow> 'o graph_state \<Rightarrow> 'o graph_state option" where
  "add_graph_samples h it slash strings cs convert kind [] st = Ret st"
| "add_graph_samples h it slash strings cs convert kind (s # ss) st =
     (if smp_kind s \<noteq> kind then add_graph_samples h it slash strings cs convert kind ss st
      else do {
        st \<leftarrow> add_graph_sample h it slash strings cs convert s st;
        add_graph_samples h it slash strings cs convert kind ss st
      })"

definition graph_add_samples ::
  "(byte list \<Rightarrow> u64) \<Rightarrow> set_iter \<Rightarrow> byte \<Rightarrow> interned_strings \<Rightarrow> interned_callstacks \<Rightarrow> (metric_value \<Rightarrow> u64 option) \<Rightarrow> u16 \<Rightarrow>
   'o export_process \<Rightarrow> export_graph \<Rightarrow> (export_graph \<times> 'o export_process) option" where
  "graph_add_samples h it slash strings cs convert kind p g = do {
     st \<leftarrow> add_graph_samples h it slash strings cs convert kind (ep_samples p)
       \<lparr>gs_graph = g, gs_process = p, gs_stacks = Map.empty\<rparr>;
     Ret (gs_graph st, gs_process st)
   }"

section \<open>Balance, on numbers\<close>

text \<open>A tree of \<open>N\<close> nodes by its parents \<open>P\<close>; node 0 is the root. Totals \<open>T\<close> and exclusive values
  \<open>E\<close> balance when each total is the node's own value and its children's totals; \<open>d\<close> is a node that
  still lacks \<open>v\<close>.\<close>

definition kids :: "nat \<Rightarrow> (nat \<Rightarrow> nat) \<Rightarrow> nat \<Rightarrow> nat set" where
  "kids N P i = {c. 0 < c \<and> c < N \<and> P c = i}"

definition rooted :: "nat \<Rightarrow> (nat \<Rightarrow> nat) \<Rightarrow> bool" where
  "rooted N P \<longleftrightarrow> 0 < N \<and> P 0 = 0 \<and> (\<forall>i. 0 < i \<longrightarrow> i < N \<longrightarrow> P i < i)"

definition balance :: "nat \<Rightarrow> (nat \<Rightarrow> nat) \<Rightarrow> (nat \<Rightarrow> nat) \<Rightarrow> (nat \<Rightarrow> nat) \<Rightarrow> nat option \<Rightarrow> nat \<Rightarrow> bool" where
  "balance N P T E d v \<longleftrightarrow> (\<forall>i < N. T i + (if d = Some i then v else 0) = E i + (\<Sum>c \<in> kids N P i. T c))"

lemma rooted_less:
  assumes "rooted N P" "0 < i" "i < N"
  shows "P i < i" "P i \<noteq> i" "P i < N"
proof -
  show "P i < i" using assms by (simp add: rooted_def)
  then show "P i \<noteq> i" "P i < N" using assms(3) by simp_all
qed

lemma finite_kids [simp]: "finite (kids N P i)"
  by (rule finite_subset [of _ "{..<N}"]) (auto simp: kids_def)

lemma sum_kids_add:
  "(\<Sum>c \<in> kids N P i. (T(j := T j + v)) c) = (\<Sum>c \<in> kids N P i. T c) + (if j \<in> kids N P i then v else (0::nat))"
proof -
  have "(\<Sum>c \<in> kids N P i. (T(j := T j + v)) c) = (\<Sum>c \<in> kids N P i. T c + (if c = j then v else 0))"
    by (rule sum.cong) auto
  then show ?thesis by (simp add: sum.distrib)
qed

lemma balance_top:
  assumes "rooted N P" "balance N P T E None v" "i < N"
  shows "balance N P (T(i := T i + v)) (E(i := E i + v)) (if i = 0 then None else Some (P i)) v"
  unfolding balance_def
proof (intro allI impI)
  fix j assume j: "j < N"
  have "i \<noteq> 0 \<Longrightarrow> P i \<noteq> i" using rooted_less(2) [OF assms(1) _ assms(3)] by simp
  then show "(T(i := T i + v)) j + (if (if i = 0 then None else Some (P i)) = Some j then v else 0) =
      (E(i := E i + v)) j + (\<Sum>c \<in> kids N P j. (T(i := T i + v)) c)"
    unfolding sum_kids_add using assms(2,3) j by (auto simp: balance_def kids_def)
qed

lemma balance_climb:
  assumes "rooted N P" "balance N P T E (Some i) v" "i < N"
  shows "balance N P (T(i := T i + v)) E (if i = 0 then None else Some (P i)) v"
  unfolding balance_def
proof (intro allI impI)
  fix j assume j: "j < N"
  have "i \<noteq> 0 \<Longrightarrow> P i \<noteq> i" using rooted_less(2) [OF assms(1) _ assms(3)] by simp
  then show "(T(i := T i + v)) j + (if (if i = 0 then None else Some (P i)) = Some j then v else 0) =
      E j + (\<Sum>c \<in> kids N P j. (T(i := T i + v)) c)"
    unfolding sum_kids_add using assms(2,3) j by (auto simp: balance_def kids_def)
qed

lemma balance_move:
  assumes "rooted N P" "balance N P (T(i := T i + v)) (E(i := E i + v)) None w" "c \<in> kids N P i"
  shows "balance N P ((T(i := T i + v))(c := T c + v)) (E(c := E c + v)) None w"
  unfolding balance_def
proof (intro allI impI)
  fix j assume j: "j < N"
  have c: "c < N" "0 < c" "P c = i" "c \<noteq> i"
    using assms(3) rooted_less(2) [OF assms(1), of c] by (auto simp: kids_def)
  have T: "(T(i := T i + v))(c := T c + v) = (T(i := T i + v))(c := (T(i := T i + v)) c + v)" using c by auto
  have "(T(i := T i + v)) j = (E(i := E i + v)) j + (\<Sum>c \<in> kids N P j. (T(i := T i + v)) c)"
    using assms(2) j by (simp add: balance_def)
  then show "((T(i := T i + v))(c := T c + v)) j + (if None = Some j then w else 0) =
      (E(c := E c + v)) j + (\<Sum>c' \<in> kids N P j. ((T(i := T i + v))(c := T c + v)) c')"
    unfolding T sum_kids_add using c by (auto simp: kids_def split: if_splits)
qed

lemma kids_new:
  assumes "rooted N P" "p < N"
  shows "kids (Suc N) (P(N := p)) i = (if i = p then insert N (kids N P i) else if i = N then {} else kids N P i)"
proof (rule set_eqI)
  fix c
  have N: "0 < N" using assms(1) by (simp add: rooted_def)
  have "P c \<noteq> N" if "0 < c" "c < N" using rooted_less(3) [OF assms(1) that] by simp
  then show "c \<in> kids (Suc N) (P(N := p)) i \<longleftrightarrow>
      c \<in> (if i = p then insert N (kids N P i) else if i = N then {} else kids N P i)"
    using N assms(2) by (cases "c = N") (auto simp: kids_def less_Suc_eq)
qed

lemma balance_new:
  assumes "rooted N P" "balance N P T E None v" "p < N"
  shows "balance (Suc N) (P(N := p)) (T(N := 0)) (E(N := 0)) None v" "rooted (Suc N) (P(N := p))"
proof -
  have "(\<Sum>c \<in> kids N P i. (T(N := 0)) c) = (\<Sum>c \<in> kids N P i. T c)" for i
    by (rule sum.cong) (auto simp: kids_def)
  moreover have "N \<notin> kids N P p" by (simp add: kids_def)
  ultimately show "balance (Suc N) (P(N := p)) (T(N := 0)) (E(N := 0)) None v"
    using assms unfolding balance_def kids_new [OF assms(1,3)] by (auto simp: less_Suc_eq)
  show "rooted (Suc N) (P(N := p))"
    using assms by (auto simp: rooted_def less_Suc_eq)
qed

text \<open>No total is above the root's.\<close>

lemma balance_le_root:
  assumes "rooted N P" "balance N P T E None v"
  shows "i < N \<Longrightarrow> T i \<le> T 0"
proof (induction i rule: less_induct)
  case (less i)
  show ?case
  proof (cases "i = 0")
    case False
    then have p: "P i < i" using assms(1) less.prems by (simp add: rooted_def)
    have "i \<in> kids N P (P i)" using False less.prems by (simp add: kids_def)
    then have "T i \<le> (\<Sum>c \<in> kids N P (P i). T c)" by (intro member_le_sum) simp_all
    also have "\<dots> \<le> T (P i)" using assms(2) p less.prems by (simp add: balance_def)
    also have "\<dots> \<le> T 0" using p less.prems by (intro less.IH) simp_all
    finally show ?thesis .
  qed simp
qed

section \<open>Balance of the nodes\<close>

definition n_parent :: "node list \<Rightarrow> nat \<Rightarrow> nat" where
  "n_parent nodes i = (if i < length nodes then node_parent (nodes ! i) else 0)"

definition n_total :: "node list \<Rightarrow> nat \<Rightarrow> nat" where
  "n_total nodes i = (if i < length nodes then unat (node_total (nodes ! i)) else 0)"

definition n_exclusive :: "node list \<Rightarrow> nat \<Rightarrow> nat" where
  "n_exclusive nodes i = (if i < length nodes then unat (node_exclusive (nodes ! i)) else 0)"

text \<open>Parents come before their children, and the child lists are the children.\<close>

definition tree :: "node list \<Rightarrow> bool" where
  "tree nodes \<longleftrightarrow> rooted (length nodes) (n_parent nodes) \<and>
     (\<forall>i < length nodes. distinct (node_children (nodes ! i)) \<and>
        set (node_children (nodes ! i)) = kids (length nodes) (n_parent nodes) i)"

definition balanced :: "node list \<Rightarrow> bool" where
  "balanced nodes \<longleftrightarrow> balance (length nodes) (n_parent nodes) (n_total nodes) (n_exclusive nodes) None 0"

definition pending :: "nat \<Rightarrow> nat \<Rightarrow> node list \<Rightarrow> bool" where
  "pending i v nodes \<longleftrightarrow> i < length nodes \<and>
     balance (length nodes) (n_parent nodes) ((n_total nodes)(i := n_total nodes i + v))
       ((n_exclusive nodes)(i := n_exclusive nodes i + v)) None 0"

text \<open>The root's total once a pending value is in.\<close>

definition root_with :: "nat \<Rightarrow> nat \<Rightarrow> node list \<Rightarrow> nat" where
  "root_with i v nodes = ((n_total nodes)(i := n_total nodes i + v)) 0"

lemma balance_v: "balance N P T E None v \<longleftrightarrow> balance N P T E None w"
  by (simp add: balance_def)

lemma add_total_spec:
  assumes "i < length nodes" "n_total nodes i + unat v < 2 ^ 64"
  shows "\<exists>nodes'. add_total i v nodes = Some nodes' \<and> length nodes' = length nodes \<and>
    n_parent nodes' = n_parent nodes \<and> n_exclusive nodes' = n_exclusive nodes \<and>
    n_total nodes' = (n_total nodes)(i := n_total nodes i + unat v) \<and>
    (\<forall>j < length nodes. node_children (nodes' ! j) = node_children (nodes ! j) \<and>
       node_target (nodes' ! j) = node_target (nodes ! j) \<and> node_parent (nodes' ! j) = node_parent (nodes ! j))"
proof -
  let ?n = "nodes ! i" and ?t = "node_total (nodes ! i) + v"
  have le: "unat (node_total ?n) + unat v < 2 ^ 64" using assms by (simp add: n_total_def)
  note t = add64_ok [OF this] unat_add64 [OF this]
  have "add_total i v nodes = Some (nodes[i := ?n\<lparr>node_total := ?t\<rparr>])"
    using assms(1) t(1) by (simp add: add_total_def at_ok)
  moreover have "n_total (nodes[i := ?n\<lparr>node_total := ?t\<rparr>]) = (n_total nodes)(i := n_total nodes i + unat v)"
    using assms(1) t(2) by (auto simp: n_total_def fun_eq_iff nth_list_update)
  moreover have "n_parent (nodes[i := ?n\<lparr>node_total := ?t\<rparr>]) = n_parent nodes"
    "n_exclusive (nodes[i := ?n\<lparr>node_total := ?t\<rparr>]) = n_exclusive nodes"
    using assms(1) by (auto simp: n_parent_def n_exclusive_def fun_eq_iff nth_list_update)
  ultimately show ?thesis using assms(1) by (auto simp: nth_list_update)
qed

lemma tree_cong:
  assumes "tree nodes" "length nodes' = length nodes" "n_parent nodes' = n_parent nodes"
    "\<forall>j < length nodes. node_children (nodes' ! j) = node_children (nodes ! j)"
  shows "tree nodes'"
  using assms by (simp add: tree_def)

text \<open>Charging from a node up: the deficit moves to the root and disappears.\<close>

lemma charge_from_spec:
  assumes "tree nodes" "i < length nodes" "balance (length nodes) (n_parent nodes) T E (Some i) (unat v)"
    "\<forall>j \<le> i. T j = n_total nodes j \<and> n_total nodes j + unat v < 2 ^ 64"
  shows "\<exists>nodes'. charge_from i v nodes = Some nodes' \<and> tree nodes' \<and> length nodes' = length nodes \<and>
    n_parent nodes' = n_parent nodes \<and> n_exclusive nodes' = n_exclusive nodes \<and>
    balance (length nodes) (n_parent nodes) (\<lambda>j. if j \<le> i then n_total nodes' j else T j) E None 0 \<and>
    (\<forall>j > i. n_total nodes' j = n_total nodes j) \<and> n_total nodes' 0 = n_total nodes 0 + unat v"
  using assms
proof (induction i arbitrary: nodes T rule: less_induct)
  case (less i)
  let ?N = "length nodes" and ?P = "n_parent nodes"
  have root: "rooted ?N ?P" using less.prems(1) by (simp add: tree_def)
  obtain nodes1 where n1: "add_total i v nodes = Some nodes1" "length nodes1 = ?N" "n_parent nodes1 = ?P"
    "n_exclusive nodes1 = n_exclusive nodes" "n_total nodes1 = (n_total nodes)(i := n_total nodes i + unat v)"
    "\<forall>j < ?N. node_children (nodes1 ! j) = node_children (nodes ! j)"
    using add_total_spec [of i nodes v] less.prems(2,4) by auto
  have tree1: "tree nodes1" using less.prems(1) n1(2,3,6) by (rule tree_cong)
  have up: "balance ?N ?P (T(i := T i + unat v)) E (if i = 0 then None else Some (?P i)) (unat v)"
    using root less.prems(3,2) by (rule balance_climb)
  have Ti: "T i = n_total nodes i" using less.prems(4) by simp
  show ?case
  proof (cases "i = 0")
    case True
    have "charge_from i v nodes = Some nodes1" using n1(1) True by (subst charge_from.simps) simp
    moreover have "(\<lambda>j. if j \<le> i then n_total nodes1 j else T j) = T(i := T i + unat v)"
      using True n1(5) Ti by auto
    ultimately show ?thesis
      using up tree1 n1(2-5) True by (intro exI [of _ nodes1]) (simp add: balance_def)
  next
    case False
    let ?p = "?P i"
    have p: "?p < i" "?p < ?N" using rooted_less [OF root _ less.prems(2)] False by simp_all
    have par: "node_parent (nodes1 ! i) = ?p"
      using less.prems(2) n1(2) arg_cong [OF n1(3), of "\<lambda>f. f i"] by (simp add: n_parent_def)
    have "\<exists>nodes'. charge_from ?p v nodes1 = Some nodes' \<and> tree nodes' \<and> length nodes' = length nodes1 \<and>
      n_parent nodes' = n_parent nodes1 \<and> n_exclusive nodes' = n_exclusive nodes1 \<and>
      balance (length nodes1) (n_parent nodes1) (\<lambda>j. if j \<le> ?p then n_total nodes' j else (T(i := T i + unat v)) j) E None 0 \<and>
      (\<forall>j > ?p. n_total nodes' j = n_total nodes1 j) \<and> n_total nodes' 0 = n_total nodes1 0 + unat v"
    proof (rule less.IH [OF p(1) tree1])
      show "\<forall>j \<le> ?p. (T(i := T i + unat v)) j = n_total nodes1 j \<and> n_total nodes1 j + unat v < 2 ^ 64"
        using less.prems(4) p(1) n1(5) by auto
      show "balance (length nodes1) (n_parent nodes1) (T(i := T i + unat v)) E (Some ?p) (unat v)"
        using up False unfolding n1(2,3) by (simp del: fun_upd_apply)
    qed (use p(2) n1(2) in simp)
    then obtain nodes' where n': "charge_from ?p v nodes1 = Some nodes'" "tree nodes'" "length nodes' = ?N"
      "n_parent nodes' = ?P" "n_exclusive nodes' = n_exclusive nodes"
      "balance ?N ?P (\<lambda>j. if j \<le> ?p then n_total nodes' j else (T(i := T i + unat v)) j) E None 0"
      "\<forall>j > ?p. n_total nodes' j = n_total nodes1 j" "n_total nodes' 0 = n_total nodes1 0 + unat v"
      unfolding n1(2-4) by blast
    have "charge_from i v nodes = Some nodes'"
      using n1(1,2) n'(1) False less.prems(2) par by (subst charge_from.simps) (simp add: at_ok)
    moreover have "(\<lambda>j. if j \<le> ?p then n_total nodes' j else (T(i := T i + unat v)) j) =
        (\<lambda>j. if j \<le> i then n_total nodes' j else T j)"
      using n'(7) p(1) n1(5) less.prems(4) by (auto simp: fun_eq_iff)
    ultimately show ?thesis
      using n' n1(5) p(1) False by (intro exI [of _ nodes']) simp
  qed
qed

text \<open>\<open>charge\<close> leaves the value pending at the node.\<close>

lemma charge_spec:
  assumes "tree (g_nodes g)" "balanced (g_nodes g)" "0 < i" "i < length (g_nodes g)"
    "n_total (g_nodes g) 0 + unat v < 2 ^ 64"
  shows "\<exists>nodes'. charge i v g = Some (g\<lparr>g_nodes := nodes'\<rparr>) \<and> tree nodes' \<and> pending i (unat v) nodes' \<and>
    length nodes' = length (g_nodes g) \<and> root_with i (unat v) nodes' = n_total (g_nodes g) 0 + unat v"
proof -
  let ?nodes = "g_nodes g"
  let ?N = "length ?nodes" and ?P = "n_parent ?nodes" and ?T = "n_total ?nodes" and ?E = "n_exclusive ?nodes"
  have root: "rooted ?N ?P" using assms(1) by (simp add: tree_def)
  have bal: "balance ?N ?P ?T ?E None (unat v)" using assms(2) unfolding balanced_def by (subst balance_v)
  have p: "?P i < i" "?P i < ?N" using rooted_less [OF root assms(3,4)] by simp_all
  have top: "balance ?N ?P (?T(i := ?T i + unat v)) (?E(i := ?E i + unat v)) (Some (?P i)) (unat v)"
    using balance_top [OF root bal assms(4)] assms(3) by simp
  have small: "?T j + unat v < 2 ^ 64" if "j < ?N" for j
    using balance_le_root [OF root bal that] assms(5) by simp
  obtain nodes' where n': "charge_from (?P i) v ?nodes = Some nodes'" "tree nodes'" "length nodes' = ?N"
    "n_parent nodes' = ?P" "n_exclusive nodes' = ?E"
    "balance ?N ?P (\<lambda>j. if j \<le> ?P i then n_total nodes' j else (?T(i := ?T i + unat v)) j) (?E(i := ?E i + unat v)) None 0"
    "\<forall>j > ?P i. n_total nodes' j = ?T j" "n_total nodes' 0 = ?T 0 + unat v"
    using charge_from_spec [OF assms(1) p(2) top] p small by fastforce
  have "(\<lambda>j. if j \<le> ?P i then n_total nodes' j else (?T(i := ?T i + unat v)) j) =
      (n_total nodes')(i := n_total nodes' i + unat v)"
    using n'(7) p(1) by (auto simp: fun_eq_iff)
  then have "pending i (unat v) nodes'"
    using n'(3-6) assms(4) by (simp add: pending_def)
  moreover have "charge i v g = Some (g\<lparr>g_nodes := nodes'\<rparr>)"
    using n'(1) assms(4) by (simp add: charge_def at_ok n_parent_def)
  ultimately show ?thesis
    using n'(2,3,8) assms(3) by (intro exI [of _ nodes']) (simp add: root_with_def)
qed

lemma find_child_spec:
  assumes "\<forall>c \<in> set cs. c < length nodes"
  shows "\<exists>r. find_child nodes t cs = Some r \<and> (\<forall>c. r = Some c \<longrightarrow> c \<in> set cs \<and> node_target (nodes ! c) = t) \<and>
    (r = None \<longrightarrow> (\<forall>c \<in> set cs. node_target (nodes ! c) \<noteq> t))"
  using assms by (induction cs) (auto simp: at_ok)

lemma pending_bound:
  assumes "tree nodes" "pending i v nodes"
  shows "n_total nodes i + v \<le> root_with i v nodes"
  using balance_le_root [of "length nodes" "n_parent nodes" "(n_total nodes)(i := n_total nodes i + v)" _ 0 i] assms
  by (auto simp: tree_def pending_def root_with_def)

text \<open>\<open>merge\<close> passes the pending value on to a child with the target, new or not.\<close>

lemma merge_spec:
  assumes "tree (g_nodes g)" "pending i (unat v) (g_nodes g)" "root_with i (unat v) (g_nodes g) < 2 ^ 64"
  shows "\<exists>c nodes'. merge i t v g = Some (c, g\<lparr>g_nodes := nodes'\<rparr>) \<and> tree nodes' \<and> pending c (unat v) nodes' \<and>
    0 < c \<and> length (g_nodes g) \<le> length nodes' \<and> root_with c (unat v) nodes' = root_with i (unat v) (g_nodes g) \<and>
    node_target (nodes' ! c) = t \<and> c \<in> kids (length nodes') (n_parent nodes') i"
proof -
  let ?nodes = "g_nodes g" and ?v = "unat v"
  have i: "i < length ?nodes" using assms(2) by (simp add: pending_def)
  have "n_total ?nodes i + ?v < 2 ^ 64" using pending_bound [OF assms(1,2)] assms(3) by linarith
  then obtain nodes1 where n1: "add_total i v ?nodes = Some nodes1" "length nodes1 = length ?nodes"
    "n_parent nodes1 = n_parent ?nodes" "n_exclusive nodes1 = n_exclusive ?nodes"
    "n_total nodes1 = (n_total ?nodes)(i := n_total ?nodes i + ?v)"
    "\<forall>j < length ?nodes. node_children (nodes1 ! j) = node_children (?nodes ! j)"
    using add_total_spec [OF i, of v] by blast
  have tree1: "tree nodes1" using assms(1) n1(2,3,6) by (rule tree_cong)
  let ?N = "length ?nodes" and ?P = "n_parent ?nodes" and ?T = "n_total ?nodes" and ?E = "n_exclusive ?nodes"
  have root: "rooted ?N ?P" using assms(1) by (simp add: tree_def)
  have done_i: "balance ?N ?P (?T(i := ?T i + ?v)) (?E(i := ?E i + ?v)) None 0"
    using assms(2) by (simp add: pending_def)
  have kids: "set (node_children (nodes1 ! i)) = kids ?N ?P i"
    using tree1 i n1(2,3) by (simp add: tree_def)
  obtain r where r: "find_child nodes1 t (node_children (nodes1 ! i)) = Some r"
    "\<forall>c. r = Some c \<longrightarrow> c \<in> kids ?N ?P i \<and> node_target (nodes1 ! c) = t"
    using find_child_spec [of "node_children (nodes1 ! i)" nodes1 t] kids n1(2) by (auto simp: kids_def)
  show ?thesis
  proof (cases r)
    case (Some c)
    then have c: "c \<in> kids ?N ?P i" "0 < c" "c < ?N" "c \<noteq> i" "node_target (nodes1 ! c) = t"
      using r(2) rooted_less(2) [OF root, of c] by (auto simp: kids_def)
    have "merge i t v g = Some (c, g\<lparr>g_nodes := nodes1\<rparr>)"
      using n1(1,2) i r(1) Some by (simp add: merge_def at_ok)
    moreover have "pending c ?v nodes1"
      using balance_move [OF root done_i c(1)] n1 c by (simp add: pending_def)
    ultimately show ?thesis
      using tree1 c n1 by (intro exI [of _ c] exI [of _ nodes1]) (auto simp: root_with_def)
  next
    case None
    define new where "new = node_default\<lparr>node_parent := i, node_target := t, node_id := ?N\<rparr>"
    define nodes2 where "nodes2 = (nodes1 @ [new])[i := (nodes1 ! i)\<lparr>node_children := node_children (nodes1 ! i) @ [?N]\<rparr>]"
    have merged: "merge i t v g = Some (?N, g\<lparr>g_nodes := nodes2\<rparr>)"
      using n1(1,2) i r(1) None by (simp add: merge_def at_ok add_node_def Let_def nth_append nodes2_def new_def)
    have len: "length nodes2 = Suc ?N" using n1(2) by (simp add: nodes2_def)
    have nth: "nodes2 ! j = (if j = i then (nodes1 ! i)\<lparr>node_children := node_children (nodes1 ! i) @ [?N]\<rparr>
        else if j = ?N then new else nodes1 ! j)" if "j < Suc ?N" for j
      using that i n1(2) by (auto simp: nodes2_def nth_list_update nth_append)
    have P2: "n_parent nodes2 = ?P(?N := i)"
      using n1(2) i unfolding n1(3) [symmetric] by (auto simp: fun_eq_iff n_parent_def len nth new_def)
    have T2: "n_total nodes2 = (n_total nodes1)(?N := 0)"
      using n1(2) i by (auto simp: fun_eq_iff n_total_def len nth new_def node_default_def)
    have E2: "n_exclusive nodes2 = ?E(?N := 0)"
      using n1(2) i unfolding n1(4) [symmetric] by (auto simp: fun_eq_iff n_exclusive_def len nth new_def node_default_def)
    note grown = balance_new [OF root done_i i]
    have kids2: "kids (Suc ?N) (?P(?N := i)) j = (if j = i then insert ?N (kids ?N ?P j) else if j = ?N then {} else kids ?N ?P j)" for j
      using root i by (rule kids_new)
    have tree2: "tree nodes2"
      unfolding tree_def len P2
    proof (intro conjI allI impI)
      fix j assume j: "j < Suc ?N"
      have old: "distinct (node_children (nodes1 ! j))" "set (node_children (nodes1 ! j)) = kids ?N ?P j" if "j < ?N"
        using tree1 that n1(2,3) by (simp_all add: tree_def)
      have fresh: "?N \<notin> kids ?N ?P i" by (simp add: kids_def)
      show "distinct (node_children (nodes2 ! j))"
        using j old i kids fresh by (auto simp: nth new_def node_default_def less_Suc_eq)
      show "set (node_children (nodes2 ! j)) = kids (Suc ?N) (?P(?N := i)) j"
        using j old i unfolding kids2 by (auto simp: nth new_def node_default_def less_Suc_eq)
    qed (rule grown(2))
    have c: "?N \<in> kids (Suc ?N) (?P(?N := i)) i" unfolding kids2 by simp
    have Ni: "?N \<noteq> i" using i by simp
    have "balance (Suc ?N) (?P(?N := i)) (((?T(?N := 0))(i := ?T i + ?v))(?N := 0 + ?v)) ((?E(?N := 0))(?N := 0 + ?v)) None 0"
      using balance_move [OF grown(2) _ c, of "?T(?N := 0)" ?v "?E(?N := 0)" 0] grown(1) Ni
      by (simp add: fun_upd_twist)
    then have "pending ?N ?v nodes2"
      using Ni by (simp add: pending_def len P2 T2 E2 n1(5) fun_upd_twist)
    moreover have "root_with ?N ?v nodes2 = root_with i ?v ?nodes"
      using root by (simp add: root_with_def T2 n1(5) rooted_def)
    ultimately show ?thesis
      using merged tree2 len c root Ni P2 by (intro exI [of _ ?N] exI [of _ nodes2]) (simp add: rooted_def nth new_def)
  qed
qed

section \<open>Importing addresses and samples\<close>

text \<open>The file offsets of a process's mappings fit 64 bits.\<close>

definition offsets_fit :: "export_mapping list \<Rightarrow> bool" where
  "offsets_fit ms \<longleftrightarrow> (\<forall>m \<in> set ms. unat (map_end m) - unat (map_start m) + unat (map_file_offset m) < 2 ^ 64)"

definition import_ready :: "(byte list \<Rightarrow> u64) \<Rightarrow> 'o export_process \<Rightarrow> export_graph \<Rightarrow> bool" where
  "import_ready h p g \<longleftrightarrow> table_ok p \<and> offsets_fit (process_mappings p) \<and> slices_inv h (g_strings g)"

lemma string_or_unknown_total:
  "slices_inv h strings \<Longrightarrow> \<exists>s. string_or_unknown strings i = Some s"
  by (auto simp: string_or_unknown_def strings_from_id_def from_id_contents)

lemma graph_intern_spec:
  "slices_inv h (g_strings g) \<Longrightarrow> \<exists>i strings. graph_intern h s g = Some (i, g\<lparr>g_strings := strings\<rparr>) \<and> slices_inv h strings"
  using sl.intern_spec [of h "g_strings g" s] by (auto simp: graph_intern_def strings_to_id_def)

lemma import_resolvable_keeps:
  "\<exists>i rs. import_resolvable r g = (i, g\<lparr>g_resolvables := rs\<rparr>)"
  by (auto simp: import_resolvable_def split: option.split) (metis export_graph.surjective export_graph.update_convs(2))

lemma process_find_mapping_spec:
  assumes "iter_ok it" "table_ok p"
  shows "\<exists>r p'. process_find_mapping it p ip time = Some (r, p') \<and> table_ok p' \<and>
    process_mappings p' = process_mappings p \<and>
    (\<forall>m. r = Some m \<longrightarrow> m \<in> set (process_mappings p) \<and> contains_ip m ip)"
proof -
  obtain r s' where r: "find_index it (ep_mappings p) ip time = Some (r, s')" "cache_ok s'"
    "eml_mappings s' = process_mappings p" "eml_min_lookup s' = eml_min_lookup (ep_mappings p)"
    "\<forall>i. r = Some i \<longrightarrow> candidate (process_mappings p) ip (eml_time time) i"
    using find_index_sound [OF assms(1), of "ep_mappings p" ip time] assms(2)
    unfolding table_ok_def process_mappings_def by auto
  have same: "table_ok (p\<lparr>ep_mappings := s'\<rparr>)" "process_mappings (p\<lparr>ep_mappings := s'\<rparr>) = process_mappings p"
    using assms(2) r(2-4) by (simp_all add: table_ok_def process_mappings_def)
  show ?thesis
  proof (cases r)
    case None
    then have "process_find_mapping it p ip time = Some (None, p\<lparr>ep_mappings := s'\<rparr>)"
      using r(1) by (simp add: process_find_mapping_def find_mapping_def)
    then show ?thesis using same by blast
  next
    case (Some i)
    then have i: "i < length (process_mappings p)" "contains_ip (process_mappings p ! i) ip"
      using r(5) by (auto simp: candidate_def)
    then have "process_find_mapping it p ip time = Some (Some (process_mappings p ! i), p\<lparr>ep_mappings := s'\<rparr>)"
      using r(1,3) Some by (simp add: process_find_mapping_def find_mapping_def at_ok)
    then show ?thesis using same i nth_mem by blast
  qed
qed

lemma import_ip_spec:
  assumes "iter_ok it" "slices_inv h strings" "import_ready h p g"
  shows "\<exists>t p' g'. import_ip h it slash strings time ip p g = Some (t, p', g') \<and>
    g_nodes g' = g_nodes g \<and> import_ready h p' g'"
proof -
  obtain r p' where r: "process_find_mapping it p ip (Some time) = Some (r, p')" "table_ok p'"
    "process_mappings p' = process_mappings p" "\<forall>m. r = Some m \<longrightarrow> m \<in> set (process_mappings p) \<and> contains_ip m ip"
    using process_find_mapping_spec [OF assms(1), of p ip "Some time"] assms(3) unfolding import_ready_def by blast
  have ready: "import_ready h p' g'" if "slices_inv h (g_strings g')" for g'
    using that r(2,3) assms(3) by (simp add: import_ready_def)
  have g: "slices_inv h (g_strings g)" using assms(3) by (simp add: import_ready_def)
  show ?thesis
  proof (cases r)
    case None
    obtain i st where i: "graph_intern h UNKNOWN g = Some (i, g\<lparr>g_strings := st\<rparr>)" "slices_inv h st"
      using graph_intern_spec [OF g] by blast
    obtain j rs where "import_resolvable (resolvable_default\<lparr>res_name := i\<rparr>) (g\<lparr>g_strings := st\<rparr>) =
        (j, g\<lparr>g_strings := st, g_resolvables := rs\<rparr>)"
      using import_resolvable_keeps by fastforce
    then show ?thesis
      using r(1) None i ready by (simp add: import_ip_def)
  next
    case (Some m)
    have m: "map_start m \<le> ip" "ip \<le> map_end m"
      "unat (map_end m) - unat (map_start m) + unat (map_file_offset m) < 2 ^ 64"
      using r(4) Some assms(3) by (auto simp: contains_ip_def import_ready_def offsets_fit_def)
    obtain full where full: "string_or_unknown strings (map_filename_id m) = Some full"
      using string_or_unknown_total [OF assms(2)] by blast
    have d: "sub64 ip (map_start m) = Some (ip - map_start m)" using m(1) by (rule sub64_ok)
    have "unat (ip - map_start m) + unat (map_file_offset m) < 2 ^ 64"
      using m sub64_SomeD [OF d] by (simp add: word_le_nat_alt)
    note add = add64_ok [OF this]
    have "\<exists>a. (if \<not> map_anon m then if KERNEL_START < ip then Some ip
        else do { d \<leftarrow> sub64 ip (map_start m); add64 d (map_file_offset m) } else Some 0) = Some a"
      using d add by (cases "map_anon m"; cases "KERNEL_START < ip") simp_all
    then obtain address where address: "(if \<not> map_anon m then if KERNEL_START < ip then Some ip
        else do { d \<leftarrow> sub64 ip (map_start m); add64 d (map_file_offset m) } else Some 0) = Some address" ..
    obtain j st where j: "(case List.find (\<lambda>s. sym_start s \<le> ip \<and> ip \<le> sym_end s) (map_symbols m) of
        Some s \<Rightarrow> do { sym_name \<leftarrow> string_or_unknown strings (sym_name_id s); graph_intern h sym_name g }
      | None \<Rightarrow> Some (0, g)) = Some (j, g\<lparr>g_strings := st\<rparr>)" "slices_inv h st"
    proof (cases "List.find (\<lambda>s. sym_start s \<le> ip \<and> ip \<le> sym_end s) (map_symbols m)")
      case None
      then show ?thesis using that [of 0 "g_strings g"] g by simp
    next
      case (Some s)
      obtain sn where "string_or_unknown strings (sym_name_id s) = Some sn"
        using string_or_unknown_total [OF assms(2)] by blast
      then show ?thesis using that graph_intern_spec [OF g, of sn] Some by auto
    qed
    obtain i st2 where i: "graph_intern h (short_name slash full) (g\<lparr>g_strings := st\<rparr>) = Some (i, g\<lparr>g_strings := st2\<rparr>)"
      "slices_inv h st2"
      using graph_intern_spec [of h "g\<lparr>g_strings := st\<rparr>" "short_name slash full"] j(2) by auto
    obtain k rs where k: "import_resolvable (resolvable_default\<lparr>res_name := i\<rparr>) (g\<lparr>g_strings := st2\<rparr>) =
        (k, g\<lparr>g_strings := st2, g_resolvables := rs\<rparr>)"
      using import_resolvable_keeps by fastforce
    have "import_ip h it slash strings time ip p g =
        Some (\<lparr>tgt_address = address, tgt_resolvable = k, tgt_method = j\<rparr>, p', g\<lparr>g_strings := st2, g_resolvables := rs\<rparr>)"
      unfolding import_ip_def r(1) Some using full address j(1) i(1) k by simp
    then show ?thesis using ready i(2) by simp
  qed
qed

lemma merge_frames_spec:
  assumes "iter_ok it" "slices_inv h strings"
  shows "import_ready h p g \<Longrightarrow> tree (g_nodes g) \<Longrightarrow> pending i (unat v) (g_nodes g) \<Longrightarrow>
    root_with i (unat v) (g_nodes g) < 2 ^ 64 \<Longrightarrow>
    \<exists>j p' g'. merge_frames h it slash strings time v ips i p g = Some (j, p', g') \<and> import_ready h p' g' \<and>
      tree (g_nodes g') \<and> pending j (unat v) (g_nodes g') \<and> length (g_nodes g) \<le> length (g_nodes g') \<and>
      root_with j (unat v) (g_nodes g') = root_with i (unat v) (g_nodes g) \<and> (ips \<noteq> [] \<longrightarrow> 0 < j) \<and> (ips = [] \<longrightarrow> j = i)"
proof (induction ips arbitrary: i p g)
  case (Cons ip ips)
  obtain t p1 g1 where 1: "import_ip h it slash strings time ip p g = Some (t, p1, g1)"
    "g_nodes g1 = g_nodes g" "import_ready h p1 g1"
    using import_ip_spec [OF assms Cons.prems(1)] by blast
  obtain c nodes where 2: "merge i t v g1 = Some (c, g1\<lparr>g_nodes := nodes\<rparr>)" "tree nodes" "pending c (unat v) nodes"
    "0 < c" "length (g_nodes g) \<le> length nodes" "root_with c (unat v) nodes = root_with i (unat v) (g_nodes g)"
    using merge_spec [of g1 i v t] Cons.prems(2-4) unfolding 1(2) by blast
  have "import_ready h p1 (g1\<lparr>g_nodes := nodes\<rparr>)" using 1(3) by (simp add: import_ready_def)
  then obtain j p' g' where 3: "merge_frames h it slash strings time v ips c p1 (g1\<lparr>g_nodes := nodes\<rparr>) = Some (j, p', g')"
    "import_ready h p' g'" "tree (g_nodes g')" "pending j (unat v) (g_nodes g')" "length nodes \<le> length (g_nodes g')"
    "root_with j (unat v) (g_nodes g') = root_with c (unat v) nodes" "ips \<noteq> [] \<longrightarrow> 0 < j" "ips = [] \<longrightarrow> j = c"
    using Cons.IH [of p1 "g1\<lparr>g_nodes := nodes\<rparr>" c] 2 Cons.prems(4) by auto
  have "0 < j" using 3(7,8) 2(4) by blast
  then show ?case
    using 1(1) 2(1,5,6) 3 by (intro exI [of _ j] exI [of _ p'] exI [of _ g']) simp
qed simp


text \<open>What a sample must bring: its value converts, and its callstack id names a stack with a frame.\<close>

definition sample_ok :: "interned_callstacks \<Rightarrow> (metric_value \<Rightarrow> u64 option) \<Rightarrow> export_sample \<Rightarrow> bool" where
  "sample_ok cs convert s \<longleftrightarrow> convert (smp_value s) \<noteq> None \<and>
     (\<exists>r frames. callstacks_from_id cs (unat (smp_callstack_id s)) [] = Some (r, frames) \<and> frames \<noteq> [])"

definition sample_value :: "(metric_value \<Rightarrow> u64 option) \<Rightarrow> export_sample \<Rightarrow> nat" where
  "sample_value convert s = unat (the (convert (smp_value s)))"

definition graph_ready :: "(byte list \<Rightarrow> u64) \<Rightarrow> 'o graph_state \<Rightarrow> bool" where
  "graph_ready h st \<longleftrightarrow> import_ready h (gs_process st) (gs_graph st) \<and> tree (g_nodes (gs_graph st)) \<and>
     balanced (g_nodes (gs_graph st)) \<and>
     (\<forall>id i. gs_stacks st id = Some i \<longrightarrow> 0 < i \<and> i < length (g_nodes (gs_graph st)))"

definition root_total :: "export_graph \<Rightarrow> nat" where
  "root_total g = unat (node_total (g_nodes g ! 0))"

lemma tree_root: "tree nodes \<Longrightarrow> 0 < length nodes"
  by (simp add: tree_def rooted_def)

text \<open>A pending value added to its node balances the tree.\<close>

lemma settle_spec:
  assumes "tree nodes" "pending i (unat v) nodes" "root_with i (unat v) nodes < 2 ^ 64" "n = nodes ! i"
  shows "\<exists>ex tot. add64 (node_exclusive n) v = Some ex \<and> add64 (node_total n) v = Some tot \<and>
    tree (nodes[i := n\<lparr>node_exclusive := ex, node_total := tot\<rparr>]) \<and>
    balanced (nodes[i := n\<lparr>node_exclusive := ex, node_total := tot\<rparr>]) \<and>
    n_total (nodes[i := n\<lparr>node_exclusive := ex, node_total := tot\<rparr>]) 0 = root_with i (unat v) nodes"
proof -
  have i: "i < length nodes" using assms(2) by (simp add: pending_def)
  have le: "unat (node_total n) + unat v < 2 ^ 64"
    using pending_bound [OF assms(1,2)] assms(3,4) i by (simp add: n_total_def)
  have "n_exclusive nodes i + unat v \<le> n_total nodes i + unat v"
    using assms(2) i by (auto simp: pending_def balance_def)
  then have le': "unat (node_exclusive n) + unat v < 2 ^ 64"
    using le i assms(4) by (simp add: n_total_def n_exclusive_def)
  let ?m = "n\<lparr>node_exclusive := node_exclusive n + v, node_total := node_total n + v\<rparr>"
  have T: "n_total (nodes[i := ?m]) = (n_total nodes)(i := n_total nodes i + unat v)"
    using i unat_add64 [OF le] assms(4) by (auto simp: n_total_def fun_eq_iff nth_list_update)
  have E: "n_exclusive (nodes[i := ?m]) = (n_exclusive nodes)(i := n_exclusive nodes i + unat v)"
    using i unat_add64 [OF le'] assms(4) by (auto simp: n_exclusive_def fun_eq_iff nth_list_update)
  have P: "n_parent (nodes[i := ?m]) = n_parent nodes"
    using i assms(4) by (auto simp: n_parent_def fun_eq_iff nth_list_update)
  have "tree (nodes[i := ?m])"
    by (rule tree_cong [OF assms(1)]) (use i assms(4) P in \<open>auto simp: nth_list_update\<close>)
  moreover have "balanced (nodes[i := ?m])"
    using assms(2) by (simp add: balanced_def pending_def T E P)
  ultimately show ?thesis
    using add64_ok [OF le] add64_ok [OF le'] T by (simp add: root_with_def)
qed

lemma add_graph_sample_spec:
  assumes "iter_ok it" "slices_inv h strings" "sample_ok cs convert s" "graph_ready h st"
    "n_total (g_nodes (gs_graph st)) 0 + sample_value convert s < 2 ^ 64"
  shows "\<exists>st'. add_graph_sample h it slash strings cs convert s st = Some st' \<and> graph_ready h st' \<and>
    n_total (g_nodes (gs_graph st')) 0 = n_total (g_nodes (gs_graph st)) 0 + sample_value convert s"
proof -
  let ?id = "unat (smp_callstack_id s)" and ?g = "gs_graph st" and ?p = "gs_process st" and ?stacks = "gs_stacks st"
  obtain v where v: "convert (smp_value s) = Some v" "sample_value convert s = unat v"
    using assms(3) by (auto simp: sample_ok_def sample_value_def)
  obtain r frames where fr: "callstacks_from_id cs ?id [] = Some (r, frames)" "frames \<noteq> []"
    using assms(3) by (auto simp: sample_ok_def)
  have st: "import_ready h ?p ?g" "tree (g_nodes ?g)" "balanced (g_nodes ?g)"
    "\<forall>id i. ?stacks id = Some i \<longrightarrow> 0 < i \<and> i < length (g_nodes ?g)"
    using assms(4) by (simp_all add: graph_ready_def)
  have small: "n_total (g_nodes ?g) 0 + unat v < 2 ^ 64" using assms(5) v(2) by simp
  define found where "found = (case ?stacks ?id of
      Some i \<Rightarrow> do { g \<leftarrow> charge i v ?g; Ret (i, ?p, g, ?stacks) }
    | None \<Rightarrow> do {
        (_, frames) \<leftarrow> callstacks_from_id cs ?id [];
        (i, p, g) \<leftarrow> merge_frames h it slash strings (smp_time s) v (rev frames) 0 ?p ?g;
        Ret (i, p, g, ?stacks(?id \<mapsto> i))
      })"
  have "\<exists>i p g stacks. found = Some (i, p, g, stacks) \<and> import_ready h p g \<and> tree (g_nodes g) \<and>
      pending i (unat v) (g_nodes g) \<and> root_with i (unat v) (g_nodes g) = n_total (g_nodes ?g) 0 + unat v \<and>
      (\<forall>id i. stacks id = Some i \<longrightarrow> 0 < i \<and> i < length (g_nodes g))"
  proof (cases "?stacks ?id")
    case (Some i)
    then have i: "0 < i" "i < length (g_nodes ?g)" using st(4) by blast+
    obtain nodes where "charge i v ?g = Some (?g\<lparr>g_nodes := nodes\<rparr>)" "tree nodes" "pending i (unat v) nodes"
      "length nodes = length (g_nodes ?g)" "root_with i (unat v) nodes = n_total (g_nodes ?g) 0 + unat v"
      using charge_spec [OF st(2,3) i small] by blast
    then show ?thesis
      using Some st(1,4) by (simp add: found_def import_ready_def)
  next
    case None
    have root: "rooted (length (g_nodes ?g)) (n_parent (g_nodes ?g))" using st(2) by (simp add: tree_def)
    have "balance (length (g_nodes ?g)) (n_parent (g_nodes ?g)) (n_total (g_nodes ?g)) (n_exclusive (g_nodes ?g)) None (unat v)"
      using st(3) unfolding balanced_def by (subst balance_v)
    from balance_top [OF root this tree_root [OF st(2)]]
    have pend: "pending 0 (unat v) (g_nodes ?g)"
      using tree_root [OF st(2)] by (simp add: pending_def balance_def)
    have wth: "root_with 0 (unat v) (g_nodes ?g) = n_total (g_nodes ?g) 0 + unat v" by (simp add: root_with_def)
    have "root_with 0 (unat v) (g_nodes ?g) < 2 ^ 64" unfolding wth by (rule small)
    from merge_frames_spec [OF assms(1,2) st(1,2) pend this, of slash "smp_time s" "rev frames"]
    obtain j p g where j: "merge_frames h it slash strings (smp_time s) v (rev frames) 0 ?p ?g = Some (j, p, g)"
      "import_ready h p g" "tree (g_nodes g)" "pending j (unat v) (g_nodes g)" "length (g_nodes ?g) \<le> length (g_nodes g)"
      "root_with j (unat v) (g_nodes g) = n_total (g_nodes ?g) 0 + unat v" "0 < j"
      unfolding wth using fr(2) by auto
    have "j < length (g_nodes g)" using j(4) by (simp add: pending_def)
    then have "0 < i \<and> i < length (g_nodes g)" if "(?stacks(?id \<mapsto> j)) id = Some i" for id i
      using that j(7) st(4) order_less_le_trans [OF _ j(5)] by (cases "id = ?id") auto
    moreover have "found = Some (j, p, g, ?stacks(?id \<mapsto> j))"
      using None fr(1) j(1) by (simp add: found_def)
    ultimately show ?thesis using j(2-4,6) by blast
  qed
  then obtain i p g stacks where 1: "found = Some (i, p, g, stacks)" "import_ready h p g" "tree (g_nodes g)"
    "pending i (unat v) (g_nodes g)" "root_with i (unat v) (g_nodes g) = n_total (g_nodes ?g) 0 + unat v"
    "\<forall>id i. stacks id = Some i \<longrightarrow> 0 < i \<and> i < length (g_nodes g)"
    by blast
  obtain t p' g' where 2: "import_ip h it slash strings (smp_time s) (smp_ip s) p g = Some (t, p', g')"
    "g_nodes g' = g_nodes g" "import_ready h p' g'"
    using import_ip_spec [OF assms(1,2) 1(2)] by blast
  have "root_with i (unat v) (g_nodes g') < 2 ^ 64" using 1(5) 2(2) small by simp
  then obtain c nodes where 3: "merge i t v g' = Some (c, g'\<lparr>g_nodes := nodes\<rparr>)" "tree nodes" "pending c (unat v) nodes"
    "length (g_nodes g) \<le> length nodes" "root_with c (unat v) nodes = n_total (g_nodes ?g) 0 + unat v"
    using merge_spec [of g' i v t] 1(3-5) unfolding 2(2) by auto
  have c: "c < length nodes" using 3(3) by (simp add: pending_def)
  have "root_with c (unat v) nodes < 2 ^ 64" unfolding 3(5) by (rule small)
  from settle_spec [OF 3(2,3) this refl]
  obtain ex tot where 4: "add64 (node_exclusive (nodes ! c)) v = Some ex" "add64 (node_total (nodes ! c)) v = Some tot"
    "tree (nodes[c := (nodes ! c)\<lparr>node_exclusive := ex, node_total := tot\<rparr>])"
    "balanced (nodes[c := (nodes ! c)\<lparr>node_exclusive := ex, node_total := tot\<rparr>])"
    "n_total (nodes[c := (nodes ! c)\<lparr>node_exclusive := ex, node_total := tot\<rparr>]) 0 = n_total (g_nodes ?g) 0 + unat v"
    unfolding 3(5) by blast
  have "add_graph_sample h it slash strings cs convert s st = Some \<lparr>gs_graph = g'\<lparr>g_nodes :=
      nodes[c := (nodes ! c)\<lparr>node_exclusive := ex, node_total := tot\<rparr>]\<rparr>, gs_process = p', gs_stacks = stacks\<rparr>"
    unfolding add_graph_sample_def Let_def v(1) Option.bind.bind_lunit found_def [symmetric] 1(1)
    using 2(1) 3(1) 4(1,2) c by (simp add: at_ok)
  then show ?thesis
    using 2(3) 3(4) 4(3-5) 1(6) v(2) by (auto simp: graph_ready_def import_ready_def intro: order_less_le_trans)
qed

lemma add_graph_samples_spec:
  assumes "iter_ok it" "slices_inv h strings"
  shows "\<forall>s \<in> set ss. smp_kind s = kind \<longrightarrow> sample_ok cs convert s \<Longrightarrow> graph_ready h st \<Longrightarrow>
    n_total (g_nodes (gs_graph st)) 0 + (\<Sum>s \<leftarrow> filter (\<lambda>s. smp_kind s = kind) ss. sample_value convert s) < 2 ^ 64 \<Longrightarrow>
    \<exists>st'. add_graph_samples h it slash strings cs convert kind ss st = Some st' \<and> graph_ready h st' \<and>
      n_total (g_nodes (gs_graph st')) 0 = n_total (g_nodes (gs_graph st)) 0 +
        (\<Sum>s \<leftarrow> filter (\<lambda>s. smp_kind s = kind) ss. sample_value convert s)"
proof (induction ss arbitrary: st)
  case (Cons s ss)
  show ?case
  proof (cases "smp_kind s = kind")
    case True
    then have "sample_ok cs convert s" "n_total (g_nodes (gs_graph st)) 0 + sample_value convert s < 2 ^ 64"
      using Cons.prems(1,3) by simp_all
    then obtain st1 where 1: "add_graph_sample h it slash strings cs convert s st = Some st1" "graph_ready h st1"
      "n_total (g_nodes (gs_graph st1)) 0 = n_total (g_nodes (gs_graph st)) 0 + sample_value convert s"
      using add_graph_sample_spec [OF assms _ Cons.prems(2), of cs convert s slash] by blast
    then show ?thesis
      using Cons.IH [of st1] Cons.prems(1,3) True by (auto simp: add.assoc)
  next
    case False
    then show ?thesis using Cons.IH [of st] Cons.prems by simp
  qed
qed simp


section \<open>Properties\<close>


definition one_stack :: interned_callstacks where
  "one_stack = snd (the (callstacks_to_id (\<lambda>_. 0) (callstacks_new 8) [0x1010]))"

definition twice_sampled :: "unit export_process" where
  "twice_sampled = add_sample (sample_new 4 (Count 6) 0 0 1 0x1020 0)
     (add_sample (sample_new 3 (Count 5) 0 0 1 0x1010 0) (process_new () 5))"

definition empty_graph :: export_graph where
  "empty_graph = \<lparr>g_strings = strings_new 8, g_resolvables = [resolvable_default],
     g_nodes = [node_default]\<rparr>"

lemma one_stack_frames: "callstacks_from_id one_stack 0 [] = Some (Inr (), [0x1010])"
proof -
  obtain i s where "to_id (\<lambda>_. 0) (slices_new 8) [0x1010 :: u64] = Some (i, s)" "slices_inv (\<lambda>_. 0) s"
    "slices_contents s = [[0x1010]]"
    using sl.intern_spec [OF slices_new_inv [of "\<lambda>_. 0" 8], of "[0x1010 :: u64]"] by auto
  then show ?thesis
    using callstacks_from_id_cases [of "\<lambda>_. 0" s 0 "[]"]
    by (simp add: one_stack_def callstacks_to_id_def callstacks_new_def)
qed

lemma empty_graph_facts:
  "tree (g_nodes empty_graph)" "balanced (g_nodes empty_graph)" "root_total empty_graph = 0"
  "slices_inv h (g_strings empty_graph)"
proof -
  have "kids (Suc 0) P 0 = {}" for P by (auto simp: kids_def)
  then show "tree (g_nodes empty_graph)" "balanced (g_nodes empty_graph)" "root_total empty_graph = 0"
    by (simp_all add: empty_graph_def tree_def rooted_def balanced_def balance_def root_total_def node_default_def
        n_parent_def n_total_def n_exclusive_def)
  show "slices_inv h (g_strings empty_graph)" by (simp add: empty_graph_def strings_new_def slices_new_inv)
qed


text \<open>Not so for a stack without frames, or one whose id is unknown: its cached node is the root, \<open>charge\<close> starts at the root's parent, which is the root, and
  \<open>merge\<close> adds to the root again: the root grows by twice the value.\<close>

theorem frameless_stack_charged_twice:
  assumes "tree (g_nodes g)" "charge 0 v g = Some g1" "merge 0 t v g1 = Some (c, g2)"
  shows "root_total g2 = root_total g + 2 * unat v"
proof -
  have n: "0 < length (g_nodes g)" "node_parent (g_nodes g ! 0) = 0"
    using tree_root [OF assms(1)] assms(1) by (auto simp: tree_def rooted_def n_parent_def)
  have charged: "\<exists>nodes. add_total 0 v (g_nodes g) = Some nodes \<and> g1 = g\<lparr>g_nodes := nodes\<rparr>"
    using assms(2) n by (subst (asm) charge_def) (auto simp: at_ok charge_from.simps bind_eq_Some_conv)
  have add: "0 < length b \<and> unat (node_total (b ! 0)) = unat (node_total (a ! 0)) + unat v" if "add_total 0 v a = Some b" for a b
    using that by (auto simp: add_total_def bind_eq_Some_conv at_def add64_def unat_word_ariths split: if_splits)
  obtain nodes1 where 1: "add_total 0 v (g_nodes g) = Some nodes1" "g_nodes g1 = nodes1" using charged by auto
  have "\<exists>nodes2. add_total 0 v nodes1 = Some nodes2"
    using assms(3) 1(2) by (auto simp: merge_def bind_eq_Some_conv)
  then obtain nodes2 where 2: "add_total 0 v nodes1 = Some nodes2" by blast
  have "node_total (g_nodes g2 ! 0) = node_total (nodes2 ! 0)"
    using assms(3) 1(2) 2 add [OF 2]
    by (auto simp: merge_def bind_eq_Some_conv Let_def add_node_def at_def nth_append split: option.splits if_splits)
  then show ?thesis using add [OF 1(1)] add [OF 2] 1 by (simp add: root_total_def)
qed

theorem frameless_stack_charged_twice_witness:
  "\<exists>g1 c g2. charge 0 5 empty_graph = Some g1 \<and> merge 0 target_default 5 g1 = Some (c, g2) \<and> root_total g2 = 10"
proof -
  define g1 where "g1 = empty_graph\<lparr>g_nodes := [node_default\<lparr>node_total := 5\<rparr>]\<rparr>"
  have 1: "charge 0 5 empty_graph = Some g1"
    by (simp add: charge_def charge_from.simps empty_graph_def g1_def at_def add_total_def node_default_def add64_def)
  obtain c g2 where 2: "merge 0 target_default 5 g1 = Some (c, g2)"
    by (simp add: merge_def empty_graph_def g1_def at_def add_total_def node_default_def add64_def add_node_def)
  show ?thesis
    using frameless_stack_charged_twice [OF empty_graph_facts(1) 1 2] 1 2 empty_graph_facts(3) by auto
qed

end
