(* ===== verification/Attributes.thy ===== *)
theory Attributes
  imports Graph
begin

text \<open>
  \<open>helpers/exporting/attributes.rs\<close> and the parts of \<open>mod.rs\<close> that walk attributes: a table of attribute
  sets that may be associated with each other in any way, cycles included; the walker that collects
  what an id reaches (\<open>ExportMachine::attributes\<close>), and the search for a sample's cgroup.
\<close>

section \<open>Attributes\<close>

datatype attribute_value = Label nat | Number u64 | Record nat

record attribute_pair =
  pair_name :: nat
  pair_content :: attribute_value

definition pair_label :: "attribute_pair \<Rightarrow> nat option" where
  "pair_label p = (case pair_content p of Label i \<Rightarrow> Some i | _ \<Rightarrow> None)"

definition pair_value :: "attribute_pair \<Rightarrow> u64 option" where
  "pair_value p = (case pair_content p of Number v \<Rightarrow> Some v | _ \<Rightarrow> None)"

definition pair_record_id :: "attribute_pair \<Rightarrow> nat option" where
  "pair_record_id p = (case pair_content p of Record i \<Rightarrow> Some i | _ \<Rightarrow> None)"

definition new_label ::
  "(byte list \<Rightarrow> u64) \<Rightarrow> byte list \<Rightarrow> byte list \<Rightarrow> interned_strings \<Rightarrow> (attribute_pair \<times> interned_strings) option" where
  "new_label h name label strings = do {
     (i, strings) \<leftarrow> strings_to_id h strings name;
     (j, strings) \<leftarrow> strings_to_id h strings label;
     Ret (\<lparr>pair_name = i, pair_content = Label j\<rparr>, strings)
   }"

definition new_value ::
  "(byte list \<Rightarrow> u64) \<Rightarrow> byte list \<Rightarrow> u64 \<Rightarrow> interned_strings \<Rightarrow> (attribute_pair \<times> interned_strings) option" where
  "new_value h name v strings = do {
     (i, strings) \<leftarrow> strings_to_id h strings name;
     Ret (\<lparr>pair_name = i, pair_content = Number v\<rparr>, strings)
   }"

definition new_record ::
  "(byte list \<Rightarrow> u64) \<Rightarrow> byte list \<Rightarrow> nat \<Rightarrow> interned_strings \<Rightarrow> (attribute_pair \<times> interned_strings) option" where
  "new_record h name record_id strings = do {
     (i, strings) \<leftarrow> strings_to_id h strings name;
     Ret (\<lparr>pair_name = i, pair_content = Record record_id\<rparr>, strings)
   }"

record attributes =
  att_pairs :: "attribute_pair list"
  att_associated :: "nat list"

definition attributes_default :: attributes where
  "attributes_default = \<lparr>att_pairs = [], att_associated = []\<rparr>"

definition push_association :: "nat \<Rightarrow> attributes \<Rightarrow> attributes" where
  "push_association i a = a\<lparr>att_associated := att_associated a @ [i]\<rparr>"

definition push_pair :: "attribute_pair \<Rightarrow> attributes \<Rightarrow> attributes" where
  "push_pair p a = a\<lparr>att_pairs := att_pairs a @ [p]\<rparr>"

section \<open>The walker\<close>

record walker =
  wk_ids :: "nat list"
  wk_seen :: "nat set"
  wk_attributes :: "attribute_pair list"
  wk_filter :: "(attribute_pair \<Rightarrow> bool) option"

definition walker_default :: walker where
  "walker_default = \<lparr>wk_ids = [], wk_seen = {}, wk_attributes = [], wk_filter = None\<rparr>"

definition with_filter :: "(attribute_pair \<Rightarrow> bool) \<Rightarrow> walker \<Rightarrow> walker" where
  "with_filter f w = w\<lparr>wk_filter := Some f\<rparr>"

definition walker_start :: "walker \<Rightarrow> walker" where
  "walker_start w = w\<lparr>wk_ids := [], wk_seen := {}, wk_attributes := []\<rparr>"

definition pop_id :: "walker \<Rightarrow> nat option \<times> walker" where
  "pop_id w = (if wk_ids w = [] then (None, w) else (Some (last (wk_ids w)), w\<lparr>wk_ids := butlast (wk_ids w)\<rparr>))"

definition push_attributes :: "attribute_pair list \<Rightarrow> walker \<Rightarrow> walker" where
  "push_attributes ps w =
     (case wk_filter w of
        Some f \<Rightarrow> w\<lparr>wk_attributes := wk_attributes w @ filter f ps\<rparr>
      | None \<Rightarrow> w\<lparr>wk_attributes := wk_attributes w @ ps\<rparr>)"

definition push_id :: "nat \<Rightarrow> walker \<Rightarrow> walker" where
  "push_id i w =
     (if i \<in> wk_seen w then w else w\<lparr>wk_ids := wk_ids w @ [i], wk_seen := insert i (wk_seen w)\<rparr>)"

text \<open>The loop of \<open>ExportMachine::attributes\<close>. Its guard lets the id one past the end through.\<close>

partial_function (option) walk_loop :: "attributes list \<Rightarrow> walker \<Rightarrow> walker option" where
  "walk_loop tbl w =
     (case pop_id w of
        (None, w) \<Rightarrow> Ret w
      | (Some i, w) \<Rightarrow>
          if i \<le> length tbl then do {
            a \<leftarrow> at tbl i;
            walk_loop tbl (fold push_id (att_associated a) (push_attributes (att_pairs a) w))
          }
          else walk_loop tbl w)"

definition walk_attributes :: "attributes list \<Rightarrow> nat \<Rightarrow> walker \<Rightarrow> walker option" where
  "walk_attributes tbl attributes_id w = walk_loop tbl (push_id attributes_id (walker_start w))"

section \<open>The cgroup of a sample\<close>

definition first_value :: "nat \<Rightarrow> attributes \<Rightarrow> u64 option" where
  "first_value name a =
     (case List.find (\<lambda>p. pair_name p = name \<and> pair_value p \<noteq> None) (att_pairs a) of
        Some p \<Rightarrow> pair_value p
      | None \<Rightarrow> None)"

lemma unseen_less: "(i::nat) < n \<Longrightarrow> i \<notin> seen \<Longrightarrow> card ({..<n} - insert i seen) < card ({..<n} - seen)"
  by (rule psubset_card_mono) auto

lemma unseen_same: "n \<le> (i::nat) \<Longrightarrow> {..<n} - insert i seen = {..<n} - seen"
  by auto

function cgroup_walk :: "attributes list \<Rightarrow> nat \<Rightarrow> nat list \<Rightarrow> nat set \<Rightarrow> u64" where
  "cgroup_walk tbl name stack seen =
     (if stack = [] then 0
      else let i = last stack; stack = butlast stack
           in if i \<in> seen then cgroup_walk tbl name stack seen
              else if length tbl \<le> i then cgroup_walk tbl name stack (insert i seen)
              else (case first_value name (tbl ! i) of
                  Some v \<Rightarrow> v
                | None \<Rightarrow> cgroup_walk tbl name (stack @ att_associated (tbl ! i)) (insert i seen)))"
  by pat_completeness auto

termination
  by (relation "measures [\<lambda>(tbl, _, _, seen). card ({..<length tbl} - seen), \<lambda>(_, _, stack, _). length stack]")
    (simp_all add: unseen_less unseen_same del: card_Diff_insert)

declare cgroup_walk.simps [simp del]

section \<open>What an id reaches\<close>

definition associations :: "attributes list \<Rightarrow> (nat \<times> nat) set" where
  "associations tbl = {(i, j). i < length tbl \<and> j \<in> set (att_associated (tbl ! i))}"

definition reaches :: "attributes list \<Rightarrow> nat \<Rightarrow> nat set" where
  "reaches tbl i = (associations tbl)\<^sup>* `` {i}"

definition wanted_pairs :: "(attribute_pair \<Rightarrow> bool) option \<Rightarrow> attributes list \<Rightarrow> nat \<Rightarrow> attribute_pair list" where
  "wanted_pairs f tbl i =
     (if i < length tbl then filter (case f of Some f \<Rightarrow> f | None \<Rightarrow> \<lambda>_. True) (att_pairs (tbl ! i)) else [])"

lemma reaches_self: "i \<in> reaches tbl i"
  by (simp add: reaches_def)

lemma reaches_step:
  "j \<in> reaches tbl i \<Longrightarrow> j < length tbl \<Longrightarrow> k \<in> set (att_associated (tbl ! j)) \<Longrightarrow> k \<in> reaches tbl i"
  unfolding reaches_def by (auto simp: associations_def intro: rtrancl.rtrancl_into_rtrancl)

lemma reaches_closed:
  assumes "i \<in> S" "\<forall>j \<in> S. j < length tbl \<longrightarrow> set (att_associated (tbl ! j)) \<subseteq> S"
  shows "reaches tbl i \<subseteq> S"
proof
  fix j assume "j \<in> reaches tbl i"
  then have "(i, j) \<in> (associations tbl)\<^sup>*" by (simp add: reaches_def)
  then show "j \<in> S" using assms by induction (auto simp: associations_def)
qed

lemma finite_reaches: "finite (reaches tbl i)"
proof -
  have "reaches tbl i \<subseteq> insert i (\<Union>a \<in> set tbl. set (att_associated a))"
    by (rule reaches_closed) (auto intro!: bexI [OF _ nth_mem])
  then show ?thesis by (rule finite_subset) simp
qed

text \<open>The walk's invariant: \<open>vs\<close> are the ids popped so far.\<close>

definition walk_inv :: "attributes list \<Rightarrow> nat \<Rightarrow> (attribute_pair \<Rightarrow> bool) option \<Rightarrow> nat list \<Rightarrow> walker \<Rightarrow> bool" where
  "walk_inv tbl i f vs w \<longleftrightarrow> distinct (vs @ wk_ids w) \<and> wk_seen w = set (vs @ wk_ids w) \<and> i \<in> wk_seen w \<and>
     wk_seen w \<subseteq> reaches tbl i \<and> length tbl \<notin> set vs \<and> wk_filter w = f \<and>
     wk_attributes w = concat (map (wanted_pairs f tbl) vs) \<and>
     (\<forall>v \<in> set vs. v < length tbl \<longrightarrow> set (att_associated (tbl ! v)) \<subseteq> wk_seen w)"

lemma push_ids_spec:
  "distinct (vs @ wk_ids w) \<Longrightarrow> wk_seen w = set (vs @ wk_ids w) \<Longrightarrow>
    distinct (vs @ wk_ids (fold push_id js w)) \<and> wk_seen (fold push_id js w) = set (vs @ wk_ids (fold push_id js w)) \<and>
    wk_seen (fold push_id js w) = wk_seen w \<union> set js \<and> wk_filter (fold push_id js w) = wk_filter w \<and>
    wk_attributes (fold push_id js w) = wk_attributes w"
proof (induction js arbitrary: w)
  case (Cons j js)
  show ?case
  proof (cases "j \<in> wk_seen w")
    case True
    then show ?thesis using Cons.IH [OF Cons.prems] by (auto simp: push_id_def)
  next
    case False
    then show ?thesis using Cons.IH [of "push_id j w"] Cons.prems by (auto simp: push_id_def)
  qed
qed simp

lemma walk_loop_spec:
  assumes "walk_inv tbl i f vs w"
  shows "if length tbl \<in> reaches tbl i then walk_loop tbl w = None
    else \<exists>vs' w'. walk_loop tbl w = Some w' \<and> walk_inv tbl i f vs' w' \<and> wk_ids w' = []"
  using assms
proof (induction "card (reaches tbl i - set vs)" arbitrary: vs w rule: less_induct)
  case less
  note inv = less.prems [unfolded walk_inv_def]
  show ?case
  proof (cases "wk_ids w = []")
    case True
    then have "walk_loop tbl w = Some w" by (subst walk_loop.simps) (simp add: pop_id_def)
    moreover have "reaches tbl i \<subseteq> set vs"
      by (rule reaches_closed) (use inv True in auto)
    ultimately show ?thesis using less.prems inv True by auto
  next
    case False
    define j w1 where "j = last (wk_ids w)" and "w1 = w\<lparr>wk_ids := butlast (wk_ids w)\<rparr>"
    have ids: "wk_ids w = wk_ids w1 @ [j]" using False by (simp add: j_def w1_def)
    have pop: "pop_id w = (Some j, w1)" using False by (simp add: pop_id_def j_def w1_def)
    have w1: "wk_seen w1 = wk_seen w" "wk_filter w1 = f" "wk_attributes w1 = wk_attributes w" using inv by (simp_all add: w1_def)
    have j: "j \<in> reaches tbl i" "j \<notin> set vs" using inv ids by auto
    have smaller: "card (reaches tbl i - set (vs @ [j])) < card (reaches tbl i - set vs)"
      using j by (intro psubset_card_mono) (auto simp: finite_reaches)
    consider "j < length tbl" | "j = length tbl" | "length tbl < j" by linarith
    then show ?thesis
    proof cases
      case 1
      let ?js = "att_associated (tbl ! j)"
      define w2 where "w2 = fold push_id ?js (push_attributes (att_pairs (tbl ! j)) w1)"
      have pa: "wk_ids (push_attributes ps w1) = wk_ids w1" "wk_seen (push_attributes ps w1) = wk_seen w"
        "wk_filter (push_attributes ps w1) = f" for ps
        using w1 by (simp_all add: push_attributes_def split: option.split)
      have att: "wk_attributes (push_attributes (att_pairs (tbl ! j)) w1) = wk_attributes w @ wanted_pairs f tbl j"
        using w1 1 by (simp add: push_attributes_def wanted_pairs_def split: option.split)
      have p1: "distinct ((vs @ [j]) @ wk_ids w1)" and p2: "wk_seen w = set ((vs @ [j]) @ wk_ids w1)"
        using inv ids by auto
      have pushed: "distinct ((vs @ [j]) @ wk_ids w2) \<and> wk_seen w2 = set ((vs @ [j]) @ wk_ids w2) \<and>
          wk_seen w2 = wk_seen w \<union> set ?js \<and> wk_filter w2 = f \<and> wk_attributes w2 = wk_attributes w @ wanted_pairs f tbl j"
        using push_ids_spec [of "vs @ [j]" "push_attributes (att_pairs (tbl ! j)) w1" ?js, unfolded pa, OF p1 p2]
        unfolding w2_def [symmetric] att .
      have "set ?js \<subseteq> reaches tbl i" using reaches_step [OF j(1) 1] by blast
      have seen2: "wk_seen w2 = wk_seen w \<union> set ?js" using pushed by blast
      have "walk_inv tbl i f (vs @ [j]) w2"
        unfolding walk_inv_def
      proof (intro conjI ballI impI)
        show "length tbl \<notin> set (vs @ [j])" using inv 1 by auto
        show "wk_seen w2 \<subseteq> reaches tbl i"
          using inv \<open>set ?js \<subseteq> reaches tbl i\<close> unfolding seen2 by blast
        show "set (att_associated (tbl ! v)) \<subseteq> wk_seen w2" if "v \<in> set (vs @ [j])" "v < length tbl" for v
        proof (cases "v = j")
          case False
          then have "v \<in> set vs" using that(1) by simp
          then have "set (att_associated (tbl ! v)) \<subseteq> wk_seen w" using inv that(2) by blast
          then show ?thesis unfolding seen2 by blast
        qed (simp add: seen2)
      qed (use pushed inv 1 seen2 in \<open>auto simp del: distinct_append set_append\<close>)
      moreover have "walk_loop tbl w = walk_loop tbl w2"
        using pop 1 by (subst walk_loop.simps) (simp add: at_ok w2_def)
      ultimately show ?thesis using less.hyps [OF smaller] by simp
    next
      case 2
      then have "walk_loop tbl w = None" using pop by (subst walk_loop.simps) (simp add: at_def)
      then show ?thesis using j(1) 2 by simp
    next
      case 3
      have "\<forall>v \<in> set (vs @ [j]). v < length tbl \<longrightarrow> set (att_associated (tbl ! v)) \<subseteq> wk_seen w1"
        unfolding w1(1)
      proof (intro ballI impI)
        fix v assume "v \<in> set (vs @ [j])" "v < length tbl"
        then have "v \<in> set vs" "v < length tbl" using 3 by auto
        then show "set (att_associated (tbl ! v)) \<subseteq> wk_seen w" using inv by blast
      qed
      moreover have "i \<in> wk_seen w1" "wk_seen w1 \<subseteq> reaches tbl i" unfolding w1(1) using inv by blast+
      moreover have "wanted_pairs f tbl j = []" using 3 by (simp add: wanted_pairs_def)
      ultimately have "walk_inv tbl i f (vs @ [j]) w1"
        using inv ids 3 w1 unfolding walk_inv_def by simp
      moreover have "walk_loop tbl w = walk_loop tbl w1"
        using pop 3 by (subst walk_loop.simps) simp
      ultimately show ?thesis using less.hyps [OF smaller] by simp
    qed
  qed
qed

text \<open>The search for the cgroup: what is on the stack or seen is closed under association.\<close>

lemma cgroup_walk_spec:
  assumes "\<forall>j \<in> seen. j < length tbl \<longrightarrow> first_value name (tbl ! j) = None \<and> set (att_associated (tbl ! j)) \<subseteq> seen \<union> set stack"
    and "seen \<union> set stack \<subseteq> reaches tbl i" "i \<in> seen \<union> set stack"
  shows "(\<exists>j \<in> reaches tbl i. j < length tbl \<and> first_value name (tbl ! j) = Some (cgroup_walk tbl name stack seen)) \<or>
    cgroup_walk tbl name stack seen = 0 \<and> (\<forall>j \<in> reaches tbl i. j < length tbl \<longrightarrow> first_value name (tbl ! j) = None)"
  using assms
proof (induction tbl name stack seen rule: cgroup_walk.induct)
  case (1 tbl name stack seen)
  show ?case
  proof (cases "stack = []")
    case True
    then have "reaches tbl i \<subseteq> seen" using 1(4-6) by (intro reaches_closed) auto
    then show ?thesis using True 1(4) by (subst cgroup_walk.simps) auto
  next
    case False
    define j where "j = last stack"
    have stack: "set stack = insert j (set (butlast stack))"
      using False append_butlast_last_id [OF False] unfolding j_def
      by (metis Un_insert_right list.set(1) list.simps(15) set_append sup_bot.right_neutral)
    have j: "j \<in> reaches tbl i" using 1(5) stack by auto
    note step = 1(1-3) [OF False j_def refl]
    consider "j \<in> seen" | "j \<notin> seen" "length tbl \<le> j" | v where "j \<notin> seen" "j < length tbl" "first_value name (tbl ! j) = Some v"
      | "j \<notin> seen" "j < length tbl" "first_value name (tbl ! j) = None"
      by (metis not_le option.exhaust)
    then show ?thesis
    proof cases
      case 1
      then have "cgroup_walk tbl name stack seen = cgroup_walk tbl name (butlast stack) seen"
        using False by (subst cgroup_walk.simps) (simp add: j_def)
      moreover have "seen \<union> set stack = seen \<union> set (butlast stack)" using 1 stack by auto
      moreover have "set stack \<union> seen = set (butlast stack) \<union> seen" using 1 stack by auto
      ultimately show ?thesis using step(1) [OF 1] "1.prems" by (simp add: Un_commute)
    next
      case 2
      then have "cgroup_walk tbl name stack seen = cgroup_walk tbl name (butlast stack) (insert j seen)"
        using False by (subst cgroup_walk.simps) (simp add: j_def)
      then show ?thesis using step(2) [OF 2] "1.prems" 2 stack by auto
    next
      case 3
      then have "cgroup_walk tbl name stack seen = v"
        using False by (subst cgroup_walk.simps) (simp add: j_def)
      then show ?thesis using 3 j by auto
    next
      case 4
      then have "cgroup_walk tbl name stack seen =
          cgroup_walk tbl name (butlast stack @ att_associated (tbl ! j)) (insert j seen)"
        using False by (subst cgroup_walk.simps) (simp add: j_def Let_def)
      moreover have "set (att_associated (tbl ! j)) \<subseteq> reaches tbl i" using reaches_step [OF j 4(2)] by blast
      ultimately show ?thesis using step(3) [OF 4(1) _ 4(3)] "1.prems" 4 stack by auto
    qed
  qed
qed


section \<open>Properties\<close>

text \<open>C27. Walking an attribute id ends for every table, cycles included. It panics exactly if the id one
  past the end of the table can be reached, which the guard means to skip; else it visits every id that
  can be reached exactly once and collects the pairs of those in the table that pass the filter.\<close>

theorem walk_attributes_exact:
  "if length tbl \<in> reaches tbl i then walk_attributes tbl i w = None
   else \<exists>vs w'. walk_attributes tbl i w = Some w' \<and> distinct vs \<and> set vs = reaches tbl i \<and>
     wk_attributes w' = concat (map (wanted_pairs (wk_filter w) tbl) vs)"
proof -
  have start: "walk_inv tbl i (wk_filter w) [] (push_id i (walker_start w))"
    by (simp add: walk_inv_def push_id_def walker_start_def reaches_self)
  show ?thesis
  proof (cases "length tbl \<in> reaches tbl i")
    case False
    then obtain vs w' where w': "walk_attributes tbl i w = Some w'" "walk_inv tbl i (wk_filter w) vs w'" "wk_ids w' = []"
      using walk_loop_spec [OF start] by (auto simp: walk_attributes_def)
    note inv = w'(2) [unfolded walk_inv_def w'(3) append_Nil2]
    then have seen: "wk_seen w' = set vs" by blast
    have "reaches tbl i \<subseteq> set vs"
      by (rule reaches_closed) (use inv seen in blast)+
    then have "set vs = reaches tbl i" using inv seen by blast
    then show ?thesis using False w'(1) inv by (simp only: if_False) blast
  qed (use walk_loop_spec [OF start] in \<open>simp add: walk_attributes_def\<close>)
qed

end
