(* ===== verification/Machine.thy ===== *)
theory Machine
  imports Attributes EventObj

begin

text \<open>
  \<open>ExportMachine\<close> of \<open>helpers/exporting/mod.rs\<close> with \<open>record.rs\<close>, and the hooks that \<open>os/linux.rs\<close> gives
  it: processes by pid, samples, records, attributes, spans, kinds, the executable mappings and the
  life of processes. The file system is a parameter (\<open>system\<close>): a process's root, what opening a file
  gives, the load header of an ELF file, the pid in the process's own namespace.
\<close>

section \<open>Records\<close>

record export_record_type =
  rt_kind :: u16
  rt_id :: nat
  rt_name :: string
  rt_format :: event_format
  rt_flags :: byte

definition EXPORT_RECORD_FLAG_ORIG_DATA :: byte where "EXPORT_RECORD_FLAG_ORIG_DATA = 1"

definition record_type_default :: export_record_type where
  "record_type_default = \<lparr>rt_kind = 0, rt_id = 0, rt_name = [], rt_format = format_new, rt_flags = 0\<rparr>"

definition record_type_new :: "u16 \<Rightarrow> nat \<Rightarrow> string \<Rightarrow> event_format \<Rightarrow> export_record_type" where
  "record_type_new kind i name fmt = \<lparr>rt_kind = kind, rt_id = i, rt_name = name, rt_format = fmt, rt_flags = 0\<rparr>"

definition set_original_data_flag :: "export_record_type \<Rightarrow> export_record_type" where
  "set_original_data_flag t = t\<lparr>rt_flags := rt_flags t OR EXPORT_RECORD_FLAG_ORIG_DATA\<rparr>"

definition is_original_data :: "export_record_type \<Rightarrow> bool" where
  "is_original_data t \<longleftrightarrow> rt_flags t AND EXPORT_RECORD_FLAG_ORIG_DATA \<noteq> 0"

definition record_type_from_event :: "u16 \<Rightarrow> 's event \<Rightarrow> export_record_type" where
  "record_type_from_event kind e = \<lparr>rt_kind = kind, rt_id = ev_id e, rt_name = ev_name e, rt_format = ev_format e,
     rt_flags = EXPORT_RECORD_FLAG_ORIG_DATA\<rparr>"

record export_record =
  rec_type :: u16
  rec_offset :: nat
  rec_length :: u32

definition record_default :: export_record where
  "record_default = \<lparr>rec_type = 0, rec_offset = 0, rec_length = 0\<rparr>"

definition rec_end :: "export_record \<Rightarrow> nat" where
  "rec_end r = rec_offset r + unat (rec_length r)"

record record_data =
  rd_type_id :: u16
  rd_type :: export_record_type
  rd_data :: "byte list"

section \<open>The machine\<close>

datatype filter_action = Keep | Drop

record 'o filter_context =
  fc_kinds :: "byte list list"
  fc_spans :: "export_span list"
  fc_record_types :: "export_record_type list"
  fc_record_type_id :: u16
  fc_record_data :: "byte list option"
  fc_strings :: interned_strings
  fc_attributes :: "attributes list"
  fc_proc :: "'o export_process"
  fc_sample :: export_sample

type_synonym 'o sample_hook = "'o filter_context \<Rightarrow> filter_action"

record cswitch =
  cs_start_time :: u64
  cs_sample :: "export_sample option"

definition cswitch_default :: cswitch where
  "cswitch_default = \<lparr>cs_start_time = 0, cs_sample = None\<rparr>"

text \<open>\<open>'o\<close> is a process's root directory, \<open>'f\<close> an open file.\<close>

record ('o, 'f) system =
  sys_no_root :: 'o
  sys_root :: "u32 \<Rightarrow> 'o option"
  sys_open :: "'o \<Rightarrow> byte list \<Rightarrow> 'f option"
  sys_load_header :: "'f \<Rightarrow> (u64 \<times> u64) option"
  sys_ns_pid :: "u32 \<Rightarrow> u32 option"

record ('o, 'f) machine =
  em_strings :: interned_strings
  em_callstacks :: interned_callstacks
  em_procs :: "u32 \<rightharpoonup> 'o export_process"
  em_records :: "export_record list"
  em_attributes :: "attributes list"
  em_spans :: "export_span list"
  em_record_data :: "byte list"
  em_kinds :: "byte list list"
  em_record_types :: "export_record_type list"
  em_map_index :: nat
  em_start_date :: "nat option"
  em_start_qpc :: "u64 option"
  em_end_qpc :: "u64 option"
  em_duration :: "u64 option"
  em_sample_hooks :: "'o sample_hook list"
  em_process_fs :: bool
  em_dev_nodes :: "module_key \<rightharpoonup> 'f"
  em_va_offsets :: "module_key \<rightharpoonup> u64"
  em_cswitches :: "u32 \<rightharpoonup> cswitch"

definition machine_new ::
  "(byte list \<Rightarrow> u64) \<Rightarrow> nat \<Rightarrow> nat \<Rightarrow> bool \<Rightarrow> 'o sample_hook list \<Rightarrow> ('o, 'f) machine option" where
  "machine_new h string_buckets callstack_buckets process_fs hooks = do {
     (_, strings) \<leftarrow> strings_to_id h (strings_new string_buckets) [];
     Ret \<lparr>em_strings = strings, em_callstacks = callstacks_new callstack_buckets, em_procs = Map.empty,
       em_records = [record_default], em_attributes = [attributes_default], em_spans = [], em_record_data = [],
       em_kinds = [], em_record_types = [record_type_default], em_map_index = 0, em_start_date = None,
       em_start_qpc = None, em_end_qpc = None, em_duration = None, em_sample_hooks = hooks,
       em_process_fs = process_fs, em_dev_nodes = Map.empty, em_va_offsets = Map.empty, em_cswitches = Map.empty\<rparr>
   }"

definition find_process :: "u32 \<Rightarrow> ('o, 'f) machine \<Rightarrow> 'o export_process option" where
  "find_process pid m = em_procs m pid"

text \<open>\<open>procs.entry(pid).or_insert_with(..)\<close>: the process, and the machine that has it.\<close>

definition process_entry :: "('o, 'f) system \<Rightarrow> u32 \<Rightarrow> ('o, 'f) machine \<Rightarrow> 'o export_process" where
  "process_entry sys pid m = (case em_procs m pid of Some p \<Rightarrow> p | None \<Rightarrow> process_new (sys_no_root sys) pid)"

definition process_mut ::
  "('o, 'f) system \<Rightarrow> u32 \<Rightarrow> ('o export_process \<Rightarrow> 'o export_process) \<Rightarrow> ('o, 'f) machine \<Rightarrow> ('o, 'f) machine" where
  "process_mut sys pid f m = m\<lparr>em_procs := (em_procs m)(pid \<mapsto> f (process_entry sys pid m))\<rparr>"

definition intern :: "(byte list \<Rightarrow> u64) \<Rightarrow> byte list \<Rightarrow> ('o, 'f) machine \<Rightarrow> (nat \<times> ('o, 'f) machine) option" where
  "intern h s m = do { (i, strings) \<leftarrow> strings_to_id h (em_strings m) s; Ret (i, m\<lparr>em_strings := strings\<rparr>) }"

section \<open>Kinds, types, records, attributes and spans\<close>

definition sample_kind :: "byte list \<Rightarrow> ('o, 'f) machine \<Rightarrow> u16 \<times> ('o, 'f) machine" where
  "sample_kind name m =
     (case index_of name (em_kinds m) of
        Some i \<Rightarrow> (of_nat i, m)
      | None \<Rightarrow> (of_nat (length (em_kinds m)), m\<lparr>em_kinds := em_kinds m @ [name]\<rparr>))"

definition find_sample_kind :: "byte list \<Rightarrow> ('o, 'f) machine \<Rightarrow> u16 option" where
  "find_sample_kind name m = map_option of_nat (index_of name (em_kinds m))"

definition machine_record_type :: "export_record_type \<Rightarrow> ('o, 'f) machine \<Rightarrow> u16 \<times> ('o, 'f) machine" where
  "machine_record_type t m =
     (case index_of t (em_record_types m) of
        Some i \<Rightarrow> (of_nat i, m)
      | None \<Rightarrow> (of_nat (length (em_record_types m)), m\<lparr>em_record_types := em_record_types m @ [t]\<rparr>))"

text \<open>The macro \<open>create_record\<close>.\<close>

definition create_record :: "u16 \<Rightarrow> byte list \<Rightarrow> ('o, 'f) machine \<Rightarrow> nat \<times> ('o, 'f) machine" where
  "create_record record_type data m =
     (length (em_records m),
      m\<lparr>em_records := em_records m @
          [\<lparr>rec_type = record_type, rec_offset = length (em_record_data m), rec_length = of_nat (length data)\<rparr>],
        em_record_data := em_record_data m @ data\<rparr>)"

definition machine_record_data :: "u16 \<Rightarrow> byte list \<Rightarrow> ('o, 'f) machine \<Rightarrow> nat \<times> ('o, 'f) machine" where
  "machine_record_data record_type data m = create_record record_type data m"

definition try_get_record_data :: "nat \<Rightarrow> ('o, 'f) machine \<Rightarrow> byte list option option" where
  "try_get_record_data record_id m =
     (if length (em_records m) \<le> record_id then Ret None
      else do {
        r \<leftarrow> at (em_records m) record_id;
        d \<leftarrow> subslice (em_record_data m) (rec_offset r) (rec_end r);
        Ret (Some d)
      })"

definition sample_record_data :: "export_sample \<Rightarrow> ('o, 'f) machine \<Rightarrow> record_data option" where
  "sample_record_data s m = do {
     r \<leftarrow> at (em_records m) (unat (smp_record_id s));
     t \<leftarrow> at (em_record_types m) (unat (rec_type r));
     d \<leftarrow> subslice (em_record_data m) (rec_offset r) (rec_end r);
     Ret \<lparr>rd_type_id = rec_type r, rd_type = t, rd_data = d\<rparr>
   }"

definition machine_attributes :: "nat \<Rightarrow> walker \<Rightarrow> ('o, 'f) machine \<Rightarrow> walker option" where
  "machine_attributes attributes_id w m = walk_attributes (em_attributes m) attributes_id w"

definition sample_attributes :: "export_sample \<Rightarrow> walker \<Rightarrow> ('o, 'f) machine \<Rightarrow> walker option" where
  "sample_attributes s w m = machine_attributes (unat (smp_attributes_id s)) w m"

definition push_unique_attributes :: "attributes \<Rightarrow> ('o, 'f) machine \<Rightarrow> nat \<times> ('o, 'f) machine" where
  "push_unique_attributes a m = (length (em_attributes m), m\<lparr>em_attributes := em_attributes m @ [a]\<rparr>)"

definition label_attribute ::
  "(byte list \<Rightarrow> u64) \<Rightarrow> byte list \<Rightarrow> byte list \<Rightarrow> ('o, 'f) machine \<Rightarrow> (attribute_pair \<times> ('o, 'f) machine) option" where
  "label_attribute h name label m = do {
     (p, strings) \<leftarrow> new_label h name label (em_strings m);
     Ret (p, m\<lparr>em_strings := strings\<rparr>)
   }"

definition value_attribute ::
  "(byte list \<Rightarrow> u64) \<Rightarrow> byte list \<Rightarrow> u64 \<Rightarrow> ('o, 'f) machine \<Rightarrow> (attribute_pair \<times> ('o, 'f) machine) option" where
  "value_attribute h name v m = do {
     (p, strings) \<leftarrow> new_value h name v (em_strings m);
     Ret (p, m\<lparr>em_strings := strings\<rparr>)
   }"

definition record_attribute ::
  "(byte list \<Rightarrow> u64) \<Rightarrow> byte list \<Rightarrow> byte list \<Rightarrow> ('o, 'f) machine \<Rightarrow> (attribute_pair \<times> ('o, 'f) machine) option" where
  "record_attribute h name data m = (
     let (record_id, m) = create_record 0 data m in do {
     (p, strings) \<leftarrow> new_record h name record_id (em_strings m);
     Ret (p, m\<lparr>em_strings := strings\<rparr>)
   })"

definition machine_span_to_value :: "export_span \<Rightarrow> ('o, 'f) machine \<Rightarrow> metric_value \<times> ('o, 'f) machine" where
  "machine_span_to_value s m = (let (v, table) = span_to_value s (em_spans m) in (v, m\<lparr>em_spans := table\<rparr>))"

definition sample_span :: "export_sample \<Rightarrow> ('o, 'f) machine \<Rightarrow> export_span option" where
  "sample_span s m = span_from_value (em_spans m) (smp_value s)"

section \<open>Hooks that drop samples\<close>

fun run_hooks :: "'o filter_context \<Rightarrow> 'o sample_hook list \<Rightarrow> bool" where
  "run_hooks ctx [] = True"
| "run_hooks ctx (hook # hooks) = (case hook ctx of Keep \<Rightarrow> run_hooks ctx hooks | Drop \<Rightarrow> False)"

text \<open>The macro \<open>filter_sample_ret_on_drop\<close>: may the sample stay?\<close>

definition sample_stays ::
  "('o, 'f) machine \<Rightarrow> 'o export_process \<Rightarrow> export_sample \<Rightarrow> u16 \<Rightarrow> byte list option \<Rightarrow> bool" where
  "sample_stays m p s record_type data =
     (em_sample_hooks m = [] \<or>
      run_hooks \<lparr>fc_kinds = em_kinds m, fc_spans = em_spans m, fc_record_types = em_record_types m,
        fc_record_type_id = record_type, fc_record_data = data, fc_strings = em_strings m,
        fc_attributes = em_attributes m, fc_proc = p, fc_sample = s\<rparr> (em_sample_hooks m))"

definition context_pid :: "'o filter_context \<Rightarrow> u32" where
  "context_pid ctx = ep_pid (fc_proc ctx)"

definition CGROUP :: "byte list" where
  "CGROUP = [67, 71, 114, 111, 117, 112]"

definition cgroup_id :: "(byte list \<Rightarrow> u64) \<Rightarrow> 'o filter_context \<Rightarrow> u64 option" where
  "cgroup_id h ctx =
     (if smp_attributes_id (fc_sample ctx) = 0 then Ret 0
      else do {
        found \<leftarrow> strings_find_id h (fc_strings ctx) CGROUP;
        (case found of
           None \<Rightarrow> Ret 0
         | Some name \<Rightarrow> Ret (cgroup_walk (fc_attributes ctx) name [unat (smp_attributes_id (fc_sample ctx))] {}))
      })"

definition context_record_data :: "'o filter_context \<Rightarrow> record_data option option" where
  "context_record_data ctx =
     (case fc_record_data ctx of
        None \<Rightarrow> Ret None
      | Some d \<Rightarrow> do {
          t \<leftarrow> at (fc_record_types ctx) (unat (fc_record_type_id ctx));
          Ret (Some \<lparr>rd_type_id = fc_record_type_id ctx, rd_type = t, rd_data = d\<rparr>)
        })"

definition context_kind_str :: "'o filter_context \<Rightarrow> byte list" where
  "context_kind_str ctx = (let kind = unat (smp_kind (fc_sample ctx))
     in if length (fc_kinds ctx) \<le> kind then UNKNOWN else fc_kinds ctx ! kind)"

definition context_comm_name :: "'o filter_context \<Rightarrow> byte list option" where
  "context_comm_name ctx =
     (case ep_comm_id (fc_proc ctx) of
        Some i \<Rightarrow> string_or_unknown (fc_strings ctx) i
      | None \<Rightarrow> Ret UNKNOWN)"

section \<open>Samples\<close>

definition make_sample ::
  "(u64 list \<Rightarrow> u64) \<Rightarrow> u64 \<Rightarrow> metric_value \<Rightarrow> u32 \<Rightarrow> u16 \<Rightarrow> u16 \<Rightarrow> u64 list \<Rightarrow> ('o, 'f) machine \<Rightarrow>
   (export_sample \<times> ('o, 'f) machine) option" where
  "make_sample hc time v tid cpu kind frames m = (
     let frames = (if frames = [] then [0] else frames) in do {
     (i, cs) \<leftarrow> callstacks_to_id hc (em_callstacks m) (tl frames);
     Ret (sample_new time v cpu kind tid (hd frames) i, m\<lparr>em_callstacks := cs\<rparr>)
   })"

text \<open>\<open>add_process_sample\<close>; \<open>add_custom_sample\<close> is the same. The process is made even for a sample that
  is dropped.\<close>

definition add_process_sample ::
  "('o, 'f) system \<Rightarrow> u32 \<Rightarrow> export_sample \<Rightarrow> ('o, 'f) machine \<Rightarrow> ('o, 'f) machine" where
  "add_process_sample sys pid s m =
     process_mut sys pid (\<lambda>p. if sample_stays m p s 0 None then add_sample s p else p) m"

definition machine_add_sample ::
  "('o, 'f) system \<Rightarrow> (u64 list \<Rightarrow> u64) \<Rightarrow> u64 \<Rightarrow> metric_value \<Rightarrow> u32 \<Rightarrow> u32 \<Rightarrow> u16 \<Rightarrow> u16 \<Rightarrow> u64 list \<Rightarrow>
   ('o, 'f) machine \<Rightarrow> ('o, 'f) machine option" where
  "machine_add_sample sys hc time v pid tid cpu kind frames m = do {
     (s, m) \<leftarrow> make_sample hc time v tid cpu kind frames m;
     Ret (add_process_sample sys pid s m)
   }"

definition attach_record_to_sample ::
  "('o, 'f) system \<Rightarrow> u32 \<Rightarrow> export_sample \<Rightarrow> u16 \<Rightarrow> byte list \<Rightarrow> ('o, 'f) machine \<Rightarrow>
   (err + unit) \<times> ('o, 'f) machine" where
  "attach_record_to_sample sys pid s record_type data m =
     (if has_record s then (Inl ''Record is already attached.'', m)
      else
        (let p = process_entry sys pid m
         in if \<not> sample_stays m p s record_type (Some data) then (Inr (), process_mut sys pid id m)
            else (let (record_id, m) = create_record record_type data m
                  in (Inr (), process_mut sys pid (add_sample (attach_record record_id s)) m))))"

definition add_sample_with_record ::
  "('o, 'f) system \<Rightarrow> (u64 list \<Rightarrow> u64) \<Rightarrow> u64 \<Rightarrow> metric_value \<Rightarrow> u32 \<Rightarrow> u32 \<Rightarrow> u16 \<Rightarrow> u16 \<Rightarrow> u16 \<Rightarrow> byte list \<Rightarrow>
   u64 list \<Rightarrow> ('o, 'f) machine \<Rightarrow> ((err + unit) \<times> ('o, 'f) machine) option" where
  "add_sample_with_record sys hc time v pid tid cpu kind record_type data frames m = do {
     (s, m) \<leftarrow> make_sample hc time v tid cpu kind frames m;
     Ret (attach_record_to_sample sys pid s record_type data m)
   }"


section \<open>Executable mappings and the life of processes\<close>

definition key_from_parts :: "u32 \<Rightarrow> u32 \<Rightarrow> u64 \<Rightarrow> module_key" where
  "key_from_parts dev_maj dev_min ino = \<lparr>key_dev = push_bit 8 (ucast dev_maj) OR ucast dev_min, key_ino = ino\<rparr>"

definition MEMFD :: "byte list" where
  "MEMFD = [47, 109, 101, 109, 102, 100, 58]"

definition ANON :: "byte list" where
  "ANON = [47, 47, 97, 110, 111, 110]"

definition DLL :: "byte list" where
  "DLL = [46, 100, 108, 108]"

definition EXE :: "byte list" where
  "EXE = [46, 101, 120, 101]"

definition anon_filename :: "byte list \<Rightarrow> bool" where
  "anon_filename f \<longleftrightarrow> f = [] \<or> starts_with f [91] \<or> starts_with f MEMFD \<or> starts_with f ANON"

definition unwind_type_of :: "byte list \<Rightarrow> unwind_type" where
  "unwind_type_of f = (if anon_filename f \<or> ends_with f DLL \<or> ends_with f EXE then Prolog else DWARF)"

text \<open>\<open>os_add_mmap_exec\<close>: the first time a file of a known process can be opened its load header gives the
  offset between its addresses and the file.\<close>

definition learn_va_offset ::
  "('o, 'f) system \<Rightarrow> u32 \<Rightarrow> module_key \<Rightarrow> byte list \<Rightarrow> ('o, 'f) machine \<Rightarrow> ('o, 'f) machine" where
  "learn_va_offset sys pid key filename m =
     (if em_dev_nodes m key \<noteq> None then m
      else (let file = (case em_procs m pid of Some p \<Rightarrow> sys_open sys (ep_os p) filename | None \<Rightarrow> None);
                va_offset = (case file of
                    Some f \<Rightarrow> (case sys_load_header sys f of
                        Some (vaddr, offset) \<Rightarrow> if offset \<le> vaddr then vaddr - offset else 0
                      | None \<Rightarrow> 0)
                  | None \<Rightarrow> 0)
            in m\<lparr>em_dev_nodes := (case file of Some f \<Rightarrow> (em_dev_nodes m)(key \<mapsto> f) | None \<Rightarrow> em_dev_nodes m),
                 em_va_offsets := (em_va_offsets m)(key \<mapsto> va_offset)\<rparr>))"

definition os_add_mmap_exec ::
  "('o, 'f) system \<Rightarrow> u32 \<Rightarrow> export_mapping \<Rightarrow> byte list \<Rightarrow> ('o, 'f) machine \<Rightarrow> export_mapping \<times> ('o, 'f) machine" where
  "os_add_mmap_exec sys pid mapping filename m =
     (case map_node mapping of
        None \<Rightarrow> (mapping, m)
      | Some key \<Rightarrow>
          (let m = learn_va_offset sys pid key filename m;
               va_offset = (case em_va_offsets m key of Some v \<Rightarrow> v | None \<Rightarrow> 0)
           in (if va_offset \<noteq> 0 then mapping\<lparr>map_va_offset := va_offset\<rparr> else mapping, m)))"

definition add_mmap_exec ::
  "('o, 'f) system \<Rightarrow> (byte list \<Rightarrow> u64) \<Rightarrow> u64 \<Rightarrow> u32 \<Rightarrow> u64 \<Rightarrow> u64 \<Rightarrow> u64 \<Rightarrow> u32 \<Rightarrow> u32 \<Rightarrow> u64 \<Rightarrow> byte list \<Rightarrow>
   ('o, 'f) machine \<Rightarrow> ((err + unit) \<times> ('o, 'f) machine) option" where
  "add_mmap_exec sys h time pid addr len pgoffset dev_maj dev_min ino filename m =
     (if pid = 0 then Ret (Inr (), m)
      else do {
        let anon = anon_filename filename;
        (filename_id, m) \<leftarrow> intern h filename m;
        top \<leftarrow> add64 addr len;
        stop \<leftarrow> sub64 top 1;
        let mapping = mapping_new time filename_id addr stop pgoffset anon (em_map_index m) (unwind_type_of filename);
        let mapping = (if anon then mapping else mapping\<lparr>map_node := Some (key_from_parts dev_maj dev_min ino)\<rparr>);
        let (mapping, m) = os_add_mmap_exec sys pid mapping filename m;
        let m = m\<lparr>em_map_index := em_map_index m + 1\<rparr>;
        Ret (Inr (), process_mut sys pid (add_mapping mapping) m)
      })"

definition os_add_comm_exec :: "('o, 'f) system \<Rightarrow> u32 \<Rightarrow> ('o, 'f) machine \<Rightarrow> (err + unit) \<times> ('o, 'f) machine" where
  "os_add_comm_exec sys pid m =
     (Inr (), process_mut sys pid
       (\<lambda>p. let p = p\<lparr>ep_ns_pid := sys_ns_pid sys pid\<rparr>
            in if em_process_fs m then (case sys_root sys (ep_pid p) of Some root \<Rightarrow> p\<lparr>ep_os := root\<rparr> | None \<Rightarrow> p) else p) m)"

definition add_comm_exec ::
  "('o, 'f) system \<Rightarrow> (byte list \<Rightarrow> u64) \<Rightarrow> u32 \<Rightarrow> byte list \<Rightarrow> u64 \<Rightarrow> ('o, 'f) machine \<Rightarrow>
   ((err + unit) \<times> ('o, 'f) machine) option" where
  "add_comm_exec sys h pid comm time_qpc m =
     (if pid = 0 then Ret (Inr (), m)
      else do {
        (comm_id, m) \<leftarrow> intern h comm m;
        Ret (os_add_comm_exec sys pid (process_mut sys pid (\<lambda>p. set_create_time_qpc time_qpc (set_comm_id comm_id p)) m))
      })"

definition add_comm_exit :: "('o, 'f) system \<Rightarrow> u32 \<Rightarrow> u64 \<Rightarrow> ('o, 'f) machine \<Rightarrow> (err + unit) \<times> ('o, 'f) machine" where
  "add_comm_exit sys pid time_qpc m =
     (if pid = 0 then (Inr (), m) else (Inr (), process_mut sys pid (set_exit_time_qpc time_qpc) m))"

definition fork_exec :: "('o, 'f) system \<Rightarrow> u32 \<Rightarrow> u32 \<Rightarrow> ('o, 'f) machine \<Rightarrow> (err + unit) \<times> ('o, 'f) machine" where
  "fork_exec sys pid ppid m =
     (let m = process_mut sys ppid id m;
          p = process_fork (sys_no_root sys) (process_entry sys ppid m) pid
      in (Inr (), m\<lparr>em_procs := (em_procs m)(pid \<mapsto> p)\<rparr>))"

text \<open>\<open>os_add_dynamic_symbol\<close>: asking whether the symbol is needed builds the process's page map.\<close>

definition machine_add_dynamic_symbol ::
  "('o, 'f) system \<Rightarrow> (byte list \<Rightarrow> u64) \<Rightarrow> dynamic_symbol \<Rightarrow> ('o, 'f) machine \<Rightarrow>
   ((err + unit) \<times> ('o, 'f) machine) option" where
  "machine_add_dynamic_symbol sys h symb m =
     (case find_process (ds_pid symb) m of
        None \<Rightarrow> Ret (Inr (), m)
      | Some p \<Rightarrow> do {
          (needed, p) \<leftarrow> needs_dynamic_symbol p symb (em_callstacks m);
          let m = m\<lparr>em_procs := (em_procs m)(ds_pid symb \<mapsto> p)\<rparr>;
          (if needed then do {
             (i, m) \<leftarrow> intern h (ds_name symb) m;
             let s = \<lparr>ts_time = ds_time symb, ts_symbol = \<lparr>sym_name_id = i, sym_start = ds_start symb, sym_end = ds_end symb\<rparr>\<rparr>;
             Ret (Inr (), process_mut sys (ds_pid symb) (add_dynamic_symbol s) m)
           } else Ret (Inr (), m))
        })"

text \<open>The processes by command name, in the order the map yields the pids.\<close>

definition split_processes_by_comm :: "u32 list \<Rightarrow> ('o, 'f) machine \<Rightarrow> (nat option \<rightharpoonup> u32 list)" where
  "split_processes_by_comm pids m =
     fold (\<lambda>pid groups.
       case em_procs m pid of
         Some p \<Rightarrow> groups(ep_comm_id p \<mapsto> (case groups (ep_comm_id p) of Some ps \<Rightarrow> ps @ [pid] | None \<Rightarrow> [pid]))
       | None \<Rightarrow> groups) pids Map.empty"

section \<open>Time\<close>

definition NANOS_IN_SEC :: u64 where
  "NANOS_IN_SEC = 1000000000"

partial_function (option) whole_seconds :: "u64 \<Rightarrow> u64 \<Rightarrow> u64 \<Rightarrow> (u64 \<times> u64) option" where
  "whole_seconds freq qpc ns =
     (if freq \<le> qpc then do { ns \<leftarrow> add64 ns NANOS_IN_SEC; whole_seconds freq (qpc - freq) ns } else Ret (qpc, ns))"

definition qpc_to_ns :: "u64 \<Rightarrow> u64 \<Rightarrow> u64 option" where
  "qpc_to_ns freq qpc =
     (if freq = 0 then Ret 0
      else do {
        (qpc, ns) \<leftarrow> whole_seconds freq qpc 0;
        p \<leftarrow> mul64 qpc NANOS_IN_SEC;
        add64 ns (p div freq)
      })"

definition mark_start_direct :: "nat \<Rightarrow> u64 \<Rightarrow> ('o, 'f) machine \<Rightarrow> ('o, 'f) machine" where
  "mark_start_direct start_date start_qpc m = m\<lparr>em_start_date := Some start_date, em_start_qpc := Some start_qpc\<rparr>"

text \<open>\<open>mark_end\<close>, with the clock and its frequency as it reads them; the duration is in nanoseconds.\<close>

definition mark_end_at :: "u64 \<Rightarrow> u64 \<Rightarrow> ('o, 'f) machine \<Rightarrow> ('o, 'f) machine option" where
  "mark_end_at end_qpc freq m =
     (case em_start_qpc m of
        None \<Rightarrow> Ret m
      | Some start \<Rightarrow> do {
          d \<leftarrow> sub64 end_qpc start;
          ns \<leftarrow> qpc_to_ns freq d;
          Ret (m\<lparr>em_end_qpc := Some end_qpc, em_duration := Some ns\<rparr>)
        })"

end
