(* ===== verification/MachineProps.thy ===== *)
theory MachineProps
  imports Machine "HOL-Library.Sublist"
begin

text \<open>
  The invariant of the export machine over every history of its operations (what an id of a sample, a
  mapping or a process names stays there), that operations within the machine's limits return, and
  what follows for the samples: a sample's frames, record and type can be read back for ever.
\<close>

section \<open>Growth\<close>

definition texts :: "('o, 'f) machine \<Rightarrow> byte list list" where
  "texts m = slices_contents (em_strings m)"

definition stacks :: "('o, 'f) machine \<Rightarrow> u64 list list" where
  "stacks m = slices_contents (em_callstacks m)"

text \<open>Every table only gets longer.\<close>

definition extends :: "('o, 'f) machine \<Rightarrow> ('o, 'f) machine \<Rightarrow> bool" where
  "extends m m' \<longleftrightarrow> prefix (texts m) (texts m') \<and> prefix (stacks m) (stacks m') \<and>
     prefix (em_records m) (em_records m') \<and> prefix (em_record_data m) (em_record_data m') \<and>
     prefix (em_record_types m) (em_record_types m') \<and> prefix (em_attributes m) (em_attributes m') \<and>
     prefix (em_spans m) (em_spans m') \<and> prefix (em_kinds m) (em_kinds m') \<and> em_map_index m \<le> em_map_index m'"

lemma extends_refl: "extends m m"
  by (simp add: extends_def)

lemma extends_trans: "extends a b \<Longrightarrow> extends b c \<Longrightarrow> extends a c"
  by (simp add: extends_def) (auto intro: prefix_order.trans)

lemma prefix_nth: "prefix xs ys \<Longrightarrow> i < length xs \<Longrightarrow> i < length ys \<and> ys ! i = xs ! i"
  by (auto simp: prefix_def nth_append)

lemma extends_length:
  assumes "extends m m'"
  shows "length (texts m) \<le> length (texts m')" "length (stacks m) \<le> length (stacks m')"
    "length (em_records m) \<le> length (em_records m')" "length (em_record_data m) \<le> length (em_record_data m')"
    "length (em_record_types m) \<le> length (em_record_types m')" "length (em_attributes m) \<le> length (em_attributes m')"
    "em_map_index m \<le> em_map_index m'"
  using assms by (simp_all add: extends_def prefix_length_le)

section \<open>The invariant\<close>

definition record_ok :: "('o, 'f) machine \<Rightarrow> export_record \<Rightarrow> bool" where
  "record_ok m r \<longleftrightarrow> rec_end r \<le> length (em_record_data m) \<and> unat (rec_type r) < length (em_record_types m)"

definition sample_resolves :: "('o, 'f) machine \<Rightarrow> export_sample \<Rightarrow> bool" where
  "sample_resolves m s \<longleftrightarrow> unat (smp_callstack_id s) < length (stacks m) \<and>
     unat (smp_record_id s) < length (em_records m) \<and> unat (smp_attributes_id s) < length (em_attributes m)"

definition mapping_resolves :: "('o, 'f) machine \<Rightarrow> export_mapping \<Rightarrow> bool" where
  "mapping_resolves m mp \<longleftrightarrow> map_filename_id mp < length (texts m) \<and> map_id mp < em_map_index m"

definition process_ok :: "('o, 'f) machine \<Rightarrow> 'o export_process \<Rightarrow> bool" where
  "process_ok m p \<longleftrightarrow> list_all (sample_resolves m) (ep_samples p) \<and>
     list_all (mapping_resolves m) (process_mappings p) \<and> pred_option (\<lambda>c. c < length (texts m)) (ep_comm_id p) \<and>
     list_all (\<lambda>s. sym_name_id (ts_symbol s) < length (texts m)) (ep_dyn_symbols p) \<and>
     page_map_ok (em_callstacks m) p"

text \<open>The kernel's process takes samples only.\<close>

definition no_execs :: "'o export_process \<Rightarrow> bool" where
  "no_execs p \<longleftrightarrow> process_mappings p = [] \<and> ep_comm_id p = None \<and> ep_create_time p = None \<and> ep_exit_time p = None"

definition machine_ok :: "(byte list \<Rightarrow> u64) \<Rightarrow> (u64 list \<Rightarrow> u64) \<Rightarrow> ('o, 'f) machine \<Rightarrow> bool" where
  "machine_ok h hc m \<longleftrightarrow> slices_inv h (em_strings m) \<and> slices_inv hc (em_callstacks m) \<and>
     texts m \<noteq> [] \<and> texts m ! 0 = [] \<and> em_records m \<noteq> [] \<and> list_all (record_ok m) (em_records m) \<and>
     em_record_types m \<noteq> [] \<and> em_attributes m \<noteq> [] \<and>
     (\<forall>pid p. em_procs m pid = Some p \<longrightarrow> ep_pid p = pid \<and> process_ok m p)"

lemma list_all_mono: "list_all P xs \<Longrightarrow> (\<And>x. P x \<Longrightarrow> Q x) \<Longrightarrow> list_all Q xs"
  by (simp add: list_all_iff)

lemma stack_of_stable:
  assumes "slices_inv hc (em_callstacks m)" "slices_inv hc (em_callstacks m')" "extends m m'" "sample_resolves m s"
  shows "stack_of (em_callstacks m') s = stack_of (em_callstacks m) s"
  using assms prefix_nth [of "stacks m" "stacks m'"]
  by (auto simp: stack_of_def from_id_contents extends_def sample_resolves_def stacks_def)

lemma process_ok_mono:
  assumes "slices_inv hc (em_callstacks m)" "slices_inv hc (em_callstacks m')" "extends m m'" "process_ok m p"
  shows "process_ok m' p"
proof -
  note len = extends_length [OF assms(3)]
  have "seen_ips (em_callstacks m') p = seen_ips (em_callstacks m) p"
    using assms(4) stack_of_stable [OF assms(1-3)]
    by (auto simp: seen_ips_def process_ok_def list_all_iff)
  then have "page_map_ok (em_callstacks m') p" using assms(4) by (simp add: process_ok_def page_map_ok_def)
  moreover have "list_all (sample_resolves m') (ep_samples p)"
    using assms(4) len unfolding process_ok_def
    by (auto elim!: list_all_mono simp: sample_resolves_def)
  moreover have "list_all (mapping_resolves m') (process_mappings p)"
    using assms(4) len unfolding process_ok_def
    by (auto elim!: list_all_mono simp: mapping_resolves_def)
  moreover have "list_all (\<lambda>s. sym_name_id (ts_symbol s) < length (texts m')) (ep_dyn_symbols p)"
    using assms(4) len unfolding process_ok_def by (auto elim!: list_all_mono)
  moreover have "pred_option (\<lambda>c. c < length (texts m')) (ep_comm_id p)"
    using assms(4) len(1) by (cases "ep_comm_id p") (auto simp: process_ok_def)
  ultimately show ?thesis by (simp add: process_ok_def)
qed

lemma machine_ok_grow:
  assumes "machine_ok h hc m" "extends m m'" "em_procs m' = em_procs m"
    "slices_inv h (em_strings m')" "slices_inv hc (em_callstacks m')" "list_all (record_ok m') (em_records m')"
  shows "machine_ok h hc m'"
proof -
  have "texts m' \<noteq> [] \<and> texts m' ! 0 = []"
    using assms(1,2) prefix_nth [of "texts m" "texts m'" 0] by (auto simp: machine_ok_def extends_def)
  moreover have "em_records m' \<noteq> []" "em_record_types m' \<noteq> []" "em_attributes m' \<noteq> []"
    using assms(1,2) by (auto simp: machine_ok_def extends_def)
  moreover have "process_ok m' p" if "process_ok m p" for p
    using assms(1,2,5) that by (auto simp: machine_ok_def intro: process_ok_mono)
  ultimately show ?thesis using assms by (simp add: machine_ok_def)
qed

lemma machine_ok_procs:
  assumes "machine_ok h hc m" "\<And>q p. procs q = Some p \<Longrightarrow> ep_pid p = q \<and> process_ok m p"
  shows "machine_ok h hc (m\<lparr>em_procs := procs\<rparr>)" "extends m (m\<lparr>em_procs := procs\<rparr>)"
proof -
  have "process_ok (m\<lparr>em_procs := procs\<rparr>) = process_ok m" "record_ok (m\<lparr>em_procs := procs\<rparr>) = record_ok m"
    by (simp_all add: fun_eq_iff process_ok_def record_ok_def sample_resolves_def [abs_def] mapping_resolves_def [abs_def]
        texts_def stacks_def)
  then show "machine_ok h hc (m\<lparr>em_procs := procs\<rparr>)" "extends m (m\<lparr>em_procs := procs\<rparr>)"
    using assms by (auto simp: machine_ok_def extends_def texts_def stacks_def)
qed

lemma process_new_ok: "machine_ok h hc m \<Longrightarrow> process_ok m (process_new os pid)"
  by (simp add: process_ok_def process_new_def process_mappings_def eml_default_def page_map_ok_def)

lemma process_entry_ok:
  assumes "machine_ok h hc m"
  shows "process_ok m (process_entry sys pid m)" "ep_pid (process_entry sys pid m) = pid"
  using assms process_new_ok [OF assms]
  by (auto simp: process_entry_def machine_ok_def process_new_def split: option.split)

lemma process_mut_spec:
  assumes "machine_ok h hc m" "process_ok m (f (process_entry sys pid m))"
    "ep_pid (f (process_entry sys pid m)) = pid"
  shows "machine_ok h hc (process_mut sys pid f m)" "extends m (process_mut sys pid f m)"
proof -
  let ?procs = "(em_procs m)(pid \<mapsto> f (process_entry sys pid m))"
  have "ep_pid p = q \<and> process_ok m p" if "?procs q = Some p" for q p
    using that assms by (auto simp: machine_ok_def split: if_splits)
  note machine_ok_procs [OF assms(1), of ?procs, OF this]
  then show "machine_ok h hc (process_mut sys pid f m)" "extends m (process_mut sys pid f m)"
    unfolding process_mut_def by blast+
qed

section \<open>The operations\<close>

lemma machine_ok_inv:
  assumes "machine_ok h hc m"
  shows "slices_inv h (em_strings m)" "slices_inv hc (em_callstacks m)"
  using assms by (simp_all add: machine_ok_def)

lemma slices_prefix:
  "slices_inv h s \<Longrightarrow> to_id h s x = Some (i, s') \<Longrightarrow> prefix (slices_contents s) (slices_contents s')"
  using sl.intern_SomeD(4) [of h s x i s'] by auto

lemma intern_spec:
  assumes "machine_ok h hc m"
  shows "\<exists>i strings. intern h s m = Some (i, m\<lparr>em_strings := strings\<rparr>) \<and> machine_ok h hc (m\<lparr>em_strings := strings\<rparr>) \<and>
    extends m (m\<lparr>em_strings := strings\<rparr>) \<and> i < length (slices_contents strings) \<and> slices_contents strings ! i = s"
proof -
  obtain i strings where i: "to_id h (em_strings m) s = Some (i, strings)" "slices_inv h strings"
    "i < length (slices_contents strings)" "slices_contents strings ! i = s"
    using sl.intern_spec [OF machine_ok_inv(1) [OF assms], of s] by blast
  let ?m = "m\<lparr>em_strings := strings\<rparr>"
  have "extends m ?m"
    using slices_prefix [OF machine_ok_inv(1) [OF assms] i(1)] by (simp add: extends_def texts_def stacks_def)
  moreover have "list_all (record_ok ?m) (em_records ?m)"
    using assms by (simp add: machine_ok_def record_ok_def [abs_def])
  ultimately have "machine_ok h hc ?m"
    using i(2) machine_ok_inv [OF assms] by (intro machine_ok_grow [OF assms]) simp_all
  then show ?thesis
    using i \<open>extends m ?m\<close> by (intro exI [of _ i] exI [of _ strings]) (simp add: intern_def strings_to_id_def)
qed

lemma make_sample_spec:
  assumes "machine_ok h hc m" "length (stacks m) < 2 ^ 32"
  shows "\<exists>s cs. make_sample hc time v tid cpu kind frames m = Some (s, m\<lparr>em_callstacks := cs\<rparr>) \<and>
    machine_ok h hc (m\<lparr>em_callstacks := cs\<rparr>) \<and> extends m (m\<lparr>em_callstacks := cs\<rparr>) \<and>
    sample_resolves (m\<lparr>em_callstacks := cs\<rparr>) s \<and> \<not> has_record s \<and> smp_time s = time \<and> smp_value s = v \<and>
    smp_ip s = hd (frames @ [0]) \<and> slices_contents cs ! unat (smp_callstack_id s) = tl frames"
proof -
  let ?fs = "if frames = [] then [0] else frames"
  obtain i cs where i: "to_id hc (em_callstacks m) (tl ?fs) = Some (i, cs)" "slices_inv hc cs"
    "i < length (slices_contents cs)" "slices_contents cs ! i = tl ?fs"
    "slices_contents cs = (if tl ?fs \<in> set (slices_contents (em_callstacks m)) then slices_contents (em_callstacks m)
       else slices_contents (em_callstacks m) @ [tl ?fs])"
    using sl.intern_spec [OF machine_ok_inv(2) [OF assms(1)], of "tl ?fs"] by blast
  let ?m = "m\<lparr>em_callstacks := cs\<rparr>" and ?s = "sample_new time v cpu kind tid (hd ?fs) i"
  have ext: "extends m ?m"
    using slices_prefix [OF machine_ok_inv(2) [OF assms(1)] i(1)] by (simp add: extends_def texts_def stacks_def)
  have "list_all (record_ok ?m) (em_records ?m)"
    using assms(1) by (simp add: machine_ok_def record_ok_def [abs_def])
  then have ok: "machine_ok h hc ?m"
    using i(2) machine_ok_inv [OF assms(1)] ext by (intro machine_ok_grow [OF assms(1)]) simp_all
  have "i < 2 ^ 32" using i(3,5) assms(2) by (auto simp: stacks_def split: if_splits)
  then have "unat (of_nat i :: u32) = i" by (simp add: unat_of_nat_u32)
  then have "sample_resolves ?m ?s" "slices_contents cs ! unat (smp_callstack_id ?s) = tl frames"
    using i(3,4) ok by (auto simp: sample_resolves_def sample_new_def stacks_def machine_ok_def)
  moreover have "make_sample hc time v tid cpu kind frames m = Some (?s, ?m)"
    using i(1) by (simp add: make_sample_def callstacks_to_id_def)
  ultimately show ?thesis
    using ok ext by (auto simp: sample_new_def has_record_def intro!: exI [of _ ?s] exI [of _ cs])
qed

lemma create_record_spec:
  assumes "machine_ok h hc m" "unat t < length (em_record_types m)" "length data < 2 ^ 32"
  shows "\<exists>m'. create_record t data m = (length (em_records m), m') \<and> machine_ok h hc m' \<and> extends m m' \<and>
    length (em_records m') = Suc (length (em_records m)) \<and> em_procs m' = em_procs m \<and> stacks m' = stacks m \<and>
    em_records m' ! length (em_records m) = \<lparr>rec_type = t, rec_offset = length (em_record_data m), rec_length = of_nat (length data)\<rparr> \<and>
    em_record_data m' = em_record_data m @ data \<and> em_record_types m' = em_record_types m \<and>
    em_sample_hooks m' = em_sample_hooks m"
proof -
  define m' where "m' = snd (create_record t data m)"
  have m': "m' = m\<lparr>em_records := em_records m @
      [\<lparr>rec_type = t, rec_offset = length (em_record_data m), rec_length = of_nat (length data)\<rparr>],
      em_record_data := em_record_data m @ data\<rparr>"
    by (simp add: m'_def create_record_def)
  have ext: "extends m m'" by (simp add: m' extends_def texts_def stacks_def)
  have "unat (of_nat (length data) :: u32) = length data" using assms(3) by (simp add: unat_of_nat_u32)
  moreover have "record_ok m' r" if "record_ok m r" for r
    using that by (simp add: record_ok_def m')
  ultimately have "list_all (record_ok m') (em_records m')"
    using assms(1,2) by (auto simp: machine_ok_def m' list_all_iff) (simp add: record_ok_def rec_end_def)
  then have "machine_ok h hc m'"
    using machine_ok_inv [OF assms(1)] ext by (intro machine_ok_grow [OF assms(1)]) (simp_all add: m')
  then show ?thesis
    using ext by (intro exI [of _ m']) (simp_all add: create_record_def m' stacks_def)
qed


lemma process_ok_samples:
  "process_ok m p \<Longrightarrow> sample_resolves m s \<Longrightarrow> process_ok m (add_sample s p) \<and> ep_pid (add_sample s p) = ep_pid p"
  by (simp add: process_ok_def add_sample_def process_mappings_def page_map_ok_def)

lemma add_process_sample_ok:
  assumes "machine_ok h hc m" "sample_resolves m s"
  shows "machine_ok h hc (add_process_sample sys pid s m)" "extends m (add_process_sample sys pid s m)"
  using process_entry_ok [OF assms(1), of sys pid] process_ok_samples [OF _ assms(2), of "process_entry sys pid m"]
  by (auto simp: add_process_sample_def intro!: process_mut_spec [OF assms(1)])

lemma attach_record_resolves:
  assumes "sample_resolves m s" "i < length (em_records m)" "i < 2 ^ 32"
  shows "sample_resolves m (attach_record i s)"
  using assms by (simp add: sample_resolves_def attach_record_def unat_of_nat_u32)

lemma attach_record_to_sample_ok:
  assumes "machine_ok h hc m" "sample_resolves m s" "unat t < length (em_record_types m)" "length data < 2 ^ 32"
    "length (em_records m) < 2 ^ 32"
  shows "\<exists>r m'. attach_record_to_sample sys pid s t data m = (r, m') \<and> machine_ok h hc m' \<and> extends m m'"
proof -
  obtain m1 where 1: "create_record t data m = (length (em_records m), m1)" "machine_ok h hc m1" "extends m m1"
    "length (em_records m1) = Suc (length (em_records m))"
    using create_record_spec [OF assms(1,3,4)] by blast
  have "sample_resolves m1 s" using assms(2) extends_length [OF 1(3)] by (auto simp: sample_resolves_def)
  then have "sample_resolves m1 (attach_record (length (em_records m)) s)"
    using 1(4) assms(5) by (intro attach_record_resolves) simp_all
  note add = process_ok_samples [OF process_entry_ok(1) [OF 1(2)] this]
  have "machine_ok h hc (process_mut sys pid (add_sample (attach_record (length (em_records m)) s)) m1)"
    "extends m1 (process_mut sys pid (add_sample (attach_record (length (em_records m)) s)) m1)"
    using add process_entry_ok(2) [OF 1(2)] by (auto intro!: process_mut_spec [OF 1(2)])
  moreover have "machine_ok h hc (process_mut sys pid id m)" "extends m (process_mut sys pid id m)"
    using process_entry_ok [OF assms(1)] by (auto intro!: process_mut_spec [OF assms(1)])
  ultimately show ?thesis
    using 1(1,3) assms(1) extends_trans by (auto simp: attach_record_to_sample_def Let_def extends_refl)
qed

lemma os_add_mmap_exec_spec:
  "\<exists>va nodes offs. os_add_mmap_exec sys pid mapping f m =
    (mapping\<lparr>map_va_offset := va\<rparr>, m\<lparr>em_dev_nodes := nodes, em_va_offsets := offs\<rparr>)"
proof -
  have id: "mapping\<lparr>map_va_offset := map_va_offset mapping\<rparr> = mapping"
    "m\<lparr>em_dev_nodes := em_dev_nodes m, em_va_offsets := em_va_offsets m\<rparr> = m" by simp_all
  have same: "\<exists>nodes offs. learn_va_offset sys pid key f m = m\<lparr>em_dev_nodes := nodes, em_va_offsets := offs\<rparr>" for key
    unfolding learn_va_offset_def Let_def using id(2) by (metis (no_types))
  show ?thesis
  proof (cases "map_node mapping")
    case None
    then have "os_add_mmap_exec sys pid mapping f m = (mapping\<lparr>map_va_offset := map_va_offset mapping\<rparr>,
        m\<lparr>em_dev_nodes := em_dev_nodes m, em_va_offsets := em_va_offsets m\<rparr>)"
      unfolding id by (simp add: os_add_mmap_exec_def)
    then show ?thesis by blast
  next
    case (Some key)
    obtain nodes offs where learn: "learn_va_offset sys pid key f m = m\<lparr>em_dev_nodes := nodes, em_va_offsets := offs\<rparr>"
      using same by blast
    let ?va = "case offs key of Some v \<Rightarrow> v | None \<Rightarrow> 0"
    have "os_add_mmap_exec sys pid mapping f m =
        (mapping\<lparr>map_va_offset := if ?va \<noteq> 0 then ?va else map_va_offset mapping\<rparr>,
         m\<lparr>em_dev_nodes := nodes, em_va_offsets := offs\<rparr>)"
      using Some learn id(1) by (simp add: os_add_mmap_exec_def Let_def)
    then show ?thesis by blast
  qed
qed

lemma machine_ok_files:
  assumes "machine_ok h hc m"
  shows "machine_ok h hc (m\<lparr>em_dev_nodes := nodes, em_va_offsets := offs, em_map_index := Suc (em_map_index m)\<rparr>)"
    "extends m (m\<lparr>em_dev_nodes := nodes, em_va_offsets := offs, em_map_index := Suc (em_map_index m)\<rparr>)"
proof -
  let ?m = "m\<lparr>em_dev_nodes := nodes, em_va_offsets := offs, em_map_index := Suc (em_map_index m)\<rparr>"
  show ext: "extends m ?m" by (simp add: extends_def texts_def stacks_def)
  have "list_all (record_ok ?m) (em_records ?m)"
    using assms by (simp add: machine_ok_def record_ok_def [abs_def])
  then show "machine_ok h hc ?m"
    using machine_ok_inv [OF assms] by (intro machine_ok_grow [OF assms ext]) simp_all
qed

lemma add_mmap_exec_ok:
  assumes "machine_ok h hc m" "pid \<noteq> 0 \<longrightarrow> 0 < unat addr + unat len \<and> unat addr + unat len < 2 ^ 64"
  shows "\<exists>r m'. add_mmap_exec sys h time pid addr len pgoffset ma mi ino f m = Some (r, m') \<and> machine_ok h hc m' \<and> extends m m'"
proof (cases "pid = 0")
  case False
  obtain i st where 1: "intern h f m = Some (i, m\<lparr>em_strings := st\<rparr>)" "machine_ok h hc (m\<lparr>em_strings := st\<rparr>)"
    "extends m (m\<lparr>em_strings := st\<rparr>)" "i < length (slices_contents st)"
    using intern_spec [OF assms(1)] by blast
  let ?m1 = "m\<lparr>em_strings := st\<rparr>"
  have "unat addr + unat len < 2 ^ 64" "1 \<le> addr + len"
    using assms(2) False unat_add64 [of addr len] by (auto simp: word_le_nat_alt)
  note top = add64_ok [OF this(1)] sub64_ok [OF this(2)]
  let ?mp = "mapping_new time i addr (addr + len - 1) pgoffset (anon_filename f) (em_map_index m) (unwind_type_of f)"
  let ?mp1 = "if anon_filename f then ?mp else ?mp\<lparr>map_node := Some (key_from_parts ma mi ino)\<rparr>"
  obtain va nodes offs where 2: "os_add_mmap_exec sys pid ?mp1 f ?m1 =
      (?mp1\<lparr>map_va_offset := va\<rparr>, ?m1\<lparr>em_dev_nodes := nodes, em_va_offsets := offs\<rparr>)"
    using os_add_mmap_exec_spec by blast
  let ?m2 = "?m1\<lparr>em_dev_nodes := nodes, em_va_offsets := offs, em_map_index := Suc (em_map_index ?m1)\<rparr>"
  note m2 = machine_ok_files [OF 1(2), where nodes = nodes and offs = offs]
  let ?mp2 = "?mp1\<lparr>map_va_offset := va\<rparr>"
  have "mapping_resolves ?m2 ?mp2" using 1(4) by (simp add: mapping_resolves_def mapping_new_def texts_def)
  then have "process_ok ?m2 (add_mapping ?mp2 p) \<and> ep_pid (add_mapping ?mp2 p) = ep_pid p" if "process_ok ?m2 p" for p
    using that by (simp add: process_ok_def add_mapping_def process_mappings_def mappings_mut_def page_map_ok_def seen_ips_def)
  then have "machine_ok h hc (process_mut sys pid (add_mapping ?mp2) ?m2)" "extends ?m2 (process_mut sys pid (add_mapping ?mp2) ?m2)"
    using process_entry_ok [OF m2(1), of sys pid] by (intro process_mut_spec [OF m2(1)]; simp)+
  moreover have "add_mmap_exec sys h time pid addr len pgoffset ma mi ino f m =
      Some (Inr (), process_mut sys pid (add_mapping ?mp2) ?m2)"
    using False 1(1) top 2 by (cases "anon_filename f") (simp_all add: add_mmap_exec_def Let_def)
  ultimately show ?thesis using 1(3) m2(2) extends_trans by blast
qed (use assms(1) in \<open>simp add: add_mmap_exec_def extends_refl\<close>)


lemma process_ok_fields:
  assumes "process_ok m p"
  shows "c < length (texts m) \<Longrightarrow> process_ok m (set_create_time_qpc t (set_comm_id c p))"
    "process_ok m (set_exit_time_qpc t p)" "process_ok m (p\<lparr>ep_ns_pid := ns, ep_os := os\<rparr>)"
    "process_ok m (process_fork os' p pid)"
    "page_map_ok (em_callstacks m) (p\<lparr>ep_page_map := pm\<rparr>) \<Longrightarrow> process_ok m (p\<lparr>ep_page_map := pm\<rparr>)"
    "sym_name_id (ts_symbol s) < length (texts m) \<Longrightarrow> process_ok m (add_dynamic_symbol s p)"
  using assms
  by (simp_all add: process_ok_def set_create_time_qpc_def set_comm_id_def set_exit_time_qpc_def process_fork_def
      process_new_def process_mappings_def page_map_ok_def seen_ips_def eml_clone_def add_dynamic_symbol_def)

lemma add_comm_exec_ok:
  fixes m :: "('a, 'b) machine"
  assumes "machine_ok h hc m"
  shows "\<exists>r m'. add_comm_exec sys h pid comm t m = Some (r, m') \<and> machine_ok h hc m' \<and> extends m m'"
proof (cases "pid = 0")
  case False
  obtain i st where 1: "intern h comm m = Some (i, m\<lparr>em_strings := st\<rparr>)" "machine_ok h hc (m\<lparr>em_strings := st\<rparr>)"
    "extends m (m\<lparr>em_strings := st\<rparr>)" "i < length (slices_contents st)"
    using intern_spec [OF assms] by blast
  let ?m1 = "m\<lparr>em_strings := st\<rparr>" and ?f = "\<lambda>p. set_create_time_qpc t (set_comm_id i p)"
  let ?m2 = "process_mut sys pid ?f ?m1"
  have pid1: "ep_pid (?f p) = ep_pid p" for p :: "'a export_process" by (simp add: set_create_time_qpc_def set_comm_id_def)
  have i: "i < length (texts ?m1)" using 1(4) by (simp add: texts_def)
  have "process_ok ?m1 (?f (process_entry sys pid ?m1))" "ep_pid (?f (process_entry sys pid ?m1)) = pid"
    using process_ok_fields(1) [OF process_entry_ok(1) [OF 1(2)] i] pid1 process_entry_ok(2) [OF 1(2)] by simp_all
  note m2 = process_mut_spec [where f = ?f, OF 1(2) this]
  define g where "g p = (let p = p\<lparr>ep_ns_pid := sys_ns_pid sys pid\<rparr>
      in if em_process_fs ?m2 then (case sys_root sys (ep_pid p) of Some root \<Rightarrow> p\<lparr>ep_os := root\<rparr> | None \<Rightarrow> p) else p)"
    for p :: "'a export_process"
  have "\<exists>ns os. g p = p\<lparr>ep_ns_pid := ns, ep_os := os\<rparr>" for p
    by (rule exI [of _ "sys_ns_pid sys pid"], rule exI [of _ "if em_process_fs ?m2 then (case sys_root sys (ep_pid p) of
        Some root \<Rightarrow> root | None \<Rightarrow> ep_os p) else ep_os p"]) (simp add: g_def Let_def split: option.split)
  then obtain ns os where g: "g p = p\<lparr>ep_ns_pid := ns p, ep_os := os p\<rparr>" for p by metis
  have "process_ok ?m2 (g (process_entry sys pid ?m2))" "ep_pid (g (process_entry sys pid ?m2)) = pid"
    using process_ok_fields(3) [OF process_entry_ok(1) [OF m2(1)]] process_entry_ok(2) [OF m2(1)] by (simp_all add: g)
  note m3 = process_mut_spec [where f = g, OF m2(1) this]
  have "os_add_comm_exec sys pid ?m2 = (Inr (), process_mut sys pid g ?m2)"
    unfolding os_add_comm_exec_def g_def [abs_def] ..
  then show ?thesis
    using False 1(1,3) m2(2) m3 extends_trans by (auto simp: add_comm_exec_def) blast
qed (use assms in \<open>simp add: add_comm_exec_def extends_refl\<close>)

lemma add_comm_exit_ok:
  fixes m :: "('a, 'b) machine"
  assumes "machine_ok h hc m"
  shows "machine_ok h hc (snd (add_comm_exit sys pid t m))" "extends m (snd (add_comm_exit sys pid t m))"
proof -
  have "ep_pid (set_exit_time_qpc t p) = ep_pid p" for p :: "'a export_process" by (simp add: set_exit_time_qpc_def)
  then show "machine_ok h hc (snd (add_comm_exit sys pid t m))" "extends m (snd (add_comm_exit sys pid t m))"
    using process_ok_fields(2) [OF process_entry_ok(1) [OF assms]] process_entry_ok(2) [OF assms] assms
    by (auto simp: add_comm_exit_def extends_refl intro!: process_mut_spec [OF assms])
qed

lemma fork_exec_ok:
  assumes "machine_ok h hc m"
  shows "machine_ok h hc (snd (fork_exec sys pid ppid m))" "extends m (snd (fork_exec sys pid ppid m))"
proof -
  have "process_ok m (id (process_entry sys ppid m))" "ep_pid (id (process_entry sys ppid m)) = ppid"
    using process_entry_ok [OF assms] by simp_all
  note m1 = process_mut_spec [where f = id, OF assms this]
  let ?m1 = "process_mut sys ppid id m"
  let ?p = "process_fork (sys_no_root sys) (process_entry sys ppid ?m1) pid"
  have "process_ok ?m1 ?p" "ep_pid ?p = pid"
    using process_ok_fields(4) [OF process_entry_ok(1) [OF m1(1)]] by (simp_all add: process_fork_def process_new_def)
  then have "ep_pid p = q \<and> process_ok ?m1 p" if "((em_procs ?m1)(pid \<mapsto> ?p)) q = Some p" for q p
    using that m1(1) by (auto simp: machine_ok_def split: if_splits)
  note m2 = machine_ok_procs [OF m1(1), of "(em_procs ?m1)(pid \<mapsto> ?p)", OF this]
  have "snd (fork_exec sys pid ppid m) = ?m1\<lparr>em_procs := (em_procs ?m1)(pid \<mapsto> ?p)\<rparr>"
    by (simp add: fork_exec_def Let_def)
  then show "machine_ok h hc (snd (fork_exec sys pid ppid m))" "extends m (snd (fork_exec sys pid ppid m))"
    using m2 extends_trans [OF m1(2) m2(2)] by simp_all
qed

lemma machine_add_dynamic_symbol_ok:
  assumes "machine_ok h hc m" "ds_start symb \<le> ds_end symb" "unat (ds_end symb) + 256 < 2 ^ 64"
  shows "\<exists>r m'. machine_add_dynamic_symbol sys h symb m = Some (r, m') \<and> machine_ok h hc m' \<and> extends m m'"
proof (cases "em_procs m (ds_pid symb)")
  case None
  then show ?thesis using assms(1) by (simp add: machine_add_dynamic_symbol_def find_process_def extends_refl)
next
  case (Some p)
  then have p: "process_ok m p" "ep_pid p = ds_pid symb" using assms(1) by (simp_all add: machine_ok_def)
  obtain pm where pm: "needs_dynamic_symbol p symb (em_callstacks m) = Some (needed (em_callstacks m) p symb, p\<lparr>ep_page_map := pm\<rparr>)"
    "page_map_ok (em_callstacks m) (p\<lparr>ep_page_map := pm\<rparr>)"
    using needs_dynamic_symbol_spec [OF machine_ok_inv(2) [OF assms(1)] _ assms(2,3)] p(1) by (auto simp: process_ok_def)
  let ?procs = "(em_procs m)(ds_pid symb \<mapsto> p\<lparr>ep_page_map := pm\<rparr>)"
  let ?m1 = "m\<lparr>em_procs := ?procs\<rparr>"
  have "ep_pid q = k \<and> process_ok m q" if "?procs k = Some q" for k q
    using that assms(1) p process_ok_fields(5) [OF p(1) pm(2)] by (auto simp: machine_ok_def split: if_splits)
  note m1 = machine_ok_procs [OF assms(1), of ?procs, OF this]
  obtain i st where 2: "intern h (ds_name symb) ?m1 = Some (i, ?m1\<lparr>em_strings := st\<rparr>)" "machine_ok h hc (?m1\<lparr>em_strings := st\<rparr>)"
    "extends ?m1 (?m1\<lparr>em_strings := st\<rparr>)" "i < length (slices_contents st)"
    using intern_spec [OF m1(1)] by blast
  let ?m2 = "?m1\<lparr>em_strings := st\<rparr>"
  define s where "s = \<lparr>ts_time = ds_time symb, ts_symbol = \<lparr>sym_name_id = i, sym_start = ds_start symb, sym_end = ds_end symb\<rparr>\<rparr>"
  have "process_ok ?m2 (add_dynamic_symbol s (process_entry sys (ds_pid symb) ?m2))"
    "ep_pid (add_dynamic_symbol s (process_entry sys (ds_pid symb) ?m2)) = ds_pid symb"
    using process_ok_fields(6) [OF process_entry_ok(1) [OF 2(2)], of s] process_entry_ok(2) [OF 2(2)] 2(4)
    by (simp_all add: s_def texts_def add_dynamic_symbol_def)
  note m3 = process_mut_spec [where f = "add_dynamic_symbol s", OF 2(2) this]
  show ?thesis
  proof (cases "needed (em_callstacks m) p symb")
    case True
    then have "machine_add_dynamic_symbol sys h symb m = Some (Inr (), process_mut sys (ds_pid symb) (add_dynamic_symbol s) ?m2)"
      using Some pm(1) 2(1) by (simp add: machine_add_dynamic_symbol_def find_process_def s_def)
    then show ?thesis using m3 extends_trans [OF m1(2) extends_trans [OF 2(3) m3(2)]] by blast
  next
    case False
    then have "machine_add_dynamic_symbol sys h symb m = Some (Inr (), ?m1)"
      using Some pm(1) by (simp add: machine_add_dynamic_symbol_def find_process_def)
    then show ?thesis using m1 by blast
  qed
qed


text \<open>Operations that only append to a table, or touch none.\<close>

lemma append_ok:
  assumes "machine_ok h hc m" "extends m m'" "em_procs m' = em_procs m" "em_strings m' = em_strings m"
    "em_callstacks m' = em_callstacks m" "em_records m' = em_records m" "em_record_data m' = em_record_data m"
  shows "machine_ok h hc m'"
proof -
  have "record_ok m' r" if "record_ok m r" for r
    using that assms(7) extends_length(5) [OF assms(2)] by (simp add: record_ok_def)
  then have "list_all (record_ok m') (em_records m')"
    using assms(1,6) by (auto simp: machine_ok_def list_all_iff)
  then show ?thesis using assms machine_ok_inv [OF assms(1)] by (intro machine_ok_grow [OF assms(1)]) simp_all
qed

lemma machine_attributes_ok:
  assumes "machine_ok h hc m"
  shows "\<exists>r m'. label_attribute h n l m = Some (r, m') \<and> machine_ok h hc m' \<and> extends m m'"
    "\<exists>r m'. value_attribute h n v m = Some (r, m') \<and> machine_ok h hc m' \<and> extends m m'"
proof -
  obtain i st where 1: "intern h n m = Some (i, m\<lparr>em_strings := st\<rparr>)" "machine_ok h hc (m\<lparr>em_strings := st\<rparr>)"
    "extends m (m\<lparr>em_strings := st\<rparr>)"
    using intern_spec [OF assms] by blast
  obtain j st' where 2: "intern h l (m\<lparr>em_strings := st\<rparr>) = Some (j, m\<lparr>em_strings := st'\<rparr>)"
    "machine_ok h hc (m\<lparr>em_strings := st'\<rparr>)" "extends (m\<lparr>em_strings := st\<rparr>) (m\<lparr>em_strings := st'\<rparr>)"
    using intern_spec [OF 1(2), of l] by auto
  have st: "strings_to_id h (em_strings m) n = Some (i, st)"
    using 1(1) by (auto simp: intern_def bind_eq_Some_conv dest!: arg_cong [where f = em_strings])
  have st': "strings_to_id h st l = Some (j, st')"
    using 2(1) by (auto simp: intern_def bind_eq_Some_conv dest!: arg_cong [where f = em_strings])
  show "\<exists>r m'. value_attribute h n v m = Some (r, m') \<and> machine_ok h hc m' \<and> extends m m'"
    using st 1(2,3) by (simp add: value_attribute_def new_value_def)
  show "\<exists>r m'. label_attribute h n l m = Some (r, m') \<and> machine_ok h hc m' \<and> extends m m'"
    using st st' 2(2) extends_trans [OF 1(3) 2(3)] by (simp add: label_attribute_def new_label_def)
qed

lemma record_attribute_ok:
  assumes "machine_ok h hc m" "length data < 2 ^ 32"
  shows "\<exists>r m'. record_attribute h n data m = Some (r, m') \<and> machine_ok h hc m' \<and> extends m m'"
proof -
  have "unat (0 :: u16) < length (em_record_types m)" using assms(1) by (simp add: machine_ok_def)
  then obtain m1 where 1: "create_record 0 data m = (length (em_records m), m1)" "machine_ok h hc m1" "extends m m1"
    using create_record_spec [OF assms(1) _ assms(2)] by blast
  obtain i st where 2: "intern h n m1 = Some (i, m1\<lparr>em_strings := st\<rparr>)" "machine_ok h hc (m1\<lparr>em_strings := st\<rparr>)"
    "extends m1 (m1\<lparr>em_strings := st\<rparr>)"
    using intern_spec [OF 1(2)] by blast
  have "strings_to_id h (em_strings m1) n = Some (i, st)"
    using 2(1) by (auto simp: intern_def bind_eq_Some_conv dest!: arg_cong [where f = em_strings])
  then show ?thesis
    using 1(1) 2(2) extends_trans [OF 1(3) 2(3)] by (simp add: record_attribute_def new_record_def)
qed

section \<open>Histories\<close>

datatype machine_op =
    Sample u64 metric_value u32 u32 u16 u16 "u64 list"
  | Record_Sample u64 metric_value u32 u32 u16 u16 u16 "byte list" "u64 list"
  | Custom_Sample u32 export_sample
  | Custom_Record_Sample u32 export_sample u16 "byte list"
  | Mmap u64 u32 u64 u64 u64 u32 u32 u64 "byte list"
  | Comm u32 "byte list" u64
  | Exit u32 u64
  | Fork u32 u32
  | Dynamic_Symbol dynamic_symbol
  | Kind "byte list"
  | Record_Type export_record_type
  | Record_Data u16 "byte list"
  | Push_Attributes attributes
  | Label_Attribute "byte list" "byte list"
  | Value_Attribute "byte list" u64
  | Record_Attribute "byte list" "byte list"
  | Save_Span export_span
  | Mark_Start nat u64

fun machine_step ::
  "('o, 'f) system \<Rightarrow> (byte list \<Rightarrow> u64) \<Rightarrow> (u64 list \<Rightarrow> u64) \<Rightarrow> machine_op \<Rightarrow> ('o, 'f) machine \<Rightarrow> ('o, 'f) machine option" where
  "machine_step sys h hc (Sample time v pid tid cpu kind frames) m = machine_add_sample sys hc time v pid tid cpu kind frames m"
| "machine_step sys h hc (Record_Sample time v pid tid cpu kind t data frames) m =
     map_option snd (add_sample_with_record sys hc time v pid tid cpu kind t data frames m)"
| "machine_step sys h hc (Custom_Sample pid s) m = Ret (add_process_sample sys pid s m)"
| "machine_step sys h hc (Custom_Record_Sample pid s t data) m = Ret (snd (attach_record_to_sample sys pid s t data m))"
| "machine_step sys h hc (Mmap time pid addr len pgoffset ma mi ino f) m =
     map_option snd (add_mmap_exec sys h time pid addr len pgoffset ma mi ino f m)"
| "machine_step sys h hc (Comm pid comm t) m = map_option snd (add_comm_exec sys h pid comm t m)"
| "machine_step sys h hc (Exit pid t) m = Ret (snd (add_comm_exit sys pid t m))"
| "machine_step sys h hc (Fork pid ppid) m = Ret (snd (fork_exec sys pid ppid m))"
| "machine_step sys h hc (Dynamic_Symbol s) m = map_option snd (machine_add_dynamic_symbol sys h s m)"
| "machine_step sys h hc (Kind n) m = Ret (snd (sample_kind n m))"
| "machine_step sys h hc (Record_Type t) m = Ret (snd (machine_record_type t m))"
| "machine_step sys h hc (Record_Data t data) m = Ret (snd (machine_record_data t data m))"
| "machine_step sys h hc (Push_Attributes a) m = Ret (snd (push_unique_attributes a m))"
| "machine_step sys h hc (Label_Attribute n l) m = map_option snd (label_attribute h n l m)"
| "machine_step sys h hc (Value_Attribute n v) m = map_option snd (value_attribute h n v m)"
| "machine_step sys h hc (Record_Attribute n data) m = map_option snd (record_attribute h n data m)"
| "machine_step sys h hc (Save_Span s) m = Ret (snd (machine_span_to_value s m))"
| "machine_step sys h hc (Mark_Start d q) m = Ret (mark_start_direct d q m)"

text \<open>What a caller must respect: ids it passes exist, ids fit 32 bits, sizes do not overflow.\<close>

fun op_ok :: "machine_op \<Rightarrow> ('o, 'f) machine \<Rightarrow> bool" where
  "op_ok (Sample _ _ _ _ _ _ _) m \<longleftrightarrow> length (stacks m) < 2 ^ 32"
| "op_ok (Record_Sample _ _ _ _ _ _ t data _) m \<longleftrightarrow> length (stacks m) < 2 ^ 32 \<and> length (em_records m) < 2 ^ 32 \<and>
     unat t < length (em_record_types m) \<and> length data < 2 ^ 32"
| "op_ok (Custom_Sample _ s) m \<longleftrightarrow> sample_resolves m s"
| "op_ok (Custom_Record_Sample _ s t data) m \<longleftrightarrow> sample_resolves m s \<and> length (em_records m) < 2 ^ 32 \<and>
     unat t < length (em_record_types m) \<and> length data < 2 ^ 32"
| "op_ok (Mmap _ pid addr len _ _ _ _ _) m \<longleftrightarrow> pid = 0 \<or> 0 < unat addr + unat len \<and> unat addr + unat len < 2 ^ 64"
| "op_ok (Dynamic_Symbol s) m \<longleftrightarrow> ds_start s \<le> ds_end s \<and> unat (ds_end s) + 256 < 2 ^ 64"
| "op_ok (Record_Data t data) m \<longleftrightarrow> unat t < length (em_record_types m) \<and> length data < 2 ^ 32"
| "op_ok (Record_Attribute _ data) m \<longleftrightarrow> length data < 2 ^ 32"
| "op_ok _ m \<longleftrightarrow> True"

lemma machine_step_ok:
  assumes "machine_ok h hc m" "op_ok op m"
  shows "\<exists>m'. machine_step sys h hc op m = Some m' \<and> machine_ok h hc m' \<and> extends m m'"
proof (cases op)
  case (Sample time v pid tid cpu kind frames)
  then obtain s cs where "make_sample hc time v tid cpu kind frames m = Some (s, m\<lparr>em_callstacks := cs\<rparr>)"
    "machine_ok h hc (m\<lparr>em_callstacks := cs\<rparr>)" "extends m (m\<lparr>em_callstacks := cs\<rparr>)" "sample_resolves (m\<lparr>em_callstacks := cs\<rparr>) s"
    using make_sample_spec [OF assms(1), of time v tid cpu kind frames] assms(2) by auto
  then show ?thesis
    using Sample add_process_sample_ok [of h hc "m\<lparr>em_callstacks := cs\<rparr>" s sys pid] extends_trans
    by (auto simp: machine_add_sample_def)
next
  case (Record_Sample time v pid tid cpu kind t data frames)
  then obtain s cs where 1: "make_sample hc time v tid cpu kind frames m = Some (s, m\<lparr>em_callstacks := cs\<rparr>)"
    "machine_ok h hc (m\<lparr>em_callstacks := cs\<rparr>)" "extends m (m\<lparr>em_callstacks := cs\<rparr>)" "sample_resolves (m\<lparr>em_callstacks := cs\<rparr>) s"
    using make_sample_spec [OF assms(1), of time v tid cpu kind frames] assms(2) by auto
  obtain r m' where "attach_record_to_sample sys pid s t data (m\<lparr>em_callstacks := cs\<rparr>) = (r, m')" "machine_ok h hc m'"
    "extends (m\<lparr>em_callstacks := cs\<rparr>) m'"
    using attach_record_to_sample_ok [OF 1(2,4), of t data sys pid] Record_Sample assms(2) by auto
  then show ?thesis
    using Record_Sample 1(1,3) extends_trans by (auto simp: add_sample_with_record_def)
next
  case (Custom_Sample pid s)
  then show ?thesis using add_process_sample_ok [OF assms(1)] assms(2) by simp
next
  case (Custom_Record_Sample pid s t data)
  then show ?thesis using attach_record_to_sample_ok [OF assms(1), of s t data sys pid] assms(2) by auto
next
  case (Mmap time pid addr len pgoffset ma mi ino f)
  then have "pid \<noteq> 0 \<longrightarrow> 0 < unat addr + unat len \<and> unat addr + unat len < 2 ^ 64" using assms(2) by auto
  from add_mmap_exec_ok [OF assms(1) this, of sys time pgoffset ma mi ino f] Mmap show ?thesis by auto
next
  case (Comm pid comm t)
  then show ?thesis using add_comm_exec_ok [OF assms(1), of sys pid comm t] by auto
next
  case (Exit pid t)
  then show ?thesis using add_comm_exit_ok [OF assms(1)] by simp
next
  case (Fork pid ppid)
  then show ?thesis using fork_exec_ok [OF assms(1)] by simp
next
  case (Dynamic_Symbol s)
  then show ?thesis using machine_add_dynamic_symbol_ok [OF assms(1), of s sys] assms(2) by auto
next
  case (Record_Data t data)
  then show ?thesis using create_record_spec [OF assms(1), of t data] assms(2) by (auto simp: machine_record_data_def)
next
  case (Label_Attribute n l)
  then show ?thesis using machine_attributes_ok(1) [OF assms(1), of n l] by auto
next
  case (Value_Attribute n v)
  then show ?thesis using machine_attributes_ok(2) [OF assms(1), of n v] by auto
next
  case (Record_Attribute n data)
  then show ?thesis using record_attribute_ok [OF assms(1), of data n] assms(2) by auto
next
  case (Kind n)
  have "extends m (snd (sample_kind n m))"
    by (auto simp: sample_kind_def extends_def texts_def stacks_def split: option.split)
  then show ?thesis
    using Kind by (auto simp: sample_kind_def intro!: append_ok [OF assms(1)] split: option.splits)
next
  case (Record_Type t)
  have "extends m (snd (machine_record_type t m))"
    by (auto simp: machine_record_type_def extends_def texts_def stacks_def split: option.split)
  then show ?thesis
    using Record_Type by (auto simp: machine_record_type_def intro!: append_ok [OF assms(1)] split: option.splits)
next
  case (Push_Attributes a)
  have "extends m (snd (push_unique_attributes a m))"
    by (simp add: push_unique_attributes_def extends_def texts_def stacks_def)
  then show ?thesis
    using Push_Attributes by (auto simp: push_unique_attributes_def intro!: append_ok [OF assms(1)])
next
  case (Save_Span s)
  have "extends m (snd (machine_span_to_value s m))"
    by (simp add: machine_span_to_value_def span_to_value_def extends_def texts_def stacks_def)
  then show ?thesis
    using Save_Span by (auto simp: machine_span_to_value_def span_to_value_def intro!: append_ok [OF assms(1)])
next
  case (Mark_Start d q)
  have "extends m (mark_start_direct d q m)"
    by (simp add: mark_start_direct_def extends_def texts_def stacks_def)
  then show ?thesis
    using Mark_Start by (auto simp: mark_start_direct_def intro!: append_ok [OF assms(1)])
qed


text \<open>A history: operations that respect the limits, from a machine on.\<close>

inductive machine_run ::
  "('o, 'f) system \<Rightarrow> (byte list \<Rightarrow> u64) \<Rightarrow> (u64 list \<Rightarrow> u64) \<Rightarrow> ('o, 'f) machine \<Rightarrow> machine_op list \<Rightarrow>
   ('o, 'f) machine \<Rightarrow> bool"
  for sys :: "('o, 'f) system" and h :: "byte list \<Rightarrow> u64" and hc :: "u64 list \<Rightarrow> u64" and m :: "('o, 'f) machine"
where
  run_nothing: "machine_run sys h hc m [] m"
| run_step: "machine_run sys h hc m ops m' \<Longrightarrow> op_ok op m' \<Longrightarrow> machine_step sys h hc op m' = Some m'' \<Longrightarrow>
    machine_run sys h hc m (ops @ [op]) m''"

lemma machine_run_ok:
  assumes "machine_run sys h hc m ops m'" "machine_ok h hc m"
  shows "machine_ok h hc m' \<and> extends m m'"
  using assms
proof (induction rule: machine_run.induct)
  case (run_step ops m' op m'')
  then have "machine_ok h hc m'" "extends m m'" by blast+
  moreover obtain m3 where "machine_step sys h hc op m' = Some m3" "machine_ok h hc m3" "extends m' m3"
    using machine_step_ok [OF \<open>machine_ok h hc m'\<close> run_step.hyps(2)] by blast
  ultimately show ?case using run_step.hyps(3) extends_trans by auto
qed (simp add: extends_refl)

lemma machine_new_ok:
  "\<exists>m. machine_new h sb cb process_fs hooks = Some m"
  "machine_new h sb cb process_fs hooks = Some m \<Longrightarrow> machine_ok h hc m"
proof -
  obtain i st where st: "to_id h (strings_new sb) [] = Some (i, st)" "slices_inv h st" "slices_contents st = [[]]"
    using sl.intern_spec [OF slices_new_inv, of h sb "[]"] unfolding strings_new_def by auto
  then show "\<exists>m. machine_new h sb cb process_fs hooks = Some m" by (simp add: machine_new_def strings_to_id_def)
  show "machine_new h sb cb process_fs hooks = Some m \<Longrightarrow> machine_ok h hc m"
    using st by (auto simp: machine_new_def strings_to_id_def machine_ok_def texts_def callstacks_new_def slices_new_inv
        record_ok_def record_default_def rec_end_def)
qed

lemma sample_reads:
  assumes "machine_ok h hc m" "sample_resolves m s"
  shows "callstacks_from_id (em_callstacks m) (unat (smp_callstack_id s)) frames =
      Some (Inr (), stacks m ! unat (smp_callstack_id s))"
    "\<exists>r. em_records m ! unat (smp_record_id s) = r \<and> record_ok m r \<and> sample_record_data s m =
      Some \<lparr>rd_type_id = rec_type r, rd_type = em_record_types m ! unat (rec_type r),
        rd_data = take (unat (rec_length r)) (drop (rec_offset r) (em_record_data m))\<rparr>"
proof -
  show "callstacks_from_id (em_callstacks m) (unat (smp_callstack_id s)) frames =
      Some (Inr (), stacks m ! unat (smp_callstack_id s))"
    using callstacks_from_id_cases [OF machine_ok_inv(2) [OF assms(1)]] assms(2)
    by (simp add: sample_resolves_def stacks_def)
  let ?r = "em_records m ! unat (smp_record_id s)"
  have "record_ok m ?r" using assms by (simp add: machine_ok_def list_all_iff sample_resolves_def)
  then show "\<exists>r. em_records m ! unat (smp_record_id s) = r \<and> record_ok m r \<and> sample_record_data s m =
      Some \<lparr>rd_type_id = rec_type r, rd_type = em_record_types m ! unat (rec_type r),
        rd_data = take (unat (rec_length r)) (drop (rec_offset r) (em_record_data m))\<rparr>"
    using assms(2) by (simp add: sample_resolves_def sample_record_data_def at_ok record_ok_def rec_end_def subslice_ok)
qed

section \<open>Properties\<close>



definition no_system :: "(unit, unit) system" where
  "no_system = \<lparr>sys_no_root = (), sys_root = (\<lambda>_. None), sys_open = (\<lambda>_ _. None), sys_load_header = (\<lambda>_. None),
     sys_ns_pid = (\<lambda>_. None)\<rparr>"

definition demo_machine :: "(unit, unit) machine" where
  "demo_machine = the (machine_new (\<lambda>_. 0) 8 8 False [])"

lemma demo_machine_new: "machine_new (\<lambda>_. 0) 8 8 False [] = Some demo_machine"
  unfolding demo_machine_def using machine_new_ok(1) [of "\<lambda>_. 0" 8 8 False "[]"] by (metis option.sel)

lemma demo_machine_tables:
  "length (stacks demo_machine) < 2 ^ 32" "length (em_records demo_machine) < 2 ^ 32"
  "length (em_record_types demo_machine) = 1" "em_sample_hooks demo_machine = []" "em_procs demo_machine = Map.empty"
proof -
  obtain st where "\<lparr>em_strings = st, em_callstacks = callstacks_new 8, em_procs = Map.empty,
       em_records = [record_default], em_attributes = [attributes_default], em_spans = [], em_record_data = [],
       em_kinds = [], em_record_types = [record_type_default], em_map_index = 0, em_start_date = None,
       em_start_qpc = None, em_end_qpc = None, em_duration = None, em_sample_hooks = [],
       em_process_fs = False, em_dev_nodes = Map.empty, em_va_offsets = Map.empty, em_cswitches = Map.empty\<rparr> = demo_machine"
    using demo_machine_new by (auto simp: machine_new_def bind_eq_Some_conv)
  note demo = this [symmetric]
  show "length (stacks demo_machine) < 2 ^ 32" "length (em_records demo_machine) < 2 ^ 32"
    "length (em_record_types demo_machine) = 1" "em_sample_hooks demo_machine = []" "em_procs demo_machine = Map.empty"
    unfolding demo by (simp_all add: stacks_def callstacks_new_def slices_new_contents)
qed


text \<open>A sample with a record, at the moment it is added.\<close>

lemma run_hooks_iff: "run_hooks ctx hooks \<longleftrightarrow> (\<forall>hook \<in> set hooks. hook ctx = Keep)"
  by (induction hooks) (auto split: filter_action.splits)

lemma record_sample_added:
  assumes "machine_ok h hc m" "op_ok (Record_Sample time v pid tid cpu kind t data frames) m"
    "\<forall>hook \<in> set (em_sample_hooks m). \<forall>ctx. hook ctx = Keep"
  shows "\<exists>m' p s. machine_step sys h hc (Record_Sample time v pid tid cpu kind t data frames) m = Some m' \<and>
    machine_ok h hc m' \<and> em_procs m' pid = Some p \<and> ep_samples p \<noteq> [] \<and> last (ep_samples p) = s \<and>
    smp_time s = time \<and> smp_ip s = hd (frames @ [0]) \<and> stacks m' ! unat (smp_callstack_id s) = tl frames \<and>
    em_records m' ! unat (smp_record_id s) = \<lparr>rec_type = t, rec_offset = length (em_record_data m), rec_length = of_nat (length data)\<rparr> \<and>
    em_record_data m' = em_record_data m @ data \<and> em_record_types m' = em_record_types m \<and> sample_resolves m' s"
proof -
  have lim: "length (stacks m) < 2 ^ 32" "length (em_records m) < 2 ^ 32" "unat t < length (em_record_types m)"
    "length data < 2 ^ 32" using assms(2) by simp_all
  obtain s cs where 1: "make_sample hc time v tid cpu kind frames m = Some (s, m\<lparr>em_callstacks := cs\<rparr>)"
    "machine_ok h hc (m\<lparr>em_callstacks := cs\<rparr>)" "sample_resolves (m\<lparr>em_callstacks := cs\<rparr>) s" "\<not> has_record s"
    "smp_time s = time" "smp_ip s = hd (frames @ [0])" "slices_contents cs ! unat (smp_callstack_id s) = tl frames"
    using make_sample_spec [OF assms(1) lim(1), of time v tid cpu kind frames] by blast
  let ?m1 = "m\<lparr>em_callstacks := cs\<rparr>"
  obtain m2 where 2: "create_record t data ?m1 = (length (em_records m), m2)" "machine_ok h hc m2" "extends ?m1 m2"
    "length (em_records m2) = Suc (length (em_records m))" "stacks m2 = stacks ?m1"
    "em_records m2 ! length (em_records m) = \<lparr>rec_type = t, rec_offset = length (em_record_data m), rec_length = of_nat (length data)\<rparr>"
    "em_record_data m2 = em_record_data m @ data" "em_record_types m2 = em_record_types m"
    using create_record_spec [OF 1(2), of t data] lim by auto
  have stays: "sample_stays ?m1 p s t (Some data)" for p
    using assms(3) by (simp add: sample_stays_def run_hooks_iff)
  let ?s = "attach_record (length (em_records m)) s"
  let ?m3 = "process_mut sys pid (add_sample ?s) m2"
  have step: "machine_step sys h hc (Record_Sample time v pid tid cpu kind t data frames) m = Some ?m3"
    using 1(1,4) 2(1) stays by (simp add: add_sample_with_record_def attach_record_to_sample_def)
  have "machine_ok h hc ?m3" using machine_step_ok [OF assms(1,2), of sys] step by auto
  moreover have same: "stacks ?m3 = stacks m2" "em_records ?m3 = em_records m2" "em_record_data ?m3 = em_record_data m2"
    "em_record_types ?m3 = em_record_types m2" "em_attributes ?m3 = em_attributes m2" "em_procs ?m3 pid = Some (add_sample ?s (process_entry sys pid m2))"
    by (simp_all add: process_mut_def stacks_def)
  moreover have "sample_resolves m2 s" using 1(3) extends_length [OF 2(3)] by (auto simp: sample_resolves_def)
  then have "sample_resolves m2 ?s" using 2(4) lim(2) by (intro attach_record_resolves) simp_all
  then have "sample_resolves ?m3 ?s" using same by (simp add: sample_resolves_def)
  moreover have "unat (smp_record_id ?s) = length (em_records m)" "smp_time ?s = time" "smp_ip ?s = smp_ip s"
    "smp_callstack_id ?s = smp_callstack_id s"
    using lim(2) 1(5) by (simp_all add: attach_record_def unat_of_nat_u32)
  ultimately show ?thesis
    using step 1(6,7) 2(5-8) by (intro exI [of _ ?m3] exI [of _ "add_sample ?s (process_entry sys pid m2)"] exI [of _ ?s])
      (simp add: add_sample_def stacks_def)
qed


text \<open>C22. A sample added with a record can be read back for ever: if no hook drops it, it is the last
  sample of its process, and after any further history its callstack id still names the frames below
  the first, and its record still has the type and exactly the bytes that were passed.\<close>

theorem record_sample_readback:
  assumes "machine_ok h hc m" "op_ok (Record_Sample time v pid tid cpu kind t data frames) m"
    and "\<forall>hook \<in> set (em_sample_hooks m). \<forall>ctx. hook ctx = Keep"
  shows "\<exists>m' p s. machine_step sys h hc (Record_Sample time v pid tid cpu kind t data frames) m = Some m' \<and>
    em_procs m' pid = Some p \<and> ep_samples p \<noteq> [] \<and> last (ep_samples p) = s \<and>
    smp_time s = time \<and> smp_ip s = hd (frames @ [0]) \<and>
    (\<forall>ops m''. machine_run sys h hc m' ops m'' \<longrightarrow>
       callstacks_from_id (em_callstacks m'') (unat (smp_callstack_id s)) [] = Some (Inr (), tl frames) \<and>
       sample_record_data s m'' =
         Some \<lparr>rd_type_id = t, rd_type = em_record_types m ! unat t, rd_data = data\<rparr>)"
proof -
  obtain m' p s where 1: "machine_step sys h hc (Record_Sample time v pid tid cpu kind t data frames) m = Some m'"
    "machine_ok h hc m'" "em_procs m' pid = Some p" "ep_samples p \<noteq> []" "last (ep_samples p) = s" "smp_time s = time"
    "smp_ip s = hd (frames @ [0])" "stacks m' ! unat (smp_callstack_id s) = tl frames"
    "em_records m' ! unat (smp_record_id s) = \<lparr>rec_type = t, rec_offset = length (em_record_data m), rec_length = of_nat (length data)\<rparr>"
    "em_record_data m' = em_record_data m @ data" "em_record_types m' = em_record_types m" "sample_resolves m' s"
    using record_sample_added [OF assms, of sys] by metis
  have len: "unat (of_nat (length data) :: u32) = length data" "unat t < length (em_record_types m)"
    using assms(2) by (simp_all add: unat_of_nat_u32)
  have "callstacks_from_id (em_callstacks m'') (unat (smp_callstack_id s)) [] = Some (Inr (), tl frames) \<and>
      sample_record_data s m'' = Some \<lparr>rd_type_id = t, rd_type = em_record_types m ! unat t, rd_data = data\<rparr>"
    if run: "machine_run sys h hc m' ops m''" for ops m''
  proof -
    have ok: "machine_ok h hc m''" and ext: "extends m' m''" using machine_run_ok [OF run 1(2)] by blast+
    have res: "sample_resolves m'' s" using 1(12) extends_length [OF ext] by (auto simp: sample_resolves_def)
    have old: "stacks m'' ! unat (smp_callstack_id s) = tl frames"
      "em_records m'' ! unat (smp_record_id s) = em_records m' ! unat (smp_record_id s)"
      "em_record_types m'' ! unat t = em_record_types m ! unat t"
      using prefix_nth [of "stacks m'" "stacks m''" "unat (smp_callstack_id s)"]
        prefix_nth [of "em_records m'" "em_records m''" "unat (smp_record_id s)"]
        prefix_nth [of "em_record_types m'" "em_record_types m''" "unat t"] ext 1(8,11,12) len(2)
      by (simp_all add: extends_def sample_resolves_def)
    obtain rest where "em_record_data m'' = em_record_data m @ data @ rest"
      using ext 1(10) by (auto simp: extends_def prefix_def)
    then show ?thesis
      using sample_reads [OF ok res] old 1(9) len(1) by simp
  qed
  then show ?thesis using 1 by blast
qed

theorem record_sample_readback_witness:
  "\<exists>m' p. machine_step no_system (\<lambda>_. 0) (\<lambda>_. 0) (Record_Sample 7 (Count 1) 5 6 0 0 0 [1, 2, 3] [0x20, 0x10]) demo_machine = Some m' \<and>
    em_procs m' 5 = Some p \<and> ep_samples p \<noteq> [] \<and>
    sample_record_data (last (ep_samples p)) m' =
      Some \<lparr>rd_type_id = 0, rd_type = em_record_types demo_machine ! 0, rd_data = [1, 2, 3]\<rparr>"
proof -
  have ok: "op_ok (Record_Sample 7 (Count 1) 5 6 0 0 0 [1, 2, 3] [0x20, 0x10]) demo_machine"
    using demo_machine_tables(1-3) by simp
  show ?thesis
    using record_sample_readback [OF machine_new_ok(2) [OF demo_machine_new, where hc = "\<lambda>_. 0"] ok, of no_system]
      run_nothing demo_machine_tables(4) by fastforce
qed


text \<open>What one operation does to the processes: all but at most one process are as before, and the
  one that changes keeps its samples, except that a fork onto its pid replaces it.\<close>

definition keeps_samples :: "('o, 'f) machine \<Rightarrow> ('o, 'f) machine \<Rightarrow> bool" where
  "keeps_samples m m' \<longleftrightarrow> (\<forall>pid p. em_procs m pid = Some p \<longrightarrow>
     (\<exists>p'. em_procs m' pid = Some p' \<and> prefix (ep_samples p) (ep_samples p')))"

lemma keeps_refl: "em_procs m' = em_procs m \<Longrightarrow> keeps_samples m m'"
  by (simp add: keeps_samples_def)

lemma keeps_process_mut:
  assumes "em_procs m1 = em_procs m" "\<And>p. em_procs m pid = Some p \<Longrightarrow> prefix (ep_samples p) (ep_samples (f p))"
  shows "keeps_samples m (process_mut sys pid f m1)"
  using assms by (auto simp: keeps_samples_def process_mut_def process_entry_def)

lemma keeps_trans: "keeps_samples a b \<Longrightarrow> keeps_samples b c \<Longrightarrow> keeps_samples a c"
  unfolding keeps_samples_def by (meson prefix_order.trans)

lemma intern_procs: "intern h s m = Some (i, m') \<Longrightarrow> em_procs m' = em_procs m"
  by (auto simp: intern_def bind_eq_Some_conv)

lemma os_mmap_procs: "em_procs (snd (os_add_mmap_exec sys pid mp f m)) = em_procs m"
  by (auto simp: os_add_mmap_exec_def learn_va_offset_def Let_def split: option.split)

lemma keeps_add_process_sample: "keeps_samples m (add_process_sample sys pid s m)"
  unfolding add_process_sample_def by (rule keeps_process_mut) (auto simp: add_sample_def)

lemma keeps_attach: "keeps_samples m (snd (attach_record_to_sample sys pid s t data m))"
proof (cases "has_record s")
  case False
  have "keeps_samples m (process_mut sys pid id m)" by (rule keeps_process_mut) simp_all
  moreover have "keeps_samples m (process_mut sys pid (add_sample x) (snd (create_record t data m)))" for x
    by (rule keeps_process_mut) (simp_all add: create_record_def add_sample_def)
  ultimately show ?thesis using False by (simp add: attach_record_to_sample_def Let_def split_def)
qed (simp add: attach_record_to_sample_def keeps_refl)

lemma keeps_comm: "add_comm_exec sys h pid comm t m = Some (r, m') \<Longrightarrow> keeps_samples m m'"
proof (cases "pid = 0")
  case False
  assume "add_comm_exec sys h pid comm t m = Some (r, m')"
  then obtain i m1 where 1: "intern h comm m = Some (i, m1)"
    "os_add_comm_exec sys pid (process_mut sys pid (\<lambda>p. set_create_time_qpc t (set_comm_id i p)) m1) = (r, m')"
    using False by (auto simp: add_comm_exec_def bind_eq_Some_conv)
  have "keeps_samples m (process_mut sys pid (\<lambda>p. set_create_time_qpc t (set_comm_id i p)) m1)"
    using intern_procs [OF 1(1)] by (rule keeps_process_mut) (simp add: set_create_time_qpc_def set_comm_id_def)
  moreover have "keeps_samples m2 (snd (os_add_comm_exec sys pid m2))" for m2 :: "('a, 'b) machine"
    unfolding os_add_comm_exec_def snd_conv
    by (rule keeps_process_mut) (auto simp: Let_def split: option.split)
  ultimately show ?thesis using 1(2) keeps_trans by (metis snd_conv)
qed (simp add: add_comm_exec_def keeps_refl)

lemma keeps_mmap: "add_mmap_exec sys h time pid addr len pgoffset ma mi ino f m = Some (r, m') \<Longrightarrow> keeps_samples m m'"
  using os_mmap_procs [of sys pid _ f]
  by (auto simp: add_mmap_exec_def Let_def bind_eq_Some_conv keeps_refl add_mapping_def dest!: intern_procs
      split: if_splits prod.splits intro!: keeps_process_mut) (metis snd_conv)+

lemma keeps_dynamic: "machine_add_dynamic_symbol sys h s m = Some (r, m') \<Longrightarrow> keeps_samples m m'"
proof (cases "em_procs m (ds_pid s)")
  case None
  assume "machine_add_dynamic_symbol sys h s m = Some (r, m')"
  then show ?thesis using None by (simp add: machine_add_dynamic_symbol_def find_process_def keeps_refl)
next
  case (Some p)
  assume step: "machine_add_dynamic_symbol sys h s m = Some (r, m')"
  then obtain n p1 where 1: "needs_dynamic_symbol p s (em_callstacks m) = Some (n, p1)"
    by (auto simp: machine_add_dynamic_symbol_def find_process_def bind_eq_Some_conv Some)
  let ?m1 = "m\<lparr>em_procs := (em_procs m)(ds_pid s \<mapsto> p1)\<rparr>"
  have n: "\<exists>i m2 x. intern h (ds_name s) ?m1 = Some (i, m2) \<and> m' = process_mut sys (ds_pid s) (add_dynamic_symbol x) m2" if n
    using step Some 1 that by (auto simp: machine_add_dynamic_symbol_def find_process_def bind_eq_Some_conv Let_def)
  have not_n: "m' = ?m1" if "\<not> n"
    using step Some 1 that by (simp add: machine_add_dynamic_symbol_def find_process_def)
  have "ep_samples p1 = ep_samples p"
    using 1 by (auto simp: needs_dynamic_symbol_def bind_eq_Some_conv split: if_splits)
  then have keep: "keeps_samples m ?m1"
    using Some by (auto simp: keeps_samples_def)
  have "keeps_samples a (process_mut sys (ds_pid s) (add_dynamic_symbol x) b)" if "em_procs b = em_procs a" for a b x
    using that by (rule keeps_process_mut) (simp add: add_dynamic_symbol_def)
  note add = this
  show ?thesis
  proof (cases n)
    case True
    then obtain i m2 x where 2: "intern h (ds_name s) ?m1 = Some (i, m2)" "m' = process_mut sys (ds_pid s) (add_dynamic_symbol x) m2"
      using n by blast
    show ?thesis unfolding 2(2) by (rule keeps_trans [OF keep add [OF intern_procs [OF 2(1)]]])
  qed (use keep not_n in simp)
qed

text \<open>C23. Samples stay: an operation within the limits keeps every process and only appends to its
  samples, except a fork onto a pid that is in use, which replaces the process by a copy of the parent
  without samples: all samples taken under a pid that the system reuses are lost.\<close>

theorem only_fork_drops_samples:
  assumes "machine_step sys h hc op m = Some m'" "em_procs m pid = Some p"
  shows "\<exists>p'. em_procs m' pid = Some p' \<and>
    (if \<exists>ppid. op = Fork pid ppid then ep_samples p' = [] else prefix (ep_samples p) (ep_samples p'))"
proof (cases "\<exists>cpid ppid. op = Fork cpid ppid")
  case True
  then obtain cpid ppid where op: "op = Fork cpid ppid" by blast
  have "keeps_samples m (process_mut sys ppid id m)" by (rule keeps_process_mut) simp_all
  moreover have "m' = (process_mut sys ppid id m)\<lparr>em_procs := (em_procs (process_mut sys ppid id m))
      (cpid \<mapsto> process_fork (sys_no_root sys) (process_entry sys ppid (process_mut sys ppid id m)) cpid)\<rparr>"
    using assms(1) op by (simp add: fork_exec_def Let_def)
  ultimately show ?thesis
    using op assms(2) by (cases "cpid = pid") (auto simp: keeps_samples_def process_fork_def process_new_def)
next
  case False
  have "keeps_samples m m'"
  proof (cases op)
    case (Sample time v tpid tid cpu kind frames)
    then obtain s m1 where 1: "make_sample hc time v tid cpu kind frames m = Some (s, m1)" "m' = add_process_sample sys tpid s m1"
      using assms(1) by (auto simp: machine_add_sample_def bind_eq_Some_conv)
    have "em_procs m1 = em_procs m" using 1(1) by (auto simp: make_sample_def Let_def bind_eq_Some_conv)
    then show ?thesis using keeps_add_process_sample keeps_trans [OF keeps_refl] 1(2) by blast
  next
    case (Record_Sample time v tpid tid cpu kind t data frames)
    then obtain s m1 where 1: "make_sample hc time v tid cpu kind frames m = Some (s, m1)"
      "m' = snd (attach_record_to_sample sys tpid s t data m1)"
      using assms(1) by (auto simp: add_sample_with_record_def bind_eq_Some_conv)
    have "em_procs m1 = em_procs m" using 1(1) by (auto simp: make_sample_def Let_def bind_eq_Some_conv)
    then show ?thesis using keeps_attach keeps_trans [OF keeps_refl] 1(2) by blast
  next
    case (Exit tpid t)
    then show ?thesis
      using assms(1) by (auto simp: add_comm_exit_def keeps_refl set_exit_time_qpc_def intro!: keeps_process_mut)
  qed (use assms(1) False in \<open>auto simp: machine_record_data_def create_record_def push_unique_attributes_def label_attribute_def value_attribute_def
      record_attribute_def machine_span_to_value_def span_to_value_def mark_start_direct_def sample_kind_def
      machine_record_type_def bind_eq_Some_conv Let_def split: option.splits
      intro: keeps_add_process_sample keeps_attach keeps_mmap keeps_comm keeps_dynamic keeps_refl\<close>)
  then show ?thesis using False assms(2) by (auto simp: keeps_samples_def)
qed


theorem only_fork_drops_samples_witness:
  "\<exists>m m' p p'. em_procs m 5 = Some p \<and> ep_samples p \<noteq> [] \<and>
    machine_step no_system (\<lambda>_. 0) (\<lambda>_. 0) (Fork 5 1) m = Some m' \<and> em_procs m' 5 = Some p' \<and> ep_samples p' = []"
proof -
  have ok: "op_ok (Record_Sample 7 (Count 1) 5 6 0 0 0 [1, 2, 3] [0x20, 0x10]) demo_machine"
    using demo_machine_tables(1-3) by simp
  obtain m :: "(unit, unit) machine" and p where m: "em_procs m 5 = Some p" "ep_samples p \<noteq> []"
    using record_sample_added [OF machine_new_ok(2) [OF demo_machine_new, where hc = "\<lambda>_. 0"] ok, of no_system]
      demo_machine_tables(4) by auto
  have "\<exists>m'. machine_step no_system (\<lambda>_. 0) (\<lambda>_. 0) (Fork 5 1) m = Some m'" by simp
  then obtain m' where "machine_step no_system (\<lambda>_. 0) (\<lambda>_. 0) (Fork 5 1) m = Some m'" ..
  then show ?thesis using only_fork_drops_samples [OF _ m(1)] m by fastforce
qed

lemma step_kernel:
  assumes "machine_step sys h hc op m = Some m'" "\<forall>ppid. op \<noteq> Fork 0 ppid" "pred_option no_execs (em_procs m 0)"
  shows "pred_option no_execs (em_procs m' 0)"
proof -
  have mut: "pred_option no_execs (em_procs (process_mut sys pid f m1) 0)"
    if "pred_option no_execs (em_procs m1 0)" "pid = 0 \<Longrightarrow> (\<And>p. no_execs p \<Longrightarrow> no_execs (f p))" for pid f and m1 :: "('a, 'b) machine"
    using that
    by (auto simp: process_mut_def process_entry_def no_execs_def process_new_def process_mappings_def eml_default_def
        split: option.split)
  have add: "no_execs p \<Longrightarrow> no_execs (add_sample s p)" "no_execs p \<Longrightarrow> no_execs (add_dynamic_symbol x p)" for s x and p :: "'a export_process"
    by (simp_all add: no_execs_def add_sample_def add_dynamic_symbol_def process_mappings_def)
  have sample: "pred_option no_execs (em_procs (add_process_sample sys pid s m1) 0)"
    if "pred_option no_execs (em_procs m1 0)" for pid s and m1 :: "('a, 'b) machine"
    unfolding add_process_sample_def using that by (rule mut) (simp add: add)
  have attach: "pred_option no_execs (em_procs (snd (attach_record_to_sample sys pid s t data m1)) 0)"
    if "pred_option no_execs (em_procs m1 0)" for pid s t data and m1 :: "('a, 'b) machine"
    using that mut [OF that, of pid id] mut [of "snd (create_record t data m1)" pid]
    by (auto simp: attach_record_to_sample_def Let_def split_def create_record_def add)
  show ?thesis
  proof (cases op)
    case (Record_Sample time v pid tid cpu kind t data frames)
    then obtain s m1 where 1: "make_sample hc time v tid cpu kind frames m = Some (s, m1)"
      "m' = snd (attach_record_to_sample sys pid s t data m1)"
      using assms(1) by (auto simp: add_sample_with_record_def bind_eq_Some_conv)
    have "em_procs m1 = em_procs m" using 1(1) by (auto simp: make_sample_def Let_def bind_eq_Some_conv)
    then show ?thesis unfolding 1(2) using assms(3) by (intro attach) simp
  next
    case (Mmap time pid addr len pgoffset ma mi ino f)
    show ?thesis
    proof (cases "pid = 0")
      case False
      obtain i m1 stop mp where 1: "intern h f m = Some (i, m1)"
        "m' = process_mut sys pid (add_mapping (fst (os_add_mmap_exec sys pid mp f m1)))
          ((snd (os_add_mmap_exec sys pid mp f m1))\<lparr>em_map_index := em_map_index (snd (os_add_mmap_exec sys pid mp f m1)) + 1\<rparr>)"
        using assms(1) Mmap False by (auto simp: add_mmap_exec_def Let_def bind_eq_Some_conv split_def)
      show ?thesis unfolding 1(2)
        by (rule mut) (use assms(3) False intern_procs [OF 1(1)] in \<open>simp_all add: os_mmap_procs\<close>)
    qed (use assms(1,3) Mmap in \<open>simp add: add_mmap_exec_def\<close>)
  next
    case (Comm pid comm t)
    show ?thesis
    proof (cases "pid = 0")
      case False
      then obtain i m1 where 1: "intern h comm m = Some (i, m1)"
        "m' = snd (os_add_comm_exec sys pid (process_mut sys pid (\<lambda>p. set_create_time_qpc t (set_comm_id i p)) m1))"
        using assms(1) Comm by (auto simp: add_comm_exec_def bind_eq_Some_conv)
      show ?thesis
        unfolding 1(2) os_add_comm_exec_def snd_conv
        by (intro mut) (use assms(3) False intern_procs [OF 1(1)] in simp_all)
    qed (use assms(1,3) Comm in \<open>simp add: add_comm_exec_def\<close>)
  next
    case (Exit pid t)
    show ?thesis
    proof (cases "pid = 0")
      case False
      have "m' = process_mut sys pid (set_exit_time_qpc t) m" using assms(1) Exit False by (simp add: add_comm_exit_def)
      then show ?thesis using False assms(3) by (auto intro: mut)
    qed (use assms(1,3) Exit in \<open>simp add: add_comm_exit_def\<close>)
  next
    case (Fork pid ppid)
    then have "m' = (process_mut sys ppid id m)\<lparr>em_procs := (em_procs (process_mut sys ppid id m))
        (pid \<mapsto> process_fork (sys_no_root sys) (process_entry sys ppid (process_mut sys ppid id m)) pid)\<rparr>" "pid \<noteq> 0"
      using assms(1,2) by (auto simp: fork_exec_def Let_def)
    then show ?thesis using mut [OF assms(3), of ppid id] by simp
  next
    case (Dynamic_Symbol s)
    show ?thesis
    proof (cases "em_procs m (ds_pid s)")
      case (Some p)
      obtain n p1 where 1: "needs_dynamic_symbol p s (em_callstacks m) = Some (n, p1)"
        using assms(1) Dynamic_Symbol Some by (auto simp: machine_add_dynamic_symbol_def find_process_def bind_eq_Some_conv)
      let ?m1 = "m\<lparr>em_procs := (em_procs m)(ds_pid s \<mapsto> p1)\<rparr>"
      have "\<exists>pm. p1 = p\<lparr>ep_page_map := pm\<rparr>"
        using 1 by (auto simp: needs_dynamic_symbol_def bind_eq_Some_conv split: if_splits) (metis export_process.surjective export_process.update_convs(11))
      then have m1: "pred_option no_execs (em_procs ?m1 0)"
        using assms(3) Some by (auto simp: no_execs_def process_mappings_def)
      show ?thesis
      proof (cases n)
        case True
        then obtain i m2 x where 2: "intern h (ds_name s) ?m1 = Some (i, m2)" "m' = process_mut sys (ds_pid s) (add_dynamic_symbol x) m2"
          using assms(1) Dynamic_Symbol Some 1
          by (auto simp: machine_add_dynamic_symbol_def find_process_def bind_eq_Some_conv Let_def)
        show ?thesis unfolding 2(2) by (rule mut) (use m1 intern_procs [OF 2(1)] in \<open>simp_all add: add\<close>)
      next
        case False
        then show ?thesis
          using assms(1) Dynamic_Symbol Some 1 m1 by (simp add: machine_add_dynamic_symbol_def find_process_def)
      qed
    qed (use assms(1,3) Dynamic_Symbol in \<open>simp add: machine_add_dynamic_symbol_def find_process_def\<close>)
  qed (use assms(1,3) in \<open>auto simp: machine_record_data_def
      create_record_def push_unique_attributes_def label_attribute_def value_attribute_def machine_add_sample_def
      make_sample_def add_sample_with_record_def
      record_attribute_def machine_span_to_value_def span_to_value_def mark_start_direct_def sample_kind_def
      machine_record_type_def bind_eq_Some_conv Let_def split: option.splits intro: sample attach\<close>)
qed



section \<open>Time and keys\<close>

lemma whole_seconds_spec:
  assumes "freq \<noteq> 0"
  shows "unat ns + unat qpc div unat freq * 10 ^ 9 < 2 ^ 64 \<Longrightarrow>
    whole_seconds freq qpc ns = Some (qpc mod freq, ns + of_nat (unat qpc div unat freq * 10 ^ 9))"
proof (induction "unat qpc" arbitrary: qpc ns rule: less_induct)
  case less
  show ?case
  proof (cases "freq \<le> qpc")
    case True
    have pos: "0 < unat freq" using assms by (simp add: unat_gt_0)
    have le: "unat freq \<le> unat qpc" using True by (simp add: word_le_nat_alt)
    have sub: "unat (qpc - freq) = unat qpc - unat freq" using sub64_SomeD [OF sub64_ok [OF True]] by simp
    have quot: "unat qpc div unat freq = Suc ((unat qpc - unat freq) div unat freq)" using le pos by (simp add: div_if)
    have n: "unat NANOS_IN_SEC = 10 ^ 9" by (simp add: NANOS_IN_SEC_def)
    have room: "unat ns + unat NANOS_IN_SEC < 2 ^ 64" using less.prems unfolding quot n by simp
    have "unat (ns + NANOS_IN_SEC) + (unat qpc - unat freq) div unat freq * 10 ^ 9 < 2 ^ 64"
      using less.prems unfolding unat_add64 [OF room] quot n by simp
    moreover have "unat (qpc - freq) < unat qpc" using sub le pos by simp
    ultimately have "whole_seconds freq (qpc - freq) (ns + NANOS_IN_SEC) =
        Some ((qpc - freq) mod freq, ns + NANOS_IN_SEC + of_nat ((unat qpc - unat freq) div unat freq * 10 ^ 9))"
      using less.hyps [of "qpc - freq" "ns + NANOS_IN_SEC"] unfolding sub by simp
    moreover have "(qpc - freq) mod freq = qpc mod freq"
      by (rule word_unat_eq_iff [THEN iffD2]) (simp add: unat_mod sub le_mod_geq le)
    ultimately show ?thesis
      using add64_ok [OF room] True by (subst whole_seconds.simps) (simp add: quot NANOS_IN_SEC_def algebra_simps)
  next
    case False
    then have "unat qpc < unat freq" by (simp add: word_le_nat_alt)
    then have "unat qpc div unat freq = 0" "qpc mod freq = qpc" by (simp_all add: word_unat_eq_iff unat_mod)
    then show ?thesis using False by (subst whole_seconds.simps) simp
  qed
qed


lemma div_scaled:
  fixes n f g :: nat
  assumes "0 < f"
  shows "n * g div f = n div f * g + n mod f * g div f"
proof -
  have "n * g = (n div f * f + n mod f) * g" by simp
  also have "\<dots> = n mod f * g + n div f * g * f" by (simp only: algebra_simps)
  finally have "n * g = n mod f * g + n div f * g * f" .
  then have "n * g div f = (n mod f * g + n div f * g * f) div f" by (rule arg_cong)
  then show ?thesis using assms by (simp add: add.commute)
qed



lemma key_dev_nat: "unat (key_dev (key_from_parts a b i)) = unat a * 256 OR unat b"
proof -
  have "unat a < 2 ^ 32" "unat b < 2 ^ 32" using unsigned_less [of a] unsigned_less [of b] by simp_all
  then have "unat (push_bit 8 (ucast a :: u64)) = unat a * 256"
    by (simp add: push_bit_eq_mult unat_word_ariths unsigned_ucast_eq take_bit_nat_eq_self)
  moreover have "unat (ucast b :: u64) = unat b"
    using \<open>unat b < 2 ^ 32\<close> by (simp add: unsigned_ucast_eq take_bit_nat_eq_self)
  ultimately show ?thesis by (simp add: key_from_parts_def unsigned_or_eq)
qed

lemma digit_split:
  fixes x y z w :: nat
  assumes "x * 256 + y = z * 256 + w" "y < 256" "w < 256"
  shows "x = z" "y = w"
  using arg_cong [OF assms(1), of "\<lambda>n. n div 256"] arg_cong [OF assms(1), of "\<lambda>n. n mod 256"] assms(2,3) by simp_all

text \<open>Device keys tell files apart as long as minor numbers are below 256; with larger ones, which
  Linux has, two devices can share a key, and then the files with the same inode number on them.\<close>

theorem device_keys_collide:
  assumes "unat b < 256" "unat d < 256"
  shows "(key_from_parts a b i = key_from_parts c d j \<longleftrightarrow> a = c \<and> b = d \<and> i = j) \<and>
    key_from_parts 8 256 i = key_from_parts 9 0 i"
proof -
  have split: "x * 256 OR y = x * 256 + y" if "y < 256" for x y :: nat
  proof -
    have "and (push_bit 8 x) y = 0"
    proof (rule bit_eqI)
      fix n
      have "\<not> bit y n" if "8 \<le> n"
      proof -
        have "take_bit 8 y = y" using \<open>y < 256\<close> by (simp add: take_bit_nat_eq_self)
        then have "bit y n \<longleftrightarrow> bit (take_bit 8 y) n" by simp
        then show ?thesis using that by (simp add: bit_take_bit_iff)
      qed
      then show "bit (and (push_bit 8 x) y) n \<longleftrightarrow> bit 0 n" by (auto simp: bit_simps)
    qed
    then have "push_bit 8 x OR y = push_bit 8 x + y" by (simp add: disjunctive_add_eq_or)
    then show ?thesis by (simp add: push_bit_eq_mult)
  qed
  have "a = c \<and> b = d \<and> i = j" if "key_from_parts a b i = key_from_parts c d j"
  proof -
    have "unat a * 256 + unat b = unat c * 256 + unat d"
      using that key_dev_nat [of a b i] key_dev_nat [of c d j] split assms by metis
    then have "unat a = unat c" "unat b = unat d" using assms digit_split by metis+
    then show ?thesis using that by (simp add: key_from_parts_def word_unat_eq_iff)
  qed
  moreover have "key_from_parts 8 256 i = key_from_parts 9 0 i" by (simp add: key_from_parts_def)
  ultimately show ?thesis by blast
qed

theorem device_keys_collide_witness:
  "key_from_parts 8 1 77 \<noteq> key_from_parts 8 2 77 \<and> key_from_parts 8 256 77 = key_from_parts 9 0 77"
  using device_keys_collide [of 1 2 8 77 8 77] by simp

end
