(* ===== verification/MachineReplay.thy ===== *)
theory MachineReplay
  imports MachineProps
begin

text \<open>
  \<open>ExportMachine::replay_by_time\<close>: the replays of the chosen processes, one event at a time in the order
  of time over all of them. The order in which the map yields its processes is a parameter, and so is
  the callback, which sees the machine, the process and its replay and may fail.
\<close>

section \<open>The loop\<close>

type_synonym ('o, 's) replay_callback = "'o export_process \<Rightarrow> replay \<Rightarrow> 's \<Rightarrow> (err + unit) \<times> 's"

fun earliest_time :: "('o export_process \<times> replay) list \<Rightarrow> u64 \<Rightarrow> u64" where
  "earliest_time [] e = e"
| "earliest_time ((p, r) # rs) e =
     earliest_time rs (if \<not> replay_done r \<and> rp_time r < e then rp_time r else e)"

text \<open>The pass that emits and advances; an error of the callback ends it.\<close>

fun emit_at ::
  "('o, 's) replay_callback \<Rightarrow> u64 \<Rightarrow> ('o export_process \<times> replay) list \<Rightarrow> 's \<Rightarrow>
   (err + ('o export_process \<times> replay) list) \<times> 's" where
  "emit_at cb t [] s = (Inr [], s)"
| "emit_at cb t ((p, r) # rs) s =
     (if replay_done r \<or> rp_time r \<noteq> t then
        (case emit_at cb t rs s of
           (Inr rs', s) \<Rightarrow> (Inr ((p, r) # rs'), s)
         | (Inl e, s) \<Rightarrow> (Inl e, s))
      else
        (case cb p r s of
           (Inl e, s) \<Rightarrow> (Inl e, s)
         | (Inr _, s) \<Rightarrow>
             (case emit_at cb t rs s of
                (Inr rs', s) \<Rightarrow> (Inr ((p, replay_advance p r) # rs'), s)
              | (Inl e, s) \<Rightarrow> (Inl e, s))))"

partial_function (option) replay_loop ::
  "('o, 's) replay_callback \<Rightarrow> ('o export_process \<times> replay) list \<Rightarrow> 's \<Rightarrow> ((err + unit) \<times> 's) option" where
  "replay_loop cb rs s =
     (let earliest = earliest_time rs (- 1)
      in if earliest = - 1 then Ret (Inr (), s)
         else (case emit_at cb earliest rs s of
             (Inl e, s) \<Rightarrow> Ret (Inl e, s)
           | (Inr rs', s) \<Rightarrow> replay_loop cb rs' s))"

definition sort_for_replay ::
  "('o export_process \<Rightarrow> bool) \<Rightarrow> ('o, 'f) machine \<Rightarrow> ('o, 'f) machine" where
  "sort_for_replay predicate m =
     m\<lparr>em_procs := \<lambda>pid. map_option
         (\<lambda>p. if predicate p then process_sort_mappings (sort_samples_by_time p) else p) (em_procs m pid)\<rparr>"

definition replay_by_time ::
  "u32 list \<Rightarrow> ('o export_process \<Rightarrow> bool) \<Rightarrow> (('o, 'f) machine \<Rightarrow> ('o, 's) replay_callback) \<Rightarrow> ('o, 'f) machine \<Rightarrow> 's \<Rightarrow>
   ((err + unit) \<times> ('o, 'f) machine \<times> 's) option" where
  "replay_by_time pids predicate cb m s = (
     let m = sort_for_replay predicate m;
         chosen = filter predicate (List.map_filter (em_procs m) pids) in do {
     (r, s) \<leftarrow> replay_loop (cb m) (map (\<lambda>p. (p, replay_new p)) chosen) s;
     Ret (r, m, s)
   })"

section \<open>One replay's remaining events\<close>

definition live :: "'o export_process \<Rightarrow> replay \<Rightarrow> bool" where
  "live p r \<longleftrightarrow> replay_sorted p \<and> replay_inv p r \<and> replay_seen p r"

definition remaining :: "'o export_process \<Rightarrow> replay \<Rightarrow> replay_event list" where
  "remaining p r = replay_run (Suc (replay_measure p r)) p r"

lemma remaining_done [simp]: "replay_done r \<Longrightarrow> remaining p r = []"
  by (simp add: remaining_def)

lemma live_advance: "live p r \<Longrightarrow> live p (replay_advance p r)"
  unfolding live_def using index_after replay_inv_of_advance replay_time_mono replay_seen_advance by blast

lemma remaining_step:
  assumes "live p r" "\<not> replay_done r"
  shows "remaining p r = event_at p r # remaining p (replay_advance p r)"
proof -
  let ?r = "replay_advance p r"
  have l: "replay_sorted p" "replay_inv p ?r" "replay_seen p ?r"
    using live_advance [OF assms(1)] by (simp_all add: live_def)
  have "remaining p r = event_at p r # replay_run (replay_measure p r) p ?r"
    using assms(2) by (simp add: remaining_def)
  moreover have "replay_run (replay_measure p r) p ?r = remaining p ?r"
  proof (cases "replay_done ?r")
    case True
    then show ?thesis by (cases "replay_measure p r") simp_all
  next
    case False
    then have "Suc (replay_measure p ?r) \<le> replay_measure p r"
      using replay_measure_less [of p r] assms by (auto simp: live_def)
    then show ?thesis unfolding remaining_def by (intro replay_run_stable [OF l]) simp_all
  qed
  ultimately show ?thesis by simp
qed

lemma remaining_times:
  assumes "live p r" "e \<in> set (remaining p r)"
  shows "rp_time r \<le> re_time e"
  using replay_run_all [of p r "Suc (replay_measure p r)"] assms by (simp add: live_def remaining_def del: replay_run.simps)

section \<open>The loop with a callback that records\<close>

definition log_event :: "('o, (u32 \<times> replay_event) list) replay_callback" where
  "log_event p r s = (Inr (), s @ [(ep_pid p, event_at p r)])"

lemma earliest_time_spec:
  "earliest_time rs e \<le> e" "(p, r) \<in> set rs \<Longrightarrow> \<not> replay_done r \<Longrightarrow> earliest_time rs e \<le> rp_time r"
  "earliest_time rs e = e \<or> (\<exists>(p, r) \<in> set rs. \<not> replay_done r \<and> rp_time r = earliest_time rs e)"
proof (induction rs e rule: earliest_time.induct)
  case (2 p' r' rs e)
  let ?e = "if \<not> replay_done r' \<and> rp_time r' < e then rp_time r' else e"
  {
    case 1
    have "?e \<le> e" by (auto intro: less_imp_le)
    then show ?case using 2(1) order_trans by fastforce
  next
    case 2
    have "?e \<le> rp_time r'" if "\<not> replay_done r'" using that by (auto simp: not_less)
    then show ?case using "2.IH"(1,2) 2 order_trans by fastforce
  next
    case 3
    then show ?case using "2.IH"(3) by (auto split: if_splits)
  }
qed simp_all

definition advance_at :: "u64 \<Rightarrow> 'o export_process \<times> replay \<Rightarrow> 'o export_process \<times> replay" where
  "advance_at t x = (case x of (p, r) \<Rightarrow> if replay_done r \<or> rp_time r \<noteq> t then (p, r) else (p, replay_advance p r))"

definition emitted_at :: "u64 \<Rightarrow> ('o export_process \<times> replay) list \<Rightarrow> (u32 \<times> replay_event) list" where
  "emitted_at t rs = map (\<lambda>(p, r). (ep_pid p, event_at p r)) (filter (\<lambda>(p, r). \<not> (replay_done r \<or> rp_time r \<noteq> t)) rs)"

lemma emit_at_log: "emit_at log_event t rs s = (Inr (map (advance_at t) rs), s @ emitted_at t rs)"
proof (induction rs arbitrary: s)
  case (Cons x rs)
  then show ?case by (cases x) (simp add: log_event_def advance_at_def emitted_at_def)
qed (simp add: emitted_at_def)

lemma emit_remaining:
  assumes "distinct (map (ep_pid \<circ> fst) rs)" "(p, r) \<in> set rs" "live p r"
  shows "map snd (filter (\<lambda>x. fst x = ep_pid p) (emitted_at t rs)) @ (case advance_at t (p, r) of (p, r) \<Rightarrow> remaining p r) =
    remaining p r"
proof -
  have "filter (\<lambda>x. fst x = ep_pid p) (emitted_at t rs) = emitted_at t [(p, r)]"
    using assms(1,2)
  proof (induction rs)
    case (Cons x rs)
    have none: "filter (\<lambda>x. fst x = k) (emitted_at t rs) = []" if "k \<notin> set (map (ep_pid \<circ> fst) rs)" for k
      using that by (induction rs) (auto simp: emitted_at_def)
    have split: "emitted_at t (x # rs) = emitted_at t [x] @ emitted_at t rs" by (simp add: emitted_at_def)
    show ?case
    proof (cases "x = (p, r)")
      case True
      then show ?thesis using Cons.prems(1) none [of "ep_pid p"] unfolding split by (auto simp: emitted_at_def)
    next
      case False
      then have in_rs: "(p, r) \<in> set rs" using Cons.prems(2) by simp
      then have "ep_pid (fst x) \<noteq> ep_pid p" using Cons.prems(1) by force
      then have "filter (\<lambda>y. fst y = ep_pid p) (emitted_at t [x]) = []" by (auto simp: emitted_at_def)
      then show ?thesis using Cons.IH [OF _ in_rs] Cons.prems(1) unfolding split by simp
    qed
  qed simp
  then show ?thesis
    using remaining_step [OF assms(3)] by (auto simp: emitted_at_def advance_at_def)
qed


lemma advance_at_live: "\<forall>(p, r) \<in> set rs. live p r \<Longrightarrow> \<forall>(p, r) \<in> set (map (advance_at t) rs). live p r"
  by (auto simp: advance_at_def live_advance split: if_splits)

lemma advance_at_pids: "map (ep_pid \<circ> fst) (map (advance_at t) rs) = map (ep_pid \<circ> fst) rs"
  by (auto simp: advance_at_def)

definition left :: "('o export_process \<times> replay) list \<Rightarrow> nat" where
  "left rs = (\<Sum>(p, r) \<leftarrow> rs. length (remaining p r))"

lemma left_less:
  assumes "\<forall>(p, r) \<in> set rs. live p r" "(p, r) \<in> set rs" "\<not> replay_done r" "rp_time r = t"
  shows "left (map (advance_at t) rs) < left rs"
proof -
  have one: "(case advance_at t x of (p, r) \<Rightarrow> length (remaining p r)) \<le> (case x of (p, r) \<Rightarrow> length (remaining p r))"
    if "x \<in> set rs" for x
    using assms(1) that remaining_step by (cases x) (fastforce simp: advance_at_def)
  have less: "(case advance_at t (p, r) of (p, r) \<Rightarrow> length (remaining p r)) < (case (p, r) of (p, r) \<Rightarrow> length (remaining p r))"
    using assms remaining_step [of p r] by (auto simp: advance_at_def)
  show ?thesis
    using one assms(2)
  proof (induction rs)
    case (Cons x rs)
    have le: "left (map (advance_at t) rs) \<le> left rs"
      unfolding left_def map_map using Cons.prems(1) by (intro sum_list_mono) (simp add: comp_def)
    show ?case
    proof (cases "x = (p, r)")
      case True
      then show ?thesis using le less by (simp add: left_def)
    next
      case False
      then have "left (map (advance_at t) rs) < left rs" using Cons by simp
      then show ?thesis using Cons.prems(1) [of x] by (simp add: left_def)
    qed
  qed simp
qed

lemma replay_loop_log:
  assumes "distinct (map (ep_pid \<circ> fst) rs)" "\<forall>(p, r) \<in> set rs. live p r"
  shows "\<exists>l. replay_loop log_event rs s = Some (Inr (), s @ l) \<and> sorted (map (re_time \<circ> snd) l) \<and>
    (\<forall>(p, r) \<in> set rs. map snd (filter (\<lambda>x. fst x = ep_pid p) l) = remaining p r) \<and>
    fst ` set l \<subseteq> (ep_pid \<circ> fst) ` set rs"
  using assms
proof (induction "left rs" arbitrary: rs s rule: less_induct)
  case less
  let ?t = "earliest_time rs (- 1)"
  show ?case
  proof (cases "?t = - 1")
    case True
    have "replay_done r" if "(p, r) \<in> set rs" for p r
    proof (rule ccontr)
      assume "\<not> replay_done r"
      then have "?t \<le> rp_time r" using that by (intro earliest_time_spec)
      then show False
        using True \<open>\<not> replay_done r\<close> word_order.extremum_unique [of "rp_time r"] by (simp add: replay_done_def)
    qed
    then have "\<forall>(p, r) \<in> set rs. [] = remaining p r" by auto
    then show ?thesis
      using True by (intro exI [of _ "[]"]) (subst replay_loop.simps, simp)
  next
    case False
    obtain p r where first: "(p, r) \<in> set rs" "\<not> replay_done r" "rp_time r = ?t"
      using earliest_time_spec(3) [of rs "- 1"] False by auto
    let ?rs = "map (advance_at ?t) rs" and ?out = "emitted_at ?t rs"
    have "distinct (map (ep_pid \<circ> fst) ?rs)" unfolding advance_at_pids by (rule less.prems(1))
    then obtain l where l: "replay_loop log_event ?rs (s @ ?out) = Some (Inr (), (s @ ?out) @ l)"
      "sorted (map (re_time \<circ> snd) l)"
      "\<forall>(p, r) \<in> set ?rs. map snd (filter (\<lambda>x. fst x = ep_pid p) l) = remaining p r"
      "fst ` set l \<subseteq> (ep_pid \<circ> fst) ` set ?rs"
      using less.hyps [OF left_less [OF less.prems(2) first], of "s @ ?out"] advance_at_live [OF less.prems(2)] by blast
    have pids: "(ep_pid \<circ> fst) ` set ?rs = (ep_pid \<circ> fst) ` set rs"
      using arg_cong [OF advance_at_pids [of ?t rs], of set] by (simp only: set_map)
    have "replay_loop log_event rs s = Some (Inr (), s @ ?out @ l)"
      using False l(1) by (subst replay_loop.simps) (simp add: emit_at_log Let_def)
    moreover have "map snd (filter (\<lambda>x. fst x = ep_pid p) (?out @ l)) = remaining p r" if pr: "(p, r) \<in> set rs" for p r
    proof -
      have "\<exists>r'. advance_at ?t (p, r) = (p, r')" by (auto simp: advance_at_def)
      then obtain r' where adv: "advance_at ?t (p, r) = (p, r')" ..
      then have "(p, r') \<in> set ?rs" using pr by (metis image_eqI list.set_map)
      then have "map snd (filter (\<lambda>x. fst x = ep_pid p) l) = remaining p r'" using l(3) by blast
      moreover have "live p r" using less.prems(2) pr by blast
      ultimately show ?thesis
        using emit_remaining [OF less.prems(1) pr, of ?t] adv by simp
    qed
    moreover have "fst ` set (?out @ l) \<subseteq> (ep_pid \<circ> fst) ` set rs"
      using l(4) pids by (force simp: emitted_at_def)
    moreover have "sorted (map (re_time \<circ> snd) (?out @ l))"
    proof -
      have out: "re_time (snd x) = ?t" if "x \<in> set ?out" for x
        using that by (auto simp: emitted_at_def event_at_def)
      have "?t \<le> re_time e" if e: "(k, e) \<in> set l" for k e
      proof -
        have "k \<in> (ep_pid \<circ> fst) ` set ?rs" using l(4) e by (force simp del: set_map)
        then obtain p1 r1 where p1: "(p1, r1) \<in> set ?rs" "k = ep_pid p1" by (auto simp del: set_map)
        then have "map snd (filter (\<lambda>x. fst x = k) l) = remaining p1 r1" using l(3) by blast
        moreover have "e \<in> set (map snd (filter (\<lambda>x. fst x = k) l))" using e by force
        ultimately have "e \<in> set (remaining p1 r1)" by simp
        then have "rp_time r1 \<le> re_time e"
          using advance_at_live [OF less.prems(2), of ?t] p1(1) by (blast intro: remaining_times)
        moreover have "?t \<le> rp_time r1 \<or> replay_done r1"
        proof -
          obtain r0 where r0: "(p1, r0) \<in> set rs" "r1 = r0 \<or> r1 = replay_advance p1 r0 \<and> \<not> replay_done r0"
            using p1(1) by (auto simp: advance_at_def split: if_splits)
          then have "live p1 r0" using less.prems(2) by blast
          then have "rp_time r0 \<le> rp_time r1" using r0(2) replay_time_mono by (auto simp: live_def)
          then show ?thesis using earliest_time_spec(2) [OF r0(1), of "- 1"] r0(2) by (cases "replay_done r0") auto
        qed
        ultimately show ?thesis
          using \<open>e \<in> set (remaining p1 r1)\<close> by auto
      qed
      then have "\<forall>x \<in> set ?out. \<forall>y \<in> set l. re_time (snd x) \<le> re_time (snd y)" using out by auto
      moreover have "sorted (map (re_time \<circ> snd) ?out)"
      proof -
        have "map (re_time \<circ> snd) ?out = replicate (length ?out) ?t"
          using out by (intro replicate_eqI [THEN sym, THEN sym]) auto
        then show ?thesis by simp
      qed
      ultimately show ?thesis using l(2) by (simp add: sorted_append)
    qed
    ultimately show ?thesis by blast
  qed
qed

section \<open>The whole replay\<close>

definition sorted_process :: "'o export_process \<Rightarrow> 'o export_process" where
  "sorted_process p = process_sort_mappings (sort_samples_by_time p)"

lemma sorted_process_simps [simp]:
  "ep_pid (sorted_process p) = ep_pid p" "ep_samples (sorted_process p) = sort_key smp_time (ep_samples p)"
  "process_mappings (sorted_process p) = sort_key map_time (process_mappings p)"
  by (simp_all add: sorted_process_def process_sort_mappings_def sort_samples_by_time_def process_mappings_def
      sort_mappings_by_time_def mappings_mut_def)

definition times_ordinary :: "'o export_process \<Rightarrow> bool" where
  "times_ordinary p \<longleftrightarrow> (\<forall>s \<in> set (ep_samples p). smp_time s \<noteq> - 1) \<and> (\<forall>m \<in> set (process_mappings p). map_time m \<noteq> - 1)"

lemma live_new: "times_ordinary p \<Longrightarrow> live (sorted_process p) (replay_new (sorted_process p))"
  using replay_new_inv [of "sorted_process p"]
  by (simp add: live_def times_ordinary_def replay_sorted_def)

lemma remaining_new:
  assumes "times_ordinary p"
  shows "samples_of (remaining (sorted_process p) (replay_new (sorted_process p))) = sort_key smp_time (ep_samples p)"
    "mappings_of (remaining (sorted_process p) (replay_new (sorted_process p))) = sort_key map_time (process_mappings p)"
proof -
  have s: "replay_sorted (sorted_process p)" using live_new [OF assms] by (simp add: live_def)
  note new = replay_new_inv [OF s]
  note replay_run_all [OF s new(1,2), of "Suc (replay_measure (sorted_process p) (replay_new (sorted_process p)))"]
  then show "samples_of (remaining (sorted_process p) (replay_new (sorted_process p))) = sort_key smp_time (ep_samples p)"
    "mappings_of (remaining (sorted_process p) (replay_new (sorted_process p))) = sort_key map_time (process_mappings p)"
    unfolding remaining_def by (simp_all add: new(3,4) del: replay_run.simps)
qed

lemma chosen_processes:
  assumes "\<forall>p. predicate (sorted_process p) = predicate p"
  shows "filter predicate (List.map_filter (em_procs (sort_for_replay predicate m)) pids) =
    map sorted_process (filter predicate (List.map_filter (em_procs m) pids))"
proof (induction pids)
  case (Cons pid pids)
  then show ?case
    using assms by (cases "em_procs m pid") (auto simp: List.map_filter_simps sort_for_replay_def sorted_process_def)
qed (simp add: List.map_filter_simps)

lemma set_map_filter: "set (List.map_filter f xs) = {y. \<exists>x \<in> set xs. f x = Some y}"
  by (induction xs) (auto simp: List.map_filter_simps split: option.splits)

lemma distinct_chosen:
  assumes "distinct pids" "\<forall>pid p. em_procs m pid = Some p \<longrightarrow> ep_pid p = pid"
  shows "distinct (map ep_pid (filter predicate (List.map_filter (em_procs m) pids)))"
  using assms(1)
proof (induction pids)
  case (Cons pid pids)
  then show ?case
    using assms(2) by (cases "em_procs m pid") (auto simp: List.map_filter_simps set_map_filter)
qed (simp add: List.map_filter_simps)

text \<open>C26. Replaying the machine merges the replays of the chosen processes: with a callback that records
  what it is shown the loop ends, the record is in time order over all processes, each chosen process
  is shown all its samples and all its mappings in the stable order of their times, and no other
  process is shown. (The predicate must not look at the order of samples and mappings; no time is the
  reserved last one.)\<close>

theorem replay_by_time_merges:
  assumes "distinct pids" "\<forall>pid p. em_procs m pid = Some p \<longrightarrow> ep_pid p = pid"
    "\<forall>p. predicate (process_sort_mappings (sort_samples_by_time p)) = predicate p"
    "\<forall>pid p. em_procs m pid = Some p \<longrightarrow> predicate p \<longrightarrow> times_ordinary p"
  shows "\<exists>l. replay_by_time pids predicate (\<lambda>_. log_event) m [] = Some (Inr (), sort_for_replay predicate m, l) \<and>
    sorted (map (re_time \<circ> snd) l) \<and>
    (\<forall>pid \<in> set pids. \<forall>p. em_procs m pid = Some p \<longrightarrow> predicate p \<longrightarrow>
       samples_of (map snd (filter (\<lambda>x. fst x = pid) l)) = sort_key smp_time (ep_samples p) \<and>
       mappings_of (map snd (filter (\<lambda>x. fst x = pid) l)) = sort_key map_time (process_mappings p)) \<and>
    (\<forall>x \<in> set l. fst x \<in> set pids \<and> (\<exists>p. em_procs m (fst x) = Some p \<and> predicate p))"
proof -
  have pred: "\<forall>p. predicate (sorted_process p) = predicate p" using assms(3) by (simp add: sorted_process_def)
  let ?chosen = "filter predicate (List.map_filter (em_procs m) pids)"
  let ?rs = "map (\<lambda>p. (p, replay_new p)) (map sorted_process ?chosen)"
  have mem: "p \<in> set ?chosen \<longleftrightarrow> predicate p \<and> ep_pid p \<in> set pids \<and> em_procs m (ep_pid p) = Some p" for p
    using assms(2) by (auto simp: set_map_filter)
  have "distinct (map (ep_pid \<circ> fst) ?rs)"
    using distinct_chosen [OF assms(1,2), of predicate] by (simp add: comp_def)
  moreover have "\<forall>(p, r) \<in> set ?rs. live p r" using assms(4) mem by (auto intro: live_new)
  ultimately obtain l where l: "replay_loop log_event ?rs [] = Some (Inr (), l)" "sorted (map (re_time \<circ> snd) l)"
    "\<forall>(p, r) \<in> set ?rs. map snd (filter (\<lambda>x. fst x = ep_pid p) l) = remaining p r"
    "fst ` set l \<subseteq> (ep_pid \<circ> fst) ` set ?rs"
    using replay_loop_log [of ?rs "[]"] by auto
  have "samples_of (map snd (filter (\<lambda>x. fst x = pid) l)) = sort_key smp_time (ep_samples p) \<and>
       mappings_of (map snd (filter (\<lambda>x. fst x = pid) l)) = sort_key map_time (process_mappings p)"
    if "pid \<in> set pids" "em_procs m pid = Some p" "predicate p" for pid p
  proof -
    have pid: "ep_pid p = pid" and "times_ordinary p" using assms(2,4) that(2,3) by blast+
    have "p \<in> set ?chosen" using mem that pid by blast
    then have "map snd (filter (\<lambda>x. fst x = ep_pid (sorted_process p)) l) = remaining (sorted_process p) (replay_new (sorted_process p))"
      using l(3) by auto
    then show ?thesis using remaining_new [OF \<open>times_ordinary p\<close>] pid by simp
  qed
  moreover have "fst x \<in> set pids \<and> (\<exists>p. em_procs m (fst x) = Some p \<and> predicate p)" if "x \<in> set l" for x
  proof -
    have "fst x \<in> (ep_pid \<circ> fst) ` set ?rs" using l(4) that by blast
    then obtain p where "p \<in> set ?chosen" "fst x = ep_pid p" by auto
    then show ?thesis using mem by auto
  qed
  moreover have "replay_by_time pids predicate (\<lambda>_. log_event) m [] = Some (Inr (), sort_for_replay predicate m, l)"
    using l(1) unfolding replay_by_time_def Let_def chosen_processes [OF pred] by simp
  ultimately show ?thesis using l(2) by blast
qed

text \<open>Two processes with crossing samples.\<close>

definition two_processes :: "(unit, unit) machine" where
  "two_processes = demo_machine\<lparr>em_procs := [5 \<mapsto> replayed_process,
     6 \<mapsto> add_sample (sample_new 4 (Count 1) 0 0 1 16 0) (process_new () 6)]\<rparr>"

theorem replay_by_time_merges_witness:
  "\<exists>l. replay_by_time [6, 5] (\<lambda>p. ep_pid p \<noteq> 9) (\<lambda>_. log_event) two_processes [] =
      Some (Inr (), sort_for_replay (\<lambda>p. ep_pid p \<noteq> 9) two_processes, l) \<and>
    sorted (map (re_time \<circ> snd) l) \<and>
    samples_of (map snd (filter (\<lambda>x. fst x = 5) l)) =
      [sample_new 3 (Count 1) 0 0 1 16 0, sample_new 7 (Count 1) 0 0 1 16 0]"
proof -
  have pids: "distinct [6 :: u32, 5]" by simp
  have procs: "\<forall>pid p. em_procs two_processes pid = Some p \<longrightarrow> ep_pid p = pid"
    by (simp add: two_processes_def replayed_process_def add_sample_def set_create_time_qpc_def process_new_def)
  have pred: "\<forall>p :: unit export_process. (ep_pid (process_sort_mappings (sort_samples_by_time p)) \<noteq> 9) = (ep_pid p \<noteq> 9)"
    by (simp add: process_sort_mappings_def sort_samples_by_time_def)
  have times: "\<forall>pid p. em_procs two_processes pid = Some p \<longrightarrow> ep_pid p \<noteq> 9 \<longrightarrow> times_ordinary p"
    by (simp add: two_processes_def replayed_process_def add_sample_def set_create_time_qpc_def process_new_def
        times_ordinary_def process_mappings_def eml_default_def sample_new_def)
  have five: "em_procs two_processes 5 = Some replayed_process" "ep_pid replayed_process \<noteq> 9"
    "sort_key smp_time (ep_samples replayed_process) = [sample_new 3 (Count 1) 0 0 1 16 0, sample_new 7 (Count 1) 0 0 1 16 0]"
    by (simp_all add: two_processes_def replayed_process_def add_sample_def set_create_time_qpc_def process_new_def
        sample_new_def)
  from replay_by_time_merges [of _ two_processes "\<lambda>p. ep_pid p \<noteq> 9", OF pids procs pred times]
  show ?thesis using five by (auto 0 3)
qed

end
