(* ===== verification/Session.thy ===== *)
theory Session
  imports EventObj RingBuf
begin

text \<open>
  \<open>perf_event/mod.rs\<close>: the session that takes records from a data source, works out where the fields
  of each record are (\<open>parse_perf_data\<close>) and hands the record to the event it belongs to; and
  \<open>perf_event/events.rs\<close>, the formats of the fixed records. The data source is a parameter: the
  operations of the trait \<open>PerfDataSource\<close>. A callback sees the session's field references and its own
  state. \<open>try_into()?\<close> on a slice cut to the right length cannot fail, so the only way for a parse not
  to return is a panic.
\<close>

section \<open>Constants\<close>

definition PERF_SAMPLE_ADDR :: u64 where "PERF_SAMPLE_ADDR = push_bit 3 1"
definition PERF_SAMPLE_READ :: u64 where "PERF_SAMPLE_READ = push_bit 4 1"
definition PERF_SAMPLE_PERIOD :: u64 where "PERF_SAMPLE_PERIOD = push_bit 8 1"
definition PERF_SAMPLE_BRANCH_STACK :: u64 where "PERF_SAMPLE_BRANCH_STACK = push_bit 11 1"
definition PERF_SAMPLE_WEIGHT :: u64 where "PERF_SAMPLE_WEIGHT = push_bit 14 1"
definition PERF_SAMPLE_DATA_SRC :: u64 where "PERF_SAMPLE_DATA_SRC = push_bit 15 1"
definition PERF_SAMPLE_TRANSACTION :: u64 where "PERF_SAMPLE_TRANSACTION = push_bit 17 1"
definition PERF_SAMPLE_REGS_INTR :: u64 where "PERF_SAMPLE_REGS_INTR = push_bit 18 1"
definition PERF_SAMPLE_PHYS_ADDR :: u64 where "PERF_SAMPLE_PHYS_ADDR = push_bit 19 1"

definition UNPARSED_SAMPLE_FIELDS_BEFORE_CGROUP :: u64 where
  "UNPARSED_SAMPLE_FIELDS_BEFORE_CGROUP = PERF_SAMPLE_WEIGHT OR PERF_SAMPLE_DATA_SRC OR
     PERF_SAMPLE_TRANSACTION OR PERF_SAMPLE_REGS_INTR OR PERF_SAMPLE_PHYS_ADDR"

definition PERF_FORMAT_TOTAL_TIME_ENABLED :: u64 where "PERF_FORMAT_TOTAL_TIME_ENABLED = push_bit 0 1"
definition PERF_FORMAT_TOTAL_TIME_RUNNING :: u64 where "PERF_FORMAT_TOTAL_TIME_RUNNING = push_bit 1 1"
definition PERF_FORMAT_GROUP :: u64 where "PERF_FORMAT_GROUP = push_bit 3 1"
definition PERF_FORMAT_LOST :: u64 where "PERF_FORMAT_LOST = push_bit 4 1"

definition PERF_RECORD_COMM :: u32 where "PERF_RECORD_COMM = 3"
definition PERF_RECORD_EXIT :: u32 where "PERF_RECORD_EXIT = 4"
definition PERF_RECORD_FORK :: u32 where "PERF_RECORD_FORK = 7"
definition PERF_RECORD_MMAP2 :: u32 where "PERF_RECORD_MMAP2 = 10"
definition PERF_RECORD_LOST_SAMPLES :: u32 where "PERF_RECORD_LOST_SAMPLES = 13"
definition PERF_RECORD_SWITCH_CPU_WIDE :: u32 where "PERF_RECORD_SWITCH_CPU_WIDE = 15"

lemmas perf_record_defs = PERF_RECORD_SAMPLE_def PERF_RECORD_LOST_def PERF_RECORD_COMM_def PERF_RECORD_EXIT_def
  PERF_RECORD_FORK_def PERF_RECORD_MMAP2_def PERF_RECORD_LOST_SAMPLES_def PERF_RECORD_SWITCH_CPU_WIDE_def

section \<open>A record and its attributes\<close>

record ancillary =
  an_cpu :: u32
  an_attributes :: perf_event_attr

definition ancillary_default :: ancillary where
  "ancillary_default = \<lparr>an_cpu = 0, an_attributes = attr_default\<rparr>"

record perf_data =
  pd_ancillary :: ancillary
  pd_raw :: "byte list"

definition usize_add :: "nat \<Rightarrow> nat \<Rightarrow> nat option" where
  "usize_add a b = (if a + b < 2 ^ 64 then Ret (a + b) else Panic)"

definition usize_mul :: "nat \<Rightarrow> nat \<Rightarrow> nat option" where
  "usize_mul a b = (if a * b < 2 ^ 64 then Ret (a * b) else Panic)"

definition count_ones :: "u64 \<Rightarrow> nat" where
  "count_ones w = length (filter (bit w) [0..<64])"

definition read_format_size :: "perf_event_attr \<Rightarrow> nat" where
  "read_format_size a =
     (if has_read_format a PERF_FORMAT_TOTAL_TIME_ENABLED then 8 else 0) +
     (if has_read_format a PERF_FORMAT_TOTAL_TIME_RUNNING then 8 else 0) +
     (if has_read_format a PERF_FORMAT_ID then 8 else 0) +
     (if has_read_format a PERF_FORMAT_GROUP then 8 else 0) +
     (if has_read_format a PERF_FORMAT_LOST then 8 else 0)"

definition data_u64 :: "byte list \<Rightarrow> nat \<Rightarrow> u64 option" where
  "data_u64 raw offset = do { b \<leftarrow> subslice raw offset (offset + 8); Ret (u64_of b) }"

definition data_u32 :: "byte list \<Rightarrow> nat \<Rightarrow> u32 option" where
  "data_u32 raw offset = do { b \<leftarrow> subslice raw offset (offset + 4); Ret (u32_of b) }"

definition data_u16 :: "byte list \<Rightarrow> nat \<Rightarrow> u16 option" where
  "data_u16 raw offset = do { b \<leftarrow> subslice raw offset (offset + 2); Ret (u16_of b) }"

section \<open>The field references of a session\<close>

record session_refs =
  sr_ip :: data_field
  sr_pid :: data_field
  sr_tid :: data_field
  sr_time :: data_field
  sr_address :: data_field
  sr_ident :: data_field
  sr_stream_id :: data_field
  sr_cpu :: data_field
  sr_period :: data_field
  sr_read :: data_field
  sr_callchain :: data_field
  sr_raw :: data_field
  sr_branch_stack :: data_field
  sr_regs_user :: data_field
  sr_stack_user :: data_field
  sr_cgroup :: data_field
  sr_misc :: data_field
  sr_data_type :: data_field
  sr_ancillary :: ancillary

definition refs_new :: session_refs where
  "refs_new = (let d = data_field_default in
     \<lparr>sr_ip = d, sr_pid = d, sr_tid = d, sr_time = d, sr_address = d, sr_ident = d, sr_stream_id = d, sr_cpu = d,
      sr_period = d, sr_read = d, sr_callchain = d, sr_raw = d, sr_branch_stack = d, sr_regs_user = d,
      sr_stack_user = d, sr_cgroup = d, sr_misc = snd (field_ref_update d 4 2),
      sr_data_type = snd (field_ref_update d 0 4), sr_ancillary = ancillary_default\<rparr>)"

type_synonym place = "(data_field \<Rightarrow> data_field) \<Rightarrow> session_refs \<Rightarrow> session_refs"

text \<open>\<open>if present { offset += field.update(offset, len) } else { field.reset() }\<close>\<close>

definition take_field :: "bool \<Rightarrow> place \<Rightarrow> nat \<Rightarrow> nat \<times> session_refs \<Rightarrow> (nat \<times> session_refs) option" where
  "take_field present upd len x =
     (if present then do {
        offset \<leftarrow> usize_add (fst x) len;
        Ret (offset, upd (\<lambda>f. snd (field_ref_update f (fst x) len)) (snd x))
      } else Ret (fst x, upd field_ref_reset (snd x)))"

text \<open>The fields that end a record that is not a sample.\<close>

definition decode_trailer :: "perf_event_attr \<Rightarrow> nat \<Rightarrow> session_refs \<Rightarrow> session_refs option" where
  "decode_trailer a hsize r =
     (case non_sampled_id_offsets a of
        Some offsets \<Rightarrow> do {
          offset \<leftarrow> sub_usize hsize (off_size offsets);
          x \<leftarrow> take_field (off_pid offsets \<noteq> None) sr_pid_update 4 (offset, r);
          x \<leftarrow> take_field (off_tid offsets \<noteq> None) sr_tid_update 4 x;
          x \<leftarrow> take_field (off_time offsets \<noteq> None) sr_time_update 8 x;
          x \<leftarrow> take_field (off_id offsets \<noteq> None) sr_ident_update 8 x;
          x \<leftarrow> take_field (off_stream_id offsets \<noteq> None) sr_stream_id_update 8 x;
          x \<leftarrow> take_field (off_cpu offsets \<noteq> None) sr_cpu_update 8 x;
          (if off_identifier offsets \<noteq> None
           then Ret (sr_ident_update (\<lambda>f. snd (field_ref_update f (fst x) 8)) (snd x)) else Ret (snd x))
        }
      | None \<Rightarrow> Ret (r\<lparr>sr_pid := field_ref_reset (sr_pid r), sr_tid := field_ref_reset (sr_tid r),
          sr_time := field_ref_reset (sr_time r), sr_ident := field_ref_reset (sr_ident r),
          sr_stream_id := field_ref_reset (sr_stream_id r), sr_cpu := field_ref_reset (sr_cpu r)\<rparr>))"

section \<open>The fields of a sample\<close>

definition decode_fixed :: "perf_event_attr \<Rightarrow> nat \<times> session_refs \<Rightarrow> (nat \<times> session_refs) option" where
  "decode_fixed a x = do {
     x \<leftarrow> take_field (has_format a PERF_SAMPLE_IDENTIFIER) sr_ident_update 8 x;
     x \<leftarrow> take_field (has_format a PERF_SAMPLE_IP) sr_ip_update 8 x;
     x \<leftarrow> take_field (has_format a PERF_SAMPLE_TID) sr_pid_update 4 x;
     x \<leftarrow> take_field (has_format a PERF_SAMPLE_TID) sr_tid_update 4 x;
     x \<leftarrow> take_field (has_format a PERF_SAMPLE_TIME) sr_time_update 8 x;
     x \<leftarrow> take_field (has_format a PERF_SAMPLE_ADDR) sr_address_update 8 x;
     x \<leftarrow> (if has_format a PERF_SAMPLE_ID then take_field True sr_ident_update 8 x else Ret x);
     x \<leftarrow> take_field (has_format a PERF_SAMPLE_STREAM_ID) sr_stream_id_update 8 x;
     x \<leftarrow> take_field (has_format a PERF_SAMPLE_CPU) sr_cpu_update 8 x;
     x \<leftarrow> take_field (has_format a PERF_SAMPLE_PERIOD) sr_period_update 8 x;
     take_field (has_format a PERF_SAMPLE_READ) sr_read_update (read_format_size a) x
   }"

definition decode_callchain ::
  "perf_event_attr \<Rightarrow> byte list \<Rightarrow> nat \<times> session_refs \<Rightarrow> (nat \<times> session_refs) option" where
  "decode_callchain a raw x =
     (if has_format a PERF_SAMPLE_CALLCHAIN then do {
        count \<leftarrow> data_u64 raw (fst x);
        sz \<leftarrow> usize_mul (unat count) 8;
        offset \<leftarrow> usize_add (fst x) 8;
        take_field True sr_callchain_update sz (offset, snd x)
      } else take_field False sr_callchain_update 0 x)"

definition decode_raw ::
  "perf_event_attr \<Rightarrow> byte list \<Rightarrow> nat \<times> session_refs \<Rightarrow> (nat option \<times> nat \<times> session_refs) option" where
  "decode_raw a raw x =
     (if has_format a PERF_SAMPLE_RAW then do {
        n \<leftarrow> data_u32 raw (fst x);
        let field_size = 4 + unat n;
        let aligned_size = align_to_perf_record field_size;
        offset \<leftarrow> usize_add (fst x) 4;
        i \<leftarrow> data_u16 raw offset;
        x \<leftarrow> take_field True sr_raw_update (unat n) (offset, snd x);
        offset \<leftarrow> usize_add (fst x) (aligned_size - field_size);
        Ret (Some (unat i), offset, snd x)
      } else do {
        x \<leftarrow> take_field False sr_raw_update 0 x;
        Ret (None, x)
      })"

definition decode_branches ::
  "perf_event_attr \<Rightarrow> byte list \<Rightarrow> nat \<times> session_refs \<Rightarrow> (nat \<times> session_refs) option" where
  "decode_branches a raw x =
     (if has_format a PERF_SAMPLE_BRANCH_STACK then do {
        count \<leftarrow> data_u64 raw (fst x);
        offset \<leftarrow> usize_add (fst x) 8;
        sz \<leftarrow> usize_mul (unat count) 24;
        take_field True sr_branch_stack_update sz (offset, snd x)
      } else take_field False sr_branch_stack_update 0 x)"

definition decode_regs ::
  "perf_event_attr \<Rightarrow> byte list \<Rightarrow> nat \<times> session_refs \<Rightarrow> (nat \<times> session_refs) option" where
  "decode_regs a raw x =
     (if has_format a PERF_SAMPLE_REGS_USER then do {
        abi \<leftarrow> data_u64 raw (fst x);
        offset \<leftarrow> usize_add (fst x) 8;
        per_reg \<leftarrow> usize_mul (unat abi) 4;
        sz \<leftarrow> usize_mul (count_ones (sample_regs_user a)) per_reg;
        take_field True sr_regs_user_update sz (offset, snd x)
      } else take_field False sr_regs_user_update 0 x)"

text \<open>Only the part of the stack that was read is given to the caller.\<close>

definition decode_stack ::
  "perf_event_attr \<Rightarrow> byte list \<Rightarrow> nat \<times> session_refs \<Rightarrow> (nat \<times> session_refs) option" where
  "decode_stack a raw x =
     (if has_format a PERF_SAMPLE_STACK_USER then do {
        n \<leftarrow> data_u64 raw (fst x);
        stack_start \<leftarrow> usize_add (fst x) 8;
        (if 0 < unat n then do {
           offset \<leftarrow> usize_add stack_start (unat n);
           dyn_size \<leftarrow> data_u64 raw offset;
           offset \<leftarrow> usize_add offset 8;
           _ \<leftarrow> usize_add stack_start (unat dyn_size);
           Ret (offset, sr_stack_user_update (\<lambda>f. snd (field_ref_update f stack_start (unat dyn_size))) (snd x))
         } else take_field False sr_stack_user_update 0 (stack_start, snd x))
      } else take_field False sr_stack_user_update 0 x)"

text \<open>The debug assertion before the cgroup panics if a field that is not parsed precedes it.\<close>

definition decode_cgroup ::
  "perf_event_attr \<Rightarrow> nat \<times> session_refs \<Rightarrow> (nat \<times> session_refs) option" where
  "decode_cgroup a x =
     (if has_format a PERF_SAMPLE_CGROUP then
        (if sample_type a AND UNPARSED_SAMPLE_FIELDS_BEFORE_CGROUP \<noteq> 0 then Panic
         else take_field True sr_cgroup_update 8 x)
      else take_field False sr_cgroup_update 0 x)"

definition decode_sample ::
  "perf_event_attr \<Rightarrow> byte list \<Rightarrow> session_refs \<Rightarrow> (nat option \<times> session_refs) option" where
  "decode_sample a raw r = do {
     x \<leftarrow> decode_fixed a (data_offset, r);
     x \<leftarrow> decode_callchain a raw x;
     (i, x) \<leftarrow> decode_raw a raw x;
     x \<leftarrow> decode_branches a raw x;
     x \<leftarrow> decode_regs a raw x;
     x \<leftarrow> decode_stack a raw x;
     x \<leftarrow> decode_cgroup a x;
     Ret (i, snd x)
   }"

section \<open>The session\<close>

record 's session =
  ps_events :: "nat \<rightharpoonup> (session_refs \<times> 's) event"
  ps_bpf_events :: "u64 \<rightharpoonup> (session_refs \<times> 's) event"
  ps_errors :: "err list"
  ps_logged :: "(string \<times> err) list"
  ps_refs :: session_refs
  ps_state :: 's
  ps_cpu_profile_event :: "(session_refs \<times> 's) event"
  ps_cswitch_profile_event :: "(session_refs \<times> 's) event"
  ps_lost_event :: "(session_refs \<times> 's) event"
  ps_comm_event :: "(session_refs \<times> 's) event"
  ps_exit_event :: "(session_refs \<times> 's) event"
  ps_fork_event :: "(session_refs \<times> 's) event"
  ps_mmap_event :: "(session_refs \<times> 's) event"
  ps_lost_samples_event :: "(session_refs \<times> 's) event"
  ps_cswitch_event :: "(session_refs \<times> 's) event"
  ps_soft_page_fault_event :: "(session_refs \<times> 's) event"
  ps_hard_page_fault_event :: "(session_refs \<times> 's) event"
  ps_drop_event :: "(session_refs \<times> 's) event"

text \<open>The formats of the fixed records.\<close>

definition static_field :: "string \<Rightarrow> string \<Rightarrow> nat \<Rightarrow> nat \<Rightarrow> event_field" where
  "static_field name type offset len =
     \<lparr>ef_name = name, ef_type_name = type, ef_location = Static, ef_offset = offset, ef_size = len\<rparr>"

definition string_field :: "string \<Rightarrow> nat \<Rightarrow> event_field" where
  "string_field name offset =
     \<lparr>ef_name = name, ef_type_name = ''char'', ef_location = StaticString, ef_offset = offset, ef_size = 0\<rparr>"

definition fixed_event :: "string \<Rightarrow> event_format \<Rightarrow> 's event" where
  "fixed_event name fmt = set_no_cpu_mask_flag ((event_new 0 name)\<lparr>ev_format := fmt\<rparr>)"

definition lost_event :: "'s event" where
  "lost_event = fixed_event ''__lost'' [static_field ''id'' ''u64'' 0 8, static_field ''lost'' ''u64'' 8 8]"

definition comm_event :: "'s event" where
  "comm_event = fixed_event ''__comm''
     [static_field ''pid'' ''u32'' 0 4, static_field ''tid'' ''u32'' 4 4, string_field ''comm[]'' 8]"

definition exit_event :: "'s event" where
  "exit_event = fixed_event ''__exit''
     [static_field ''pid'' ''u32'' 0 4, static_field ''ppid'' ''u32'' 4 4, static_field ''tid'' ''u32'' 8 4,
      static_field ''ptid'' ''u32'' 12 4, static_field ''time'' ''u64'' 16 8]"

definition fork_event :: "'s event" where
  "fork_event = fixed_event ''__fork''
     [static_field ''pid'' ''u32'' 0 4, static_field ''ppid'' ''u32'' 4 4, static_field ''tid'' ''u32'' 8 4,
      static_field ''ptid'' ''u32'' 12 4, static_field ''time'' ''u64'' 16 8]"

definition mmap_event :: "'s event" where
  "mmap_event = fixed_event ''__mmap''
     [static_field ''pid'' ''u32'' 0 4, static_field ''tid'' ''u32'' 4 4, static_field ''addr'' ''u64'' 8 8,
      static_field ''len'' ''u64'' 16 8, static_field ''pgoffset'' ''u64'' 24 8, static_field ''maj'' ''u32'' 32 4,
      static_field ''min'' ''u32'' 36 4, static_field ''ino'' ''u64'' 40 8,
      static_field ''ino_generation'' ''u64'' 48 8, static_field ''prot'' ''u32'' 56 4,
      static_field ''flags'' ''u32'' 60 4, string_field ''filename[]'' 64]"

definition lost_samples_event :: "'s event" where
  "lost_samples_event = fixed_event ''__lost_samples'' [static_field ''lost'' ''u64'' 0 8]"

definition cswitch_event :: "'s event" where
  "cswitch_event = (event_new 0 ''__cswitch'')\<lparr>ev_format :=
     [static_field ''next_prev_pid'' ''u32'' 0 4, static_field ''next_prev_tid'' ''u32'' 4 4]\<rparr>"

definition session_new :: "'s \<Rightarrow> 's session" where
  "session_new s =
     \<lparr>ps_events = Map.empty, ps_bpf_events = Map.empty, ps_errors = [], ps_logged = [], ps_refs = refs_new, ps_state = s,
      ps_cpu_profile_event = event_new 0 ''__cpu_profile'', ps_cswitch_profile_event = event_new 0 ''__cswitch_profile'',
      ps_lost_event = lost_event, ps_comm_event = comm_event, ps_exit_event = exit_event, ps_fork_event = fork_event,
      ps_mmap_event = mmap_event, ps_lost_samples_event = lost_samples_event, ps_cswitch_event = cswitch_event,
      ps_soft_page_fault_event = event_new 0 ''__soft_page_fault'',
      ps_hard_page_fault_event = event_new 0 ''__hard_page_fault'', ps_drop_event = event_new 0 ''__session_drop''\<rparr>"

text \<open>\<open>add_event\<close> once the source has accepted the event.\<close>

definition session_add_event :: "(session_refs \<times> 's) event \<Rightarrow> 's session \<Rightarrow> 's session" where
  "session_add_event e ss = ss\<lparr>ps_events := (ps_events ss)(ev_id e \<mapsto> e)\<rparr>"

section \<open>Handing a record to its event\<close>

definition log_errors :: "(session_refs \<times> 's) event \<Rightarrow> 's session \<Rightarrow> 's session" where
  "log_errors e ss = ss\<lparr>ps_logged := ps_logged ss @ map (Pair (ev_name e)) (ps_errors ss)\<rparr>"

definition process_with ::
  "(session_refs \<times> 's) event \<Rightarrow> byte list \<Rightarrow> byte list \<Rightarrow> 's session \<Rightarrow> 's session" where
  "process_with e full_data event_data ss =
     (let (errors, r, s) = event_process e full_data event_data (ps_errors ss) (ps_refs ss, ps_state ss)
      in log_errors e (ss\<lparr>ps_errors := errors, ps_refs := r, ps_state := s\<rparr>))"

definition process_sample ::
  "perf_event_attr \<Rightarrow> byte list \<Rightarrow> nat option \<Rightarrow> 's session \<Rightarrow> 's session option" where
  "process_sample a raw i ss =
     (if config a = PERF_COUNT_SW_BPF_OUTPUT then do {
        key \<leftarrow> field_ref_try_get_u64 (sr_ident (ps_refs ss)) raw;
        (case key of
           None \<Rightarrow> Ret ss
         | Some key \<Rightarrow>
             (case ps_bpf_events ss key of
                None \<Rightarrow> Ret ss
              | Some e \<Rightarrow> do {
                  event_data \<leftarrow> field_ref_get_data (sr_raw (ps_refs ss)) raw;
                  Ret (process_with e raw event_data ss)
                }))
      }
      else (case i of
          Some i \<Rightarrow>
            (case ps_events ss i of
               None \<Rightarrow> Ret ss
             | Some e \<Rightarrow> do {
                 event_data \<leftarrow> field_ref_get_data (sr_raw (ps_refs ss)) raw;
                 Ret (process_with e raw event_data ss)
               })
        | None \<Rightarrow>
            Ret (if event_type a \<noteq> PERF_TYPE_SOFTWARE then ss
              else if config a = PERF_COUNT_SW_CPU_CLOCK then process_with (ps_cpu_profile_event ss) raw raw ss
              else if config a = PERF_COUNT_SW_CONTEXT_SWITCHES then process_with (ps_cswitch_profile_event ss) raw raw ss
              else if config a = PERF_COUNT_SW_PAGE_FAULTS_MIN then process_with (ps_soft_page_fault_event ss) raw raw ss
              else if config a = PERF_COUNT_SW_PAGE_FAULTS_MAJ then process_with (ps_hard_page_fault_event ss) raw raw ss
              else ss)))"

definition fixed_event_of :: "u32 \<Rightarrow> 's session \<Rightarrow> (session_refs \<times> 's) event option" where
  "fixed_event_of t ss =
     (if t = PERF_RECORD_LOST then Some (ps_lost_event ss)
      else if t = PERF_RECORD_COMM then Some (ps_comm_event ss)
      else if t = PERF_RECORD_EXIT then Some (ps_exit_event ss)
      else if t = PERF_RECORD_FORK then Some (ps_fork_event ss)
      else if t = PERF_RECORD_MMAP2 then Some (ps_mmap_event ss)
      else if t = PERF_RECORD_LOST_SAMPLES then Some (ps_lost_samples_event ss)
      else if t = PERF_RECORD_SWITCH_CPU_WIDE then Some (ps_cswitch_event ss)
      else None)"

text \<open>\<open>parse_perf_data\<close> once there is a record.\<close>

definition parse_record :: "perf_data \<Rightarrow> 's session \<Rightarrow> 's session option" where
  "parse_record d ss = (
     let raw = pd_raw d; a = an_attributes (pd_ancillary d) in do {
     h \<leftarrow> header_from_slice raw;
     let r = (ps_refs ss)\<lparr>sr_ancillary := pd_ancillary d\<rparr>;
     ss \<leftarrow> (if entry_type h = PERF_RECORD_SAMPLE then do {
         (i, r) \<leftarrow> decode_sample a raw r;
         process_sample a raw i (ss\<lparr>ps_refs := r\<rparr>)
       }
       else do {
         r \<leftarrow> decode_trailer a (unat (hdr_size h)) r;
         (case fixed_event_of (entry_type h) ss of
            None \<Rightarrow> Ret (ss\<lparr>ps_refs := r\<rparr>)
          | Some e \<Rightarrow> do {
              event_data \<leftarrow> slice_from raw data_offset;
              Ret (process_with e raw event_data (ss\<lparr>ps_refs := r\<rparr>))
            })
       });
     Ret (ss\<lparr>ps_errors := []\<rparr>)
   })"

section \<open>Parsing from a source\<close>

text \<open>The operations of \<open>PerfDataSource\<close> the parsing uses; \<open>'c\<close> is the context of one cpu's drain.\<close>

record ('src, 'c) data_source =
  ds_begin :: "'src \<Rightarrow> 'src option"
  ds_read :: "'src \<Rightarrow> (perf_data option \<times> 'src) option"
  ds_end :: "'src \<Rightarrow> 'src option"
  ds_more :: "'src \<Rightarrow> bool"
  ds_begin_cpu :: "u32 \<Rightarrow> 'src \<Rightarrow> ('c option \<times> 'src) option"
  ds_read_cpu :: "'c \<Rightarrow> 'src \<Rightarrow> (perf_data option \<times> 'src) option"
  ds_end_cpu :: "'c \<Rightarrow> 'src \<Rightarrow> 'src option"

definition parse_perf_data ::
  "('src \<Rightarrow> (perf_data option \<times> 'src) option) \<Rightarrow> 's session \<times> 'src \<Rightarrow> (bool \<times> 's session \<times> 'src) option" where
  "parse_perf_data read x = do {
     (d, src) \<leftarrow> read (snd x);
     (case d of
        None \<Rightarrow> Ret (False, fst x, src)
      | Some d \<Rightarrow> do {
          ss \<leftarrow> parse_record d (fst x);
          Ret (True, ss, src)
        })
   }"

text \<open>The inner loop of \<open>parse_until\<close>: it stops at the record with \<open>i = 100\<close>, so after 101 records.\<close>

fun parse_records ::
  "nat \<Rightarrow> ('src \<Rightarrow> (perf_data option \<times> 'src) option) \<Rightarrow> 's session \<times> 'src \<Rightarrow> ('s session \<times> 'src) option" where
  "parse_records 0 read x = Ret x"
| "parse_records (Suc n) read x = do {
     (some, x) \<leftarrow> parse_perf_data read x;
     (if some then parse_records n read x else Ret x)
   }"

definition parse_pass :: "('src, 'c) data_source \<Rightarrow> 's session \<times> 'src \<Rightarrow> ('s session \<times> 'src) option" where
  "parse_pass ops x = do {
     src \<leftarrow> ds_begin ops (snd x);
     x \<leftarrow> parse_records 101 (ds_read ops) (fst x, src);
     src \<leftarrow> ds_end ops (snd x);
     Ret (fst x, src)
   }"

text \<open>\<open>should_stop\<close> may look at what the callbacks share.\<close>

partial_function (option) parse_until ::
  "('src, 'c) data_source \<Rightarrow> ('s session \<Rightarrow> bool) \<Rightarrow> 's session \<times> 'src \<Rightarrow> ('s session \<times> 'src) option" where
  "parse_until ops should_stop x = do {
     x \<leftarrow> parse_pass ops x;
     (if should_stop (fst x) \<or> \<not> ds_more ops (snd x) then Ret x else parse_until ops should_stop x)
   }"

definition parse_all :: "('src, 'c) data_source \<Rightarrow> 's session \<times> 'src \<Rightarrow> ('s session \<times> 'src) option" where
  "parse_all ops x = parse_until ops (\<lambda>_. False) x"

partial_function (option) drain ::
  "('src \<Rightarrow> (perf_data option \<times> 'src) option) \<Rightarrow> 's session \<times> 'src \<Rightarrow> ('s session \<times> 'src) option" where
  "drain read x = do {
     (some, x) \<leftarrow> parse_perf_data read x;
     (if some then drain read x else Ret x)
   }"

definition parse_for_cpu ::
  "('src, 'c) data_source \<Rightarrow> u32 \<Rightarrow> 's session \<times> 'src \<Rightarrow> ((err + unit) \<times> 's session \<times> 'src) option" where
  "parse_for_cpu ops cpu x = do {
     (ctx, src) \<leftarrow> ds_begin_cpu ops cpu (snd x);
     (case ctx of
        None \<Rightarrow> Ret (Inl ''no ring buffer'', fst x, src)
      | Some c \<Rightarrow> do {
          x \<leftarrow> drain (ds_read_cpu ops c) (fst x, src);
          src \<leftarrow> ds_end_cpu ops c (snd x);
          Ret (Inr (), fst x, src)
        })
   }"

end
