(* ===== verification/SessionProps.thy ===== *)
theory SessionProps
  imports Session
begin

text \<open>
  What parsing a record shows: for a sample laid out as the comment at the top of \<open>abi.rs\<close> says, every
  field reference designates exactly its field; where the code departs from that layout; and that a
  record reaches exactly the event it belongs to.
\<close>

section \<open>Placing one field\<close>

definition placed :: "bool \<Rightarrow> nat \<Rightarrow> nat \<Rightarrow> data_field" where
  "placed present start len =
     (if present then \<lparr>df_start = of_nat start, df_end = of_nat (start + len)\<rparr> else \<lparr>df_start = 0, df_end = 0\<rparr>)"

abbreviation opt :: "bool \<Rightarrow> byte list \<Rightarrow> byte list" where
  "opt present bs \<equiv> (if present then bs else [])"

lemma field_placed:
  "(\<lambda>f. snd (field_ref_update f start len)) = (\<lambda>_. placed True start len)" "field_ref_reset = (\<lambda>_. placed False start len)"
  by (simp_all add: fun_eq_iff field_ref_update_def field_ref_reset_def placed_def)

text \<open>The field holds the bytes that lie at its place.\<close>

lemma get_placed:
  assumes "raw = pre @ opt p bs @ rest" "length raw < 2 ^ 32"
  shows "field_ref_get_data (placed p (length pre) (length bs)) raw = Some (opt p bs)"
proof (cases p)
  case True
  have "snd (field_ref_update f (length pre) (length bs)) = placed p (length pre) (length bs)" for f
    using True by (simp add: field_ref_update_def placed_def)
  then show ?thesis
    using field_ref_get_update [of "length pre" "length bs" undefined raw] True assms by simp
qed (simp add: placed_def field_ref_get_data_def subslice_def)

lemma take_field_Some:
  assumes "length bs = len" "length pre + len < 2 ^ 64"
  shows "take_field p upd len (length pre, r) = Some (length (pre @ opt p bs), upd (\<lambda>_. placed p (length pre) len) r)"
  using assms field_placed(2) [of "length pre" len]
  by (simp add: take_field_def usize_add_def field_placed(1))

text \<open>A run of fields that follow each other. An item that the session keeps no reference to, or whose
  reference a later item replaces, is not kept.\<close>

record item =
  it_kept :: bool
  it_present :: bool
  it_get :: "session_refs \<Rightarrow> data_field"
  it_upd :: place
  it_bytes :: "byte list"

definition item_bytes :: "item \<Rightarrow> byte list" where
  "item_bytes it = opt (it_present it) (it_bytes it)"

definition items_bytes :: "item list \<Rightarrow> byte list" where
  "items_bytes its = concat (map item_bytes its)"

fun take_items :: "item list \<Rightarrow> nat \<times> session_refs \<Rightarrow> (nat \<times> session_refs) option" where
  "take_items [] x = Some x"
| "take_items (it # its) x = do { x \<leftarrow> take_field (it_present it) (it_upd it) (length (it_bytes it)) x; take_items its x }"

fun place_items :: "item list \<Rightarrow> byte list \<Rightarrow> session_refs \<Rightarrow> session_refs" where
  "place_items [] pre r = r"
| "place_items (it # its) pre r = place_items its (pre @ item_bytes it)
     (it_upd it (\<lambda>_. placed (it_present it) (length pre) (length (it_bytes it))) r)"

definition independent :: "item list \<Rightarrow> bool" where
  "independent its \<longleftrightarrow> (\<forall>it \<in> set its. it_kept it \<longrightarrow> (\<forall>c r. it_get it (it_upd it (\<lambda>_. c) r) = c)) \<and>
     sorted_wrt (\<lambda>it it'. it_kept it \<longrightarrow> (\<forall>f r. it_get it (it_upd it' f r) = it_get it r)) its"

lemma item_bytes_simp:
  "item_bytes \<lparr>it_kept = k, it_present = p, it_get = g, it_upd = u, it_bytes = bs\<rparr> = opt p bs"
  by (simp add: item_bytes_def)

lemma items_bytes_simps [simp]:
  "items_bytes [] = []" "items_bytes (it # its) = item_bytes it @ items_bytes its"
  "items_bytes (xs @ ys) = items_bytes xs @ items_bytes ys"
  by (simp_all add: items_bytes_def)

lemma take_items_fun:
  "take_items [] = Some"
  "take_items (it # its) = (\<lambda>x. take_field (it_present it) (it_upd it) (length (it_bytes it)) x \<bind> take_items its)"
  by (simp_all add: fun_eq_iff)

lemma take_items_append: "take_items (xs @ ys) = (\<lambda>x. take_items xs x \<bind> take_items ys)"
  by (induction xs) (simp_all add: take_items_fun Option.bind_assoc del: take_items.simps)

lemma take_items_Some:
  assumes "raw = pre @ items_bytes its @ rest" "length raw < 2 ^ 32"
  shows "take_items its (length pre, r) = Some (length (pre @ items_bytes its), place_items its pre r)"
  using assms(1)
proof (induction its arbitrary: pre r)
  case (Cons it its)
  have "length pre + length (item_bytes it) < 2 ^ 32" using assms(2) Cons.prems by simp
  then have "take_field (it_present it) (it_upd it) (length (it_bytes it)) (length pre, r) =
    Some (length (pre @ item_bytes it), it_upd it (\<lambda>_. placed (it_present it) (length pre) (length (it_bytes it))) r)"
    using take_field_Some [of "it_bytes it" "length (it_bytes it)" pre "it_present it" "it_upd it" r]
    by (cases "it_present it") (simp_all add: item_bytes_def take_field_def field_placed(2) [of "length pre" "length (it_bytes it)"])
  moreover have "raw = (pre @ item_bytes it) @ items_bytes its @ rest" using Cons.prems by simp
  note Cons.IH [OF this]
  ultimately show ?case by (simp add: ac_simps)
qed simp

lemma place_items_frame:
  assumes "\<forall>it \<in> set its. \<forall>f r. g (it_upd it f r) = g r"
  shows "g (place_items its pre r) = g r"
  using assms by (induction its arbitrary: pre r) simp_all

lemma place_items_get:
  assumes "raw = pre @ items_bytes its @ rest" "length raw < 2 ^ 32" "independent its" "it \<in> set its" "it_kept it"
  shows "field_ref_get_data (it_get it (place_items its pre r)) raw = Some (item_bytes it)"
  using assms(1,3,4)
proof (induction its arbitrary: pre r)
  case (Cons x its)
  let ?r = "it_upd x (\<lambda>_. placed (it_present x) (length pre) (length (it_bytes x))) r"
  have raw: "raw = (pre @ item_bytes x) @ items_bytes its @ rest" using Cons.prems(1) by simp
  show ?case
  proof (cases "it \<in> set its")
    case True
    moreover have "independent its" using Cons.prems(2) by (simp add: independent_def)
    ultimately show ?thesis using Cons.IH [OF raw] by simp
  next
    case False
    then have x: "it = x" using Cons.prems(3) by simp
    have "it_get x (place_items its (pre @ item_bytes x) ?r) = it_get x ?r"
      using Cons.prems(2) assms(5) x by (intro place_items_frame) (simp add: independent_def)
    also have "\<dots> = placed (it_present x) (length pre) (length (it_bytes x))"
      using Cons.prems(2) assms(5) x by (simp add: independent_def)
    finally show ?thesis
      using get_placed [of raw pre "it_present x" "it_bytes x" "items_bytes its @ rest"] Cons.prems(1) assms(2) x
      by (simp add: item_bytes_def)
  qed
qed simp

lemma data_u64_at [simp]: "data_u64 (pre @ u64_bytes w @ rest) (length pre) = Some w"
  by (simp add: data_u64_def subslice_def)

lemma data_u32_at [simp]: "data_u32 (pre @ u32_bytes w @ rest) (length pre) = Some w"
  by (simp add: data_u32_def subslice_def)

section \<open>The layout of a sample\<close>

record sample_values =
  sv_identifier :: u64
  sv_ip :: u64
  sv_pid :: u32
  sv_tid :: u32
  sv_time :: u64
  sv_addr :: u64
  sv_id :: u64
  sv_stream_id :: u64
  sv_cpu :: u64
  sv_period :: u64
  sv_ips :: "u64 list"
  sv_raw :: "byte list"
  sv_branches :: "byte list"
  sv_regs_abi :: u64
  sv_regs :: "u64 list"
  sv_stack :: "byte list"
  sv_dyn_size :: u64
  sv_cgroup :: u64

definition words_bytes :: "u64 list \<Rightarrow> byte list" where
  "words_bytes ws = concat (map u64_bytes ws)"

lemma length_words_bytes [simp]: "length (words_bytes ws) = 8 * length ws"
  by (induction ws) (simp_all add: words_bytes_def)

text \<open>The layout, field by field.\<close>

definition raw_padding :: "byte list \<Rightarrow> byte list" where
  "raw_padding bs = replicate (align_to_perf_record (4 + length bs) - (4 + length bs)) 0"

definition callchain_bytes :: "sample_values \<Rightarrow> byte list" where
  "callchain_bytes v = u64_bytes (of_nat (length (sv_ips v))) @ words_bytes (sv_ips v)"

definition raw_bytes :: "sample_values \<Rightarrow> byte list" where
  "raw_bytes v = u32_bytes (of_nat (length (sv_raw v))) @ sv_raw v @ raw_padding (sv_raw v)"

definition branch_bytes :: "sample_values \<Rightarrow> byte list" where
  "branch_bytes v = u64_bytes (of_nat (length (sv_branches v) div 24)) @ sv_branches v"

definition regs_bytes :: "sample_values \<Rightarrow> byte list" where
  "regs_bytes v = u64_bytes (sv_regs_abi v) @ words_bytes (sv_regs v)"

definition stack_bytes :: "sample_values \<Rightarrow> byte list" where
  "stack_bytes v = u64_bytes (of_nat (length (sv_stack v))) @ sv_stack v @
     opt (sv_stack v \<noteq> []) (u64_bytes (sv_dyn_size v))"

definition sample_bytes :: "perf_event_attr \<Rightarrow> sample_values \<Rightarrow> byte list" where
  "sample_bytes a v =
     opt (has_format a PERF_SAMPLE_IDENTIFIER) (u64_bytes (sv_identifier v)) @
     opt (has_format a PERF_SAMPLE_IP) (u64_bytes (sv_ip v)) @
     opt (has_format a PERF_SAMPLE_TID) (u32_bytes (sv_pid v) @ u32_bytes (sv_tid v)) @
     opt (has_format a PERF_SAMPLE_TIME) (u64_bytes (sv_time v)) @
     opt (has_format a PERF_SAMPLE_ADDR) (u64_bytes (sv_addr v)) @
     opt (has_format a PERF_SAMPLE_ID) (u64_bytes (sv_id v)) @
     opt (has_format a PERF_SAMPLE_STREAM_ID) (u64_bytes (sv_stream_id v)) @
     opt (has_format a PERF_SAMPLE_CPU) (u64_bytes (sv_cpu v)) @
     opt (has_format a PERF_SAMPLE_PERIOD) (u64_bytes (sv_period v)) @
     opt (has_format a PERF_SAMPLE_CALLCHAIN) (callchain_bytes v) @
     opt (has_format a PERF_SAMPLE_RAW) (raw_bytes v) @
     opt (has_format a PERF_SAMPLE_BRANCH_STACK) (branch_bytes v) @
     opt (has_format a PERF_SAMPLE_REGS_USER) (regs_bytes v) @
     opt (has_format a PERF_SAMPLE_STACK_USER) (stack_bytes v) @
     opt (has_format a PERF_SAMPLE_CGROUP) (u64_bytes (sv_cgroup v))"

text \<open>What the kernel guarantees of the values: the registers the mask asks for, or none for a thread
  without user registers; no more stack read than room was given for.\<close>

definition sample_ok :: "perf_event_attr \<Rightarrow> sample_values \<Rightarrow> bool" where
  "sample_ok a v \<longleftrightarrow> 2 \<le> length (sv_raw v) \<and> 24 dvd length (sv_branches v) \<and>
     (sv_regs_abi v = 0 \<and> sv_regs v = [] \<or> sv_regs_abi v = 2 \<and> length (sv_regs v) = count_ones (sample_regs_user a)) \<and>
     unat (sv_dyn_size v) \<le> length (sv_stack v)"

definition decodable :: "perf_event_attr \<Rightarrow> bool" where
  "decodable a \<longleftrightarrow> \<not> has_format a PERF_SAMPLE_READ \<and> sample_type a AND UNPARSED_SAMPLE_FIELDS_BEFORE_CGROUP = 0"

section \<open>The sample as items\<close>

definition fixed_items :: "perf_event_attr \<Rightarrow> sample_values \<Rightarrow> item list" where
  "fixed_items a v = (let has = has_format a in
    [\<lparr>it_kept = \<not> has PERF_SAMPLE_ID, it_present = has PERF_SAMPLE_IDENTIFIER, it_get = sr_ident, it_upd = sr_ident_update,
       it_bytes = u64_bytes (sv_identifier v)\<rparr>,
     \<lparr>it_kept = True, it_present = has PERF_SAMPLE_IP, it_get = sr_ip, it_upd = sr_ip_update, it_bytes = u64_bytes (sv_ip v)\<rparr>,
     \<lparr>it_kept = True, it_present = has PERF_SAMPLE_TID, it_get = sr_pid, it_upd = sr_pid_update, it_bytes = u32_bytes (sv_pid v)\<rparr>,
     \<lparr>it_kept = True, it_present = has PERF_SAMPLE_TID, it_get = sr_tid, it_upd = sr_tid_update, it_bytes = u32_bytes (sv_tid v)\<rparr>,
     \<lparr>it_kept = True, it_present = has PERF_SAMPLE_TIME, it_get = sr_time, it_upd = sr_time_update, it_bytes = u64_bytes (sv_time v)\<rparr>,
     \<lparr>it_kept = True, it_present = has PERF_SAMPLE_ADDR, it_get = sr_address, it_upd = sr_address_update,
       it_bytes = u64_bytes (sv_addr v)\<rparr>] @
    (if has PERF_SAMPLE_ID then
      [\<lparr>it_kept = True, it_present = True, it_get = sr_ident, it_upd = sr_ident_update, it_bytes = u64_bytes (sv_id v)\<rparr>] else []) @
    [\<lparr>it_kept = True, it_present = has PERF_SAMPLE_STREAM_ID, it_get = sr_stream_id, it_upd = sr_stream_id_update,
       it_bytes = u64_bytes (sv_stream_id v)\<rparr>,
     \<lparr>it_kept = True, it_present = has PERF_SAMPLE_CPU, it_get = sr_cpu, it_upd = sr_cpu_update, it_bytes = u64_bytes (sv_cpu v)\<rparr>,
     \<lparr>it_kept = True, it_present = has PERF_SAMPLE_PERIOD, it_get = sr_period, it_upd = sr_period_update,
       it_bytes = u64_bytes (sv_period v)\<rparr>,
     \<lparr>it_kept = True, it_present = False, it_get = sr_read, it_upd = sr_read_update, it_bytes = []\<rparr>])"

definition plain :: "bool \<Rightarrow> byte list \<Rightarrow> item" where
  "plain p bs = \<lparr>it_kept = False, it_present = p, it_get = sr_ip, it_upd = (\<lambda>_ r. r), it_bytes = bs\<rparr>"

definition sized_items :: "bool \<Rightarrow> byte list \<Rightarrow> (session_refs \<Rightarrow> data_field) \<Rightarrow> place \<Rightarrow> byte list \<Rightarrow> item list" where
  "sized_items p count sel upd bs =
     [plain p count, \<lparr>it_kept = True, it_present = p, it_get = sel, it_upd = upd, it_bytes = bs\<rparr>]"

definition dynamic_items :: "perf_event_attr \<Rightarrow> sample_values \<Rightarrow> item list list" where
  "dynamic_items a v = (let has = has_format a; stack = sv_stack v; dyn = unat (sv_dyn_size v) in
    [sized_items (has PERF_SAMPLE_CALLCHAIN) (u64_bytes (of_nat (length (sv_ips v)))) sr_callchain sr_callchain_update
       (words_bytes (sv_ips v)),
     sized_items (has PERF_SAMPLE_RAW) (u32_bytes (of_nat (length (sv_raw v)))) sr_raw sr_raw_update (sv_raw v) @
       [plain (has PERF_SAMPLE_RAW) (raw_padding (sv_raw v))],
     sized_items (has PERF_SAMPLE_BRANCH_STACK) (u64_bytes (of_nat (length (sv_branches v) div 24)))
       sr_branch_stack sr_branch_stack_update (sv_branches v),
     sized_items (has PERF_SAMPLE_REGS_USER) (u64_bytes (sv_regs_abi v)) sr_regs_user sr_regs_user_update
       (words_bytes (sv_regs v)),
     [plain (has PERF_SAMPLE_STACK_USER) (u64_bytes (of_nat (length stack))),
      \<lparr>it_kept = True, it_present = has PERF_SAMPLE_STACK_USER \<and> stack \<noteq> [], it_get = sr_stack_user,
        it_upd = sr_stack_user_update, it_bytes = take dyn stack\<rparr>,
      plain (has PERF_SAMPLE_STACK_USER \<and> stack \<noteq> []) (drop dyn stack @ u64_bytes (sv_dyn_size v))],
     [\<lparr>it_kept = True, it_present = has PERF_SAMPLE_CGROUP, it_get = sr_cgroup, it_upd = sr_cgroup_update,
        it_bytes = u64_bytes (sv_cgroup v)\<rparr>]])"

section \<open>Each step takes its items\<close>

lemma take_field_same: "take_field False upd n = take_field False upd m"
  by (simp add: take_field_def fun_eq_iff)

lemma opt_append: "opt p (xs @ ys) = opt p xs @ opt p ys" "opt p [] = []"
  by simp_all

lemma stack_items_bytes:
  "opt p (stack_bytes v) = opt p (u64_bytes (of_nat (length (sv_stack v)))) @
     opt (p \<and> sv_stack v \<noteq> []) (take n (sv_stack v)) @ opt (p \<and> sv_stack v \<noteq> []) (drop n (sv_stack v) @ u64_bytes (sv_dyn_size v))"
  by (simp add: stack_bytes_def)

lemma sample_bytes_items: "sample_bytes a v = items_bytes (fixed_items a v @ concat (dynamic_items a v))"
proof -
  have "items_bytes (if p then [it] else []) = opt p (item_bytes it)" for p it by simp
  note [simp] = this item_bytes_def
  have "items_bytes (fixed_items a v) =
     opt (has_format a PERF_SAMPLE_IDENTIFIER) (u64_bytes (sv_identifier v)) @
     opt (has_format a PERF_SAMPLE_IP) (u64_bytes (sv_ip v)) @
     opt (has_format a PERF_SAMPLE_TID) (u32_bytes (sv_pid v)) @ opt (has_format a PERF_SAMPLE_TID) (u32_bytes (sv_tid v)) @
     opt (has_format a PERF_SAMPLE_TIME) (u64_bytes (sv_time v)) @
     opt (has_format a PERF_SAMPLE_ADDR) (u64_bytes (sv_addr v)) @
     opt (has_format a PERF_SAMPLE_ID) (u64_bytes (sv_id v)) @
     opt (has_format a PERF_SAMPLE_STREAM_ID) (u64_bytes (sv_stream_id v)) @
     opt (has_format a PERF_SAMPLE_CPU) (u64_bytes (sv_cpu v)) @
     opt (has_format a PERF_SAMPLE_PERIOD) (u64_bytes (sv_period v))"
    by (simp add: fixed_items_def Let_def split del: if_split cong: if_cong)
  moreover have "items_bytes (concat (dynamic_items a v)) =
     opt (has_format a PERF_SAMPLE_CALLCHAIN) (callchain_bytes v) @
     opt (has_format a PERF_SAMPLE_RAW) (raw_bytes v) @
     opt (has_format a PERF_SAMPLE_BRANCH_STACK) (branch_bytes v) @
     opt (has_format a PERF_SAMPLE_REGS_USER) (regs_bytes v) @
     opt (has_format a PERF_SAMPLE_STACK_USER) (stack_bytes v) @
     opt (has_format a PERF_SAMPLE_CGROUP) (u64_bytes (sv_cgroup v))"
    unfolding stack_items_bytes [of _ v "unat (sv_dyn_size v)"] callchain_bytes_def raw_bytes_def branch_bytes_def regs_bytes_def
    by (simp only: dynamic_items_def Let_def sized_items_def plain_def concat.simps append.simps items_bytes_simps item_bytes_def
        item.simps opt_append append_assoc append_Nil append_Nil2)
  ultimately show ?thesis
    unfolding sample_bytes_def by (simp only: items_bytes_simps append_assoc opt_append)
qed

lemma decode_fixed_items:
  assumes "\<not> has_format a PERF_SAMPLE_READ"
  shows "decode_fixed a x = take_items (fixed_items a v) x"
proof -
  note [simp] = take_field_same [of sr_read_update "read_format_size a" 0] Option.bind_assoc take_items_fun take_items_append
  show ?thesis
    unfolding decode_fixed_def fixed_items_def Let_def
    using assms by (cases "has_format a PERF_SAMPLE_ID") simp_all
qed

lemma small_word: "n < 2 ^ 32 \<Longrightarrow> unat (of_nat n :: u64) = n" "n < 2 ^ 32 \<Longrightarrow> unat (of_nat n :: u32) = n"
  by (simp_all add: unat_of_nat_word)

lemma sized_items_bytes: "items_bytes (sized_items p count sel upd bs) = opt p (count @ bs)"
  by (simp add: sized_items_def plain_def item_bytes_def)

lemma take_sized:
  "take_items (sized_items p count sel upd bs) (k, r) =
     (if p then do { offset \<leftarrow> usize_add k (length count); take_field True upd (length bs) (offset, r) }
      else take_field False upd 0 (k, r))"
  using take_field_same [of upd "length bs" 0]
  by (simp add: sized_items_def plain_def take_field_def Option.bind_assoc)

lemma decode_callchain_items:
  assumes "raw = pre @ items_bytes (dynamic_items a v ! 0) @ rest" "length raw < 2 ^ 32"
  shows "decode_callchain a raw (length pre, r) = take_items (dynamic_items a v ! 0) (length pre, r)"
proof (cases "has_format a PERF_SAMPLE_CALLCHAIN")
  case True
  let ?n = "length (sv_ips v)"
  have "?n * 8 < 2 ^ 32" using assms True by (simp add: dynamic_items_def Let_def sized_items_bytes)
  then have "unat (of_nat ?n :: u64) = ?n" "usize_mul ?n 8 = Some (8 * ?n)" by (simp_all add: small_word usize_mul_def)
  then show ?thesis
    using assms(1) True
    by (simp add: decode_callchain_def dynamic_items_def Let_def take_sized sized_items_bytes)
qed (simp add: decode_callchain_def dynamic_items_def Let_def take_sized)

lemma decode_raw_items:
  assumes "raw = pre @ items_bytes (dynamic_items a v ! 1) @ rest" "length raw < 2 ^ 32" "sample_ok a v"
  shows "decode_raw a raw (length pre, r) = do {
     x \<leftarrow> take_items (dynamic_items a v ! 1) (length pre, r);
     Ret (if has_format a PERF_SAMPLE_RAW then Some (unat (u16_of (take 2 (sv_raw v)))) else None, x)
   }"
proof (cases "has_format a PERF_SAMPLE_RAW")
  case True
  let ?n = "length (sv_raw v)" and ?k = "length pre + 4"
  have raw: "raw = pre @ u32_bytes (of_nat ?n) @ sv_raw v @ raw_padding (sv_raw v) @ rest"
    using assms(1) True by (simp add: dynamic_items_def Let_def sized_items_bytes plain_def item_bytes_def)
  then have n: "?k + ?n < 2 ^ 32" "unat (of_nat ?n :: u32) = ?n" using assms(2) by (simp_all add: small_word)
  have "2 \<le> ?n" using assms(3) by (simp add: sample_ok_def)
  then have "data_u16 raw ?k = Some (u16_of (take 2 (sv_raw v)))"
    by (simp add: data_u16_def raw subslice_def)
  moreover have "data_u32 raw (length pre) = Some (of_nat ?n)" unfolding raw by simp
  moreover have "usize_add (length pre) 4 = Some ?k" using n(1) by (simp add: usize_add_def)
  ultimately show ?thesis
    using True n(2)
    by (simp add: decode_raw_def dynamic_items_def Let_def take_items_append take_sized plain_def Option.bind_assoc
        take_field_def raw_padding_def)
next
  case False
  then show ?thesis
    by (simp add: decode_raw_def dynamic_items_def Let_def take_items_append take_sized plain_def Option.bind_assoc
        take_field_def)
qed

lemma decode_branches_items:
  assumes "raw = pre @ items_bytes (dynamic_items a v ! 2) @ rest" "length raw < 2 ^ 32" "sample_ok a v"
  shows "decode_branches a raw (length pre, r) = take_items (dynamic_items a v ! 2) (length pre, r)"
proof (cases "has_format a PERF_SAMPLE_BRANCH_STACK")
  case True
  let ?n = "length (sv_branches v)"
  have "?n < 2 ^ 32" using assms True by (simp add: dynamic_items_def Let_def sized_items_bytes)
  moreover have n: "?n div 24 * 24 = ?n" using assms(3) by (simp add: sample_ok_def)
  ultimately have "?n div 24 < 2 ^ 32" "usize_mul (?n div 24) 24 = Some ?n" by (simp_all add: usize_mul_def)
  then show ?thesis
    using assms(1) True
    by (simp add: decode_branches_def dynamic_items_def Let_def take_sized sized_items_bytes small_word)
qed (simp add: decode_branches_def dynamic_items_def Let_def take_sized)

lemma count_ones_le: "count_ones w \<le> 64"
  using length_filter_le [of "bit w" "[0..<64]"] by (simp add: count_ones_def)

lemma decode_regs_items:
  assumes "raw = pre @ items_bytes (dynamic_items a v ! 3) @ rest" "sample_ok a v"
  shows "decode_regs a raw (length pre, r) = take_items (dynamic_items a v ! 3) (length pre, r)"
proof (cases "has_format a PERF_SAMPLE_REGS_USER")
  case True
  let ?n = "count_ones (sample_regs_user a)" and ?per = "unat (sv_regs_abi v) * 4"
  have "?per \<le> 8" "?n * ?per = 8 * length (sv_regs v)" using assms(2) by (auto simp: sample_ok_def)
  then have "usize_mul (unat (sv_regs_abi v)) 4 = Some ?per" "usize_mul ?n ?per = Some (8 * length (sv_regs v))"
    using count_ones_le [of "sample_regs_user a"] assms(2) by (auto simp: usize_mul_def sample_ok_def)
  then show ?thesis
    using assms(1) True
    by (simp add: decode_regs_def dynamic_items_def Let_def take_sized sized_items_bytes)
qed (simp add: decode_regs_def dynamic_items_def Let_def take_sized)

lemma decode_stack_items:
  assumes "raw = pre @ items_bytes (dynamic_items a v ! 4) @ rest" "length raw < 2 ^ 32" "sample_ok a v"
  shows "decode_stack a raw (length pre, r) = take_items (dynamic_items a v ! 4) (length pre, r)"
proof (cases "has_format a PERF_SAMPLE_STACK_USER")
  case True
  let ?n = "length (sv_stack v)" and ?d = "unat (sv_dyn_size v)" and ?k = "length pre + 8"
  have d: "?d \<le> ?n" using assms(3) by (simp add: sample_ok_def)
  have raw: "raw = pre @ u64_bytes (of_nat ?n) @ sv_stack v @ opt (sv_stack v \<noteq> []) (u64_bytes (sv_dyn_size v)) @ rest"
    using assms(1) True by (auto simp add: dynamic_items_def Let_def plain_def item_bytes_def)
  then have n: "?k + ?n < 2 ^ 32" "unat (of_nat ?n :: u64) = ?n" using assms(2) by (simp_all add: small_word)
  have size: "data_u64 raw (length pre) = Some (of_nat ?n)" unfolding raw by simp
  show ?thesis
  proof (cases "sv_stack v = []")
    case empty: True
    then show ?thesis
      using True size n d
      by (simp add: decode_stack_def dynamic_items_def Let_def plain_def take_field_def usize_add_def)
  next
    case False
    have "raw = (pre @ u64_bytes (of_nat ?n) @ sv_stack v) @ u64_bytes (sv_dyn_size v) @ rest" using raw False by simp
    then have "data_u64 raw (length (pre @ u64_bytes (of_nat ?n) @ sv_stack v)) = Some (sv_dyn_size v)"
      using data_u64_at by metis
    then have "data_u64 raw (?k + ?n) = Some (sv_dyn_size v)" by (simp add: ac_simps)
    moreover have "usize_add ?k ?d = Some (?k + ?d)" "usize_add (length pre) 8 = Some ?k" "usize_add ?k ?n = Some (?k + ?n)"
      "usize_add (?k + ?n) 8 = Some (?k + ?n + 8)" "usize_add (?k + ?d) (?n - ?d + 8) = Some (?k + ?n + 8)"
      using n(1) d by (simp_all add: usize_add_def)
    ultimately show ?thesis
      using True size n(2) d False
      by (simp add: decode_stack_def dynamic_items_def Let_def plain_def take_field_def min_absorb2)
  qed
next
  case False
  then show ?thesis
    by (simp add: decode_stack_def dynamic_items_def Let_def plain_def take_field_def)
qed

lemma decode_cgroup_items:
  assumes "decodable a"
  shows "decode_cgroup a x = take_items (dynamic_items a v ! 5) x"
  using assms take_field_same [of sr_cgroup_update 8 0]
  by (simp add: decode_cgroup_def dynamic_items_def Let_def decodable_def take_items_fun)

section \<open>The whole sample\<close>

definition all_items :: "perf_event_attr \<Rightarrow> sample_values \<Rightarrow> item list" where
  "all_items a v = fixed_items a v @ concat (dynamic_items a v)"

lemma place_items_append:
  "place_items (xs @ ys) pre r = place_items ys (pre @ items_bytes xs) (place_items xs pre r)"
  by (induction xs arbitrary: pre r) simp_all

lemma all_items_split:
  "all_items a v = fixed_items a v @ dynamic_items a v ! 0 @ dynamic_items a v ! 1 @ dynamic_items a v ! 2 @
     dynamic_items a v ! 3 @ dynamic_items a v ! 4 @ dynamic_items a v ! 5"
  by (simp add: all_items_def dynamic_items_def Let_def)

lemma all_items_independent: "independent (all_items a v)"
  by (simp add: independent_def all_items_def fixed_items_def dynamic_items_def Let_def sized_items_def plain_def)

lemma decode_sample_items:
  assumes raw: "raw = hdr @ sample_bytes a v @ rest" and hdr: "length hdr = data_offset" and len: "length raw < 2 ^ 32"
    and ok: "sample_ok a v" "decodable a"
  shows "decode_sample a raw r =
    Some (if has_format a PERF_SAMPLE_RAW then Some (unat (u16_of (take 2 (sv_raw v)))) else None,
      place_items (all_items a v) hdr r)"
proof -
  define D where "D i = dynamic_items a v ! i" for i
  define q0 where "q0 = hdr @ items_bytes (fixed_items a v)"
  define q1 where "q1 = q0 @ items_bytes (D 0)"
  define q2 where "q2 = q1 @ items_bytes (D 1)"
  define q3 where "q3 = q2 @ items_bytes (D 2)"
  define q4 where "q4 = q3 @ items_bytes (D 3)"
  define q5 where "q5 = q4 @ items_bytes (D 4)"
  have bytes: "raw = hdr @ items_bytes (fixed_items a v) @ items_bytes (D 0) @ items_bytes (D 1) @ items_bytes (D 2) @
      items_bytes (D 3) @ items_bytes (D 4) @ items_bytes (D 5) @ rest"
    using raw sample_bytes_items [of a v] all_items_split [of a v] by (simp add: D_def all_items_def)
  have step: "take_items its (length q, x) = Some (length (q @ items_bytes its), place_items its q x)"
    if "raw = q @ items_bytes its @ y" for q its x y
    using that len by (rule take_items_Some)
  have r1: "raw = q0 @ items_bytes (D 0) @ (items_bytes (D 1) @ items_bytes (D 2) @ items_bytes (D 3) @ items_bytes (D 4) @
      items_bytes (D 5) @ rest)" unfolding q0_def using bytes by simp
  then have r2: "raw = q1 @ items_bytes (D 1) @ (items_bytes (D 2) @ items_bytes (D 3) @ items_bytes (D 4) @
      items_bytes (D 5) @ rest)" unfolding q1_def by simp
  then have r3: "raw = q2 @ items_bytes (D 2) @ (items_bytes (D 3) @ items_bytes (D 4) @ items_bytes (D 5) @ rest)"
    unfolding q2_def by simp
  then have r4: "raw = q3 @ items_bytes (D 3) @ (items_bytes (D 4) @ items_bytes (D 5) @ rest)" unfolding q3_def by simp
  then have r5: "raw = q4 @ items_bytes (D 4) @ (items_bytes (D 5) @ rest)" unfolding q4_def by simp
  then have r6: "raw = q5 @ items_bytes (D 5) @ rest" unfolding q5_def by simp
  have read: "\<not> has_format a PERF_SAMPLE_READ" using ok(2) by (simp add: decodable_def)
  note steps = step [OF bytes] step [OF r1] step [OF r2] step [OF r3] step [OF r4] step [OF r5] step [OF r6]
  note folds = q0_def [symmetric] q1_def [symmetric] q2_def [symmetric] q3_def [symmetric] q4_def [symmetric] q5_def [symmetric]
  have "decode_fixed a (data_offset, r) = Some (length q0, place_items (fixed_items a v) hdr r)"
    using steps(1) [of r] decode_fixed_items [OF read, of _ v] hdr by (simp add: q0_def)
  moreover have "decode_callchain a raw (length q0, x) = Some (length q1, place_items (D 0) q0 x)" for x
    using steps(2) [of x] decode_callchain_items [OF r1 [unfolded D_def] len] by (simp add: q1_def D_def)
  moreover have "decode_raw a raw (length q1, x) = Some (if has_format a PERF_SAMPLE_RAW
      then Some (unat (u16_of (take 2 (sv_raw v)))) else None, length q2, place_items (D 1) q1 x)" for x
    using steps(3) [of x] decode_raw_items [OF r2 [unfolded D_def] len ok(1)] by (simp add: q2_def D_def)
  moreover have "decode_branches a raw (length q2, x) = Some (length q3, place_items (D 2) q2 x)" for x
    using steps(4) [of x] decode_branches_items [OF r3 [unfolded D_def] len ok(1)] by (simp add: q3_def D_def)
  moreover have "decode_regs a raw (length q3, x) = Some (length q4, place_items (D 3) q3 x)" for x
    using steps(5) [of x] decode_regs_items [OF r4 [unfolded D_def] ok(1)] by (simp add: q4_def D_def)
  moreover have "decode_stack a raw (length q4, x) = Some (length q5, place_items (D 4) q4 x)" for x
    using steps(6) [of x] decode_stack_items [OF r5 [unfolded D_def] len ok(1)] by (simp add: q5_def D_def)
  moreover have "decode_cgroup a (length q5, x) = Some (length (q5 @ items_bytes (D 5)), place_items (D 5) q5 x)" for x
    using steps(7) [of x] decode_cgroup_items [OF ok(2)] by (simp add: D_def)
  ultimately have "decode_sample a raw r = Some (if has_format a PERF_SAMPLE_RAW
      then Some (unat (u16_of (take 2 (sv_raw v)))) else None,
      place_items (D 5) q5 (place_items (D 4) q4 (place_items (D 3) q3 (place_items (D 2) q2 (place_items (D 1) q1
        (place_items (D 0) q0 (place_items (fixed_items a v) hdr r)))))))"
    by (simp add: decode_sample_def)
  moreover have "place_items (all_items a v) hdr r = place_items (D 5) q5 (place_items (D 4) q4 (place_items (D 3) q3
      (place_items (D 2) q2 (place_items (D 1) q1 (place_items (D 0) q0 (place_items (fixed_items a v) hdr r))))))"
    unfolding all_items_split place_items_append D_def [symmetric] folds by (rule refl)
  ultimately show ?thesis by simp
qed

lemma all_items_get:
  assumes "raw = hdr @ sample_bytes a v @ rest" "length raw < 2 ^ 32"
    "it \<in> set (all_items a v)" "it_kept it"
  shows "field_ref_get_data (it_get it (place_items (all_items a v) hdr r)) raw = Some (item_bytes it)"
  using assms sample_bytes_items [of a v] all_items_independent
  by (intro place_items_get) (simp_all add: all_items_def)

text \<open>Every field reference designates its field of the sample: the bytes of those the attributes ask for
  (the later of the two ids when both are there, the part of the stack that was read), and nothing
  for the others.\<close>

definition located :: "perf_event_attr \<Rightarrow> sample_values \<Rightarrow> byte list \<Rightarrow> session_refs \<Rightarrow> bool" where
  "located a v raw r' \<longleftrightarrow>
    field_ref_get_data (sr_ident r') raw = Some (if has_format a PERF_SAMPLE_ID then u64_bytes (sv_id v)
      else opt (has_format a PERF_SAMPLE_IDENTIFIER) (u64_bytes (sv_identifier v))) \<and>
    field_ref_get_data (sr_ip r') raw = Some (opt (has_format a PERF_SAMPLE_IP) (u64_bytes (sv_ip v))) \<and>
    field_ref_get_data (sr_pid r') raw = Some (opt (has_format a PERF_SAMPLE_TID) (u32_bytes (sv_pid v))) \<and>
    field_ref_get_data (sr_tid r') raw = Some (opt (has_format a PERF_SAMPLE_TID) (u32_bytes (sv_tid v))) \<and>
    field_ref_get_data (sr_time r') raw = Some (opt (has_format a PERF_SAMPLE_TIME) (u64_bytes (sv_time v))) \<and>
    field_ref_get_data (sr_address r') raw = Some (opt (has_format a PERF_SAMPLE_ADDR) (u64_bytes (sv_addr v))) \<and>
    field_ref_get_data (sr_stream_id r') raw = Some (opt (has_format a PERF_SAMPLE_STREAM_ID) (u64_bytes (sv_stream_id v))) \<and>
    field_ref_get_data (sr_cpu r') raw = Some (opt (has_format a PERF_SAMPLE_CPU) (u64_bytes (sv_cpu v))) \<and>
    field_ref_get_data (sr_period r') raw = Some (opt (has_format a PERF_SAMPLE_PERIOD) (u64_bytes (sv_period v))) \<and>
    field_ref_get_data (sr_callchain r') raw = Some (opt (has_format a PERF_SAMPLE_CALLCHAIN) (words_bytes (sv_ips v))) \<and>
    field_ref_get_data (sr_raw r') raw = Some (opt (has_format a PERF_SAMPLE_RAW) (sv_raw v)) \<and>
    field_ref_get_data (sr_branch_stack r') raw = Some (opt (has_format a PERF_SAMPLE_BRANCH_STACK) (sv_branches v)) \<and>
    field_ref_get_data (sr_regs_user r') raw = Some (opt (has_format a PERF_SAMPLE_REGS_USER) (words_bytes (sv_regs v))) \<and>
    field_ref_get_data (sr_stack_user r') raw =
      Some (opt (has_format a PERF_SAMPLE_STACK_USER) (take (unat (sv_dyn_size v)) (sv_stack v))) \<and>
    field_ref_get_data (sr_cgroup r') raw = Some (opt (has_format a PERF_SAMPLE_CGROUP) (u64_bytes (sv_cgroup v)))"

lemma sample_located:
  assumes "raw = hdr @ sample_bytes a v @ rest" "length raw < 2 ^ 32"
  shows "located a v raw (place_items (all_items a v) hdr r)"
proof -
  define r' where "r' = place_items (all_items a v) hdr r"
  have "\<forall>it \<in> set (all_items a v). it_kept it \<longrightarrow> field_ref_get_data (it_get it r') raw = Some (item_bytes it)"
    unfolding r'_def using all_items_get [OF assms] by blast
  then have kept: "\<forall>it \<in> set (fixed_items a v). it_kept it \<longrightarrow> field_ref_get_data (it_get it r') raw = Some (item_bytes it)"
    "\<forall>it \<in> set (concat (dynamic_items a v)). it_kept it \<longrightarrow> field_ref_get_data (it_get it r') raw = Some (item_bytes it)"
    by (simp_all add: all_items_def)
  have ids: "field_ref_get_data (sr_ident r') raw = Some (if has_format a PERF_SAMPLE_ID then u64_bytes (sv_id v)
      else opt (has_format a PERF_SAMPLE_IDENTIFIER) (u64_bytes (sv_identifier v)))"
    using kept(1) by (cases "has_format a PERF_SAMPLE_ID") (simp_all add: fixed_items_def Let_def item_bytes_def)
  have stack: "opt (has_format a PERF_SAMPLE_STACK_USER \<and> sv_stack v \<noteq> []) (take (unat (sv_dyn_size v)) (sv_stack v)) =
      opt (has_format a PERF_SAMPLE_STACK_USER) (take (unat (sv_dyn_size v)) (sv_stack v))" by simp
  note kept [unfolded fixed_items_def dynamic_items_def Let_def sized_items_def plain_def, simplified]
  then show ?thesis
    unfolding located_def r'_def [symmetric]
    by (intro conjI) (simp_all add: ids item_bytes_simp stack split del: if_split)
qed


text \<open>The attributes the builders produce are ones the parser knows.\<close>

lemma built_formats: "built a \<Longrightarrow> \<forall>n \<in> {4, 14, 15, 17, 18, 19}. \<not> bit (sample_type a) n"
  by (induction rule: built.induct)
    (simp_all only: ball_simps for_kernel_def for_cswitches_def for_soft_page_faults_def
      for_hard_page_faults_def for_profiling_def for_tracepoint_def for_bpf_def with_callchain_data_def
      without_user_callchain_data_def without_kernel_callchain_data_def with_ip_def
      with_user_regs_data_def with_user_stack_data_def with_cgroup_data_def set_wakeup_watermark_def
      with_executable_mmap_records_def with_all_mmap_records_def with_comm_records_def
      with_task_records_def with_cswitch_records_def build_tracepoint_def without_callstack_def
      common_attributes_def perf_event_attr.simps perf_sample_defs bit_or_iff bit_and_iff bit_not_iff bit_push_one
      if_split simp_thms,
     auto simp: bit_or_iff bit_and_iff bit_not_iff bit_push_one simp del: push_bit_of_1)

lemma built_decodable:
  assumes "built a"
  shows "decodable a"
proof -
  note bits = built_formats [OF assms]
  have "\<not> has_format a PERF_SAMPLE_READ"
    unfolding PERF_SAMPLE_READ_def using bits has_bits(2) [of 4 a] by simp
  moreover have "sample_type a AND UNPARSED_SAMPLE_FIELDS_BEFORE_CGROUP = 0"
  proof (rule bit_eqI)
    fix n
    show "bit (sample_type a AND UNPARSED_SAMPLE_FIELDS_BEFORE_CGROUP) n = bit 0 n"
      using bits
      by (auto simp: UNPARSED_SAMPLE_FIELDS_BEFORE_CGROUP_def PERF_SAMPLE_WEIGHT_def PERF_SAMPLE_DATA_SRC_def
          PERF_SAMPLE_TRANSACTION_def PERF_SAMPLE_REGS_INTR_def PERF_SAMPLE_PHYS_ADDR_def bit_and_iff bit_or_iff
          bit_push_one simp del: push_bit_of_1)
  qed
  ultimately show ?thesis by (simp add: decodable_def)
qed

text \<open>A profiling sample with a callchain of two frames.\<close>

definition demo_attr :: perf_event_attr where
  "demo_attr = with_callchain_data (for_profiling 1000)"

definition demo_values :: sample_values where
  "demo_values = \<lparr>sv_identifier = 9, sv_ip = 4096, sv_pid = 3, sv_tid = 4, sv_time = 55, sv_addr = 0, sv_id = 0,
     sv_stream_id = 0, sv_cpu = 0, sv_period = 0, sv_ips = [4096, 8192], sv_raw = [0, 0], sv_branches = [],
     sv_regs_abi = 0, sv_regs = [], sv_stack = [], sv_dyn_size = 0, sv_cgroup = 0\<rparr>"

lemma demo_attr_built: "built demo_attr"
  unfolding demo_attr_def by (intro built.intros)

lemma demo_values_ok: "sample_ok a demo_values"
  by (simp add: sample_ok_def demo_values_def)

lemma demo_formats:
  "has_format demo_attr PERF_SAMPLE_CALLCHAIN" "has_format demo_attr PERF_SAMPLE_TIME" "\<not> has_format demo_attr PERF_SAMPLE_RAW"
  by (simp_all add: demo_attr_def with_callchain_data_def for_profiling_def common_attributes_def has_format_def
      perf_sample_defs)

lemma sample_bytes_short: "length (sample_bytes a demo_values) < 300"
proof -
  have "align_to_perf_record 6 \<le> 13" using align_props [of 6] by simp
  then have "length (sample_bytes a demo_values) \<le>
      8 + (8 + (8 + (8 + (8 + (8 + (8 + (8 + (8 + (24 + (14 + (8 + (8 + (8 + 8)))))))))))))"
    unfolding sample_bytes_def length_append
    by (intro add_mono) (auto simp: demo_values_def callchain_bytes_def raw_bytes_def branch_bytes_def regs_bytes_def
        stack_bytes_def raw_padding_def)
  then show ?thesis by simp
qed


text \<open>The registers of a 32-bit thread also take eight bytes each in the layout; the parser takes four,
  so the field holds half of them and everything after is read from the middle of the registers.\<close>

theorem regs_32bit_misplaced:
  assumes "has_format a PERF_SAMPLE_REGS_USER" "sv_regs_abi v = 1" "length (sv_regs v) = count_ones (sample_regs_user a)"
    "length pre < 2 ^ 32"
  shows "\<exists>r'. decode_regs a (pre @ regs_bytes v @ rest) (length pre, r) =
    Some (length (pre @ regs_bytes v) - 4 * count_ones (sample_regs_user a), r')"
  using assms count_ones_le [of "sample_regs_user a"]
  by (simp add: decode_regs_def regs_bytes_def usize_mul_def usize_add_def take_field_def)

section \<open>The trailer of a record that is not a sample\<close>

record trailer_values =
  tv_pid :: u32
  tv_tid :: u32
  tv_time :: u64
  tv_id :: u64
  tv_stream_id :: u64
  tv_cpu :: u64
  tv_identifier :: u64

definition trailer_bytes :: "perf_event_attr \<Rightarrow> trailer_values \<Rightarrow> byte list" where
  "trailer_bytes a t = sample_id_bytes a (tv_pid t) (tv_tid t) (tv_time t) (tv_id t) (tv_stream_id t) (tv_cpu t) (tv_identifier t)"

definition trailer_fields :: "perf_event_attr \<Rightarrow> trailer_values \<Rightarrow> item list" where
  "trailer_fields a t = (let has = has_format a in
    [\<lparr>it_kept = True, it_present = has PERF_SAMPLE_TID, it_get = sr_pid, it_upd = sr_pid_update, it_bytes = u32_bytes (tv_pid t)\<rparr>,
     \<lparr>it_kept = True, it_present = has PERF_SAMPLE_TID, it_get = sr_tid, it_upd = sr_tid_update, it_bytes = u32_bytes (tv_tid t)\<rparr>,
     \<lparr>it_kept = True, it_present = has PERF_SAMPLE_TIME, it_get = sr_time, it_upd = sr_time_update, it_bytes = u64_bytes (tv_time t)\<rparr>,
     \<lparr>it_kept = \<not> has PERF_SAMPLE_IDENTIFIER, it_present = has PERF_SAMPLE_ID, it_get = sr_ident, it_upd = sr_ident_update,
       it_bytes = u64_bytes (tv_id t)\<rparr>,
     \<lparr>it_kept = True, it_present = has PERF_SAMPLE_STREAM_ID, it_get = sr_stream_id, it_upd = sr_stream_id_update,
       it_bytes = u64_bytes (tv_stream_id t)\<rparr>,
     \<lparr>it_kept = True, it_present = has PERF_SAMPLE_CPU, it_get = sr_cpu, it_upd = sr_cpu_update, it_bytes = u64_bytes (tv_cpu t)\<rparr>])"

definition identifier_item :: "trailer_values \<Rightarrow> item" where
  "identifier_item t = \<lparr>it_kept = True, it_present = True, it_get = sr_ident, it_upd = sr_ident_update,
     it_bytes = u64_bytes (tv_identifier t)\<rparr>"

definition trailer_items :: "perf_event_attr \<Rightarrow> trailer_values \<Rightarrow> item list" where
  "trailer_items a t = trailer_fields a t @ (if has_format a PERF_SAMPLE_IDENTIFIER then [identifier_item t] else [])"

lemma trailer_bytes_items: "trailer_bytes a t = items_bytes (trailer_items a t)"
  by (simp add: trailer_bytes_def sample_id_bytes_def trailer_items_def trailer_fields_def identifier_item_def Let_def
      item_bytes_simp opt_bytes_def)

text \<open>The offsets, one format at a time.\<close>

definition add_offset ::
  "bool \<Rightarrow> (nat \<Rightarrow> sample_id_offsets \<Rightarrow> sample_id_offsets) \<Rightarrow> sample_id_offsets \<Rightarrow> sample_id_offsets" where
  "add_offset b upd x = (if b then (upd (off_size x) x)\<lparr>off_size := off_size x + 8\<rparr> else x)"

lemma non_sampled_steps:
  "non_sampled_id_offsets a = (if \<not> has_flag a FLAG_SAMPLE_ID_ALL then None else Some (
     add_offset (has_format a PERF_SAMPLE_IDENTIFIER) (\<lambda>n x. x\<lparr>off_identifier := Some n\<rparr>) (
     add_offset (has_format a PERF_SAMPLE_CPU) (\<lambda>n x. x\<lparr>off_cpu := Some n\<rparr>) (
     add_offset (has_format a PERF_SAMPLE_STREAM_ID) (\<lambda>n x. x\<lparr>off_stream_id := Some n\<rparr>) (
     add_offset (has_format a PERF_SAMPLE_ID) (\<lambda>n x. x\<lparr>off_id := Some n\<rparr>) (
     add_offset (has_format a PERF_SAMPLE_TIME) (\<lambda>n x. x\<lparr>off_time := Some n\<rparr>) (
     add_offset (has_format a PERF_SAMPLE_TID) (\<lambda>n x. x\<lparr>off_pid := Some n, off_tid := Some (n + 4)\<rparr>) offsets_default)))))))"
  unfolding non_sampled_id_offsets_def add_offset_def Let_def by (rule refl)

lemma add_offset_keeps:
  assumes "\<And>n x. sel (upd n x) = sel x" "\<And>x n. sel (x\<lparr>off_size := n\<rparr>) = sel x"
  shows "sel (add_offset b upd x) = sel x"
  using assms by (simp add: add_offset_def)

lemma trailer_offsets:
  "non_sampled_id_offsets a = None \<longleftrightarrow> \<not> has_flag a FLAG_SAMPLE_ID_ALL"
  "non_sampled_id_offsets a = Some off \<Longrightarrow>
     (off_pid off \<noteq> None) = has_format a PERF_SAMPLE_TID \<and> (off_tid off \<noteq> None) = has_format a PERF_SAMPLE_TID \<and>
     (off_time off \<noteq> None) = has_format a PERF_SAMPLE_TIME \<and> (off_id off \<noteq> None) = has_format a PERF_SAMPLE_ID \<and>
     (off_stream_id off \<noteq> None) = has_format a PERF_SAMPLE_STREAM_ID \<and> (off_cpu off \<noteq> None) = has_format a PERF_SAMPLE_CPU \<and>
     (off_identifier off \<noteq> None) = has_format a PERF_SAMPLE_IDENTIFIER \<and> off_size off = length (trailer_bytes a t)"
proof -
  show "non_sampled_id_offsets a = None \<longleftrightarrow> \<not> has_flag a FLAG_SAMPLE_ID_ALL"
    by (simp add: non_sampled_steps)
  note keeps = add_offset_keeps [of off_pid] add_offset_keeps [of off_tid] add_offset_keeps [of off_time]
    add_offset_keeps [of off_id] add_offset_keeps [of off_stream_id] add_offset_keeps [of off_cpu]
    add_offset_keeps [of off_identifier]
  have sz: "off_size (add_offset b upd x) = off_size x + (if b then 8 else 0)" for b upd x
    by (simp add: add_offset_def)
  have len: "length (opt b xs) = (if b then length xs else 0)" for b and xs :: "byte list" by simp
  have hit: "sel (add_offset b upd x) = None \<longleftrightarrow> \<not> b"
    if "\<And>n y. sel ((upd n y)\<lparr>off_size := n + 8\<rparr>) \<noteq> None" "sel x = None"
    for sel :: "sample_id_offsets \<Rightarrow> nat option" and b upd x
    using that by (simp add: add_offset_def)
  note hits = hit [of off_pid] hit [of off_tid] hit [of off_time] hit [of off_id] hit [of off_stream_id]
    hit [of off_cpu] hit [of off_identifier]
  assume some: "non_sampled_id_offsets a = Some off"
  define x1 where "x1 = add_offset (has_format a PERF_SAMPLE_TID)
    (\<lambda>n x. x\<lparr>off_pid := Some n, off_tid := Some (n + 4)\<rparr>) offsets_default"
  define x2 where "x2 = add_offset (has_format a PERF_SAMPLE_TIME) (\<lambda>n x. x\<lparr>off_time := Some n\<rparr>) x1"
  define x3 where "x3 = add_offset (has_format a PERF_SAMPLE_ID) (\<lambda>n x. x\<lparr>off_id := Some n\<rparr>) x2"
  define x4 where "x4 = add_offset (has_format a PERF_SAMPLE_STREAM_ID) (\<lambda>n x. x\<lparr>off_stream_id := Some n\<rparr>) x3"
  define x5 where "x5 = add_offset (has_format a PERF_SAMPLE_CPU) (\<lambda>n x. x\<lparr>off_cpu := Some n\<rparr>) x4"
  define x6 where "x6 = add_offset (has_format a PERF_SAMPLE_IDENTIFIER) (\<lambda>n x. x\<lparr>off_identifier := Some n\<rparr>) x5"
  have off: "off = x6"
    using some unfolding non_sampled_steps x1_def [symmetric] x2_def [symmetric] x3_def [symmetric] x4_def [symmetric]
      x5_def [symmetric] x6_def [symmetric] by (simp split: if_split_asm)
  have "off_pid x1 = None \<longleftrightarrow> \<not> has_format a PERF_SAMPLE_TID" "off_tid x1 = None \<longleftrightarrow> \<not> has_format a PERF_SAMPLE_TID"
    "off_time x1 = None" "off_id x1 = None" "off_stream_id x1 = None" "off_cpu x1 = None" "off_identifier x1 = None"
    by (simp_all add: x1_def add_offset_def offsets_default_def)
  then show "(off_pid off \<noteq> None) = has_format a PERF_SAMPLE_TID \<and> (off_tid off \<noteq> None) = has_format a PERF_SAMPLE_TID \<and>
     (off_time off \<noteq> None) = has_format a PERF_SAMPLE_TIME \<and> (off_id off \<noteq> None) = has_format a PERF_SAMPLE_ID \<and>
     (off_stream_id off \<noteq> None) = has_format a PERF_SAMPLE_STREAM_ID \<and> (off_cpu off \<noteq> None) = has_format a PERF_SAMPLE_CPU \<and>
     (off_identifier off \<noteq> None) = has_format a PERF_SAMPLE_IDENTIFIER \<and> off_size off = length (trailer_bytes a t)"
    unfolding off
    by (simp add: x6_def x5_def x4_def x3_def x2_def keeps hits del: not_None_eq)
      (simp add: x1_def sz len trailer_bytes_def sample_id_bytes_def opt_bytes_def offsets_default_def split del: if_split cong: if_cong)
qed

lemma trailer_independent: "independent (trailer_items a t)"
  by (simp add: independent_def trailer_items_def trailer_fields_def identifier_item_def Let_def)

lemma decode_trailer_Some:
  assumes "has_flag a FLAG_SAMPLE_ID_ALL" "raw = pre @ trailer_bytes a t" "length raw < 2 ^ 32"
  shows "decode_trailer a (length raw) r = Some (place_items (trailer_items a t) pre r)"
proof -
  let ?has = "has_format a PERF_SAMPLE_IDENTIFIER"
  obtain off where off: "non_sampled_id_offsets a = Some off" using assms(1) trailer_offsets(1) by fastforce
  note o = trailer_offsets(2) [OF off, of t]
  have "sub_usize (length raw) (off_size off) = Some (length pre)" using assms(2) o by (simp add: sub_usize_def)
  then have trailer: "decode_trailer a (length raw) r = do {
      x \<leftarrow> take_items (trailer_fields a t) (length pre, r);
      (if ?has then Ret (sr_ident_update (\<lambda>f. snd (field_ref_update f (fst x) 8)) (snd x)) else Ret (snd x)) }"
    using off o unfolding trailer_fields_def Let_def
    by (simp add: decode_trailer_def take_items_fun Option.bind_assoc)
  have all: "take_items (trailer_items a t) (length pre, r) =
      Some (length (pre @ items_bytes (trailer_items a t)), place_items (trailer_items a t) pre r)"
    using assms(2,3) by (intro take_items_Some [of raw _ _ "[]"]) (simp_all add: trailer_bytes_items)
  show ?thesis
  proof (cases ?has)
    case True
    from all True obtain x where x: "take_items (trailer_fields a t) (length pre, r) = Some x"
      "take_field True sr_ident_update 8 x =
        Some (length (pre @ items_bytes (trailer_items a t)), place_items (trailer_items a t) pre r)"
      by (auto simp: trailer_items_def take_items_append take_items_fun identifier_item_def bind_eq_Some_conv)
    from x(2) have "place_items (trailer_items a t) pre r =
        sr_ident_update (\<lambda>f. snd (field_ref_update f (fst x) 8)) (snd x)"
      by (auto simp: take_field_def bind_eq_Some_conv)
    then show ?thesis unfolding trailer by (simp add: x(1) True)
  next
    case False
    then have "trailer_items a t = trailer_fields a t" by (simp add: trailer_items_def)
    then show ?thesis unfolding trailer using all False by simp
  qed
qed

section \<open>A record reaches its event\<close>

text \<open>The session after one event was processed on a record whose fields are at \<open>r\<close>: the callbacks
  have run on the event's data, their errors are logged under its name, nothing else has changed.\<close>

definition after_event ::
  "(session_refs \<times> 's) event \<Rightarrow> byte list \<Rightarrow> byte list \<Rightarrow> session_refs \<Rightarrow> 's session \<Rightarrow> 's session" where
  "after_event e full_data event_data r ss =
     (let (errors, r', s) = event_process e full_data event_data [] (r, ps_state ss)
      in ss\<lparr>ps_refs := r', ps_state := s, ps_errors := [],
           ps_logged := ps_logged ss @ map (Pair (ev_name e)) errors\<rparr>)"

lemma process_with_after:
  "ps_errors ss = [] \<Longrightarrow> (process_with e full_data event_data (ss\<lparr>ps_refs := r\<rparr>))\<lparr>ps_errors := []\<rparr> =
     after_event e full_data event_data r ss"
  by (simp add: process_with_def after_event_def log_errors_def split: prod.split)

definition record_header :: "u32 \<Rightarrow> u16 \<Rightarrow> nat \<Rightarrow> byte list" where
  "record_header et mi n = u32_bytes et @ u16_bytes mi @ u16_bytes (of_nat n)"

lemma length_record_header [simp]: "length (record_header et mi n) = data_offset"
  by (simp add: record_header_def data_offset_def)

lemma header_of_record:
  "header_from_slice (record_header et mi n @ body) =
     Some \<lparr>entry_type = et, misc = mi, hdr_size = of_nat n, hdr_data = body\<rparr>"
  by (simp add: record_header_def header_from_slice_def subslice_def slice_from_def data_offset_def)

text \<open>C7. A tracepoint sample reaches its event: of all registered events exactly the one with the id in
  the sample's raw data runs, on the raw data and on fields located in this sample, its errors are
  logged under its name, and no other event, field of the session or logged error changes; a sample
  of an id no event has runs nothing.\<close>

theorem tracepoint_sample_delivered:
  assumes "decodable a" "sample_ok a v" "has_format a PERF_SAMPLE_RAW" "config a \<noteq> PERF_COUNT_SW_BPF_OUTPUT"
    "raw = record_header PERF_RECORD_SAMPLE mi n @ sample_bytes a v @ rest" "length raw < 2 ^ 32" "ps_errors ss = []"
  shows "\<exists>r. sr_ancillary r = \<lparr>an_cpu = cpu, an_attributes = a\<rparr> \<and>
    located a v raw r \<and>
    parse_record \<lparr>pd_ancillary = \<lparr>an_cpu = cpu, an_attributes = a\<rparr>, pd_raw = raw\<rparr> ss =
      Some (case ps_events ss (unat (u16_of (take 2 (sv_raw v)))) of
          Some e \<Rightarrow> after_event e raw (sv_raw v) r ss
        | None \<Rightarrow> ss\<lparr>ps_refs := r\<rparr>)"
proof -
  let ?anc = "\<lparr>an_cpu = cpu, an_attributes = a\<rparr>" and ?hdr = "record_header PERF_RECORD_SAMPLE mi n"
  define r where "r = place_items (all_items a v) ?hdr ((ps_refs ss)\<lparr>sr_ancillary := ?anc\<rparr>)"
  have dec: "decode_sample a raw ((ps_refs ss)\<lparr>sr_ancillary := ?anc\<rparr>) = Some (Some (unat (u16_of (take 2 (sv_raw v)))), r)"
    using decode_sample_items [OF assms(5) _ assms(6,2,1)] assms(3) by (simp add: r_def)
  have loc: "located a v raw r" unfolding r_def by (rule sample_located [OF assms(5,6)])
  then have raw_item: "field_ref_get_data (sr_raw r) raw = Some (sv_raw v)"
    using assms(3) by (simp add: located_def)
  have "sr_ancillary r = ?anc"
    unfolding r_def
    by (subst place_items_frame)
      (auto simp: all_items_def fixed_items_def dynamic_items_def Let_def sized_items_def plain_def split: if_splits)
  moreover have "parse_record \<lparr>pd_ancillary = ?anc, pd_raw = raw\<rparr> ss =
      Some (case ps_events ss (unat (u16_of (take 2 (sv_raw v)))) of
          Some e \<Rightarrow> after_event e raw (sv_raw v) r ss
        | None \<Rightarrow> ss\<lparr>ps_refs := r\<rparr>)"
    using dec raw_item assms(4,7) header_of_record [of PERF_RECORD_SAMPLE mi n "sample_bytes a v @ rest"]
    by (auto simp: parse_record_def assms(5) [symmetric] process_sample_def process_with_after split: option.split)
  ultimately show ?thesis using loc by blast
qed

text \<open>A session with one event, counting what it is shown.\<close>

definition demo_event :: "(session_refs \<times> byte list list) event" where
  "demo_event = add_callback (\<lambda>d (r, s). (Inr (), r, s @ [ed_event_data d])) (event_new 7 ''demo'')"

definition demo_session :: "byte list list session" where
  "demo_session = session_add_event demo_event (session_new [])"

definition raw_attr :: perf_event_attr where
  "raw_attr = build_tracepoint 7 for_tracepoint"

theorem tracepoint_sample_delivered_witness:
  "\<exists>ss. parse_record \<lparr>pd_ancillary = \<lparr>an_cpu = 0, an_attributes = raw_attr\<rparr>,
      pd_raw = record_header PERF_RECORD_SAMPLE 0 0 @ sample_bytes raw_attr (demo_values\<lparr>sv_raw := [7, 0, 1]\<rparr>)\<rparr> demo_session =
      Some ss \<and> ps_state ss = [[7, 0, 1]]"
proof -
  let ?v = "demo_values\<lparr>sv_raw := [7, 0, 1]\<rparr>" and ?raw = "record_header PERF_RECORD_SAMPLE 0 0 @ sample_bytes raw_attr (demo_values\<lparr>sv_raw := [7, 0, 1]\<rparr>)"
  have "built raw_attr" unfolding raw_attr_def by (intro built.intros)
  note dec = built_decodable [OF this]
  have ok: "sample_ok raw_attr ?v" by (simp add: sample_ok_def demo_values_def)
  have fmt: "has_format raw_attr PERF_SAMPLE_RAW" "config raw_attr \<noteq> PERF_COUNT_SW_BPF_OUTPUT"
    by (simp_all add: raw_attr_def build_tracepoint_def for_tracepoint_def common_attributes_def has_format_def
        perf_sample_defs PERF_COUNT_SW_BPF_OUTPUT_def)
  have "length (raw_padding [7, 0, 1]) < 8" using align_props(2) [of 7] by (simp add: raw_padding_def)
  then have "length (sample_bytes raw_attr ?v) \<le>
      8 + (8 + (8 + (8 + (8 + (8 + (8 + (8 + (8 + (24 + (15 + (8 + (8 + (8 + 8)))))))))))))"
    unfolding sample_bytes_def length_append
    by (intro add_mono) (auto simp: demo_values_def callchain_bytes_def raw_bytes_def branch_bytes_def regs_bytes_def
        stack_bytes_def)
  then have "length ?raw < 2 ^ 32" by (simp add: data_offset_def)
  moreover have "ps_errors demo_session = []" by (simp add: demo_session_def session_add_event_def session_new_def)
  moreover have "unat (u16_of (take 2 (sv_raw ?v))) = 7" by (simp add: u16_of_def)
  moreover have "ps_events demo_session 7 = Some demo_event"
    by (simp add: demo_session_def session_add_event_def demo_event_def add_callback_def event_new_def)
  ultimately obtain r where
    "parse_record \<lparr>pd_ancillary = \<lparr>an_cpu = 0, an_attributes = raw_attr\<rparr>, pd_raw = ?raw\<rparr> demo_session =
      Some (after_event demo_event ?raw [7, 0, 1] r demo_session)"
    using tracepoint_sample_delivered [OF dec ok fmt, of ?raw 0 0 "[]" demo_session 0] by (auto simp: demo_values_def)
  then show ?thesis
    by (simp add: after_event_def event_process_def demo_event_def add_callback_def event_new_def event_data_new_def
        demo_session_def session_add_event_def session_new_def)
qed

text \<open>C9. A record that is not a sample reaches its event: comm, exit, fork, mmap, lost, lost samples and
  cpu switch records run exactly the event of their kind, on everything after the header, with the
  fields of the trailer located as the attributes ask for; a record of any other kind runs nothing.\<close>

theorem fixed_record_delivered:
  assumes "has_flag a FLAG_SAMPLE_ID_ALL" "et \<noteq> PERF_RECORD_SAMPLE"
    "raw = record_header et mi (length raw) @ body @ trailer_bytes a t" "length raw < 2 ^ 16" "ps_errors ss = []"
  shows "\<exists>r. sr_ancillary r = \<lparr>an_cpu = cpu, an_attributes = a\<rparr> \<and>
    field_ref_get_data (sr_pid r) raw = Some (opt (has_format a PERF_SAMPLE_TID) (u32_bytes (tv_pid t))) \<and>
    field_ref_get_data (sr_tid r) raw = Some (opt (has_format a PERF_SAMPLE_TID) (u32_bytes (tv_tid t))) \<and>
    field_ref_get_data (sr_time r) raw = Some (opt (has_format a PERF_SAMPLE_TIME) (u64_bytes (tv_time t))) \<and>
    field_ref_get_data (sr_stream_id r) raw = Some (opt (has_format a PERF_SAMPLE_STREAM_ID) (u64_bytes (tv_stream_id t))) \<and>
    field_ref_get_data (sr_cpu r) raw = Some (opt (has_format a PERF_SAMPLE_CPU) (u64_bytes (tv_cpu t))) \<and>
    field_ref_get_data (sr_ident r) raw = Some (if has_format a PERF_SAMPLE_IDENTIFIER then u64_bytes (tv_identifier t)
      else opt (has_format a PERF_SAMPLE_ID) (u64_bytes (tv_id t))) \<and>
    parse_record \<lparr>pd_ancillary = \<lparr>an_cpu = cpu, an_attributes = a\<rparr>, pd_raw = raw\<rparr> ss =
      Some (case fixed_event_of et ss of
          Some e \<Rightarrow> after_event e raw (body @ trailer_bytes a t) r ss
        | None \<Rightarrow> ss\<lparr>ps_refs := r\<rparr>)"
proof -
  let ?anc = "\<lparr>an_cpu = cpu, an_attributes = a\<rparr>" and ?pre = "record_header et mi (length raw) @ body"
  define r where "r = place_items (trailer_items a t) ?pre ((ps_refs ss)\<lparr>sr_ancillary := ?anc\<rparr>)"
  have raw: "raw = ?pre @ trailer_bytes a t" using assms(3) by simp
  have len: "length raw < 2 ^ 32" "unat (of_nat (length raw) :: u16) = length raw"
    using assms(4) by (simp_all add: unat_of_nat_word)
  have dec: "decode_trailer a (length raw) ((ps_refs ss)\<lparr>sr_ancillary := ?anc\<rparr>) = Some r"
    unfolding r_def using assms(1) raw len(1) by (rule decode_trailer_Some)
  have get: "field_ref_get_data (it_get it r) raw = Some (item_bytes it)"
    if "it \<in> set (trailer_items a t)" "it_kept it" for it
    unfolding r_def using raw len(1) trailer_independent that
    by (intro place_items_get [where rest = "[]"]) (simp_all add: trailer_bytes_items)
  have fields: "field_ref_get_data (it_get (trailer_fields a t ! i) r) raw = Some (item_bytes (trailer_fields a t ! i))"
    if "i < 6" "it_kept (trailer_fields a t ! i)" for i
  proof (rule get)
    have "length (trailer_fields a t) = 6" by (simp add: trailer_fields_def Let_def)
    then have "trailer_fields a t ! i \<in> set (trailer_fields a t)" using that(1) by (intro nth_mem) simp
    then show "trailer_fields a t ! i \<in> set (trailer_items a t)" by (simp add: trailer_items_def)
  qed (rule that(2))
  have "field_ref_get_data (sr_ident r) raw = Some (if has_format a PERF_SAMPLE_IDENTIFIER then u64_bytes (tv_identifier t)
      else opt (has_format a PERF_SAMPLE_ID) (u64_bytes (tv_id t)))"
    using get [of "identifier_item t"] fields [of 3]
    by (cases "has_format a PERF_SAMPLE_IDENTIFIER")
      (simp_all add: trailer_items_def trailer_fields_def identifier_item_def Let_def item_bytes_simp)
  moreover have "field_ref_get_data (sr_pid r) raw = Some (opt (has_format a PERF_SAMPLE_TID) (u32_bytes (tv_pid t)))"
    "field_ref_get_data (sr_tid r) raw = Some (opt (has_format a PERF_SAMPLE_TID) (u32_bytes (tv_tid t)))"
    "field_ref_get_data (sr_time r) raw = Some (opt (has_format a PERF_SAMPLE_TIME) (u64_bytes (tv_time t)))"
    "field_ref_get_data (sr_stream_id r) raw = Some (opt (has_format a PERF_SAMPLE_STREAM_ID) (u64_bytes (tv_stream_id t)))"
    "field_ref_get_data (sr_cpu r) raw = Some (opt (has_format a PERF_SAMPLE_CPU) (u64_bytes (tv_cpu t)))"
    using fields [of 0] fields [of 1] fields [of 2] fields [of 4] fields [of 5]
    by (simp_all add: trailer_fields_def Let_def item_bytes_simp)
  moreover have "sr_ancillary r = ?anc"
    unfolding r_def
    by (subst place_items_frame) (auto simp: trailer_items_def trailer_fields_def identifier_item_def Let_def split: if_splits)
  moreover have "parse_record \<lparr>pd_ancillary = ?anc, pd_raw = raw\<rparr> ss =
      Some (case fixed_event_of et ss of
          Some e \<Rightarrow> after_event e raw (body @ trailer_bytes a t) r ss
        | None \<Rightarrow> ss\<lparr>ps_refs := r\<rparr>)"
  proof -
    have "header_from_slice raw = Some \<lparr>entry_type = et, misc = mi, hdr_size = of_nat (length raw), hdr_data = body @ trailer_bytes a t\<rparr>"
      using header_of_record [of et mi "length raw" "body @ trailer_bytes a t"] assms(3) by simp
    moreover have "slice_from raw data_offset = Some (body @ trailer_bytes a t)"
      using arg_cong [OF assms(3), of "\<lambda>x. slice_from x data_offset"] by (simp add: slice_from_def)
    ultimately show ?thesis
      using dec assms(2,5) len(2)
      by (auto simp: parse_record_def process_with_after split: option.split)
  qed
  ultimately show ?thesis by blast
qed

theorem fixed_record_delivered_witness:
  "\<exists>r. parse_record \<lparr>pd_ancillary = \<lparr>an_cpu = 0, an_attributes = common_attributes\<rparr>,
      pd_raw = record_header PERF_RECORD_EXIT 0 32 @ trailer_bytes common_attributes
        \<lparr>tv_pid = 3, tv_tid = 4, tv_time = 55, tv_id = 0, tv_stream_id = 0, tv_cpu = 0, tv_identifier = 9\<rparr>\<rparr> demo_session =
      Some (after_event exit_event (record_header PERF_RECORD_EXIT 0 32 @ trailer_bytes common_attributes
        \<lparr>tv_pid = 3, tv_tid = 4, tv_time = 55, tv_id = 0, tv_stream_id = 0, tv_cpu = 0, tv_identifier = 9\<rparr>)
        (trailer_bytes common_attributes
        \<lparr>tv_pid = 3, tv_tid = 4, tv_time = 55, tv_id = 0, tv_stream_id = 0, tv_cpu = 0, tv_identifier = 9\<rparr>) r demo_session)"
proof -
  let ?t = "\<lparr>tv_pid = 3, tv_tid = 4, tv_time = 55, tv_id = 0, tv_stream_id = 0, tv_cpu = 0, tv_identifier = 9\<rparr>"
  let ?raw = "record_header PERF_RECORD_EXIT 0 32 @ trailer_bytes common_attributes ?t"
  have flag: "has_flag common_attributes FLAG_SAMPLE_ID_ALL"
    by (simp add: has_flag_def common_attributes_def perf_flag_defs)
  have "length (trailer_bytes common_attributes ?t) = 24"
    by (simp add: trailer_bytes_def sample_id_bytes_def opt_bytes_def has_format_def common_attributes_def perf_sample_defs)
  then have len: "length ?raw = 32" by (simp add: data_offset_def)
  have "PERF_RECORD_EXIT \<noteq> PERF_RECORD_SAMPLE" "ps_errors demo_session = []"
    "fixed_event_of PERF_RECORD_EXIT demo_session = Some exit_event"
    by (simp_all add: perf_record_defs demo_session_def session_add_event_def session_new_def fixed_event_of_def)
  then show ?thesis
    using fixed_record_delivered [OF flag, of PERF_RECORD_EXIT ?raw 0 "[]" ?t demo_session 0] len by auto
qed

end
