(* ===== verification/Io.thy ===== *)
theory Io
  imports Prelude
begin

text \<open>
  Calls that may panic, fail or return, over a state that keeps what they changed before they failed.
\<close>

section \<open>Calls that may fail\<close>

type_synonym ('s, 'a) io = "'s \<Rightarrow> ((err + 'a) \<times> 's) option"

definition io_return :: "'a \<Rightarrow> ('s, 'a) io" where
  "io_return x = (\<lambda>s. Ret (Inr x, s))"

definition io_fail :: "err \<Rightarrow> ('s, 'a) io" where
  "io_fail e = (\<lambda>s. Ret (Inl e, s))"

definition io_bind :: "('s, 'a) io \<Rightarrow> ('a \<Rightarrow> ('s, 'b) io) \<Rightarrow> ('s, 'b) io" where
  "io_bind m f = (\<lambda>s. do {
     (r, s) \<leftarrow> m s;
     (case r of Inl e \<Rightarrow> Ret (Inl e, s) | Inr x \<Rightarrow> f x s)
   })"

text \<open>A computation that may panic, and a change of the source.\<close>

definition io_checked :: "'a option \<Rightarrow> ('s, 'a) io" where
  "io_checked v = (\<lambda>s. do { x \<leftarrow> v; Ret (Inr x, s) })"

fun io_fold :: "('a \<Rightarrow> 'b \<Rightarrow> ('s, 'b) io) \<Rightarrow> 'a list \<Rightarrow> 'b \<Rightarrow> ('s, 'b) io" where
  "io_fold f [] b = io_return b"
| "io_fold f (x # xs) b = io_bind (f x b) (io_fold f xs)"

lemma io_bind_Some:
  "io_bind m f s = Some (Inr y, s') \<longleftrightarrow> (\<exists>x s1. m s = Some (Inr x, s1) \<and> f x s1 = Some (Inr y, s'))"
  by (auto simp: io_bind_def split: sum.splits bind_splits)

lemma io_simps [simp]:
  "io_return x s = Some (Inr y, s') \<longleftrightarrow> y = x \<and> s' = s"
  "io_fail e s = Some (Inr y, s') \<longleftrightarrow> False"
  "io_checked v s = Some (Inr y, s') \<longleftrightarrow> v = Some y \<and> s' = s"
  by (auto simp: io_return_def io_fail_def io_checked_def split: bind_splits)

lemma io_bind_assoc: "io_bind (io_bind m f) g = io_bind m (\<lambda>x. io_bind (f x) g)"
  by (rule ext) (auto simp: io_bind_def split: sum.splits bind_splits)

end
