(* ===== verification/RingSource.thy ===== *)
theory RingSource
  imports Session Io
begin

text \<open>
  \<open>perf_event/rb/source.rs\<close>: the builder of a session and the data source it makes, which opens the
  events of every cpu, reads the rings of all cpus and merges their records by time. The kernel is a
  parameter: the outcome of each system call, over a state of its own, and the order in which the
  library iterates over its hash tables. A call takes the source and the kernel and either panics,
  fails or returns; what it changed before it failed stays changed. The pages of a ring are the
  memory the reader looks at; whatever the kernel writes to them is there when a pass starts.
\<close>

section \<open>Calls of the source and of the kernel\<close>

definition io_update :: "('src \<Rightarrow> 'src) \<Rightarrow> ('src \<times> 'k, unit) io" where
  "io_update f = (\<lambda>s. Ret (Inr (), (f (fst s), snd s)))"

definition io_source :: "('src \<Rightarrow> ('src \<times> 'k, 'a) io) \<Rightarrow> ('src \<times> 'k, 'a) io" where
  "io_source f = (\<lambda>s. f (fst s) s)"

text \<open>A system call.\<close>

definition io_sys :: "('k \<Rightarrow> (err + 'a) \<times> 'k) \<Rightarrow> ('src \<times> 'k, 'a) io" where
  "io_sys m = (\<lambda>s. case m (snd s) of (r, k) \<Rightarrow> Ret (r, (fst s, k)))"

record 'k kernel =
  k_cpu_count :: u32
  k_page_size :: nat
  k_open :: "perf_event_attr \<Rightarrow> i32 \<Rightarrow> u32 \<Rightarrow> 'k \<Rightarrow> (err + nat) \<times> 'k"
  k_read_id :: "nat \<Rightarrow> 'k \<Rightarrow> (err + u64) \<times> 'k"
  k_mmap :: "nat \<Rightarrow> nat \<Rightarrow> 'k \<Rightarrow> (err + byte list) \<times> 'k"
  k_redirect :: "nat \<Rightarrow> nat \<Rightarrow> 'k \<Rightarrow> (err + unit) \<times> 'k"
  k_enable :: "nat \<Rightarrow> 'k \<Rightarrow> (err + unit) \<times> 'k"
  k_disable :: "nat \<Rightarrow> 'k \<Rightarrow> (err + unit) \<times> 'k"
  k_set_filter :: "nat \<Rightarrow> string \<Rightarrow> 'k \<Rightarrow> (err + unit) \<times> 'k"
  k_tasks :: "i32 \<Rightarrow> i32 list"
  k_task_order :: "i32 set \<Rightarrow> i32 list"
  k_id_order :: "u64 set \<Rightarrow> u64 list"

section \<open>The buffer of one event on one cpu\<close>

record cpu_ring_buf =
  crb_cpu :: u32
  crb_attributes :: perf_event_attr
  crb_sample_time_offset :: u16
  crb_fd :: "nat option"
  crb_id :: "u64 option"

definition cpu_ring_buf_new :: "u32 \<Rightarrow> perf_event_attr \<Rightarrow> cpu_ring_buf" where
  "cpu_ring_buf_new cpu a =
     \<lparr>crb_cpu = cpu, crb_attributes = a, crb_sample_time_offset = sample_time_offset a, crb_fd = None, crb_id = None\<rparr>"

definition crb_ancillary :: "cpu_ring_buf \<Rightarrow> ancillary" where
  "crb_ancillary b = \<lparr>an_cpu = crb_cpu b, an_attributes = crb_attributes b\<rparr>"

definition not_open :: err where
  "not_open = ''Ring buffer is not open.''"

definition with_fd :: "cpu_ring_buf \<Rightarrow> (nat \<Rightarrow> ('s, 'a) io) \<Rightarrow> ('s, 'a) io" where
  "with_fd b f = (case crb_fd b of Some fd \<Rightarrow> f fd | None \<Rightarrow> io_fail not_open)"

definition crb_open :: "'k kernel \<Rightarrow> i32 option \<Rightarrow> cpu_ring_buf \<Rightarrow> ('src \<times> 'k, cpu_ring_buf) io" where
  "crb_open kern target_pid b =
     io_bind (io_sys (k_open kern (crb_attributes b) (case target_pid of Some pid \<Rightarrow> pid | None \<Rightarrow> - 1) (crb_cpu b))) (\<lambda>fd.
     io_bind (io_sys (k_read_id kern fd)) (\<lambda>i. io_return (b\<lparr>crb_fd := Some fd, crb_id := Some i\<rparr>)))"

text \<open>The pages mapped for the buffer.\<close>

definition crb_create_reader :: "'k kernel \<Rightarrow> nat \<Rightarrow> cpu_ring_buf \<Rightarrow> ('src \<times> 'k, byte list \<times> ring_reader) io" where
  "crb_create_reader kern page_count b =
     with_fd b (\<lambda>fd.
     io_bind (io_sys (k_mmap kern fd (ring_data_bytes (k_page_size kern) page_count + k_page_size kern))) (\<lambda>mem.
     io_bind (io_checked (reader_new mem)) (\<lambda>rd. io_return (mem, rd))))"

definition crb_is_open :: "cpu_ring_buf \<Rightarrow> bool" where
  "crb_is_open b \<longleftrightarrow> crb_fd b \<noteq> None"

definition crb_enable :: "'k kernel \<Rightarrow> cpu_ring_buf \<Rightarrow> ('src \<times> 'k, unit) io" where
  "crb_enable kern b = with_fd b (\<lambda>fd. io_sys (k_enable kern fd))"

definition crb_disable :: "'k kernel \<Rightarrow> cpu_ring_buf \<Rightarrow> ('src \<times> 'k, unit) io" where
  "crb_disable kern b = with_fd b (\<lambda>fd. io_sys (k_disable kern fd))"

definition crb_redirect_to :: "'k kernel \<Rightarrow> cpu_ring_buf \<Rightarrow> cpu_ring_buf \<Rightarrow> ('src \<times> 'k, unit) io" where
  "crb_redirect_to kern b target = with_fd b (\<lambda>fd. with_fd target (\<lambda>target_fd. io_sys (k_redirect kern fd target_fd)))"

definition crb_set_filter :: "'k kernel \<Rightarrow> string \<Rightarrow> cpu_ring_buf \<Rightarrow> ('src \<times> 'k, unit) io" where
  "crb_set_filter kern filt b = with_fd b (\<lambda>fd. io_sys (k_set_filter kern fd filt))"

section \<open>The source\<close>

record ring_source =
  src_readers :: "ring_reader list"
  src_cursors :: "ring_cursor list"
  src_mems :: "byte list list"
  src_leader_ids :: "u32 \<rightharpoonup> u64"
  src_ring_bufs :: "u64 \<rightharpoonup> cpu_ring_buf"
  src_pages :: nat
  src_enabled :: bool
  src_target_pids :: "i32 list option"
  src_target_cpus :: "u16 list option"
  src_kernel_builder :: "perf_event_attr option"
  src_event_builder :: "perf_event_attr option"
  src_profiling_builder :: "perf_event_attr option"
  src_cswitch_builder :: "perf_event_attr option"
  src_bpf_builder :: "perf_event_attr option"
  src_soft_page_faults_builder :: "perf_event_attr option"
  src_hard_page_faults_builder :: "perf_event_attr option"
  src_next_time :: "u64 option"
  src_oldest_cpu :: "nat option"
  src_cpu_to_reader_index :: "nat option list"
  src_in_process :: "in_process_ring option"

definition source_new ::
  "nat \<Rightarrow> i32 list option \<Rightarrow> u16 list option \<Rightarrow> perf_event_attr option \<Rightarrow> perf_event_attr option \<Rightarrow> perf_event_attr option \<Rightarrow>
   perf_event_attr option \<Rightarrow> perf_event_attr option \<Rightarrow> perf_event_attr option \<Rightarrow> perf_event_attr option \<Rightarrow> ring_source" where
  "source_new pages target_pids target_cpus kernel_b event_b profiling_b cswitch_b bpf_b soft_b hard_b =
     \<lparr>src_readers = [], src_cursors = [], src_mems = [], src_leader_ids = Map.empty, src_ring_bufs = Map.empty,
      src_pages = pages, src_enabled = False, src_target_pids = target_pids, src_target_cpus = target_cpus,
      src_kernel_builder = kernel_b, src_event_builder = event_b, src_profiling_builder = profiling_b,
      src_cswitch_builder = cswitch_b, src_bpf_builder = bpf_b, src_soft_page_faults_builder = soft_b,
      src_hard_page_faults_builder = hard_b, src_next_time = None, src_oldest_cpu = None,
      src_cpu_to_reader_index = [], src_in_process = None\<rparr>"

definition cpus :: "'k kernel \<Rightarrow> u32 list" where
  "cpus kern = map of_nat [0..<unat (k_cpu_count kern)]"

definition no_buffer_id :: err where
  "no_buffer_id = ''Internal error getting buffer ID.''"

text \<open>Indexing the leaders' map panics if a cpu has none; the result is the id and descriptor of every
  new buffer, for the callers that want them.\<close>

definition add_cpu_buf ::
  "'k kernel \<Rightarrow> i32 option \<Rightarrow> u16 list option \<Rightarrow> perf_event_attr \<Rightarrow> u32 \<Rightarrow> (u64 \<times> nat) list \<Rightarrow>
   (ring_source \<times> 'k, (u64 \<times> nat) list) io" where
  "add_cpu_buf kern target_pid target_cpus a i fds =
     (if (case target_cpus of Some cs \<Rightarrow> ucast i \<notin> set cs | None \<Rightarrow> False) then io_return fds
      else io_source (\<lambda>src.
        io_bind (io_checked (src_leader_ids src i)) (\<lambda>leader_id.
        io_bind (io_checked (src_ring_bufs src leader_id)) (\<lambda>leader.
        io_bind (crb_open kern target_pid (cpu_ring_buf_new i a)) (\<lambda>b.
        (case crb_id b of
           None \<Rightarrow> io_fail no_buffer_id
         | Some key \<Rightarrow>
             io_bind (crb_redirect_to kern b leader) (\<lambda>_.
             io_bind (io_checked (crb_fd b)) (\<lambda>fd.
             io_bind (io_update (\<lambda>src. src\<lparr>src_ring_bufs := (src_ring_bufs src)(key \<mapsto> b)\<rparr>)) (\<lambda>_.
             io_return (fds @ [(key, fd)]))))))))))"

definition add_cpu_bufs ::
  "'k kernel \<Rightarrow> i32 option \<Rightarrow> u16 list option \<Rightarrow> perf_event_attr \<Rightarrow> (u64 \<times> nat) list \<Rightarrow>
   (ring_source \<times> 'k, (u64 \<times> nat) list) io" where
  "add_cpu_bufs kern target_pid target_cpus a fds =
     io_fold (add_cpu_buf kern target_pid target_cpus a) (cpus kern) fds"

definition add_for_pids ::
  "'k kernel \<Rightarrow> i32 option list \<Rightarrow> u16 list option \<Rightarrow> perf_event_attr \<Rightarrow> (ring_source \<times> 'k, (u64 \<times> nat) list) io" where
  "add_for_pids kern pids target_cpus a =
     io_fold (\<lambda>pid. add_cpu_bufs kern pid target_cpus a) pids []"

definition tasks_for_pids :: "'k kernel \<Rightarrow> i32 list \<Rightarrow> i32 list" where
  "tasks_for_pids kern pids = k_task_order kern (set pids \<union> (\<Union>pid \<in> set pids. set (k_tasks kern pid)))"

text \<open>The leader of one cpu, which is opened whatever cpus the session targets.\<close>

definition add_leader :: "'k kernel \<Rightarrow> i32 list \<Rightarrow> perf_event_attr \<Rightarrow> u32 \<Rightarrow> unit \<Rightarrow> (ring_source \<times> 'k, unit) io" where
  "add_leader kern pids a i _ =
     io_bind (crb_open kern (case pids of [] \<Rightarrow> None | pid # _ \<Rightarrow> Some pid) (cpu_ring_buf_new i a)) (\<lambda>b.
     (case crb_id b of
        None \<Rightarrow> io_fail no_buffer_id
      | Some key \<Rightarrow>
          io_bind (io_update (\<lambda>src. src\<lparr>src_leader_ids := (src_leader_ids src)(i \<mapsto> key)\<rparr>)) (\<lambda>_.
          io_source (\<lambda>src.
          io_bind (crb_create_reader kern (src_pages src) b) (\<lambda>(mem, rd).
          io_bind (io_checked (if unat i < length (src_cpu_to_reader_index src) then Ret () else Panic)) (\<lambda>_.
          io_update (\<lambda>src. src\<lparr>
            src_cpu_to_reader_index := (src_cpu_to_reader_index src)[unat i := Some (length (src_readers src))],
            src_readers := src_readers src @ [rd],
            src_cursors := src_cursors src @ [cursor_default],
            src_mems := src_mems src @ [mem],
            src_ring_bufs := (src_ring_bufs src)(key \<mapsto> b)\<rparr>)))))))"

definition add_samples :: "'k kernel \<Rightarrow> i32 list \<Rightarrow> perf_event_attr option \<Rightarrow> (ring_source \<times> 'k, unit) io" where
  "add_samples kern pids builder =
     (case builder of
        None \<Rightarrow> io_return ()
      | Some a \<Rightarrow> io_source (\<lambda>src.
          io_bind (add_for_pids kern (if pids = [] then [None] else map Some pids) (src_target_cpus src) a) (\<lambda>_.
          io_return ())))"

text \<open>The ring for records of the process itself, which ends the list of readers; its records have the
  identifier 0.\<close>

definition add_in_process :: "'k kernel \<Rightarrow> (ring_source \<times> 'k, unit) io" where
  "add_in_process kern = io_source (\<lambda>src.
     io_bind (io_checked (in_process_new (k_page_size kern) (src_pages src))) (\<lambda>ring.
     io_bind (io_checked (create_reader ring)) (\<lambda>rd.
     io_update (\<lambda>src. src\<lparr>
       src_readers := src_readers src @ [rd],
       src_cursors := src_cursors src @ [cursor_default],
       src_mems := src_mems src @ [rb_data ring],
       src_in_process := Some ring,
       src_ring_bufs := (src_ring_bufs src)(0 \<mapsto> cpu_ring_buf_new 0 common_attributes)\<rparr>))))"

definition source_build :: "'k kernel \<Rightarrow> (ring_source \<times> 'k, unit) io" where
  "source_build kern = io_source (\<lambda>src0.
     let common = (case src_kernel_builder src0 of Some a \<Rightarrow> a | None \<Rightarrow> for_kernel);
         target_pids = map_option (tasks_for_pids kern) (src_target_pids src0);
         pids = (case target_pids of Some pids \<Rightarrow> pids | None \<Rightarrow> []) in
     io_bind (io_update (\<lambda>src. src\<lparr>
       src_kernel_builder := Some common,
       src_target_pids := target_pids,
       src_cpu_to_reader_index :=
         take (length (cpus kern)) (src_cpu_to_reader_index src) @
         replicate (length (cpus kern) - length (src_cpu_to_reader_index src)) None\<rparr>)) (\<lambda>_.
     io_bind (io_fold (add_leader kern pids common) (cpus kern) ()) (\<lambda>_.
     io_bind (add_for_pids kern (map Some (tl pids)) None common) (\<lambda>_.
     io_bind (add_samples kern pids (src_profiling_builder src0)) (\<lambda>_.
     io_bind (add_samples kern pids (src_cswitch_builder src0)) (\<lambda>_.
     io_bind (add_samples kern pids (src_soft_page_faults_builder src0)) (\<lambda>_.
     io_bind (add_samples kern pids (src_hard_page_faults_builder src0)) (\<lambda>_.
     add_in_process kern))))))))"

section \<open>Switching the events on and off\<close>

definition for_open_bufs ::
  "'k kernel \<Rightarrow> (cpu_ring_buf \<Rightarrow> (ring_source \<times> 'k, unit) io) \<Rightarrow> (ring_source \<times> 'k, unit) io" where
  "for_open_bufs kern f = io_source (\<lambda>src.
     io_fold (\<lambda>i _. io_bind (io_checked (src_ring_bufs src i)) (\<lambda>b. if crb_is_open b then f b else io_return ()))
       (k_id_order kern (dom (src_ring_bufs src))) ())"

definition source_enable :: "'k kernel \<Rightarrow> (ring_source \<times> 'k, unit) io" where
  "source_enable kern =
     io_bind (for_open_bufs kern (crb_enable kern)) (\<lambda>_. io_update (\<lambda>src. src\<lparr>src_enabled := True\<rparr>))"

definition source_disable :: "'k kernel \<Rightarrow> (ring_source \<times> 'k, unit) io" where
  "source_disable kern =
     io_bind (for_open_bufs kern (crb_disable kern)) (\<lambda>_. io_update (\<lambda>src. src\<lparr>src_enabled := False\<rparr>))"

section \<open>Adding events\<close>

text \<open>No target, or every target task; unlike \<open>build\<close> this does not take an empty list for no target.\<close>

definition event_pids :: "ring_source \<Rightarrow> i32 option list" where
  "event_pids src = (case src_target_pids src of None \<Rightarrow> [None] | Some pids \<Rightarrow> map Some pids)"

definition create_bpf_files :: "'k kernel \<Rightarrow> 's event option \<Rightarrow> (ring_source \<times> 'k, (u64 \<times> nat) list) io" where
  "create_bpf_files kern event = io_source (\<lambda>src.
     (case src_bpf_builder src of
        None \<Rightarrow> io_return []
      | Some common \<Rightarrow>
          add_for_pids kern (event_pids src)
            (case event of
               Some e \<Rightarrow> if has_no_cpu_mask_flag e then None else src_target_cpus src
             | None \<Rightarrow> None)
            (case event of
               Some e \<Rightarrow> if has_no_callstack_flag e then without_callstack common else common
             | None \<Rightarrow> common)))"

text \<open>A failure to set the filter of one buffer is only logged. A filter with a NUL byte is refused, after
  the buffers are open.\<close>

definition apply_filter :: "'k kernel \<Rightarrow> u64 set \<Rightarrow> string \<Rightarrow> (ring_source \<times> 'k, unit) io" where
  "apply_filter kern before filt =
     (if CHR 0x00 \<in> set filt then io_fail ''Invalid perf filter string''
      else io_source (\<lambda>src.
        io_fold (\<lambda>i _ s.
            if i \<in> before then Ret (Inr (), s)
            else do { b \<leftarrow> src_ring_bufs src i; (_, s) \<leftarrow> crb_set_filter kern filt b s; Ret (Inr (), s) })
          (k_id_order kern (dom (src_ring_bufs src))) ()))"

definition source_add_event :: "'k kernel \<Rightarrow> 's event \<Rightarrow> (ring_source \<times> 'k, unit) io" where
  "source_add_event kern e = io_source (\<lambda>src.
     (case src_event_builder src of
        None \<Rightarrow> io_return ()
      | Some builder \<Rightarrow>
          let common = build_tracepoint (of_nat (ev_id e)) builder;
              common = (if has_no_callstack_flag e then without_callstack common else common) in
          io_bind (add_for_pids kern (event_pids src)
              (if has_no_cpu_mask_flag e then None else src_target_cpus src) common) (\<lambda>_.
          (case ext_perf_filter (ev_extension e) of
             None \<Rightarrow> io_return ()
           | Some filt \<Rightarrow> apply_filter kern (dom (src_ring_bufs src)) filt))))"

section \<open>Reading\<close>

text \<open>The time of the record at the cursor and the buffer it belongs to. A record that is too short, or
  of a buffer the source does not know, is stepped over: the cursor moves and there is no time.\<close>

definition read_time ::
  "ring_reader \<Rightarrow> byte list \<Rightarrow> (u64 \<rightharpoonup> cpu_ring_buf) \<Rightarrow> ring_cursor \<Rightarrow> ((u64 \<times> cpu_ring_buf) option \<times> ring_cursor) option" where
  "read_time rd mem bufs cur = do {
     dslice \<leftarrow> data_slice rd mem;
     (if \<not> cursor_more cur then Ret (None, cur)
      else do {
        (start, h) \<leftarrow> peek_header rd cur dslice;
        (if unat (hdr_size h) < data_offset + 16 then do {
           cur \<leftarrow> cursor_advance cur (of_nat (max (unat (hdr_size h)) data_offset));
           Ret (None, cur)
         }
         else
           let sample = entry_type h = PERF_RECORD_SAMPLE;
               id_offset = (if sample then of_nat data_offset else hdr_size h - 8) in do {
           i \<leftarrow> peek_u64 rd mem cur (ucast id_offset);
           (case bufs i of
              None \<Rightarrow> do { cur \<leftarrow> cursor_advance cur (hdr_size h); Ret (None, cur) }
            | Some b \<Rightarrow>
                let time_offset = (if sample then crb_sample_time_offset b else hdr_size h - 16) in do {
                time \<leftarrow> peek_u64 rd mem cur (ucast time_offset);
                Ret (Some (time, b), cur)
              })
         })
      })
   }"

text \<open>The two smallest times seen and where the smallest is.\<close>

type_synonym oldest = "u64 option \<times> u64 option \<times> nat option"

definition note_time :: "nat \<Rightarrow> u64 \<Rightarrow> oldest \<Rightarrow> oldest" where
  "note_time i time x = (case x of (oldest_time, next_time, oldest_cpu) \<Rightarrow>
     (case oldest_time of
        None \<Rightarrow> (Some time, next_time, Some i)
      | Some prev_time \<Rightarrow>
          if time < prev_time then (Some time, oldest_time, Some i)
          else (case next_time of
                  None \<Rightarrow> (oldest_time, Some time, oldest_cpu)
                | Some current_next_time \<Rightarrow>
                    (oldest_time, if time < current_next_time then Some time else next_time, oldest_cpu))))"

definition source_read_time :: "nat \<Rightarrow> ring_source \<Rightarrow> ((u64 \<times> cpu_ring_buf) option \<times> ring_source) option" where
  "source_read_time i src = do {
     rd \<leftarrow> at (src_readers src) i;
     mem \<leftarrow> at (src_mems src) i;
     cur \<leftarrow> at (src_cursors src) i;
     (r, cur) \<leftarrow> read_time rd mem (src_ring_bufs src) cur;
     Ret (r, src\<lparr>src_cursors := (src_cursors src)[i := cur]\<rparr>)
   }"

fun find_from :: "nat list \<Rightarrow> oldest \<times> ring_source \<Rightarrow> (oldest \<times> ring_source) option" where
  "find_from [] x = Ret x"
| "find_from (i # is) x = do {
     (r, src) \<leftarrow> source_read_time i (snd x);
     find_from is ((case r of None \<Rightarrow> fst x | Some (time, _) \<Rightarrow> note_time i time (fst x)), src)
   }"

definition find_current_buffer :: "ring_source \<Rightarrow> ring_source option" where
  "find_current_buffer src = do {
     ((oldest_time, next_time, oldest_cpu), src) \<leftarrow> find_from [0..<length (src_readers src)] ((None, None, None), src);
     Ret (src\<lparr>src_oldest_cpu := oldest_cpu, src_next_time := next_time\<rparr>)
   }"

definition begin_ring :: "nat \<Rightarrow> ring_source \<Rightarrow> ring_source option" where
  "begin_ring i src = do {
     mem \<leftarrow> at (src_mems src) i;
     cur \<leftarrow> at (src_cursors src) i;
     cur \<leftarrow> begin_reading mem cur;
     Ret (src\<lparr>src_cursors := (src_cursors src)[i := cur]\<rparr>)
   }"

fun begin_rings :: "nat list \<Rightarrow> ring_source \<Rightarrow> ring_source option" where
  "begin_rings [] src = Ret src"
| "begin_rings (i # is) src = do { src \<leftarrow> begin_ring i src; begin_rings is src }"

definition source_begin_reading :: "ring_source \<Rightarrow> ring_source option" where
  "source_begin_reading src = do {
     src \<leftarrow> begin_rings [0..<length (src_readers src)] src;
     find_current_buffer src
   }"

definition read_ring :: "nat \<Rightarrow> cpu_ring_buf \<Rightarrow> ring_source \<Rightarrow> (perf_data option \<times> ring_source) option" where
  "read_ring i b src = do {
     rd \<leftarrow> at (src_readers src) i;
     mem \<leftarrow> at (src_mems src) i;
     cur \<leftarrow> at (src_cursors src) i;
     (raw, cur) \<leftarrow> reader_read rd mem cur;
     Ret (Some \<lparr>pd_ancillary = crb_ancillary b, pd_raw = raw\<rparr>, src\<lparr>src_cursors := (src_cursors src)[i := cur]\<rparr>)
   }"

definition source_read :: "ring_source \<Rightarrow> (perf_data option \<times> ring_source) option" where
  "source_read src =
     (case src_oldest_cpu src of
        None \<Rightarrow> Ret (None, src)
      | Some i \<Rightarrow> do {
          (r, src) \<leftarrow> source_read_time i src;
          (case r of
             None \<Rightarrow> Ret (None, src)
           | Some (time, b) \<Rightarrow>
               if (case src_next_time src of Some next_time \<Rightarrow> next_time < time | None \<Rightarrow> False) then Ret (None, src)
               else read_ring i b src)
        })"

definition end_ring :: "nat \<Rightarrow> ring_source \<Rightarrow> ring_source option" where
  "end_ring i src = do {
     mem \<leftarrow> at (src_mems src) i;
     cur \<leftarrow> at (src_cursors src) i;
     mem \<leftarrow> end_reading mem cur;
     Ret (src\<lparr>src_mems := (src_mems src)[i := mem]\<rparr>)
   }"

definition source_end_reading :: "ring_source \<Rightarrow> ring_source option" where
  "source_end_reading src = (case src_oldest_cpu src of Some i \<Rightarrow> end_ring i src | None \<Rightarrow> Ret src)"

definition source_more :: "ring_source \<Rightarrow> bool" where
  "source_more src \<longleftrightarrow> src_oldest_cpu src \<noteq> None \<or> src_enabled src"

subsection \<open>One cpu\<close>

record cpu_read_context =
  ctx_cpu :: u32
  ctx_reader_index :: nat

definition begin_reading_cpu :: "u32 \<Rightarrow> ring_source \<Rightarrow> (cpu_read_context option \<times> ring_source) option" where
  "begin_reading_cpu cpu src =
     (if unat cpu < length (src_cpu_to_reader_index src) then
        (case src_cpu_to_reader_index src ! unat cpu of
           None \<Rightarrow> Ret (None, src)
         | Some i \<Rightarrow> do {
             src \<leftarrow> begin_ring i src;
             Ret (Some \<lparr>ctx_cpu = cpu, ctx_reader_index = i\<rparr>, src)
           })
      else Ret (None, src))"

definition read_cpu :: "cpu_read_context \<Rightarrow> ring_source \<Rightarrow> (perf_data option \<times> ring_source) option" where
  "read_cpu ctx src = do {
     (r, src) \<leftarrow> source_read_time (ctx_reader_index ctx) src;
     (case r of
        None \<Rightarrow> Ret (None, src)
      | Some (_, b) \<Rightarrow> read_ring (ctx_reader_index ctx) b src)
   }"

definition end_reading_cpu :: "cpu_read_context \<Rightarrow> ring_source \<Rightarrow> ring_source option" where
  "end_reading_cpu ctx src = end_ring (ctx_reader_index ctx) src"

definition perf_fds :: "ring_source \<Rightarrow> (u32 \<times> nat) list" where
  "perf_fds src =
     List.map_filter
       (\<lambda>cpu. case src_leader_ids src cpu of
          None \<Rightarrow> None
        | Some i \<Rightarrow>
            (case src_ring_bufs src i of
               None \<Rightarrow> None
             | Some b \<Rightarrow> map_option (Pair cpu) (crb_fd b)))
       (sorted_list_of_set (dom (src_leader_ids src)))"

definition take_in_process_writer :: "ring_source \<Rightarrow> ring_writer option" where
  "take_in_process_writer src = map_option ring_writer_of (src_in_process src)"

text \<open>The source as the session sees it.\<close>

definition ring_data_source :: "(ring_source, cpu_read_context) data_source" where
  "ring_data_source =
     \<lparr>ds_begin = source_begin_reading, ds_read = source_read, ds_end = source_end_reading, ds_more = source_more,
      ds_begin_cpu = begin_reading_cpu, ds_read_cpu = read_cpu, ds_end_cpu = end_reading_cpu\<rparr>"

section \<open>The builder\<close>

record 'h session_builder =
  bld_pages :: nat
  bld_target_pids :: "i32 list option"
  bld_target_cpus :: "u16 list option"
  bld_wakeup_watermark :: "u32 option"
  bld_kernel :: "perf_event_attr option"
  bld_event :: "perf_event_attr option"
  bld_profiling :: "perf_event_attr option"
  bld_cswitch :: "perf_event_attr option"
  bld_soft_page_faults :: "perf_event_attr option"
  bld_hard_page_faults :: "perf_event_attr option"
  bld_bpf :: "perf_event_attr option"
  bld_hooks :: "'h list option"

definition builder_new :: "'h session_builder" where
  "builder_new = \<lparr>bld_pages = 1, bld_target_pids = None, bld_target_cpus = None, bld_wakeup_watermark = None,
     bld_kernel = None, bld_event = None, bld_profiling = None, bld_cswitch = None, bld_soft_page_faults = None,
     bld_hard_page_faults = None, bld_bpf = None, bld_hooks = None\<rparr>"

text \<open>Each \<open>with_\<close> method moves the other options of the builder into a new one; what is left of the old
  one is not used.\<close>

definition with_target_pid :: "i32 \<Rightarrow> 'h session_builder \<Rightarrow> 'h session_builder" where
  "with_target_pid pid b =
     \<lparr>bld_pages = bld_pages b,
      bld_target_pids = Some (case bld_target_pids b of Some pids \<Rightarrow> pids @ [pid] | None \<Rightarrow> [pid]),
      bld_target_cpus = bld_target_cpus b, bld_wakeup_watermark = bld_wakeup_watermark b, bld_kernel = bld_kernel b,
      bld_event = bld_event b, bld_profiling = bld_profiling b, bld_cswitch = bld_cswitch b,
      bld_soft_page_faults = bld_soft_page_faults b, bld_hard_page_faults = bld_hard_page_faults b, bld_bpf = bld_bpf b,
      bld_hooks = bld_hooks b\<rparr>"

definition with_target_cpu :: "u16 \<Rightarrow> 'h session_builder \<Rightarrow> 'h session_builder" where
  "with_target_cpu cpu b =
     \<lparr>bld_pages = bld_pages b, bld_target_pids = bld_target_pids b,
      bld_target_cpus = Some (case bld_target_cpus b of Some cs \<Rightarrow> cs @ [cpu] | None \<Rightarrow> [cpu]),
      bld_wakeup_watermark = bld_wakeup_watermark b, bld_kernel = bld_kernel b,
      bld_event = bld_event b, bld_profiling = bld_profiling b, bld_cswitch = bld_cswitch b,
      bld_soft_page_faults = bld_soft_page_faults b, bld_hard_page_faults = bld_hard_page_faults b, bld_bpf = bld_bpf b,
      bld_hooks = bld_hooks b\<rparr>"

definition with_page_count :: "nat \<Rightarrow> 'h session_builder \<Rightarrow> 'h session_builder" where
  "with_page_count pages b = b\<lparr>bld_pages := pages\<rparr>"

definition with_wakeup_watermark :: "u32 \<Rightarrow> 'h session_builder \<Rightarrow> 'h session_builder" where
  "with_wakeup_watermark bytes b = b\<lparr>bld_wakeup_watermark := Some bytes\<rparr>"

definition with_kernel_events :: "perf_event_attr \<Rightarrow> 'h session_builder \<Rightarrow> 'h session_builder" where
  "with_kernel_events a b = b\<lparr>bld_kernel := Some a\<rparr>"

definition take_kernel_events :: "'h session_builder \<Rightarrow> perf_event_attr option \<times> 'h session_builder" where
  "take_kernel_events b = (bld_kernel b, b\<lparr>bld_kernel := None\<rparr>)"

definition replace_kernel_events ::
  "perf_event_attr \<Rightarrow> 'h session_builder \<Rightarrow> perf_event_attr option \<times> 'h session_builder" where
  "replace_kernel_events a b = (bld_kernel b, b\<lparr>bld_kernel := Some a\<rparr>)"

definition with_tracepoint_events :: "perf_event_attr \<Rightarrow> 'h session_builder \<Rightarrow> 'h session_builder" where
  "with_tracepoint_events a b = b\<lparr>bld_event := Some a\<rparr>"

definition take_tracepoint_events :: "'h session_builder \<Rightarrow> perf_event_attr option \<times> 'h session_builder" where
  "take_tracepoint_events b = (bld_event b, b\<lparr>bld_event := None\<rparr>)"

definition replace_tracepoint_events ::
  "perf_event_attr \<Rightarrow> 'h session_builder \<Rightarrow> perf_event_attr option \<times> 'h session_builder" where
  "replace_tracepoint_events a b = (bld_event b, b\<lparr>bld_event := Some a\<rparr>)"

definition with_profiling_events :: "perf_event_attr \<Rightarrow> 'h session_builder \<Rightarrow> 'h session_builder" where
  "with_profiling_events a b = b\<lparr>bld_profiling := Some a\<rparr>"

definition take_profiling_events :: "'h session_builder \<Rightarrow> perf_event_attr option \<times> 'h session_builder" where
  "take_profiling_events b = (bld_profiling b, b\<lparr>bld_profiling := None\<rparr>)"

definition replace_profiling_events ::
  "perf_event_attr \<Rightarrow> 'h session_builder \<Rightarrow> perf_event_attr option \<times> 'h session_builder" where
  "replace_profiling_events a b = (bld_profiling b, b\<lparr>bld_profiling := Some a\<rparr>)"

definition with_cswitch_events :: "perf_event_attr \<Rightarrow> 'h session_builder \<Rightarrow> 'h session_builder" where
  "with_cswitch_events a b = b\<lparr>bld_cswitch := Some a\<rparr>"

definition take_cswitch_events :: "'h session_builder \<Rightarrow> perf_event_attr option \<times> 'h session_builder" where
  "take_cswitch_events b = (bld_cswitch b, b\<lparr>bld_cswitch := None\<rparr>)"

definition replace_cswitch_events ::
  "perf_event_attr \<Rightarrow> 'h session_builder \<Rightarrow> perf_event_attr option \<times> 'h session_builder" where
  "replace_cswitch_events a b = (bld_cswitch b, b\<lparr>bld_cswitch := Some a\<rparr>)"

definition with_bpf_events :: "perf_event_attr \<Rightarrow> 'h session_builder \<Rightarrow> 'h session_builder" where
  "with_bpf_events a b = b\<lparr>bld_bpf := Some a\<rparr>"

definition take_bpf_events :: "'h session_builder \<Rightarrow> perf_event_attr option \<times> 'h session_builder" where
  "take_bpf_events b = (bld_bpf b, b\<lparr>bld_bpf := None\<rparr>)"

definition replace_bpf_events ::
  "perf_event_attr \<Rightarrow> 'h session_builder \<Rightarrow> perf_event_attr option \<times> 'h session_builder" where
  "replace_bpf_events a b = (bld_bpf b, b\<lparr>bld_bpf := Some a\<rparr>)"

definition with_soft_page_faults_events :: "perf_event_attr \<Rightarrow> 'h session_builder \<Rightarrow> 'h session_builder" where
  "with_soft_page_faults_events a b = b\<lparr>bld_soft_page_faults := Some a\<rparr>"

definition take_soft_page_faults_events :: "'h session_builder \<Rightarrow> perf_event_attr option \<times> 'h session_builder" where
  "take_soft_page_faults_events b = (bld_soft_page_faults b, b\<lparr>bld_soft_page_faults := None\<rparr>)"

definition replace_soft_page_faults_events ::
  "perf_event_attr \<Rightarrow> 'h session_builder \<Rightarrow> perf_event_attr option \<times> 'h session_builder" where
  "replace_soft_page_faults_events a b = (bld_soft_page_faults b, b\<lparr>bld_soft_page_faults := Some a\<rparr>)"

definition with_hard_page_faults_events :: "perf_event_attr \<Rightarrow> 'h session_builder \<Rightarrow> 'h session_builder" where
  "with_hard_page_faults_events a b = b\<lparr>bld_hard_page_faults := Some a\<rparr>"

definition take_hard_page_faults_events :: "'h session_builder \<Rightarrow> perf_event_attr option \<times> 'h session_builder" where
  "take_hard_page_faults_events b = (bld_hard_page_faults b, b\<lparr>bld_hard_page_faults := None\<rparr>)"

definition replace_hard_page_faults_events ::
  "perf_event_attr \<Rightarrow> 'h session_builder \<Rightarrow> perf_event_attr option \<times> 'h session_builder" where
  "replace_hard_page_faults_events a b = (bld_hard_page_faults b, b\<lparr>bld_hard_page_faults := Some a\<rparr>)"

text \<open>A hook changes the builder before it builds and the session after. While the hooks run the builder
  has none, so the builder they see has no type of hooks.\<close>

type_synonym ('s, 'k) session_hook =
  "(unit session_builder \<Rightarrow> unit session_builder) \<times>
   ('s session \<times> ring_source \<times> 'k \<Rightarrow> ('s session \<times> ring_source \<times> 'k) option)"

definition with_hooks :: "'h \<Rightarrow> 'h session_builder \<Rightarrow> 'h session_builder" where
  "with_hooks hook b = b\<lparr>bld_hooks := Some ((case bld_hooks b of Some hs \<Rightarrow> hs | None \<Rightarrow> []) @ [hook])\<rparr>"

definition without_hooks :: "'h session_builder \<Rightarrow> unit session_builder" where
  "without_hooks b =
     \<lparr>bld_pages = bld_pages b, bld_target_pids = bld_target_pids b, bld_target_cpus = bld_target_cpus b,
      bld_wakeup_watermark = bld_wakeup_watermark b, bld_kernel = bld_kernel b,
      bld_event = bld_event b, bld_profiling = bld_profiling b, bld_cswitch = bld_cswitch b,
      bld_soft_page_faults = bld_soft_page_faults b, bld_hard_page_faults = bld_hard_page_faults b, bld_bpf = bld_bpf b,
      bld_hooks = None\<rparr>"

definition watermark_too_large :: err where
  "watermark_too_large = ''wakeup_watermark must be smaller than the per-CPU ring data area''"

definition apply_watermark :: "nat \<Rightarrow> unit session_builder \<Rightarrow> err + unit session_builder" where
  "apply_watermark page_size b =
     (case bld_wakeup_watermark b of
        None \<Rightarrow> Inr b
      | Some bytes \<Rightarrow>
          if ring_data_bytes page_size (bld_pages b) \<le> unat bytes then Inl watermark_too_large
          else
            let kern = (case bld_kernel b of Some a \<Rightarrow> a | None \<Rightarrow> for_kernel)
            in Inr (b\<lparr>bld_wakeup_watermark := None, bld_kernel := Some (set_wakeup_watermark bytes kern)\<rparr>))"

definition source_of_builder :: "'h session_builder \<Rightarrow> ring_source" where
  "source_of_builder b =
     source_new (bld_pages b) (bld_target_pids b) (bld_target_cpus b) (bld_kernel b) (bld_event b) (bld_profiling b)
       (bld_cswitch b) (bld_bpf b) (bld_soft_page_faults b) (bld_hard_page_faults b)"

fun run_session_hooks ::
  "('s, 'k) session_hook list \<Rightarrow> 's session \<times> ring_source \<times> 'k \<Rightarrow> ('s session \<times> ring_source \<times> 'k) option" where
  "run_session_hooks [] x = Ret x"
| "run_session_hooks (h # hs) x = do { x \<leftarrow> snd h x; run_session_hooks hs x }"

text \<open>The whole \<open>build\<close>: the session with its source, or the error, and the kernel's state.\<close>

definition builder_build ::
  "'k kernel \<Rightarrow> 's \<Rightarrow> ('s, 'k) session_hook session_builder \<Rightarrow> 'k \<Rightarrow> ((err + 's session \<times> ring_source) \<times> 'k) option" where
  "builder_build kern s b k = (
     let hooks = (case bld_hooks b of Some hs \<Rightarrow> hs | None \<Rightarrow> []);
         b = fold fst hooks (without_hooks b) in
     (case apply_watermark (k_page_size kern) b of
        Inl e \<Rightarrow> Ret (Inl e, k)
      | Inr b \<Rightarrow> do {
          (r, src, k) \<leftarrow> source_build kern (source_of_builder b, k);
          (case r of
             Inl e \<Rightarrow> Ret (Inl e, k)
           | Inr _ \<Rightarrow> do {
               (ss, src, k) \<leftarrow> run_session_hooks hooks (session_new s, src, k);
               Ret (Inr (ss, src), k)
             })
        }))"

section \<open>The session's own calls\<close>

definition perf_session_add_event ::
  "'k kernel \<Rightarrow> (session_refs \<times> 's) event \<Rightarrow> 's session \<times> ring_source \<times> 'k \<Rightarrow>
   ((err + unit) \<times> 's session \<times> ring_source \<times> 'k) option" where
  "perf_session_add_event kern e x = (case x of (ss, src, k) \<Rightarrow> do {
     (r, src, k) \<leftarrow> source_add_event kern e (src, k);
     (case r of
        Inl er \<Rightarrow> Ret (Inl er, ss, src, k)
      | Inr _ \<Rightarrow> Ret (Inr (), session_add_event e ss, src, k))
   })"

end
