(* ===== verification/RingSourceProps.thy ===== *)
theory RingSourceProps
  imports RingSource
begin

text \<open>
  What a source does with the rings of its cpus. A ring holds records: the bytes from its tail to its
  head are those of a list of well-formed records, as \<open>RingBuf\<close> shows of a ring a writer fills. The
  first part gives the reading operations on such a ring, the second a pass over all rings, the third
  what draining the source delivers.
\<close>

section \<open>A ring and its records\<close>

definition in_ring :: "ring_reader \<Rightarrow> byte list \<Rightarrow> ring_cursor \<Rightarrow> byte list list \<Rightarrow> bool" where
  "in_ring rd mem cur recs \<longleftrightarrow>
     (\<exists>w. ring_inv w rd mem \<and> unat (cur_end cur) = w_head w \<and> ring_tail mem \<le> unat (cur_start cur) \<and>
        unat (cur_start cur) \<le> w_head w \<and> 8 dvd unat (cur_start cur) \<and>
        ring_bytes w mem (unat (cur_start cur)) (w_head w) = concat recs) \<and>
     (\<forall>r \<in> set recs. rec_ok r)"

text \<open>The records between the tail and the head.\<close>

definition holds :: "ring_reader \<Rightarrow> byte list \<Rightarrow> byte list list \<Rightarrow> bool" where
  "holds rd mem recs \<longleftrightarrow> in_ring rd mem \<lparr>cur_start = meta mem 1032, cur_end = meta mem 1024\<rparr> recs"

lemma in_ring_parts:
  assumes "in_ring rd mem cur (r # rs)"
  obtains w where "ring_inv w rd mem" "rec_ok r" "unat (cur_start cur) + length r \<le> w_head w"
    "ring_bytes w mem (unat (cur_start cur)) (unat (cur_start cur) + length r) = r"
    "ring_bytes w mem (unat (cur_start cur) + length r) (w_head w) = concat rs"
    "length r \<le> w_data_size w" "8 dvd unat (cur_start cur)" "w_head w < 2 ^ 64" "unat (cur_end cur) = w_head w"
    "ring_tail mem \<le> unat (cur_start cur)"
proof -
  let ?p = "unat (cur_start cur)"
  from assms obtain w where w: "ring_inv w rd mem" "unat (cur_end cur) = w_head w" "ring_tail mem \<le> ?p"
    "?p \<le> w_head w" "8 dvd ?p" "ring_bytes w mem ?p (w_head w) = r @ concat rs" "rec_ok r"
    by (auto simp: in_ring_def)
  have "w_head w - ?p = length r + length (concat rs)"
    using arg_cong [OF w(6), of length] by simp
  then have le: "?p + length r \<le> w_head w" and sz: "length r \<le> w_head w - ring_tail mem" using w(3,4) by linarith+
  have "ring_bytes w mem ?p (?p + length r) @ ring_bytes w mem (?p + length r) (w_head w) = r @ concat rs"
    using segment_append [of ?p "?p + length r" "w_head w"] le w(6) by simp
  then have b: "ring_bytes w mem ?p (?p + length r) = r" "ring_bytes w mem (?p + length r) (w_head w) = concat rs"
    by (simp_all add: append_eq_append_conv)
  have "w_head w < 2 ^ 64" using unsigned_less [of "cur_end cur"] unfolding w(2) [symmetric] by simp
  moreover have "length r \<le> w_data_size w" using sz w(1) by (auto simp: ring_inv_def)
  ultimately show thesis using that w b le by blast
qed

lemma begin_holds:
  assumes "holds rd mem recs"
  shows "\<exists>cur'. begin_reading mem cur = Some cur' \<and> in_ring rd mem cur' recs"
proof -
  from assms obtain w where "ring_inv w rd mem" by (auto simp: holds_def in_ring_def)
  note fits = ring_inv_meta_fits [OF this]
  have "begin_reading mem cur = Some (cur\<lparr>cur_start := meta mem 1032, cur_end := meta mem 1024\<rparr>)"
    using fits by (simp add: begin_reading_def reader_head_def reader_tail_def subslice_def meta_def cursor_set_def)
  then show ?thesis using assms by (simp add: holds_def in_ring_def)
qed

lemma end_in_ring:
  assumes "in_ring rd mem cur recs"
  shows "\<exists>mem'. end_reading mem cur = Some mem' \<and> holds rd mem' recs"
proof -
  from assms obtain w where w: "ring_inv w rd mem" "unat (cur_end cur) = w_head w"
    "ring_tail mem \<le> unat (cur_start cur)" "unat (cur_start cur) \<le> w_head w" "8 dvd unat (cur_start cur)"
    "ring_bytes w mem (unat (cur_start cur)) (w_head w) = concat recs" "\<forall>r \<in> set recs. rec_ok r"
    by (auto simp: in_ring_def)
  from set_tail_Some [OF w(1,3,4,5)] obtain m where m: "blit mem 1032 (u64_bytes (cur_start cur)) = Some m"
    "ring_inv w rd m" "meta m 1032 = cur_start cur" "\<And>a b. ring_bytes w m a b = ring_bytes w mem a b" by blast
  have "unat (meta m 1024) = w_head w" using m(2) by (simp add: ring_inv_def)
  then have "holds rd m recs" using m w by (auto simp: holds_def in_ring_def)
  then show ?thesis using m(1) by (simp add: end_reading_def)
qed

lemma in_ring_advance:
  assumes "in_ring rd mem cur (r # rs)" "unat len = length r"
  shows "\<exists>cur'. cursor_advance cur len = Some cur' \<and> in_ring rd mem cur' rs"
proof -
  from in_ring_parts [OF assms(1)] obtain w where w: "ring_inv w rd mem" "rec_ok r"
    "unat (cur_start cur) + length r \<le> w_head w"
    "ring_bytes w mem (unat (cur_start cur) + length r) (w_head w) = concat rs"
    "8 dvd unat (cur_start cur)" "w_head w < 2 ^ 64" "unat (cur_end cur) = w_head w"
    "ring_tail mem \<le> unat (cur_start cur)" by metis
  from cursor_advance_Some [of cur len] w(3,6) assms(2) obtain c where
    c: "cursor_advance cur len = Some (cur\<lparr>cur_start := c\<rparr>)" "unat c = unat (cur_start cur) + length r" by auto
  have "8 dvd length r" using w(2) by (simp add: rec_ok_def)
  then have "in_ring rd mem (cur\<lparr>cur_start := c\<rparr>) rs"
    using w c(2) assms(1) by (auto simp: in_ring_def)
  then show ?thesis using c(1) by blast
qed

lemma read_in_ring:
  assumes "in_ring rd mem cur (r # rs)"
  shows "\<exists>cur'. reader_read rd mem cur = Some (r, cur') \<and> in_ring rd mem cur' rs"
proof -
  from in_ring_parts [OF assms] obtain w where w: "ring_inv w rd mem" "rec_ok r"
    "unat (cur_start cur) + length r \<le> w_head w"
    "ring_bytes w mem (unat (cur_start cur)) (unat (cur_start cur) + length r) = r"
    "ring_bytes w mem (unat (cur_start cur) + length r) (w_head w) = concat rs"
    "length r \<le> w_data_size w" "8 dvd unat (cur_start cur)" "w_head w < 2 ^ 64" "unat (cur_end cur) = w_head w"
    "ring_tail mem \<le> unat (cur_start cur)" by metis
  have "unat (cur_start cur) + length r < 2 ^ 64" using w(3,8) by linarith
  from reader_read_Some [OF w(1,2,6) refl w(7) this w(4)] obtain c where
    c: "reader_read rd mem cur = Some (r, cur\<lparr>cur_start := c\<rparr>)" "unat c = unat (cur_start cur) + length r" by blast
  have "8 dvd length r" using w(2) by (simp add: rec_ok_def)
  then have "in_ring rd mem (cur\<lparr>cur_start := c\<rparr>) rs"
    using w c(2) assms by (auto simp: in_ring_def)
  then show ?thesis using c(1) by blast
qed

lemma more_in_ring: "in_ring rd mem cur recs \<Longrightarrow> cursor_more cur \<longleftrightarrow> recs \<noteq> []"
proof -
  assume a: "in_ring rd mem cur recs"
  then obtain w where w: "unat (cur_end cur) = w_head w" "unat (cur_start cur) \<le> w_head w"
    "ring_bytes w mem (unat (cur_start cur)) (w_head w) = concat recs" by (auto simp: in_ring_def)
  have len: "w_head w - unat (cur_start cur) = length (concat recs)"
    using arg_cong [OF w(3), of length] by simp
  show ?thesis
  proof (cases recs)
    case Nil
    then show ?thesis using len w by (simp add: cursor_more_def word_less_nat_alt)
  next
    case (Cons r rs)
    then have "0 < length r" using a by (auto simp: in_ring_def rec_ok_def)
    then have "0 < length (concat recs)" using Cons by simp
    then have "unat (cur_start cur) < unat (cur_end cur)" using len w by linarith
    then show ?thesis using Cons by (simp add: cursor_more_def word_less_nat_alt)
  qed
qed

lemma dvd_room: "k dvd (a :: nat) \<Longrightarrow> a < n \<Longrightarrow> k dvd n \<Longrightarrow> a + k \<le> n"
proof -
  assume a: "k dvd a" "a < n" "k dvd n"
  then have "k dvd n - a" by (simp add: dvd_diff_nat)
  then have "k \<le> n - a" using a(2) by (intro dvd_imp_le) simp_all
  then show ?thesis using a(2) by linarith
qed

text \<open>A word inside the record at the cursor.\<close>

lemma peek_in_ring:
  assumes "in_ring rd mem cur (r # rs)" "8 dvd unat k" "unat k + 8 \<le> length r"
  shows "peek_u64 rd mem cur k = Some (u64_of (take 8 (drop (unat k) r)))"
proof -
  let ?p = "unat (cur_start cur)"
  from in_ring_parts [OF assms(1)] obtain w where w: "ring_inv w rd mem" "?p + length r \<le> w_head w"
    "ring_bytes w mem ?p (?p + length r) = r" "8 dvd ?p" "w_head w < 2 ^ 64" by metis
  let ?n = "w_data_size w" and ?ds = "take (w_data_size w) (drop (w_data_offset w) mem)" and ?q = "?p + unat k"
  note mask = and_mask_size [OF w(1)]
  have mem: "length mem = w_data_offset w + ?n" using w(1) by (simp add: ring_inv_def)
  have small: "?q < 2 ^ 64" using w(2,5) assms(3) by linarith
  then have pos: "add64 (cur_start cur) k = Some (cur_start cur + k)" "unat (cur_start cur + k) = ?q"
    by (simp_all add: add64_ok unat_add64)
  have start: "unat ((cur_start cur + k) AND rd_data_mask rd) = ?q mod ?n"
    using w(1) mask(1) [of ?q] by (simp add: unsigned_and_eq pos(2) ring_inv_def)
  have "8 dvd ?q mod ?n" using w(4) assms(2) mask(3) by (simp add: dvd_mod)
  moreover have "?q mod ?n < ?n" using mask(2) by simp
  ultimately have s8: "?q mod ?n + 8 \<le> ?n" using mask(3) by (rule dvd_room)
  have "ring_bytes w mem ?q (?q + 8) = take 8 (drop (unat k) (ring_bytes w mem ?p (?p + length r)))"
    using assms(3) by (intro nth_equalityI) (simp_all add: segment_def add.assoc)
  then have "take 8 (drop (?q mod ?n) ?ds) = take 8 (drop (unat k) r)"
    using wrapped_slice [OF mem mask(4) mask(2), of ?q] s8 w(3) by simp
  then show ?thesis
    using s8 mem pos by (simp add: peek_u64_def start data_slice_eq [OF w(1)] subslice_def Let_def)
qed

lemma header_bytes:
  assumes "8 \<le> length r"
  shows "header_from_slice (take 8 r) = Some \<lparr>entry_type = u32_of (take 4 r), misc = u16_of (take 2 (drop 4 r)),
    hdr_size = u16_of (take 2 (drop 6 r)), hdr_data = []\<rparr>"
  using assms by (simp add: header_from_slice_def subslice_def slice_from_def data_offset_def drop_take)

lemma header_in_ring:
  assumes "in_ring rd mem cur (r # rs)"
  obtains ds start h where "data_slice rd mem = Some ds" "peek_header rd cur ds = Some (start, h)"
    "entry_type h = u32_of (take 4 r)" "unat (hdr_size h) = length r"
proof -
  let ?p = "unat (cur_start cur)"
  from in_ring_parts [OF assms(1)] obtain w where w: "ring_inv w rd mem" "?p + length r \<le> w_head w" "rec_ok r"
    "ring_bytes w mem ?p (?p + length r) = r" "8 dvd ?p" "w_head w < 2 ^ 64" by metis
  let ?n = "w_data_size w" and ?ds = "take (w_data_size w) (drop (w_data_offset w) mem)"
  note mask = and_mask_size [OF w(1)]
  have mem: "length mem = w_data_offset w + ?n" using w(1) by (simp add: ring_inv_def)
  have start: "unat (cur_start cur AND rd_data_mask rd) = ?p mod ?n"
    using w(1) mask(1) [of ?p] by (simp add: unsigned_and_eq ring_inv_def)
  have "8 dvd ?p mod ?n" using w(5) mask(3) by (simp add: dvd_mod)
  moreover have "?p mod ?n < ?n" using mask(2) by simp
  ultimately have s8: "?p mod ?n + 8 \<le> ?n" using mask(3) by (rule dvd_room)
  have r8: "8 \<le> length r" using w(3) by (simp add: rec_ok_def)
  have "ring_bytes w mem ?p (?p + 8) = take 8 (ring_bytes w mem ?p (?p + length r))"
    using r8 by (intro nth_equalityI) (simp_all add: segment_def)
  then have t: "take 8 (drop (?p mod ?n) ?ds) = take 8 r"
    using wrapped_slice [OF mem mask(4) mask(2), of ?p] s8 w(4) by simp
  let ?h = "\<lparr>entry_type = u32_of (take 4 r), misc = u16_of (take 2 (drop 4 r)),
    hdr_size = u16_of (take 2 (drop 6 r)), hdr_data = []\<rparr>"
  have "peek_header rd cur ?ds = Some (?p mod ?n, ?h)"
    using s8 t mem header_bytes [OF r8] by (simp add: peek_header_def start subslice_def data_offset_def Let_def)
  moreover have "unat (hdr_size ?h) = length r"
  proof -
    have "unat (of_nat (length r) :: u16) = length r"
      using w(3) by (intro unat_of_nat_word) (simp add: rec_ok_def)
    then show ?thesis using w(3) by (simp add: rec_ok_def)
  qed
  ultimately show thesis using that [OF data_slice_eq [OF w(1)]] by (metis header.select_convs(1))
qed

text \<open>What a record is: the identifier it carries, the buffer it belongs to and its time. A record without
  room for both belongs to none.\<close>

definition rec_sample :: "byte list \<Rightarrow> bool" where
  "rec_sample r \<longleftrightarrow> u32_of (take 4 r) = PERF_RECORD_SAMPLE"

definition rec_id :: "byte list \<Rightarrow> u64" where
  "rec_id r = u64_of (take 8 (drop (if rec_sample r then 8 else length r - 8) r))"

definition rec_buf :: "(u64 \<rightharpoonup> cpu_ring_buf) \<Rightarrow> byte list \<Rightarrow> cpu_ring_buf option" where
  "rec_buf bufs r = (if length r < 24 then None else bufs (rec_id r))"

definition rec_time :: "cpu_ring_buf \<Rightarrow> byte list \<Rightarrow> u64" where
  "rec_time b r = u64_of (take 8 (drop (if rec_sample r then unat (crb_sample_time_offset b) else length r - 16) r))"

definition time_fits :: "cpu_ring_buf \<Rightarrow> byte list \<Rightarrow> bool" where
  "time_fits b r \<longleftrightarrow> \<not> rec_sample r \<or>
     8 dvd unat (crb_sample_time_offset b) \<and> unat (crb_sample_time_offset b) + 8 \<le> length r"

lemma unat_ucast_u16 [simp]: "unat (ucast (x :: u16) :: u64) = unat x"
proof -
  have "unat x < 2 ^ 16" using unsigned_less [of x] by simp
  then show ?thesis by (simp add: unsigned_ucast_eq take_bit_nat_eq_self)
qed

lemma unat_sub_u16: "m \<le> unat x \<Longrightarrow> m < 65536 \<Longrightarrow> unat (x - of_nat m :: u16) = unat x - m"
proof -
  assume m: "m \<le> unat x" "m < 65536"
  have "unat (of_nat m :: u16) = m" using m(2) by (intro unat_of_nat_word) simp
  then show ?thesis using m(1) by (simp add: unat_sub_if_size)
qed

lemma time_none:
  assumes "in_ring rd mem cur []"
  shows "read_time rd mem bufs cur = Some (None, cur)"
proof -
  from assms obtain w where "ring_inv w rd mem" by (auto simp: in_ring_def)
  then show ?thesis using more_in_ring [OF assms] by (simp add: read_time_def data_slice_eq)
qed

lemma time_of_record:
  assumes "in_ring rd mem cur (r # rs)" "rec_buf bufs r = Some b" "time_fits b r"
  shows "read_time rd mem bufs cur = Some (Some (rec_time b r, b), cur)"
proof -
  from header_in_ring [OF assms(1)] obtain ds start h where h: "data_slice rd mem = Some ds"
    "peek_header rd cur ds = Some (start, h)" "entry_type h = u32_of (take 4 r)" "unat (hdr_size h) = length r" by blast
  have len: "24 \<le> length r" and b: "bufs (rec_id r) = Some b" using assms(2) by (auto simp: rec_buf_def split: if_splits)
  have ok: "8 dvd length r" using assms(1) by (simp add: in_ring_def rec_ok_def)
  have s8: "unat (hdr_size h - 8) = length r - 8" and s16: "unat (hdr_size h - 16) = length r - 16"
    using unat_sub_u16 [of 8 "hdr_size h"] unat_sub_u16 [of 16 "hdr_size h"] len h(4) by simp_all
  note peek = peek_in_ring [OF assms(1)]
  show ?thesis
  proof (cases "rec_sample r")
    case True
    have "peek_u64 rd mem cur 8 = Some (u64_of (take 8 (drop 8 r)))"
      using peek [of 8] len by simp
    moreover have "peek_u64 rd mem cur (ucast (crb_sample_time_offset b)) =
        Some (u64_of (take 8 (drop (unat (crb_sample_time_offset b)) r)))"
      using peek [of "ucast (crb_sample_time_offset b)"] assms(3) True by (simp add: time_fits_def)
    ultimately show ?thesis
      using h len b True more_in_ring [OF assms(1)]
      by (simp add: read_time_def rec_id_def rec_time_def rec_sample_def data_offset_def Let_def)
  next
    case False
    have "peek_u64 rd mem cur (ucast (hdr_size h - 8)) = Some (u64_of (take 8 (drop (length r - 8) r)))"
      using peek [of "ucast (hdr_size h - 8)"] len ok by (simp add: s8 dvd_diff_nat)
    moreover have "peek_u64 rd mem cur (ucast (hdr_size h - 16)) = Some (u64_of (take 8 (drop (length r - 16) r)))"
      using peek [of "ucast (hdr_size h - 16)"] len ok by (simp add: s16 dvd_diff_nat)
    ultimately show ?thesis
      using h len b False more_in_ring [OF assms(1)]
      by (simp add: read_time_def rec_id_def rec_time_def rec_sample_def data_offset_def Let_def)
  qed
qed

text \<open>A record of no known buffer is stepped over.\<close>

lemma time_of_unknown:
  assumes "in_ring rd mem cur (r # rs)" "rec_buf bufs r = None"
  shows "\<exists>cur'. read_time rd mem bufs cur = Some (None, cur') \<and> in_ring rd mem cur' rs"
proof -
  from header_in_ring [OF assms(1)] obtain ds start h where h: "data_slice rd mem = Some ds"
    "peek_header rd cur ds = Some (start, h)" "entry_type h = u32_of (take 4 r)" "unat (hdr_size h) = length r" by blast
  have ok: "8 dvd length r" "8 \<le> length r" "length r < 65536" using assms(1) by (simp_all add: in_ring_def rec_ok_def)
  note peek = peek_in_ring [OF assms(1)]
  show ?thesis
  proof (cases "length r < 24")
    case True
    have "unat (of_nat (max (length r) 8) :: u16) = length r"
      using ok by (simp add: max_def unat_of_nat_word)
    from in_ring_advance [OF assms(1) this] show ?thesis
      using h True more_in_ring [OF assms(1)] by (auto simp: read_time_def data_offset_def)
  next
    case False
    have s8: "unat (hdr_size h - 8) = length r - 8"
      using unat_sub_u16 [of 8 "hdr_size h"] ok h(4) by simp
    have i: "peek_u64 rd mem cur (ucast (if rec_sample r then of_nat 8 else hdr_size h - 8)) = Some (rec_id r)"
    proof (cases "rec_sample r")
      case True
      then show ?thesis using peek [of 8] False by (simp add: rec_id_def)
    next
      case False
      then show ?thesis using peek [of "ucast (hdr_size h - 8)"] ok by (simp add: s8 dvd_diff_nat rec_id_def)
    qed
    have "bufs (rec_id r) = None" using assms(2) False by (simp add: rec_buf_def)
    with in_ring_advance [OF assms(1) h(4)] show ?thesis
      using h False i more_in_ring [OF assms(1)]
      by (auto simp: read_time_def data_offset_def Let_def rec_sample_def)
  qed
qed

section \<open>Sources that are drained pass by pass\<close>

text \<open>The records a session takes one after the other.\<close>

fun parse_list :: "perf_data list \<Rightarrow> 's session \<Rightarrow> 's session option" where
  "parse_list [] ss = Ret ss"
| "parse_list (d # ds) ss = do { ss \<leftarrow> parse_record d ss; parse_list ds ss }"

lemma parse_list_append: "parse_list (xs @ ys) ss = do { ss \<leftarrow> parse_list xs ss; parse_list ys ss }"
  by (induction xs arbitrary: ss) (simp_all split: bind_splits)

text \<open>What the parsing of a session needs of its source: a pass takes the batch of the source's state, and
  there is more to read exactly when there was a batch. Each batch leaves less.\<close>

locale batch_source =
  fixes ops :: "('src, 'c) data_source"
    and rel :: "'src \<Rightarrow> 'q \<Rightarrow> bool"
    and batch :: "'q \<Rightarrow> 'd list"
    and rest :: "'q \<Rightarrow> 'q"
    and left :: "'q \<Rightarrow> nat"
    and item :: "'d \<Rightarrow> perf_data"
  assumes pass: "rel src q \<Longrightarrow> \<exists>src'. rel src' (rest q) \<and> (ds_more ops src' \<longleftrightarrow> batch q \<noteq> []) \<and>
      (\<forall>ss :: 's session. parse_pass ops (ss, src) = map_option (\<lambda>ss'. (ss', src')) (parse_list (map item (batch q)) ss))"
    and progress: "rel src q \<Longrightarrow> batch q \<noteq> [] \<Longrightarrow> left (rest q) < left q"
    and stop: "rel src q \<Longrightarrow> batch q = [] \<Longrightarrow> rest q = q"
begin

fun delivery :: "nat \<Rightarrow> 'q \<Rightarrow> 'd list \<times> 'q" where
  "delivery 0 q = ([], q)"
| "delivery (Suc n) q = (batch q @ fst (delivery n (rest q)), snd (delivery n (rest q)))"

lemma delivery_done: "rel src q \<Longrightarrow> batch q = [] \<Longrightarrow> delivery n q = ([], q)"
  by (induction n) (simp_all add: stop)

text \<open>Draining ends, and takes the batches one after the other.\<close>

lemma parse_all_delivers:
  assumes "rel src q" "left q \<le> n"
  shows "\<exists>src'. rel src' (snd (delivery n q)) \<and> batch (snd (delivery n q)) = [] \<and>
    (\<forall>ss :: 's session. parse_all ops (ss, src) =
       map_option (\<lambda>ss'. (ss', src')) (parse_list (map item (fst (delivery n q))) ss))"
  using assms
proof (induction n arbitrary: src q)
  case 0
  then have b: "batch q = []" using progress [OF 0(1)] by fastforce
  from pass [OF 0(1)] b stop [OF 0(1)] obtain src' where p: "rel src' q" "\<not> ds_more ops src'"
    "\<forall>ss :: 's session. parse_pass ops (ss, src) = Some (ss, src')" by auto
  have "parse_all ops (ss, src) = Some (ss, src')" for ss :: "'s session"
    unfolding parse_all_def by (subst parse_until.simps) (simp add: p(2,3))
  then show ?case using p(1) b by auto
next
  case (Suc n)
  from pass [OF Suc.prems(1)] obtain src' where p: "rel src' (rest q)" "ds_more ops src' \<longleftrightarrow> batch q \<noteq> []"
    "\<And>ss :: 's session. parse_pass ops (ss, src) = map_option (\<lambda>ss'. (ss', src')) (parse_list (map item (batch q)) ss)"
    by auto
  show ?case
  proof (cases "batch q = []")
    case True
    then have r: "rest q = q" by (rule stop [OF Suc.prems(1)])
    have "parse_all ops (ss, src) = Some (ss, src')" for ss :: "'s session"
      unfolding parse_all_def by (subst parse_until.simps) (simp add: p(2,3) True)
    then show ?thesis
      using p(1) True delivery_done [OF Suc.prems(1) True, of n] by (auto simp: r)
  next
    case False
    then have "left (rest q) \<le> n" using progress [OF Suc.prems(1)] Suc.prems(2) by fastforce
    from Suc.IH [OF p(1) this] obtain src'' where i: "rel src'' (snd (delivery n (rest q)))"
      "batch (snd (delivery n (rest q))) = []"
      "\<And>ss :: 's session. parse_all ops (ss, src') =
         map_option (\<lambda>ss'. (ss', src'')) (parse_list (map item (fst (delivery n (rest q)))) ss)" by blast
    have "parse_all ops (ss, src) =
        map_option (\<lambda>ss'. (ss', src'')) (parse_list (map item (fst (delivery (Suc n) q))) ss)" for ss :: "'s session"
    proof -
      have "parse_all ops (ss, src) = do { x \<leftarrow> parse_pass ops (ss, src); parse_all ops x }"
        unfolding parse_all_def using False p(2) p(3) [of ss]
        by (subst parse_until.simps) (cases "parse_list (map item (batch q)) ss"; simp)
      then show ?thesis
        by (cases "parse_list (map item (batch q)) ss") (simp_all add: p(3) i(3) parse_list_append)
    qed
    then show ?thesis using i by auto
  qed
qed

end

section \<open>A pass over the rings\<close>

text \<open>The abstract pass: of the rings whose first record is of a known buffer, the one with the oldest record
  is read up to the time of the next oldest ring.\<close>

fun live :: "(u64 \<rightharpoonup> cpu_ring_buf) \<Rightarrow> byte list list \<Rightarrow> bool" where
  "live bufs [] = False"
| "live bufs (r # rs) = (rec_buf bufs r \<noteq> None)"

definition time_of :: "(u64 \<rightharpoonup> cpu_ring_buf) \<Rightarrow> byte list \<Rightarrow> u64" where
  "time_of bufs r = (case rec_buf bufs r of Some b \<Rightarrow> rec_time b r | None \<Rightarrow> 0)"

definition oldest_upto :: "(u64 \<rightharpoonup> cpu_ring_buf) \<Rightarrow> byte list list list \<Rightarrow> nat list \<Rightarrow> oldest \<Rightarrow> oldest" where
  "oldest_upto bufs rss is x =
     fold (\<lambda>i x. if live bufs (rss ! i) then note_time i (time_of bufs (hd (rss ! i))) x else x) is x"

abbreviation oldest_ring :: "(u64 \<rightharpoonup> cpu_ring_buf) \<Rightarrow> byte list list list \<Rightarrow> oldest" where
  "oldest_ring bufs rss \<equiv> oldest_upto bufs rss [0..<length rss] (None, None, None)"

definition upto_next :: "(u64 \<rightharpoonup> cpu_ring_buf) \<Rightarrow> u64 option \<Rightarrow> byte list list \<Rightarrow> byte list list" where
  "upto_next bufs next rs = takeWhile (\<lambda>r. case next of None \<Rightarrow> True | Some t \<Rightarrow> time_of bufs r \<le> t) rs"

definition pass_batch :: "(u64 \<rightharpoonup> cpu_ring_buf) \<Rightarrow> byte list list list \<Rightarrow> (nat \<times> byte list) list" where
  "pass_batch bufs rss = (case oldest_ring bufs rss of (_, next, oldest) \<Rightarrow>
     (case oldest of None \<Rightarrow> [] | Some i \<Rightarrow> map (Pair i) (take 101 (upto_next bufs next (rss ! i)))))"

definition pass_rest :: "(u64 \<rightharpoonup> cpu_ring_buf) \<Rightarrow> byte list list list \<Rightarrow> byte list list list" where
  "pass_rest bufs rss = (case oldest_ring bufs rss of (_, _, oldest) \<Rightarrow>
     (case oldest of None \<Rightarrow> rss | Some i \<Rightarrow> rss[i := drop (length (pass_batch bufs rss)) (rss ! i)]))"

definition pass_left :: "(u64 \<rightharpoonup> cpu_ring_buf) \<Rightarrow> byte list list list \<Rightarrow> nat" where
  "pass_left bufs rss = sum_list (map (\<lambda>rs. if live bufs rs then length rs else 0) rss)"

definition perf_of :: "(u64 \<rightharpoonup> cpu_ring_buf) \<Rightarrow> nat \<times> byte list \<Rightarrow> perf_data" where
  "perf_of bufs x =
     \<lparr>pd_ancillary = (case rec_buf bufs (snd x) of Some b \<Rightarrow> crb_ancillary b | None \<Rightarrow> ancillary_default), pd_raw = snd x\<rparr>"

text \<open>A ring is tidy when, once its first record is known, all of them are.\<close>

definition known :: "(u64 \<rightharpoonup> cpu_ring_buf) \<Rightarrow> byte list \<Rightarrow> bool" where
  "known bufs r \<longleftrightarrow> (case rec_buf bufs r of None \<Rightarrow> False | Some b \<Rightarrow> time_fits b r)"

definition tidy :: "(u64 \<rightharpoonup> cpu_ring_buf) \<Rightarrow> byte list list \<Rightarrow> bool" where
  "tidy bufs rs \<longleftrightarrow> (live bufs rs \<longrightarrow> list_all (known bufs) rs)"

lemma known_buf: "known bufs r \<longleftrightarrow> (\<exists>b. rec_buf bufs r = Some b \<and> time_fits b r)"
  by (auto simp: known_def split: option.split)

lemma tidy_drop: "tidy bufs rs \<Longrightarrow> live bufs rs \<Longrightarrow> tidy bufs (drop n rs)"
  by (auto simp: tidy_def list_all_iff dest: in_set_dropD)

definition oldest_ok :: "(nat \<Rightarrow> bool) \<Rightarrow> (nat \<Rightarrow> u64) \<Rightarrow> nat \<Rightarrow> oldest \<Rightarrow> bool" where
  "oldest_ok P t k x = (case x of (oldest_time, next, oldest) \<Rightarrow>
     (case oldest of
        None \<Rightarrow> oldest_time = None \<and> next = None \<and> (\<forall>j<k. \<not> P j)
      | Some i \<Rightarrow> i < k \<and> P i \<and> oldest_time = Some (t i) \<and>
          (\<forall>j<k. P j \<and> j \<noteq> i \<longrightarrow> (\<exists>n. next = Some n \<and> n \<le> t j)) \<and> (\<forall>n. next = Some n \<longrightarrow> t i \<le> n)))"

lemma oldest_ok_skip: "oldest_ok P t k x \<Longrightarrow> \<not> P k \<Longrightarrow> oldest_ok P t (Suc k) x"
  by (auto simp: oldest_ok_def less_Suc_eq split: prod.splits option.splits)

lemma oldest_ok_note:
  assumes "oldest_ok P t k x" "P k"
  shows "oldest_ok P t (Suc k) (note_time k (t k) x)"
proof -
  obtain ot nt oc where x: "x = (ot, nt, oc)" by (cases x)
  show ?thesis
  proof (cases oc)
    case None
    then show ?thesis using assms x by (auto simp: oldest_ok_def note_time_def less_Suc_eq)
  next
    case (Some i)
    then have i: "i < k" "P i" "ot = Some (t i)" "\<And>j. j < k \<Longrightarrow> P j \<Longrightarrow> j \<noteq> i \<Longrightarrow> \<exists>n. nt = Some n \<and> n \<le> t j"
      "\<And>n. nt = Some n \<Longrightarrow> t i \<le> n"
      using assms(1) x by (auto simp: oldest_ok_def)
    show ?thesis
    proof (cases "t k < t i")
      case True
      have "t i \<le> t j" if "j < k" "P j" for j using i(4) [of j] i(5) that by (cases "j = i") (simp, metis order_trans)
      then show ?thesis using True Some x i assms(2) by (auto simp: oldest_ok_def note_time_def less_Suc_eq)
    next
      case False
      then have le: "t i \<le> t k" by simp
      show ?thesis
      proof (cases nt)
        case None
        then have "\<not> P j" if "j < k" "j \<noteq> i" for j using i(4) [of j] that by auto
        then show ?thesis using False le None Some x i(1,2,3) assms(2)
          by (auto simp: oldest_ok_def note_time_def less_Suc_eq)
      next
        case (Some n)
        have "n \<le> t j" if "j < k" "P j" "j \<noteq> i" for j using i(4) [OF that] Some by simp
        moreover have "t i \<le> n" using i(5) Some by simp
        ultimately show ?thesis using False le Some \<open>oc = Some i\<close> x i(1,2,3) assms(2)
          by (auto simp: oldest_ok_def note_time_def less_Suc_eq intro: order_trans less_le_trans [THEN less_imp_le])
      qed
    qed
  qed
qed

lemma oldest_upto_ok:
  "oldest_ok (\<lambda>j. live bufs (rss ! j)) (\<lambda>j. time_of bufs (hd (rss ! j))) k (oldest_upto bufs rss [0..<k] (None, None, None))"
proof (induction k)
  case 0
  then show ?case by (simp add: oldest_ok_def oldest_upto_def)
next
  case (Suc k)
  then show ?case
    using oldest_ok_note [OF Suc] oldest_ok_skip [OF Suc] by (auto simp: oldest_upto_def)
qed

lemma pass_cases:
  obtains (none) "\<And>j. j < length rss \<Longrightarrow> \<not> live bufs (rss ! j)" "pass_batch bufs rss = []" "pass_rest bufs rss = rss"
      "snd (snd (oldest_ring bufs rss)) = None"
    | (some) i "next" where "i < length rss" "live bufs (rss ! i)"
      "snd (oldest_ring bufs rss) = (next, Some i)"
      "pass_batch bufs rss = map (Pair i) (take 101 (upto_next bufs next (rss ! i)))" "pass_batch bufs rss \<noteq> []"
      "pass_rest bufs rss = rss[i := drop (length (pass_batch bufs rss)) (rss ! i)]"
      "\<And>j. j < length rss \<Longrightarrow> live bufs (rss ! j) \<Longrightarrow> j \<noteq> i \<Longrightarrow> \<exists>n. next = Some n \<and> n \<le> time_of bufs (hd (rss ! j))"
proof -
  obtain ot nt oc where x: "oldest_ring bufs rss = (ot, nt, oc)" by (cases "oldest_ring bufs rss")
  have ok: "oldest_ok (\<lambda>j. live bufs (rss ! j)) (\<lambda>j. time_of bufs (hd (rss ! j))) (length rss) (ot, nt, oc)"
    using oldest_upto_ok [of bufs rss "length rss"] x by simp
  show thesis
  proof (cases oc)
    case None
    then show thesis using ok x by (intro none) (auto simp: oldest_ok_def pass_batch_def pass_rest_def)
  next
    case (Some i)
    then have i: "i < length rss" "live bufs (rss ! i)"
      "\<And>j. j < length rss \<Longrightarrow> live bufs (rss ! j) \<Longrightarrow> j \<noteq> i \<Longrightarrow> \<exists>n. nt = Some n \<and> n \<le> time_of bufs (hd (rss ! j))"
      "\<And>n. nt = Some n \<Longrightarrow> time_of bufs (hd (rss ! i)) \<le> n"
      using ok by (auto simp: oldest_ok_def)
    have b: "pass_batch bufs rss = map (Pair i) (take 101 (upto_next bufs nt (rss ! i)))"
      using x Some by (simp add: pass_batch_def)
    obtain r rs where r: "rss ! i = r # rs" using i(2) by (cases "rss ! i") auto
    have "pass_batch bufs rss \<noteq> []" using i(4) r by (auto simp: b upto_next_def split: option.splits)
    then show thesis using i b x Some by (intro some [of i nt]) (auto simp: pass_rest_def)
  qed
qed

section \<open>The source carries out the abstract pass\<close>

text \<open>The rings at their cursors, and the rings as the kernel left them.\<close>

definition reading :: "ring_source \<Rightarrow> byte list list list \<Rightarrow> bool" where
  "reading src xss \<longleftrightarrow>
     length (src_readers src) = length xss \<and> length (src_mems src) = length xss \<and> length (src_cursors src) = length xss \<and>
     (\<forall>i<length xss. in_ring (src_readers src ! i) (src_mems src ! i) (src_cursors src ! i) (xss ! i))"

definition source_holds :: "ring_source \<Rightarrow> byte list list list \<Rightarrow> bool" where
  "source_holds src rss \<longleftrightarrow>
     length (src_readers src) = length rss \<and> length (src_mems src) = length rss \<and> length (src_cursors src) = length rss \<and>
     (\<forall>i<length rss. holds (src_readers src ! i) (src_mems src ! i) (rss ! i))"

abbreviation at_cursors :: "ring_source \<Rightarrow> ring_cursor list \<Rightarrow> ring_source" where
  "at_cursors src cs \<equiv> src\<lparr>src_cursors := cs\<rparr>"

definition ring_at :: "ring_source \<Rightarrow> nat \<Rightarrow> byte list list \<Rightarrow> bool" where
  "ring_at src i xs \<longleftrightarrow>
     i < length (src_readers src) \<and> i < length (src_mems src) \<and> i < length (src_cursors src) \<and>
     in_ring (src_readers src ! i) (src_mems src ! i) (src_cursors src ! i) xs"

lemma reading_ring_at: "reading src xss \<Longrightarrow> i < length xss \<Longrightarrow> ring_at src i (xss ! i)"
  by (simp add: reading_def ring_at_def)

lemma begin_ring_holds:
  assumes "source_holds src rss" "i < length rss"
  shows "\<exists>c. begin_ring i src = Some (at_cursors src ((src_cursors src)[i := c])) \<and>
    ring_at (at_cursors src ((src_cursors src)[i := c])) i (rss ! i)"
proof -
  from assms have "holds (src_readers src ! i) (src_mems src ! i) (rss ! i)" by (simp add: source_holds_def)
  from begin_holds [OF this, of "src_cursors src ! i"] obtain c where
    "begin_reading (src_mems src ! i) (src_cursors src ! i) = Some c"
    "in_ring (src_readers src ! i) (src_mems src ! i) c (rss ! i)" by blast
  then show ?thesis using assms by (intro exI [of _ c]) (simp add: begin_ring_def at_ok source_holds_def ring_at_def)
qed

lemma end_ring_at:
  assumes "source_holds src rss" "ring_at src i xs" "i < length rss"
  shows "\<exists>m. end_ring i src = Some (src\<lparr>src_mems := (src_mems src)[i := m]\<rparr>) \<and>
    source_holds (src\<lparr>src_mems := (src_mems src)[i := m]\<rparr>) (rss[i := xs])"
proof -
  from end_in_ring assms(2) obtain m where "end_reading (src_mems src ! i) (src_cursors src ! i) = Some m"
    "holds (src_readers src ! i) m xs" unfolding ring_at_def by blast
  then show ?thesis using assms
    by (intro exI [of _ m]) (auto simp: end_ring_def at_ok ring_at_def source_holds_def nth_list_update)
qed

lemma begin_rings_holds:
  assumes "source_holds src rss" "set is \<subseteq> {..<length rss}"
  shows "\<exists>cs. begin_rings is src = Some (at_cursors src cs) \<and> length cs = length rss \<and>
    (\<forall>i \<in> set is. in_ring (src_readers src ! i) (src_mems src ! i) (cs ! i) (rss ! i)) \<and>
    (\<forall>i<length rss. i \<notin> set is \<longrightarrow> cs ! i = src_cursors src ! i)"
  using assms
proof (induction "is" arbitrary: src)
  case Nil
  then show ?case by (intro exI [of _ "src_cursors src"]) (simp add: source_holds_def)
next
  case (Cons i "is")
  then have i: "i < length rss" by simp
  from begin_ring_holds [OF Cons.prems(1) i] obtain c where
    b: "begin_ring i src = Some (at_cursors src ((src_cursors src)[i := c]))" and
    c: "ring_at (at_cursors src ((src_cursors src)[i := c])) i (rss ! i)" by blast
  let ?src = "at_cursors src ((src_cursors src)[i := c])"
  have "source_holds ?src rss" using Cons.prems(1) by (simp add: source_holds_def)
  from Cons.IH [OF this] Cons.prems(2) obtain cs where cs: "begin_rings is ?src = Some (at_cursors ?src cs)"
    "length cs = length rss"
    "\<forall>i \<in> set is. in_ring (src_readers src ! i) (src_mems src ! i) (cs ! i) (rss ! i)"
    "\<forall>j<length rss. j \<notin> set is \<longrightarrow> cs ! j = (src_cursors src)[i := c] ! j" by auto
  have "in_ring (src_readers src ! i) (src_mems src ! i) (cs ! i) (rss ! i)"
    using cs(3,4) c i by (cases "i \<in> set is") (auto simp: ring_at_def)
  then show ?case using b cs by (intro exI [of _ cs]) auto
qed

lemma begin_rings_all:
  assumes "source_holds src rss"
  shows "\<exists>cs. begin_rings [0..<length rss] src = Some (at_cursors src cs) \<and> reading (at_cursors src cs) rss"
proof -
  have "set [0..<length rss] \<subseteq> {..<length rss}" by auto
  from begin_rings_holds [OF assms this] obtain cs where "begin_rings [0..<length rss] src = Some (at_cursors src cs)"
    "length cs = length rss"
    "\<forall>i \<in> set [0..<length rss]. in_ring (src_readers src ! i) (src_mems src ! i) (cs ! i) (rss ! i)" by blast
  then show ?thesis using assms by (intro exI [of _ cs]) (simp add: reading_def source_holds_def)
qed

text \<open>Looking at the time of a ring moves its cursor only past a record of no known buffer.\<close>

definition looked :: "(u64 \<rightharpoonup> cpu_ring_buf) \<Rightarrow> byte list list \<Rightarrow> byte list list" where
  "looked bufs rs = (if live bufs rs then rs else tl rs)"

lemma source_read_time_at:
  assumes "ring_at src i xs" "tidy (src_ring_bufs src) xs"
  shows "\<exists>c. source_read_time i src =
      Some (if live (src_ring_bufs src) xs
            then map_option (Pair (time_of (src_ring_bufs src) (hd xs))) (rec_buf (src_ring_bufs src) (hd xs))
            else None, at_cursors src ((src_cursors src)[i := c])) \<and>
    in_ring (src_readers src ! i) (src_mems src ! i) c (looked (src_ring_bufs src) xs)"
proof -
  let ?bufs = "src_ring_bufs src" and ?rd = "src_readers src ! i" and ?mem = "src_mems src ! i" and ?c = "src_cursors src ! i"
  have r: "in_ring ?rd ?mem ?c xs" and
    a: "at (src_readers src) i = Some ?rd" "at (src_mems src) i = Some ?mem" "at (src_cursors src) i = Some ?c"
    using assms(1) by (simp_all add: ring_at_def at_ok)
  show ?thesis
  proof (cases xs)
    case Nil
    then have "in_ring ?rd ?mem ?c []" using r by simp
    from time_none [OF this] show ?thesis
      using a r Nil by (intro exI [of _ ?c]) (simp add: source_read_time_def looked_def)
  next
    case (Cons x ys)
    then have rx: "in_ring ?rd ?mem ?c (x # ys)" using r by simp
    show ?thesis
    proof (cases "rec_buf ?bufs x")
      case None
      from time_of_unknown [OF rx None] obtain c where "read_time ?rd ?mem ?bufs ?c = Some (None, c)"
        "in_ring ?rd ?mem c ys" by blast
      then show ?thesis using a Cons None by (intro exI [of _ c]) (simp add: source_read_time_def looked_def)
    next
      case (Some b)
      then have "time_fits b x" using assms(2) Cons by (auto simp: tidy_def known_def)
      from time_of_record [OF rx Some this] show ?thesis
        using a Cons Some r by (intro exI [of _ ?c]) (simp add: source_read_time_def looked_def time_of_def)
    qed
  qed
qed

lemmas source_read_time_reading = source_read_time_at [OF reading_ring_at]

lemma find_from_reading:
  assumes "reading src xss" "set is \<subseteq> {..<length xss}" "distinct is" "\<forall>i \<in> set is. tidy (src_ring_bufs src) (xss ! i)"
  shows "\<exists>cs. find_from is (x, src) = Some (oldest_upto (src_ring_bufs src) xss is x, at_cursors src cs) \<and>
    length cs = length xss \<and>
    (\<forall>i<length xss. in_ring (src_readers src ! i) (src_mems src ! i) (cs ! i)
       (if i \<in> set is then looked (src_ring_bufs src) (xss ! i) else xss ! i))"
  using assms
proof (induction "is" arbitrary: src x xss)
  case Nil
  then show ?case by (intro exI [of _ "src_cursors src"]) (simp add: reading_def oldest_upto_def)
next
  case (Cons i "is")
  let ?bufs = "src_ring_bufs src"
  have i: "i < length xss" "i \<notin> set is" "distinct is" using Cons.prems by auto
  from source_read_time_reading [OF Cons.prems(1) i(1)] Cons.prems(4) obtain c where c:
    "source_read_time i src =
      Some (if live ?bufs (xss ! i)
            then map_option (Pair (time_of ?bufs (hd (xss ! i)))) (rec_buf ?bufs (hd (xss ! i)))
            else None, at_cursors src ((src_cursors src)[i := c]))"
    "in_ring (src_readers src ! i) (src_mems src ! i) c (looked ?bufs (xss ! i))" by auto
  let ?src = "at_cursors src ((src_cursors src)[i := c])" and ?xss = "xss[i := looked ?bufs (xss ! i)]"
  let ?x = "if live ?bufs (xss ! i) then note_time i (time_of ?bufs (hd (xss ! i))) x else x"
  have "reading ?src ?xss"
    using Cons.prems(1) c(2) i(1) by (auto simp: reading_def nth_list_update)
  moreover have "set is \<subseteq> {..<length ?xss}" using Cons.prems(2) by auto
  moreover have "\<forall>j \<in> set is. tidy (src_ring_bufs ?src) (?xss ! j)"
  proof
    fix j assume "j \<in> set is"
    then show "tidy (src_ring_bufs ?src) (?xss ! j)" using Cons.prems(4) i(2) by (cases "j = i") auto
  qed
  ultimately obtain cs where cs:
    "find_from is (?x, ?src) = Some (oldest_upto ?bufs ?xss is ?x, at_cursors src cs)" "length cs = length xss"
    "\<forall>j<length xss. in_ring (src_readers src ! j) (src_mems src ! j) (cs ! j)
       (if j \<in> set is then looked ?bufs (?xss ! j) else ?xss ! j)"
    using Cons.IH [of ?src ?xss ?x] i(3) by (auto cong: if_cong)
  have o: "oldest_upto ?bufs ?xss is ?x = oldest_upto ?bufs xss is ?x"
  proof -
    have "?xss ! j = xss ! j" if "j \<in> set is" for j using that i(2) by (cases "j = i") auto
    then show ?thesis unfolding oldest_upto_def by (intro fold_cong) auto
  qed
  have "find_from (i # is) (x, src) = Some (oldest_upto ?bufs xss (i # is) x, at_cursors src cs)"
  proof -
    have "live ?bufs (xss ! i) \<Longrightarrow> rec_buf ?bufs (hd (xss ! i)) \<noteq> None" by (cases "xss ! i") auto
    then show ?thesis using c(1) cs(1) o by (auto simp: oldest_upto_def)
  qed
  moreover have "in_ring (src_readers src ! j) (src_mems src ! j) (cs ! j)
      (if j \<in> set (i # is) then looked ?bufs (xss ! j) else xss ! j)" if "j < length xss" for j
    using cs(3) that i(2) by (cases "j = i") (auto simp: nth_list_update)
  ultimately show ?case using cs(2) by (intro exI [of _ cs]) blast
qed

lemma begin_reading_holds:
  assumes "source_holds src rss" "\<forall>rs \<in> set rss. tidy (src_ring_bufs src) rs"
  shows "\<exists>cs. source_begin_reading src = Some (at_cursors src cs
      \<lparr>src_oldest_cpu := snd (snd (oldest_ring (src_ring_bufs src) rss)),
       src_next_time := fst (snd (oldest_ring (src_ring_bufs src) rss))\<rparr>) \<and>
    reading (at_cursors src cs) (map (looked (src_ring_bufs src)) rss)"
proof -
  let ?bufs = "src_ring_bufs src"
  from begin_rings_all [OF assms(1)] obtain cs where cs: "begin_rings [0..<length rss] src = Some (at_cursors src cs)"
    "reading (at_cursors src cs) rss" by blast
  from find_from_reading [OF cs(2), of "[0..<length rss]" "(None, None, None)", unfolded set_upt atLeast0LessThan] assms(2) obtain cs' where cs':
    "find_from [0..<length rss] ((None, None, None), at_cursors src cs) = Some (oldest_ring ?bufs rss, at_cursors src cs')"
    "length cs' = length rss"
    "\<forall>i<length rss. in_ring (src_readers src ! i) (src_mems src ! i) (cs' ! i) (looked ?bufs (rss ! i))" by auto
  have len: "length (src_readers src) = length rss" "length (src_mems src) = length rss"
    using assms(1) by (simp_all add: source_holds_def)
  have "reading (at_cursors src cs') (map (looked ?bufs) rss)" using cs'(2,3) len by (simp add: reading_def)
  moreover have "source_begin_reading src = Some (at_cursors src cs'
      \<lparr>src_oldest_cpu := snd (snd (oldest_ring ?bufs rss)), src_next_time := fst (snd (oldest_ring ?bufs rss))\<rparr>)"
    using cs(1) cs'(1) len by (simp add: source_begin_reading_def find_current_buffer_def split: prod.split)
  ultimately show ?thesis by blast
qed

lemma reading_update:
  assumes "reading src xss" "i < length xss" "in_ring (src_readers src ! i) (src_mems src ! i) c xs"
  shows "reading (at_cursors src ((src_cursors src)[i := c])) (xss[i := xs])"
  using assms by (auto simp: reading_def nth_list_update)

lemma source_read_reading:
  assumes r: "reading src xss" and i: "src_oldest_cpu src = Some i" "i < length xss"
    and k: "list_all (known (src_ring_bufs src)) (xss ! i)"
  shows "\<exists>cs. (case upto_next (src_ring_bufs src) (src_next_time src) (xss ! i) of
      [] \<Rightarrow> source_read src = Some (None, at_cursors src cs) \<and> reading (at_cursors src cs) xss
    | x # _ \<Rightarrow> source_read src = Some (Some (perf_of (src_ring_bufs src) (i, x)), at_cursors src cs) \<and>
        reading (at_cursors src cs) (xss[i := tl (xss ! i)]))"
proof -
  let ?bufs = "src_ring_bufs src"
  have "tidy ?bufs (xss ! i)" using k by (simp add: tidy_def)
  from source_read_time_reading [OF r i(2) this] obtain c where c:
    "source_read_time i src =
      Some (if live ?bufs (xss ! i)
            then map_option (Pair (time_of ?bufs (hd (xss ! i)))) (rec_buf ?bufs (hd (xss ! i)))
            else None, at_cursors src ((src_cursors src)[i := c]))"
    "in_ring (src_readers src ! i) (src_mems src ! i) c (looked ?bufs (xss ! i))" by blast
  have bound: "i < length (src_readers src)" "i < length (src_mems src)" "i < length (src_cursors src)"
    using r i(2) by (simp_all add: reading_def)
  show ?thesis
  proof (cases "xss ! i")
    case Nil
    have "in_ring (src_readers src ! i) (src_mems src ! i) c []" using c(2) Nil by (simp add: looked_def)
    from reading_update [OF r i(2) this] Nil have "reading (at_cursors src ((src_cursors src)[i := c])) xss"
      by (metis list_update_id)
    then show ?thesis using c(1) Nil i(1) by (intro exI [of _ "(src_cursors src)[i := c]"]) (simp add: source_read_def upto_next_def)
  next
    case (Cons x xs)
    then obtain b where b: "rec_buf ?bufs x = Some b" using k by (auto simp: known_buf)
    have in1: "in_ring (src_readers src ! i) (src_mems src ! i) c (x # xs)" using c(2) Cons b by (simp add: looked_def)
    have rt: "source_read_time i src = Some (Some (time_of ?bufs x, b), at_cursors src ((src_cursors src)[i := c]))"
      using c(1) Cons b by simp
    show ?thesis
    proof (cases "case src_next_time src of None \<Rightarrow> True | Some t \<Rightarrow> time_of ?bufs x \<le> t")
      case False
      from reading_update [OF r i(2) in1] Cons have "reading (at_cursors src ((src_cursors src)[i := c])) xss"
        by (metis list_update_id)
      then show ?thesis using rt False i(1) Cons
        by (intro exI [of _ "(src_cursors src)[i := c]"]) (auto simp: source_read_def upto_next_def split: option.splits)
    next
      case True
      from read_in_ring [OF in1] obtain c' where c': "reader_read (src_readers src ! i) (src_mems src ! i) c = Some (x, c')"
        "in_ring (src_readers src ! i) (src_mems src ! i) c' xs" by blast
      have "source_read src = Some (Some (perf_of ?bufs (i, x)), at_cursors src ((src_cursors src)[i := c']))"
        using rt True i(1) c'(1) b bound
        by (auto simp: source_read_def read_ring_def at_ok perf_of_def split: option.splits)
      moreover have "reading (at_cursors src ((src_cursors src)[i := c'])) (xss[i := tl (xss ! i)])"
        using reading_update [OF r i(2) c'(2)] Cons by simp
      ultimately show ?thesis using True Cons
        by (intro exI [of _ "(src_cursors src)[i := c']"]) (simp add: upto_next_def)
    qed
  qed
qed

lemma parse_records_reading:
  assumes "reading src xss" "src_oldest_cpu src = Some i" "i < length xss" "list_all (known (src_ring_bufs src)) (xss ! i)"
    "taken = take n (upto_next (src_ring_bufs src) (src_next_time src) (xss ! i))"
  shows "\<exists>cs. (\<forall>ss :: 's session. parse_records n source_read (ss, src) =
       map_option (\<lambda>ss'. (ss', at_cursors src cs)) (parse_list (map (\<lambda>r. perf_of (src_ring_bufs src) (i, r)) taken) ss)) \<and>
     reading (at_cursors src cs) (xss[i := drop (length taken) (xss ! i)])"
  using assms
proof (induction n arbitrary: src xss taken)
  case 0
  then show ?case by (intro exI [of _ "src_cursors src"]) simp
next
  case (Suc n)
  let ?bufs = "src_ring_bufs src" and ?next = "src_next_time src"
  from source_read_reading [OF Suc.prems(1-4)] obtain cs where cs:
    "case upto_next ?bufs ?next (xss ! i) of
      [] \<Rightarrow> source_read src = Some (None, at_cursors src cs) \<and> reading (at_cursors src cs) xss
    | x # _ \<Rightarrow> source_read src = Some (Some (perf_of ?bufs (i, x)), at_cursors src cs) \<and>
        reading (at_cursors src cs) (xss[i := tl (xss ! i)])" by blast
  show ?case
  proof (cases "upto_next ?bufs ?next (xss ! i)")
    case Nil
    then have "taken = []" using Suc.prems(5) by simp
    then show ?thesis using cs Nil by (intro exI [of _ cs]) (simp add: parse_perf_data_def)
  next
    case (Cons x ys)
    then obtain xs where x: "xss ! i = x # xs" "ys = upto_next ?bufs ?next xs"
      by (cases "xss ! i") (auto simp: upto_next_def split: if_splits)
    define taken' where "taken' = take n ys"
    have t: "taken = x # taken'" using Suc.prems(5) Cons by (simp add: taken'_def)
    let ?src = "at_cursors src cs" and ?xss = "xss[i := xs]"
    have rd: "source_read src = Some (Some (perf_of ?bufs (i, x)), ?src)" "reading ?src ?xss" using cs Cons x by simp_all
    have "src_oldest_cpu ?src = Some i" "i < length ?xss" "list_all (known (src_ring_bufs ?src)) (?xss ! i)"
      "taken' = take n (upto_next (src_ring_bufs ?src) (src_next_time ?src) (?xss ! i))"
      using Suc.prems(2-4) x by (simp_all add: taken'_def)
    from Suc.IH [OF rd(2) this] obtain cs' where i: "\<forall>ss :: 's session. parse_records n source_read (ss, ?src) =
         map_option (\<lambda>ss'. (ss', at_cursors src cs')) (parse_list (map (\<lambda>r. perf_of ?bufs (i, r)) taken') ss)"
      "reading (at_cursors src cs') (?xss[i := drop (length taken') (?xss ! i)])" by auto
    have "parse_records (Suc n) source_read (ss, src) =
       map_option (\<lambda>ss'. (ss', at_cursors src cs')) (parse_list (map (\<lambda>r. perf_of ?bufs (i, r)) taken) ss)" for ss :: "'s session"
      using rd(1) i(1) by (cases "parse_record (perf_of ?bufs (i, x)) ss") (simp_all add: parse_perf_data_def t)
    moreover have "reading (at_cursors src cs') (xss[i := drop (length taken) (xss ! i)])"
      using i(2) x(1) Suc.prems(3) t by simp
    ultimately show ?thesis by blast
  qed
qed

text \<open>The state of a source whose rings hold the records, and the pass.\<close>

definition rings_rel :: "(u64 \<rightharpoonup> cpu_ring_buf) \<Rightarrow> ring_source \<Rightarrow> byte list list list \<Rightarrow> bool" where
  "rings_rel bufs src rss \<longleftrightarrow>
     source_holds src rss \<and> src_ring_bufs src = bufs \<and> \<not> src_enabled src \<and> list_all (tidy bufs) rss"

lemma pass_rings:
  assumes "rings_rel bufs src rss"
  shows "\<exists>src'. rings_rel bufs src' (pass_rest bufs rss) \<and> (source_more src' \<longleftrightarrow> pass_batch bufs rss \<noteq> []) \<and>
    (\<forall>ss :: 's session. parse_pass ring_data_source (ss, src) =
      map_option (\<lambda>ss'. (ss', src')) (parse_list (map (perf_of bufs) (pass_batch bufs rss)) ss))"
proof -
  have h: "source_holds src rss" "src_ring_bufs src = bufs" "\<not> src_enabled src" "list_all (tidy bufs) rss"
    using assms by (simp_all add: rings_rel_def)
  have "\<forall>rs \<in> set rss. tidy (src_ring_bufs src) rs" using h(2,4) by (simp add: list_all_iff)
  from begin_reading_holds [OF h(1) this] h(2) obtain cs where cs: "source_begin_reading src = Some (at_cursors src cs
      \<lparr>src_oldest_cpu := snd (snd (oldest_ring bufs rss)), src_next_time := fst (snd (oldest_ring bufs rss))\<rparr>)"
    "reading (at_cursors src cs) (map (looked bufs) rss)" by auto
  define src1 where "src1 = at_cursors src cs
      \<lparr>src_oldest_cpu := snd (snd (oldest_ring bufs rss)), src_next_time := fst (snd (oldest_ring bufs rss))\<rparr>"
  have src1: "src_ring_bufs src1 = bufs" "\<not> src_enabled src1" "src_oldest_cpu src1 = snd (snd (oldest_ring bufs rss))"
    "src_next_time src1 = fst (snd (oldest_ring bufs rss))" "reading src1 (map (looked bufs) rss)"
    "source_holds src1 rss" "source_begin_reading src = Some src1"
    using h cs by (simp_all add: src1_def reading_def source_holds_def)
  let ?xss = "map (looked bufs) rss"
  show ?thesis
  proof (cases rule: pass_cases [of rss bufs])
    case none
    have p: "parse_pass ring_data_source (ss, src) = Some (ss, src1)" for ss :: "'s session"
    proof -
      have "parse_records 101 source_read (ss, src1) = Some (ss, src1)"
        using none(4) src1(3) by (simp add: numeral_eq_Suc parse_perf_data_def source_read_def)
      then show ?thesis using none(4) src1
        by (simp add: parse_pass_def ring_data_source_def source_end_reading_def)
    qed
    show ?thesis
      by (intro exI [of _ src1]) (use none src1 h p in \<open>simp add: rings_rel_def source_more_def\<close>)
  next
    case (some i "next")
    have o: "src_oldest_cpu src1 = Some i" "src_next_time src1 = next" using src1(3,4) some(3) by simp_all
    have x: "?xss ! i = rss ! i" "i < length ?xss" using some(1,2) by (simp_all add: looked_def)
    have known: "list_all (known bufs) (rss ! i)" using h(4) some(1,2) by (auto simp: list_all_length tidy_def)
    define taken where "taken = take 101 (upto_next bufs next (rss ! i))"
    have "list_all (known (src_ring_bufs src1)) (?xss ! i)"
      "taken = take 101 (upto_next (src_ring_bufs src1) (src_next_time src1) (?xss ! i))"
      using known by (simp_all only: src1(1) o(2) x(1) taken_def)
    from parse_records_reading [OF src1(5) o(1) x(2) this] obtain cs' where r:
      "\<forall>ss :: 's session. parse_records 101 source_read (ss, src1) =
         map_option (\<lambda>ss'. (ss', at_cursors src1 cs')) (parse_list (map (\<lambda>r. perf_of bufs (i, r)) taken) ss)"
      "reading (at_cursors src1 cs') (?xss[i := drop (length taken) (rss ! i)])"
      unfolding src1(1) x(1) by auto
    let ?src = "at_cursors src1 cs'"
    have "source_holds ?src rss" using src1(6) r(2) by (simp add: source_holds_def reading_def)
    moreover have "ring_at ?src i (drop (length taken) (rss ! i))"
      using reading_ring_at [OF r(2), of i] some(1) by simp
    ultimately obtain m where
      m: "end_ring i ?src = Some (?src\<lparr>src_mems := (src_mems ?src)[i := m]\<rparr>)"
        "source_holds (?src\<lparr>src_mems := (src_mems ?src)[i := m]\<rparr>) (rss[i := drop (length taken) (rss ! i)])"
      using end_ring_at some(1) by blast
    have b: "pass_batch bufs rss = map (Pair i) taken" using some(4) by (simp add: taken_def)
    let ?src' = "?src\<lparr>src_mems := (src_mems ?src)[i := m]\<rparr>"
    have "list_all (tidy bufs) (pass_rest bufs rss)"
      using h(4) some(1,6) tidy_drop [of bufs "rss ! i"] some(2)
      by (auto simp: list_all_length nth_list_update)
    then have "rings_rel bufs ?src' (pass_rest bufs rss)"
      using m(2) src1(1,2) some(6) b by (simp add: rings_rel_def)
    moreover have "source_more ?src'" using o(1) by (simp add: source_more_def)
    moreover have "parse_pass ring_data_source (ss, src) =
        map_option (\<lambda>ss'. (ss', ?src')) (parse_list (map (perf_of bufs) (pass_batch bufs rss)) ss)" for ss :: "'s session"
      using r(1) m(1) o(1) src1(7)
      by (cases "parse_list (map (\<lambda>r. perf_of bufs (i, r)) taken) ss")
        (simp_all add: parse_pass_def ring_data_source_def source_end_reading_def b comp_def)
    ultimately show ?thesis using some(5) by blast
  qed
qed

lemma pass_prefix:
  "take n (upto_next bufs next rs) = take (length (take n (upto_next bufs next rs))) rs" (is "?t = _")
proof -
  define P where "P = (\<lambda>r. case next of None \<Rightarrow> True | Some t \<Rightarrow> time_of bufs r \<le> t)"
  have t: "?t = take n (takeWhile P rs)" by (simp add: upto_next_def P_def)
  have "take n (takeWhile P rs) @ drop n (takeWhile P rs) @ dropWhile P rs = rs"
    by (simp flip: append_assoc)
  then show ?thesis unfolding t by (metis append_eq_conv_conj)
qed

lemma pass_batch_prefix:
  assumes "pass_batch bufs rss = map (Pair i) (take n (upto_next bufs next (rss ! i)))"
  shows "pass_batch bufs rss = map (Pair i) (take (length (pass_batch bufs rss)) (rss ! i))"
proof -
  have "length (pass_batch bufs rss) = length (take n (upto_next bufs next (rss ! i)))"
    using arg_cong [OF assms, of length] by simp
  then show ?thesis using assms pass_prefix [of n bufs "next" "rss ! i"] by metis
qed

lemma pass_progress:
  assumes "pass_batch bufs rss \<noteq> []"
  shows "pass_left bufs (pass_rest bufs rss) < pass_left bufs rss"
proof (cases rule: pass_cases [of rss bufs])
  case (some i "next")
  let ?f = "\<lambda>rs. if live bufs rs then length rs else 0" and ?rs = "drop (length (pass_batch bufs rss)) (rss ! i)"
  have le: "?f (rss ! i) \<le> sum_list (map ?f rss)" using elem_le_sum_list [of i "map ?f rss"] some(1) by simp
  have pos: "0 < length (pass_batch bufs rss)" "0 < length (rss ! i)" using assms some(2) by (auto simp: live.simps elim: live.elims)
  have "pass_left bufs (pass_rest bufs rss) = sum_list (map ?f rss) + ?f ?rs - ?f (rss ! i)"
    using some(1) by (simp add: pass_left_def some(6) map_update sum_list_update)
  moreover have "?f ?rs < ?f (rss ! i)" using pos some(2) by simp
  ultimately show ?thesis using le by (simp add: pass_left_def)
qed (use assms in simp)

interpretation rings: batch_source ring_data_source "rings_rel bufs" "pass_batch bufs" "pass_rest bufs" "pass_left bufs" "perf_of bufs"
  for bufs
proof
  show "pass_rest bufs rss = rss" if "rings_rel bufs src rss" "pass_batch bufs rss = []" for src rss
    using that(2) by (cases rule: pass_cases [of rss bufs]) simp_all
  show "\<exists>src'. rings_rel bufs src' (pass_rest bufs rss) \<and> (ds_more ring_data_source src' \<longleftrightarrow> pass_batch bufs rss \<noteq> []) \<and>
      (\<forall>ss :: 'c session. parse_pass ring_data_source (ss, src) =
         map_option (\<lambda>ss'. (ss', src')) (parse_list (map (perf_of bufs) (pass_batch bufs rss)) ss))"
    if "rings_rel bufs src rss" for src rss
    using pass_rings [OF that, where 's = 'c] by (simp add: ring_data_source_def)
qed (rule pass_progress)

section \<open>What is delivered\<close>

definition visible :: "(u64 \<rightharpoonup> cpu_ring_buf) \<Rightarrow> byte list list \<Rightarrow> byte list list" where
  "visible bufs rs = (if live bufs rs then rs else [])"

lemma delivery_none: "pass_batch bufs rss = [] \<Longrightarrow> rings.delivery bufs n rss = ([], rss)"
proof -
  assume b: "pass_batch bufs rss = []"
  then have "pass_rest bufs rss = rss" by (cases rule: pass_cases [of rss bufs]) simp_all
  then show ?thesis using b by (induction n) simp_all
qed

lemma no_batch_not_live: "pass_batch bufs rss = [] \<Longrightarrow> i < length rss \<Longrightarrow> \<not> live bufs (rss ! i)"
  by (cases rule: pass_cases [of rss bufs]) simp_all

lemma length_pass_rest [simp]: "length (pass_rest bufs rss) = length rss"
  by (cases rule: pass_cases [of rss bufs]) simp_all

text \<open>By induction over the passes, for a property of the rings and what is delivered.\<close>

lemma delivery_induct [consumes 2, case_names none some]:
  assumes "list_all (tidy bufs) rss" "pass_left bufs rss \<le> n"
    and none: "\<And>rss. list_all (tidy bufs) rss \<Longrightarrow> (\<And>i. i < length rss \<Longrightarrow> \<not> live bufs (rss ! i)) \<Longrightarrow> P rss ([], rss)"
    and some: "\<And>rss i next k ds. list_all (tidy bufs) rss \<Longrightarrow> i < length rss \<Longrightarrow> live bufs (rss ! i) \<Longrightarrow> 0 < k \<Longrightarrow>
      k \<le> length (rss ! i) \<Longrightarrow>
      (\<forall>r \<in> set (take k (rss ! i)). \<forall>n. next = Some n \<longrightarrow> time_of bufs r \<le> n) \<Longrightarrow>
      (\<forall>j<length rss. live bufs (rss ! j) \<longrightarrow> j \<noteq> i \<longrightarrow> (\<exists>n. next = Some n \<and> n \<le> time_of bufs (hd (rss ! j)))) \<Longrightarrow>
      list_all (tidy bufs) (rss[i := drop k (rss ! i)]) \<Longrightarrow>
      P (rss[i := drop k (rss ! i)]) ds \<Longrightarrow> P rss (map (Pair i) (take k (rss ! i)) @ fst ds, snd ds)"
  shows "P rss (rings.delivery bufs n rss)"
  using assms(1,2)
proof (induction n arbitrary: rss)
  case 0
  then have "pass_batch bufs rss = []" using pass_progress [of bufs rss] by fastforce
  then show ?case using none [OF 0(1)] no_batch_not_live [of bufs rss] by (simp add: delivery_none)
next
  case (Suc n)
  show ?case
  proof (cases rule: pass_cases [of rss bufs])
    case none
    then show ?thesis using assms(3) [OF Suc.prems(1)] by (simp add: delivery_none)
  next
    case (some i "next")
    define k where "k = length (pass_batch bufs rss)"
    have b: "pass_batch bufs rss = map (Pair i) (take k (rss ! i))"
      using pass_batch_prefix [OF some(4)] by (simp add: k_def)
    have k: "0 < k" "k \<le> length (rss ! i)" using some(5) arg_cong [OF b, of length] by (auto simp: k_def)
    have r: "pass_rest bufs rss = rss[i := drop k (rss ! i)]" using some(6) by (simp add: k_def)
    have "map snd (pass_batch bufs rss) = take k (rss ! i)" unfolding b by (simp add: comp_def)
    moreover have "map snd (pass_batch bufs rss) = take 101 (upto_next bufs next (rss ! i))"
      unfolding some(4) by (simp add: comp_def)
    ultimately have "set (take k (rss ! i)) \<subseteq> set (upto_next bufs next (rss ! i))" by (metis set_take_subset)
    then have t: "\<forall>r \<in> set (take k (rss ! i)). \<forall>n. next = Some n \<longrightarrow> time_of bufs r \<le> n"
      by (auto simp: upto_next_def dest!: set_takeWhileD subsetD)
    have tidy: "list_all (tidy bufs) (rss[i := drop k (rss ! i)])"
      using Suc.prems(1) some(1,2) tidy_drop [of bufs "rss ! i" k] by (auto simp: list_all_length nth_list_update)
    have "pass_left bufs (pass_rest bufs rss) \<le> n" using pass_progress [OF some(5)] Suc.prems(2) by simp
    from Suc.IH [of "pass_rest bufs rss"] this tidy r
    have "P (rss[i := drop k (rss ! i)]) (rings.delivery bufs n (pass_rest bufs rss))" by simp
    from assms(4) [OF Suc.prems(1) some(1,2) k t _ tidy this] some(7)
    show ?thesis by (simp add: b)
  qed
qed

lemma live_drop: "live bufs rs \<Longrightarrow> tidy bufs rs \<Longrightarrow> live bufs (drop k rs) \<or> drop k rs = []"
proof -
  assume "live bufs rs" "tidy bufs rs"
  then have "list_all (known bufs) (drop k rs)" by (auto simp: tidy_def list_all_iff dest: in_set_dropD)
  then show ?thesis by (cases "drop k rs") (auto simp: known_buf)
qed

lemma visible_split: "live bufs rs \<Longrightarrow> tidy bufs rs \<Longrightarrow> take k rs @ visible bufs (drop k rs) = rs"
  using live_drop [of bufs rs k] by (auto simp: visible_def)

lemma delivery_rings:
  assumes "list_all (tidy bufs) rss" "pass_left bufs rss \<le> n"
  shows "length (snd (rings.delivery bufs n rss)) = length rss \<and>
    (\<forall>x \<in> set (fst (rings.delivery bufs n rss)). fst x < length rss) \<and>
    (\<forall>j<length rss. map snd (filter (\<lambda>x. fst x = j) (fst (rings.delivery bufs n rss))) = visible bufs (rss ! j) \<and>
       snd (rings.delivery bufs n rss) ! j = (if live bufs (rss ! j) then [] else rss ! j))"
  using assms
proof (induction rule: delivery_induct)
  case (none rss)
  then show ?case by (simp add: visible_def)
next
  case (some rss i "next" k ds)
  let ?rss = "rss[i := drop k (rss ! i)]"
  have ti: "tidy bufs (rss ! i)" using some(1,2) by (simp add: list_all_length)
  have own: "map snd (filter (\<lambda>x. fst x = i) (map (Pair i) (take k (rss ! i)))) = take k (rss ! i)"
    by (simp add: filter_map comp_def)
  have other: "filter (\<lambda>x. fst x = j) (map (Pair i) (take k (rss ! i))) = []" if "j \<noteq> i" for j
    using that by (auto simp: filter_empty_conv)
  have split: "take k (rss ! i) @ visible bufs (drop k (rss ! i)) = visible bufs (rss ! i)"
    using visible_split [OF some(3) ti] some(3) by (simp add: visible_def)
  have rest: "live bufs (drop k (rss ! i)) \<or> drop k (rss ! i) = []" by (rule live_drop [OF some(3) ti])
  have d: "length (snd ds) = length rss" "\<forall>x \<in> set (fst ds). fst x < length rss"
    "\<And>j. j < length rss \<Longrightarrow> map snd (filter (\<lambda>x. fst x = j) (fst ds)) = visible bufs (?rss ! j)"
    "\<And>j. j < length rss \<Longrightarrow> snd ds ! j = (if live bufs (?rss ! j) then [] else ?rss ! j)"
    using some.IH by simp_all
  have "map snd (filter (\<lambda>x. fst x = j) (map (Pair i) (take k (rss ! i)) @ fst ds)) = visible bufs (rss ! j) \<and>
      snd ds ! j = (if live bufs (rss ! j) then [] else rss ! j)" if j: "j < length rss" for j
  proof (cases "j = i")
    case True
    have "snd ds ! i = []" using d(4) [OF some(2)] some(2) rest by auto
    moreover have "map snd (filter (\<lambda>x. fst x = i) (fst ds)) = visible bufs (drop k (rss ! i))"
      using d(3) [OF some(2)] some(2) by simp
    ultimately show ?thesis using True own split some(3) by simp
  next
    case False
    then show ?thesis using d(3,4) [OF j] other [OF False] by simp
  qed
  then show ?case using d(1,2) some(2) by auto
qed

lemma delivery_sorted:
  assumes "list_all (tidy bufs) rss" "pass_left bufs rss \<le> n"
    and "\<forall>rs \<in> set rss. live bufs rs \<longrightarrow> sorted (map (time_of bufs) rs)"
  shows "sorted (map (\<lambda>x. time_of bufs (snd x)) (fst (rings.delivery bufs n rss))) \<and>
    (\<forall>x \<in> set (fst (rings.delivery bufs n rss)).
       fst x < length rss \<and> live bufs (rss ! fst x) \<and> snd x \<in> set (rss ! fst x))"
  using assms
proof (induction rule: delivery_induct)
  case (none rss)
  then show ?case by simp
next
  case (some rss i "next" k ds)
  let ?rss = "rss[i := drop k (rss ! i)]"
  have si: "sorted (map (time_of bufs) (rss ! i))" using some(2,3,10) by simp
  have ti: "tidy bufs (rss ! i)" using some(1,2) by (simp add: list_all_length)
  have "\<forall>rs \<in> set ?rss. live bufs rs \<longrightarrow> sorted (map (time_of bufs) rs)"
  proof
    fix rs assume "rs \<in> set ?rss"
    then have "rs = drop k (rss ! i) \<or> rs \<in> set rss" using set_update_subset_insert by fast
    then show "live bufs rs \<longrightarrow> sorted (map (time_of bufs) rs)"
      using some(10) si by (auto simp: sorted_wrt_drop simp flip: drop_map)
  qed
  from some(9) [OF this] have d: "sorted (map (\<lambda>x. time_of bufs (snd x)) (fst ds))"
    "\<And>x. x \<in> set (fst ds) \<Longrightarrow> fst x < length rss \<and> live bufs (?rss ! fst x) \<and> snd x \<in> set (?rss ! fst x)" by auto
  have origin: "fst x < length rss \<and> live bufs (rss ! fst x) \<and> snd x \<in> set (rss ! fst x)" if "x \<in> set (fst ds)" for x
    using d(2) [OF that] some(2,3) by (cases "fst x = i") (auto dest: in_set_dropD)
  have le: "time_of bufs r \<le> time_of bufs (snd x)" if r: "r \<in> set (take k (rss ! i))" and x: "x \<in> set (fst ds)" for r x
  proof (cases "fst x = i")
    case True
    then have "snd x \<in> set (drop k (rss ! i))" using d(2) [OF x] some(2) by simp
    moreover have "sorted (map (time_of bufs) (take k (rss ! i) @ drop k (rss ! i)))" using si by simp
    ultimately show ?thesis using r unfolding map_append sorted_append by auto
  next
    case False
    then have j: "fst x < length rss" "live bufs (rss ! fst x)" "snd x \<in> set (rss ! fst x)" using origin [OF x] by auto
    then obtain n where n: "next = Some n" "n \<le> time_of bufs (hd (rss ! fst x))" using some(7) False by blast
    obtain y ys where y: "rss ! fst x = y # ys" using j(2) by (cases "rss ! fst x") auto
    have "sorted (map (time_of bufs) (rss ! fst x))" using some(10) j(1,2) by simp
    then have "time_of bufs y \<le> time_of bufs (snd x)" using j(3) y by auto
    then show ?thesis using some(6) r n y by (auto intro: order_trans)
  qed
  have "sorted (map (time_of bufs) (take k (rss ! i)))" using si by (simp add: sorted_wrt_take flip: take_map)
  then have "sorted (map (\<lambda>x. time_of bufs (snd x)) (map (Pair i) (take k (rss ! i)) @ fst ds))"
    using d(1) le by (auto simp: sorted_append comp_def)
  moreover have "snd x \<in> set (rss ! i)" if "x \<in> set (map (Pair i) (take k (rss ! i)))" for x
    using that by (auto dest: in_set_takeD)
  ultimately show ?case using origin some(2,3) by (auto dest: in_set_takeD)
qed

lemma drained:
  assumes "rings_rel bufs src rss"
  shows "\<exists>ds src'. (\<forall>i<length rss. map snd (filter (\<lambda>x. fst x = i) ds) = visible bufs (rss ! i)) \<and>
    (\<forall>x \<in> set ds. fst x < length rss) \<and>
    ((\<forall>rs \<in> set rss. live bufs rs \<longrightarrow> sorted (map (time_of bufs) rs)) \<longrightarrow> sorted (map (\<lambda>x. time_of bufs (snd x)) ds)) \<and>
    source_holds src' (map (\<lambda>rs. if live bufs rs then [] else rs) rss) \<and>
    (\<forall>ss :: 's session. parse_all ring_data_source (ss, src) =
       map_option (\<lambda>ss'. (ss', src')) (parse_list (map (perf_of bufs) ds) ss))"
proof -
  let ?n = "pass_left bufs rss"
  define ds where "ds = fst (rings.delivery bufs ?n rss)"
  have t: "list_all (tidy bufs) rss" using assms by (simp add: rings_rel_def)
  from rings.parse_all_delivers [OF assms order_refl, where 's = 's] obtain src' where
    p: "rings_rel bufs src' (snd (rings.delivery bufs ?n rss))"
    "\<forall>ss :: 's session. parse_all ring_data_source (ss, src) =
       map_option (\<lambda>ss'. (ss', src')) (parse_list (map (perf_of bufs) ds) ss)" unfolding ds_def by blast
  note d = delivery_rings [OF t order_refl]
  have "snd (rings.delivery bufs ?n rss) = map (\<lambda>rs. if live bufs rs then [] else rs) rss"
    using d by (intro nth_equalityI) simp_all
  then have "source_holds src' (map (\<lambda>rs. if live bufs rs then [] else rs) rss)"
    using p(1) by (simp add: rings_rel_def)
  then show ?thesis
    using d delivery_sorted [OF t order_refl] p(2) unfolding ds_def [symmetric]
    by (intro exI [of _ ds] exI [of _ src']) auto
qed

text \<open>One cpu: its ring is read to the end.\<close>

lemma ring_at_update:
  assumes "ring_at src i xs" "in_ring (src_readers src ! i) (src_mems src ! i) c ys"
  shows "ring_at (at_cursors src ((src_cursors src)[i := c])) i ys"
  using assms by (simp add: ring_at_def)

lemma drain_ring_at:
  assumes "ring_at src i xs" "list_all (known (src_ring_bufs src)) xs" "ctx_reader_index ctx = i"
  shows "\<exists>cs. ring_at (at_cursors src cs) i [] \<and> length cs = length (src_cursors src) \<and>
    (\<forall>ss :: 's session. drain (read_cpu ctx) (ss, src) =
       map_option (\<lambda>ss'. (ss', at_cursors src cs)) (parse_list (map (\<lambda>r. perf_of (src_ring_bufs src) (i, r)) xs) ss))"
  using assms
proof (induction xs arbitrary: src)
  case Nil
  let ?bufs = "src_ring_bufs src"
  have "tidy ?bufs []" by (simp add: tidy_def)
  from source_read_time_at [OF Nil(1) this] obtain c where c:
    "source_read_time i src = Some (None, at_cursors src ((src_cursors src)[i := c]))"
    "in_ring (src_readers src ! i) (src_mems src ! i) c []" by (auto simp: looked_def)
  have "drain (read_cpu ctx) (ss, src) = Some (ss, at_cursors src ((src_cursors src)[i := c]))" for ss :: "'s session"
    using c(1) Nil(3) by (subst drain.simps) (simp add: parse_perf_data_def read_cpu_def)
  then show ?case using ring_at_update [OF Nil(1) c(2)]
    by (intro exI [of _ "(src_cursors src)[i := c]"]) simp
next
  case (Cons x xs)
  let ?bufs = "src_ring_bufs src"
  obtain b where b: "rec_buf ?bufs x = Some b" "time_fits b x" using Cons.prems(2) by (auto simp: known_buf)
  have "tidy ?bufs (x # xs)" using Cons.prems(2) by (simp add: tidy_def)
  from source_read_time_at [OF Cons.prems(1) this] b(1) obtain c where c:
    "source_read_time i src = Some (Some (time_of ?bufs x, b), at_cursors src ((src_cursors src)[i := c]))"
    "in_ring (src_readers src ! i) (src_mems src ! i) c (x # xs)" by (auto simp: looked_def)
  from read_in_ring [OF c(2)] obtain c' where c': "reader_read (src_readers src ! i) (src_mems src ! i) c = Some (x, c')"
    "in_ring (src_readers src ! i) (src_mems src ! i) c' xs" by blast
  let ?src = "at_cursors src ((src_cursors src)[i := c'])"
  have rd: "read_cpu ctx src = Some (Some (perf_of ?bufs (i, x)), ?src)"
    using c(1) c'(1) b(1) Cons.prems(1,3) by (simp add: read_cpu_def read_ring_def at_ok perf_of_def ring_at_def)
  have "list_all (known (src_ring_bufs ?src)) xs" using Cons.prems(2) by simp
  from Cons.IH [OF ring_at_update [OF Cons.prems(1) c'(2)] this Cons.prems(3)] obtain cs where i:
    "ring_at (at_cursors src cs) i []" "length cs = length (src_cursors src)"
    "\<And>ss :: 's session. drain (read_cpu ctx) (ss, ?src) =
       map_option (\<lambda>ss'. (ss', at_cursors src cs)) (parse_list (map (\<lambda>r. perf_of ?bufs (i, r)) xs) ss)" by auto
  have "drain (read_cpu ctx) (ss, src) =
      map_option (\<lambda>ss'. (ss', at_cursors src cs)) (parse_list (map (\<lambda>r. perf_of ?bufs (i, r)) (x # xs)) ss)"
    for ss :: "'s session"
    using rd i(3) by (subst drain.simps) (cases "parse_record (perf_of ?bufs (i, x)) ss"; simp add: parse_perf_data_def)
  then show ?case using i(1,2) by blast
qed

lemma cpu_drained:
  assumes h: "source_holds src rss" and c: "unat cpu < length (src_cpu_to_reader_index src)"
    "src_cpu_to_reader_index src ! unat cpu = Some i" "i < length rss"
    and k: "list_all (known (src_ring_bufs src)) (rss ! i)"
  shows "\<exists>src'. source_holds src' (rss[i := []]) \<and>
    (\<forall>ss :: 's session. parse_for_cpu ring_data_source cpu (ss, src) =
       map_option (\<lambda>ss'. (Inr (), ss', src')) (parse_list (map (\<lambda>r. perf_of (src_ring_bufs src) (i, r)) (rss ! i)) ss))"
proof -
  let ?bufs = "src_ring_bufs src"
  from begin_ring_holds [OF h c(3)] obtain p where b: "begin_ring i src = Some (at_cursors src ((src_cursors src)[i := p]))"
    "ring_at (at_cursors src ((src_cursors src)[i := p])) i (rss ! i)" by blast
  define src1 where "src1 = at_cursors src ((src_cursors src)[i := p])"
  define ctx where "ctx = \<lparr>ctx_cpu = cpu, ctx_reader_index = i\<rparr>"
  have s1: "src_ring_bufs src1 = ?bufs" "source_holds src1 rss" using h by (simp_all add: src1_def source_holds_def)
  have "list_all (known (src_ring_bufs src1)) (rss ! i)" using k s1 by simp
  from drain_ring_at [OF b(2) [folded src1_def] this, of ctx, where 's = 's] s1(1) obtain cs where d:
    "ring_at (at_cursors src1 cs) i []" "length cs = length (src_cursors src1)"
    "\<forall>ss :: 's session. drain (read_cpu ctx) (ss, src1) =
       map_option (\<lambda>ss'. (ss', at_cursors src1 cs)) (parse_list (map (\<lambda>r. perf_of ?bufs (i, r)) (rss ! i)) ss)"
    by (auto simp: ctx_def)
  have "source_holds (at_cursors src1 cs) rss" using s1(2) d(2) by (simp add: source_holds_def)
  from end_ring_at [OF this d(1) c(3)] obtain src' where e: "end_ring i (at_cursors src1 cs) = Some src'"
    "source_holds src' (rss[i := []])" by blast
  have "parse_for_cpu ring_data_source cpu (ss, src) =
       map_option (\<lambda>ss'. (Inr (), ss', src')) (parse_list (map (\<lambda>r. perf_of ?bufs (i, r)) (rss ! i)) ss)" for ss :: "'s session"
    using b(1) c d(3) e(1)
    by (cases "parse_list (map (\<lambda>r. perf_of ?bufs (i, r)) (rss ! i)) ss")
      (simp_all add: parse_for_cpu_def ring_data_source_def begin_reading_cpu_def end_reading_cpu_def
        flip: src1_def ctx_def, simp_all add: ctx_def)
  then show ?thesis using e(2) by blast
qed

section \<open>What building a source sets up\<close>

lemma io_source_simps [simp]:
  "io_sys c (src, k) = Some (Inr z, (src', k')) \<longleftrightarrow> c k = (Inr z, k') \<and> src' = src"
  "io_update f (src, k) = Some (Inr u, (src', k')) \<longleftrightarrow> src' = f src \<and> k' = k"
  by (auto simp: io_sys_def io_update_def split: prod.splits)

text \<open>A call that changes nothing of the source but its table of buffers, when it returns.\<close>

definition only_bufs :: "(ring_source \<times> 'k, 'a) io \<Rightarrow> bool" where
  "only_bufs m \<longleftrightarrow> (\<forall>s y s'. m s = Some (Inr y, s') \<longrightarrow> (\<exists>b. fst s' = (fst s)\<lparr>src_ring_bufs := b\<rparr>))"

lemma same_bufs: "\<exists>b. src = src\<lparr>src_ring_bufs := b\<rparr>"
  by (rule exI [of _ "src_ring_bufs src"]) simp

lemma only_bufs_basic [intro]:
  "only_bufs (io_return x)" "only_bufs (io_fail e)" "only_bufs (io_checked v)" "only_bufs (io_sys c)"
  "only_bufs (io_update (\<lambda>src. src\<lparr>src_ring_bufs := f src\<rparr>))"
  using same_bufs by (auto simp: only_bufs_def io_sys_def io_update_def split: prod.splits)

lemma only_bufs_bind [intro]:
  assumes "only_bufs m" "\<And>x. only_bufs (f x)"
  shows "only_bufs (io_bind m f)"
  unfolding only_bufs_def io_bind_Some
proof (intro allI impI, elim exE conjE)
  fix s y s' x s1
  assume a: "m s = Some (Inr x, s1)" "f x s1 = Some (Inr y, s')"
  obtain b1 where "fst s1 = (fst s)\<lparr>src_ring_bufs := b1\<rparr>" using assms(1) a(1) unfolding only_bufs_def by blast
  moreover obtain b2 where "fst s' = (fst s1)\<lparr>src_ring_bufs := b2\<rparr>" using assms(2) a(2) unfolding only_bufs_def by blast
  ultimately show "\<exists>b. fst s' = (fst s)\<lparr>src_ring_bufs := b\<rparr>" by auto
qed

lemma only_bufs_source [intro]: "(\<And>src. only_bufs (f src)) \<Longrightarrow> only_bufs (io_source f)"
  by (auto simp: only_bufs_def io_source_def)

lemma only_bufs_fold [intro]: "(\<And>x b. only_bufs (f x b)) \<Longrightarrow> only_bufs (io_fold f xs b)"
  by (induction xs arbitrary: b) auto

lemma only_bufs_open [intro]: "only_bufs (crb_open kern pid b)"
  unfolding crb_open_def by blast

lemma only_bufs_redirect [intro]: "only_bufs (crb_redirect_to kern b target)"
  unfolding crb_redirect_to_def with_fd_def by (auto split: option.split)

lemma only_bufs_add_cpu_buf [intro]: "only_bufs (add_cpu_buf kern pid cs a i fds)"
  unfolding add_cpu_buf_def by (auto split: option.split intro!: only_bufs_bind only_bufs_source)

lemma only_bufs_add_for_pids [intro]: "only_bufs (add_for_pids kern pids cs a)"
  unfolding add_for_pids_def add_cpu_bufs_def by auto

lemma only_bufs_add_samples [intro]: "only_bufs (add_samples kern pids b)"
  unfolding add_samples_def by (auto split: option.split)

text \<open>The rings of the first cpus are in place; their number does not depend on the target cpus.\<close>

definition leaders_upto :: "nat \<Rightarrow> nat \<Rightarrow> ring_source \<Rightarrow> bool" where
  "leaders_upto n m src \<longleftrightarrow>
     length (src_readers src) = m \<and> length (src_cursors src) = m \<and> length (src_mems src) = m \<and> n \<le> m \<and>
     (\<forall>i<n. src_cpu_to_reader_index src ! i = Some i \<and> 1056 \<le> length (src_mems src ! i) \<and>
        src_leader_ids src (of_nat i) \<noteq> None)"

lemma leaders_upto_bufs [simp]: "leaders_upto n m (src\<lparr>src_ring_bufs := b\<rparr>) = leaders_upto n m src"
  by (simp add: leaders_upto_def)

lemma only_bufs_D:
  assumes "only_bufs m" "m s = Some (Inr y, s')"
  shows "leaders_upto n k (fst s') = leaders_upto n k (fst s)"
    "src_cpu_to_reader_index (fst s') = src_cpu_to_reader_index (fst s)"
proof -
  obtain b where "fst s' = (fst s)\<lparr>src_ring_bufs := b\<rparr>" using assms unfolding only_bufs_def by blast
  then show "leaders_upto n k (fst s') = leaders_upto n k (fst s)"
    "src_cpu_to_reader_index (fst s') = src_cpu_to_reader_index (fst s)" by simp_all
qed

lemma crb_open_source: "crb_open kern pid b (src, k) = Some (Inr b', (src', k')) \<Longrightarrow> src' = src"
  by (auto simp: crb_open_def io_bind_Some)

lemma create_reader_source:
  "crb_create_reader kern pages b (src, k) = Some (Inr (mem, rd), (src', k')) \<Longrightarrow> src' = src \<and> 1056 \<le> length mem"
  by (auto simp: crb_create_reader_def with_fd_def io_bind_Some reader_new_def subslice_def
      split: option.splits bind_splits if_splits)

lemma add_leader_step:
  assumes run: "add_leader kern pids a (of_nat n) () (src, k) = Some (Inr y, (src', k'))"
    and l: "leaders_upto n n src" and n: "n < length (src_cpu_to_reader_index src)" "n < 2 ^ 32"
  shows "leaders_upto (Suc n) (Suc n) src' \<and>
    length (src_cpu_to_reader_index src') = length (src_cpu_to_reader_index src)"
proof -
  have u: "unat (of_nat n :: u32) = n" using n(2) by (rule unat_of_nat_word(2))
  have inj: "(of_nat i :: u32) \<noteq> of_nat n" if "i < n" for i
    using that n(2) unat_of_nat_word(2) [of i] u by (metis less_irrefl less_trans)
  from run obtain b key mem rd where a: "1056 \<le> length mem"
    "src' = src\<lparr>src_leader_ids := (src_leader_ids src)(of_nat n \<mapsto> key),
            src_cpu_to_reader_index := (src_cpu_to_reader_index src)[n := Some (length (src_readers src))],
            src_readers := src_readers src @ [rd],
            src_cursors := src_cursors src @ [cursor_default],
            src_mems := src_mems src @ [mem],
            src_ring_bufs := (src_ring_bufs src)(key \<mapsto> b)\<rparr>"
    unfolding add_leader_def io_bind_Some
    by (auto simp: io_source_def io_bind_Some u dest!: crb_open_source create_reader_source split: option.splits)
  then show ?thesis
    using l n(1) unfolding a(2)
    by (auto simp: leaders_upto_def less_Suc_eq nth_append nth_list_update inj)
qed

lemma add_leaders:
  assumes "io_fold (add_leader kern pids a) (map of_nat [m..<n]) () (src, k) = Some (Inr y, (src', k'))"
    and "leaders_upto m m src" "m \<le> n" "n \<le> length (src_cpu_to_reader_index src)" "n < 2 ^ 32"
  shows "leaders_upto n n src' \<and> length (src_cpu_to_reader_index src') = length (src_cpu_to_reader_index src)"
  using assms
proof (induction "n - m" arbitrary: m src k)
  case 0
  then show ?case by auto
next
  case (Suc d)
  then have m: "m < n" by simp
  have l: "map of_nat [m..<n] = of_nat m # map of_nat [Suc m..<n]" using m by (simp add: upt_conv_Cons)
  obtain u src1 k1 where s1: "add_leader kern pids a (of_nat m) () (src, k) = Some (Inr u, (src1, k1))"
    "io_fold (add_leader kern pids a) (map of_nat [Suc m..<n]) () (src1, k1) = Some (Inr y, (src', k'))"
    using Suc.prems(1) unfolding l by (auto simp: io_bind_Some)
  from add_leader_step [OF s1(1)] Suc.prems m have "leaders_upto (Suc m) (Suc m) src1"
    "length (src_cpu_to_reader_index src1) = length (src_cpu_to_reader_index src)" by auto
  then show ?case using Suc.hyps(1) [OF _ s1(2)] Suc.hyps(2) Suc.prems m by auto
qed

definition add_others :: "'k kernel \<Rightarrow> i32 list \<Rightarrow> perf_event_attr \<Rightarrow> ring_source \<Rightarrow> (ring_source \<times> 'k, unit) io" where
  "add_others kern pids common src0 =
     io_bind (add_for_pids kern (map Some (tl pids)) None common) (\<lambda>_.
     io_bind (add_samples kern pids (src_profiling_builder src0)) (\<lambda>_.
     io_bind (add_samples kern pids (src_cswitch_builder src0)) (\<lambda>_.
     io_bind (add_samples kern pids (src_soft_page_faults_builder src0)) (\<lambda>_.
     add_samples kern pids (src_hard_page_faults_builder src0)))))"

lemma io_bind_update: "io_bind (io_update f) g (src, k) = g () (f src, k)"
  by (simp add: io_bind_def io_update_def)

lemma only_bufs_others: "only_bufs (add_others kern pids common src0)"
  unfolding add_others_def by (intro only_bufs_bind only_bufs_add_for_pids only_bufs_add_samples)

lemma source_build_leaders:
  assumes run: "source_build kern (src0, k) = Some (Inr y, (src, k'))"
    and fresh: "src_readers src0 = []" "src_cursors src0 = []" "src_mems src0 = []" "src_cpu_to_reader_index src0 = []"
  shows "leaders_upto (unat (k_cpu_count kern)) (Suc (unat (k_cpu_count kern))) src \<and>
    length (src_cpu_to_reader_index src) = unat (k_cpu_count kern) \<and> src_in_process src \<noteq> None \<and> src_ring_bufs src 0 \<noteq> None"
proof -
  let ?n = "unat (k_cpu_count kern)"
  have n: "length (cpus kern) = ?n" "cpus kern = map of_nat [0..<?n]" by (simp_all add: cpus_def)
  have small: "?n < 2 ^ 32" using unsigned_less [of "k_cpu_count kern"] by simp
  define common where "common = (case src_kernel_builder src0 of Some a \<Rightarrow> a | None \<Rightarrow> for_kernel)"
  define target_pids where "target_pids = map_option (tasks_for_pids kern) (src_target_pids src0)"
  define pids where "pids = (case target_pids of Some pids \<Rightarrow> pids | None \<Rightarrow> [])"
  define src1 where "src1 = src0\<lparr>src_kernel_builder := Some common, src_target_pids := target_pids,
       src_cpu_to_reader_index := replicate ?n None\<rparr>"
  have b: "source_build kern (src0, k) =
      io_bind (io_fold (add_leader kern pids common) (cpus kern) ()) (\<lambda>_.
      io_bind (add_others kern pids common src0) (\<lambda>_. add_in_process kern)) (src1, k)"
    by (simp add: source_build_def io_source_def Let_def add_others_def io_bind_assoc io_bind_update
        common_def target_pids_def pids_def src1_def n(1) fresh(4))
  from run [unfolded b] obtain u2 src2 k2 u3 src3 k3 where r:
    "io_fold (add_leader kern pids common) (map of_nat [0..<?n]) () (src1, k) = Some (Inr u2, (src2, k2))"
    "add_others kern pids common src0 (src2, k2) = Some (Inr u3, (src3, k3))"
    "add_in_process kern (src3, k3) = Some (Inr y, (src, k'))"
    unfolding io_bind_Some n(2) by auto
  have "leaders_upto 0 0 src1" "?n \<le> length (src_cpu_to_reader_index src1)"
    using fresh by (simp_all add: leaders_upto_def src1_def)
  from add_leaders [OF r(1) this(1) _ this(2) small] have l: "leaders_upto ?n ?n src2"
    "length (src_cpu_to_reader_index src2) = ?n" by (simp_all add: src1_def)
  have "leaders_upto ?n ?n src3" "length (src_cpu_to_reader_index src3) = ?n"
    using only_bufs_D [OF only_bufs_others r(2)] l by simp_all
  then show ?thesis
    using r(3) by (auto simp: add_in_process_def io_source_def io_bind_Some leaders_upto_def nth_append)
qed

section \<open>Concrete rings\<close>

text \<open>A record of a time and an identifier, in a ring of its own.\<close>

definition demo_rec :: "u64 \<Rightarrow> u64 \<Rightarrow> byte list" where
  "demo_rec t i = perf_record PERF_RECORD_COMM 0 (u64_bytes t @ u64_bytes i)"

lemma demo_rec_facts:
  "rec_ok (demo_rec t i)" "length (demo_rec t i) = 24" "rec_buf bufs (demo_rec t i) = bufs i"
  "time_fits b (demo_rec t i)" "rec_time b (demo_rec t i) = t"
proof -
  have al: "align_to_perf_record 24 = 24" by (simp add: align_eq)
  have e: "demo_rec t i = u32_bytes PERF_RECORD_COMM @ u16_bytes 0 @ u16_bytes 24 @ u64_bytes t @ u64_bytes i"
    by (simp add: demo_rec_def perf_record_def al)
  show "rec_ok (demo_rec t i)" unfolding demo_rec_def by (rule rec_ok_perf_record) simp
  show len: "length (demo_rec t i) = 24" by (simp add: e)
  have "\<not> rec_sample (demo_rec t i)"
    by (simp add: rec_sample_def e codec_simps PERF_RECORD_COMM_def PERF_RECORD_SAMPLE_def)
  then show "rec_buf bufs (demo_rec t i) = bufs i" "time_fits b (demo_rec t i)" "rec_time b (demo_rec t i) = t"
    using len by (simp_all add: rec_buf_def rec_id_def time_fits_def rec_time_def e)
qed

lemma holds_demo: "\<exists>rd mem. holds rd mem [demo_rec t i]"
proof -
  note f = demo_rec_facts [where t = t and i = i]
  have "next_power_of_two 1 = 1" by code_simp
  then have n: "ring_data_bytes 4096 1 = 4096" by (simp add: ring_data_bytes_def)
  from ring_start_rel [OF demo_ok(3)] n obtain s0 where s0: "ring_rel 4096 s0 empty_queue" "ring_spent s0 = 0" by auto
  have "list_all write_ok [Write (demo_rec t i) 0 []]"
    "ring_spent s0 + sum_list (map op_cost [Write (demo_rec t i) 0 []]) < 2 ^ 63"
    using f(1,2) s0(2) by (simp_all add: write_ok_def op_cost_def LOST_RECORD_SIZE_def)
  from ring.run [OF s0(1) this] obtain s where s: "ring_rel 4096 s (q_write 4096 (demo_rec t i) 0 [] empty_queue)"
    by auto
  have q: "q_write 4096 (demo_rec t i) 0 [] empty_queue = empty_queue\<lparr>q_rest := [Accepted (demo_rec t i)]\<rparr>"
    using f(1,2) by (simp add: q_write_def q_flush_def q_free_def q_all_def entries_len_def empty_queue_def Let_def)
  have inv: "ring_inv (rs_writer s) (rs_reader s) (rs_mem s)" using s by (simp add: ring_rel_def)
  have "demo_rec t i = ring_bytes (rs_writer s) (rs_mem s) (ring_tail (rs_mem s)) (w_head (rs_writer s))"
    using s f(1) unfolding q by (simp add: ring_rel_def q_all_def empty_queue_def)
  then have "holds (rs_reader s) (rs_mem s) [demo_rec t i]"
    using inv f(1) by (auto simp: holds_def in_ring_def ring_inv_def)
  then show ?thesis by blast
qed

text \<open>Two rings; the first holds a record of time 20, the second one of time 10. Only the buffer 7 is known.\<close>

definition demo_source :: "(ring_reader \<times> byte list) \<Rightarrow> (ring_reader \<times> byte list) \<Rightarrow> ring_source" where
  "demo_source a b = (source_new 1 None None None None None None None None None)\<lparr>
     src_readers := [fst a, fst b], src_mems := [snd a, snd b], src_cursors := [cursor_default, cursor_default],
     src_cpu_to_reader_index := [Some 0, Some 1], src_ring_bufs := [7 \<mapsto> cpu_ring_buf_new 0 for_kernel]\<rparr>"

lemma demo_source_holds:
  assumes "holds (fst a) (snd a) [demo_rec 20 i]" "holds (fst b) (snd b) [demo_rec 10 7]"
  shows "source_holds (demo_source a b) [[demo_rec 20 i], [demo_rec 10 7]]" "\<not> src_enabled (demo_source a b)"
    "src_ring_bufs (demo_source a b) = [7 \<mapsto> cpu_ring_buf_new 0 for_kernel]"
    "src_cpu_to_reader_index (demo_source a b) = [Some 0, Some 1]"
  using assms by (auto simp: source_holds_def demo_source_def source_new_def less_Suc_eq numeral_2_eq_2)

lemma demo_known: "known [7 \<mapsto> b] (demo_rec t i) \<longleftrightarrow> i = 7" "rec_buf [7 \<mapsto> b] (demo_rec t 8) = None"
  by (simp_all add: known_def demo_rec_facts)

section \<open>Properties\<close>

lemma known_visible: "list_all (known bufs) rs \<Longrightarrow> tidy bufs rs \<and> visible bufs rs = rs \<and> (if live bufs rs then [] else rs) = []"
  by (cases rs) (auto simp: tidy_def visible_def known_buf)

lemma map_const_Nil: "\<forall>rs \<in> set rss. f rs = [] \<Longrightarrow> map f rss = replicate (length rss) []"
  by (intro nth_equalityI) simp_all

text \<open>C6. Draining a source that is switched off ends, and takes exactly what is in the rings: if every record
  belongs to a known buffer, each ring's records are handed to the session once each and in the order of the
  ring, all rings together in the order of time when each ring is, and the rings are empty afterwards. The
  session is the one that parses those records one after the other, panics included.\<close>

theorem disabled_source_drained:
  assumes "source_holds src rss" "\<not> src_enabled src" "\<forall>rs \<in> set rss. list_all (known (src_ring_bufs src)) rs"
  shows "\<exists>ds src'. (\<forall>i<length rss. map snd (filter (\<lambda>x. fst x = i) ds) = rss ! i) \<and> (\<forall>x \<in> set ds. fst x < length rss) \<and>
    ((\<forall>rs \<in> set rss. sorted (map (time_of (src_ring_bufs src)) rs)) \<longrightarrow>
       sorted (map (\<lambda>x. time_of (src_ring_bufs src) (snd x)) ds)) \<and>
    source_holds src' (replicate (length rss) []) \<and>
    (\<forall>ss :: 's session. parse_all ring_data_source (ss, src) =
       map_option (\<lambda>ss'. (ss', src')) (parse_list (map (perf_of (src_ring_bufs src)) ds) ss))"
proof -
  let ?bufs = "src_ring_bufs src"
  have v: "\<forall>rs \<in> set rss. tidy ?bufs rs \<and> visible ?bufs rs = rs \<and> (if live ?bufs rs then [] else rs) = []"
    using assms(3) known_visible by blast
  then have "rings_rel ?bufs src rss" using assms(1,2) by (simp add: rings_rel_def list_all_iff)
  from drained [OF this, where 's = 's] v show ?thesis
    using map_const_Nil [of rss "\<lambda>rs. if live ?bufs rs then [] else rs"] by (auto simp del: if_split)
qed

theorem disabled_source_drained_witness:
  "\<exists>src ds src'. source_holds src [[demo_rec 20 7], [demo_rec 10 7]] \<and>
    map snd (filter (\<lambda>x. fst x = 0) ds) = [demo_rec 20 7] \<and> map snd (filter (\<lambda>x. fst x = 1) ds) = [demo_rec 10 7] \<and>
    sorted (map (\<lambda>x. time_of (src_ring_bufs src) (snd x)) ds) \<and> source_holds src' [[], []] \<and>
    parse_all ring_data_source (session_new (), src) =
      map_option (\<lambda>ss'. (ss', src')) (parse_list (map (perf_of (src_ring_bufs src)) ds) (session_new ()))"
proof -
  obtain a b where ab: "holds (fst a) (snd a) [demo_rec 20 7]" "holds (fst b) (snd b) [demo_rec 10 7]"
    using holds_demo by (metis fst_conv snd_conv)
  note h = demo_source_holds [OF ab]
  have k: "\<forall>rs \<in> set [[demo_rec 20 7], [demo_rec 10 7]]. list_all (known (src_ring_bufs (demo_source a b))) rs"
    by (simp add: h(3) demo_known)
  show ?thesis
  proof -
    from disabled_source_drained [OF h(1,2) k, where 's = unit] obtain ds src' where d:
      "\<And>i. i < 2 \<Longrightarrow> map snd (filter (\<lambda>x. fst x = i) ds) = [[demo_rec 20 7], [demo_rec 10 7]] ! i"
      "sorted (map (\<lambda>x. time_of (src_ring_bufs (demo_source a b)) (snd x)) ds)" "source_holds src' [[], []]"
      "\<And>ss :: unit session. parse_all ring_data_source (ss, demo_source a b) =
        map_option (\<lambda>ss'. (ss', src')) (parse_list (map (perf_of (src_ring_bufs (demo_source a b))) ds) ss)"
      by (auto simp: numeral_2_eq_2)
    show ?thesis using h(1) d(1) [of 0] d(1) [of 1] d(2,3,4)
      by (intro exI [of _ "demo_source a b"] exI [of _ ds] exI [of _ src']) simp
  qed
qed

text \<open>C10. A record of a buffer the source does not know (or too short to carry an identifier) blocks its ring
  once it is at the front: draining passes over the record to look for a time, finds none, and never publishes
  the cursor of that ring. All other rings are drained; of the blocked one nothing is delivered and its tail does
  not move, so the draining ends with all its records still there.\<close>

theorem unknown_head_starves_ring:
  assumes "source_holds src rss" "\<not> src_enabled src" "\<forall>rs \<in> set rss. tidy (src_ring_bufs src) rs"
    "i < length rss" "rss ! i = r # rs" "rec_buf (src_ring_bufs src) r = None"
  shows "\<exists>ds src' rss'. (\<forall>x \<in> set ds. fst x \<noteq> i) \<and>
    (\<forall>j<length rss. live (src_ring_bufs src) (rss ! j) \<longrightarrow> map snd (filter (\<lambda>x. fst x = j) ds) = rss ! j) \<and>
    source_holds src' rss' \<and> rss' ! i = rss ! i \<and>
    (\<forall>ss :: 's session. parse_all ring_data_source (ss, src) =
       map_option (\<lambda>ss'. (ss', src')) (parse_list (map (perf_of (src_ring_bufs src)) ds) ss))"
proof -
  let ?bufs = "src_ring_bufs src"
  have i: "visible ?bufs (rss ! i) = []" "\<not> live ?bufs (rss ! i)" using assms(5,6) by (simp_all add: visible_def)
  have "rings_rel ?bufs src rss" using assms(1-3) by (simp add: rings_rel_def list_all_iff)
  from drained [OF this, where 's = 's] obtain ds src' where
    d: "\<And>j. j < length rss \<Longrightarrow> map snd (filter (\<lambda>x. fst x = j) ds) = visible ?bufs (rss ! j)"
      "source_holds src' (map (\<lambda>rs. if live ?bufs rs then [] else rs) rss)"
      "\<forall>ss :: 's session. parse_all ring_data_source (ss, src) =
         map_option (\<lambda>ss'. (ss', src')) (parse_list (map (perf_of ?bufs) ds) ss)" by blast
  have "\<forall>x \<in> set ds. fst x \<noteq> i" using d(1) [OF assms(4)] i(1) by (auto simp: filter_empty_conv)
  then show ?thesis using d i(2) assms(4)
    by (intro exI [of _ ds] exI [of _ src'] exI [of _ "map (\<lambda>rs. if live ?bufs rs then [] else rs) rss"])
      (simp add: visible_def)
qed

theorem unknown_head_starves_ring_witness:
  "\<exists>src ds src' rss'. source_holds src [[demo_rec 20 8], [demo_rec 10 7]] \<and>
    (\<forall>x \<in> set ds. fst x \<noteq> 0) \<and> map snd (filter (\<lambda>x. fst x = 1) ds) = [demo_rec 10 7] \<and>
    source_holds src' rss' \<and> rss' ! 0 = [demo_rec 20 8] \<and>
    parse_all ring_data_source (session_new (), src) =
      map_option (\<lambda>ss'. (ss', src')) (parse_list (map (perf_of (src_ring_bufs src)) ds) (session_new ()))"
proof -
  obtain a b where ab: "holds (fst a) (snd a) [demo_rec 20 8]" "holds (fst b) (snd b) [demo_rec 10 7]"
    using holds_demo by (metis fst_conv snd_conv)
  note h = demo_source_holds [OF ab]
  have t: "\<forall>rs \<in> set [[demo_rec 20 8], [demo_rec 10 7]]. tidy (src_ring_bufs (demo_source a b)) rs"
    and r: "rec_buf (src_ring_bufs (demo_source a b)) (demo_rec 20 8) = None"
    and l: "live (src_ring_bufs (demo_source a b)) [demo_rec 10 7]"
    by (simp_all add: h(3) tidy_def demo_known demo_rec_facts(3))
  have z: "0 < length [[demo_rec 20 8], [demo_rec 10 7]]" "[[demo_rec 20 8], [demo_rec 10 7]] ! 0 = [demo_rec 20 8]" by simp_all
  show ?thesis
  proof -
    from unknown_head_starves_ring [OF h(1,2) t z r, where 's = unit] obtain ds src' rss' where d: "\<forall>x \<in> set ds. fst x \<noteq> 0"
      "\<forall>j<length [[demo_rec 20 8], [demo_rec 10 7]]. live (src_ring_bufs (demo_source a b)) ([[demo_rec 20 8], [demo_rec 10 7]] ! j) \<longrightarrow>
        map snd (filter (\<lambda>x. fst x = j) ds) = [[demo_rec 20 8], [demo_rec 10 7]] ! j"
      "source_holds src' rss'" "rss' ! 0 = [[demo_rec 20 8], [demo_rec 10 7]] ! 0"
      "\<forall>ss :: unit session. parse_all ring_data_source (ss, demo_source a b) =
        map_option (\<lambda>ss'. (ss', src')) (parse_list (map (perf_of (src_ring_bufs (demo_source a b))) ds) ss)" by blast
    have "map snd (filter (\<lambda>x. fst x = 1) ds) = [demo_rec 10 7]" using d(2) [rule_format, of 1] l by simp
    then show ?thesis using h(1) d(1,3,4,5)
      by (intro exI [of _ "demo_source a b"] exI [of _ ds] exI [of _ src'] exI [of _ rss']) simp
  qed
qed

text \<open>C11. Parsing one cpu hands over exactly the records of that cpu's ring, in its order, and leaves every
  other ring as it was; a cpu without a ring is refused and nothing is read.\<close>

theorem cpu_ring_drained:
  assumes "source_holds src rss" "\<forall>rs \<in> set rss. list_all (known (src_ring_bufs src)) rs"
    "\<forall>i \<in> set (src_cpu_to_reader_index src). \<forall>j. i = Some j \<longrightarrow> j < length rss"
  shows "case (if unat cpu < length (src_cpu_to_reader_index src) then src_cpu_to_reader_index src ! unat cpu else None) of
      None \<Rightarrow> \<exists>e. \<forall>ss :: 's session. parse_for_cpu ring_data_source cpu (ss, src) = Some (Inl e, ss, src)
    | Some i \<Rightarrow> \<exists>src'. source_holds src' (rss[i := []]) \<and>
        (\<forall>ss :: 's session. parse_for_cpu ring_data_source cpu (ss, src) =
           map_option (\<lambda>ss'. (Inr (), ss', src')) (parse_list (map (\<lambda>r. perf_of (src_ring_bufs src) (i, r)) (rss ! i)) ss))"
proof (cases "if unat cpu < length (src_cpu_to_reader_index src) then src_cpu_to_reader_index src ! unat cpu else None")
  case None
  then show ?thesis
    by (auto simp: parse_for_cpu_def ring_data_source_def begin_reading_cpu_def split: if_splits)
next
  case (Some i)
  then have c: "unat cpu < length (src_cpu_to_reader_index src)" "src_cpu_to_reader_index src ! unat cpu = Some i"
    by (simp_all split: if_splits)
  then have i: "i < length rss" using assms(3) nth_mem by metis
  then have "list_all (known (src_ring_bufs src)) (rss ! i)" using assms(2) by simp
  from cpu_drained [OF assms(1) c i this] Some show ?thesis by simp
qed

theorem cpu_ring_drained_witness:
  "\<exists>src src' e. source_holds src [[demo_rec 20 7], [demo_rec 10 7]] \<and> source_holds src' [[demo_rec 20 7], []] \<and>
    parse_for_cpu ring_data_source 1 (session_new (), src) =
      map_option (\<lambda>ss'. (Inr (), ss', src')) (parse_list [perf_of (src_ring_bufs src) (1, demo_rec 10 7)] (session_new ())) \<and>
    parse_for_cpu ring_data_source 2 (session_new (), src) = Some (Inl e, session_new (), src)"
proof -
  obtain a b where ab: "holds (fst a) (snd a) [demo_rec 20 7]" "holds (fst b) (snd b) [demo_rec 10 7]"
    using holds_demo by (metis fst_conv snd_conv)
  note h = demo_source_holds [OF ab]
  have k: "\<forall>rs \<in> set [[demo_rec 20 7], [demo_rec 10 7]]. list_all (known (src_ring_bufs (demo_source a b))) rs"
    "\<forall>i \<in> set (src_cpu_to_reader_index (demo_source a b)). \<forall>j. i = Some j \<longrightarrow> j < length [[demo_rec 20 7], [demo_rec 10 7]]"
    by (simp_all add: h(3,4) demo_known)
  from cpu_ring_drained [OF h(1) k, of 1, where 's = unit] obtain src' where one:
    "source_holds src' [[demo_rec 20 7], []]" "parse_for_cpu ring_data_source 1 (session_new (), demo_source a b) =
      map_option (\<lambda>ss'. (Inr (), ss', src'))
        (parse_list [perf_of (src_ring_bufs (demo_source a b)) (1, demo_rec 10 7)] (session_new ()))"
    by (auto simp: h(4))
  from cpu_ring_drained [OF h(1) k, of 2, where 's = unit] obtain e where
    "parse_for_cpu ring_data_source 2 (session_new (), demo_source a b) = Some (Inl e, session_new (), demo_source a b)"
    by (auto simp: h(4))
  with one h(1) show ?thesis by blast
qed

text \<open>C12. A built session has a ring for every cpu that is online, whatever cpus it was told to target: asking for
  one of them starts a drain of the reader with the cpu's own index, and only a cpu beyond the last is refused.\<close>

theorem every_cpu_has_a_ring:
  assumes "builder_build kern s b k = Some (Inr (ss, src), k')" "bld_hooks b = None"
  shows "\<exists>src'. begin_reading_cpu cpu src =
    Some (if cpu < k_cpu_count kern then Some \<lparr>ctx_cpu = cpu, ctx_reader_index = unat cpu\<rparr> else None, src')"
proof -
  let ?n = "unat (k_cpu_count kern)"
  from assms obtain b' :: "unit session_builder" and k1 where r: "source_build kern (source_of_builder b', k) = Some (Inr (), (src, k1))"
    by (auto simp: builder_build_def split: sum.splits bind_splits)
  have l: "leaders_upto ?n (Suc ?n) src" "length (src_cpu_to_reader_index src) = ?n"
    using source_build_leaders [OF r] by (simp_all add: source_of_builder_def source_new_def)
  show ?thesis
  proof (cases "cpu < k_cpu_count kern")
    case True
    let ?i = "unat cpu"
    have i: "?i < ?n" using True by (simp add: word_less_nat_alt)
    then have m: "src_cpu_to_reader_index src ! ?i = Some ?i" "1056 \<le> length (src_mems src ! ?i)"
      "?i < length (src_mems src)" "?i < length (src_cursors src)" using l(1) by (simp_all add: leaders_upto_def)
    have "begin_reading (src_mems src ! ?i) (src_cursors src ! ?i) \<noteq> None"
      using m(2) by (simp add: begin_reading_def reader_head_def reader_tail_def subslice_def)
    then obtain c where "begin_reading (src_mems src ! ?i) (src_cursors src ! ?i) = Some c" by blast
    then show ?thesis using True i m l(2) by (simp add: begin_reading_cpu_def begin_ring_def at_ok)
  next
    case False
    then have "\<not> unat cpu < ?n" by (simp add: word_less_nat_alt)
    then show ?thesis using False l(2) by (simp add: begin_reading_cpu_def)
  qed
qed

text \<open>Two cpus, of which the session targets the first.\<close>

definition demo_kernel :: "unit kernel" where
  "demo_kernel = \<lparr>k_cpu_count = 2, k_page_size = 4096, k_open = (\<lambda>_ _ _ k. (Inr 3, k)), k_read_id = (\<lambda>_ k. (Inr 5, k)),
     k_mmap = (\<lambda>_ _ k. (Inr (rb_data (the (in_process_new 4096 1))), k)), k_redirect = (\<lambda>_ _ k. (Inr (), k)),
     k_enable = (\<lambda>_ k. (Inr (), k)), k_disable = (\<lambda>_ k. (Inr (), k)), k_set_filter = (\<lambda>_ _ k. (Inr (), k)),
     k_tasks = (\<lambda>_. []), k_task_order = (\<lambda>_. []), k_id_order = (\<lambda>_. [])\<rparr>"

lemma demo_kernel_simps [simp]:
  "k_cpu_count demo_kernel = 2" "k_page_size demo_kernel = 4096" "k_open demo_kernel a p c k = (Inr 3, k)"
  "k_read_id demo_kernel fd k = (Inr 5, k)" "k_mmap demo_kernel fd n k = (Inr (rb_data (the (in_process_new 4096 1))), k)"
  by (simp_all add: demo_kernel_def)

theorem every_cpu_has_a_ring_witness:
  "\<exists>ss src k' src'. builder_build demo_kernel () (with_target_cpu 0 builder_new) () = Some (Inr (ss, src), k') \<and>
    src_target_cpus src = Some [0] \<and>
    begin_reading_cpu 1 src = Some (Some \<lparr>ctx_cpu = 1, ctx_reader_index = 1\<rparr>, src')"
proof -
  from ring_start_rel [OF demo_ok(3)] obtain s0 where "ring_start 4096 1 = Some s0" by blast
  then obtain rb rd' where rb: "in_process_new 4096 1 = Some rb" and rd': "create_reader rb = Some rd'"
    by (auto simp: ring_start_def split: bind_splits)
  from rd' obtain rd where rd: "reader_new (rb_data rb) = Some rd"
    by (auto simp: create_reader_def reader_new_unowned_def split: bind_splits)
  have c: "cpus demo_kernel = [0, 1]" by (simp add: cpus_def upt_rec)
  have "\<exists>ss src k'. builder_build demo_kernel () (with_target_cpu 0 builder_new) () = Some (Inr (ss, src), k') \<and>
      src_target_cpus src = Some [0]"
    using rb rd rd'
    by (simp add: builder_build_def with_target_cpu_def builder_new_def without_hooks_def apply_watermark_def
        source_of_builder_def source_new_def source_build_def c io_source_def io_bind_def io_update_def io_return_def
        add_for_pids_def add_samples_def add_leader_def add_in_process_def crb_open_def crb_create_reader_def
        cpu_ring_buf_new_def with_fd_def io_sys_def io_checked_def)
  then obtain ss src k' where b: "builder_build demo_kernel () (with_target_cpu 0 builder_new) () = Some (Inr (ss, src), k')"
    "src_target_cpus src = Some [0]" by blast
  have "bld_hooks (with_target_cpu 0 builder_new) = None" by (simp add: with_target_cpu_def builder_new_def)
  from every_cpu_has_a_ring [OF b(1) this, of 1] obtain src' where
    "begin_reading_cpu 1 src = Some (Some \<lparr>ctx_cpu = 1, ctx_reader_index = 1\<rparr>, src')"
    by (auto simp: demo_kernel_def)
  with b show ?thesis by blast
qed

end
