(* ===== verification/Environment.thy ===== *)
theory Environment
  imports RingSource SymReaders
begin

text \<open>
  What a session records of the processes that were running before it: the parsers of \<open>procfs.rs\<close> and
  the capture of \<open>perf_event/mod.rs\<close> (\<open>write_environment_comms\<close>, \<open>write_environment_modules\<close>), which
  writes a record for each process and each mapped module into the in-process ring. The contents of
  \<open>/proc\<close> are a parameter, and so are the times at which the capture reads the clock. Text is a list of
  code points.
\<close>

section \<open>Text\<close>

fun split_on :: "nat \<Rightarrow> ustr \<Rightarrow> ustr list" where
  "split_on c [] = [[]]"
| "split_on c (x # xs) =
     (if x = c then [] # split_on c xs
      else (case split_on c xs of p # ps \<Rightarrow> (x # p) # ps | [] \<Rightarrow> [[x]]))"

definition trim_end :: "ustr \<Rightarrow> ustr" where
  "trim_end s = rev (dropWhile is_whitespace (rev s))"

definition parse_u32 :: "ustr \<Rightarrow> u32 option" where
  "parse_u32 s = map_option (of_nat \<circ> nat) (parse_int False 4 s)"

definition parse_u64 :: "ustr \<Rightarrow> u64 option" where
  "parse_u64 s = map_option (of_nat \<circ> nat) (parse_int False 8 s)"

definition parse_hex32 :: "ustr \<Rightarrow> u32 option" where
  "parse_hex32 s = map_option of_nat (parse_hex (2 ^ 32) s)"

section \<open>A line of maps\<close>

definition MOD_FLAG_READ :: byte where "MOD_FLAG_READ = push_bit 0 1"
definition MOD_FLAG_WRITE :: byte where "MOD_FLAG_WRITE = push_bit 1 1"
definition MOD_FLAG_EXEC :: byte where "MOD_FLAG_EXEC = push_bit 2 1"
definition MOD_FLAG_PRIVATE :: byte where "MOD_FLAG_PRIVATE = push_bit 3 1"

lemmas mod_flag_defs = MOD_FLAG_READ_def MOD_FLAG_WRITE_def MOD_FLAG_EXEC_def MOD_FLAG_PRIVATE_def

record module_info =
  mi_start :: u64
  mi_end :: u64
  mi_offset :: u64
  mi_ino :: u64
  mi_dev_maj :: u32
  mi_dev_min :: u32
  mi_path :: "ustr option"
  mi_flags :: byte

definition module_default :: module_info where
  "module_default = \<lparr>mi_start = 0, mi_end = 0, mi_offset = 0, mi_ino = 0, mi_dev_maj = 0, mi_dev_min = 0,
     mi_path = None, mi_flags = 0\<rparr>"

definition module_len :: "module_info \<Rightarrow> u64 option" where
  "module_len m = do { d \<leftarrow> sub64 (mi_end m) (mi_start m); add64 d 1 }"

definition is_read :: "module_info \<Rightarrow> bool" where "is_read m \<longleftrightarrow> mi_flags m AND MOD_FLAG_READ \<noteq> 0"
definition is_write :: "module_info \<Rightarrow> bool" where "is_write m \<longleftrightarrow> mi_flags m AND MOD_FLAG_WRITE \<noteq> 0"
definition is_exec :: "module_info \<Rightarrow> bool" where "is_exec m \<longleftrightarrow> mi_flags m AND MOD_FLAG_EXEC \<noteq> 0"
definition is_private :: "module_info \<Rightarrow> bool" where "is_private m \<longleftrightarrow> mi_flags m AND MOD_FLAG_PRIVATE \<noteq> 0"

fun set_addresses :: "ustr list \<Rightarrow> module_info \<Rightarrow> module_info option" where
  "set_addresses [] m = Some m"
| "set_addresses (p # ps) m =
     (case parse_hex64 p of
        None \<Rightarrow> None
      | Some a \<Rightarrow> set_addresses ps (if mi_start m = 0 then m\<lparr>mi_start := a\<rparr> else m\<lparr>mi_end := a\<rparr>))"

fun set_devices :: "nat \<Rightarrow> ustr list \<Rightarrow> module_info \<Rightarrow> module_info option" where
  "set_devices i [] m = Some m"
| "set_devices i (p # ps) m =
     (case parse_hex32 p of
        None \<Rightarrow> None
      | Some v \<Rightarrow> set_devices (Suc i) ps (if i = 0 then m\<lparr>mi_dev_maj := v\<rparr> else m\<lparr>mi_dev_min := v\<rparr>))"

definition set_flags :: "ustr \<Rightarrow> module_info \<Rightarrow> module_info" where
  "set_flags part m = m\<lparr>mi_flags := mi_flags m
     OR (if 114 \<in> set part then MOD_FLAG_READ else 0) OR (if 119 \<in> set part then MOD_FLAG_WRITE else 0)
     OR (if 120 \<in> set part then MOD_FLAG_EXEC else 0) OR (if 112 \<in> set part then MOD_FLAG_PRIVATE else 0)\<rparr>"

text \<open>What the part with a given index sets; a part from the seventh on ends the line.\<close>

fun from_parts :: "nat \<Rightarrow> ustr list \<Rightarrow> module_info \<Rightarrow> module_info option" where
  "from_parts i [] m = Some m"
| "from_parts i (part # parts) m =
     (if 5 < i then Some m
      else (case (if i = 0 then set_addresses (split_on 45 part) m
                  else if i = 1 then Some (set_flags part m)
                  else if i = 2 then map_option (\<lambda>v. m\<lparr>mi_offset := v\<rparr>) (parse_hex64 part)
                  else if i = 3 then set_devices 0 (split_on 58 part) m
                  else if i = 4 then map_option (\<lambda>v. m\<lparr>mi_ino := v\<rparr>) (parse_u64 part)
                  else Some (m\<lparr>mi_path := Some part\<rparr>)) of
              None \<Rightarrow> None
            | Some m \<Rightarrow> from_parts (Suc i) parts m))"

definition from_line :: "ustr \<Rightarrow> module_info option" where
  "from_line line = from_parts 0 (split_whitespace line) module_default"

section \<open>The pid of a namespace and the name of a process\<close>

definition try_parse_nspid_line :: "ustr \<Rightarrow> u32 option" where
  "try_parse_nspid_line line =
     (let tag = code_points ''NSpid:'' @ [9] in
      if take (length tag) line = tag then parse_u32 (last (split_on 9 (trim_end (drop (length tag) line)))) else None)"

text \<open>The first line that tells, up to one that cannot be read.\<close>

fun ns_pid :: "ustr option list \<Rightarrow> u32 option" where
  "ns_pid [] = None"
| "ns_pid (None # ls) = None"
| "ns_pid (Some l # ls) = (case try_parse_nspid_line l of Some p \<Rightarrow> Some p | None \<Rightarrow> ns_pid ls)"

text \<open>A process in \<open>/proc\<close>: the contents of the files that can be read, of \<open>maps\<close> its lines.\<close>

record proc_entry =
  pe_pid :: u32
  pe_comm :: "ustr option"
  pe_cmdline :: "ustr option"
  pe_maps :: "ustr option list option"

definition parse_long_comm :: "proc_entry \<Rightarrow> ustr option" where
  "parse_long_comm p =
     (case pe_cmdline p of
        None \<Rightarrow> None
      | Some c \<Rightarrow>
          let c = takeWhile (\<lambda>x. x \<noteq> 0) c
          in if c = [] then None else Some (last (split_on 47 c)))"

definition get_comm :: "proc_entry \<Rightarrow> ustr option" where
  "get_comm p =
     (case pe_comm p of
        None \<Rightarrow> None
      | Some comm \<Rightarrow>
          let comm = butlast comm in
          if length (as_bytes comm) = 15 \<and> take 8 comm \<noteq> code_points ''kworker/'' then
            (case parse_long_comm p of Some long_comm \<Rightarrow> Some long_comm | None \<Rightarrow> Some comm)
          else Some comm)"

fun module_lines :: "ustr option list \<Rightarrow> module_info list" where
  "module_lines [] = []"
| "module_lines (None # ls) = []"
| "module_lines (Some l # ls) = (case from_line l of Some m \<Rightarrow> m # module_lines ls | None \<Rightarrow> module_lines ls)"

definition iter_modules :: "proc_entry list \<Rightarrow> (u32 \<times> module_info) list" where
  "iter_modules ps =
     concat (map (\<lambda>p. map (Pair (pe_pid p)) (case pe_maps p of Some ls \<Rightarrow> module_lines ls | None \<Rightarrow> [])) ps)"

section \<open>The capture\<close>

definition comm_data :: "u32 \<Rightarrow> ustr \<Rightarrow> u64 \<Rightarrow> byte list" where
  "comm_data pid comm time =
     u32_bytes pid @ u32_bytes pid @ as_bytes comm @ [0] @ u32_bytes pid @ u32_bytes pid @
     u64_bytes time @ u64_bytes 0"

definition module_data :: "u32 \<Rightarrow> module_info \<Rightarrow> u64 \<Rightarrow> u64 \<Rightarrow> byte list" where
  "module_data pid m len time =
     u32_bytes pid @ u32_bytes pid @ u64_bytes (mi_start m) @ u64_bytes len @ u64_bytes (mi_offset m) @
     u32_bytes (mi_dev_maj m) @ u32_bytes (mi_dev_min m) @ u64_bytes (mi_ino m) @ u64_bytes 0 @
     u32_bytes 4 @ u32_bytes 0 @ as_bytes (case mi_path m of Some path \<Rightarrow> path | None \<Rightarrow> []) @ [0] @
     u64_bytes time @ u64_bytes 0"

text \<open>The clock and the reader at a write: the time taken for the record, the time a lost record would
  carry, and the tails the reader stores while the writer waits.\<close>

record write_at =
  wa_time :: u64
  wa_now :: u64
  wa_polls :: "u64 list"

type_synonym capture = "(ring_writer \<times> byte list) \<times> nat"

definition capture_write ::
  "(nat \<Rightarrow> write_at) \<Rightarrow> u32 \<Rightarrow> (u64 \<Rightarrow> byte list) \<Rightarrow> capture \<Rightarrow> capture option" where
  "capture_write clock et data c = (
     let a = clock (snd c) in do {
     full_data \<leftarrow> header_write et 0 (data (wa_time a)) [];
     wm \<leftarrow> writer_write (fst (fst c)) (wa_now a) (wa_polls a) full_data (snd (fst c));
     Ret (wm, Suc (snd c))
   })"

definition pid_wanted :: "i32 set option \<Rightarrow> u32 \<Rightarrow> bool" where
  "pid_wanted pid_lookup pid \<longleftrightarrow> (case pid_lookup of Some pids \<Rightarrow> pid \<in> pids | None \<Rightarrow> True)"

fun write_environment_comms ::
  "(nat \<Rightarrow> write_at) \<Rightarrow> i32 set option \<Rightarrow> proc_entry list \<Rightarrow> capture \<Rightarrow> capture option" where
  "write_environment_comms clock pid_lookup [] c = Ret c"
| "write_environment_comms clock pid_lookup (p # ps) c =
     (if \<not> pid_wanted pid_lookup (pe_pid p) then write_environment_comms clock pid_lookup ps c
      else do {
        c \<leftarrow> capture_write clock PERF_RECORD_COMM
          (comm_data (pe_pid p) (case get_comm p of Some comm \<Rightarrow> comm | None \<Rightarrow> [])) c;
        write_environment_comms clock pid_lookup ps c
      })"

fun write_environment_modules ::
  "(nat \<Rightarrow> write_at) \<Rightarrow> i32 set option \<Rightarrow> bool \<Rightarrow> (u32 \<times> module_info) list \<Rightarrow> capture \<Rightarrow> capture option" where
  "write_environment_modules clock pid_lookup captures_all [] c = Ret c"
| "write_environment_modules clock pid_lookup captures_all ((pid, m) # ms) c =
     (if \<not> captures_all \<and> \<not> is_exec m \<or> \<not> pid_wanted pid_lookup pid
      then write_environment_modules clock pid_lookup captures_all ms c
      else do {
        len \<leftarrow> module_len m;
        c \<leftarrow> capture_write clock PERF_RECORD_MMAP2 (module_data pid m len) c;
        write_environment_modules clock pid_lookup captures_all ms c
      })"

text \<open>The thread of \<open>spawn_capture_environment\<close>, run at once. The files of \<open>/proc\<close> are read anew for the
  modules. The pages of the in-process ring are those of the last reader.\<close>

definition capture_environment ::
  "bool \<Rightarrow> (nat \<Rightarrow> write_at) \<Rightarrow> u64 \<Rightarrow> proc_entry list \<Rightarrow> proc_entry list \<Rightarrow> ring_source \<Rightarrow> ring_source option" where
  "capture_environment captures_all clock flush_now procs procs' src =
     (case take_in_process_writer src of
        None \<Rightarrow> Ret src
      | Some w \<Rightarrow>
          let pid_lookup = map_option set (src_target_pids src);
              i = length (src_mems src) - 1 in do {
          mem \<leftarrow> at (src_mems src) i;
          c \<leftarrow> write_environment_comms clock pid_lookup procs ((w, mem), 0);
          ((w, mem), _) \<leftarrow> write_environment_modules clock pid_lookup captures_all (iter_modules procs') c;
          (w, mem) \<leftarrow> writer_flush w flush_now mem;
          Ret (src\<lparr>src_mems := (src_mems src)[i := mem]\<rparr>)
        })"

end
