(* ===== verification/EnvironmentProps.thy ===== *)
theory EnvironmentProps
  imports Environment RingSourceProps
begin

text \<open>
  What the capture of the running processes puts into the ring and what is read of it: a line of \<open>maps\<close>
  as the kernel writes it is parsed into its parts; a record of the capture carries its time and
  identifier before the padding of the record, not at its end, where they are read.
\<close>

section \<open>The end of a padded record\<close>

lemma le_nat_append_zeros [simp]: "le_nat (bs @ replicate n 0) = le_nat bs"
proof (induction bs)
  case Nil
  show ?case by (induction n) simp_all
qed simp

lemma le_nat_drop: "le_nat (drop p bs) = le_nat bs div 256 ^ p"
proof (induction p arbitrary: bs)
  case (Suc p)
  show ?case
  proof (cases bs)
    case (Cons b xs)
    have "unat b < 256" using unsigned_less [of b] by simp
    then have "(unat b + 256 * le_nat xs) div 256 = le_nat xs" by simp
    then show ?thesis using Cons Suc by (simp add: div_mult2_eq)
  qed simp
qed simp

lemma u64_of_shifted: "u64_of (drop p (u64_bytes t) @ replicate p 0) = drop_bit (8 * p) t"
proof -
  have "le_nat (u64_bytes t) = unat t"
  proof -
    have "unat t < 256 ^ 8" using unsigned_less [of t] by simp
    then show ?thesis by (simp only: u64_bytes_def le_nat_to_le mod_less)
  qed
  then have "u64_of (drop p (u64_bytes t) @ replicate p 0) = of_nat (unat t div 256 ^ p)"
    by (simp add: u64_of_def le_nat_drop)
  also have "(256 :: nat) ^ p = 2 ^ (8 * p)" by (simp add: power_mult)
  also have "of_nat (unat t div 2 ^ (8 * p)) = drop_bit (8 * p) t"
  proof (rule word_unat_eq_iff [THEN iffD2])
    define k where "k = unat t div 2 ^ (8 * p)"
    have "k \<le> unat t" unfolding k_def by (rule div_le_dividend)
    also have "\<dots> < 2 ^ 64" using unsigned_less [of t] by simp
    finally have "unat (of_nat k :: u64) = k" by (rule unat_of_nat_word(3))
    moreover have "unat (drop_bit (8 * p) t) = k"
    proof -
      have "unat (drop_bit (8 * p) t) = drop_bit (8 * p) (take_bit LENGTH(64) (unat t))"
        by (rule unsigned_drop_bit_eq)
      also have "take_bit LENGTH(64) (unat t) = unat t"
        using unsigned_less [of t] by (intro take_bit_nat_eq_self) simp
      finally show ?thesis by (simp only: drop_bit_eq_div k_def)
    qed
    ultimately show "unat (of_nat (unat t div 2 ^ (8 * p)) :: u64) = unat (drop_bit (8 * p) t)"
      by (simp add: k_def del: of_nat_div)
  qed
  finally show ?thesis .
qed

text \<open>The number of bytes a payload is padded by.\<close>

definition padding :: "nat \<Rightarrow> nat" where
  "padding n = (8 - n mod 8) mod 8"

lemma padding_eq:
  assumes "n \<le> 65520"
  shows "align_to_perf_record (n + 8) - (n + 8) = padding n" "padding n < 8" "align_to_perf_record (n + 8) = n + 8 + padding n"
proof -
  have a: "align_to_perf_record (n + 8) = (n + 8 + 7) div 8 * 8" using assms by (intro align_eq) simp
  show "padding n < 8" by (simp add: padding_def)
  have "(n + 15) div 8 * 8 = n + 8 + padding n"
  proof -
    define q r where "q = n div 8" and "r = n mod 8"
    have n: "n = 8 * q + r" "r < 8" by (simp_all add: q_def r_def)
    have d: "(8 * q + r + 15) div 8 = q + (r + 15) div 8" by simp
    show ?thesis
    proof (cases "r = 0")
      case True
      then show ?thesis using n(1) by (simp add: padding_def)
    next
      case False
      then have "(r + 15) div 8 = 2" "(8 - r) mod 8 = 8 - r" using n(2) by simp_all
      then show ?thesis using n d by (simp add: padding_def flip: r_def)
    qed
  qed
  then show "align_to_perf_record (n + 8) = n + 8 + padding n" using a by (simp add: add.assoc)
  then show "align_to_perf_record (n + 8) - (n + 8) = padding n" by simp
qed

lemma u64_bytes_0: "u64_bytes 0 = replicate 8 0"
  by code_simp

lemma padded_end:
  assumes d: "data = xs @ u64_bytes t @ u64_bytes 0" and n: "length data \<le> 65520"
    and raw_def: "raw = perf_record et 0 data" and p_def: "p = padding (length data)"
  shows "length raw = length data + 8 + p" "take 8 (drop (length raw - 16) raw) = drop p (u64_bytes t) @ replicate p 0"
    "take 8 (drop (length raw - 8) raw) = replicate 8 0"
proof -
  note p = padding_eq [OF n, folded p_def]
  let ?h = "u32_bytes et @ u16_bytes 0 @ u16_bytes (of_nat (align_to_perf_record (length data + 8)))"
  have raw: "raw = ?h @ data @ replicate p 0" by (simp add: raw_def perf_record_def Let_def p(1))
  show len: "length raw = length data + 8 + p" by (simp add: raw)
  have e: "raw = (?h @ xs @ take p (u64_bytes t)) @ drop p (u64_bytes t) @ replicate p 0 @ replicate 8 0"
  proof -
    have "u64_bytes 0 @ replicate p 0 = replicate p 0 @ replicate 8 (0 :: byte)"
      by (simp add: u64_bytes_0 flip: replicate_add)
    then have "raw = ?h @ xs @ u64_bytes t @ replicate p 0 @ replicate 8 0" by (simp add: raw d)
    also have "\<dots> = ?h @ xs @ (take p (u64_bytes t) @ drop p (u64_bytes t)) @ replicate p 0 @ replicate 8 0"
      by (simp only: append_take_drop_id)
    finally show ?thesis by (simp only: append_assoc)
  qed
  define h1 h2 where "h1 = ?h @ xs @ take p (u64_bytes t)" and "h2 = drop p (u64_bytes t) @ replicate p 0"
  have e1: "raw = h1 @ h2 @ replicate 8 0" using e by (simp only: h1_def h2_def append_assoc)
  have l: "length raw - 16 = length h1" "length raw - 8 = length (h1 @ h2)" "length h2 = 8"
    using len p(2) by (simp_all add: h1_def h2_def d)
  show "take 8 (drop (length raw - 16) raw) = drop p (u64_bytes t) @ replicate p 0"
    unfolding l(1) h2_def [symmetric] by (simp add: e1 l(3))
  show "take 8 (drop (length raw - 8) raw) = replicate 8 0"
    unfolding l(2) by (simp add: e1)
qed

text \<open>The trailer of a record with the common attributes.\<close>

lemma common_offsets:
  "non_sampled_id_offsets common_attributes = Some \<lparr>off_pid = Some 0, off_tid = Some 4, off_time = Some 8, off_id = None,
     off_stream_id = None, off_cpu = None, off_identifier = Some 16, off_size = 24\<rparr>"
  by code_simp

lemma decode_common:
  assumes "24 \<le> n" "n < 2 ^ 32"
  shows "decode_trailer common_attributes n r = Some (r\<lparr>
    sr_pid := snd (field_ref_update (sr_pid r) (n - 24) 4),
    sr_tid := snd (field_ref_update (sr_tid r) (n - 20) 4),
    sr_time := snd (field_ref_update (sr_time r) (n - 16) 8),
    sr_ident := snd (field_ref_update (field_ref_reset (sr_ident r)) (n - 8) 8),
    sr_stream_id := field_ref_reset (sr_stream_id r),
    sr_cpu := field_ref_reset (sr_cpu r)\<rparr>)"
proof -
  have s: "sub_usize n 24 = Some (n - 24)" using assms(1) by (simp add: sub_usize_def)
  have a: "usize_add k m = Some (k + m)" if "k \<le> n" "m \<le> 8" for k m
    using that assms(2) by (simp add: usize_add_def)
  show ?thesis using assms by (cases r) (simp add: decode_trailer_def common_offsets s a take_field_def)
qed

section \<open>What is read of a captured record\<close>

lemma get_u64_at:
  assumes "n + 8 \<le> length raw" "length raw < 2 ^ 32"
  shows "field_ref_try_get_u64 (snd (field_ref_update f n 8)) raw = Some (Some (u64_of (take 8 (drop n raw))))"
  using assms by (simp add: field_ref_try_get_u64_def field_ref_get_update read_u64_def ok_value_def)

lemma captured_record:
  assumes d: "data = xs @ u64_bytes t @ u64_bytes 0" and n: "length data \<le> 65520" "16 \<le> length data"
    and raw: "raw = perf_record et 0 data" and et: "et \<noteq> PERF_RECORD_SAMPLE"
  shows "rec_id raw = 0 \<and> rec_time b raw = drop_bit (8 * padding (length data)) t \<and>
    (\<exists>r'. decode_trailer common_attributes (length raw) r = Some r' \<and>
       field_ref_try_get_u64 (sr_time r') raw = Some (Some (drop_bit (8 * padding (length data)) t)) \<and>
       field_ref_try_get_u64 (sr_ident r') raw = Some (Some 0))"
proof -
  note e = padded_end [OF d n(1) raw refl]
  note p = padding_eq [OF n(1)]
  have len: "24 \<le> length raw" "length raw < 2 ^ 32" using e(1) n p(2) by simp_all
  have z: "u64_of (replicate 8 0) = 0" by code_simp
  have "\<not> rec_sample raw"
    using et by (simp add: rec_sample_def raw perf_record_def Let_def codec_simps)
  moreover note dc = decode_common [OF len, of r]
  ultimately show ?thesis
    using len by (simp add: rec_id_def rec_time_def e(2,3) u64_of_shifted z dc get_u64_at)
qed

text \<open>C40. The time of a captured process or module is read wrong unless the payload happens to be a multiple of
  eight bytes long. The capture puts the time and the identifier at the end of the payload and \<open>Header::write\<close>
  pads the record after them, but the source and the session look for them at the end of the record: with \<open>p\<close>
  bytes of padding both read the time shifted down by \<open>p\<close> bytes. The identifier, being zero, survives.\<close>

theorem captured_time_shifted:
  assumes "data = comm_data pid comm time \<and> et = PERF_RECORD_COMM \<or>
      data = module_data pid m len time \<and> et = PERF_RECORD_MMAP2"
    and "length data \<le> 65520"
  shows "\<exists>raw. header_write et 0 data [] = Some raw \<and>
    rec_id raw = 0 \<and> rec_time b raw = drop_bit (8 * padding (length data)) time \<and>
    (\<exists>r'. decode_trailer common_attributes (length raw) r = Some r' \<and>
       field_ref_try_get_u64 (sr_time r') raw = Some (Some (drop_bit (8 * padding (length data)) time)))"
proof -
  have "\<exists>xs. data = xs @ u64_bytes time @ u64_bytes 0"
    using assms(1) by (auto simp: comm_data_def module_data_def simp flip: append_assoc append_Cons)
  then obtain xs where d: "data = xs @ u64_bytes time @ u64_bytes 0" by blast
  then have "16 \<le> length data" by simp
  moreover have "et \<noteq> PERF_RECORD_SAMPLE"
    using assms(1) by (auto simp: PERF_RECORD_COMM_def PERF_RECORD_MMAP2_def PERF_RECORD_SAMPLE_def)
  ultimately show ?thesis
    using captured_record [OF d assms(2) _ refl, of et b r] assms(2)
    by (intro exI [of _ "perf_record et 0 data"]) (auto simp: header_write_eq)
qed

theorem captured_time_shifted_witness:
  "\<exists>raw. header_write PERF_RECORD_COMM 0 (comm_data 7 (code_points ''ab'') 0x123456) [] = Some raw \<and>
    rec_time (cpu_ring_buf_new 0 common_attributes) raw = 0 \<and>
    (\<exists>r'. decode_trailer common_attributes (length raw) refs_new = Some r' \<and>
       field_ref_try_get_u64 (sr_time r') raw = Some (Some 0))"
proof -
  have "as_bytes (code_points ''ab'') = [97, 98]" by code_simp
  then have l: "length (comm_data 7 (code_points ''ab'') 0x123456) = 35" by (simp add: comm_data_def)
  have z: "drop_bit (8 * padding 35) (0x123456 :: u64) = 0" by code_simp
  have "length (comm_data 7 (code_points ''ab'') 0x123456) \<le> 65520" using l by simp
  from captured_time_shifted [OF disjI1 [OF conjI [OF refl refl]] this, of "cpu_ring_buf_new 0 common_attributes" refs_new] show ?thesis
    unfolding l z by blast
qed

section \<open>A line of maps as the kernel writes it\<close>

text \<open>\<open>seq_put_hex_ll\<close>: lower-case hexadecimal, with zeros in front up to the width.\<close>

definition low_digit :: "nat \<Rightarrow> nat" where "low_digit n = (if n < 10 then 48 + n else 87 + n)"

fun low_hex :: "nat \<Rightarrow> ustr" where
  "low_hex n = (if n < 16 then [low_digit n] else low_hex (n div 16) @ [low_digit (n mod 16)])"

declare low_hex.simps [simp del]

definition pad_hex :: "nat \<Rightarrow> nat \<Rightarrow> ustr" where
  "pad_hex w n = replicate (w - length (low_hex n)) 48 @ low_hex n"

definition maps_line :: "module_info \<Rightarrow> ustr \<Rightarrow> nat \<Rightarrow> ustr \<Rightarrow> ustr" where
  "maps_line m perms gap path =
     pad_hex 8 (unat (mi_start m)) @ 45 # pad_hex 8 (unat (mi_end m)) @ 32 # perms @ 32 #
     pad_hex 8 (unat (mi_offset m)) @ 32 # pad_hex 2 (unat (mi_dev_maj m)) @ 58 #
     pad_hex 2 (unat (mi_dev_min m)) @ 32 # decimal (unat (mi_ino m)) @ replicate (Suc gap) 32 @ path"

definition perms_text :: "byte \<Rightarrow> ustr" where
  "perms_text fl = [if fl AND MOD_FLAG_READ \<noteq> 0 then 114 else 45, if fl AND MOD_FLAG_WRITE \<noteq> 0 then 119 else 45,
     if fl AND MOD_FLAG_EXEC \<noteq> 0 then 120 else 45, if fl AND MOD_FLAG_PRIVATE \<noteq> 0 then 112 else 115]"

lemma hex_value_low_digit: "n < 16 \<Longrightarrow> hex_value (low_digit n) = Some n"
  by (auto simp: hex_value_def low_digit_def)

lemma hex_digits_append:
  "hex_digits (xs @ ys) acc = (case hex_digits xs acc of None \<Rightarrow> None | Some a \<Rightarrow> hex_digits ys a)"
  by (induction xs acc rule: hex_digits.induct) (auto split: option.split)

lemma hex_digits_low_hex: "hex_digits (low_hex n) 0 = Some n"
proof (induction n rule: less_induct)
  case (less n)
  show ?case
  proof (cases "n < 16")
    case True
    then show ?thesis by (subst low_hex.simps) (simp add: hex_value_low_digit)
  next
    case False
    then have "hex_digits (low_hex (n div 16)) 0 = Some (n div 16)" by (intro less) simp
    then show ?thesis
      using False by (subst low_hex.simps) (simp add: hex_digits_append hex_value_low_digit)
  qed
qed

lemma hex_digits_zeros: "hex_digits (replicate k 48 @ xs) 0 = hex_digits xs 0"
  by (induction k) (simp_all add: hex_value_def)

lemma low_hex_set: "c \<in> set (low_hex n) \<Longrightarrow> 48 \<le> c \<and> c \<le> 57 \<or> 97 \<le> c \<and> c \<le> 102"
proof (induction n rule: less_induct)
  case (less n)
  show ?case
  proof (cases "n < 16")
    case True
    then show ?thesis using less.prems by (subst (asm) low_hex.simps) (auto simp: low_digit_def)
  next
    case False
    then have "c \<in> set (low_hex (n div 16)) \<or> c = low_digit (n mod 16)"
      using less.prems by (subst (asm) low_hex.simps) auto
    moreover have "n mod 16 < 16" by simp
    ultimately show ?thesis
      using less.IH [of "n div 16"] False by (auto simp: low_digit_def split: if_splits)
  qed
qed

lemma pad_hex_set: "c \<in> set (pad_hex w n) \<Longrightarrow> 48 \<le> c \<and> c \<le> 57 \<or> 97 \<le> c \<and> c \<le> 102"
  by (auto simp: pad_hex_def dest: low_hex_set)

lemma pad_hex_nonempty: "pad_hex w n \<noteq> []"
  by (subst pad_hex_def, subst low_hex.simps) simp

lemma parse_hex_pad:
  assumes "n < b"
  shows "parse_hex b (pad_hex w n) = Some n"
proof -
  have "hd (pad_hex w n) \<noteq> 43"
    using pad_hex_set [of "hd (pad_hex w n)" w n] hd_in_set [OF pad_hex_nonempty, of w n] by auto
  then show ?thesis
    using assms pad_hex_nonempty [of w n]
    by (simp add: parse_hex_def pad_hex_def hex_digits_zeros hex_digits_low_hex)
qed

lemma parse_hex64_pad [simp]: "parse_hex64 (pad_hex w (unat (x :: u64))) = Some x"
proof -
  have "unat x < 2 ^ 64" using unsigned_less [of x] by simp
  then show ?thesis by (simp add: parse_hex64_def parse_hex_pad del: power_numeral)
qed

lemma parse_hex32_pad [simp]: "parse_hex32 (pad_hex w (unat (x :: u32))) = Some x"
proof -
  have "unat x < 2 ^ 32" using unsigned_less [of x] by simp
  then show ?thesis by (simp add: parse_hex32_def parse_hex_pad del: power_numeral)
qed

lemma parse_u64_decimal [simp]: "parse_u64 (decimal (unat (x :: u64))) = Some x"
proof -
  have "uint x < 2 ^ 64" using uint_lt2p [of x] by simp
  then have "in_range False 8 (int (unat x))" by (simp add: in_range_def)
  from parse_show_int [OF this] show ?thesis by (simp add: parse_u64_def show_int_def)
qed

lemma decimal_set: "c \<in> set (decimal n) \<Longrightarrow> 48 \<le> c \<and> c \<le> 57"
proof (induction n rule: less_induct)
  case (less n)
  show ?case
  proof (cases "n < 10")
    case True
    then show ?thesis using less.prems by (subst (asm) decimal.simps) auto
  next
    case False
    then have "c \<in> set (decimal (n div 10)) \<or> c = 48 + n mod 10"
      using less.prems by (subst (asm) decimal.simps) auto
    moreover have "n mod 10 < 10" by simp
    ultimately show ?thesis using less.IH [of "n div 10"] False by fastforce
  qed
qed

section \<open>Words and parts\<close>

definition no_blank :: "ustr \<Rightarrow> bool" where "no_blank s \<longleftrightarrow> (\<forall>c \<in> set s. \<not> is_whitespace c)"

lemma split_blank: "split_whitespace (32 # s) = split_whitespace s"
  by (subst (1 2) SymReaders.split_whitespace.simps) (simp add: is_whitespace_def)

lemma split_blanks: "split_whitespace (replicate k 32 @ s) = split_whitespace s"
  by (induction k) (simp_all add: split_blank)

lemma split_word:
  assumes "w \<noteq> []" "no_blank w" "s = [] \<or> is_whitespace (hd s)"
  shows "split_whitespace (w @ s) = w # split_whitespace s"
proof -
  have d: "dropWhile is_whitespace (w @ s) = w @ s"
    using assms(1,2) by (cases w) (auto simp: no_blank_def)
  have "takeWhile (\<lambda>c. \<not> is_whitespace c) (w @ s) = w" "dropWhile (\<lambda>c. \<not> is_whitespace c) (w @ s) = s"
    using assms(2,3) by (cases s; force simp: no_blank_def takeWhile_append dropWhile_append)+
  then show ?thesis
    using assms(1) by (subst SymReaders.split_whitespace.simps) (simp add: d)
qed

lemma split_on_none: "c \<notin> set s \<Longrightarrow> split_on c s = [s]"
  by (induction s) auto

lemma split_on_part: "c \<notin> set s \<Longrightarrow> split_on c (s @ c # t) = s # split_on c t"
  by (induction s) auto

lemma pad_hex_no_blank: "no_blank (pad_hex w n)"
  by (auto simp: no_blank_def is_whitespace_def dest!: pad_hex_set)

lemma decimal_no_blank: "no_blank (decimal n)"
  by (auto simp: no_blank_def is_whitespace_def dest!: decimal_set)

lemma no_blank_append [simp]: "no_blank (a @ b) \<longleftrightarrow> no_blank a \<and> no_blank b"
  by (auto simp: no_blank_def)

lemma no_blank_Cons [simp]: "no_blank (a # b) \<longleftrightarrow> \<not> is_whitespace a \<and> no_blank b"
  by (auto simp: no_blank_def)

lemma split_pad_hex: "c = 45 \<or> c = 58 \<Longrightarrow> split_on c (pad_hex w n @ c # pad_hex w' n') = [pad_hex w n, pad_hex w' n']"
  by (subst split_on_part, force dest: pad_hex_set, subst split_on_none, force dest: pad_hex_set, rule refl)

definition first_word :: "ustr \<Rightarrow> ustr option" where
  "first_word path = (case split_whitespace path of w # _ \<Rightarrow> Some w | [] \<Rightarrow> None)"

lemma split_maps_line:
  assumes "no_blank perms" "perms \<noteq> []"
  shows "split_whitespace (maps_line m perms gap path) =
    (pad_hex 8 (unat (mi_start m)) @ 45 # pad_hex 8 (unat (mi_end m))) # perms #
    pad_hex 8 (unat (mi_offset m)) # (pad_hex 2 (unat (mi_dev_maj m)) @ 58 # pad_hex 2 (unat (mi_dev_min m))) #
    decimal (unat (mi_ino m)) # split_whitespace path"
proof -
  have step: "w \<noteq> [] \<Longrightarrow> no_blank w \<Longrightarrow> split_whitespace (w @ 32 # t) = w # split_whitespace t" for w t
    using split_word [of w "32 # t"] by (simp add: is_whitespace_def split_blank)
  have colon: "\<not> is_whitespace 58" "\<not> is_whitespace 45" by (simp_all add: is_whitespace_def)
  obtain d ds where d: "decimal (unat (mi_ino m)) = d # ds" using decimal_digits by blast
  have "maps_line m perms gap path =
      (pad_hex 8 (unat (mi_start m)) @ 45 # pad_hex 8 (unat (mi_end m))) @ 32 # perms @ 32 #
      pad_hex 8 (unat (mi_offset m)) @ 32 # (pad_hex 2 (unat (mi_dev_maj m)) @ 58 # pad_hex 2 (unat (mi_dev_min m))) @
      32 # decimal (unat (mi_ino m)) @ 32 # replicate gap 32 @ path"
    by (simp add: maps_line_def)
  also have "split_whitespace \<dots> = (pad_hex 8 (unat (mi_start m)) @ 45 # pad_hex 8 (unat (mi_end m))) # perms #
    pad_hex 8 (unat (mi_offset m)) # (pad_hex 2 (unat (mi_dev_maj m)) @ 58 # pad_hex 2 (unat (mi_dev_min m))) #
    decimal (unat (mi_ino m)) # split_whitespace path"
    using assms decimal_no_blank [of "unat (mi_ino m)"]
    by (simp only: step pad_hex_no_blank pad_hex_nonempty no_blank_append no_blank_Cons colon split_blanks
        append_is_Nil_conv d list.simps simp_thms)
  finally show ?thesis .
qed

lemma flags_of_perms:
  fixes fl :: byte
  assumes "fl AND 15 = fl"
  shows "(if 114 \<in> set (perms_text fl) then MOD_FLAG_READ else 0) OR
    (if 119 \<in> set (perms_text fl) then MOD_FLAG_WRITE else 0) OR
    (if 120 \<in> set (perms_text fl) then MOD_FLAG_EXEC else 0) OR
    (if 112 \<in> set (perms_text fl) then MOD_FLAG_PRIVATE else 0) = fl"
proof -
  have f: "MOD_FLAG_READ = 1" "MOD_FLAG_WRITE = 2" "MOD_FLAG_EXEC = 4" "MOD_FLAG_PRIVATE = 8"
    by (simp_all add: mod_flag_defs)
  have "unat fl = unat (fl AND 15)" using assms by simp
  also have "\<dots> = unat fl mod 16"
  proof -
    have "fl AND 15 = take_bit 4 fl" by (simp add: take_bit_eq_mask Bit_Operations.mask_eq_exp_minus_1)
    then have "unat (fl AND 15) = take_bit 4 (unat fl)" by (simp only: unsigned_take_bit_eq)
    then show ?thesis by (simp add: take_bit_eq_mod)
  qed
  finally have "unat fl < 16" by presburger
  then have "unat fl \<in> set [0 ..< 16]" by simp
  moreover have "fl = word_of_nat (unat fl)" by simp
  ultimately have "fl \<in> set (map word_of_nat [0 ..< 16])" unfolding set_map by (intro image_eqI)
  then have "fl \<in> {0, 1, 2, 3, 4, 5, 6, 7, 8, 9, 10, 11, 12, 13, 14, 15}"
    by (simp add: upt_rec)
  then show ?thesis by (elim insertE emptyE; simp add: f perms_text_def)
qed

lemma set_flags_perms:
  "fl AND 15 = fl \<Longrightarrow> mi_flags m = 0 \<Longrightarrow> set_flags (perms_text fl) m = m\<lparr>mi_flags := fl\<rparr>"
  unfolding set_flags_def by (simp only: or.assoc flags_of_perms or.left_neutral)

lemma perms_text_no_blank: "no_blank (perms_text fl)" "perms_text fl \<noteq> []"
  by (simp_all add: perms_text_def is_whitespace_def no_blank_def)

lemma from_parts_done: "from_parts (Suc (Suc (Suc (Suc (Suc (Suc 0)))))) ws m = Some m"
  by (cases ws) simp_all



end
