(* ===== verification/Elf.thy ===== *)
theory Elf
  imports Io EventText
begin

text \<open>
  \<open>ruwind/elf.rs\<close>: the reader of ELF files. A file is its bytes and the position in it; a read takes all
  the bytes that are there, up to the length of the buffer, as a read of a regular file does. The code for
  the two classes differs in the structures it reads, so the functions take the layout of the structures
  and widen what they read as the code does. The functions that append to a vector keep it in the state:
  what was appended before an error stays. Demangling is in two libraries that are not part of the sources
  and is a parameter.
\<close>

section \<open>Files\<close>

record file_reader =
  fr_data :: "byte list"
  fr_pos :: nat

definition file_open :: "byte list \<Rightarrow> file_reader" where
  "file_open bs = \<lparr>fr_data = bs, fr_pos = 0\<rparr>"

definition unexpected_eof :: err where "unexpected_eof = ''failed to fill whole buffer''"

text \<open>\<open>lseek\<close> takes the position as a signed number and refuses a negative one.\<close>

definition seek_start :: "u64 \<Rightarrow> (file_reader, unit) io" where
  "seek_start p = (\<lambda>r.
     if unat p < 2 ^ 63 then Ret (Inr (), r\<lparr>fr_pos := unat p\<rparr>) else Ret (Inl ''Invalid argument'', r))"

definition seek_forward :: "nat \<Rightarrow> (file_reader, unit) io" where
  "seek_forward n = (\<lambda>r.
     if fr_pos r + n < 2 ^ 63 then Ret (Inr (), r\<lparr>fr_pos := fr_pos r + n\<rparr>) else Ret (Inl ''Invalid argument'', r))"

definition file_read :: "nat \<Rightarrow> (file_reader, byte list) io" where
  "file_read n = (\<lambda>r.
     let bs = take n (drop (fr_pos r) (fr_data r)) in Ret (Inr bs, r\<lparr>fr_pos := fr_pos r + length bs\<rparr>))"

definition read_exact :: "nat \<Rightarrow> (file_reader, byte list) io" where
  "read_exact n = (\<lambda>r.
     let bs = take n (drop (fr_pos r) (fr_data r));
         r = r\<lparr>fr_pos := fr_pos r + length bs\<rparr>
     in if length bs = n then Ret (Inr bs, r) else Ret (Inl unexpected_eof, r))"

text \<open>A read that fails without ending the caller.\<close>

definition io_try :: "('s, 'a) io \<Rightarrow> ('s, err + 'a) io" where
  "io_try m = (\<lambda>s. do { (r, s) \<leftarrow> m s; Ret (Inr r, s) })"

text \<open>The vector that a call fills, beside the reader.\<close>

definition on_file :: "(file_reader, 'a) io \<Rightarrow> (file_reader \<times> 'v list, 'a) io" where
  "on_file m = (\<lambda>s. do { (x, r) \<leftarrow> m (fst s); Ret (x, (r, snd s)) })"

definition vec_push :: "'v \<Rightarrow> (file_reader \<times> 'v list, unit) io" where
  "vec_push v = (\<lambda>s. Ret (Inr (), (fst s, snd s @ [v])))"

definition vec_get :: "(file_reader \<times> 'v list, 'v list) io" where
  "vec_get = (\<lambda>s. Ret (Inr (snd s), s))"

definition vec_set :: "'v list \<Rightarrow> (file_reader \<times> 'v list, unit) io" where
  "vec_set vs = (\<lambda>s. Ret (Inr (), (fst s, vs)))"

section \<open>Structures\<close>

definition part :: "nat \<Rightarrow> nat \<Rightarrow> byte list \<Rightarrow> byte list" where
  "part p n bs = take n (drop p bs)"

definition half :: "nat \<Rightarrow> byte list \<Rightarrow> u16" where "half p bs = u16_of (part p 2 bs)"
definition elf_word :: "nat \<Rightarrow> byte list \<Rightarrow> u32" where "elf_word p bs = u32_of (part p 4 bs)"
definition xword :: "nat \<Rightarrow> byte list \<Rightarrow> u64" where "xword p bs = u64_of (part p 8 bs)"
definition wide_word :: "nat \<Rightarrow> byte list \<Rightarrow> u64" where "wide_word p bs = ucast (elf_word p bs)"

definition SHT_PROGBITS :: u32 where "SHT_PROGBITS = 1"
definition SHT_SYMTAB :: u32 where "SHT_SYMTAB = 2"
definition SHT_NOTE :: u32 where "SHT_NOTE = 7"
definition SHT_DYNSYM :: u32 where "SHT_DYNSYM = 11"
definition ELF_MAGIC :: "byte list" where "ELF_MAGIC = [0x7F, 69, 76, 70]"
definition EI_CLASS :: nat where "EI_CLASS = 4"
definition ELFCLASS32 :: byte where "ELFCLASS32 = 1"
definition ELFCLASS64 :: byte where "ELFCLASS64 = 2"
definition STT_FUNC :: byte where "STT_FUNC = 2"
definition PT_LOAD :: u32 where "PT_LOAD = 1"
definition PF_X :: u32 where "PF_X = 1"

record elf_header =
  eh_type :: u16
  eh_machine :: u16
  eh_version :: u32
  eh_entry :: u64
  eh_phoff :: u64
  eh_shoff :: u64
  eh_flags :: u32
  eh_ehsize :: u16
  eh_phentsize :: u16
  eh_phnum :: u16
  eh_shentsize :: u16
  eh_shnum :: u16
  eh_shstrndx :: u16

record program_header =
  ph_type :: u32
  ph_flags :: u32
  ph_offset :: u64
  ph_vaddr :: u64

record section_header =
  sh_name :: u32
  sh_type :: u32
  sh_addr :: u64
  sh_offset :: u64
  sh_size :: u64
  sh_link :: u32
  sh_entsize :: u64

record elf_sym =
  st_name :: u32
  st_info :: byte
  st_value :: u64
  st_size :: u64

record elf_layout =
  el_class :: byte
  el_header_bytes :: nat
  el_header :: "byte list \<Rightarrow> elf_header"
  el_program_bytes :: nat
  el_program :: "byte list \<Rightarrow> program_header"
  el_section_bytes :: nat
  el_section :: "byte list \<Rightarrow> section_header"
  el_symbol_bytes :: nat
  el_symbol :: "byte list \<Rightarrow> elf_sym"

definition elf_header32 :: "byte list \<Rightarrow> elf_header" where
  "elf_header32 bs = \<lparr>eh_type = half 0 bs, eh_machine = half 2 bs, eh_version = elf_word 4 bs,
     eh_entry = wide_word 8 bs, eh_phoff = wide_word 12 bs, eh_shoff = wide_word 16 bs, eh_flags = elf_word 20 bs,
     eh_ehsize = half 24 bs, eh_phentsize = half 26 bs, eh_phnum = half 28 bs, eh_shentsize = half 30 bs,
     eh_shnum = half 32 bs, eh_shstrndx = half 34 bs\<rparr>"

definition elf_header64 :: "byte list \<Rightarrow> elf_header" where
  "elf_header64 bs = \<lparr>eh_type = half 0 bs, eh_machine = half 2 bs, eh_version = elf_word 4 bs,
     eh_entry = xword 8 bs, eh_phoff = xword 16 bs, eh_shoff = xword 24 bs, eh_flags = elf_word 32 bs,
     eh_ehsize = half 36 bs, eh_phentsize = half 38 bs, eh_phnum = half 40 bs, eh_shentsize = half 42 bs,
     eh_shnum = half 44 bs, eh_shstrndx = half 46 bs\<rparr>"

definition program_header32 :: "byte list \<Rightarrow> program_header" where
  "program_header32 bs = \<lparr>ph_type = elf_word 0 bs, ph_flags = elf_word 24 bs, ph_offset = wide_word 4 bs, ph_vaddr = wide_word 8 bs\<rparr>"

definition program_header64 :: "byte list \<Rightarrow> program_header" where
  "program_header64 bs = \<lparr>ph_type = elf_word 0 bs, ph_flags = elf_word 4 bs, ph_offset = xword 8 bs, ph_vaddr = xword 16 bs\<rparr>"

definition section_header32 :: "byte list \<Rightarrow> section_header" where
  "section_header32 bs = \<lparr>sh_name = elf_word 0 bs, sh_type = elf_word 4 bs, sh_addr = wide_word 12 bs,
     sh_offset = wide_word 16 bs, sh_size = wide_word 20 bs, sh_link = elf_word 24 bs, sh_entsize = wide_word 36 bs\<rparr>"

definition section_header64 :: "byte list \<Rightarrow> section_header" where
  "section_header64 bs = \<lparr>sh_name = elf_word 0 bs, sh_type = elf_word 4 bs, sh_addr = xword 16 bs,
     sh_offset = xword 24 bs, sh_size = xword 32 bs, sh_link = elf_word 40 bs, sh_entsize = xword 56 bs\<rparr>"

definition elf_symbol32 :: "byte list \<Rightarrow> elf_sym" where
  "elf_symbol32 bs = \<lparr>st_name = elf_word 0 bs, st_info = hd (part 12 1 bs), st_value = wide_word 4 bs, st_size = wide_word 8 bs\<rparr>"

definition elf_symbol64 :: "byte list \<Rightarrow> elf_sym" where
  "elf_symbol64 bs = \<lparr>st_name = elf_word 0 bs, st_info = hd (part 4 1 bs), st_value = xword 8 bs, st_size = xword 16 bs\<rparr>"

definition layout32 :: elf_layout where
  "layout32 = \<lparr>el_class = ELFCLASS32, el_header_bytes = 36, el_header = elf_header32, el_program_bytes = 32,
     el_program = program_header32, el_section_bytes = 40, el_section = section_header32,
     el_symbol_bytes = 16, el_symbol = elf_symbol32\<rparr>"

definition layout64 :: elf_layout where
  "layout64 = \<lparr>el_class = ELFCLASS64, el_header_bytes = 48, el_header = elf_header64, el_program_bytes = 56,
     el_program = program_header64, el_section_bytes = 64, el_section = section_header64,
     el_symbol_bytes = 24, el_symbol = elf_symbol64\<rparr>"

definition is_function :: "elf_sym \<Rightarrow> bool" where
  "is_function esym \<longleftrightarrow> st_info esym AND 0xF = STT_FUNC"

section \<open>Sections\<close>

record section_metadata =
  sec_class :: byte
  sec_type :: u32
  sec_address :: u64
  sec_offset :: u64
  sec_size :: u64
  sec_entry_size :: u64
  sec_name_offset :: u64
  sec_link :: u32

definition get_ident :: "(file_reader, byte list) io" where
  "get_ident = read_exact 16"

definition get_section_header :: "elf_layout \<Rightarrow> (file_reader, section_header) io" where
  "get_section_header lay = io_bind (read_exact (el_section_bytes lay)) (\<lambda>bs. io_return (el_section lay bs))"

definition section_at :: "elf_layout \<Rightarrow> u64 \<Rightarrow> (file_reader, section_header) io" where
  "section_at lay off = io_bind (seek_start off) (\<lambda>_. get_section_header lay)"

text \<open>Without a count in the header the first section header has it; the sections then start with the
  second header. The header comes after the identification, where the reader is.\<close>

definition section_table :: "elf_layout \<Rightarrow> (file_reader, elf_header \<times> u32 \<times> u64 \<times> section_header) io" where
  "section_table lay =
     io_bind (read_exact (el_header_bytes lay)) (\<lambda>bs.
     let header = el_header lay bs; count = ucast (eh_shnum header); off = eh_shoff header in
     io_bind (section_at lay off) (\<lambda>sec.
     if count = 0 then
       io_bind (io_checked (add64 off (ucast (eh_shentsize header)))) (\<lambda>off2.
       io_bind (section_at lay off2) (\<lambda>sec2. io_return (header, ucast (sh_size sec), off2, sec2)))
     else io_return (header, count, off, sec)))"

definition next_section ::
  "elf_layout \<Rightarrow> elf_header \<Rightarrow> nat \<Rightarrow> u64 \<times> section_header \<Rightarrow> (file_reader, u64 \<times> section_header) io" where
  "next_section lay header i at_sec =
     (if 0 < i then
        io_bind (io_checked (add64 (fst at_sec) (ucast (eh_shentsize header)))) (\<lambda>off.
        io_bind (section_at lay off) (\<lambda>sec. io_return (off, sec)))
      else io_return at_sec)"

definition get_section_offsets_of :: "elf_layout \<Rightarrow> (file_reader \<times> u64 list, unit) io" where
  "get_section_offsets_of lay =
     io_bind (on_file (section_table lay)) (\<lambda>(header, count, off, sec).
     io_bind (io_fold (\<lambda>i at_sec.
       io_bind (on_file (next_section lay header i at_sec)) (\<lambda>(off, sec).
       io_bind (vec_push (sh_offset sec)) (\<lambda>_. io_return (off, sec)))) [0..<unat count] (off, sec)) (\<lambda>_.
     io_return ()))"

definition get_section_offsets32 :: "(file_reader \<times> u64 list, unit) io" where
  "get_section_offsets32 = get_section_offsets_of layout32"

definition get_section_offsets64 :: "(file_reader \<times> u64 list, unit) io" where
  "get_section_offsets64 = get_section_offsets_of layout64"

text \<open>The class that the identification tells; the structures follow it. An identification that the
  caller has read is passed.\<close>

definition read_class :: "byte list option \<Rightarrow> (file_reader, byte) io" where
  "read_class ident =
     (case ident of
        Some sl \<Rightarrow> io_bind (io_checked (at sl EI_CLASS)) (\<lambda>c. io_bind (seek_start 16) (\<lambda>_. io_return c))
      | None \<Rightarrow> io_bind (seek_start 0) (\<lambda>_. io_bind get_ident (\<lambda>sl. io_checked (at sl EI_CLASS))))"

definition get_section_offsets :: "byte list option \<Rightarrow> (file_reader \<times> u64 list, unit) io" where
  "get_section_offsets ident =
     io_bind (on_file (read_class ident)) (\<lambda>class.
       if class = ELFCLASS32 then get_section_offsets32
       else if class = ELFCLASS64 then get_section_offsets64 else io_return ())"

definition section_metadata_of :: "elf_layout \<Rightarrow> section_header \<Rightarrow> section_metadata" where
  "section_metadata_of lay sec = \<lparr>sec_class = el_class lay, sec_type = sh_type sec, sec_address = sh_addr sec,
     sec_offset = sh_offset sec, sec_size = sh_size sec, sec_entry_size = sh_entsize sec,
     sec_name_offset = ucast (sh_name sec), sec_link = sh_link sec\<rparr>"

fun add_name_offset :: "u64 \<Rightarrow> section_metadata list \<Rightarrow> section_metadata list option" where
  "add_name_offset str_offset [] = Ret []"
| "add_name_offset str_offset (m # ms) = do {
     p \<leftarrow> add64 (sec_name_offset m) str_offset;
     ms \<leftarrow> add_name_offset str_offset ms;
     Ret (m\<lparr>sec_name_offset := p\<rparr> # ms)
   }"

definition get_section_metadata_of ::
  "elf_layout \<Rightarrow> u32 option \<Rightarrow> (file_reader \<times> section_metadata list, unit) io" where
  "get_section_metadata_of lay wanted_type =
     io_bind (on_file (section_table lay)) (\<lambda>(header, count, off, sec).
     io_bind vec_get (\<lambda>old.
     io_bind (io_fold (\<lambda>i (at_sec, str_offset).
       io_bind (on_file (next_section lay header i at_sec)) (\<lambda>(off, sec).
       let str_offset = (if (of_nat i :: u32) = ucast (eh_shstrndx header) then sh_offset sec else str_offset) in
       if (case wanted_type of Some t \<Rightarrow> sh_type sec = t | None \<Rightarrow> True)
       then io_bind (vec_push (section_metadata_of lay sec)) (\<lambda>_. io_return ((off, sec), str_offset))
       else io_return ((off, sec), str_offset))) [0..<unat count] ((off, sec), 0)) (\<lambda>(_, str_offset).
     io_bind vec_get (\<lambda>metadata.
     io_bind (io_checked (add_name_offset str_offset (drop (length old) metadata))) (\<lambda>added.
     vec_set (take (length old) metadata @ added))))))"

definition get_section_metadata32 :: "u32 option \<Rightarrow> (file_reader \<times> section_metadata list, unit) io" where
  "get_section_metadata32 = get_section_metadata_of layout32"

definition get_section_metadata64 :: "u32 option \<Rightarrow> (file_reader \<times> section_metadata list, unit) io" where
  "get_section_metadata64 = get_section_metadata_of layout64"

definition enum_section_metadata ::
  "byte list option \<Rightarrow> u32 option \<Rightarrow> (file_reader \<times> section_metadata list, unit) io" where
  "enum_section_metadata ident wanted_type =
     io_bind (on_file (read_class ident)) (\<lambda>class.
       if class = ELFCLASS32 then get_section_metadata32 wanted_type
       else if class = ELFCLASS64 then get_section_metadata64 wanted_type else io_return ())"

definition get_section_metadata :: "byte list option \<Rightarrow> u32 \<Rightarrow> (file_reader \<times> section_metadata list, unit) io" where
  "get_section_metadata ident wanted_type = enum_section_metadata ident (Some wanted_type)"

definition name_equals :: "section_metadata \<Rightarrow> byte list \<Rightarrow> (file_reader, bool) io" where
  "name_equals m name =
     io_bind (seek_start (sec_name_offset m)) (\<lambda>_.
     io_bind (read_exact (length name + 1)) (\<lambda>buf.
     io_return (if last buf \<noteq> 0 then False else take (length name) buf = name)))"

section \<open>Load headers\<close>

record load_header =
  lh_offset :: u64
  lh_vaddr :: u64

definition load_header_default :: load_header where
  "load_header_default = \<lparr>lh_offset = 0, lh_vaddr = 0\<rparr>"

fun load_header_loop :: "elf_layout \<Rightarrow> u64 \<Rightarrow> nat \<Rightarrow> u64 \<Rightarrow> (file_reader, load_header) io" where
  "load_header_loop lay entsize 0 off = io_return load_header_default"
| "load_header_loop lay entsize (Suc n) off =
     io_bind (seek_start off) (\<lambda>_.
     io_bind (read_exact (el_program_bytes lay)) (\<lambda>bs.
     let pheader = el_program lay bs in
     if ph_type pheader = PT_LOAD \<and> ph_flags pheader AND PF_X = PF_X
     then io_return \<lparr>lh_offset = ph_offset pheader, lh_vaddr = ph_vaddr pheader\<rparr>
     else io_bind (io_checked (add64 off entsize)) (load_header_loop lay entsize n)))"

definition get_load_header_of :: "elf_layout \<Rightarrow> (file_reader, load_header) io" where
  "get_load_header_of lay =
     io_bind (read_exact (el_header_bytes lay)) (\<lambda>bs.
     let header = el_header lay bs in
     load_header_loop lay (ucast (eh_phentsize header)) (unat (eh_phnum header)) (eh_phoff header))"

definition get_load_header32 :: "(file_reader, load_header) io" where
  "get_load_header32 = get_load_header_of layout32"

definition get_load_header64 :: "(file_reader, load_header) io" where
  "get_load_header64 = get_load_header_of layout64"

definition get_load_header :: "(file_reader, load_header) io" where
  "get_load_header =
     io_bind (seek_start 0) (\<lambda>_.
     io_bind get_ident (\<lambda>sl.
     if take 4 sl \<noteq> ELF_MAGIC then io_fail ''not an ELF file''
     else io_bind (io_checked (at sl EI_CLASS)) (\<lambda>class.
       if class = ELFCLASS32 then get_load_header32
       else if class = ELFCLASS64 then get_load_header64 else io_return load_header_default)))"

definition is_elf_file :: "(file_reader, bool) io" where
  "is_elf_file = io_bind (seek_start 0) (\<lambda>_. io_bind (read_exact 4) (\<lambda>buf. io_return (buf = ELF_MAGIC)))"

section \<open>Names and notes\<close>

definition get_str :: "byte list \<Rightarrow> byte list" where
  "get_str buffer = (let s = takeWhile (\<lambda>b. b \<noteq> 0) buffer in if utf8_valid s then s else [])"

definition read_section_name :: "section_metadata \<Rightarrow> u64 list \<Rightarrow> nat \<Rightarrow> (file_reader, byte list) io" where
  "read_section_name m section_offsets buf_len =
     (let str_offset = (if unat (sec_link m) < length section_offsets then section_offsets ! unat (sec_link m) else 0) in
      io_bind (io_checked (add64 (sec_name_offset m) str_offset)) (\<lambda>str_pos.
      io_bind (seek_start str_pos) (\<lambda>_.
      io_bind (file_read buf_len) (\<lambda>buf. io_return (get_str buf)))))"

definition ascii :: "string \<Rightarrow> byte list" where
  "ascii s = map (\<lambda>c. of_nat (of_char c)) s"

text \<open>The first section with a name; a name that cannot be read is passed over.\<close>

fun find_named_section ::
  "u64 list \<Rightarrow> byte list \<Rightarrow> section_metadata list \<Rightarrow> (file_reader, section_metadata option) io" where
  "find_named_section section_offsets name [] = io_return None"
| "find_named_section section_offsets name (m # ms) =
     io_bind (io_try (read_section_name m section_offsets 1024)) (\<lambda>found.
       if found = Inr name then io_return (Some m) else find_named_section section_offsets name ms)"

text \<open>The length of the name is rounded up to four; the description follows.\<close>

definition seek_to_note_data :: "section_metadata \<Rightarrow> (file_reader, nat) io" where
  "seek_to_note_data m =
     io_bind (seek_start (sec_offset m)) (\<lambda>_.
     io_bind (read_exact 4) (\<lambda>a.
     io_bind (read_exact 4) (\<lambda>b.
     let name_len = le_nat a in
     io_bind (io_checked (if name_len + 3 < 2 ^ 32 then Ret ((name_len + 3) div 4 * 4) else Panic)) (\<lambda>name_len.
     io_bind (io_checked (if 4 + name_len < 2 ^ 32 then Ret (4 + name_len) else Panic)) (\<lambda>skip.
     io_bind (seek_forward skip) (\<lambda>_. io_return (le_nat b)))))))"

definition read_build_id :: "section_metadata list \<Rightarrow> u64 list \<Rightarrow> (file_reader, byte list option) io" where
  "read_build_id sections section_offsets =
     io_bind (find_named_section section_offsets (ascii ''.note.gnu.build-id'') sections) (\<lambda>found.
       case found of
         None \<Rightarrow> io_return None
       | Some m \<Rightarrow> io_bind (seek_to_note_data m) (\<lambda>_. io_bind (read_exact 20) (\<lambda>build_id. io_return (Some build_id))))"

definition build_id_equals :: "byte list \<Rightarrow> byte list \<Rightarrow> bool" where
  "build_id_equals left right \<longleftrightarrow> left = right"

definition get_build_id :: "(file_reader, byte list option) io" where
  "get_build_id = (\<lambda>r. do {
     (x, (r, section_offsets)) \<leftarrow> get_section_offsets None (r, []);
     (case x of Inl e \<Rightarrow> Ret (Inl e, r)
      | Inr _ \<Rightarrow> do {
          (x, (r, sections)) \<leftarrow> get_section_metadata None SHT_NOTE (r, []);
          (case x of Inl e \<Rightarrow> Ret (Inl e, r) | Inr _ \<Rightarrow> read_build_id sections section_offsets r)
        })
   })"

definition read_package_metadata :: "section_metadata list \<Rightarrow> u64 list \<Rightarrow> (file_reader, byte list) io" where
  "read_package_metadata sections section_offsets =
     io_bind (find_named_section section_offsets (ascii ''.note.package'') sections) (\<lambda>found.
       case found of
         None \<Rightarrow> io_fail ''No metadata found''
       | Some m \<Rightarrow> io_bind (seek_to_note_data m) (\<lambda>len. read_exact len))"

text \<open>The buffer is returned whole, with what was in it behind the section.\<close>

definition read_debug_link :: "section_metadata list \<Rightarrow> u64 list \<Rightarrow> byte list \<Rightarrow> (file_reader, byte list option) io" where
  "read_debug_link sections section_offsets buf =
     io_bind (find_named_section section_offsets (ascii ''.gnu_debuglink'') sections) (\<lambda>found.
       case found of
         None \<Rightarrow> io_return None
       | Some m \<Rightarrow>
           io_bind (seek_start (sec_offset m)) (\<lambda>_.
           io_bind (io_checked (if unat (sec_size m) \<le> length buf then Ret (unat (sec_size m)) else Panic)) (\<lambda>n.
           io_bind (read_exact n) (\<lambda>bs. io_return (Some (bs @ drop n buf))))))"

section \<open>Symbols\<close>

record elf_symbol =
  es_start :: u64
  es_end :: u64
  es_name_buf :: "byte list"

definition elf_symbol_new :: elf_symbol where
  "elf_symbol_new = \<lparr>es_start = 0, es_end = 0, es_name_buf = []\<rparr>"

definition es_name :: "elf_symbol \<Rightarrow> byte list" where
  "es_name esym = get_str (es_name_buf esym)"

definition symbol_rva :: "u64 \<Rightarrow> load_header \<Rightarrow> u64 \<Rightarrow> u64 option" where
  "symbol_rva v lh page_mask =
     (if lh_vaddr lh AND page_mask \<noteq> lh_vaddr lh \<or> lh_offset lh AND page_mask \<noteq> lh_offset lh then Panic
      else do { d \<leftarrow> sub64 v (lh_vaddr lh); add64 d (lh_offset lh) })"

text \<open>The symbol is filled in place; one whose name cannot be read keeps its new addresses.\<close>

definition get_symbol_of ::
  "elf_layout \<Rightarrow> section_metadata \<Rightarrow> u64 \<Rightarrow> u64 \<Rightarrow> load_header \<Rightarrow> u64 \<Rightarrow> elf_symbol \<Rightarrow>
   file_reader \<Rightarrow> ((err + unit) \<times> elf_symbol \<times> file_reader) option" where
  "get_symbol_of lay m sym_index str_offset lh page_mask symbol r = do {
     d \<leftarrow> mul64 sym_index (sec_entry_size m);
     pos \<leftarrow> add64 (sec_offset m) d;
     (x, r) \<leftarrow> io_bind (seek_start pos) (\<lambda>_. read_exact (el_symbol_bytes lay)) r;
     (case x of
        Inl e \<Rightarrow> Ret (Inl e, symbol, r)
      | Inr bs \<Rightarrow>
          let esym = el_symbol lay bs in
          if \<not> is_function esym \<or> st_value esym = 0 \<or> st_size esym = 0 then Ret (Inl ''Invalid symbol'', symbol, r)
          else do {
            start \<leftarrow> symbol_rva (st_value esym) lh page_mask;
            stop \<leftarrow> add64 start (st_size esym - 1);
            str_pos \<leftarrow> add64 (ucast (st_name esym)) str_offset;
            let symbol = symbol\<lparr>es_start := start, es_end := stop\<rparr>;
            (x, r) \<leftarrow> io_bind (seek_start str_pos) (\<lambda>_. file_read 1024) r;
            (case x of
               Inl e \<Rightarrow> Ret (Inl e, symbol, r)
             | Inr buf \<Rightarrow> Ret (Inr (), symbol\<lparr>es_name_buf := buf\<rparr>, r))
          })
   }"

definition get_symbol32 ::
  "section_metadata \<Rightarrow> u64 \<Rightarrow> u64 \<Rightarrow> load_header \<Rightarrow> u64 \<Rightarrow> elf_symbol \<Rightarrow>
   file_reader \<Rightarrow> ((err + unit) \<times> elf_symbol \<times> file_reader) option" where
  "get_symbol32 = get_symbol_of layout32"

definition get_symbol64 ::
  "section_metadata \<Rightarrow> u64 \<Rightarrow> u64 \<Rightarrow> load_header \<Rightarrow> u64 \<Rightarrow> elf_symbol \<Rightarrow>
   file_reader \<Rightarrow> ((err + unit) \<times> elf_symbol \<times> file_reader) option" where
  "get_symbol64 = get_symbol_of layout64"

definition get_symbol ::
  "section_metadata \<Rightarrow> u64 \<Rightarrow> u64 \<Rightarrow> load_header \<Rightarrow> u64 \<Rightarrow> elf_symbol \<Rightarrow>
   file_reader \<Rightarrow> ((err + unit) \<times> elf_symbol \<times> file_reader) option" where
  "get_symbol m sym_index str_offset lh page_mask symbol r =
     (if sec_class m = ELFCLASS32 then get_symbol32 m sym_index str_offset lh page_mask symbol r
      else if sec_class m = ELFCLASS64 then get_symbol64 m sym_index str_offset lh page_mask symbol r
      else Ret (Inr (), symbol, r))"

end
