(* ===== verification/Dwarf.thy ===== *)
theory Dwarf
  imports Elf Session
begin

text \<open>
  \<open>ruwind/dwarf.rs\<close>: the index of frame description entries of an ELF file and the call frame
  instructions of an entry, decoded into rows of rules for the canonical frame address (CFA) and the saved
  registers. \<open>i64\<close> values are integers and \<open>i16\<close> values are integers within their range; arithmetic that
  leaves the range of \<open>i64\<close> panics. The buffers that are kept between calls to save allocations are
  overwritten by each call and are not part of the model.
\<close>

section \<open>Signed integers\<close>

definition i64_checked :: "int \<Rightarrow> int option" where
  "i64_checked x = (if - (2 ^ 63) \<le> x \<and> x < 2 ^ 63 then Ret x else Panic)"

text \<open>\<open>as i16\<close> and \<open>as usize\<close> of an \<open>i64\<close>, \<open>as i64\<close> of a \<open>u64\<close>.\<close>

definition as_i16 :: "int \<Rightarrow> int" where "as_i16 x = sint (of_int x :: 16 word)"
definition as_usize :: "int \<Rightarrow> nat" where "as_usize x = nat (x mod 2 ^ 64)"
definition as_i64 :: "u64 \<Rightarrow> int" where "as_i64 w = sint w"

section \<open>Reading from a slice\<close>

definition read_byte :: "byte list \<Rightarrow> nat \<Rightarrow> (byte \<times> nat) option" where
  "read_byte sl cursor = do { b \<leftarrow> at sl cursor; Ret (b, cursor + 1) }"

definition take_u16 :: "byte list \<Rightarrow> nat \<Rightarrow> (u16 \<times> nat) option" where
  "take_u16 sl cursor = do { bs \<leftarrow> subslice sl cursor (cursor + 2); Ret (u16_of bs, cursor + 2) }"

definition take_u32 :: "byte list \<Rightarrow> nat \<Rightarrow> (u32 \<times> nat) option" where
  "take_u32 sl cursor = do { bs \<leftarrow> subslice sl cursor (cursor + 4); Ret (u32_of bs, cursor + 4) }"

definition take_u64 :: "byte list \<Rightarrow> nat \<Rightarrow> (u64 \<times> nat) option" where
  "take_u64 sl cursor = do { bs \<leftarrow> subslice sl cursor (cursor + 8); Ret (u64_of bs, cursor + 8) }"

definition read_string :: "byte list \<Rightarrow> nat \<Rightarrow> (nat \<times> nat) option" where
  "read_string sl cursor =
     (let n = length (takeWhile (\<lambda>b. b \<noteq> 0) (drop cursor sl))
      in if cursor + n < length sl then Ret (n, cursor + n + 1) else Panic)"

text \<open>LEB128. A shift by 64 or more panics, a shift by less drops what leaves the word.\<close>

fun uleb_loop :: "byte list \<Rightarrow> nat \<Rightarrow> nat \<Rightarrow> u64 \<Rightarrow> (u64 \<times> nat) option" where
  "uleb_loop [] pos shift value = Panic"
| "uleb_loop (b # bs) pos shift value =
     (if 64 \<le> shift then Panic
      else let value = value OR push_bit shift (ucast (b AND 127))
           in if b AND 128 = 0 then Ret (value, pos + 1) else uleb_loop bs (pos + 1) (shift + 7) value)"

definition read_uleb :: "byte list \<Rightarrow> nat \<Rightarrow> (int \<times> nat) option" where
  "read_uleb sl cursor = do {
     (value, pos) \<leftarrow> uleb_loop (drop cursor sl) cursor 0 0;
     Ret (as_i64 value, pos)
   }"

text \<open>The sign is extended from the last shift read; the smallest \<open>i64\<close> cannot be negated.\<close>

fun sleb_loop :: "byte list \<Rightarrow> nat \<Rightarrow> nat \<Rightarrow> u64 \<Rightarrow> (u64 \<times> nat) option" where
  "sleb_loop [] pos shift value = Panic"
| "sleb_loop (b # bs) pos shift value =
     (if 64 \<le> shift then Panic
      else let value = value OR push_bit shift (ucast (b AND 127)); shift = shift + 7
           in if b AND 128 = 0
              then if shift < 64 \<and> b AND 64 \<noteq> 0
                   then if shift = 63 then Panic else Ret (value OR (- push_bit shift 1), pos + 1)
                   else Ret (value, pos + 1)
              else sleb_loop bs (pos + 1) shift value)"

definition read_sleb :: "byte list \<Rightarrow> nat \<Rightarrow> (int \<times> nat) option" where
  "read_sleb sl cursor = do {
     (value, pos) \<leftarrow> sleb_loop (drop cursor sl) cursor 0 0;
     Ret (as_i64 value, pos)
   }"

section \<open>Encoded pointers\<close>

definition DW_EH_PE_OMIT :: byte where "DW_EH_PE_OMIT = 0xFF"
definition DW_EH_PE_ULEB128 :: byte where "DW_EH_PE_ULEB128 = 0x01"
definition DW_EH_PE_UDATA2 :: byte where "DW_EH_PE_UDATA2 = 0x02"
definition DW_EH_PE_UDATA4 :: byte where "DW_EH_PE_UDATA4 = 0x03"
definition DW_EH_PE_UDATA8 :: byte where "DW_EH_PE_UDATA8 = 0x04"
definition DW_EH_PE_SLEB128 :: byte where "DW_EH_PE_SLEB128 = 0x09"
definition DW_EH_PE_SDATA2 :: byte where "DW_EH_PE_SDATA2 = 0x0A"
definition DW_EH_PE_SDATA4 :: byte where "DW_EH_PE_SDATA4 = 0x0B"
definition DW_EH_PE_SDATA8 :: byte where "DW_EH_PE_SDATA8 = 0x0C"
definition DW_EH_PE_FORMAT_MASK :: byte where "DW_EH_PE_FORMAT_MASK = 0x0F"
definition DW_EH_PE_ABSPTR :: byte where "DW_EH_PE_ABSPTR = 0x00"
definition DW_EH_PE_PCREL :: byte where "DW_EH_PE_PCREL = 0x10"
definition DW_EH_PE_DATAREL :: byte where "DW_EH_PE_DATAREL = 0x30"
definition DW_EH_PE_APPL_MASK :: byte where "DW_EH_PE_APPL_MASK = 0xF0"

lemmas dw_eh_pe_defs = DW_EH_PE_OMIT_def DW_EH_PE_ULEB128_def DW_EH_PE_UDATA2_def DW_EH_PE_UDATA4_def
  DW_EH_PE_UDATA8_def DW_EH_PE_SLEB128_def DW_EH_PE_SDATA2_def DW_EH_PE_SDATA4_def DW_EH_PE_SDATA8_def
  DW_EH_PE_FORMAT_MASK_def DW_EH_PE_ABSPTR_def DW_EH_PE_PCREL_def DW_EH_PE_DATAREL_def DW_EH_PE_APPL_MASK_def

definition read_encoded :: "byte \<Rightarrow> byte list \<Rightarrow> nat \<Rightarrow> (int \<times> nat) option" where
  "read_encoded fmt sl cursor =
     (if fmt = DW_EH_PE_ULEB128 then read_uleb sl cursor
      else if fmt = DW_EH_PE_UDATA2 then map_option (apfst uint) (take_u16 sl cursor)
      else if fmt = DW_EH_PE_UDATA4 then map_option (apfst uint) (take_u32 sl cursor)
      else if fmt = DW_EH_PE_UDATA8 then map_option (apfst as_i64) (take_u64 sl cursor)
      else if fmt = DW_EH_PE_SLEB128 then read_sleb sl cursor
      else if fmt = DW_EH_PE_SDATA2 then map_option (apfst sint) (take_u16 sl cursor)
      else if fmt = DW_EH_PE_SDATA4 then map_option (apfst sint) (take_u32 sl cursor)
      else if fmt = DW_EH_PE_SDATA8 then map_option (apfst sint) (take_u64 sl cursor)
      else Ret (0, cursor))"

definition read_value :: "byte \<Rightarrow> int \<Rightarrow> byte list \<Rightarrow> nat \<Rightarrow> (int \<times> nat) option" where
  "read_value enc data sl cursor = do {
     (value, cursor') \<leftarrow> read_encoded (enc AND DW_EH_PE_FORMAT_MASK) sl cursor;
     value \<leftarrow>
       (if enc AND DW_EH_PE_APPL_MASK = DW_EH_PE_PCREL then do {
          v \<leftarrow> i64_checked (value + data); i64_checked (v + int cursor) }
        else if enc AND DW_EH_PE_APPL_MASK = DW_EH_PE_DATAREL then i64_checked (value + data)
        else Ret value);
     Ret (value, cursor')
   }"

section \<open>Rows\<close>

definition VALUE_TYPE_OFFSET :: byte where "VALUE_TYPE_OFFSET = 0"
definition VALUE_TYPE_REG :: byte where "VALUE_TYPE_REG = 1"
definition VALUE_TYPE_UNDEFINED :: byte where "VALUE_TYPE_UNDEFINED = 2"
definition VALUE_TYPE_EXPRESSION :: byte where "VALUE_TYPE_EXPRESSION = 3"
definition VALUE_TYPE_RESTORE :: byte where "VALUE_TYPE_RESTORE = 4"

lemmas value_type_defs = VALUE_TYPE_OFFSET_def VALUE_TYPE_REG_def VALUE_TYPE_UNDEFINED_def
  VALUE_TYPE_EXPRESSION_def VALUE_TYPE_RESTORE_def

record reg_state =
  rg_reg :: byte
  rg_type :: byte
  rg_val :: int

record cfa_state =
  cs_reg :: byte
  cs_off :: int

record frame_state =
  fs_rva :: u64
  fs_cfa_reg :: byte
  fs_cfa_off :: int
  fs_reg_states :: "reg_state list"

definition frame_state_new :: "u64 \<Rightarrow> byte \<Rightarrow> int \<Rightarrow> frame_state" where
  "frame_state_new rva r off = \<lparr>fs_rva = rva, fs_cfa_reg = r, fs_cfa_off = off, fs_reg_states = []\<rparr>"

definition set_cfa_reg :: "int \<Rightarrow> frame_state \<Rightarrow> err + frame_state" where
  "set_cfa_reg r fs = (if 255 < r then Inl ''Reg out of range'' else Inr (fs\<lparr>fs_cfa_reg := of_int r\<rparr>))"

definition set_cfa_offset :: "int \<Rightarrow> frame_state \<Rightarrow> err + frame_state" where
  "set_cfa_offset off fs =
     (if 32767 < off \<or> off < - 32768 then Inl ''Offset out of range'' else Inr (fs\<lparr>fs_cfa_off := off\<rparr>))"

definition add_reg_value :: "int \<Rightarrow> int \<Rightarrow> byte \<Rightarrow> frame_state \<Rightarrow> err + frame_state" where
  "add_reg_value r v val_type fs =
     (if 255 < r \<or> 32767 < v \<or> v < - 32768 then Inl ''Reg/Value out of range''
      else Inr (fs\<lparr>fs_reg_states := fs_reg_states fs @ [\<lparr>rg_reg = of_int r, rg_type = val_type, rg_val = v\<rparr>]\<rparr>))"

record frame_options =
  op_enc :: byte
  op_code_align :: int
  op_data_align :: int
  op_has_aug_data :: bool
  op_cfa_stack :: "cfa_state list"

definition frame_options_new :: frame_options where
  "frame_options_new = \<lparr>op_enc = DW_EH_PE_UDATA8 OR DW_EH_PE_ABSPTR, op_code_align = 0, op_data_align = 0,
     op_has_aug_data = False, op_cfa_stack = []\<rparr>"

definition STATE_UNPARSED :: byte where "STATE_UNPARSED = 0"
definition STATE_INVALID :: byte where "STATE_INVALID = 1"
definition STATE_VALID :: byte where "STATE_VALID = 2"

lemmas state_defs = STATE_UNPARSED_def STATE_INVALID_def STATE_VALID_def

record frame_offset =
  fo_rva :: u64
  fo_fde :: u64
  fo_pc_size :: u64
  fo_state :: byte
  fo_ret_reg :: byte
  fo_frame_states :: "frame_state list"

definition frame_offset_new :: "u64 \<Rightarrow> u64 \<Rightarrow> frame_offset" where
  "frame_offset_new rva fde = \<lparr>fo_rva = rva, fo_fde = fde, fo_pc_size = 0, fo_state = STATE_UNPARSED,
     fo_ret_reg = 0, fo_frame_states = []\<rparr>"

definition is_unparsed :: "frame_offset \<Rightarrow> bool" where "is_unparsed off \<longleftrightarrow> fo_state off = STATE_UNPARSED"
definition is_valid :: "frame_offset \<Rightarrow> bool" where "is_valid off \<longleftrightarrow> fo_state off = STATE_VALID"
definition mark_invalid :: "frame_offset \<Rightarrow> frame_offset" where "mark_invalid off = off\<lparr>fo_state := STATE_INVALID\<rparr>"
definition mark_valid :: "frame_offset \<Rightarrow> frame_offset" where "mark_valid off = off\<lparr>fo_state := STATE_VALID\<rparr>"

section \<open>From rows to the frame at an address\<close>

record unwind_cfa =
  uc_reg :: byte
  uc_off :: int
  uc_off_mask :: u64

definition unwind_cfa_new :: unwind_cfa where
  "unwind_cfa_new = \<lparr>uc_reg = 0, uc_off = 0, uc_off_mask = 0\<rparr>"

text \<open>\<open>1 << n\<close>.\<close>

definition bit_checked :: "nat \<Rightarrow> u64 option" where
  "bit_checked n = (if n < 64 then Ret (push_bit n 1) else Panic)"

definition apply_reg_state ::
  "byte \<Rightarrow> reg_state \<Rightarrow> unwind_cfa \<times> int list \<Rightarrow> (unwind_cfa \<times> int list) option" where
  "apply_reg_state max_reg rs c = (
     let (cfa, offsets) = c in
     if max_reg \<le> rg_reg rs then Ret (cfa, offsets)
     else if rg_type rs = VALUE_TYPE_UNDEFINED then do {
       b \<leftarrow> bit_checked (unat (rg_reg rs));
       Ret (cfa\<lparr>uc_off_mask := uc_off_mask cfa AND NOT b\<rparr>, offsets)
     }
     else if rg_type rs \<noteq> VALUE_TYPE_OFFSET then Ret (cfa, offsets)
     else do {
       b \<leftarrow> bit_checked (unat (rg_reg rs));
       Ret (cfa\<lparr>uc_off_mask := uc_off_mask cfa OR b\<rparr>, offsets[unat (rg_reg rs) := rg_val rs])
     })"

fun apply_reg_states ::
  "byte \<Rightarrow> reg_state list \<Rightarrow> unwind_cfa \<times> int list \<Rightarrow> (unwind_cfa \<times> int list) option" where
  "apply_reg_states max_reg [] c = Ret c"
| "apply_reg_states max_reg (rs # rss) c = do {
     c \<leftarrow> apply_reg_state max_reg rs c;
     apply_reg_states max_reg rss c
   }"

fun apply_frame_states ::
  "byte \<Rightarrow> u64 \<Rightarrow> frame_state list \<Rightarrow> unwind_cfa \<times> int list \<Rightarrow> (unwind_cfa \<times> int list) option" where
  "apply_frame_states max_reg rva [] c = Ret c"
| "apply_frame_states max_reg rva (fs # fss) c =
     (if rva < fs_rva fs then Ret c
      else do {
        c \<leftarrow> apply_reg_states max_reg (fs_reg_states fs)
          ((fst c)\<lparr>uc_reg := fs_cfa_reg fs, uc_off := fs_cfa_off fs\<rparr>, snd c);
        apply_frame_states max_reg rva fss c
      })"

definition unwind_to_cfa :: "frame_offset \<Rightarrow> int list \<Rightarrow> u64 \<Rightarrow> (unwind_cfa \<times> int list) option" where
  "unwind_to_cfa off reg_offsets rva =
     apply_frame_states (of_nat (length reg_offsets)) rva (fo_frame_states off) (unwind_cfa_new, reg_offsets)"

end
