(* ===== verification/Cfi.thy ===== *)
theory Cfi
  imports Dwarf
begin

text \<open>
  The call frame instructions of \<open>ruwind/dwarf.rs\<close>: common and frame description entries (CIE, FDE) read
  from a file, their instructions run into rows, and the table of all entries of a file.
\<close>

section \<open>Instructions\<close>

definition DW_CFA_EXTENDED :: byte where "DW_CFA_EXTENDED = 0x00"
definition DW_CFA_ADVANCE_LOC :: byte where "DW_CFA_ADVANCE_LOC = 0x40"
definition DW_CFA_OFFSET :: byte where "DW_CFA_OFFSET = 0x80"
definition DW_CFA_RESTORE :: byte where "DW_CFA_RESTORE = 0xC0"
definition DW_CFA_NOP :: byte where "DW_CFA_NOP = 0x00"
definition DW_CFA_SET_LOC :: byte where "DW_CFA_SET_LOC = 0x01"
definition DW_CFA_ADVANCE_LOC1 :: byte where "DW_CFA_ADVANCE_LOC1 = 0x02"
definition DW_CFA_ADVANCE_LOC2 :: byte where "DW_CFA_ADVANCE_LOC2 = 0x03"
definition DW_CFA_ADVANCE_LOC4 :: byte where "DW_CFA_ADVANCE_LOC4 = 0x04"
definition DW_CFA_OFFSET_EXTENDED :: byte where "DW_CFA_OFFSET_EXTENDED = 0x05"
definition DW_CFA_RESTORE_EXTENDED :: byte where "DW_CFA_RESTORE_EXTENDED = 0x06"
definition DW_CFA_UNDEFINED :: byte where "DW_CFA_UNDEFINED = 0x07"
definition DW_CFA_SAME_VALUE :: byte where "DW_CFA_SAME_VALUE = 0x08"
definition DW_CFA_REGISTER :: byte where "DW_CFA_REGISTER = 0x09"
definition DW_CFA_REMEMBER_STATE :: byte where "DW_CFA_REMEMBER_STATE = 0x0a"
definition DW_CFA_RESTORE_STATE :: byte where "DW_CFA_RESTORE_STATE = 0x0b"
definition DW_CFA_DEF_CFA :: byte where "DW_CFA_DEF_CFA = 0x0c"
definition DW_CFA_DEF_CFA_REGISTER :: byte where "DW_CFA_DEF_CFA_REGISTER = 0x0d"
definition DW_CFA_DEF_CFA_OFFSET :: byte where "DW_CFA_DEF_CFA_OFFSET = 0x0e"
definition DW_CFA_DEF_CFA_EXPRESSION :: byte where "DW_CFA_DEF_CFA_EXPRESSION = 0x0f"
definition DW_CFA_EXPRESSION :: byte where "DW_CFA_EXPRESSION = 0x10"
definition DW_CFA_OFFSET_EXTENDED_SF :: byte where "DW_CFA_OFFSET_EXTENDED_SF = 0x11"
definition DW_CFA_DEF_CFA_SF :: byte where "DW_CFA_DEF_CFA_SF = 0x12"
definition DW_CFA_DEF_CFA_OFFSET_SF :: byte where "DW_CFA_DEF_CFA_OFFSET_SF = 0x13"
definition DW_CFA_VAL_OFFSET :: byte where "DW_CFA_VAL_OFFSET = 0x14"
definition DW_CFA_VAL_OFFSET_SF :: byte where "DW_CFA_VAL_OFFSET_SF = 0x15"
definition DW_CFA_VAL_EXPRESSION :: byte where "DW_CFA_VAL_EXPRESSION = 0x16"
definition DW_CFA_GNU_ARGS_SIZE :: byte where "DW_CFA_GNU_ARGS_SIZE = 0x2e"

lemmas dw_primary_defs = DW_CFA_EXTENDED_def DW_CFA_ADVANCE_LOC_def DW_CFA_OFFSET_def DW_CFA_RESTORE_def

lemmas dw_extended_defs = DW_CFA_NOP_def DW_CFA_SET_LOC_def DW_CFA_ADVANCE_LOC1_def DW_CFA_ADVANCE_LOC2_def
  DW_CFA_ADVANCE_LOC4_def DW_CFA_OFFSET_EXTENDED_def DW_CFA_RESTORE_EXTENDED_def DW_CFA_UNDEFINED_def
  DW_CFA_SAME_VALUE_def DW_CFA_REGISTER_def DW_CFA_REMEMBER_STATE_def DW_CFA_RESTORE_STATE_def
  DW_CFA_DEF_CFA_def DW_CFA_DEF_CFA_REGISTER_def DW_CFA_DEF_CFA_OFFSET_def DW_CFA_DEF_CFA_EXPRESSION_def
  DW_CFA_EXPRESSION_def DW_CFA_OFFSET_EXTENDED_SF_def DW_CFA_DEF_CFA_SF_def DW_CFA_DEF_CFA_OFFSET_SF_def
  DW_CFA_VAL_OFFSET_def DW_CFA_VAL_OFFSET_SF_def DW_CFA_VAL_EXPRESSION_def DW_CFA_GNU_ARGS_SIZE_def

text \<open>The state that the instructions change: the cursor, the location, the row in the making and the
  options with the stack of remembered states.\<close>

record rule_state =
  rs_cursor :: nat
  rs_pc :: int
  rs_frame :: frame_state
  rs_options :: frame_options

definition rule_read :: "(nat \<Rightarrow> ('a \<times> nat) option) \<Rightarrow> (rule_state, 'a) io" where
  "rule_read f = (\<lambda>s. do { (v, c) \<leftarrow> f (rs_cursor s); Ret (Inr v, s\<lparr>rs_cursor := c\<rparr>) })"

definition rule_skip :: "int \<Rightarrow> (rule_state, unit) io" where
  "rule_skip n = (\<lambda>s. do { c \<leftarrow> usize_add (rs_cursor s) (as_usize n); Ret (Inr (), s\<lparr>rs_cursor := c\<rparr>) })"

definition rule_frame :: "(frame_state \<Rightarrow> err + frame_state) \<Rightarrow> (rule_state, bool) io" where
  "rule_frame f = (\<lambda>s. case f (rs_frame s) of
     Inl e \<Rightarrow> Ret (Inl e, s) | Inr fs \<Rightarrow> Ret (Inr False, s\<lparr>rs_frame := fs\<rparr>))"

text \<open>An offset in units of the data alignment.\<close>

definition rule_scaled :: "int \<Rightarrow> (rule_state, int) io" where
  "rule_scaled v = (\<lambda>s. do { x \<leftarrow> i64_checked (v * op_data_align (rs_options s)); Ret (Inr x, s) })"

definition rule_advance :: "int \<Rightarrow> (rule_state, bool) io" where
  "rule_advance delta = (\<lambda>s. do {
     d \<leftarrow> i64_checked (delta * op_code_align (rs_options s));
     new_pc \<leftarrow> i64_checked (rs_pc s + d);
     Ret (Inr True, if rs_pc s < new_pc then s\<lparr>rs_pc := new_pc\<rparr> else s)
   })"

definition rule_set_loc :: "byte list \<Rightarrow> (rule_state, bool) io" where
  "rule_set_loc sl = (\<lambda>s. do {
     (address, c) \<leftarrow> read_value (op_enc (rs_options s)) (rs_pc s) sl (rs_cursor s);
     let s = s\<lparr>rs_cursor := c\<rparr>;
     Ret (Inr True, if rs_pc s < address then s\<lparr>rs_pc := address\<rparr> else s)
   })"

definition rule_remember :: "(rule_state, bool) io" where
  "rule_remember = (\<lambda>s.
     let fs = rs_frame s; os = rs_options s
     in Ret (Inr False, s\<lparr>rs_options := os\<lparr>op_cfa_stack :=
          op_cfa_stack os @ [\<lparr>cs_reg = fs_cfa_reg fs, cs_off = fs_cfa_off fs\<rparr>]\<rparr>\<rparr>))"

definition rule_restore_state :: "(rule_state, bool) io" where
  "rule_restore_state = (\<lambda>s.
     let fs = rs_frame s; os = rs_options s
     in if op_cfa_stack os = [] then Ret (Inl ''Unbalanced state restore'', s)
        else let c = last (op_cfa_stack os)
             in Ret (Inr False, s\<lparr>rs_frame := fs\<lparr>fs_cfa_reg := cs_reg c, fs_cfa_off := cs_off c\<rparr>,
                  rs_options := os\<lparr>op_cfa_stack := butlast (op_cfa_stack os)\<rparr>\<rparr>))"

definition read_extended :: "byte list \<Rightarrow> byte \<Rightarrow> (rule_state, bool) io" where
  "read_extended sl e =
     (let uleb = rule_read (read_uleb sl); sleb = rule_read (read_sleb sl) in
      if e = DW_CFA_NOP then io_return False
      else if e = DW_CFA_SET_LOC then rule_set_loc sl
      else if e = DW_CFA_ADVANCE_LOC1 then io_bind (rule_read (read_byte sl)) (\<lambda>d. rule_advance (uint d))
      else if e = DW_CFA_ADVANCE_LOC2 then io_bind (rule_read (take_u16 sl)) (\<lambda>d. rule_advance (uint d))
      else if e = DW_CFA_ADVANCE_LOC4 then io_bind (rule_read (take_u32 sl)) (\<lambda>d. rule_advance (uint d))
      else if e = DW_CFA_OFFSET_EXTENDED \<or> e = DW_CFA_VAL_OFFSET then
        io_bind uleb (\<lambda>r. io_bind uleb (\<lambda>v. io_bind (rule_scaled v) (\<lambda>v.
        rule_frame (add_reg_value r v VALUE_TYPE_OFFSET))))
      else if e = DW_CFA_OFFSET_EXTENDED_SF \<or> e = DW_CFA_VAL_OFFSET_SF then
        io_bind uleb (\<lambda>r. io_bind sleb (\<lambda>v. io_bind (rule_scaled v) (\<lambda>v.
        rule_frame (add_reg_value r v VALUE_TYPE_OFFSET))))
      else if e = DW_CFA_RESTORE_EXTENDED then
        io_bind uleb (\<lambda>r. rule_frame (add_reg_value r 0 VALUE_TYPE_RESTORE))
      else if e = DW_CFA_UNDEFINED then
        io_bind uleb (\<lambda>r. rule_frame (add_reg_value r 0 VALUE_TYPE_UNDEFINED))
      else if e = DW_CFA_SAME_VALUE then io_bind uleb (\<lambda>_. io_return False)
      else if e = DW_CFA_REGISTER then
        io_bind uleb (\<lambda>src_reg. io_bind uleb (\<lambda>dst_reg.
        rule_frame (add_reg_value src_reg dst_reg VALUE_TYPE_REG)))
      else if e = DW_CFA_REMEMBER_STATE then rule_remember
      else if e = DW_CFA_RESTORE_STATE then rule_restore_state
      else if e = DW_CFA_DEF_CFA then
        io_bind uleb (\<lambda>r. io_bind uleb (\<lambda>off.
        io_bind (rule_frame (set_cfa_reg r)) (\<lambda>_. rule_frame (set_cfa_offset off))))
      else if e = DW_CFA_DEF_CFA_REGISTER then io_bind uleb (\<lambda>r. rule_frame (set_cfa_reg r))
      else if e = DW_CFA_DEF_CFA_OFFSET then io_bind uleb (\<lambda>off. rule_frame (set_cfa_offset off))
      else if e = DW_CFA_DEF_CFA_EXPRESSION then
        io_bind uleb (\<lambda>n. io_bind (rule_skip n) (\<lambda>_. io_fail ''CFA expression not supported''))
      else if e = DW_CFA_EXPRESSION \<or> e = DW_CFA_VAL_EXPRESSION then
        io_bind uleb (\<lambda>r. io_bind uleb (\<lambda>n. io_bind (rule_skip n) (\<lambda>_.
        rule_frame (add_reg_value r 0 VALUE_TYPE_EXPRESSION))))
      else if e = DW_CFA_DEF_CFA_SF then
        io_bind uleb (\<lambda>r. io_bind sleb (\<lambda>v. io_bind (rule_scaled v) (\<lambda>off.
        io_bind (rule_frame (set_cfa_reg r)) (\<lambda>_. rule_frame (set_cfa_offset off)))))
      else if e = DW_CFA_DEF_CFA_OFFSET_SF then
        io_bind sleb (\<lambda>v. io_bind (rule_scaled v) (\<lambda>off. rule_frame (set_cfa_offset off)))
      else if e = DW_CFA_GNU_ARGS_SIZE then io_bind uleb (\<lambda>_. io_return False)
      else io_fail ''Unknown DWARF extended opcode'')"

text \<open>The result tells whether a row ends. The two high bits choose the kind of instruction.\<close>

definition read_rule :: "byte list \<Rightarrow> (rule_state, bool) io" where
  "read_rule sl =
     io_bind (rule_read (read_byte sl)) (\<lambda>ins.
     let p = ins AND 0xC0; e = ins AND 0x3F in
     if p = DW_CFA_EXTENDED then read_extended sl e
     else if p = DW_CFA_ADVANCE_LOC then rule_advance (uint e)
     else if p = DW_CFA_OFFSET then
       io_bind (rule_read (read_uleb sl)) (\<lambda>v. io_bind (rule_scaled v) (\<lambda>v.
       rule_frame (add_reg_value (uint e) v VALUE_TYPE_OFFSET)))
     else if p = DW_CFA_RESTORE then rule_frame (add_reg_value (uint e) 0 VALUE_TYPE_RESTORE)
     else io_fail ''Unknown DWARF primary opcode'')"

section \<open>Every instruction moves the cursor on\<close>

definition moves_on :: "(rule_state, 'a) io \<Rightarrow> bool" where
  "moves_on m \<longleftrightarrow> (\<forall>s x s'. m s = Some (Inr x, s') \<longrightarrow> rs_cursor s \<le> rs_cursor s')"

lemma moves_on_bind [intro]:
  "moves_on m \<Longrightarrow> (\<And>x. moves_on (f x)) \<Longrightarrow> moves_on (io_bind m f)"
  unfolding moves_on_def io_bind_Some by (meson order_trans)

lemma uleb_loop_pos: "uleb_loop bs pos shift v = Some (w, pos') \<Longrightarrow> pos < pos'"
  by (induction bs pos shift v rule: uleb_loop.induct) (fastforce simp: Let_def split: if_splits)+

lemma sleb_loop_pos: "sleb_loop bs pos shift v = Some (w, pos') \<Longrightarrow> pos < pos'"
  by (induction bs pos shift v rule: sleb_loop.induct) (fastforce simp: Let_def split: if_splits)+

definition reads_on :: "(nat \<Rightarrow> ('a \<times> nat) option) \<Rightarrow> bool" where
  "reads_on f \<longleftrightarrow> (\<forall>c v c'. f c = Some (v, c') \<longrightarrow> c \<le> c')"

lemma reads_on_leb: "reads_on (read_uleb sl)" "reads_on (read_sleb sl)"
  by (auto simp: reads_on_def read_uleb_def read_sleb_def dest!: uleb_loop_pos sleb_loop_pos split: bind_splits)

lemma reads_on_fixed: "reads_on (read_byte sl)" "reads_on (take_u16 sl)" "reads_on (take_u32 sl)" "reads_on (take_u64 sl)"
  by (auto simp: reads_on_def read_byte_def take_u16_def take_u32_def take_u64_def split: bind_splits)

lemma reads_on_map: "reads_on f \<Longrightarrow> map_option (apfst g) (f c) = Some (v, c') \<Longrightarrow> c \<le> c'"
  by (fastforce simp: reads_on_def)

lemma reads_on_format: "reads_on (read_encoded fmt sl)"
proof -
  have "c \<le> c'" if a: "read_encoded fmt sl c = Some (v, c')" for c v c'
    using a reads_on_leb [of sl] unfolding read_encoded_def reads_on_def
    by (auto simp: reads_on_map [OF reads_on_fixed(2)] reads_on_map [OF reads_on_fixed(3)]
        reads_on_map [OF reads_on_fixed(4)] simp del: map_option_eq_Some split: if_split_asm)
  then show ?thesis by (simp add: reads_on_def)
qed

lemma reads_on_value: "reads_on (read_value enc data sl)"
proof -
  have "c \<le> c'" if a: "read_value enc data sl c = Some (v, c')" for c v c'
  proof -
    obtain w where "read_encoded (enc AND DW_EH_PE_FORMAT_MASK) sl c = Some (w, c')"
      using a unfolding read_value_def by (fastforce simp: Option.bind_eq_Some_conv)
    then show ?thesis using reads_on_format unfolding reads_on_def by blast
  qed
  then show ?thesis by (simp add: reads_on_def)
qed

lemma moves_on_simps [simp]:
  "moves_on (io_return v)" "moves_on (io_fail e)" "moves_on (rule_frame g)" "moves_on (rule_scaled n)"
  "moves_on (rule_advance n)" "moves_on (rule_skip n)" "moves_on rule_remember" "moves_on rule_restore_state"
  by (auto simp: moves_on_def io_return_def io_fail_def rule_frame_def rule_scaled_def rule_advance_def
      rule_skip_def usize_add_def rule_remember_def rule_restore_state_def Let_def
      split: sum.splits bind_splits if_splits)

lemma moves_on_read: "reads_on f \<Longrightarrow> moves_on (rule_read f)"
  by (auto simp: moves_on_def reads_on_def rule_read_def split: bind_splits)

lemma moves_on_set_loc: "moves_on (rule_set_loc sl)"
  using reads_on_value
  by (auto simp: moves_on_def reads_on_def rule_set_loc_def Let_def split: bind_splits if_splits)

lemma moves_on_extended: "moves_on (read_extended sl e)"
  unfolding read_extended_def Let_def
  by (simp add: moves_on_bind moves_on_read reads_on_leb reads_on_fixed moves_on_set_loc)

lemma read_rule_progress:
  assumes "read_rule sl s = Some (Inr b, s')"
  shows "rs_cursor s < rs_cursor s'"
proof -
  obtain ins s1 where s1: "rule_read (read_byte sl) s = Some (Inr ins, s1)"
    and rest: "(let p = ins AND 0xC0; e = ins AND 0x3F in
     if p = DW_CFA_EXTENDED then read_extended sl e
     else if p = DW_CFA_ADVANCE_LOC then rule_advance (uint e)
     else if p = DW_CFA_OFFSET then
       io_bind (rule_read (read_uleb sl)) (\<lambda>v. io_bind (rule_scaled v) (\<lambda>v.
       rule_frame (add_reg_value (uint e) v VALUE_TYPE_OFFSET)))
     else if p = DW_CFA_RESTORE then rule_frame (add_reg_value (uint e) 0 VALUE_TYPE_RESTORE)
     else io_fail ''Unknown DWARF primary opcode'') s1 = Some (Inr b, s')" (is "?m s1 = _")
    using assms unfolding read_rule_def io_bind_Some by blast
  have "moves_on ?m"
    by (simp add: Let_def moves_on_bind moves_on_read reads_on_leb moves_on_extended)
  then have "rs_cursor s1 \<le> rs_cursor s'" using rest unfolding moves_on_def by blast
  moreover have "rs_cursor s1 = rs_cursor s + 1"
    using s1 by (auto simp: rule_read_def read_byte_def split: bind_splits)
  ultimately show ?thesis by simp
qed

section \<open>Running the instructions of an entry\<close>

text \<open>The instructions of a CIE; a change of location is ignored.\<close>

function run_cie :: "byte list \<Rightarrow> rule_state \<Rightarrow> ((err + unit) \<times> rule_state) option" where
  "run_cie sl s =
     (if rs_cursor s < length sl then
        (case read_rule sl s of
           None \<Rightarrow> Panic
         | Some (Inl e, s) \<Rightarrow> Ret (Inl e, s)
         | Some (Inr _, s) \<Rightarrow> run_cie sl s)
      else Ret (Inr (), s))"
  by pat_completeness auto
termination
  by (relation "measure (\<lambda>(sl, s). length sl - rs_cursor s)") (auto dest: read_rule_progress)

declare run_cie.simps [simp del]

text \<open>The instructions of an FDE; each change of location ends a row.\<close>

function run_fde ::
  "byte list \<Rightarrow> rule_state \<Rightarrow> frame_state list \<Rightarrow> ((err + unit) \<times> rule_state \<times> frame_state list) option" where
  "run_fde sl s rows =
     (if rs_cursor s < length sl then
        (case read_rule sl s of
           None \<Rightarrow> Panic
         | Some (Inl e, s) \<Rightarrow> Ret (Inl e, s, rows)
         | Some (Inr ended, s) \<Rightarrow>
             if ended
             then let fs = rs_frame s
                  in run_fde sl (s\<lparr>rs_frame := frame_state_new (of_int (rs_pc s)) (fs_cfa_reg fs) (fs_cfa_off fs)\<rparr>)
                       (rows @ [fs])
             else run_fde sl s rows)
      else Ret (Inr (), s, rows))"
  by pat_completeness auto
termination
  by (relation "measure (\<lambda>(sl, s, rows). length sl - rs_cursor s)") (auto dest: read_rule_progress)

declare run_fde.simps [simp del]

section \<open>Entries\<close>

definition cie_letter :: "byte list \<Rightarrow> byte \<Rightarrow> frame_options \<times> nat \<Rightarrow> (frame_options \<times> nat) option" where
  "cie_letter entry a st = (
     let (os, cursor) = st in
     if a = 76 then do { (_, cursor) \<leftarrow> read_byte entry cursor; Ret (os, cursor) }
     else if a = 80 then do {
       (p_enc, cursor) \<leftarrow> read_byte entry cursor;
       (_, cursor) \<leftarrow> read_value p_enc 0 entry cursor;
       Ret (os, cursor)
     }
     else if a = 82 then do { (enc, cursor) \<leftarrow> read_byte entry cursor; Ret (os\<lparr>op_enc := enc\<rparr>, cursor) }
     else Ret (os, cursor))"

fun cie_letters :: "byte list \<Rightarrow> byte list \<Rightarrow> frame_options \<times> nat \<Rightarrow> (frame_options \<times> nat) option" where
  "cie_letters entry [] st = Ret st"
| "cie_letters entry (a # rest) st = do { st \<leftarrow> cie_letter entry a st; cie_letters entry rest st }"

text \<open>The options, the return register and the cursor, or an error.\<close>

definition parse_cie :: "byte list \<Rightarrow> frame_options \<Rightarrow> (err + frame_options \<times> byte \<times> nat) option" where
  "parse_cie entry os =
     (if length entry < 8 then Ret (Inl ''CIE too small'')
      else if take 4 (drop 4 entry) \<noteq> [0, 0, 0, 0] then Ret (Inl ''Invalid CIE'')
      else do {
        (version, cursor) \<leftarrow> read_byte entry 8;
        if version \<noteq> 1 then Ret (Inl ''Invalid Version'')
        else do {
          (aug_len, cursor) \<leftarrow> read_string entry cursor;
          aug \<leftarrow> subslice entry 9 (9 + aug_len);
          (code_align, cursor) \<leftarrow> read_uleb entry cursor;
          (data_align, cursor) \<leftarrow> read_sleb entry cursor;
          (ret_reg, cursor) \<leftarrow> read_uleb entry cursor;
          if 32767 < code_align \<or> 32767 < data_align \<or> data_align < - 32768 \<or> 255 < ret_reg
          then Ret (Inl ''alignment/.into() ret reg out of range'')
          else do {
            let os = os\<lparr>op_code_align := as_i16 code_align, op_data_align := data_align\<rparr>;
            a \<leftarrow> at aug 0;
            if a = 122 then do {
              (_, cursor) \<leftarrow> read_uleb entry cursor;
              (os, cursor) \<leftarrow> cie_letters entry aug (os\<lparr>op_has_aug_data := True\<rparr>, cursor);
              Ret (Inr (os, of_int ret_reg, cursor))
            }
            else Ret (Inr (os, of_int ret_reg, cursor))
          }
        }
      })"

text \<open>An entry is read with its length in front.\<close>

definition read_frame_entry :: "(file_reader, byte list) io" where
  "read_frame_entry =
     io_bind (file_read 256) (\<lambda>buf.
     if length buf < 4 then io_fail ''Cannot read length''
     else let len = le_nat (take 4 buf) in
       if len = 0 then io_fail ''Zero length''
       else if 2048 < len then io_fail ''Too large length''
       else let len = len + 4 in
         if length buf < len then io_bind (read_exact (len - length buf)) (\<lambda>rest. io_return (buf @ rest))
         else io_return (take len buf))"

text \<open>The FDE at a position and its CIE, which is found back from the FDE.\<close>

definition read_entries :: "u64 \<Rightarrow> (file_reader, byte list \<times> byte list) io" where
  "read_entries fde =
     io_bind (seek_start fde) (\<lambda>_.
     io_bind read_frame_entry (\<lambda>fde_slice.
     if length fde_slice < 8 then io_fail ''FDE too small''
     else let cie_offset = le_nat (take 4 (drop 4 fde_slice)) in
       if cie_offset = 0 then io_fail ''Invalid CIE offset''
       else
         io_bind (io_checked (do { p \<leftarrow> add64 fde 4; sub64 p (of_nat cie_offset) })) (\<lambda>cie_pos.
         io_bind (seek_start cie_pos) (\<lambda>_.
         io_bind read_frame_entry (\<lambda>cie_slice. io_return (fde_slice, cie_slice))))))"

text \<open>The entry is left invalid when its rules are not loaded to the end. The range of addresses is set
  before the instructions are run.\<close>

definition apply_entries ::
  "byte list \<Rightarrow> byte list \<Rightarrow> frame_offset \<Rightarrow> ((err + unit) \<times> frame_offset) option" where
  "apply_entries fde_slice cie_slice off = do {
     cie \<leftarrow> parse_cie cie_slice frame_options_new;
     (case cie of
        Inl e \<Rightarrow> Ret (Inl e, off)
      | Inr (os, ret_reg, cie_cursor) \<Rightarrow> do {
          let off = off\<lparr>fo_ret_reg := ret_reg\<rparr>;
          (pc_start, cursor) \<leftarrow> read_value (op_enc os) (as_i64 (fo_fde off)) fde_slice 8;
          (pc_size, cursor) \<leftarrow> read_value (op_enc os) (- 12) fde_slice cursor;
          let off = off\<lparr>fo_pc_size := of_int pc_size\<rparr>;
          cursor \<leftarrow> (if op_has_aug_data os then do {
            (n, cursor) \<leftarrow> read_uleb fde_slice cursor; usize_add cursor (as_usize n) } else Ret cursor);
          (x, s) \<leftarrow> run_cie cie_slice \<lparr>rs_cursor = cie_cursor, rs_pc = pc_start,
             rs_frame = frame_state_new (of_int pc_start) 0 0, rs_options = os\<rparr>;
          (case x of
             Inl e \<Rightarrow> Ret (Inl e, off)
           | Inr _ \<Rightarrow> do {
               (x, s, rows) \<leftarrow> run_fde fde_slice (s\<lparr>rs_cursor := cursor, rs_pc := pc_start\<rparr>) (fo_frame_states off);
               (case x of
                  Inl e \<Rightarrow> Ret (Inl e, off\<lparr>fo_frame_states := rows\<rparr>)
                | Inr _ \<Rightarrow> Ret (Inr (), mark_valid (off\<lparr>fo_frame_states := rows @ [rs_frame s]\<rparr>)))
             })
        })
   }"

definition load_rules :: "frame_offset \<Rightarrow> file_reader \<Rightarrow> ((err + unit) \<times> frame_offset \<times> file_reader) option" where
  "load_rules off r = do {
     let off = mark_invalid off;
     (x, r) \<leftarrow> read_entries (fo_fde off) r;
     (case x of
        Inl e \<Rightarrow> Ret (Inl e, off, r)
      | Inr (fde_slice, cie_slice) \<Rightarrow> do {
          (x, off) \<leftarrow> apply_entries fde_slice cie_slice off;
          Ret (x, off, r)
        })
   }"

section \<open>The table\<close>

text \<open>\<open>partition_point\<close> of the sorted table.\<close>

definition find_offset :: "u64 \<Rightarrow> frame_offset list \<Rightarrow> nat option" where
  "find_offset rva offsets =
     (if offsets = [] then None
      else let index = length (takeWhile (\<lambda>off. fo_rva off \<le> rva) offsets) - 1
           in if fo_rva (offsets ! index) \<le> rva then Some index else None)"

fun read_offsets ::
  "nat \<Rightarrow> byte \<Rightarrow> int \<Rightarrow> u64 \<Rightarrow> u64 \<Rightarrow> byte list \<Rightarrow> nat \<Rightarrow> frame_offset list \<Rightarrow> frame_offset list option" where
  "read_offsets 0 enc data sec_ptr eh_offset buf cursor offsets = Ret offsets"
| "read_offsets (Suc n) enc data sec_ptr eh_offset buf cursor offsets = do {
     (rva, cursor) \<leftarrow> read_value enc data buf cursor;
     (fde, cursor) \<leftarrow> read_value enc data buf cursor;
     d \<leftarrow> sub64 (of_int fde) sec_ptr;
     fde \<leftarrow> add64 eh_offset d;
     read_offsets n enc data sec_ptr eh_offset buf cursor (offsets @ [frame_offset_new (of_int rva) fde])
   }"

definition parse_loc_table ::
  "section_metadata \<Rightarrow> u64 \<Rightarrow> frame_offset list \<Rightarrow> (file_reader, frame_offset list) io" where
  "parse_loc_table metadata eh_offset offsets =
     io_bind (seek_start (sec_offset metadata)) (\<lambda>_.
     io_bind (read_exact (unat (sec_size metadata))) (\<lambda>buf.
     io_checked (do {
       version \<leftarrow> at buf 0;
       if version \<noteq> 1 then Ret offsets
       else do {
         section_enc \<leftarrow> at buf 1;
         count_enc \<leftarrow> at buf 2;
         table_enc \<leftarrow> at buf 3;
         if section_enc = DW_EH_PE_OMIT \<or> count_enc = DW_EH_PE_OMIT \<or> table_enc = DW_EH_PE_OMIT then Ret offsets
         else do {
           let data = as_i64 (sec_offset metadata);
           (sec_ptr, cursor) \<leftarrow> read_value section_enc data buf 4;
           (count, cursor) \<leftarrow> read_value count_enc data buf cursor;
           read_offsets (nat count) table_enc data (of_int sec_ptr) eh_offset buf cursor offsets
         }
       }
     })))"

fun find_by_name :: "byte list \<Rightarrow> section_metadata list \<Rightarrow> (file_reader, section_metadata option) io" where
  "find_by_name name [] = io_return None"
| "find_by_name name (m # ms) =
     io_bind (io_try (name_equals m name)) (\<lambda>same.
       if same = Inr True then io_return (Some m) else find_by_name name ms)"

text \<open>\<open>FrameHeaderTable::parse\<close>.\<close>

definition parse_frame_table :: "frame_offset list \<Rightarrow> (file_reader, frame_offset list) io" where
  "parse_frame_table offsets = (\<lambda>r. do {
     (x, (r, sections)) \<leftarrow> get_section_metadata None SHT_PROGBITS (r, []);
     (case x of
        Inl e \<Rightarrow> Ret (Inl e, r)
      | Inr _ \<Rightarrow>
          io_bind (find_by_name (ascii ''.eh_frame'') sections) (\<lambda>eh.
          let eh_offset = (case eh of Some sec \<Rightarrow> sec_offset sec | None \<Rightarrow> 0) in
          io_bind (find_by_name (ascii ''.eh_frame_hdr'') sections) (\<lambda>hdr.
          case hdr of
            Some sec \<Rightarrow> parse_loc_table sec eh_offset offsets
          | None \<Rightarrow> io_return offsets)) r)
   })"

end
