(* ===== verification/Unwind.thy ===== *)
theory Unwind
  imports Cfi Mappings
begin

text \<open>
  The unwinder: the modules of a process (\<open>ruwind/module.rs\<close>, \<open>ruwind/process.rs\<close>), the machine of all
  processes (\<open>ruwind/machine.rs\<close>) and the unwinder for x86-64 (\<open>ruwind/x64unwinder.rs\<close>). The files of
  modules are a parameter: what the accessor opens for a key, the same bytes at every opening.
\<close>

section \<open>Errors and results\<close>

datatype unwind_error = AnonPrologNotFound | RegisterOutOfRange | NoReturnAddressRegister | CfaWouldGoBackwards |
  BadStackRbpRead | BadStackIpRead | NoModuleFound | ProcessNotMapped

definition error_text :: "unwind_error \<Rightarrow> string" where
  "error_text e = (case e of
     AnonPrologNotFound \<Rightarrow> ''Anon prolog not found''
   | RegisterOutOfRange \<Rightarrow> ''Register out of range''
   | NoReturnAddressRegister \<Rightarrow> ''No return address register''
   | CfaWouldGoBackwards \<Rightarrow> ''CFA would go backwards''
   | BadStackRbpRead \<Rightarrow> ''Bad stack RBP read''
   | BadStackIpRead \<Rightarrow> ''Bad stack IP read''
   | NoModuleFound \<Rightarrow> ''No module found''
   | ProcessNotMapped \<Rightarrow> ''Process not mapped'')"

record unwind_result =
  ur_frames_pushed :: nat
  ur_error :: "unwind_error option"

definition unwind_result_new :: unwind_result where
  "unwind_result_new = \<lparr>ur_frames_pushed = 0, ur_error = None\<rparr>"

section \<open>Modules\<close>

record unwind_module =
  um_start :: u64
  um_end :: u64
  um_offset :: u64
  um_va_offset :: u64
  um_key :: module_key
  um_anon :: bool
  um_type :: unwind_type

definition key_new :: "u64 \<Rightarrow> u64 \<Rightarrow> module_key" where
  "key_new dev ino = \<lparr>key_dev = dev, key_ino = ino\<rparr>"

definition um_new :: "u64 \<Rightarrow> u64 \<Rightarrow> u64 \<Rightarrow> u64 \<Rightarrow> u64 \<Rightarrow> u64 \<Rightarrow> unwind_type \<Rightarrow> unwind_module" where
  "um_new start stop off va_offset dev ino ty = \<lparr>um_start = start, um_end = stop, um_offset = off,
     um_va_offset = va_offset, um_key = key_new dev ino, um_anon = False, um_type = ty\<rparr>"

definition um_new_anon :: "u64 \<Rightarrow> u64 \<Rightarrow> unwind_module" where
  "um_new_anon start stop = \<lparr>um_start = start, um_end = stop, um_offset = 0, um_va_offset = 0,
     um_key = key_new 0 0, um_anon = True, um_type = Prolog\<rparr>"

definition um_rva :: "unwind_module \<Rightarrow> u64 \<Rightarrow> u64 option" where
  "um_rva m ip = do { d \<leftarrow> sub64 ip (um_start m); p \<leftarrow> add64 d (um_offset m); add64 p (um_va_offset m) }"

section \<open>Processes\<close>

record unwind_process =
  up_mods :: "unwind_module list"
  up_sorted :: bool

definition up_new :: unwind_process where
  "up_new = \<lparr>up_mods = [], up_sorted = False\<rparr>"

definition up_add_module :: "unwind_module \<Rightarrow> unwind_process \<Rightarrow> unwind_process" where
  "up_add_module m p = p\<lparr>up_mods := up_mods p @ [m], up_sorted := False\<rparr>"

definition up_fork :: "unwind_process \<Rightarrow> unwind_process" where
  "up_fork p = up_new\<lparr>up_mods := up_mods p\<rparr>"

text \<open>The order of modules compares their starts only; \<open>sort\<close> is stable.\<close>

definition up_sort :: "unwind_process \<Rightarrow> unwind_process" where
  "up_sort p = (if up_sorted p then p else p\<lparr>up_mods := sort_key um_start (up_mods p), up_sorted := True\<rparr>)"

definition up_find :: "unwind_process \<Rightarrow> u64 \<Rightarrow> unwind_module option" where
  "up_find p ip =
     (if up_mods p = [] then None
      else let index = length (takeWhile (\<lambda>m. um_start m \<le> ip) (up_mods p)) - 1;
               m = up_mods p ! index
           in if um_start m \<le> ip \<and> ip \<le> um_end m then Some m else None)"

section \<open>The frame offsets of a module\<close>

type_synonym accessor = "module_key \<Rightarrow> byte list option"

record frame_offsets =
  fos_offsets :: "frame_offset list"
  fos_filled :: bool

definition frame_offsets_new :: frame_offsets where
  "frame_offsets_new = \<lparr>fos_offsets = [], fos_filled = False\<rparr>"

definition fill_offsets :: "accessor \<Rightarrow> module_key \<Rightarrow> frame_offsets \<Rightarrow> frame_offsets option" where
  "fill_offsets access key fos =
     (if fos_filled fos then Ret fos
      else case access key of
        None \<Rightarrow> Ret (fos\<lparr>fos_filled := True\<rparr>)
      | Some bs \<Rightarrow> do {
          (x, _) \<leftarrow> parse_frame_table (fos_offsets fos) (file_open bs);
          Ret \<lparr>fos_offsets = (case x of Inr offsets \<Rightarrow> offsets | Inl _ \<Rightarrow> fos_offsets fos), fos_filled = True\<rparr>
        })"

definition parse_offset :: "accessor \<Rightarrow> module_key \<Rightarrow> frame_offset \<Rightarrow> frame_offset option" where
  "parse_offset access key off =
     (if \<not> is_unparsed off then Ret off
      else case access key of
        None \<Rightarrow> Ret (mark_invalid off)
      | Some bs \<Rightarrow> do { (_, off, _) \<leftarrow> load_rules off (file_open bs); Ret off })"

definition get_frame_offset ::
  "accessor \<Rightarrow> module_key \<Rightarrow> u64 \<Rightarrow> frame_offsets \<Rightarrow> (frame_offset option \<times> frame_offsets) option" where
  "get_frame_offset access key rva fos = do {
     fos \<leftarrow> fill_offsets access key fos;
     (case find_offset rva (fos_offsets fos) of
        None \<Rightarrow> Ret (None, fos)
      | Some index \<Rightarrow> do {
          off \<leftarrow> parse_offset access key (fos_offsets fos ! index);
          let fos = fos\<lparr>fos_offsets := (fos_offsets fos)[index := off]\<rparr>;
          if \<not> is_valid off then Ret (None, fos)
          else if fo_pc_size off \<noteq> 0 then do {
            stop \<leftarrow> add64 (fo_rva off) (fo_pc_size off);
            Ret (if stop \<le> rva then None else Some off, fos)
          }
          else Ret (Some off, fos)
        })
   }"

section \<open>The unwinder\<close>

record unwinder =
  un_cache :: "module_key \<rightharpoonup> frame_offsets"
  un_registers :: "u64 list"
  un_offsets :: "int list"
  un_rip :: u64
  un_rsp :: u64

definition unwinder_new :: unwinder where
  "unwinder_new = \<lparr>un_cache = Map.empty, un_registers = [], un_offsets = [], un_rip = 0, un_rsp = 0\<rparr>"

definition REG_RBP :: nat where "REG_RBP = 6"
definition REG_RSP :: nat where "REG_RSP = 7"
definition REG_RA :: nat where "REG_RA = 16"
definition REG_RBP_BIT :: u64 where "REG_RBP_BIT = push_bit REG_RBP 1"
definition REG_RA_BIT :: u64 where "REG_RA_BIT = push_bit REG_RA 1"

definition unwinder_reset :: "u64 \<Rightarrow> u64 \<Rightarrow> u64 \<Rightarrow> unwinder \<Rightarrow> unwinder" where
  "unwinder_reset rip rbp rsp u = u\<lparr>un_registers := (replicate (REG_RA + 1) 0)[REG_RBP := rbp, REG_RSP := rsp],
     un_offsets := replicate (REG_RA + 1) 0, un_rip := rip, un_rsp := rsp\<rparr>"

definition set_stack :: "u64 \<Rightarrow> u64 \<Rightarrow> unwinder \<Rightarrow> unwinder" where
  "set_stack rsp rbp u = u\<lparr>un_registers := (un_registers u)[REG_RSP := rsp, REG_RBP := rbp]\<rparr>"

text \<open>The word at an offset from an address, of the copy of the stack that starts at \<open>rsp\<close>.\<close>

definition stack_value :: "u64 \<Rightarrow> u64 \<Rightarrow> int \<Rightarrow> byte list \<Rightarrow> u64 option option" where
  "stack_value rsp cfa off data =
     (if cfa < rsp then Ret None
      else do {
        offset \<leftarrow> i64_checked (as_i64 (cfa - rsp) + off);
        let max_offset = int (length data) - 8;
        if offset < 0 \<or> max_offset \<le> offset then Ret None
        else do { bs \<leftarrow> subslice data (nat offset) (nat offset + 8); Ret (Some (u64_of bs)) }
      })"

text \<open>The chain of frame pointers, up to a depth: the link whose return address is in a module.\<close>

fun chain_walk ::
  "nat \<Rightarrow> unwind_process \<Rightarrow> byte list \<Rightarrow> u64 \<Rightarrow> u64 \<Rightarrow> u64 \<Rightarrow> (u64 \<times> u64 \<times> u64) option option" where
  "chain_walk 0 p data rsp max_cfa chain_rbp = Ret None"
| "chain_walk (Suc n) p data rsp max_cfa chain_rbp = do {
     saved \<leftarrow> stack_value rsp chain_rbp 0 data;
     (case saved of
        None \<Rightarrow> Ret None
      | Some saved_rbp \<Rightarrow> do {
          ret \<leftarrow> stack_value rsp chain_rbp 8 data;
          (case ret of
             None \<Rightarrow> Ret None
           | Some ret_addr \<Rightarrow>
               if up_find p ret_addr \<noteq> None then Ret (Some (chain_rbp, saved_rbp, ret_addr))
               else if saved_rbp \<le> chain_rbp \<or> max_cfa < saved_rbp \<or> saved_rbp AND 7 \<noteq> 0 then Ret None
               else chain_walk n p data rsp max_cfa saved_rbp)
        })
   }"

definition word_at :: "byte list \<Rightarrow> nat \<Rightarrow> u64 option" where
  "word_at data offset = do { bs \<leftarrow> subslice data offset (offset + 8); Ret (u64_of bs) }"

text \<open>The scan for a stack address followed by a code address, over a number of words.\<close>

fun scan_stack ::
  "nat \<Rightarrow> unwind_process \<Rightarrow> byte list \<Rightarrow> u64 \<Rightarrow> u64 \<Rightarrow> u64 \<Rightarrow> nat \<Rightarrow> (u64 \<times> u64) option option" where
  "scan_stack 0 p data cfa max_cfa fst_word offset = Ret None"
| "scan_stack (Suc n) p data cfa max_cfa fst_word offset =
     (if length data - 8 < offset then Ret None
      else do {
        snd_word \<leftarrow> word_at data offset;
        if cfa < fst_word \<and> fst_word \<le> max_cfa \<and> up_find p snd_word \<noteq> None then Ret (Some (fst_word, snd_word))
        else scan_stack n p data cfa max_cfa snd_word (offset + 8)
      })"

definition prolog_scan ::
  "unwind_process \<Rightarrow> byte list \<Rightarrow> u64 \<Rightarrow> u64 \<Rightarrow> unwinder \<Rightarrow> unwind_result \<Rightarrow>
   (u64 option \<times> unwinder \<times> unwind_result) option" where
  "prolog_scan p data cfa max_cfa u res = (
     let offset = unat (cfa - un_rsp u) in
     if length data - 8 < offset then Ret (None, u, res)
     else do {
       fst_word \<leftarrow> word_at data offset;
       found \<leftarrow> scan_stack 64 p data cfa max_cfa fst_word (offset + 8);
       (case found of
          Some (new_rsp, ip) \<Rightarrow> Ret (Some ip, set_stack new_rsp new_rsp u, res)
        | None \<Rightarrow> Ret (None, u, res\<lparr>ur_error := Some AnonPrologNotFound\<rparr>))
     })"

definition unwind_prolog ::
  "unwind_process \<Rightarrow> byte list \<Rightarrow> unwinder \<Rightarrow> unwind_result \<Rightarrow> (u64 option \<times> unwinder \<times> unwind_result) option" where
  "unwind_prolog p data u res = do {
     cfa \<leftarrow> at (un_registers u) REG_RSP;
     rbp \<leftarrow> at (un_registers u) REG_RBP;
     if cfa < un_rsp u \<or> length data < 16 then Ret (None, u, res)
     else do {
       max_cfa \<leftarrow> add64 cfa (of_nat (length data));
       chain \<leftarrow> chain_walk 16 p data (un_rsp u) max_cfa rbp;
       (case chain of
          Some (chain_rbp, saved_rbp, ret_addr) \<Rightarrow> do {
            new_rsp \<leftarrow> add64 chain_rbp 16;
            Ret (Some ret_addr, set_stack new_rsp saved_rbp u, res)
          }
        | None \<Rightarrow> prolog_scan p data cfa max_cfa u res)
     }
   }"

definition fails :: "unwind_error \<Rightarrow> unwinder \<Rightarrow> unwind_result \<Rightarrow> u64 option \<times> unwinder \<times> unwind_result" where
  "fails e u res = (None, u, res\<lparr>ur_error := Some e\<rparr>)"

text \<open>The caller's frame by the rules of the entry: the CFA, the saved frame pointer, the return address.\<close>

definition unwind_by_rules ::
  "byte list \<Rightarrow> unwind_cfa \<Rightarrow> unwinder \<Rightarrow> unwind_result \<Rightarrow> (u64 option \<times> unwinder \<times> unwind_result) option" where
  "unwind_by_rules data cfa_data u res =
     (if REG_RA < unat (uc_reg cfa_data) then Ret (fails RegisterOutOfRange u res)
      else do {
        base \<leftarrow> at (un_registers u) (unat (uc_reg cfa_data));
        sum \<leftarrow> i64_checked (as_i64 base + uc_off cfa_data);
        let cfa = of_int sum;
        if uc_off_mask cfa_data AND REG_RA_BIT = 0 then Ret (fails NoReturnAddressRegister u res)
        else do {
          rsp \<leftarrow> at (un_registers u) REG_RSP;
          if cfa \<le> rsp then Ret (fails CfaWouldGoBackwards u res)
          else do {
            rbp \<leftarrow>
              (if uc_off_mask cfa_data AND REG_RBP_BIT \<noteq> 0 then do {
                 off \<leftarrow> at (un_offsets u) REG_RBP;
                 stack_value (un_rsp u) cfa off data
               } else map_option Some (at (un_registers u) REG_RBP));
            (case rbp of
               None \<Rightarrow> Ret (fails BadStackRbpRead u res)
             | Some rbp \<Rightarrow> do {
                 let u = set_stack cfa rbp u;
                 off \<leftarrow> at (un_offsets u) REG_RA;
                 ip \<leftarrow> stack_value (un_rsp u) cfa off data;
                 (case ip of
                    Some ip \<Rightarrow> Ret (Some ip, u, res)
                  | None \<Rightarrow> Ret (fails BadStackIpRead u res))
               })
          }
        }
      })"

definition unwind_module_frame ::
  "accessor \<Rightarrow> module_key \<Rightarrow> u64 \<Rightarrow> byte list \<Rightarrow> unwinder \<Rightarrow> unwind_result \<Rightarrow>
   (u64 option \<times> unwinder \<times> unwind_result) option" where
  "unwind_module_frame access key rva data u res = do {
     (found, fos) \<leftarrow> get_frame_offset access key rva
       (case un_cache u key of Some fos \<Rightarrow> fos | None \<Rightarrow> frame_offsets_new);
     let u = u\<lparr>un_cache := (un_cache u)(key \<mapsto> fos)\<rparr>;
     (case found of
        None \<Rightarrow> Ret (fails NoModuleFound u res)
      | Some off \<Rightarrow> do {
          (cfa_data, offsets) \<leftarrow> unwind_to_cfa off (un_offsets u) rva;
          unwind_by_rules data cfa_data (u\<lparr>un_offsets := offsets\<rparr>) res
        })
   }"

section \<open>The frame loop\<close>

text \<open>The next address for an address in a module: by the prolog or by the rules of the module, and by the
  prolog where a module has no rules for the address.\<close>

definition unwind_frame ::
  "accessor \<Rightarrow> unwind_process \<Rightarrow> byte list \<Rightarrow> unwind_module \<Rightarrow> unwinder \<Rightarrow> unwind_result \<Rightarrow>
   (u64 option \<times> unwinder \<times> unwind_result) option" where
  "unwind_frame access p data m u res =
     (if um_type m = Prolog then unwind_prolog p data u res
      else do {
        rva \<leftarrow> um_rva m (un_rip u);
        (ip, u, res) \<leftarrow> unwind_module_frame access (um_key m) rva data u res;
        if ip = None \<and> ur_error res = Some NoModuleFound
        then unwind_prolog p data u (res\<lparr>ur_error := None\<rparr>)
        else Ret (ip, u, res)
      })"

text \<open>An address outside all modules is replaced if the prolog finds one from the frame before.\<close>

definition recover_ip ::
  "unwind_process \<Rightarrow> byte list \<Rightarrow> u64 \<Rightarrow> u64 \<Rightarrow> u64 \<Rightarrow> unwinder \<Rightarrow> unwind_result \<Rightarrow>
   (u64 \<times> unwinder \<times> unwind_result) option" where
  "recover_ip p data saved_rsp saved_rbp next_ip u res =
     (if next_ip \<noteq> 0 \<and> up_find p next_ip = None then do {
        (recovered, u, res) \<leftarrow> unwind_prolog p data (set_stack saved_rsp saved_rbp u) res;
        (case recovered of
           Some ip \<Rightarrow> Ret (ip, u, res\<lparr>ur_error := None\<rparr>)
         | None \<Rightarrow> Ret (next_ip, u, res))
      }
      else Ret (next_ip, u, res))"

definition unwind_finish :: "unwinder \<Rightarrow> u64 list \<Rightarrow> unwind_result \<Rightarrow> unwinder \<times> u64 list \<times> unwind_result" where
  "unwind_finish u frames res =
     (if 1 < ur_frames_pushed res
      then (u, butlast frames, res\<lparr>ur_frames_pushed := ur_frames_pushed res - 1\<rparr>)
      else (u, frames, res))"

definition unwind_next ::
  "accessor \<Rightarrow> unwind_process \<Rightarrow> byte list \<Rightarrow> unwind_module \<Rightarrow> unwinder \<Rightarrow> unwind_result \<Rightarrow>
   (u64 option \<times> unwinder \<times> unwind_result) option" where
  "unwind_next access p data m u res = do {
     saved_rsp \<leftarrow> at (un_registers u) REG_RSP;
     saved_rbp \<leftarrow> at (un_registers u) REG_RBP;
     (ip, u, res) \<leftarrow> unwind_frame access p data m u res;
     (case ip of
        None \<Rightarrow> Ret (None, u, res)
      | Some next_ip \<Rightarrow> do {
          (next_ip, u, res) \<leftarrow> recover_ip p data saved_rsp saved_rbp next_ip u res;
          Ret (Some next_ip, u\<lparr>un_rip := next_ip\<rparr>, res)
        })
   }"

text \<open>No step changes the number of frames pushed, so the loop ends at the hard cap.\<close>

definition pushes :: "nat \<Rightarrow> (u64 option \<times> unwinder \<times> unwind_result) option \<Rightarrow> bool" where
  "pushes n r \<longleftrightarrow> (\<forall>ip u res. r = Some (ip, u, res) \<longrightarrow> ur_frames_pushed res = n)"

lemma pushes_Some [intro]: "ur_frames_pushed res = n \<Longrightarrow> pushes n (Some (ip, u, res))"
  by (simp add: pushes_def)

lemma pushes_fails [intro]: "ur_frames_pushed res = n \<Longrightarrow> pushes n (Some (fails e u res))"
  by (simp add: pushes_def fails_def)

lemma pushes_bind [intro]: "(\<And>x. a = Some x \<Longrightarrow> pushes n (f x)) \<Longrightarrow> pushes n (a \<bind> f)"
  by (cases a) (simp_all add: pushes_def)

lemma pushes_if [intro]: "(P \<Longrightarrow> pushes n a) \<Longrightarrow> (\<not> P \<Longrightarrow> pushes n b) \<Longrightarrow> pushes n (if P then a else b)"
  by simp

lemma pushes_option [intro]:
  "(c = None \<Longrightarrow> pushes n a) \<Longrightarrow> (\<And>x. c = Some x \<Longrightarrow> pushes n (f x)) \<Longrightarrow>
   pushes n (case c of None \<Rightarrow> a | Some x \<Rightarrow> f x)"
  by (cases c) simp_all

lemma pushes_prod [intro]: "(\<And>x y. c = (x, y) \<Longrightarrow> pushes n (f x y)) \<Longrightarrow> pushes n (case c of (x, y) \<Rightarrow> f x y)"
  by (cases c) simp

lemma pushes_scan: "pushes (ur_frames_pushed res) (prolog_scan p data cfa max_cfa u res)"
  unfolding prolog_scan_def Let_def by (intro pushes_if pushes_bind pushes_option pushes_prod pushes_Some) simp_all

lemma pushes_prolog: "pushes (ur_frames_pushed res) (unwind_prolog p data u res)"
  unfolding unwind_prolog_def
  by (intro pushes_if pushes_bind pushes_option pushes_prod pushes_Some pushes_scan) simp_all

lemma pushes_rules: "pushes (ur_frames_pushed res) (unwind_by_rules data c u res)"
  unfolding unwind_by_rules_def Let_def
  by (intro pushes_if pushes_bind pushes_option pushes_prod pushes_Some pushes_fails) simp_all

lemma pushes_module: "pushes (ur_frames_pushed res) (unwind_module_frame access key rva data u res)"
  unfolding unwind_module_frame_def Let_def
  by (intro pushes_bind pushes_option pushes_prod pushes_fails pushes_rules) simp_all

lemma pushes_Some_iff [simp]: "pushes n (Some (ip, u, res)) \<longleftrightarrow> ur_frames_pushed res = n"
  by (simp add: pushes_def)

lemma pushed_module:
  "unwind_module_frame access key rva data u res = Some (ip, u', res') \<Longrightarrow> ur_frames_pushed res' = ur_frames_pushed res"
  using pushes_module [of res access key rva data u] by simp

lemma pushes_prolog_of: "ur_frames_pushed res = n \<Longrightarrow> pushes n (unwind_prolog p data u res)"
  using pushes_prolog by blast

lemma pushes_frame: "pushes (ur_frames_pushed res) (unwind_frame access p data m u res)"
  unfolding unwind_frame_def
  by (intro pushes_if pushes_bind pushes_prod pushes_prolog_of pushes_Some) (auto dest: pushed_module)

lemma pushed_frame:
  "unwind_frame access p data m u res = Some (ip, u', res') \<Longrightarrow> ur_frames_pushed res' = ur_frames_pushed res"
  using pushes_frame [of res access p data m u] by simp

lemma pushed_recover:
  assumes "recover_ip p data a b next_ip u res = Some (ip, u', res')"
  shows "ur_frames_pushed res' = ur_frames_pushed res"
proof (cases "next_ip \<noteq> 0 \<and> up_find p next_ip = None")
  case True
  then obtain x u1 res1 where "unwind_prolog p data (set_stack a b u) res = Some (x, u1, res1)"
    "ur_frames_pushed res' = ur_frames_pushed res1"
    using assms by (auto simp: recover_ip_def Option.bind_eq_Some_conv split: option.splits)
  then show ?thesis using pushes_prolog [of res p data "set_stack a b u"] by simp
qed (use assms in \<open>auto simp: recover_ip_def\<close>)

lemma pushed_next:
  "unwind_next access p data m u res = Some (ip, u', res') \<Longrightarrow> ur_frames_pushed res' = ur_frames_pushed res"
  by (auto simp: unwind_next_def Option.bind_eq_Some_conv split: option.splits dest!: pushed_frame pushed_recover)

function unwind_loop ::
  "accessor \<Rightarrow> unwind_process \<Rightarrow> byte list \<Rightarrow> unwinder \<Rightarrow> u64 list \<Rightarrow> unwind_result \<Rightarrow>
   (unwinder \<times> u64 list \<times> unwind_result) option" where
  "unwind_loop access p data u frames res =
     (case up_find p (un_rip u) of
        None \<Rightarrow> Ret (unwind_finish u frames res)
      | Some m \<Rightarrow>
          (case unwind_next access p data m u res of
             None \<Rightarrow> Panic
           | Some (None, u, res) \<Rightarrow> Ret (u, frames, res)
           | Some (Some ip, u, res) \<Rightarrow>
               let frames = frames @ [ip]; res = res\<lparr>ur_frames_pushed := ur_frames_pushed res + 1\<rparr>
               in if 128 < ur_frames_pushed res \<or> ip = 0 then Ret (unwind_finish u frames res)
                  else unwind_loop access p data u frames res))"
  by pat_completeness auto
termination
  by (relation "measure (\<lambda>(access, p, data, u, frames, res). 129 - ur_frames_pushed res)")
    (auto dest!: pushed_next)

declare unwind_loop.simps [simp del]

section \<open>The machine\<close>

type_synonym unwind_machine = "u32 \<rightharpoonup> unwind_process"

definition um_add_process :: "u32 \<Rightarrow> unwind_process \<Rightarrow> unwind_machine \<Rightarrow> bool \<times> unwind_machine" where
  "um_add_process pid p m = (if m pid = None then (True, m(pid \<mapsto> p)) else (False, m))"

definition um_fork_process :: "u32 \<Rightarrow> u32 \<Rightarrow> unwind_machine \<Rightarrow> bool \<times> unwind_machine" where
  "um_fork_process pid ppid m = (case m ppid of
     Some parent \<Rightarrow> um_add_process pid (up_fork parent) m | None \<Rightarrow> (False, m))"

definition um_remove_process :: "u32 \<Rightarrow> unwind_machine \<Rightarrow> bool \<times> unwind_machine" where
  "um_remove_process pid m = (if m pid = None then (False, m) else (True, m(pid := None)))"

definition unwind_process_frames ::
  "u32 \<Rightarrow> accessor \<Rightarrow> u64 \<Rightarrow> u64 \<Rightarrow> u64 \<Rightarrow> byte list \<Rightarrow> u64 list \<Rightarrow> unwinder \<Rightarrow> unwind_machine \<Rightarrow>
   (unwind_result \<times> u64 list \<times> unwinder \<times> unwind_machine) option" where
  "unwind_process_frames pid access rip rbp rsp data frames u m = (
     let u = unwinder_reset rip rbp rsp u;
         frames = frames @ [rip];
         res = unwind_result_new\<lparr>ur_frames_pushed := 1\<rparr>
     in case m pid of
          None \<Rightarrow> Ret (res\<lparr>ur_error := Some ProcessNotMapped\<rparr>, frames, u, m)
        | Some p \<Rightarrow> do {
            let p = up_sort p;
            (u, frames, res) \<leftarrow> unwind_loop access p data u frames res;
            Ret (res, frames, u, m(pid \<mapsto> p))
          })"

end
