(* ===== verification/UnwindProps.thy ===== *)
theory UnwindProps
  imports Unwind
begin

text \<open>
  What the unwinder promises: the frames it adds are in modules of the process and are limited; it always
  returns for processes without frame tables; it follows the chain of frame pointers.
\<close>

section \<open>The frames added\<close>

definition in_modules :: "unwind_process \<Rightarrow> u64 \<Rightarrow> bool" where
  "in_modules p ip \<longleftrightarrow> up_find p ip \<noteq> None"

text \<open>The frames of a loop: the first address and what was added, all but the last in modules.\<close>

definition loop_frames :: "unwind_process \<Rightarrow> u64 list \<Rightarrow> u64 \<Rightarrow> unwinder \<Rightarrow> u64 list \<Rightarrow> unwind_result \<Rightarrow> u64 list \<Rightarrow> bool" where
  "loop_frames p base rip u frames res xs \<longleftrightarrow>
     frames = base @ rip # xs \<and> ur_frames_pushed res = length xs + 1 \<and> un_rip u = last (rip # xs) \<and>
     length xs < 128 \<and> (\<forall>ip \<in> set (butlast xs). in_modules p ip)"

definition end_frames :: "unwind_process \<Rightarrow> u64 list \<Rightarrow> u64 \<Rightarrow> u64 list \<Rightarrow> unwind_result \<Rightarrow> u64 list \<Rightarrow> bool" where
  "end_frames p base rip frames res xs \<longleftrightarrow>
     frames = base @ rip # xs \<and> ur_frames_pushed res = length xs + 1 \<and> length xs < 128 \<and>
     (\<forall>ip \<in> set xs. in_modules p ip)"

lemma finish_frames:
  assumes "frames = base @ rip # xs" "ur_frames_pushed res = length xs + 1" "length xs \<le> 128"
    "\<forall>ip \<in> set (butlast xs). in_modules p ip" "unwind_finish u frames res = (u', frames', res')"
  shows "end_frames p base rip frames' res' (butlast xs)"
  using assms by (cases xs rule: rev_cases) (auto simp: unwind_finish_def end_frames_def butlast_append split: if_splits)

lemma next_rip: "unwind_next access p data m u res = Some (Some ip, u', res') \<Longrightarrow> un_rip u' = ip"
  by (auto simp: unwind_next_def Option.bind_eq_Some_conv split: option.splits)

lemma set_butlast_snoc: "xs \<noteq> [] \<Longrightarrow> set xs = insert (last xs) (set (butlast xs))"
  by (cases xs rule: rev_cases) auto

text \<open>An added frame extends the loop; at the end the last one is dropped.\<close>

lemma loop_frames_step:
  assumes "loop_frames p base rip u frames res xs" "up_find p (un_rip u) = Some m"
    "unwind_next access p data m u res = Some (ip, u', res')"
  shows "\<forall>x \<in> set xs. in_modules p x" "ur_frames_pushed res' = length xs + 1"
    "ip = Some a \<Longrightarrow> un_rip u' = a"
proof -
  have i: "in_modules p (last (rip # xs))" using assms(1,2) by (auto simp: loop_frames_def in_modules_def)
  show "\<forall>x \<in> set xs. in_modules p x"
  proof (cases "xs = []")
    case False
    then have "set xs = insert (last xs) (set (butlast xs))" by (rule set_butlast_snoc)
    then show ?thesis using i False assms(1) by (auto simp: loop_frames_def)
  qed simp
  show "ur_frames_pushed res' = length xs + 1"
    using pushed_next [OF assms(3)] assms(1) by (simp add: loop_frames_def)
  show "ip = Some a \<Longrightarrow> un_rip u' = a" using next_rip assms(3) by blast
qed

lemma loop_adds_frames:
  assumes "unwind_loop access p data u frames res = Some (u', frames', res')"
    "loop_frames p base rip u frames res xs"
  shows "\<exists>ys. end_frames p base rip frames' res' ys \<and>
    (if in_modules p (un_rip u) then \<exists>zs. ys = xs @ zs else ys = butlast xs)"
  using assms
proof (induction access p data u frames res arbitrary: xs rule: unwind_loop.induct)
  case (1 access p data u frames res)
  note lf = "1.prems"(2)
  show ?case
  proof (cases "up_find p (un_rip u)")
    case None
    then have "unwind_finish u frames res = (u', frames', res')"
      using "1.prems"(1) by (subst (asm) unwind_loop.simps) simp
    from finish_frames [OF _ _ _ _ this] show ?thesis
      using lf None by (intro exI [of _ "butlast xs"]) (simp add: loop_frames_def in_modules_def)
  next
    case (Some m)
    obtain ip u1 res1 where n: "unwind_next access p data m u res = Some (ip, u1, res1)"
      using "1.prems"(1) Some by (subst (asm) unwind_loop.simps) (auto split: option.splits)
    note st = loop_frames_step [OF lf Some n]
    show ?thesis
    proof (cases ip)
      case None
      then have "(u1, frames, res1) = (u', frames', res')"
        using "1.prems"(1) Some n by (subst (asm) unwind_loop.simps) simp
      then show ?thesis using lf st Some
        by (intro exI [of _ xs]) (simp add: loop_frames_def end_frames_def in_modules_def)
    next
      case ip: (Some a)
      let ?res = "res1\<lparr>ur_frames_pushed := ur_frames_pushed res1 + 1\<rparr>"
      have fr: "frames @ [a] = base @ rip # xs @ [a]" "ur_frames_pushed ?res = length (xs @ [a]) + 1"
        using lf st(2) by (simp_all add: loop_frames_def)
      show ?thesis
      proof (cases "128 < ur_frames_pushed ?res \<or> a = 0")
        case True
        then have "unwind_finish u1 (frames @ [a]) ?res = (u', frames', res')"
          using "1.prems"(1) Some n ip by (subst (asm) unwind_loop.simps) (simp add: Let_def)
        from finish_frames [OF fr _ _ this] show ?thesis
          using lf st(1) Some by (intro exI [of _ "butlast (xs @ [a])"]) (simp add: loop_frames_def in_modules_def)
      next
        case False
        then have "unwind_loop access p data u1 (frames @ [a]) ?res = Some (u', frames', res')"
          using "1.prems"(1) Some n ip by (subst (asm) unwind_loop.simps) (simp add: Let_def)
        moreover have "loop_frames p base rip u1 (frames @ [a]) ?res (xs @ [a])"
          using fr False st st(3) [OF ip] lf by (auto simp: loop_frames_def)
        ultimately obtain ys where ys: "end_frames p base rip frames' res' ys"
          "if in_modules p (un_rip u1) then \<exists>zs. ys = (xs @ [a]) @ zs else ys = butlast (xs @ [a])"
          using "1.IH" [OF Some n _ _ refl refl _] ip False by blast
        then have "\<exists>zs. ys = xs @ zs" by (auto split: if_splits)
        then show ?thesis using ys(1) Some by (auto simp: in_modules_def)
      qed
    qed
  qed
qed

text \<open>C15. Whatever the frame tables and the stack say, what unwinding adds to the frames is the sampled address and
  at most 127 further ones, each in a module of the process, and the count that is returned is the number
  of frames added.\<close>

theorem unwound_frames_in_modules:
  assumes "unwind_process_frames pid access rip rbp rsp data frames u m = Some (res, frames', u', m')"
  shows "\<exists>xs. frames' = frames @ rip # xs \<and> ur_frames_pushed res = length xs + 1 \<and> length xs < 128 \<and>
    (\<forall>ip \<in> set xs. \<exists>p. m' pid = Some p \<and> up_find p ip \<noteq> None)"
proof (cases "m pid")
  case None
  then have "frames' = frames @ [rip]" "ur_frames_pushed res = 1"
    using assms by (auto simp: unwind_process_frames_def)
  then show ?thesis by simp
next
  case (Some p)
  let ?u = "unwinder_reset rip rbp rsp u" and ?res = "unwind_result_new\<lparr>ur_frames_pushed := 1\<rparr>"
  have loop: "unwind_loop access (up_sort p) data ?u (frames @ [rip]) ?res = Some (u', frames', res)"
    and m': "m' = m(pid \<mapsto> up_sort p)"
    using assms Some by (auto simp: unwind_process_frames_def Let_def Option.bind_eq_Some_conv)
  have "loop_frames (up_sort p) frames rip ?u (frames @ [rip]) ?res []"
    by (simp add: loop_frames_def unwinder_reset_def)
  from loop_adds_frames [OF loop this] show ?thesis
    by (auto simp: end_frames_def in_modules_def m')
qed

section \<open>Reading the stack\<close>

lemma sint_u64: "sint (w :: u64) = (if uint w < 2 ^ 63 then uint w else uint w - 2 ^ 64)"
proof -
  define x where "x = uint w"
  have r: "0 \<le> x" "x < 2 ^ 64" using uint_lt2p [of w] by (simp_all add: x_def)
  have "x div 2 ^ 63 = (if x < 2 ^ 63 then 0 else 1)"
  proof (cases "x < 2 ^ 63")
    case False
    have "x div 2 ^ 63 = (2 ^ 63 + (x - 2 ^ 63)) div 2 ^ 63" by simp
    also have "\<dots> = (x - 2 ^ 63) div 2 ^ 63 + 1" by (rule div_add_self1) simp
    also have "(x - 2 ^ 63) div 2 ^ 63 = 0" using False r by (intro div_pos_pos_trivial) simp_all
    finally show ?thesis using False by simp
  qed (use r in simp)
  then have "bit x 63 \<longleftrightarrow> \<not> x < 2 ^ 63" by (simp add: bit_iff_odd)
  then show ?thesis
    using r unfolding x_def
    by (simp add: sint_uint signed_take_bit_eq_take_bit_minus take_bit_int_eq_self)
qed

lemma as_i64_range: "- (2 ^ 63) \<le> as_i64 w" "as_i64 w < 2 ^ 63"
proof -
  define x where "x = uint w"
  have "0 \<le> x" "x < 2 ^ 64" using uint_lt2p [of w] by (simp_all add: x_def)
  then show "- (2 ^ 63) \<le> as_i64 w" "as_i64 w < 2 ^ 63"
    unfolding as_i64_def sint_u64 x_def [symmetric] by simp_all
qed

lemma as_i64_nonneg: "0 \<le> as_i64 w \<Longrightarrow> as_i64 w = int (unat w)"
  using uint_lt2p [of w] by (auto simp: as_i64_def sint_u64 split: if_splits)

lemma as_i64_small:
  assumes "unat w < 2 ^ 63"
  shows "as_i64 w = int (unat w)"
proof -
  have "int (unat w) < int (2 ^ 63)" using assms by (simp only: of_nat_less_iff)
  then show ?thesis by (simp add: as_i64_def sint_u64)
qed

lemma stack_value_at:
  assumes "rsp \<le> a" "unat (a - rsp) < 2 ^ 62" "- (2 ^ 62) \<le> off" "off < 2 ^ 62"
  shows "stack_value rsp a off data =
    (let i = int (unat (a - rsp)) + off in
     if 0 \<le> i \<and> i + 8 < int (length data) then Some (Some (u64_of (take 8 (drop (nat i) data)))) else Some None)"
proof -
  define k where "k = unat (a - rsp)"
  have "as_i64 (a - rsp) = int k" using assms(2) unfolding k_def by (intro as_i64_small) simp
  moreover have "i64_checked (int k + off) = Some (int k + off)"
    using assms(2-4) unfolding k_def [symmetric] i64_checked_def by simp
  ultimately have "stack_value rsp a off data =
      (let max_offset = int (length data) - 8 in
       if int k + off < 0 \<or> max_offset \<le> int k + off then Some None
       else do { bs \<leftarrow> subslice data (nat (int k + off)) (nat (int k + off) + 8); Some (Some (u64_of bs)) })"
    using assms(1) unfolding stack_value_def by (simp only: not_less [symmetric] if_False option.simps Option.bind.simps)
  then show ?thesis
    unfolding k_def [symmetric] Let_def by (auto simp: subslice_def)
qed

lemma stack_value_0:
  "\<exists>v. stack_value rsp a 0 data = Some v \<and>
     (v \<noteq> None \<longrightarrow> rsp \<le> a \<and> unat (a - rsp) + 8 < length data \<and> as_i64 (a - rsp) = int (unat (a - rsp)))"
proof (cases "a < rsp")
  case False
  define i where "i = as_i64 (a - rsp)"
  have i: "i64_checked i = Some i" using as_i64_range by (simp add: i64_checked_def i_def)
  show ?thesis
  proof (cases "i < 0 \<or> int (length data) - 8 \<le> i")
    case True
    then show ?thesis using False i by (simp add: stack_value_def flip: i_def)
  next
    case ok: False
    then have n: "i = int (unat (a - rsp))" unfolding i_def by (intro as_i64_nonneg) simp
    then have c: "unat (a - rsp) + 8 < length data" "nat i + 8 \<le> length data" using ok by linarith+
    have "stack_value rsp a 0 data = Some (Some (u64_of (take 8 (drop (nat i) data))))"
      using False ok i c by (simp add: stack_value_def subslice_def flip: i_def)
    then show ?thesis using False n c(1) by (simp flip: i_def)
  qed
qed (simp add: stack_value_def)

section \<open>The prolog returns\<close>

lemma stack_value_8:
  assumes "rsp \<le> a" "unat (a - rsp) + 8 < length data" "length data < 2 ^ 62"
  shows "\<exists>v. stack_value rsp a 8 data = Some v"
  using assms by (subst stack_value_at) (auto simp: Let_def)

lemma chain_walk_total:
  assumes "length data < 2 ^ 62"
  shows "\<exists>r. chain_walk n p data rsp max_cfa rbp = Some r \<and>
    (\<forall>c s a. r = Some (c, s, a) \<longrightarrow> rsp \<le> c \<and> unat (c - rsp) + 8 < length data \<and> in_modules p a)"
proof (induction n arbitrary: rbp)
  case (Suc n)
  obtain v where v: "stack_value rsp rbp 0 data = Some v"
    "v \<noteq> None \<Longrightarrow> rsp \<le> rbp \<and> unat (rbp - rsp) + 8 < length data"
    using stack_value_0 [of rsp rbp data] by blast
  show ?case
  proof (cases v)
    case None
    then show ?thesis using v by simp
  next
    case (Some saved)
    then obtain w where w: "stack_value rsp rbp 8 data = Some w"
      using v(2) stack_value_8 [OF _ _ assms] by blast
    show ?thesis
    proof (cases w)
      case None
      then show ?thesis using v w Some by simp
    next
      case ret: (Some ret)
      show ?thesis
        using Suc [of saved] v w Some ret by (simp add: in_modules_def)
    qed
  qed
qed simp

lemma scan_stack_total:
  assumes "8 \<le> length data"
  shows "\<exists>r. scan_stack n p data cfa max_cfa f offset = Some r \<and>
    (\<forall>x y. r = Some (x, y) \<longrightarrow> cfa < x \<and> x \<le> max_cfa \<and> in_modules p y)"
proof (induction n arbitrary: f offset)
  case (Suc n)
  show ?case
  proof (cases "length data - 8 < offset")
    case False
    then have "word_at data offset = Some (u64_of (take 8 (drop offset data)))"
      using assms by (simp add: word_at_def subslice_def)
    then show ?thesis using Suc False by (simp add: in_modules_def)
  qed simp
qed simp

text \<open>The stack and its copy lie below the top of the address space, with room for two more copies.\<close>

definition stack_fits :: "u64 \<Rightarrow> byte list \<Rightarrow> bool" where
  "stack_fits rsp data \<longleftrightarrow> unat rsp + 3 * length data + 16 < 2 ^ 64 \<and> length data < 2 ^ 62"

definition regs_ok :: "byte list \<Rightarrow> unwinder \<Rightarrow> bool" where
  "regs_ok data u \<longleftrightarrow> length (un_registers u) = 17 \<and>
     unat (un_registers u ! REG_RSP) \<le> unat (un_rsp u) + 2 * length data"

lemma set_stack_simps [simp]:
  "length (un_registers (set_stack a b u)) = length (un_registers u)" "un_rsp (set_stack a b u) = un_rsp u"
  "un_rip (set_stack a b u) = un_rip u" "un_cache (set_stack a b u) = un_cache u"
  "un_offsets (set_stack a b u) = un_offsets u"
  "REG_RSP < length (un_registers u) \<Longrightarrow> un_registers (set_stack a b u) ! REG_RSP = a"
  "REG_RSP < length (un_registers u) \<Longrightarrow> un_registers (set_stack a b u) ! REG_RBP = b"
  by (simp_all add: set_stack_def REG_RSP_def REG_RBP_def)

lemma prolog_scan_total:
  assumes fit: "stack_fits (un_rsp u) data" and ok: "regs_ok data u" and len: "16 \<le> length data"
    and cfa: "un_rsp u \<le> cfa" "unat max_cfa = unat cfa + length data"
  shows "\<exists>ip u' res'. prolog_scan p data cfa max_cfa u res = Some (ip, u', res') \<and> regs_ok data u' \<and>
    un_rsp u' = un_rsp u \<and> un_rip u' = un_rip u \<and> (\<forall>a. ip = Some a \<longrightarrow> in_modules p a)"
proof (cases "length data - 8 < unat (cfa - un_rsp u)")
  case True
  then show ?thesis using ok by (simp add: prolog_scan_def)
next
  case False
  let ?offset = "unat (cfa - un_rsp u)"
  have w: "word_at data ?offset = Some (u64_of (take 8 (drop ?offset data)))"
    using False len by (simp add: word_at_def subslice_def)
  have "8 \<le> length data" using len by simp
  from scan_stack_total [OF this, of 64 p cfa max_cfa "u64_of (take 8 (drop ?offset data))" "?offset + 8"]
  obtain r where r: "scan_stack 64 p data cfa max_cfa (u64_of (take 8 (drop ?offset data))) (?offset + 8) = Some r"
    "\<forall>x y. r = Some (x, y) \<longrightarrow> cfa < x \<and> x \<le> max_cfa \<and> in_modules p y" by blast
  have cfa_le: "unat cfa \<le> unat (un_rsp u) + length data"
    using False cfa(1) len by (simp add: unat_sub)
  show ?thesis
  proof (cases r)
    case None
    then show ?thesis using False w r(1) ok by (simp add: prolog_scan_def Let_def regs_ok_def)
  next
    case (Some xy)
    obtain x y where xy: "xy = (x, y)" by (cases xy)
    then have "unat x \<le> unat (un_rsp u) + 2 * length data" "in_modules p y"
      using r(2) Some cfa(2) cfa_le by (simp_all add: word_le_nat_alt)
    then show ?thesis
      using False w r(1) ok Some xy
      by (simp add: prolog_scan_def Let_def regs_ok_def REG_RSP_def REG_RBP_def set_stack_def)
  qed
qed

lemma prolog_total:
  assumes fit: "stack_fits (un_rsp u) data" and ok: "regs_ok data u"
  shows "\<exists>ip u' res'. unwind_prolog p data u res = Some (ip, u', res') \<and> regs_ok data u' \<and>
    un_rsp u' = un_rsp u \<and> un_rip u' = un_rip u \<and> (\<forall>a. ip = Some a \<longrightarrow> in_modules p a)"
proof -
  define cfa rbp where "cfa = un_registers u ! REG_RSP" and "rbp = un_registers u ! REG_RBP"
  have at: "at (un_registers u) REG_RSP = Some cfa" "at (un_registers u) REG_RBP = Some rbp"
    using ok by (simp_all add: regs_ok_def at_def REG_RSP_def REG_RBP_def cfa_def rbp_def)
  show ?thesis
  proof (cases "cfa < un_rsp u \<or> length data < 16")
    case True
    then show ?thesis using at ok by (auto simp: unwind_prolog_def)
  next
    case False
    have n: "unat (of_nat (length data) :: u64) = length data"
      using fit by (intro unat_of_nat_word(3)) (simp add: stack_fits_def)
    have le: "unat cfa \<le> unat (un_rsp u) + 2 * length data"
      using ok by (simp add: regs_ok_def cfa_def)
    then have fits: "unat cfa + unat (of_nat (length data) :: u64) < 2 ^ 64"
      using fit unfolding n stack_fits_def by linarith
    define max_cfa where "max_cfa = cfa + of_nat (length data)"
    have max: "add64 cfa (of_nat (length data)) = Some max_cfa" "unat max_cfa = unat cfa + length data"
      using add64_ok [OF fits] unat_add64 [OF fits] n by (simp_all add: max_cfa_def)
    obtain r where r: "chain_walk 16 p data (un_rsp u) max_cfa rbp = Some r"
      "\<forall>c s a. r = Some (c, s, a) \<longrightarrow> un_rsp u \<le> c \<and> unat (c - un_rsp u) + 8 < length data \<and> in_modules p a"
      using chain_walk_total fit unfolding stack_fits_def by blast
    have head: "unwind_prolog p data u res = (case r of
          Some (chain_rbp, saved_rbp, ret_addr) \<Rightarrow> do {
            new_rsp \<leftarrow> add64 chain_rbp 16; Ret (Some ret_addr, set_stack new_rsp saved_rbp u, res) }
        | None \<Rightarrow> prolog_scan p data cfa max_cfa u res)"
      using False at max(1) r(1) by (simp add: unwind_prolog_def)
    show ?thesis
    proof (cases r)
      case None
      then show ?thesis
        using prolog_scan_total [OF fit ok _ _ max(2)] False unfolding head by (simp add: not_less)
    next
      case (Some x)
      obtain c s a where x: "x = (c, s, a)" by (cases x)
      have c: "un_rsp u \<le> c" "unat (c - un_rsp u) + 8 < length data" "in_modules p a"
        using r(2) Some x by simp_all
      have "unat c = unat (c - un_rsp u) + unat (un_rsp u)" using c(1) by (simp add: unat_sub word_le_nat_alt)
      then have c2: "unat c + unat (16 :: u64) < 2 ^ 64" "unat c + 16 \<le> unat (un_rsp u) + 2 * length data"
        using c(2) fit False unfolding stack_fits_def by simp_all
      then show ?thesis
        using Some x ok c(3) add64_ok [OF c2(1)] unat_add64 [OF c2(1)] unfolding head
        by (simp add: regs_ok_def REG_RSP_def REG_RBP_def set_stack_def)
    qed
  qed
qed

section \<open>Processes without frame tables\<close>

definition prolog_only :: "unwind_process \<Rightarrow> bool" where
  "prolog_only p \<longleftrightarrow> (\<forall>m \<in> set (up_mods p). um_type m = Prolog)"

lemma up_find_mem: "up_find p ip = Some m \<Longrightarrow> m \<in> set (up_mods p)"
proof -
  assume f: "up_find p ip = Some m"
  then have "0 < length (up_mods p)" by (auto simp: up_find_def)
  moreover have "length (takeWhile (\<lambda>m. um_start m \<le> ip) (up_mods p)) \<le> length (up_mods p)"
    by (rule length_takeWhile_le)
  ultimately have "length (takeWhile (\<lambda>m. um_start m \<le> ip) (up_mods p)) - 1 < length (up_mods p)" by linarith
  then show ?thesis using f by (auto simp: up_find_def Let_def split: if_splits)
qed

lemma next_prolog:
  assumes "prolog_only p" "up_find p (un_rip u) = Some m" "stack_fits (un_rsp u) data" "regs_ok data u"
  shows "\<exists>ip u' res'. unwind_next access p data m u res = Some (ip, u', res') \<and> regs_ok data u' \<and> un_rsp u' = un_rsp u \<and>
    unwind_prolog p data u res = Some (ip, u'\<lparr>un_rip := un_rip u\<rparr>, res')"
proof -
  have "um_type m = Prolog" using assms(1) up_find_mem [OF assms(2)] by (simp add: prolog_only_def)
  then have f: "unwind_frame access p data m u res = unwind_prolog p data u res" by (simp add: unwind_frame_def)
  obtain ip u1 res1 where p1: "unwind_prolog p data u res = Some (ip, u1, res1)" "regs_ok data u1"
    "un_rsp u1 = un_rsp u" "un_rip u1 = un_rip u" "\<forall>a. ip = Some a \<longrightarrow> in_modules p a"
    using prolog_total [OF assms(3,4)] by blast
  have at: "\<exists>a b. at (un_registers u) REG_RSP = Some a \<and> at (un_registers u) REG_RBP = Some b"
    using assms(4) by (simp add: regs_ok_def at_def REG_RSP_def REG_RBP_def)
  show ?thesis
  proof (cases ip)
    case None
    have "u1\<lparr>un_rip := un_rip u\<rparr> = u1" using p1(4) by simp
    then show ?thesis using at p1 f None by (auto simp: unwind_next_def)
  next
    case (Some a)
    have "up_find p a \<noteq> None" using p1(5) Some by (simp add: in_modules_def)
    then have "unwind_next access p data m u res = Some (Some a, u1\<lparr>un_rip := a\<rparr>, res1)"
      using at p1(1) f Some by (auto simp: unwind_next_def recover_ip_def)
    moreover have "u1\<lparr>un_rip := a, un_rip := un_rip u\<rparr> = u1" using p1(4) by simp
    ultimately show ?thesis using p1 Some
      by (intro exI [of _ "Some a"] exI [of _ "u1\<lparr>un_rip := a\<rparr>"] exI [of _ res1]) (simp add: regs_ok_def)
  qed
qed

lemma loop_returns:
  assumes "prolog_only p" "stack_fits (un_rsp u) data" "regs_ok data u"
  shows "\<exists>r. unwind_loop access p data u frames res = Some r"
  using assms
proof (induction access p data u frames res rule: unwind_loop.induct)
  case (1 access p data u frames res)
  show ?case
  proof (cases "up_find p (un_rip u)")
    case None
    then show ?thesis by (subst unwind_loop.simps) (simp del: split_paired_Ex)
  next
    case (Some m)
    obtain ip u1 res1 where n: "unwind_next access p data m u res = Some (ip, u1, res1)" "regs_ok data u1"
      "un_rsp u1 = un_rsp u"
      using next_prolog [OF "1.prems"(1) Some "1.prems"(2,3)] by blast
    show ?thesis
    proof (cases ip)
      case None
      then show ?thesis using Some n by (subst unwind_loop.simps) simp
    next
      case ip: (Some a)
      let ?res = "res1\<lparr>ur_frames_pushed := ur_frames_pushed res1 + 1\<rparr>"
      show ?thesis
      proof (cases "128 < ur_frames_pushed ?res \<or> a = 0")
        case True
        then show ?thesis using Some n ip by (subst unwind_loop.simps) (simp add: Let_def del: split_paired_Ex)
      next
        case False
        then have "\<exists>r. unwind_loop access p data u1 (frames @ [a]) ?res = Some r"
          using "1.IH" [OF Some n(1) _ _ refl refl _] ip n(2,3) "1.prems" by simp
        then show ?thesis using Some n ip False by (subst unwind_loop.simps) (simp add: Let_def)
      qed
    qed
  qed
qed

section \<open>The chain of frame pointers\<close>

text \<open>A stack on which functions push the frame pointer: at each frame pointer the saved one and, above it,
  a return address in a module.\<close>

fun fp_chain :: "unwind_process \<Rightarrow> u64 \<Rightarrow> byte list \<Rightarrow> u64 \<Rightarrow> u64 list \<Rightarrow> bool" where
  "fp_chain p rsp data rbp [] = True"
| "fp_chain p rsp data rbp (ret # rets) \<longleftrightarrow> ret \<noteq> 0 \<and> in_modules p ret \<and>
     stack_value rsp rbp 8 data = Some (Some ret) \<and>
     (\<exists>saved. stack_value rsp rbp 0 data = Some (Some saved) \<and> fp_chain p rsp data saved rets)"

lemma chain_walk_head:
  assumes "stack_value rsp rbp 0 data = Some (Some saved)" "stack_value rsp rbp 8 data = Some (Some ret)" "in_modules p ret"
  shows "chain_walk 16 p data rsp max_cfa rbp = Some (Some (rbp, saved, ret))"
  using assms by (simp add: in_modules_def numeral_eq_Suc)

text \<open>One link: the prolog returns its address, and the next frame pointer is the saved one, unless the
  stack pointer of the frame is out of the copy already.\<close>

definition above_rsp :: "unwinder \<Rightarrow> bool" where
  "above_rsp u \<longleftrightarrow> un_rsp u \<le> un_registers u ! REG_RSP"

lemma prolog_link:
  assumes fit: "stack_fits (un_rsp u) data" and ok: "regs_ok data u" and len: "16 \<le> length data" and above: "above_rsp u"
    and chain: "fp_chain p (un_rsp u) data (un_registers u ! REG_RBP) (ret # rets)"
    and run: "unwind_prolog p data u res = Some (ip, u', res')"
  shows "ip = Some ret \<and> above_rsp u' \<and> fp_chain p (un_rsp u) data (un_registers u' ! REG_RBP) rets"
proof -
  define cfa rbp where "cfa = un_registers u ! REG_RSP" and "rbp = un_registers u ! REG_RBP"
  have at: "at (un_registers u) REG_RSP = Some cfa" "at (un_registers u) REG_RBP = Some rbp"
    using ok by (simp_all add: regs_ok_def at_def REG_RSP_def REG_RBP_def cfa_def rbp_def)
  obtain saved where s: "stack_value (un_rsp u) rbp 0 data = Some (Some saved)"
    "fp_chain p (un_rsp u) data saved rets" "stack_value (un_rsp u) rbp 8 data = Some (Some ret)" "in_modules p ret"
    using chain by (auto simp: rbp_def)
  note w = chain_walk_head [OF s(1,3,4)]
  have "\<not> (cfa < un_rsp u \<or> length data < 16)" using above len by (simp add: above_rsp_def cfa_def)
  then obtain max_cfa new_rsp where m: "add64 cfa (of_nat (length data)) = Some max_cfa" "add64 rbp 16 = Some new_rsp"
    "ip = Some ret" "u' = set_stack new_rsp saved u"
    using run at w by (auto simp: unwind_prolog_def Option.bind_eq_Some_conv)
  have "un_rsp u \<le> rbp" using stack_value_0 [of "un_rsp u" rbp data] s(1) by auto
  then have "un_rsp u \<le> new_rsp" using add64_SomeD [OF m(2)] unfolding word_le_nat_alt by linarith
  then have "above_rsp u'"
    using ok unfolding above_rsp_def m(4) by (simp add: regs_ok_def REG_RSP_def REG_RBP_def set_stack_def)
  moreover have "un_registers u' ! REG_RBP = saved"
    using ok unfolding m(4) by (simp add: regs_ok_def REG_RSP_def REG_RBP_def set_stack_def)
  ultimately show ?thesis using m(3) s(2) by simp
qed

lemma loop_follows_chain:
  assumes "prolog_only p" "stack_fits (un_rsp u) data" "regs_ok data u" "16 \<le> length data" "above_rsp u"
    "fp_chain p (un_rsp u) data (un_registers u ! REG_RBP) rets"
    "loop_frames p base rip u frames res xs" "in_modules p (un_rip u)" "length xs + length rets < 128"
    "unwind_loop access p data u frames res = Some (u', frames', res')"
  shows "\<exists>more. frames' = base @ rip # xs @ rets @ more"
  using assms
proof (induction rets arbitrary: u frames res xs)
  case Nil
  then show ?case
    using loop_adds_frames [OF Nil.prems(10,7)] by (auto simp: end_frames_def)
next
  case (Cons ret rets)
  obtain m where m: "up_find p (un_rip u) = Some m" using Cons.prems(8) by (auto simp: in_modules_def)
  obtain ip u1 res1 where n: "unwind_next access p data m u res = Some (ip, u1, res1)" "regs_ok data u1"
    "un_rsp u1 = un_rsp u" "unwind_prolog p data u res = Some (ip, u1\<lparr>un_rip := un_rip u\<rparr>, res1)"
    using next_prolog [OF Cons.prems(1) m Cons.prems(2,3)] by blast
  have link: "ip = Some ret" "above_rsp u1" "fp_chain p (un_rsp u) data (un_registers u1 ! REG_RBP) rets"
    using prolog_link [OF Cons.prems(2-6) n(4)] by (simp_all add: above_rsp_def)
  note st = loop_frames_step [OF Cons.prems(7) m n(1)]
  let ?res = "res1\<lparr>ur_frames_pushed := ur_frames_pushed res1 + 1\<rparr>"
  have rip: "un_rip u1 = ret" using st(3) link(1) .
  have lf: "loop_frames p base rip u1 (frames @ [ret]) ?res (xs @ [ret])"
    using Cons.prems(7,9) st(1,2) rip by (auto simp: loop_frames_def)
  have "ret \<noteq> 0" "in_modules p ret" using Cons.prems(6) by simp_all
  moreover have "\<not> 128 < ur_frames_pushed ?res" using st(2) Cons.prems(9) by simp
  ultimately have "unwind_loop access p data u1 (frames @ [ret]) ?res = Some (u', frames', res')"
    using Cons.prems(10) m n(1) link(1) by (subst (asm) unwind_loop.simps) (simp add: Let_def)
  from Cons.IH [OF Cons.prems(1) _ n(2) Cons.prems(4) link(2) _ lf _ _ this] show ?case
    using Cons.prems(2,9) n(3) link(3) rip \<open>in_modules p ret\<close> by simp
qed

text \<open>C16. Unwinding a process whose modules have no frame tables returns, whatever is on the stack, and a
  chain of frame pointers is followed to its end: when every function has pushed its frame pointer and every
  return address lies in a module, the frames are the sampled address and the return addresses in order,
  for chains of up to 127 frames.\<close>

theorem frame_pointers_followed:
  assumes "m pid = Some p" "prolog_only p" "stack_fits rsp data" "16 \<le> length data"
    and "in_modules (up_sort p) rip" "fp_chain (up_sort p) rsp data rbp rets" "length rets < 128"
  shows "\<exists>res u' m' more. unwind_process_frames pid access rip rbp rsp data frames u m =
    Some (res, frames @ rip # rets @ more, u', m')"
proof -
  let ?u = "unwinder_reset rip rbp rsp u" and ?res = "unwind_result_new\<lparr>ur_frames_pushed := 1\<rparr>"
  have only: "prolog_only (up_sort p)" using assms(2) by (simp add: prolog_only_def up_sort_def)
  have regs: "un_registers ?u ! REG_RSP = rsp" "un_registers ?u ! REG_RBP = rbp" "un_rsp ?u = rsp" "un_rip ?u = rip"
    "length (un_registers ?u) = 17"
    by (simp_all add: unwinder_reset_def REG_RA_def REG_RSP_def REG_RBP_def)
  have ok: "regs_ok data ?u" "above_rsp ?u" using regs by (simp_all add: regs_ok_def above_rsp_def)
  have fit: "stack_fits (un_rsp ?u) data" using assms(3) regs by simp
  obtain u' frames' res' where r: "unwind_loop access (up_sort p) data ?u (frames @ [rip]) ?res = Some (u', frames', res')"
    using loop_returns [OF only fit ok(1)] by (metis prod_cases3)
  have "loop_frames (up_sort p) frames rip ?u (frames @ [rip]) ?res []"
    by (simp add: loop_frames_def regs)
  from loop_follows_chain [OF only fit ok(1) assms(4) ok(2) _ this _ _ r] obtain more
    where "frames' = frames @ rip # [] @ rets @ more"
    using assms(5-7) regs by auto
  then show ?thesis using assms(1) r by (simp add: unwind_process_frames_def Let_def)
qed

lemma unwinder_reset_rip [simp]: "un_rip (unwinder_reset rip rbp rsp u) = rip"
  by (simp add: unwinder_reset_def)

lemma loop_outside:
  "up_find p (un_rip u) = None \<Longrightarrow> unwind_loop access p data u frames res = Some (unwind_finish u frames res)"
  by (subst unwind_loop.simps) simp

text \<open>A sampled stack with one frame: a word, the saved frame pointer, the return address and three more words.\<close>

definition demo_stack :: "byte list" where
  "demo_stack = concat (map u64_bytes [7, 0, 0x400700, 0, 0, 0])"

definition demo_process :: unwind_process where
  "demo_process = up_add_module (um_new_anon 0x400000 0x4FFFFF) up_new"

lemma demo_find: "up_find (up_sort demo_process) ip =
    (if 0x400000 \<le> ip \<and> ip \<le> 0x4FFFFF then Some (um_new_anon 0x400000 0x4FFFFF) else None)"
  by (simp add: demo_process_def up_sort_def up_add_module_def up_new_def up_find_def um_new_anon_def)

lemma demo_stack_words:
  "length demo_stack = 48" "u64_of (take 8 (drop 8 demo_stack)) = 0" "u64_of (take 8 (drop 16 demo_stack)) = 0x400700"
  by (simp_all add: demo_stack_def)

theorem frame_pointers_followed_witness:
  "\<exists>res u' m' more. unwind_process_frames 3 (\<lambda>_. None) 0x400010 0x7008 0x7000 demo_stack [] unwinder_new [3 \<mapsto> demo_process] =
    Some (res, [] @ 0x400010 # [0x400700] @ more, u', m')"
proof (rule frame_pointers_followed [where p = demo_process])
  show "prolog_only demo_process"
    by (simp add: demo_process_def prolog_only_def up_add_module_def up_new_def um_new_anon_def)
  show "stack_fits 0x7000 demo_stack" by (simp add: stack_fits_def demo_stack_words)
  show "fp_chain (up_sort demo_process) 0x7000 demo_stack 0x7008 [0x400700]"
    by (simp add: in_modules_def demo_find stack_value_at Let_def demo_stack_words)
qed (simp_all add: in_modules_def demo_find demo_stack_words)

theorem unwound_frames_in_modules_witness:
  "\<exists>xs. [0x900000] = [] @ (0x900000 :: u64) # xs \<and>
    ur_frames_pushed \<lparr>ur_frames_pushed = 1, ur_error = None\<rparr> = length xs + 1 \<and> length xs < 128 \<and>
    (\<forall>ip \<in> set xs. \<exists>p. [3 \<mapsto> up_sort demo_process] (3 :: u32) = Some p \<and> up_find p ip \<noteq> None)"
proof -
  have "unwind_process_frames 3 (\<lambda>_. None) 0x900000 0 0x7000 demo_stack [] unwinder_new [3 \<mapsto> demo_process] =
    Some (\<lparr>ur_frames_pushed = 1, ur_error = None\<rparr>, [0x900000], unwinder_reset 0x900000 0 0x7000 unwinder_new,
      [3 \<mapsto> up_sort demo_process])"
    using loop_outside [of "up_sort demo_process" "unwinder_reset 0x900000 0 0x7000 unwinder_new"]
    by (simp add: unwind_process_frames_def Let_def demo_find unwinder_reset_rip unwind_finish_def unwind_result_new_def)
  from unwound_frames_in_modules [OF this] show ?thesis .
qed

end
