(* ===== verification/CfiProps.thy ===== *)
theory CfiProps
  imports UnwindProps
begin

text \<open>
  The call frame instructions against the standard: numbers round-trip through LEB128; the rows decoded from
  an encoded program give, at every address, the CFA and the saved registers that executing the program as
  the standard describes gives there; a frame is unwound with them.
\<close>

section \<open>LEB128\<close>

fun uleb :: "nat \<Rightarrow> byte list" where
  "uleb n = (if n < 128 then [of_nat n] else of_nat (n mod 128 + 128) # uleb (n div 128))"

declare uleb.simps [simp del]

function sleb :: "int \<Rightarrow> byte list" where
  "sleb v = (if - 64 \<le> v \<and> v < 64 then [of_int (v mod 128)] else of_int (v mod 128 + 128) # sleb (v div 128))"
  by pat_completeness auto
termination
proof (relation "measure (\<lambda>v. nat \<bar>v\<bar>)", simp)
  fix v :: int
  assume "\<not> (- 64 \<le> v \<and> v < 64)"
  moreover have "128 * (v div 128) + v mod 128 = v" "0 \<le> v mod 128" "v mod 128 < 128" by simp_all
  ultimately have "\<bar>v div 128\<bar> < \<bar>v\<bar>" by arith
  then show "(v div 128, v) \<in> measure (\<lambda>v. nat \<bar>v\<bar>)" by simp
qed

declare sleb.simps [simp del]

lemma unat_byte: "k < 256 \<Longrightarrow> unat (of_nat k :: byte) = k"
  by (simp add: unat_of_nat take_bit_nat_eq_self)

lemma byte_low_bits: "unat (b AND 127 :: byte) = unat b mod 128"
proof -
  have "unat (b AND 127) = unat b AND 127" by (simp add: unsigned_and_eq)
  also have "\<dots> = unat b mod 2 ^ 7" using nat_and_mask [of "unat b" 7] by simp
  finally show ?thesis by simp
qed

lemma byte_bit: "(b :: byte) AND 2 ^ n = 0 \<longleftrightarrow> even (unat b div 2 ^ n)"
proof -
  have "bit b n \<longleftrightarrow> bit (unat b) n" by (simp add: bit_unsigned_iff)
  also have "\<dots> \<longleftrightarrow> odd (unat b div 2 ^ n)" by (rule bit_iff_odd)
  finally show ?thesis unfolding and_exp_eq_0_iff_not_bit by simp
qed

lemma byte_bits:
  "(b :: byte) AND 128 = 0 \<longleftrightarrow> unat b < 128" "(b :: byte) AND 64 = 0 \<longleftrightarrow> even (unat b div 64)"
proof -
  define n where "n = unat b"
  have "n < 256" using unsigned_less [of b] by (simp add: n_def)
  then have "n div 128 = (if n < 128 then 0 else 1)" by (auto intro: div_nat_eqI)
  then have "even (n div 2 ^ 7) \<longleftrightarrow> n < 128" by simp
  moreover have "(128 :: byte) = 2 ^ 7" "(64 :: byte) = 2 ^ 6" "(64 :: nat) = 2 ^ 6" by simp_all
  ultimately show "b AND 128 = 0 \<longleftrightarrow> unat b < 128" "b AND 64 = 0 \<longleftrightarrow> even (unat b div 64)"
    by (simp_all only: byte_bit n_def)
qed

lemma ucast_low_bits: "ucast (b AND 127 :: byte) = (of_nat (unat b mod 128) :: u64)"
proof -
  have "ucast (b AND 127) = (of_nat (unat (b AND 127)) :: u64)" by simp
  then show ?thesis by (simp only: byte_low_bits)
qed

text \<open>Joining further bits to a number below a power of two adds them.\<close>

lemma unat_le_bit: "bit (w :: u64) n \<Longrightarrow> 2 ^ n \<le> unat w"
proof -
  assume "bit w n"
  then have "bit (unat w) n" by (simp add: bit_unsigned_iff)
  then have "odd (unat w div 2 ^ n)" using bit_iff_odd [of "unat w" n] by blast
  from odd_pos [OF this] show "2 ^ n \<le> unat w" by (simp only: div_greater_zero_iff)
qed

lemma or_push_bit:
  assumes "unat (v :: u64) < 2 ^ s"
  shows "v OR push_bit s w = v + push_bit s w"
proof (rule disjunctive_add [symmetric])
  fix n
  show "\<not> bit v n \<or> \<not> bit (push_bit s w) n"
  proof (cases "n < s")
    case False
    then have "unat v < 2 ^ n" using assms by (meson le_less_trans less_le_trans not_less one_le_numeral power_increasing)
    then show ?thesis using unat_le_bit [of v n] by auto
  qed (simp add: bit_push_bit_iff)
qed

lemma unat_push: "unat (v :: u64) + 2 ^ s * k < 2 ^ 64 \<Longrightarrow> unat v < 2 ^ s \<Longrightarrow>
    unat (v OR push_bit s (of_nat k)) = unat v + 2 ^ s * k"
proof -
  assume a: "unat v + 2 ^ s * k < 2 ^ 64" "unat v < 2 ^ s"
  have "push_bit s (of_nat k) = (of_nat (2 ^ s * k) :: u64)" by (simp add: push_bit_eq_mult mult.commute)
  moreover have "unat (of_nat (2 ^ s * k) :: u64) = 2 ^ s * k"
    using a(1) by (intro unat_of_nat_word(3)) simp
  ultimately show ?thesis
    using a(1) unfolding or_push_bit [OF a(2)] by (subst unat_add64) simp_all
qed

lemma seven_more_bits: "a < 2 ^ s \<Longrightarrow> k < 128 \<Longrightarrow> a + 2 ^ s * k < (2 ^ (s + 7) :: nat)"
proof -
  assume a: "a < 2 ^ s" "k < 128"
  then have "a + 2 ^ s * k < 2 ^ s * (k + 1)" by simp
  also have "\<dots> \<le> 2 ^ s * 128" using a(2) by (intro mult_le_mono2) simp
  finally show ?thesis by (simp add: power_add)
qed

lemma uleb_small: "n < 128 \<Longrightarrow> uleb n = [of_nat n]"
  by (subst uleb.simps) simp

lemma uleb_large: "128 \<le> n \<Longrightarrow> uleb n = of_nat (n mod 128 + 128) # uleb (n div 128)"
  by (subst uleb.simps) simp

lemma uleb_loop_encoded:
  assumes "unat v < 2 ^ s" "unat v + 2 ^ s * n < 2 ^ 64" "s < 64"
  shows "\<exists>w. uleb_loop (uleb n @ rest) pos s v = Some (w, pos + length (uleb n)) \<and> unat w = unat v + 2 ^ s * n"
  using assms
proof (induction n arbitrary: v s pos rule: less_induct)
  case (less n)
  show ?case
  proof (cases "n < 128")
    case True
    have "unat (of_nat n :: byte) = n" using True by (intro unat_byte) simp
    moreover have "(of_nat n :: byte) AND 128 = 0" unfolding byte_bits using calculation True by simp
    ultimately show ?thesis
      using True less.prems unat_push [OF less.prems(2,1)]
      by (simp add: uleb_small Let_def ucast_low_bits)
  next
    case False
    define b :: byte where "b = of_nat (n mod 128 + 128)"
    have ub: "unat b = n mod 128 + 128" unfolding b_def by (intro unat_byte) simp
    then have hi: "b AND 128 \<noteq> 0" unfolding byte_bits by simp
    have low: "ucast (b AND 127) = (of_nat (n mod 128) :: u64)" unfolding ucast_low_bits ub by simp
    define v' where "v' = v OR push_bit s (of_nat (n mod 128))"
    have split: "2 ^ s * n = 2 ^ s * (n mod 128) + 2 ^ (s + 7) * (n div 128)"
    proof -
      have "2 ^ s * n = 2 ^ s * (n mod 128 + 128 * (n div 128))" by (simp only: mod_mult_div_eq)
      then show ?thesis by (simp only: distrib_left power_add) simp
    qed
    have v': "unat v' = unat v + 2 ^ s * (n mod 128)"
      unfolding v'_def using less.prems split by (intro unat_push) simp_all
    have b1: "unat v' < 2 ^ (s + 7)" unfolding v' using less.prems(1) by (intro seven_more_bits) simp_all
    have "1 \<le> n div 128" using False by simp
    then have "2 ^ (s + 7) * 1 \<le> 2 ^ (s + 7) * (n div 128)" by (rule mult_le_mono2)
    then have "2 ^ (s + 7) < (2 ^ 64 :: nat)" using less.prems(2) split by linarith
    then have s7: "s + 7 < 64" by (rule power_less_imp_less_exp [rotated]) simp
    have b2: "unat v' + 2 ^ (s + 7) * (n div 128) < 2 ^ 64" using v' split less.prems(2) by simp
    have "n div 128 < n" using False by simp
    from less.IH [OF this b1 b2 s7, of "pos + 1"] obtain w
      where w: "uleb_loop (uleb (n div 128) @ rest) (pos + 1) (s + 7) v' = Some (w, pos + 1 + length (uleb (n div 128)))"
        "unat w = unat v' + 2 ^ (s + 7) * (n div 128)" by blast
    have enc: "uleb n = b # uleb (n div 128)" using False by (simp add: uleb_large b_def)
    have "uleb_loop (uleb n @ rest) pos s v = uleb_loop (uleb (n div 128) @ rest) (pos + 1) (s + 7) v'"
      using less.prems(3) hi low by (simp add: enc v'_def Let_def)
    then show ?thesis using w v' split by (simp add: enc)
  qed
qed

lemma read_uleb_encoded:
  assumes "n < 2 ^ 63"
  shows "read_uleb (pre @ uleb n @ rest) (length pre) = Some (int n, length pre + length (uleb n))"
proof -
  have "unat (0 :: u64) + 2 ^ 0 * n < 2 ^ 64" using assms by simp
  then obtain w where w: "uleb_loop (uleb n @ rest) (length pre) 0 0 = Some (w, length pre + length (uleb n))" "unat w = n"
    using uleb_loop_encoded [of 0 0 n rest "length pre"] by auto
  then have "as_i64 w = int n" using as_i64_small [of w] assms by simp
  then show ?thesis using w(1) by (simp add: read_uleb_def)
qed

text \<open>Signed numbers. A word stands for an integer modulo \<open>2 ^ 64\<close>.\<close>

lemma sleb_small: "- 64 \<le> v \<Longrightarrow> v < 64 \<Longrightarrow> sleb v = [of_int (v mod 128)]"
  by (subst sleb.simps) simp

lemma sleb_large: "\<not> (- 64 \<le> v \<and> v < 64) \<Longrightarrow> sleb v = of_int (v mod 128 + 128) # sleb (v div 128)"
  by (subst sleb.simps) simp

lemma unat_byte_int: "0 \<le> k \<Longrightarrow> k < 256 \<Longrightarrow> unat (of_int k :: byte) = nat k"
proof -
  assume k: "0 \<le> k" "k < 256"
  then have "(of_int k :: byte) = of_nat (nat k)" by simp
  moreover have "nat k < 256" using k by simp
  ultimately show ?thesis using unat_byte by metis
qed

lemma push_of_int: "push_bit s (of_int x :: u64) = of_int (2 ^ s * x)"
  by (simp add: push_bit_eq_mult mult.commute)

text \<open>A byte of a signed number, whose low bits are \<open>v mod 128\<close>, joined to the bits before.\<close>

lemma sleb_byte:
  assumes "unat (acc :: u64) < 2 ^ s" "s + 7 < 64" "unat b mod 128 = nat (v mod 128)"
  shows "acc OR push_bit s (ucast (b AND 127 :: byte)) = acc + of_int (2 ^ s * (v mod 128))"
    "unat (acc + of_int (2 ^ s * (v mod 128))) < 2 ^ (s + 7)"
proof -
  define k where "k = nat (v mod 128)"
  have k: "k < 128" "int k = v mod 128" by (simp_all add: k_def nat_less_iff)
  have low: "ucast (b AND 127) = (of_nat k :: u64)" unfolding ucast_low_bits assms(3) k_def ..
  have lt: "unat acc + 2 ^ s * k < 2 ^ (s + 7)" using assms(1) k(1) by (rule seven_more_bits)
  also have "\<dots> < (2 ^ 64 :: nat)" using assms(2) by (intro power_strict_increasing) simp_all
  finally have up: "unat (acc OR push_bit s (of_nat k)) = unat acc + 2 ^ s * k"
    using assms(1) by (intro unat_push)
  have "push_bit s (of_nat k) = (of_int (2 ^ s * (v mod 128)) :: u64)"
    using push_of_int [of s "int k"] by (simp only: k(2) [symmetric] of_int_of_nat_eq)
  then have e: "acc OR push_bit s (of_nat k) = acc + of_int (2 ^ s * (v mod 128))"
    using or_push_bit [OF assms(1), of "of_nat k"] by simp
  then show "acc OR push_bit s (ucast (b AND 127)) = acc + of_int (2 ^ s * (v mod 128))" by (simp only: low)
  show "unat (acc + of_int (2 ^ s * (v mod 128))) < 2 ^ (s + 7)" using up lt by (simp only: e)
qed

lemma or_minus_bit:
  assumes "unat (w :: u64) < 2 ^ n"
  shows "w OR (- push_bit n 1) = w + of_int (- (2 ^ n))"
proof -
  have "- push_bit n 1 = push_bit n (- 1 :: u64)" by (simp add: push_bit_eq_mult)
  moreover have "push_bit n (- 1 :: u64) = of_int (- (2 ^ n))" by (simp add: push_bit_eq_mult)
  ultimately show ?thesis using or_push_bit [OF assms, of "- 1"] by simp
qed

lemma sleb_loop_encoded:
  assumes "unat acc < 2 ^ s" "s + 7 * k < 63" "- (2 ^ (7 * k)) \<le> 2 * v" "2 * v < 2 ^ (7 * k)" "0 < k"
  shows "sleb_loop (sleb v @ rest) pos s acc = Some (acc + of_int (2 ^ s * v), pos + length (sleb v))"
  using assms
proof (induction k arbitrary: v acc s pos)
  case (Suc k)
  have s63: "s + 7 < 63" using Suc.prems(2) by simp
  define v' where "v' = v mod 128"
  have r: "0 \<le> v'" "v' < 128" by (simp_all add: v'_def)
  show ?case
  proof (cases "- 64 \<le> v \<and> v < 64")
    case True
    define b :: byte where "b = of_int v'"
    have ub: "unat b = nat v'" unfolding b_def using r by (intro unat_byte_int) simp_all
    have hi: "b AND 128 = 0" unfolding byte_bits ub using r by simp
    have "unat b mod 128 = nat (v mod 128)" using r by (simp add: ub flip: v'_def)
    note x = sleb_byte [OF Suc.prems(1) _ this, folded v'_def]
    have enc: "sleb v = [b]" using True by (simp add: sleb_small b_def v'_def)
    show ?thesis
    proof (cases "v < 0")
      case False
      then have m: "v' = v" using True by (simp add: v'_def)
      then have "b AND 64 = 0" unfolding byte_bits ub using True False by simp
      then show ?thesis using s63 hi x(1) m by (simp add: enc Let_def)
    next
      case neg: True
      have m: "v' = v + 128" unfolding v'_def using True neg by (intro int_mod_pos_eq [of _ _ "- 1"]) simp_all
      have "64 \<le> nat v'" "nat v' < 128" using True neg by (simp_all add: m)
      then have "nat v' div 64 = 1" by (intro div_nat_eqI) simp_all
      then have "b AND 64 \<noteq> 0" unfolding byte_bits ub by simp
      then have "sleb_loop (sleb v @ rest) pos s acc =
          Some ((acc + of_int (2 ^ s * v')) OR (- push_bit (s + 7) 1), pos + 1)"
        using s63 hi x(1) by (simp add: enc Let_def)
      also have "(acc + of_int (2 ^ s * v')) OR (- push_bit (s + 7) 1) =
          acc + (of_int (2 ^ s * v') + of_int (- (2 ^ (s + 7))))"
        using or_minus_bit [OF x(2)] s63 by (simp only: add.assoc)
      also have "(of_int (2 ^ s * v') + of_int (- (2 ^ (s + 7))) :: u64) = of_int (2 ^ s * v' + - (2 ^ (s + 7)))"
        by (simp only: of_int_add)
      also have "2 ^ s * v' + - (2 ^ (s + 7)) = 2 ^ s * v" by (simp add: m algebra_simps power_add)
      finally show ?thesis by (simp add: enc)
    qed
  next
    case False
    define b :: byte where "b = of_int (v' + 128)"
    have ub: "unat b = nat (v' + 128)" unfolding b_def using r by (intro unat_byte_int) simp_all
    have hi: "b AND 128 \<noteq> 0" unfolding byte_bits ub using r by simp
    have "nat (v' + 128) = nat v' + 128" using r by simp
    then have "unat b mod 128 = nat (v mod 128)" using r by (simp add: ub flip: v'_def)
    note x = sleb_byte [OF Suc.prems(1) _ this, folded v'_def]
    have enc: "sleb v = b # sleb (v div 128)" using False by (simp add: sleb_large b_def v'_def)
    have k: "0 < k" using False Suc.prems(3,4) by (cases k) auto
    define P :: int where "P = 2 ^ (7 * k - 1)"
    have "7 * k = Suc (7 * k - 1)" using k by simp
    then have P2: "2 ^ (7 * k) = 2 * P" unfolding P_def by (metis power_Suc)
    have P: "2 ^ (7 * Suc k) = 256 * P" using P2 by (simp add: power_add)
    have dm: "v = 128 * (v div 128) + v'" by (simp add: v'_def)
    have "- (256 * P) \<le> 2 * v" "2 * v < 256 * P" using Suc.prems(3,4) P by simp_all
    then have "- P \<le> v div 128" "v div 128 < P" using dm r by linarith+
    then have q: "- (2 ^ (7 * k)) \<le> 2 * (v div 128)" "2 * (v div 128) < 2 ^ (7 * k)" unfolding P2 by simp_all
    have "sleb_loop (sleb v @ rest) pos s acc =
        sleb_loop (sleb (v div 128) @ rest) (pos + 1) (s + 7) (acc + of_int (2 ^ s * v'))"
      using s63 hi x(1) by (simp add: enc Let_def)
    also have "\<dots> = Some (acc + of_int (2 ^ s * v') + of_int (2 ^ (s + 7) * (v div 128)), pos + 1 + length (sleb (v div 128)))"
      using x(2) s63 Suc.prems(2) k by (intro Suc.IH q) simp_all
    also have "acc + of_int (2 ^ s * v') + of_int (2 ^ (s + 7) * (v div 128)) = acc + of_int (2 ^ s * v' + 2 ^ (s + 7) * (v div 128))"
      by (simp only: of_int_add add.assoc)
    also have "2 ^ s * v' + 2 ^ (s + 7) * (v div 128) = 2 ^ s * (128 * (v div 128) + v')"
      by (simp add: algebra_simps power_add)
    finally show ?thesis unfolding dm [symmetric] by (simp add: enc)
  qed
qed simp

lemma as_i64_of_int:
  assumes "- (2 ^ 63) \<le> v" "v < 2 ^ 63"
  shows "as_i64 (of_int v) = v"
proof -
  have u: "uint (of_int v :: u64) = v mod 2 ^ 64" by (simp only: uint_word_of_int_eq take_bit_eq_mod) simp
  show ?thesis
  proof (cases "v < 0")
    case True
    then have "v mod 2 ^ 64 = v + 2 ^ 64" using assms by (intro int_mod_pos_eq [of _ _ "- 1"]) simp_all
    then show ?thesis using u True assms unfolding as_i64_def sint_u64 by simp
  next
    case False
    then have "v mod 2 ^ 64 = v" using assms by (intro mod_pos_pos_trivial) simp_all
    then show ?thesis using u False assms unfolding as_i64_def sint_u64 by simp
  qed
qed

lemma read_sleb_encoded:
  assumes "- (2 ^ 48) \<le> v" "v < 2 ^ 48"
  shows "read_sleb (pre @ sleb v @ rest) (length pre) = Some (v, length pre + length (sleb v))"
proof -
  have "sleb_loop (sleb v @ rest) (length pre) 0 0 = Some (0 + of_int (2 ^ 0 * v), length pre + length (sleb v))"
    using assms by (intro sleb_loop_encoded [where k = 8]) simp_all
  moreover have "as_i64 (of_int v) = v" using assms by (intro as_i64_of_int) simp_all
  ultimately show ?thesis by (simp add: read_sleb_def)
qed

text \<open>C17. Numbers written in LEB128 are read back, whatever follows them: unsigned ones below \<open>2 ^ 63\<close>, signed
  ones of up to 49 bits, and the cursor is left behind the encoding.\<close>

theorem leb128_roundtrip:
  "(n < 2 ^ 63 \<longrightarrow> read_uleb (pre @ uleb n @ rest) (length pre) = Some (int n, length pre + length (uleb n))) \<and>
   (- (2 ^ 48) \<le> v \<and> v < 2 ^ 48 \<longrightarrow>
     read_sleb (pre @ sleb v @ rest) (length pre) = Some (v, length pre + length (sleb v)))"
  using read_uleb_encoded read_sleb_encoded by blast

theorem leb128_roundtrip_witness:
  "read_uleb ([1] @ uleb 624485 @ [2]) (length [1 :: byte]) = Some (int 624485, length [1 :: byte] + length (uleb 624485)) \<and>
   read_sleb ([1] @ sleb (- 123456) @ [2]) (length [1 :: byte]) =
     Some (- 123456, length [1 :: byte] + length (sleb (- 123456)))"
  using leb128_roundtrip [of 624485 "[1]" "[2]" "- 123456"] by simp

section \<open>Programs of call frame instructions and their standard meaning\<close>

datatype cfi = Nop | Advance nat | Advance1 nat | Advance2 nat | Advance4 nat | DefCfa nat nat |
  DefCfaRegister nat | DefCfaOffset nat | DefCfaSf nat int | DefCfaOffsetSf int | OffsetRule nat nat |
  OffsetExtended nat nat | OffsetExtendedSf nat int | UndefinedRule nat | ArgsSize nat

fun encode_cfi :: "cfi \<Rightarrow> byte list" where
  "encode_cfi Nop = [0]"
| "encode_cfi (Advance d) = [of_nat (0x40 + d)]"
| "encode_cfi (Advance1 d) = [2, of_nat d]"
| "encode_cfi (Advance2 d) = 3 # u16_bytes (of_nat d)"
| "encode_cfi (Advance4 d) = 4 # u32_bytes (of_nat d)"
| "encode_cfi (DefCfa r v) = 12 # uleb r @ uleb v"
| "encode_cfi (DefCfaRegister r) = 13 # uleb r"
| "encode_cfi (DefCfaOffset v) = 14 # uleb v"
| "encode_cfi (DefCfaSf r v) = 18 # uleb r @ sleb v"
| "encode_cfi (DefCfaOffsetSf v) = 19 # sleb v"
| "encode_cfi (OffsetRule r v) = of_nat (0x80 + r) # uleb v"
| "encode_cfi (OffsetExtended r v) = 5 # uleb r @ uleb v"
| "encode_cfi (OffsetExtendedSf r v) = 17 # uleb r @ sleb v"
| "encode_cfi (UndefinedRule r) = 7 # uleb r"
| "encode_cfi (ArgsSize v) = 46 # uleb v"

definition encode_cfis :: "cfi list \<Rightarrow> byte list" where
  "encode_cfis prog = concat (map encode_cfi prog)"

text \<open>A row of the standard's table: the rule for the CFA, and where registers are saved, from the CFA.\<close>

record cfi_row =
  row_cfa_reg :: nat
  row_cfa_off :: int
  row_rules :: "nat \<rightharpoonup> int"

fun cfi_delta :: "cfi \<Rightarrow> nat option" where
  "cfi_delta (Advance d) = Some d"
| "cfi_delta (Advance1 d) = Some d"
| "cfi_delta (Advance2 d) = Some d"
| "cfi_delta (Advance4 d) = Some d"
| "cfi_delta i = None"

fun cfi_step :: "int \<Rightarrow> cfi \<Rightarrow> cfi_row \<Rightarrow> cfi_row" where
  "cfi_step da (DefCfa r v) row = row\<lparr>row_cfa_reg := r, row_cfa_off := int v\<rparr>"
| "cfi_step da (DefCfaRegister r) row = row\<lparr>row_cfa_reg := r\<rparr>"
| "cfi_step da (DefCfaOffset v) row = row\<lparr>row_cfa_off := int v\<rparr>"
| "cfi_step da (DefCfaSf r v) row = row\<lparr>row_cfa_reg := r, row_cfa_off := v * da\<rparr>"
| "cfi_step da (DefCfaOffsetSf v) row = row\<lparr>row_cfa_off := v * da\<rparr>"
| "cfi_step da (OffsetRule r v) row = row\<lparr>row_rules := (row_rules row)(r \<mapsto> int v * da)\<rparr>"
| "cfi_step da (OffsetExtended r v) row = row\<lparr>row_rules := (row_rules row)(r \<mapsto> int v * da)\<rparr>"
| "cfi_step da (OffsetExtendedSf r v) row = row\<lparr>row_rules := (row_rules row)(r \<mapsto> v * da)\<rparr>"
| "cfi_step da (UndefinedRule r) row = row\<lparr>row_rules := (row_rules row)(r := None)\<rparr>"
| "cfi_step da i row = row"

text \<open>The row at an address: the instructions are executed up to the one that would pass it.\<close>

fun row_at :: "int \<Rightarrow> int \<Rightarrow> int \<Rightarrow> cfi list \<Rightarrow> int \<Rightarrow> cfi_row \<Rightarrow> cfi_row" where
  "row_at ca da target [] loc row = row"
| "row_at ca da target (i # prog) loc row =
     (case cfi_delta i of
        Some d \<Rightarrow> if target < loc + int d * ca then row else row_at ca da target prog (loc + int d * ca) row
      | None \<Rightarrow> row_at ca da target prog loc (cfi_step da i row))"

text \<open>Instructions whose numbers fit the fields and the row of the code.\<close>

definition fits16 :: "int \<Rightarrow> bool" where
  "fits16 v \<longleftrightarrow> - 32768 \<le> v \<and> v \<le> 32767"

fun cfi_ok :: "int \<Rightarrow> cfi \<Rightarrow> bool" where
  "cfi_ok da Nop \<longleftrightarrow> True"
| "cfi_ok da (Advance d) \<longleftrightarrow> d < 64"
| "cfi_ok da (Advance1 d) \<longleftrightarrow> d < 256"
| "cfi_ok da (Advance2 d) \<longleftrightarrow> d < 2 ^ 16"
| "cfi_ok da (Advance4 d) \<longleftrightarrow> d < 2 ^ 32"
| "cfi_ok da (DefCfa r v) \<longleftrightarrow> r < 256 \<and> fits16 (int v)"
| "cfi_ok da (DefCfaRegister r) \<longleftrightarrow> r < 256"
| "cfi_ok da (DefCfaOffset v) \<longleftrightarrow> fits16 (int v)"
| "cfi_ok da (DefCfaSf r v) \<longleftrightarrow> r < 256 \<and> fits16 v \<and> fits16 (v * da)"
| "cfi_ok da (DefCfaOffsetSf v) \<longleftrightarrow> fits16 v \<and> fits16 (v * da)"
| "cfi_ok da (OffsetRule r v) \<longleftrightarrow> r < 64 \<and> fits16 (int v) \<and> fits16 (int v * da)"
| "cfi_ok da (OffsetExtended r v) \<longleftrightarrow> r < 256 \<and> fits16 (int v) \<and> fits16 (int v * da)"
| "cfi_ok da (OffsetExtendedSf r v) \<longleftrightarrow> r < 256 \<and> fits16 v \<and> fits16 (v * da)"
| "cfi_ok da (UndefinedRule r) \<longleftrightarrow> r < 256"
| "cfi_ok da (ArgsSize v) \<longleftrightarrow> v < 2 ^ 63"

section \<open>Decoding one instruction\<close>

definition add_rule :: "nat \<Rightarrow> int \<Rightarrow> byte \<Rightarrow> frame_state \<Rightarrow> frame_state" where
  "add_rule r v t fs = fs\<lparr>fs_reg_states := fs_reg_states fs @ [\<lparr>rg_reg = of_nat r, rg_type = t, rg_val = v\<rparr>]\<rparr>"

text \<open>What an instruction that stays at its location does to the row in the making.\<close>

fun cfi_frame :: "int \<Rightarrow> cfi \<Rightarrow> frame_state \<Rightarrow> frame_state" where
  "cfi_frame da (DefCfa r v) fs = fs\<lparr>fs_cfa_reg := of_nat r, fs_cfa_off := int v\<rparr>"
| "cfi_frame da (DefCfaRegister r) fs = fs\<lparr>fs_cfa_reg := of_nat r\<rparr>"
| "cfi_frame da (DefCfaOffset v) fs = fs\<lparr>fs_cfa_off := int v\<rparr>"
| "cfi_frame da (DefCfaSf r v) fs = fs\<lparr>fs_cfa_reg := of_nat r, fs_cfa_off := v * da\<rparr>"
| "cfi_frame da (DefCfaOffsetSf v) fs = fs\<lparr>fs_cfa_off := v * da\<rparr>"
| "cfi_frame da (OffsetRule r v) fs = add_rule r (int v * da) VALUE_TYPE_OFFSET fs"
| "cfi_frame da (OffsetExtended r v) fs = add_rule r (int v * da) VALUE_TYPE_OFFSET fs"
| "cfi_frame da (OffsetExtendedSf r v) fs = add_rule r (v * da) VALUE_TYPE_OFFSET fs"
| "cfi_frame da (UndefinedRule r) fs = add_rule r 0 VALUE_TYPE_UNDEFINED fs"
| "cfi_frame da i fs = fs"

lemma uleb_at:
  assumes "drop c sl = uleb n @ rest" "n < 2 ^ 63"
  shows "read_uleb sl c = Some (int n, c + length (uleb n)) \<and> drop (c + length (uleb n)) sl = rest"
proof -
  have "read_uleb (take c sl @ uleb n @ rest) (length (take c sl)) =
      Some (int n, length (take c sl) + length (uleb n))" using assms(2) by (rule read_uleb_encoded)
  moreover have "c \<le> length sl"
    using assms(1) by (cases "c \<le> length sl") (auto simp: uleb.simps [of n] split: if_splits)
  ultimately have "read_uleb sl c = Some (int n, c + length (uleb n))"
    using append_take_drop_id [of c sl] unfolding assms(1) by (simp add: min_absorb2)
  moreover have "drop (c + length (uleb n)) sl = drop (length (uleb n)) (drop c sl)" by (simp add: add.commute)
  ultimately show ?thesis using assms(1) by simp
qed

lemma sleb_at:
  assumes "drop c sl = sleb v @ rest" "- (2 ^ 48) \<le> v" "v < 2 ^ 48"
  shows "read_sleb sl c = Some (v, c + length (sleb v)) \<and> drop (c + length (sleb v)) sl = rest"
proof -
  have "read_sleb (take c sl @ sleb v @ rest) (length (take c sl)) =
      Some (v, length (take c sl) + length (sleb v))" using assms(2,3) by (rule read_sleb_encoded)
  moreover have "c \<le> length sl"
    using assms(1) by (cases "c \<le> length sl") (auto simp: sleb.simps [of v] split: if_splits)
  ultimately have "read_sleb sl c = Some (v, c + length (sleb v))"
    using append_take_drop_id [of c sl] unfolding assms(1) by (simp add: min_absorb2)
  moreover have "drop (c + length (sleb v)) sl = drop (length (sleb v)) (drop c sl)" by (simp add: add.commute)
  ultimately show ?thesis using assms(1) by simp
qed

lemma byte_at:
  assumes "drop c sl = b # rest"
  shows "read_byte sl c = Some (b, Suc c) \<and> drop (Suc c) sl = rest"
proof -
  have "c < length sl" using assms by (metis drop_all list.distinct(1) not_less)
  moreover have "sl ! c = b" using assms calculation by (metis Cons_nth_drop_Suc list.inject)
  moreover have "drop (Suc c) sl = rest" using assms calculation by (metis Cons_nth_drop_Suc list.inject)
  ultimately show ?thesis by (simp add: read_byte_def at_def)
qed

lemma bytes_at:
  assumes "drop c sl = bs @ rest" "bs \<noteq> []"
  shows "subslice sl c (c + length bs) = Some bs \<and> drop (c + length bs) sl = rest"
proof -
  have "length sl - c = length bs + length rest" using assms(1) by (metis length_append length_drop)
  then have "c + length bs \<le> length sl" using assms(2) by (cases bs) simp_all
  moreover have "drop (c + length bs) sl = drop (length bs) (drop c sl)" by (simp add: add.commute)
  ultimately show ?thesis using assms(1) by (simp add: subslice_def)
qed

lemma u16_at:
  assumes "drop c sl = u16_bytes w @ rest"
  shows "take_u16 sl c = Some (w, c + 2) \<and> drop (c + 2) sl = rest"
proof -
  have "u16_bytes w \<noteq> []" using length_word_bytes(1) [of w] by (cases "u16_bytes w") auto
  from bytes_at [OF assms this] show ?thesis by (simp add: take_u16_def)
qed

lemma u32_at:
  assumes "drop c sl = u32_bytes w @ rest"
  shows "take_u32 sl c = Some (w, c + 4) \<and> drop (c + 4) sl = rest"
proof -
  have "u32_bytes w \<noteq> []" using length_word_bytes(2) [of w] by (cases "u32_bytes w") auto
  from bytes_at [OF assms this] show ?thesis by (simp add: take_u32_def)
qed

lemma i64_checked_small: "- (2 ^ 63) \<le> x \<Longrightarrow> x < 2 ^ 63 \<Longrightarrow> i64_checked x = Some x"
  by (simp add: i64_checked_def)

lemma rule_advance_ok:
  assumes "0 \<le> op_code_align (rs_options s)" "d * op_code_align (rs_options s) < 2 ^ 62" "0 \<le> d"
    "- (2 ^ 62) \<le> rs_pc s" "rs_pc s < 2 ^ 62"
  shows "rule_advance d s = Some (Inr True, s\<lparr>rs_pc := rs_pc s + d * op_code_align (rs_options s)\<rparr>)"
proof -
  define x where "x = d * op_code_align (rs_options s)"
  have x: "0 \<le> x" "x < 2 ^ 62" using assms(1-3) by (simp_all add: x_def)
  then have "i64_checked x = Some x" "i64_checked (rs_pc s + x) = Some (rs_pc s + x)"
    using assms(4,5) by (auto intro!: i64_checked_small)
  then show ?thesis using x(1) by (auto simp: rule_advance_def simp flip: x_def)
qed

lemma frame_ops_fit:
  "r < 256 \<Longrightarrow> fits16 v \<Longrightarrow> add_reg_value (int r) v t fs = Inr (add_rule r v t fs)"
  "r < 256 \<Longrightarrow> set_cfa_reg (int r) fs = Inr (fs\<lparr>fs_cfa_reg := of_nat r\<rparr>)"
  "fits16 v \<Longrightarrow> set_cfa_offset v fs = Inr (fs\<lparr>fs_cfa_off := v\<rparr>)"
  by (auto simp: add_reg_value_def add_rule_def set_cfa_reg_def set_cfa_offset_def fits16_def)

lemma rule_scaled_fit: "fits16 (v * op_data_align (rs_options s)) \<Longrightarrow>
    rule_scaled v s = Some (Inr (v * op_data_align (rs_options s)), s)"
  by (simp add: rule_scaled_def fits16_def i64_checked_def)

lemma io_bind_eval: "m s = Some (Inr x, s1) \<Longrightarrow> io_bind m f s = f x s1"
  by (simp add: io_bind_def)

lemma rule_read_eval: "f (rs_cursor s) = Some (v, c) \<Longrightarrow> rule_read f s = Some (Inr v, s\<lparr>rs_cursor := c\<rparr>)"
  by (simp add: rule_read_def)

lemma rule_frame_eval: "f (rs_frame s) = Inr fs \<Longrightarrow> rule_frame f s = Some (Inr False, s\<lparr>rs_frame := fs\<rparr>)"
  by (simp add: rule_frame_def)

text \<open>The first byte and what it selects.\<close>

lemma read_rule_byte:
  assumes "drop (rs_cursor s) sl = b # rest"
  shows "read_rule sl s =
    (let p = b AND 0xC0; e = b AND 0x3F; s1 = s\<lparr>rs_cursor := Suc (rs_cursor s)\<rparr> in
     if p = DW_CFA_EXTENDED then read_extended sl e s1
     else if p = DW_CFA_ADVANCE_LOC then rule_advance (uint e) s1
     else if p = DW_CFA_OFFSET then
       io_bind (rule_read (read_uleb sl)) (\<lambda>v. io_bind (rule_scaled v) (\<lambda>v.
       rule_frame (add_reg_value (uint e) v VALUE_TYPE_OFFSET))) s1
     else if p = DW_CFA_RESTORE then rule_frame (add_reg_value (uint e) 0 VALUE_TYPE_RESTORE) s1
     else io_fail ''Unknown DWARF primary opcode'' s1)"
proof -
  have "rule_read (read_byte sl) s = Some (Inr b, s\<lparr>rs_cursor := Suc (rs_cursor s)\<rparr>)"
    using byte_at [OF assms] by (intro rule_read_eval) simp
  then show ?thesis unfolding read_rule_def by (simp add: io_bind_eval Let_def)
qed

text \<open>The operands of the extended instructions, read one after the other.\<close>

lemma read_one:
  assumes "drop (rs_cursor s) sl = uleb n @ rest" "n < 2 ^ 63"
  shows "io_bind (rule_read (read_uleb sl)) f s = f (int n) (s\<lparr>rs_cursor := rs_cursor s + length (uleb n)\<rparr>)"
    "drop (rs_cursor (s\<lparr>rs_cursor := rs_cursor s + length (uleb n)\<rparr>)) sl = rest"
  using uleb_at [OF assms] by (simp_all add: io_bind_eval rule_read_eval)

lemma read_one_signed:
  assumes "drop (rs_cursor s) sl = sleb v @ rest" "fits16 v"
  shows "io_bind (rule_read (read_sleb sl)) f s = f v (s\<lparr>rs_cursor := rs_cursor s + length (sleb v)\<rparr>)"
proof -
  have "- (2 ^ 48) \<le> v" "v < 2 ^ 48" using assms(2) by (simp_all add: fits16_def)
  from sleb_at [OF assms(1) this] show ?thesis by (simp add: io_bind_eval rule_read_eval)
qed

lemma primary_select:
  assumes "k < 64"
  shows "(of_nat (0x40 + k) :: byte) AND 0xC0 = 0x40" "uint ((of_nat (0x40 + k) :: byte) AND 0x3F) = int k"
    "(of_nat (0x80 + k) :: byte) AND 0xC0 = 0x80" "uint ((of_nat (0x80 + k) :: byte) AND 0x3F) = int k"
proof -
  have "\<forall>k \<in> set [0 ..< 64]. (of_nat (0x40 + k) :: byte) AND 0xC0 = 0x40 \<and> uint ((of_nat (0x40 + k) :: byte) AND 0x3F) = int k \<and>
     (of_nat (0x80 + k) :: byte) AND 0xC0 = 0x80 \<and> uint ((of_nat (0x80 + k) :: byte) AND 0x3F) = int k"
    by (simp add: upt_rec)
  then show "(of_nat (0x40 + k) :: byte) AND 0xC0 = 0x40" "uint ((of_nat (0x40 + k) :: byte) AND 0x3F) = int k"
    "(of_nat (0x80 + k) :: byte) AND 0xC0 = 0x80" "uint ((of_nat (0x80 + k) :: byte) AND 0x3F) = int k"
    using assms by auto
qed

lemma fits16_small: "fits16 (int v) \<Longrightarrow> v < 2 ^ 63"
  by (simp add: fits16_def)

lemma read_extended_cases:
  "read_extended sl 12 = io_bind (rule_read (read_uleb sl)) (\<lambda>r. io_bind (rule_read (read_uleb sl)) (\<lambda>off.
     io_bind (rule_frame (set_cfa_reg r)) (\<lambda>_. rule_frame (set_cfa_offset off))))"
  "read_extended sl 13 = io_bind (rule_read (read_uleb sl)) (\<lambda>r. rule_frame (set_cfa_reg r))"
  "read_extended sl 14 = io_bind (rule_read (read_uleb sl)) (\<lambda>off. rule_frame (set_cfa_offset off))"
  "read_extended sl 18 = io_bind (rule_read (read_uleb sl)) (\<lambda>r. io_bind (rule_read (read_sleb sl)) (\<lambda>v.
     io_bind (rule_scaled v) (\<lambda>off. io_bind (rule_frame (set_cfa_reg r)) (\<lambda>_. rule_frame (set_cfa_offset off)))))"
  "read_extended sl 19 = io_bind (rule_read (read_sleb sl)) (\<lambda>v. io_bind (rule_scaled v) (\<lambda>off. rule_frame (set_cfa_offset off)))"
  "read_extended sl 5 = io_bind (rule_read (read_uleb sl)) (\<lambda>r. io_bind (rule_read (read_uleb sl)) (\<lambda>v.
     io_bind (rule_scaled v) (\<lambda>v. rule_frame (add_reg_value r v VALUE_TYPE_OFFSET))))"
  "read_extended sl 17 = io_bind (rule_read (read_uleb sl)) (\<lambda>r. io_bind (rule_read (read_sleb sl)) (\<lambda>v.
     io_bind (rule_scaled v) (\<lambda>v. rule_frame (add_reg_value r v VALUE_TYPE_OFFSET))))"
  "read_extended sl 7 = io_bind (rule_read (read_uleb sl)) (\<lambda>r. rule_frame (add_reg_value r 0 VALUE_TYPE_UNDEFINED))"
  "read_extended sl 46 = io_bind (rule_read (read_uleb sl)) (\<lambda>_. io_return False)"
  "read_extended sl 2 = io_bind (rule_read (read_byte sl)) (\<lambda>d. rule_advance (uint d))"
  "read_extended sl 3 = io_bind (rule_read (take_u16 sl)) (\<lambda>d. rule_advance (uint d))"
  "read_extended sl 4 = io_bind (rule_read (take_u32 sl)) (\<lambda>d. rule_advance (uint d))"
  "read_extended sl 0 = io_return False"
  by (simp_all add: read_extended_def Let_def dw_extended_defs)

definition bounded_state :: "int \<Rightarrow> int \<Rightarrow> rule_state \<Rightarrow> bool" where
  "bounded_state ca da s \<longleftrightarrow> op_code_align (rs_options s) = ca \<and> op_data_align (rs_options s) = da \<and>
     0 \<le> ca \<and> ca < 2 ^ 15 \<and> - (2 ^ 62) \<le> rs_pc s \<and> rs_pc s < 2 ^ 62"

lemma read_advance:
  assumes "bounded_state ca da s" "d < 2 ^ 32"
  shows "rule_advance (int d) s = Some (Inr True, s\<lparr>rs_pc := rs_pc s + int d * ca\<rparr>)"
proof -
  have "int d * ca \<le> 2 ^ 32 * 2 ^ 15" using assms by (intro mult_mono) (auto simp: bounded_state_def)
  then show ?thesis using rule_advance_ok [of s "int d"] assms by (auto simp: bounded_state_def)
qed

lemma uint_of_nat_small:
  "d < 256 \<Longrightarrow> uint (of_nat d :: byte) = int d" "d < 65536 \<Longrightarrow> uint (of_nat d :: u16) = int d"
  "d < 4294967296 \<Longrightarrow> uint (of_nat d :: u32) = int d"
  by (simp_all add: unsigned_of_nat take_bit_nat_eq_self)

lemma read_advance_encoded:
  assumes "drop (rs_cursor s) sl = encode_cfi i @ rest" "cfi_ok da i" "bounded_state ca da s" "cfi_delta i = Some d"
  shows "read_rule sl s = Some (Inr True, s\<lparr>rs_cursor := rs_cursor s + length (encode_cfi i), rs_pc := rs_pc s + int d * ca\<rparr>)"
proof -
  have adv: "rule_advance (int d) (s\<lparr>rs_cursor := c\<rparr>) = Some (Inr True, s\<lparr>rs_cursor := c, rs_pc := rs_pc s + int d * ca\<rparr>)"
    if "d < 2 ^ 32" for c d
    using read_advance [of ca da "s\<lparr>rs_cursor := c\<rparr>" d] assms(3) that by (simp add: bounded_state_def)
  obtain b bs where b: "encode_cfi i = b # bs" using assms(4) by (cases i) auto
  note rb = read_rule_byte [of s sl b "bs @ rest"]
  have d1: "drop (Suc (rs_cursor s)) sl = bs @ rest" using byte_at [of "rs_cursor s" sl b "bs @ rest"] assms(1) b by simp
  show ?thesis
  proof (cases i)
    case (Advance k)
    then show ?thesis
      using rb assms b adv [of d] primary_select [of d] by (simp add: dw_primary_defs Let_def)
  next
    case (Advance1 k)
    then have u: "uint (of_nat d :: byte) = int d" "d < 2 ^ 32"
      using assms(2,4) uint_of_nat_small by simp_all
    have "rule_read (read_byte sl) (s\<lparr>rs_cursor := Suc (rs_cursor s)\<rparr>) = Some (Inr (of_nat d), s\<lparr>rs_cursor := Suc (Suc (rs_cursor s))\<rparr>)"
      using byte_at [of "Suc (rs_cursor s)" sl "of_nat d" rest] d1 b Advance1 assms(4) by (simp add: rule_read_eval)
    moreover have "bs = [of_nat d]" using b Advance1 assms(4) by simp
    ultimately show ?thesis
      using rb assms(1,3) b adv [OF u(2)] u(1) Advance1 by (simp add: dw_primary_defs Let_def read_extended_cases io_bind_eval)
  next
    case (Advance2 k)
    then have u: "uint (of_nat d :: u16) = int d" "d < 2 ^ 32"
      using assms(2,4) uint_of_nat_small by simp_all
    have "rule_read (take_u16 sl) (s\<lparr>rs_cursor := Suc (rs_cursor s)\<rparr>) = Some (Inr (of_nat d), s\<lparr>rs_cursor := Suc (rs_cursor s) + 2\<rparr>)"
      using u16_at [of "Suc (rs_cursor s)" sl "of_nat d" rest] d1 b Advance2 assms(4) by (simp add: rule_read_eval)
    moreover have "bs = u16_bytes (of_nat d)" using b Advance2 assms(4) by simp
    ultimately show ?thesis
      using rb assms(1,3) b adv [OF u(2)] u(1) Advance2 by (simp add: dw_primary_defs Let_def read_extended_cases io_bind_eval)
  next
    case (Advance4 k)
    then have u: "uint (of_nat d :: u32) = int d" "d < 2 ^ 32"
      using assms(2,4) uint_of_nat_small by simp_all
    have "rule_read (take_u32 sl) (s\<lparr>rs_cursor := Suc (rs_cursor s)\<rparr>) = Some (Inr (of_nat d), s\<lparr>rs_cursor := Suc (rs_cursor s) + 4\<rparr>)"
      using u32_at [of "Suc (rs_cursor s)" sl "of_nat d" rest] d1 b Advance4 assms(4) by (simp add: rule_read_eval)
    moreover have "bs = u32_bytes (of_nat d)" using b Advance4 assms(4) by simp
    ultimately show ?thesis
      using rb assms(1,3) b adv [OF u(2)] u(1) Advance4 by (simp add: dw_primary_defs Let_def read_extended_cases io_bind_eval)
  qed (use assms(4) in simp_all)
qed

lemma read_two:
  assumes "drop (rs_cursor s) sl = uleb a @ uleb b @ rest" "a < 2 ^ 63" "b < 2 ^ 63"
  shows "io_bind (rule_read (read_uleb sl)) (\<lambda>x. io_bind (rule_read (read_uleb sl)) (F x)) s =
    F (int a) (int b) (s\<lparr>rs_cursor := rs_cursor s + length (uleb a) + length (uleb b)\<rparr>)"
  unfolding read_one(1) [OF assms(1,2)] read_one(1) [OF read_one(2) [OF assms(1,2)] assms(3)] by simp

lemma read_two_signed:
  assumes "drop (rs_cursor s) sl = uleb a @ sleb b @ rest" "a < 2 ^ 63" "fits16 b"
  shows "io_bind (rule_read (read_uleb sl)) (\<lambda>x. io_bind (rule_read (read_sleb sl)) (F x)) s =
    F (int a) b (s\<lparr>rs_cursor := rs_cursor s + length (uleb a) + length (sleb b)\<rparr>)"
  unfolding read_one(1) [OF assms(1,2)] read_one_signed [OF read_one(2) [OF assms(1,2)] assms(3)] by simp

text \<open>The other instructions: after their operands, with the row changed.\<close>

lemma frame_sequence:
  "r < 256 \<Longrightarrow> fits16 off \<Longrightarrow>
   io_bind (rule_frame (set_cfa_reg (int r))) (\<lambda>_. rule_frame (set_cfa_offset off)) s =
     Some (Inr False, s\<lparr>rs_frame := (rs_frame s)\<lparr>fs_cfa_reg := of_nat r, fs_cfa_off := off\<rparr>\<rparr>)"
  by (simp add: io_bind_def rule_frame_def frame_ops_fit)

lemma read_other_encoded:
  assumes d: "drop (rs_cursor s) sl = encode_cfi i @ rest" and ok: "cfi_ok da i" and st: "bounded_state ca da s"
    and n: "cfi_delta i = None"
  shows "read_rule sl s = Some (Inr False,
    s\<lparr>rs_cursor := rs_cursor s + length (encode_cfi i), rs_frame := cfi_frame da i (rs_frame s)\<rparr>)"
proof -
  obtain b bs where b: "encode_cfi i = b # bs" using n by (cases i) auto
  define s1 where "s1 = s\<lparr>rs_cursor := Suc (rs_cursor s)\<rparr>"
  have d1: "drop (rs_cursor s1) sl = bs @ rest"
    using byte_at [of "rs_cursor s" sl b "bs @ rest"] d b by (simp add: s1_def)
  note rb = read_rule_byte [of s sl b "bs @ rest", unfolded Let_def, folded s1_def]
  have rb': "drop (rs_cursor s) sl = b # bs @ rest" using d b by simp
  have s1: "rs_frame s1 = rs_frame s" "rs_options s1 = rs_options s" "rs_cursor s1 = Suc (rs_cursor s)" by (simp_all add: s1_def)
  have da: "op_data_align (rs_options s) = da" using st by (simp add: bounded_state_def)
  note ev = dw_primary_defs read_extended_cases io_bind_eval [OF rule_scaled_fit] rule_frame_eval frame_ops_fit frame_sequence
  have small: "n < 2 ^ 63" if "n < 256" for n :: nat using that by simp
  show ?thesis
  proof (cases i)
    case Nop
    then show ?thesis using rb [OF rb'] b s1 by (simp add: ev io_return_def s1_def)
  next
    case (DefCfa r v)
    then have e: "b = 12" "bs = uleb r @ uleb v" "r < 256" "fits16 (int v)" using b ok by simp_all
    have d2: "drop (rs_cursor s1) sl = uleb r @ uleb v @ rest" using d1 e(2) by simp
    show ?thesis using DefCfa rb [OF rb'] e
      by (simp add: ev s1 da read_two [OF d2 small [OF e(3)] fits16_small [OF e(4)]]) (simp add: s1_def add.assoc)
  next
    case (DefCfaRegister r)
    then have e: "b = 13" "bs = uleb r" "r < 256" using b ok by simp_all
    have d2: "drop (rs_cursor s1) sl = uleb r @ rest" using d1 e(2) by simp
    show ?thesis using DefCfaRegister rb [OF rb'] e
      by (simp add: ev s1 da read_one(1) [OF d2 small [OF e(3)]]) (simp add: s1_def add.assoc)
  next
    case (DefCfaOffset v)
    then have e: "b = 14" "bs = uleb v" "fits16 (int v)" using b ok by simp_all
    have d2: "drop (rs_cursor s1) sl = uleb v @ rest" using d1 e(2) by simp
    show ?thesis using DefCfaOffset rb [OF rb'] e
      by (simp add: ev s1 da read_one(1) [OF d2 fits16_small [OF e(3)]]) (simp add: s1_def add.assoc)
  next
    case (UndefinedRule r)
    then have e: "b = 7" "bs = uleb r" "r < 256" using b ok by simp_all
    have d2: "drop (rs_cursor s1) sl = uleb r @ rest" using d1 e(2) by simp
    show ?thesis using UndefinedRule rb [OF rb'] e
      by (simp add: ev s1 da read_one(1) [OF d2 small [OF e(3)]] fits16_def) (simp add: s1_def add.assoc)
  next
    case (ArgsSize v)
    then have e: "b = 46" "bs = uleb v" "v < 2 ^ 63" using b ok by simp_all
    have d2: "drop (rs_cursor s1) sl = uleb v @ rest" using d1 e(2) by simp
    show ?thesis using ArgsSize rb [OF rb'] e
      by (simp add: ev s1 da read_one(1) [OF d2 e(3)] io_return_def) (simp add: s1_def add.assoc)
  next
    case (OffsetRule r v)
    then have e: "b = of_nat (0x80 + r)" "bs = uleb v" "r < 64" "fits16 (int v)" "fits16 (int v * da)" using b ok by simp_all
    have d2: "drop (rs_cursor s1) sl = uleb v @ rest" using d1 e(2) by simp
    show ?thesis using OffsetRule rb [OF rb'] e primary_select [OF e(3)]
      by (simp add: ev s1 da read_one(1) [OF d2 fits16_small [OF e(4)]]) (simp add: s1_def add.assoc)
  next
    case (OffsetExtended r v)
    then have e: "b = 5" "bs = uleb r @ uleb v" "r < 256" "fits16 (int v)" "fits16 (int v * da)" using b ok by simp_all
    have d2: "drop (rs_cursor s1) sl = uleb r @ uleb v @ rest" using d1 e(2) by simp
    show ?thesis using OffsetExtended rb [OF rb'] e
      by (simp add: ev s1 da read_two [OF d2 small [OF e(3)] fits16_small [OF e(4)]]) (simp add: s1_def add.assoc)
  next
    case (OffsetExtendedSf r v)
    then have e: "b = 17" "bs = uleb r @ sleb v" "r < 256" "fits16 v" "fits16 (v * da)" using b ok by simp_all
    have d2: "drop (rs_cursor s1) sl = uleb r @ sleb v @ rest" using d1 e(2) by simp
    show ?thesis using OffsetExtendedSf rb [OF rb'] e
      by (simp add: ev s1 da read_two_signed [OF d2 small [OF e(3)] e(4)]) (simp add: s1_def add.assoc)
  next
    case (DefCfaSf r v)
    then have e: "b = 18" "bs = uleb r @ sleb v" "r < 256" "fits16 v" "fits16 (v * da)" using b ok by simp_all
    have d2: "drop (rs_cursor s1) sl = uleb r @ sleb v @ rest" using d1 e(2) by simp
    show ?thesis using DefCfaSf rb [OF rb'] e
      by (simp add: ev s1 da read_two_signed [OF d2 small [OF e(3)] e(4)]) (simp add: s1_def add.assoc)
  next
    case (DefCfaOffsetSf v)
    then have e: "b = 19" "bs = sleb v" "fits16 v" "fits16 (v * da)" using b ok by simp_all
    have d2: "drop (rs_cursor s1) sl = sleb v @ rest" using d1 e(2) by simp
    show ?thesis using DefCfaOffsetSf rb [OF rb'] e
      by (simp add: ev s1 da read_one_signed [OF d2 e(3)]) (simp add: s1_def add.assoc)
  qed (use n in simp_all)
qed

end
