(* ===== verification/CfiRows.thy ===== *)
theory CfiRows
  imports CfiProps
begin

text \<open>
  The rows of an encoded entry against the standard's table: decoding the entry and selecting the rows up to
  an address gives the CFA and the saved registers that executing the instructions gives there.
\<close>

section \<open>The rows of a program\<close>

fun frames_of :: "int \<Rightarrow> int \<Rightarrow> cfi list \<Rightarrow> int \<Rightarrow> frame_state \<Rightarrow> frame_state list" where
  "frames_of ca da [] loc fs = [fs]"
| "frames_of ca da (i # prog) loc fs =
     (case cfi_delta i of
        Some d \<Rightarrow> let loc = loc + int d * ca
                  in fs # frames_of ca da prog loc (frame_state_new (of_int loc) (fs_cfa_reg fs) (fs_cfa_off fs))
      | None \<Rightarrow> frames_of ca da prog loc (cfi_frame da i fs))"

fun cfi_span :: "int \<Rightarrow> cfi list \<Rightarrow> int" where
  "cfi_span ca [] = 0"
| "cfi_span ca (i # prog) = (case cfi_delta i of Some d \<Rightarrow> int d * ca | None \<Rightarrow> 0) + cfi_span ca prog"

lemma cfi_span_nonneg: "0 \<le> ca \<Longrightarrow> 0 \<le> cfi_span ca prog"
  by (induction prog) (auto split: option.splits)

lemma encode_cfi_nonempty [simp]: "encode_cfi i \<noteq> []"
  by (cases i) simp_all

lemma encode_cfis_simps: "encode_cfis [] = []" "encode_cfis (i # prog) = encode_cfi i @ encode_cfis prog"
  by (simp_all add: encode_cfis_def)

text \<open>The bytes at the cursor: an instruction there moves the cursor behind it.\<close>

lemma at_instruction:
  assumes "drop c sl = encode_cfi i @ bs"
  shows "c < length sl" "drop (c + length (encode_cfi i)) sl = bs"
proof -
  show "c < length sl" using assms encode_cfi_nonempty [of i] by (metis append_is_Nil_conv drop_eq_Nil not_less)
  have "drop (c + length (encode_cfi i)) sl = drop (length (encode_cfi i)) (drop c sl)" by (simp add: add.commute)
  then show "drop (c + length (encode_cfi i)) sl = bs" using assms by simp
qed

lemma run_fde_encoded:
  assumes "drop (rs_cursor s) sl = encode_cfis prog" "\<forall>i \<in> set prog. cfi_ok da i"
    "bounded_state ca da s" "rs_pc s + cfi_span ca prog < 2 ^ 62"
  shows "\<exists>s' rows'. run_fde sl s rows = Some (Inr (), s', rows') \<and>
    rows' @ [rs_frame s'] = rows @ frames_of ca da prog (rs_pc s) (rs_frame s)"
  using assms
proof (induction prog arbitrary: s rows)
  case Nil
  then show ?case by (subst run_fde.simps) (simp add: encode_cfis_simps)
next
  case (Cons i prog)
  have d: "drop (rs_cursor s) sl = encode_cfi i @ encode_cfis prog" using Cons.prems(1) by (simp add: encode_cfis_simps)
  note next_i = at_instruction [OF d]
  have ok: "cfi_ok da i" "\<forall>i \<in> set prog. cfi_ok da i" using Cons.prems(2) by simp_all
  have ca: "0 \<le> ca" using Cons.prems(3) by (simp add: bounded_state_def)
  show ?case
  proof (cases "cfi_delta i")
    case None
    define s1 where "s1 = s\<lparr>rs_cursor := rs_cursor s + length (encode_cfi i), rs_frame := cfi_frame da i (rs_frame s)\<rparr>"
    have "read_rule sl s = Some (Inr False, s1)"
      using read_other_encoded [OF d ok(1) Cons.prems(3) None] by (simp add: s1_def)
    then have r: "run_fde sl s rows = run_fde sl s1 rows" using next_i(1) by (subst run_fde.simps) simp
    have "drop (rs_cursor s1) sl = encode_cfis prog" "bounded_state ca da s1" "rs_pc s1 + cfi_span ca prog < 2 ^ 62"
      using next_i(2) Cons.prems(3,4) None by (simp_all add: s1_def bounded_state_def)
    from Cons.IH [OF this(1) ok(2) this(2,3), of rows] show ?thesis
      unfolding r using None by (simp add: s1_def)
  next
    case (Some d')
    define loc where "loc = rs_pc s + int d' * ca"
    define fs where "fs = rs_frame s"
    define s1 where "s1 = s\<lparr>rs_cursor := rs_cursor s + length (encode_cfi i), rs_pc := loc,
      rs_frame := frame_state_new (of_int loc) (fs_cfa_reg fs) (fs_cfa_off fs)\<rparr>"
    have "read_rule sl s = Some (Inr True, s\<lparr>rs_cursor := rs_cursor s + length (encode_cfi i), rs_pc := loc\<rparr>)"
      using read_advance_encoded [OF d ok(1) Cons.prems(3) Some] by (simp add: loc_def)
    then have r: "run_fde sl s rows = run_fde sl s1 (rows @ [fs])"
      using next_i(1) by (subst run_fde.simps) (simp add: s1_def fs_def Let_def)
    have "0 \<le> cfi_span ca prog" "0 \<le> int d' * ca" using ca by (simp_all add: cfi_span_nonneg)
    then have "bounded_state ca da s1" "rs_pc s1 + cfi_span ca prog < 2 ^ 62"
      using Cons.prems(3,4) Some unfolding bounded_state_def by (simp_all add: s1_def loc_def del: mult_nonneg_nonneg)
    moreover have "drop (rs_cursor s1) sl = encode_cfis prog" using next_i(2) by (simp add: s1_def)
    ultimately show ?thesis
      using Cons.IH [of s1 "rows @ [fs]"] ok(2) Some unfolding r by (simp add: s1_def Let_def loc_def fs_def)
  qed
qed

text \<open>The initial instructions of a CIE: none of them changes the location.\<close>

lemma run_cie_encoded:
  assumes "drop (rs_cursor s) sl = encode_cfis prog" "\<forall>i \<in> set prog. cfi_ok da i \<and> cfi_delta i = None"
    "bounded_state ca da s"
  shows "\<exists>c. run_cie sl s = Some (Inr (), s\<lparr>rs_cursor := c, rs_frame := fold (cfi_frame da) prog (rs_frame s)\<rparr>)"
  using assms
proof (induction prog arbitrary: s)
  case Nil
  then show ?case by (subst run_cie.simps) (auto simp: encode_cfis_simps intro: exI [of _ "rs_cursor s"])
next
  case (Cons i prog)
  have d: "drop (rs_cursor s) sl = encode_cfi i @ encode_cfis prog" using Cons.prems(1) by (simp add: encode_cfis_simps)
  note next_i = at_instruction [OF d]
  define s1 where "s1 = s\<lparr>rs_cursor := rs_cursor s + length (encode_cfi i), rs_frame := cfi_frame da i (rs_frame s)\<rparr>"
  have "read_rule sl s = Some (Inr False, s1)"
    using read_other_encoded [OF d _ Cons.prems(3)] Cons.prems(2) by (simp add: s1_def)
  then have r: "run_cie sl s = run_cie sl s1" using next_i(1) by (subst run_cie.simps) simp
  have "drop (rs_cursor s1) sl = encode_cfis prog" "bounded_state ca da s1"
    using next_i(2) Cons.prems(3) by (simp_all add: s1_def bounded_state_def)
  with Cons.IH [of s1] Cons.prems(2) show ?case unfolding r by (simp add: s1_def)
qed

section \<open>Rows and the table of the standard\<close>

text \<open>The decoder tracks the registers below \<open>m\<close>; a register has a rule when its bit is set.\<close>

definition agrees :: "nat \<Rightarrow> cfi_row \<Rightarrow> unwind_cfa \<times> int list \<Rightarrow> bool" where
  "agrees m row c \<longleftrightarrow> length (snd c) = m \<and> uc_reg (fst c) = of_nat (row_cfa_reg row) \<and>
     uc_off (fst c) = row_cfa_off row \<and>
     (\<forall>r < m. row_rules row r = (if bit (uc_off_mask (fst c)) r then Some (snd c ! r) else None))"

definition with_cfa :: "frame_state \<Rightarrow> unwind_cfa \<times> int list \<Rightarrow> unwind_cfa \<times> int list" where
  "with_cfa fs c = ((fst c)\<lparr>uc_reg := fs_cfa_reg fs, uc_off := fs_cfa_off fs\<rparr>, snd c)"

lemma apply_reg_states_snoc:
  "apply_reg_states m (xs @ [x]) c = apply_reg_states m xs c \<bind> apply_reg_state m x"
proof (induction xs arbitrary: c)
  case (Cons y ys)
  then show ?case by (cases "apply_reg_state m y c") simp_all
next
  case Nil
  show ?case by (cases "apply_reg_state m x c") simp_all
qed

lemma apply_reg_state_cfa:
  "apply_reg_state m x (with_cfa fs c) = map_option (with_cfa fs) (apply_reg_state m x c)"
  by (cases c) (auto simp: apply_reg_state_def with_cfa_def Let_def bit_checked_def)

lemma apply_reg_states_cfa:
  "apply_reg_states m xs (with_cfa fs c) = map_option (with_cfa fs) (apply_reg_states m xs c)"
proof (induction xs arbitrary: c)
  case (Cons y ys)
  then show ?case by (cases "apply_reg_state m y c") (simp_all add: apply_reg_state_cfa)
qed simp

text \<open>A row in the making applied to what the rows before it gave.\<close>

definition applied :: "nat \<Rightarrow> frame_state \<Rightarrow> unwind_cfa \<times> int list \<Rightarrow> (unwind_cfa \<times> int list) option" where
  "applied m fs c = apply_reg_states (of_nat m) (fs_reg_states fs) (with_cfa fs c)"

lemma applied_cfa:
  assumes "applied m fs c = Some c'" "fs_reg_states fs' = fs_reg_states fs"
  shows "applied m fs' c = Some (with_cfa fs' c')"
proof -
  have "with_cfa fs' c = with_cfa fs' (with_cfa fs c)" by (simp add: with_cfa_def)
  then have "applied m fs' c = map_option (with_cfa fs') (applied m fs c)"
    using apply_reg_states_cfa [of "of_nat m" "fs_reg_states fs" fs' "with_cfa fs c"]
    by (simp add: applied_def assms(2))
  then show ?thesis using assms(1) by simp
qed

lemma bit_checked_small: "r < 64 \<Longrightarrow> bit_checked r = Some (push_bit r 1)"
  by (simp add: bit_checked_def)

lemma bit_of_push: "r < 64 \<Longrightarrow> bit ((2 :: u64) ^ r) k \<longleftrightarrow> k = r"
  by (auto simp: bit_exp_iff)

text \<open>One rule more.\<close>

lemma agrees_add_rule:
  assumes "agrees m row c" "m \<le> 64" "r < 256"
  shows "\<exists>c'. apply_reg_state (of_nat m) \<lparr>rg_reg = of_nat r, rg_type = VALUE_TYPE_OFFSET, rg_val = v\<rparr> c = Some c' \<and>
      agrees m (row\<lparr>row_rules := (row_rules row)(r \<mapsto> v)\<rparr>) c'"
    "\<exists>c'. apply_reg_state (of_nat m) \<lparr>rg_reg = of_nat r, rg_type = VALUE_TYPE_UNDEFINED, rg_val = v\<rparr> c = Some c' \<and>
      agrees m (row\<lparr>row_rules := (row_rules row)(r := None)\<rparr>) c'"
proof -
  have u: "unat (of_nat r :: byte) = r" using assms(3) by (rule unat_byte)
  have le: "(of_nat m :: byte) \<le> of_nat r \<longleftrightarrow> m \<le> r"
    using assms(2,3) unat_byte [of m] u by (simp add: word_le_nat_alt)
  show "\<exists>c'. apply_reg_state (of_nat m) \<lparr>rg_reg = of_nat r, rg_type = VALUE_TYPE_OFFSET, rg_val = v\<rparr> c = Some c' \<and>
      agrees m (row\<lparr>row_rules := (row_rules row)(r \<mapsto> v)\<rparr>) c'"
    using assms(1,2) by (cases c) (auto simp: apply_reg_state_def Let_def le u agrees_def value_type_defs bit_checked_small
      bit_or_iff bit_of_push)
  show "\<exists>c'. apply_reg_state (of_nat m) \<lparr>rg_reg = of_nat r, rg_type = VALUE_TYPE_UNDEFINED, rg_val = v\<rparr> c = Some c' \<and>
      agrees m (row\<lparr>row_rules := (row_rules row)(r := None)\<rparr>) c'"
    using assms(1,2) by (cases c) (auto simp: apply_reg_state_def Let_def le u agrees_def value_type_defs bit_checked_small
      bit_and_iff bit_not_iff bit_of_push)
qed

lemma agrees_rule_added:
  assumes "applied m fs c = Some c'" "agrees m row c'" "m \<le> 64" "r < 256"
  shows "\<exists>c''. applied m (add_rule r v VALUE_TYPE_OFFSET fs) c = Some c'' \<and>
      agrees m (row\<lparr>row_rules := (row_rules row)(r \<mapsto> v)\<rparr>) c''"
    "\<exists>c''. applied m (add_rule r v VALUE_TYPE_UNDEFINED fs) c = Some c'' \<and>
      agrees m (row\<lparr>row_rules := (row_rules row)(r := None)\<rparr>) c''"
proof -
  have "applied m (add_rule r v t fs) c =
      apply_reg_state (of_nat m) \<lparr>rg_reg = of_nat r, rg_type = t, rg_val = v\<rparr> c'" for t
    using assms(1) by (simp add: applied_def apply_reg_states_snoc add_rule_def with_cfa_def)
  then show "\<exists>c''. applied m (add_rule r v VALUE_TYPE_OFFSET fs) c = Some c'' \<and>
      agrees m (row\<lparr>row_rules := (row_rules row)(r \<mapsto> v)\<rparr>) c''"
    "\<exists>c''. applied m (add_rule r v VALUE_TYPE_UNDEFINED fs) c = Some c'' \<and>
      agrees m (row\<lparr>row_rules := (row_rules row)(r := None)\<rparr>) c''"
    using agrees_add_rule [OF assms(2-4)] by simp_all
qed

lemma with_cfa_fields:
  assumes "applied m fs c = Some c'"
  shows "uc_reg (fst c') = fs_cfa_reg fs" "uc_off (fst c') = fs_cfa_off fs"
proof -
  have "Some c' = Some (with_cfa fs c')"
    using applied_cfa [OF assms, of fs] assms by simp
  then have "c' = with_cfa fs c'" by (rule option.inject [THEN iffD1])
  then have "fst c' = (fst c')\<lparr>uc_reg := fs_cfa_reg fs, uc_off := fs_cfa_off fs\<rparr>" unfolding with_cfa_def by (metis fst_conv)
  then show "uc_reg (fst c') = fs_cfa_reg fs" "uc_off (fst c') = fs_cfa_off fs"
    by (metis unwind_cfa.select_convs(1) unwind_cfa.surjective unwind_cfa.update_convs(1,2),
        metis unwind_cfa.select_convs(2) unwind_cfa.surjective unwind_cfa.update_convs(1,2))
qed

lemma applied_step:
  assumes "applied m fs c = Some c'" "agrees m row c'" "m \<le> 64" "cfi_ok da i" "cfi_delta i = None"
  shows "\<exists>c''. applied m (cfi_frame da i fs) c = Some c'' \<and> agrees m (cfi_step da i row) c''"
proof -
  have regs: "applied m fs' c = Some (with_cfa fs' c')" if "fs_reg_states fs' = fs_reg_states fs" for fs'
    using assms(1) that by (rule applied_cfa)
  have row: "uc_reg (fst c') = of_nat (row_cfa_reg row)" "uc_off (fst c') = row_cfa_off row"
    using assms(2) by (simp_all add: agrees_def)
  note cfa = with_cfa_fields [OF assms(1)]
  show ?thesis
    using assms(2-5) agrees_rule_added [OF assms(1-3)]
    by (cases i) (auto simp: regs assms(1), (auto simp: agrees_def with_cfa_def row simp flip: cfa))
qed

text \<open>The first row keeps its address; the rows of a program applied up to an address.\<close>

lemma frames_of_first: "\<exists>fs' rest. frames_of ca da prog loc fs = fs' # rest \<and> fs_rva fs' = fs_rva fs"
proof (induction prog arbitrary: fs loc)
  case (Cons i prog)
  have "fs_rva (cfi_frame da i fs) = fs_rva fs" by (cases i) (simp_all add: add_rule_def)
  with Cons [of loc "cfi_frame da i fs"] show ?case by (auto split: option.splits simp: Let_def)
qed simp

lemma apply_frame_states_cons:
  "\<not> rva < fs_rva fs \<Longrightarrow> apply_frame_states (of_nat m) rva (fs # fss) c =
     applied m fs c \<bind> apply_frame_states (of_nat m) rva fss"
  by (simp add: applied_def with_cfa_def)

lemma of_int_less: "0 \<le> a \<Longrightarrow> a < 2 ^ 63 \<Longrightarrow> 0 \<le> b \<Longrightarrow> b < 2 ^ 63 \<Longrightarrow> (of_int a :: u64) < of_int b \<longleftrightarrow> a < b"
  by (simp add: word_less_def uint_word_of_int_eq take_bit_int_eq_self)

theorem frames_agree:
  assumes "applied m fs c = Some c'" "agrees m row c'" "m \<le> 64" "\<forall>i \<in> set prog. cfi_ok da i"
    "fs_rva fs = of_int loc" "0 \<le> loc" "loc \<le> target" "0 \<le> ca" "loc + cfi_span ca prog < 2 ^ 63" "target < 2 ^ 63"
  shows "\<exists>c''. apply_frame_states (of_nat m) (of_int target) (frames_of ca da prog loc fs) c = Some c'' \<and>
    agrees m (row_at ca da target prog loc row) c''"
  using assms
proof (induction prog arbitrary: fs c c' row loc)
  case Nil
  then have "\<not> (of_int target :: u64) < fs_rva fs" by (simp add: of_int_less)
  from apply_frame_states_cons [OF this] Nil show ?case by simp
next
  case (Cons i prog)
  have reached: "\<not> (of_int target :: u64) < fs_rva fs"
    using Cons.prems cfi_span_nonneg [OF Cons.prems(8), of "i # prog"] by (simp add: of_int_less)
  show ?case
  proof (cases "cfi_delta i")
    case None
    have "fs_rva (cfi_frame da i fs) = fs_rva fs" by (cases i) (simp_all add: add_rule_def)
    then have rva: "fs_rva (cfi_frame da i fs) = of_int loc" using Cons.prems(5) by simp
    obtain c1 where c1: "applied m (cfi_frame da i fs) c = Some c1" "agrees m (cfi_step da i row) c1"
      using applied_step [OF Cons.prems(1-3) Cons.prems(4) [THEN bspec, of i] None] by (auto simp del: split_paired_Ex)
    have "loc + cfi_span ca prog < 2 ^ 63" using Cons.prems(9) None by simp
    from Cons.IH [OF c1 Cons.prems(3) _ rva Cons.prems(6-8) this Cons.prems(10)]
    show ?thesis using None Cons.prems(4) by simp
  next
    case (Some d)
    define loc' where "loc' = loc + int d * ca"
    define fs' where "fs' = frame_state_new (of_int loc') (fs_cfa_reg fs) (fs_cfa_off fs)"
    have l: "loc \<le> loc'" using Cons.prems(8) by (simp add: loc'_def)
    have sp: "loc' + cfi_span ca prog < 2 ^ 63" "0 \<le> cfi_span ca prog"
      using Cons.prems(8,9) Some by (simp_all add: loc'_def cfi_span_nonneg)
    have fr: "frames_of ca da (i # prog) loc fs = fs # frames_of ca da prog loc' fs'"
      using Some by (simp add: Let_def loc'_def fs'_def)
    have at1: "apply_frame_states (of_nat m) (of_int target) (frames_of ca da (i # prog) loc fs) c =
        apply_frame_states (of_nat m) (of_int target) (frames_of ca da prog loc' fs') c'"
      unfolding fr apply_frame_states_cons [OF reached] using Cons.prems(1) by simp
    show ?thesis
    proof (cases "target < loc'")
      case True
      obtain f rest where f: "frames_of ca da prog loc' fs' = f # rest" "fs_rva f = of_int loc'"
        using frames_of_first [of ca da prog loc' fs'] by (auto simp: fs'_def frame_state_new_def)
      have "(of_int target :: u64) < fs_rva f" using True Cons.prems(6,7,10) l sp by (simp add: f(2) of_int_less)
      then show ?thesis using at1 f(1) True Some Cons.prems(2) by (simp flip: loc'_def)
    next
      case False
      have "fs_cfa_reg fs' = uc_reg (fst c')" "fs_cfa_off fs' = uc_off (fst c')" "fs_reg_states fs' = []"
        using with_cfa_fields [OF Cons.prems(1)] by (simp_all add: fs'_def frame_state_new_def)
      then have "applied m fs' c' = Some c'" by (simp add: applied_def with_cfa_def)
      moreover have "fs_rva fs' = of_int loc'" "0 \<le> loc'" "loc' \<le> target"
        using False l Cons.prems(6) by (simp_all add: fs'_def frame_state_new_def)
      ultimately have "\<exists>c''. apply_frame_states (of_nat m) (of_int target) (frames_of ca da prog loc' fs') c' = Some c'' \<and>
          agrees m (row_at ca da target prog loc' row) c''"
        using Cons.IH [OF _ Cons.prems(2,3) _ _ _ _ Cons.prems(8) sp(1) Cons.prems(10)] Cons.prems(4) by simp
      then show ?thesis unfolding at1 using False Some by (simp flip: loc'_def)
    qed
  qed
qed

section \<open>Encoded entries\<close>

definition entry_bytes :: "u32 \<Rightarrow> byte list \<Rightarrow> byte list" where
  "entry_bytes i body = u32_bytes (of_nat (length body + 4)) @ u32_bytes i @ body"

lemma entry_parts:
  "8 \<le> length (entry_bytes i body)" "take 4 (drop 4 (entry_bytes i body)) = u32_bytes i"
  "drop 8 (entry_bytes i body) = body"
  by (simp_all add: entry_bytes_def)

lemma u32_bytes_0: "u32_bytes 0 = [0, 0, 0, 0]"
  by code_simp

text \<open>A CIE with the augmentation \<open>"zR"\<close> and addresses as signed 32-bit numbers relative to their place.\<close>

definition cie_bytes :: "nat \<Rightarrow> int \<Rightarrow> nat \<Rightarrow> cfi list \<Rightarrow> byte list" where
  "cie_bytes ca da ret init =
     entry_bytes 0 ([1, 122, 82, 0] @ uleb ca @ sleb da @ uleb ret @ [1, 0x1B] @ encode_cfis init)"

definition fde_bytes :: "u32 \<Rightarrow> int \<Rightarrow> nat \<Rightarrow> cfi list \<Rightarrow> byte list" where
  "fde_bytes cie rel len prog = entry_bytes cie (u32_bytes (of_int rel) @ u32_bytes (of_nat len) @ [0] @ encode_cfis prog)"

lemma read_string_at:
  assumes "drop c sl = str @ 0 # rest" "0 \<notin> set str"
  shows "read_string sl c = Some (length str, c + length str + 1)"
proof -
  have n: "length (takeWhile (\<lambda>b. b \<noteq> 0) (drop c sl)) = length str"
    using assms(2) unfolding assms(1) by (subst takeWhile_append2) auto
  have "length sl - c = length str + Suc (length rest)" using assms(1) by (metis length_Cons length_append length_drop)
  then show ?thesis by (simp add: read_string_def n Let_def)
qed

definition zr_options :: "nat \<Rightarrow> int \<Rightarrow> frame_options" where
  "zr_options ca da = frame_options_new\<lparr>op_enc := 0x1B, op_code_align := int ca, op_data_align := da, op_has_aug_data := True\<rparr>"

lemma parse_cie_encoded:
  assumes "ca < 32768" "fits16 da" "ret < 256"
  shows "\<exists>c. parse_cie (cie_bytes ca da ret init) frame_options_new = Some (Inr (zr_options ca da, of_nat ret, c)) \<and>
    drop c (cie_bytes ca da ret init) = encode_cfis init"
proof -
  define e where "e = cie_bytes ca da ret init"
  have e: "length e \<ge> 8" "take 4 (drop 4 e) = [0, 0, 0, 0]"
    "drop 8 e = 1 # 122 # 82 # 0 # uleb ca @ sleb da @ uleb ret @ 1 # 0x1B # encode_cfis init"
    by (simp_all add: e_def cie_bytes_def entry_parts u32_bytes_0)
  from byte_at [OF e(3)] have b1: "read_byte e 8 = Some (1, 9)"
    "drop 9 e = [122, 82] @ 0 # uleb ca @ sleb da @ uleb ret @ 1 # 0x1B # encode_cfis init" by simp_all
  from read_string_at [OF b1(2)] have st: "read_string e 9 = Some (2, 12)" by simp
  from bytes_at [OF b1(2)] have su: "subslice e 9 11 = Some [122, 82]"
    "drop 11 e = 0 # uleb ca @ sleb da @ uleb ret @ 1 # 0x1B # encode_cfis init" by simp_all
  from byte_at [OF su(2)] have d12: "drop 12 e = uleb ca @ sleb da @ uleb ret @ 1 # 0x1B # encode_cfis init" by simp
  define c1 where "c1 = 12 + length (uleb ca)"
  from uleb_at [OF d12] assms(1) have u1: "read_uleb e 12 = Some (int ca, c1)"
    "drop c1 e = sleb da @ uleb ret @ 1 # 0x1B # encode_cfis init" by (simp_all add: c1_def)
  define c2 where "c2 = c1 + length (sleb da)"
  from sleb_at [OF u1(2)] assms(2) have u2: "read_sleb e c1 = Some (da, c2)"
    "drop c2 e = uleb ret @ 1 # 0x1B # encode_cfis init" by (simp_all add: c2_def fits16_def)
  define c3 where "c3 = c2 + length (uleb ret)"
  from uleb_at [OF u2(2)] assms(3) have u3: "read_uleb e c2 = Some (int ret, c3)"
    "drop c3 e = 1 # 0x1B # encode_cfis init" by (simp_all add: c3_def)
  have "drop c3 e = uleb 1 @ 0x1B # encode_cfis init" using u3(2) by (simp add: uleb_small)
  from uleb_at [OF this] have u4: "read_uleb e c3 = Some (1, Suc c3)" "drop (Suc c3) e = 0x1B # encode_cfis init"
    by (simp_all add: uleb_small)
  from byte_at [OF u4(2)] have u5: "read_byte e (Suc c3) = Some (0x1B, Suc (Suc c3))"
    "drop (Suc (Suc c3)) e = encode_cfis init" by simp_all
  have a16: "as_i16 (int ca) = int ca"
    using assms(1) by (simp only: as_i16_def signed_of_int) (simp add: signed_take_bit_int_eq_self)
  have "parse_cie e frame_options_new = Some (Inr (zr_options ca da, of_nat ret, Suc (Suc c3)))"
    using assms e(1,2) b1(1) st su(1) u1(1) u2(1) u3(1) u4(1) u5(1) a16
    unfolding parse_cie_def zr_options_def
    apply (simp add: fits16_def at_def)
    apply (simp add: cie_letter_def )
    done
  then show ?thesis using u5(2) by (auto simp: e_def)
qed

text \<open>An address of 32 bits, relative to its place, and one that is not moved.\<close>

lemma read_value_relative:
  assumes "drop c sl = u32_bytes (of_int v) @ rest" "- (2 ^ 31) \<le> v" "v < 2 ^ 31" "\<bar>data\<bar> < 2 ^ 62" "c < 2 ^ 31"
  shows "read_value 0x1B data sl c = Some (v + data + int c, c + 4)"
proof -
  have "sint (of_int v :: u32) = v"
    using assms(2,3) by (simp only: signed_of_int) (simp add: signed_take_bit_int_eq_self)
  then have "read_encoded 0x0B sl c = Some (v, c + 4)"
    using u32_at [OF assms(1)] by (simp add: read_encoded_def dw_eh_pe_defs)
  moreover have "i64_checked (v + data) = Some (v + data)" "i64_checked (v + data + int c) = Some (v + data + int c)"
    using assms(2-5) by (auto intro!: i64_checked_small)
  ultimately show ?thesis by (simp add: read_value_def dw_eh_pe_defs)
qed

definition empty_row :: cfi_row where
  "empty_row = \<lparr>row_cfa_reg = 0, row_cfa_off = 0, row_rules = Map.empty\<rparr>"

lemma initial_rules_agree:
  assumes "applied m fs c = Some c'" "agrees m row c'" "m \<le> 64" "\<forall>i \<in> set init. cfi_ok da i \<and> cfi_delta i = None"
  shows "\<exists>c''. applied m (fold (cfi_frame da) init fs) c = Some c'' \<and> agrees m (fold (cfi_step da) init row) c''"
  using assms
proof (induction init arbitrary: fs c' row)
  case (Cons i init)
  have i: "cfi_ok da i" "cfi_delta i = None" using Cons.prems(4) by simp_all
  obtain c1 where "applied m (cfi_frame da i fs) c = Some c1" "agrees m (cfi_step da i row) c1"
    using applied_step [OF Cons.prems(1-3) i] by (auto simp del: split_paired_Ex)
  from Cons.IH [OF this Cons.prems(3)] Cons.prems(4) show ?case by simp
qed auto

lemma fold_frame_rva: "fs_rva (fold (cfi_frame da) init fs) = fs_rva fs"
proof (induction init arbitrary: fs)
  case (Cons i init)
  have "fs_rva (cfi_frame da i fs) = fs_rva fs" by (cases i) (simp_all add: add_rule_def)
  with Cons show ?case by simp
qed simp

text \<open>The entries are decoded: the range of the entry and its rows.\<close>

lemma apply_entries_encoded:
  assumes "ca < 32768" "fits16 da" "ret < 256" "len < 2 ^ 31"
    "\<forall>i \<in> set init. cfi_ok da i \<and> cfi_delta i = None" "\<forall>i \<in> set prog. cfi_ok da i"
    "unat (fo_fde off) < 2 ^ 60" "- (2 ^ 31) \<le> rel" "rel < 2 ^ 31" "pc = rel + int (unat (fo_fde off)) + 8"
    "pc + cfi_span (int ca) prog < 2 ^ 62" "fo_frame_states off = []"
  shows "apply_entries (fde_bytes cie rel len prog) (cie_bytes ca da ret init) off =
    Some (Inr (), off\<lparr>fo_ret_reg := of_nat ret, fo_pc_size := of_nat len, fo_state := STATE_VALID,
      fo_frame_states := frames_of (int ca) da prog pc
        (fold (cfi_frame da) init (frame_state_new (of_int pc) 0 0))\<rparr>)"
proof -
  define f where "f = fde_bytes cie rel len prog"
  define os where "os = zr_options ca da"
  obtain cc where cc: "parse_cie (cie_bytes ca da ret init) frame_options_new = Some (Inr (os, of_nat ret, cc))"
      "drop cc (cie_bytes ca da ret init) = encode_cfis init"
    using parse_cie_encoded [OF assms(1-3)] by (auto simp: os_def)
  have d8: "drop 8 f = u32_bytes (of_int rel) @ u32_bytes (of_nat len) @ [0] @ encode_cfis prog"
    by (simp add: f_def fde_bytes_def entry_parts)
  have small: "as_i64 (fo_fde off) = int (unat (fo_fde off))"
    using assms(7) by (intro as_i64_small) simp
  define n where "n = unat (fo_fde off)"
  define fde where "fde = int n"
  have "n < 2 ^ 62" using assms(7) by (simp add: n_def)
  then have "\<bar>fde\<bar> < 2 ^ 62" by (simp add: fde_def)
  with small assms(10) have fde: "as_i64 (fo_fde off) = fde" "\<bar>fde\<bar> < 2 ^ 62" "pc = rel + fde + 8"
    by (simp_all only: fde_def n_def)
  have v1: "read_value 0x1B (as_i64 (fo_fde off)) f 8 = Some (pc, 12)"
    using read_value_relative [OF d8 assms(8,9) fde(2)] by (simp add: fde(1,3))
  have d12: "drop 12 f = u32_bytes (of_int (int len)) @ [0] @ encode_cfis prog" using u32_at [OF d8] by simp
  have v2: "read_value 0x1B (- 12) f 12 = Some (int len, 16)"
    using read_value_relative [OF d12, of "- 12"] assms(4) by simp
  have "drop 16 f = uleb 0 @ encode_cfis prog" using u32_at [OF d12] by (simp add: uleb_small)
  from uleb_at [OF this] have v3: "read_uleb f 16 = Some (0, 17)" "drop 17 f = encode_cfis prog"
    by (simp_all add: uleb_small)
  define s0 where "s0 = \<lparr>rs_cursor = cc, rs_pc = pc, rs_frame = frame_state_new (of_int pc) 0 0, rs_options = os\<rparr>"
  have pcb: "- (2 ^ 62) \<le> pc" "pc < 2 ^ 62"
    using assms(8,11) fde(3) cfi_span_nonneg [of "int ca" prog] by (simp_all add: fde_def)
  then have b0: "bounded_state (int ca) da s0"
    using assms(1) by (simp add: bounded_state_def s0_def os_def zr_options_def)
  obtain c1 where rc: "run_cie (cie_bytes ca da ret init) s0 =
      Some (Inr (), s0\<lparr>rs_cursor := c1, rs_frame := fold (cfi_frame da) init (rs_frame s0)\<rparr>)"
    using run_cie_encoded [of s0 _ init da "int ca"] cc(2) assms(5) b0 by (auto simp: s0_def)
  define s1 where "s1 = s0\<lparr>rs_cursor := 17, rs_frame := fold (cfi_frame da) init (rs_frame s0), rs_pc := pc\<rparr>"
  have "bounded_state (int ca) da s1" using b0 pcb by (simp add: bounded_state_def s1_def)
  with run_fde_encoded [of s1 f prog da "int ca" "[]"] obtain s2 rows where
    rf: "run_fde f s1 [] = Some (Inr (), s2, rows)" "rows @ [rs_frame s2] = frames_of (int ca) da prog pc (rs_frame s1)"
    using v3(2) assms(6,11) by (auto simp: s1_def)
  have enc: "op_enc os = 0x1B" "op_has_aug_data os" by (simp_all add: os_def zr_options_def)
  have e: "s0\<lparr>rs_cursor := c1, rs_frame := fold (cfi_frame da) init (rs_frame s0)\<rparr>\<lparr>rs_cursor := 17, rs_pc := pc\<rparr> = s1"
    by (simp add: s1_def)
  have u: "usize_add 16 0 = Some 16" "usize_add 17 0 = Some 17" by (simp_all add: usize_add_def)
  have "apply_entries f (cie_bytes ca da ret init) off =
    Some (Inr (), mark_valid (off\<lparr>fo_ret_reg := of_nat ret, fo_pc_size := of_nat len,
      fo_frame_states := rows @ [rs_frame s2]\<rparr>))"
    unfolding apply_entries_def cc(1) using v1 v2 v3(1) rc rf(1) enc e assms(12) u
    by (simp add: as_usize_def mark_valid_def Let_def flip: s0_def)
  then show ?thesis unfolding rf(2) by (simp add: f_def mark_valid_def s1_def s0_def)
qed



section \<open>The frame of the caller\<close>

text \<open>The word at an address is in the copy of the stack. The word that ends the copy is not read.\<close>

definition on_stack :: "u64 \<Rightarrow> byte list \<Rightarrow> int \<Rightarrow> bool" where
  "on_stack rsp data a \<longleftrightarrow> int (unat rsp) \<le> a \<and> a + 8 < int (unat rsp) + int (length data)"

definition stack_word :: "u64 \<Rightarrow> byte list \<Rightarrow> int \<Rightarrow> u64" where
  "stack_word rsp data a = u64_of (take 8 (drop (nat (a - int (unat rsp))) data))"

lemma stack_value_word:
  assumes "rsp \<le> a" "unat a < 2 ^ 62" "fits16 off"
  shows "stack_value rsp a off data =
    Some (if on_stack rsp data (int (unat a) + off) then Some (stack_word rsp data (int (unat a) + off)) else None)"
proof -
  define k where "k = unat (a - rsp)"
  define b where "b = unat rsp"
  have a: "unat a = b + k" using assms(1) by (simp add: k_def b_def unat_sub word_le_nat_alt)
  then have "unat (a - rsp) < 2 ^ 62" using assms(2) by (simp flip: k_def)
  from stack_value_at [OF assms(1) this, of off data] assms(3) show ?thesis
    unfolding on_stack_def stack_word_def a k_def [symmetric] b_def [symmetric]
    by (auto simp: fits16_def Let_def)
qed

lemma bit_and_push: "w AND push_bit n (1 :: u64) = 0 \<longleftrightarrow> \<not> bit w n"
  by (simp add: push_bit_eq_mult and_exp_eq_0_iff_not_bit)

text \<open>C14. One frame by the rules of a row: when the CFA is above the stack pointer and the return address is saved in
  the copied stack, the frame of the caller has the CFA as its stack pointer, the saved return address as
  the address and, as frame pointer, the saved one or the current one where the row has no rule for it. A
  frame pointer or return address whose place is not in the copy ends the unwinding with an error.\<close>

theorem caller_frame_by_rules:
  assumes "agrees 17 row (c, un_offsets u)" "length (un_registers u) = 17" "row_cfa_reg row \<le> 16"
    and "int (unat cfa) = int (unat (un_registers u ! row_cfa_reg row)) + row_cfa_off row"
    and "unat (un_registers u ! row_cfa_reg row) < 2 ^ 62" "unat cfa < 2 ^ 62"
    and "un_registers u ! REG_RSP < cfa" "un_rsp u \<le> cfa"
    and "row_rules row 16 = Some ra" "fits16 ra" "\<forall>off. row_rules row 6 = Some off \<longrightarrow> fits16 off"
  shows "unwind_by_rules data c u res = Some
    (let at_stack = on_stack (un_rsp u) data; word = stack_word (un_rsp u) data; base = int (unat cfa) in
     if \<exists>off. row_rules row 6 = Some off \<and> \<not> at_stack (base + off) then fails BadStackRbpRead u res
     else
       let rbp = (case row_rules row 6 of Some off \<Rightarrow> word (base + off) | None \<Rightarrow> un_registers u ! REG_RBP);
           u' = set_stack cfa rbp u
       in if at_stack (base + ra) then (Some (word (base + ra)), u', res) else fails BadStackIpRead u' res)"
proof -
  define base where "base = un_registers u ! row_cfa_reg row"
  define b where "b = unat base"
  have b: "b < 2 ^ 62" "int (unat cfa) = int b + row_cfa_off row"
    using assms(4,5) by (simp_all add: b_def base_def)
  have row: "uc_reg c = of_nat (row_cfa_reg row)" "uc_off c = row_cfa_off row" "length (un_offsets u) = 17"
    using assms(1) by (simp_all add: agrees_def)
  have reg: "unat (uc_reg c) = row_cfa_reg row" unfolding row(1) using assms(3) by (intro unat_byte) simp
  have s: "as_i64 base = int b" using b(1) unfolding b_def by (intro as_i64_small) simp
  define k where "k = unat cfa"
  have k: "k < 2 ^ 62" using assms(6) by (simp add: k_def)
  have sum: "i64_checked (int b + row_cfa_off row) = Some (int (unat cfa))"
    unfolding b(2) [symmetric] k_def [symmetric] using k by (intro i64_checked_small) simp_all
  have ra: "bit (uc_off_mask c) 16" "un_offsets u ! 16 = ra"
    using assms(1,9) by (auto simp: agrees_def split: if_splits)
  have rbp: "row_rules row 6 = (if bit (uc_off_mask c) 6 then Some (un_offsets u ! 6) else None)"
    using assms(1) by (simp add: agrees_def)
  have base: "at (un_registers u) (row_cfa_reg row) = Some base" "at (un_registers u) REG_RSP = Some (un_registers u ! REG_RSP)"
    "at (un_registers u) REG_RBP = Some (un_registers u ! REG_RBP)" "at (un_offsets u) REG_RBP = Some (un_offsets u ! 6)"
    "at (un_offsets u) REG_RA = Some ra"
    using assms(2,3) row(3) ra(2) by (simp_all add: at_def base_def REG_RSP_def REG_RBP_def REG_RA_def)
  have masks: "uc_off_mask c AND REG_RA_BIT \<noteq> 0" "uc_off_mask c AND REG_RBP_BIT = 0 \<longleftrightarrow> row_rules row 6 = None"
    unfolding REG_RA_BIT_def REG_RBP_BIT_def bit_and_push
    using ra(1) rbp by (auto simp: REG_RA_def REG_RBP_def)
  have cfa: "(of_int (int (unat cfa)) :: u64) = cfa" by simp
  have ord: "\<not> cfa \<le> un_registers u ! REG_RSP" "\<not> REG_RA < row_cfa_reg row" using assms(3,7) by (simp_all add: REG_RA_def)
  note sv = stack_value_word [OF assms(8,6)]
  note common = unwind_by_rules_def reg base s row(2) sum cfa masks ord Let_def
  show ?thesis
  proof (cases "row_rules row 6")
    case None
    then show ?thesis
      by (simp add: common sv [OF assms(10)])
  next
    case (Some off)
    then have "un_offsets u ! 6 = off" "fits16 off" using rbp assms(11) by (auto split: if_splits)
    then show ?thesis using Some
      by (simp add: common sv [OF assms(10)] sv)
  qed
qed

text \<open>At a row with the CFA from the frame pointer, which is saved below the return address.\<close>

theorem caller_frame_by_rules_witness:
  "let u = (unwinder_reset 0x400100 0x7008 0x7000 unwinder_new)\<lparr>un_offsets := (replicate 17 0)[16 := - 8, 6 := - 16]\<rparr>
   in unwind_by_rules demo_stack \<lparr>uc_reg = 6, uc_off = 16, uc_off_mask = push_bit 16 1 OR push_bit 6 1\<rparr> u unwind_result_new =
     Some (Some 0x400700, set_stack 0x7018 0 u, unwind_result_new)"
proof -
  define u where "u = (unwinder_reset 0x400100 0x7008 0x7000 unwinder_new)\<lparr>un_offsets := (replicate 17 0)[16 := - 8, 6 := - 16]\<rparr>"
  define c where "c = \<lparr>uc_reg = 6, uc_off = 16, uc_off_mask = push_bit 16 1 OR push_bit 6 1\<rparr>"
  define row where "row = \<lparr>row_cfa_reg = 6, row_cfa_off = 16, row_rules = [16 \<mapsto> - 8, 6 \<mapsto> - 16]\<rparr>"
  have u: "un_registers u ! 6 = 0x7008" "un_registers u ! REG_RSP = 0x7000" "length (un_registers u) = 17"
    "un_rsp u = 0x7000" "un_offsets u = (replicate 17 0)[16 := - 8, 6 := - 16]"
    by (simp_all add: u_def unwinder_reset_def REG_RA_def REG_RSP_def REG_RBP_def)
  have "bit (uc_off_mask c) r \<longleftrightarrow> r = 16 \<or> r = 6" if "r < 64" for r
    unfolding c_def unwind_cfa.select_convs push_bit_of_1 bit_or_iff using bit_of_push [of 16 r] bit_of_push [of 6 r] by simp
  then have "agrees 17 row (c, un_offsets u)" by (auto simp: agrees_def c_def row_def u)
  from caller_frame_by_rules [OF this, where cfa = "0x7018" and ra = "- 8" and data = demo_stack and res = unwind_result_new]
  have "unwind_by_rules demo_stack c u unwind_result_new = Some (Some 0x400700, set_stack 0x7018 0 u, unwind_result_new)"
    by (simp add: u row_def Let_def fits16_def on_stack_def stack_word_def demo_stack_words)
  then show ?thesis by (simp add: u_def c_def Let_def)
qed

end
