(* ===== verification/ModuleMetadata.thy ===== *)
theory ModuleMetadata
  imports Machine
begin

text \<open>
  \<open>helpers/exporting/modulemetadata.rs\<close> and the text side of \<open>pe_file.rs\<close>: what is known of a module file,
  by device and node, and the JSON texts made of it. Names are pasted into the texts as they are.
\<close>

section \<open>Numbers as text\<close>

fun hex_text :: "nat \<Rightarrow> ustr" where
  "hex_text n = (let d = (\<lambda>k. if k < 10 then 48 + k else 87 + k)
     in if n < 16 then [d n] else hex_text (n div 16) @ [d (n mod 16)])"

declare hex_text.simps [simp del]

definition plain :: "string \<Rightarrow> byte list" where
  "plain s = as_bytes (code_points s)"

definition hex_byte :: "byte \<Rightarrow> byte list" where
  "hex_byte b = as_bytes (if b < 16 then 48 # hex_text (unat b) else hex_text (unat b))"

definition hex_bytes :: "byte list \<Rightarrow> byte list" where
  "hex_bytes bs = concat (map hex_byte bs)"

definition decimal_bytes :: "nat \<Rightarrow> byte list" where
  "decimal_bytes n = as_bytes (decimal n)"

definition QUOTE :: "byte list" where
  "QUOTE = [34]"

text \<open>A key in quotes with its colon, and a value in quotes with a comma.\<close>

definition json_key :: "string \<Rightarrow> byte list" where
  "json_key s = QUOTE @ plain s @ QUOTE @ plain '': ''"

definition json_text :: "string \<Rightarrow> byte list \<Rightarrow> byte list" where
  "json_text key v = json_key key @ QUOTE @ v @ QUOTE @ plain '',''"

definition json_number :: "string \<Rightarrow> nat \<Rightarrow> byte list" where
  "json_number key n = json_key key @ decimal_bytes n @ plain '',''"

definition drop_comma :: "byte list \<Rightarrow> byte list" where
  "drop_comma out = (if out \<noteq> [] \<and> last out = 44 then butlast out else out)"

section \<open>ELF modules\<close>

record elf_module =
  em_build_id :: "byte list option"
  em_debug_link_id :: nat
  em_version_id :: nat
  em_p_vaddr :: u64
  em_p_offset :: u64

definition elf_module_new :: elf_module where
  "elf_module_new = \<lparr>em_build_id = None, em_debug_link_id = 0, em_version_id = 0, em_p_vaddr = 0, em_p_offset = 0\<rparr>"

definition set_build_id :: "byte list option \<Rightarrow> elf_module \<Rightarrow> elf_module" where
  "set_build_id b m = m\<lparr>em_build_id := b\<rparr>"

definition set_debug_link ::
  "(byte list \<Rightarrow> u64) \<Rightarrow> byte list option \<Rightarrow> elf_module \<times> interned_strings \<Rightarrow> (elf_module \<times> interned_strings) option" where
  "set_debug_link h link st =
     (case link of
        Some l \<Rightarrow> do { (i, strings) \<leftarrow> strings_to_id h (snd st) l; Ret ((fst st)\<lparr>em_debug_link_id := i\<rparr>, strings) }
      | None \<Rightarrow> Ret ((fst st)\<lparr>em_debug_link_id := 0\<rparr>, snd st))"

definition set_version_metadata ::
  "(byte list \<Rightarrow> u64) \<Rightarrow> byte list \<Rightarrow> elf_module \<times> interned_strings \<Rightarrow> (elf_module \<times> interned_strings) option" where
  "set_version_metadata h v st = do {
     (i, strings) \<leftarrow> strings_to_id h (snd st) v;
     Ret ((fst st)\<lparr>em_version_id := i\<rparr>, strings)
   }"

definition elf_debug_link :: "interned_strings \<Rightarrow> elf_module \<Rightarrow> byte list option option" where
  "elf_debug_link strings m = do {
     s \<leftarrow> strings_from_id strings (em_debug_link_id m);
     Ret (case s of Inr l \<Rightarrow> Some l | Inl _ \<Rightarrow> None)
   }"

definition named_text :: "string \<Rightarrow> err + byte list \<Rightarrow> byte list" where
  "named_text key name = (case name of Inr n \<Rightarrow> json_text key n | Inl _ \<Rightarrow> [])"

definition elf_symbol_metadata :: "interned_strings \<Rightarrow> elf_module \<Rightarrow> byte list option" where
  "elf_symbol_metadata strings m = do {
     link \<leftarrow> strings_from_id strings (em_debug_link_id m);
     Ret (drop_comma (plain ''{'' @ json_text ''type'' (plain ''ELF'') @ named_text ''debug_link'' link @
       (case em_build_id m of Some b \<Rightarrow> json_text ''build_id'' (hex_bytes b) | None \<Rightarrow> []) @
       json_text ''p_vaddr'' (plain ''0x'' @ as_bytes (hex_text (unat (em_p_vaddr m)))) @
       json_text ''p_offset'' (plain ''0x'' @ as_bytes (hex_text (unat (em_p_offset m))))) @ plain ''}'')
   }"

definition elf_version_metadata :: "interned_strings \<Rightarrow> elf_module \<Rightarrow> byte list option" where
  "elf_version_metadata strings m = do {
     v \<leftarrow> strings_from_id strings (em_version_id m);
     Ret (case v of Inr s \<Rightarrow> s | Inl _ \<Rightarrow> plain ''{}'')
   }"

section \<open>PE modules\<close>

record pe_module =
  pe_machine :: u16
  pe_date_time :: u32
  pe_symbol_name_id :: nat
  pe_symbol_age :: u32
  pe_symbol_sig :: "byte list"
  pe_version_name_id :: nat
  pe_perfmap_sig :: "byte list"
  pe_perfmap_version :: u32
  pe_perfmap_name_id :: nat
  pe_text_offset :: u64

definition pe_module_new :: pe_module where
  "pe_module_new = \<lparr>pe_machine = 0, pe_date_time = 0, pe_symbol_name_id = 0, pe_symbol_age = 0,
     pe_symbol_sig = replicate 16 0, pe_version_name_id = 0, pe_perfmap_sig = replicate 16 0,
     pe_perfmap_version = 0, pe_perfmap_name_id = 0, pe_text_offset = 0\<rparr>"

definition pe_module_reset :: "pe_module \<Rightarrow> pe_module" where
  "pe_module_reset m = pe_module_new"

definition pe_symbol_metadata :: "interned_strings \<Rightarrow> pe_module \<Rightarrow> byte list option" where
  "pe_symbol_metadata strings m = do {
     name \<leftarrow> strings_from_id strings (pe_symbol_name_id m);
     perfmap \<leftarrow> strings_from_id strings (pe_perfmap_name_id m);
     Ret (drop_comma (plain ''{'' @ json_text ''type'' (plain ''PE'') @ named_text ''name'' name @
       json_number ''date_time'' (unat (pe_date_time m)) @ json_number ''age'' (unat (pe_symbol_age m)) @
       json_text ''signature'' (hex_bytes (pe_symbol_sig m)) @
       json_text ''perfmap_signature'' (hex_bytes (pe_perfmap_sig m)) @
       json_number ''perfmap_version'' (unat (pe_perfmap_version m)) @ named_text ''perfmap_name'' perfmap @
       json_number ''text_offset'' (unat (pe_text_offset m))) @ plain ''}'')
   }"

definition pe_version_metadata :: "interned_strings \<Rightarrow> pe_module \<Rightarrow> byte list option" where
  "pe_version_metadata strings m = do {
     v \<leftarrow> strings_from_id strings (pe_version_name_id m);
     Ret (plain ''{'' @
       (case v of Inr s \<Rightarrow> json_key ''version'' @ QUOTE @ s @ QUOTE | Inl _ \<Rightarrow> []) @ plain ''}'')
   }"

section \<open>Modules by device and node\<close>

datatype module_metadata = Elf_Module elf_module | Pe_Module pe_module

type_synonym metadata_lookup = "module_key \<rightharpoonup> module_metadata"

definition metadata_contains :: "metadata_lookup \<Rightarrow> module_key \<Rightarrow> bool" where
  "metadata_contains md k \<longleftrightarrow> md k \<noteq> None"

definition metadata_entry :: "metadata_lookup \<Rightarrow> module_key \<Rightarrow> module_metadata \<Rightarrow> metadata_lookup" where
  "metadata_entry md k m = (case md k of Some _ \<Rightarrow> md | None \<Rightarrow> md(k \<mapsto> m))"

definition to_symbol_metadata :: "interned_strings \<Rightarrow> module_metadata \<Rightarrow> byte list option" where
  "to_symbol_metadata strings m =
     (case m of Elf_Module e \<Rightarrow> elf_symbol_metadata strings e | Pe_Module p \<Rightarrow> pe_symbol_metadata strings p)"

definition to_version_metadata :: "interned_strings \<Rightarrow> module_metadata \<Rightarrow> byte list option" where
  "to_version_metadata strings m =
     (case m of Elf_Module e \<Rightarrow> elf_version_metadata strings e | Pe_Module p \<Rightarrow> pe_version_metadata strings p)"

text \<open>\<open>ExportMachine::get_mapping_metadata\<close>.\<close>

definition get_mapping_metadata :: "metadata_lookup \<Rightarrow> export_mapping \<Rightarrow> module_metadata option" where
  "get_mapping_metadata md m = (case map_node m of Some node \<Rightarrow> md node | None \<Rightarrow> None)"

end
