(* ===== verification/NetTrace.thy ===== *)
theory NetTrace
  imports ModuleMetadata MachineReplay Graph SymReaders Io
begin

text \<open>
  \<open>helpers/exporting/formats/nettrace.rs\<close>: the writer of nettrace files. The file is the list of bytes
  written to it; writing to it does not fail. The buffers kept between calls to save allocations are
  arguments. What the code takes from outside of the sources, the date of the trace, the number of cpus,
  the page size and the order in which the map of threads is drained, is a parameter.
\<close>

section \<open>Payloads\<close>

function write_varint :: "u64 \<Rightarrow> byte list" where
  "write_varint v = (if 128 \<le> v then (ucast (v AND 127) OR 128) # write_varint (drop_bit 7 v) else [ucast (v AND 127)])"
  by pat_completeness auto
termination
proof (relation "measure unat", simp)
  fix v :: u64
  assume "128 \<le> v"
  then have "0 < unat v" by (simp add: word_le_nat_alt)
  then show "(drop_bit 7 v, v) \<in> measure unat" by (simp add: drop_bit_eq_div unat_div)
qed

declare write_varint.simps [simp del]

function size_varint :: "u64 \<Rightarrow> nat" where
  "size_varint v = (if 128 \<le> v then Suc (size_varint (drop_bit 7 v)) else 1)"
  by pat_completeness auto
termination
proof (relation "measure unat", simp)
  fix v :: u64
  assume "128 \<le> v"
  then have "0 < unat v" by (simp add: word_le_nat_alt)
  then show "(drop_bit 7 v, v) \<in> measure unat" by (simp add: drop_bit_eq_div unat_div)
qed

declare size_varint.simps [simp del]

definition write_short_utf8 :: "byte list \<Rightarrow> byte list" where
  "write_short_utf8 s = u16_bytes (of_nat (length s)) @ s"

definition write_utf8 :: "byte list \<Rightarrow> byte list" where
  "write_utf8 s = write_varint (of_nat (length s)) @ s"

definition size_utf8 :: "byte list \<Rightarrow> nat" where
  "size_utf8 s = length s + size_varint (of_nat (length s))"

section \<open>Fields\<close>

record nt_field =
  nf_type :: byte
  nf_element :: "byte option"
  nf_name :: "byte list"

definition TYPE_ID_BYTE :: byte where "TYPE_ID_BYTE = 6"
definition TYPE_ID_INT16 :: byte where "TYPE_ID_INT16 = 7"
definition TYPE_ID_UINT16 :: byte where "TYPE_ID_UINT16 = 8"
definition TYPE_ID_INT32 :: byte where "TYPE_ID_INT32 = 9"
definition TYPE_ID_UINT32 :: byte where "TYPE_ID_UINT32 = 10"
definition TYPE_ID_INT64 :: byte where "TYPE_ID_INT64 = 11"
definition TYPE_ID_UINT64 :: byte where "TYPE_ID_UINT64 = 12"
definition TYPE_ID_SINGLE :: byte where "TYPE_ID_SINGLE = 13"
definition TYPE_ID_DOUBLE :: byte where "TYPE_ID_DOUBLE = 14"
definition TYPE_ID_NULL_UTF16_STRING :: byte where "TYPE_ID_NULL_UTF16_STRING = 18"
definition TYPE_ID_ARRAY :: byte where "TYPE_ID_ARRAY = 19"
definition TYPE_ID_VARUINT :: byte where "TYPE_ID_VARUINT = 21"
definition TYPE_ID_UTF8 :: byte where "TYPE_ID_UTF8 = 23"

lemmas type_id_defs = TYPE_ID_BYTE_def TYPE_ID_INT16_def TYPE_ID_UINT16_def TYPE_ID_INT32_def TYPE_ID_UINT32_def
  TYPE_ID_INT64_def TYPE_ID_UINT64_def TYPE_ID_SINGLE_def TYPE_ID_DOUBLE_def TYPE_ID_NULL_UTF16_STRING_def
  TYPE_ID_ARRAY_def TYPE_ID_VARUINT_def TYPE_ID_UTF8_def

definition field_of :: "byte \<Rightarrow> string \<Rightarrow> nt_field" where
  "field_of t name = \<lparr>nf_type = t, nf_element = None, nf_name = plain name\<rparr>"

definition VALUE_FIELD :: nt_field where "VALUE_FIELD = field_of TYPE_ID_VARUINT ''Value''"

definition PROCESS_CREATE_FIELDS :: "nt_field list" where
  "PROCESS_CREATE_FIELDS = [field_of TYPE_ID_VARUINT ''NamespaceId'', field_of TYPE_ID_UTF8 ''Name'',
     field_of TYPE_ID_UTF8 ''NamespaceName'']"

definition PROCESS_MAPPING_FIELDS :: "nt_field list" where
  "PROCESS_MAPPING_FIELDS = [field_of TYPE_ID_VARUINT ''Id'', field_of TYPE_ID_VARUINT ''StartAddress'',
     field_of TYPE_ID_VARUINT ''EndAddress'', field_of TYPE_ID_VARUINT ''FileOffset'',
     field_of TYPE_ID_UTF8 ''FileName'', field_of TYPE_ID_VARUINT ''MetadataId'']"

definition PROCESS_MAPPING_META_FIELDS :: "nt_field list" where
  "PROCESS_MAPPING_META_FIELDS = [field_of TYPE_ID_VARUINT ''Id'', field_of TYPE_ID_UTF8 ''SymbolMetadata'',
     field_of TYPE_ID_UTF8 ''VersionMetadata'']"

definition PROCESS_SYMBOL_FIELDS :: "nt_field list" where
  "PROCESS_SYMBOL_FIELDS = [field_of TYPE_ID_VARUINT ''Id'', field_of TYPE_ID_VARUINT ''MappingId'',
     field_of TYPE_ID_VARUINT ''StartAddress'', field_of TYPE_ID_VARUINT ''EndAddress'', field_of TYPE_ID_UTF8 ''Name'']"

text \<open>The type of a field by the first word of its type; \<open>unsigned\<close> by its size.\<close>

definition element_type_of :: "string \<Rightarrow> nat \<Rightarrow> byte option" where
  "element_type_of word sz =
     (if word \<in> {''u8'', ''s8'', ''char''} then Some TYPE_ID_BYTE
      else if word = ''u16'' then Some TYPE_ID_UINT16
      else if word \<in> {''s16'', ''short''} then Some TYPE_ID_INT16
      else if word = ''u32'' then Some TYPE_ID_UINT32
      else if word \<in> {''s32'', ''int''} then Some TYPE_ID_INT32
      else if word = ''u64'' then Some TYPE_ID_UINT64
      else if word \<in> {''s64'', ''long''} then Some TYPE_ID_INT64
      else if word = ''float'' then Some TYPE_ID_SINGLE
      else if word = ''double'' then Some TYPE_ID_DOUBLE
      else if word = ''unsigned'' then
        (if sz = 1 then Some TYPE_ID_BYTE else if sz = 2 then Some TYPE_ID_UINT16
         else if sz = 4 then Some TYPE_ID_UINT32 else if sz = 8 then Some TYPE_ID_UINT64 else None)
      else if word \<in> {''__rel_loc'', ''__data_loc''} then Some TYPE_ID_UINT32
      else if word = ''string'' then Some TYPE_ID_NULL_UTF16_STRING
      else None)"

definition word_at_index :: "nat \<Rightarrow> string list \<Rightarrow> string" where
  "word_at_index i ws = (if i < length ws then ws ! i else [])"

definition event_field_to_element_type :: "event_field \<Rightarrow> byte option" where
  "event_field_to_element_type f = (
     let ws = EventFormat.split_whitespace (ef_type_name f);
         word = word_at_index 0 ws
     in element_type_of (if word = ''__dyn_array'' then word_at_index 1 ws else word) (ef_size f))"

text \<open>\<open>rfind\<close>.\<close>

definition last_index :: "'a \<Rightarrow> 'a list \<Rightarrow> nat option" where
  "last_index c s = (if c \<in> set s then Some (length s - 1 - length (takeWhile (\<lambda>x. x \<noteq> c) (rev s))) else None)"

definition event_field_to_type :: "event_field \<Rightarrow> byte option" where
  "event_field_to_type f =
     (if ef_location f = StaticUTF16String then Some TYPE_ID_NULL_UTF16_STRING
      else if ef_location f = StaticLenPrefixArray then Some TYPE_ID_ARRAY
      else
        let t = ef_type_name f;
            sized = (t \<noteq> [] \<and> last t = CHR '']'' \<and>
              (case last_index (CHR ''['') t of Some i \<Rightarrow> i \<noteq> length t - 2 | None \<Rightarrow> False))
        in if sized then None else event_field_to_element_type f)"

section \<open>The writer\<close>

record nt_writer =
  nw_output :: "byte list"
  nw_event_block :: "byte list"
  nw_record_id_offset :: u32
  nw_existing_event_id :: u32
  nw_create_event_id :: u32
  nw_exit_event_id :: u32
  nw_mapping_event_id :: u32
  nw_symbol_event_id :: u32
  nw_mapping_meta_event_id :: u32
  nw_original_meta_event_ids :: "u32 set"
  nw_last_time :: u64
  nw_sync_time :: u64
  nw_flush_time :: u64
  nw_sym_id :: u32
  nw_saved_labels :: "(nat \<times> u32) list"
  nw_saved_callstacks :: "((u64 \<times> u32) \<times> u32) list"
  nw_saved_pid_tids :: "((u32 \<times> u32) \<times> u32) list"
  nw_saved_meta_ids :: "(module_key \<times> u32) list"

text \<open>The entry of a key, which is made with the number of entries where there is none.\<close>

definition saved_id :: "'k \<Rightarrow> u32 \<Rightarrow> ('k \<times> u32) list \<Rightarrow> u32 \<times> ('k \<times> u32) list" where
  "saved_id k fresh saved = (case map_of saved k of Some i \<Rightarrow> (i, saved) | None \<Rightarrow> (fresh, saved @ [(k, fresh)]))"

definition init_threads :: "nt_writer \<Rightarrow> nt_writer" where
  "init_threads w = w\<lparr>nw_saved_pid_tids := snd (saved_id (0, 0) 0 (nw_saved_pid_tids w))\<rparr>"

definition nt_out :: "byte list \<Rightarrow> nt_writer \<Rightarrow> nt_writer" where
  "nt_out bs w = w\<lparr>nw_output := nw_output w @ bs\<rparr>"

definition nt_init :: "nt_writer \<Rightarrow> nt_writer" where
  "nt_init w = nt_out (plain ''Nettrace'' @ u32_bytes 0 @ u32_bytes 6 @ u32_bytes 0) (init_threads w)"

definition writer_new :: nt_writer where
  "writer_new = nt_init \<lparr>nw_output = [], nw_event_block = [], nw_record_id_offset = 0, nw_existing_event_id = 0,
     nw_create_event_id = 0, nw_exit_event_id = 0, nw_mapping_event_id = 0, nw_symbol_event_id = 0,
     nw_mapping_meta_event_id = 0, nw_original_meta_event_ids = {}, nw_last_time = 0, nw_sync_time = 0,
     nw_flush_time = 0, nw_sym_id = 0, nw_saved_labels = [], nw_saved_callstacks = [], nw_saved_pid_tids = [],
     nw_saved_meta_ids = []\<rparr>"

section \<open>Blocks\<close>

text \<open>The position behind four bytes, and the writing over them.\<close>

definition reserve_u32 :: "nt_writer \<Rightarrow> nat \<times> nt_writer" where
  "reserve_u32 w = (let w = nt_out (u32_bytes 0) w in (length (nw_output w), w))"

definition update_u32 :: "u32 \<Rightarrow> nat \<Rightarrow> nt_writer \<Rightarrow> nt_writer" where
  "update_u32 v reserved_at w = (let out = nw_output w
     in w\<lparr>nw_output := take (reserved_at - 4) out @ u32_bytes v @ drop reserved_at out\<rparr>)"

definition write_end_block :: "nat \<Rightarrow> byte \<Rightarrow> nt_writer \<Rightarrow> nt_writer" where
  "write_end_block block_start kind w =
     (let total_size = length (nw_output w) - block_start
      in update_u32 (of_nat total_size OR push_bit 24 (ucast kind)) block_start w)"

text \<open>A block whose content is known when it is started.\<close>

definition write_block :: "byte \<Rightarrow> byte list \<Rightarrow> nt_writer \<Rightarrow> nt_writer" where
  "write_block kind body w = (let (start, w) = reserve_u32 w in write_end_block start kind (nt_out body w))"

definition write_seq_block :: "u64 \<Rightarrow> nt_writer \<Rightarrow> nt_writer" where
  "write_seq_block time_qpc = write_block 4 (u64_bytes time_qpc @ u32_bytes 1 @ u32_bytes 0)"

definition event_block_header :: "u64 \<Rightarrow> u64 \<Rightarrow> byte list" where
  "event_block_header min_time max_time = u16_bytes 20 @ u16_bytes 1 @ u64_bytes min_time @ u64_bytes max_time"

section \<open>Metadata\<close>

text \<open>\<open>split_once\<close> at a character, and \<open>trim\<close>.\<close>

definition split_once :: "nat \<Rightarrow> ustr \<Rightarrow> (ustr \<times> ustr) option" where
  "split_once c s = (let a = takeWhile (\<lambda>x. x \<noteq> c) s in if c \<in> set s then Some (a, drop (Suc (length a)) s) else None)"

definition trim_text :: "ustr \<Rightarrow> ustr" where
  "trim_text s = rev (dropWhile is_whitespace (rev (dropWhile is_whitespace s)))"

definition provider_guid :: "ustr \<Rightarrow> ustr \<times> nat option" where
  "provider_guid provider =
     (case split_once 58 provider of
        Some (p, guid) \<Rightarrow> (p, parse_hex (2 ^ 128) (trim_text (filter (\<lambda>c. c \<notin> {123, 125, 45}) guid)))
      | None \<Rightarrow> (provider, None))"

text \<open>The parts of a GUID in the order they are written.\<close>

definition guid_bytes :: "nat \<Rightarrow> byte list" where
  "guid_bytes n = u32_bytes (of_nat (n div 2 ^ 96)) @ u16_bytes (of_nat (n div 2 ^ 80)) @
     u16_bytes (of_nat (n div 2 ^ 64)) @ rev (u64_bytes (of_nat n))"

definition field_metadata :: "nt_field \<Rightarrow> byte list" where
  "field_metadata f = (
     let sz = size_utf8 (nf_name f) + 1; sz = (if nf_type f = TYPE_ID_ARRAY then sz + 1 else sz)
     in u16_bytes (of_nat sz) @ write_utf8 (nf_name f) @ [nf_type f] @
        (if nf_type f = TYPE_ID_ARRAY then [case nf_element f of Some t \<Rightarrow> t | None \<Rightarrow> 0] else []))"

definition event_metadata :: "u32 \<Rightarrow> ustr \<Rightarrow> u32 \<Rightarrow> byte list \<Rightarrow> nt_field list \<Rightarrow> byte list" where
  "event_metadata meta_id provider event_id event_name fs = (
     let (provider, guid) = provider_guid provider;
         payload = write_varint (ucast meta_id) @ write_utf8 (as_bytes provider) @ write_varint (ucast event_id) @
           write_utf8 event_name @ u16_bytes (of_nat (length fs)) @ concat (map field_metadata fs) @
           (case guid of Some g \<Rightarrow> u16_bytes 17 @ [7] @ guid_bytes g | None \<Rightarrow> u16_bytes 0)
     in u16_bytes (of_nat (length payload)) @ payload)"

definition UNIVERSAL_EVENTS :: ustr where "UNIVERSAL_EVENTS = code_points ''Universal.Events''"
definition UNIVERSAL_SYSTEM :: ustr where "UNIVERSAL_SYSTEM = code_points ''Universal.System''"

fun kinds_metadata :: "u32 \<Rightarrow> byte list list \<Rightarrow> byte list" where
  "kinds_metadata meta_id [] = []"
| "kinds_metadata meta_id (kind # kinds) =
     event_metadata meta_id UNIVERSAL_EVENTS meta_id kind [VALUE_FIELD] @ kinds_metadata (meta_id + 1) kinds"

text \<open>The fields of a record type, up to the first that has no representation.\<close>

fun record_fields :: "event_field list \<Rightarrow> nt_field list" where
  "record_fields [] = []"
| "record_fields (f # fs) =
     (case event_field_to_type f of
        None \<Rightarrow> []
      | Some t \<Rightarrow> \<lparr>nf_type = t, nf_element = (if t = TYPE_ID_ARRAY then event_field_to_element_type f else None),
          nf_name = plain (ef_name f)\<rparr> # record_fields fs)"

definition record_type_metadata :: "u32 \<Rightarrow> export_record_type \<Rightarrow> byte list" where
  "record_type_metadata meta_id t = (let fs = record_fields (rt_format t); name = code_points (rt_name t) in
     if is_original_data t then
       let (provider, event_name) =
         (case split_once 47 name of Some (a, b) \<Rightarrow> (a, b) | None \<Rightarrow> (UNIVERSAL_EVENTS, name))
       in event_metadata meta_id provider (of_nat (rt_id t)) (as_bytes event_name) fs
     else event_metadata meta_id UNIVERSAL_EVENTS meta_id (as_bytes name) (VALUE_FIELD # fs))"

fun record_types_metadata :: "u32 \<Rightarrow> export_record_type list \<Rightarrow> byte list" where
  "record_types_metadata meta_id [] = []"
| "record_types_metadata meta_id (t # ts) = record_type_metadata meta_id t @ record_types_metadata (meta_id + 1) ts"

text \<open>Of the events that are written as they were.\<close>

fun original_ids :: "u32 \<Rightarrow> export_record_type list \<Rightarrow> u32 set" where
  "original_ids meta_id [] = {}"
| "original_ids meta_id (t # ts) =
     (if is_original_data t then insert meta_id (original_ids (meta_id + 1) ts) else original_ids (meta_id + 1) ts)"

definition system_metadata :: "u32 \<Rightarrow> u32 \<Rightarrow> string \<Rightarrow> nt_field list \<Rightarrow> byte list" where
  "system_metadata meta_id event_id name fs = event_metadata meta_id UNIVERSAL_SYSTEM event_id (plain name) fs"

text \<open>An id that leaves 32 bits panics.\<close>

definition ids_fit :: "nat \<Rightarrow> bool" where
  "ids_fit n \<longleftrightarrow> n < 2 ^ 32"

definition write_metadata_object ::
  "byte list list \<Rightarrow> export_record_type list \<Rightarrow> nt_writer \<Rightarrow> nt_writer option" where
  "write_metadata_object stack_kinds record_types w =
     (if \<not> ids_fit (1 + length stack_kinds + length record_types + 5) then Panic
      else
        let first_record = 1 + of_nat (length stack_kinds);
            first_system = first_record + of_nat (length record_types);
            body = u16_bytes 0 @ kinds_metadata 1 stack_kinds @ record_types_metadata first_record record_types @
              system_metadata first_system 0 ''ExistingProcess'' PROCESS_CREATE_FIELDS @
              system_metadata (first_system + 1) 1 ''ProcessCreate'' PROCESS_CREATE_FIELDS @
              system_metadata (first_system + 2) 2 ''ProcessExit'' [] @
              system_metadata (first_system + 3) 3 ''ProcessMapping'' PROCESS_MAPPING_FIELDS @
              system_metadata (first_system + 4) 4 ''ProcessSymbol'' PROCESS_SYMBOL_FIELDS @
              system_metadata (first_system + 5) 5 ''ProcessMappingMetadata'' PROCESS_MAPPING_META_FIELDS
        in Ret ((write_block 3 body w)\<lparr>nw_record_id_offset := first_record,
             nw_original_meta_event_ids := nw_original_meta_event_ids w \<union> original_ids first_record record_types,
             nw_existing_event_id := first_system, nw_create_event_id := first_system + 1,
             nw_exit_event_id := first_system + 2, nw_mapping_event_id := first_system + 3,
             nw_symbol_event_id := first_system + 4, nw_mapping_meta_event_id := first_system + 5\<rparr>))"

section \<open>The trace\<close>

record trace_date =
  td_year :: u16
  td_month :: u16
  td_weekday :: u16
  td_day :: u16
  td_hour :: u16
  td_minute :: u16
  td_second :: u16
  td_nanosecond :: u32

definition key_value :: "string \<Rightarrow> nat \<Rightarrow> byte list" where
  "key_value key n = write_utf8 (plain key) @ write_utf8 (decimal_bytes n)"

definition write_trace_object ::
  "trace_date \<Rightarrow> u64 \<Rightarrow> u64 \<Rightarrow> u32 \<Rightarrow> u32 \<Rightarrow> u64 \<Rightarrow> nt_writer \<Rightarrow> nt_writer option" where
  "write_trace_object date sync_time_qpc qpc_freq num_of_cpus sample_freq system_page_size w =
     (if sample_freq = 0 then Panic
      else
        let nanos_between_samples = 1000000000 div unat sample_freq;
            milli_secs = unat (td_nanosecond date) div 1000000;
            body = u16_bytes (td_year date) @ u16_bytes (td_month date) @ u16_bytes (td_weekday date) @
              u16_bytes (td_day date) @ u16_bytes (td_hour date) @ u16_bytes (td_minute date) @
              u16_bytes (td_second date) @ u16_bytes (of_nat milli_secs) @ u64_bytes sync_time_qpc @
              u64_bytes qpc_freq @ u32_bytes 8 @ u32_bytes 3 @
              key_value ''HardwareThreadCount'' (unat num_of_cpus) @
              key_value ''ExpectedCPUSamplingRate'' nanos_between_samples @
              key_value ''SystemPageSize'' (unat system_page_size)
        in Ret (write_block 1 body (w\<lparr>nw_sync_time := sync_time_qpc, nw_flush_time := sync_time_qpc\<rparr>)))"

section \<open>Stacks, threads and labels\<close>

text \<open>The drained entries in the order of their ids.\<close>

definition take_saved_callstacks :: "nt_writer \<Rightarrow> ((u64 \<times> u32) \<times> u32) list \<times> nt_writer" where
  "take_saved_callstacks w = (sort_key snd (nw_saved_callstacks w), w\<lparr>nw_saved_callstacks := []\<rparr>)"

definition take_saved_labels :: "nt_writer \<Rightarrow> (nat \<times> u32) list \<times> nt_writer" where
  "take_saved_labels w = (sort_key snd (nw_saved_labels w), w\<lparr>nw_saved_labels := []\<rparr>)"

definition stack_bytes :: "u64 \<Rightarrow> u64 list \<Rightarrow> byte list" where
  "stack_bytes ip ips = u32_bytes (of_nat ((length ips + 1) * 8)) @ u64_bytes ip @ concat (map u64_bytes ips)"

fun write_stacks :: "interned_callstacks \<Rightarrow> ((u64 \<times> u32) \<times> u32) list \<Rightarrow> u64 list \<Rightarrow> (nt_writer, unit) io" where
  "write_stacks cs [] ips = io_return ()"
| "write_stacks cs (((ip, sample_id), _) # stack_list) ips = (\<lambda>w. do {
     (found, ips) \<leftarrow> callstacks_from_id cs (unat sample_id) ips;
     (case found of
        Inl e \<Rightarrow> Ret (Inl e, w)
      | Inr _ \<Rightarrow> write_stacks cs stack_list ips (nt_out (stack_bytes ip ips) w))
   })"

definition write_callstacks :: "interned_callstacks \<Rightarrow> (nt_writer, unit) io" where
  "write_callstacks cs = (\<lambda>w. (
     let (start, w) = reserve_u32 w;
         (stack_list, w) = take_saved_callstacks w;
         w = nt_out (u32_bytes 1 @ u32_bytes (of_nat (length stack_list))) w in do {
     (x, w) \<leftarrow> write_stacks cs stack_list [] w;
     (case x of Inl e \<Rightarrow> Ret (Inl e, w) | Inr _ \<Rightarrow> Ret (Inr (), write_end_block start 5 w))
   }))"

definition thread_bytes :: "(u32 \<times> u32) \<times> u32 \<Rightarrow> byte list" where
  "thread_bytes t = (case t of ((pid, tid), i) \<Rightarrow>
     let len = size_varint (ucast pid) + size_varint (ucast tid) + size_varint (ucast i) + 2
     in u16_bytes (of_nat len) @ write_varint (ucast i) @ [2] @ write_varint (ucast pid) @ [3] @ write_varint (ucast tid))"

definition write_threads :: "(((u32 \<times> u32) \<times> u32) list \<Rightarrow> ((u32 \<times> u32) \<times> u32) list) \<Rightarrow> nt_writer \<Rightarrow> nt_writer" where
  "write_threads drain w = (
     let (start, w) = reserve_u32 w;
         w = nt_out (concat (map thread_bytes (drain (nw_saved_pid_tids w)))) w;
         w = init_threads (w\<lparr>nw_saved_pid_tids := []\<rparr>)
     in write_end_block start 6 w)"

text \<open>The ids of the names that labels of their own kind have, zero where a name is not interned.\<close>

record label_names =
  ln_activity :: nat
  ln_related :: nat
  ln_version :: nat
  ln_op_code :: nat
  ln_trace :: nat
  ln_span :: nat

definition find_name :: "(byte list \<Rightarrow> u64) \<Rightarrow> interned_strings \<Rightarrow> string \<Rightarrow> nat option" where
  "find_name h strings name = do {
     i \<leftarrow> strings_find_id h strings (plain name);
     Ret (case i of Some i \<Rightarrow> i | None \<Rightarrow> 0)
   }"

definition label_names_of :: "(byte list \<Rightarrow> u64) \<Rightarrow> interned_strings \<Rightarrow> label_names option" where
  "label_names_of h strings = do {
     a \<leftarrow> find_name h strings ''ActivityId'';
     r \<leftarrow> find_name h strings ''RelatedActivityId'';
     v \<leftarrow> find_name h strings ''Version'';
     p \<leftarrow> find_name h strings ''OpCode'';
     t \<leftarrow> find_name h strings ''TraceId'';
     s \<leftarrow> find_name h strings ''SpanId'';
     Ret \<lparr>ln_activity = a, ln_related = r, ln_version = v, ln_op_code = p, ln_trace = t, ln_span = s\<rparr>
   }"

definition label_wanted :: "label_names \<Rightarrow> attribute_pair \<Rightarrow> bool" where
  "label_wanted ln a =
     (case pair_content a of
        Label _ \<Rightarrow> True
      | Number _ \<Rightarrow> True
      | Record _ \<Rightarrow>
          if pair_name a = 0 then False
          else pair_name a \<in> {ln_activity ln, ln_related ln, ln_trace ln, ln_span ln})"

definition name_or_unknown :: "interned_strings \<Rightarrow> nat \<Rightarrow> byte list option" where
  "name_or_unknown strings i = do {
     s \<leftarrow> strings_from_id strings i;
     Ret (case s of Inr s \<Rightarrow> s | Inl _ \<Rightarrow> plain ''???'')
   }"

definition record_label :: "label_names \<Rightarrow> nat \<Rightarrow> byte list \<Rightarrow> byte \<Rightarrow> byte list" where
  "record_label ln name record add_flag =
     (let activity = (if length record = 16 then
            (if name = ln_activity ln then Some 1 else if name = ln_related ln then Some 2
             else if name = ln_trace ln then Some 3 else None) else None);
          first = (case activity of Some k \<Rightarrow> (add_flag OR k) # record | None \<Rightarrow> []);
          second = (if length record = 8 \<and> name = ln_span ln then (add_flag OR 4) # record else [])
      in if activity \<noteq> None \<or> length record = 8 \<and> name = ln_span ln then first @ second
         else (add_flag OR 5) # write_utf8 (plain ''Error'') @ write_utf8 (plain ''Unknown Record Attribute''))"

definition label_bytes ::
  "label_names \<Rightarrow> ('o, 'f) machine \<Rightarrow> byte \<Rightarrow> attribute_pair \<Rightarrow> byte list option" where
  "label_bytes ln m add_flag a = do {
     name \<leftarrow> name_or_unknown (em_strings m) (pair_name a);
     (case pair_content a of
        Label i \<Rightarrow> do {
          v \<leftarrow> name_or_unknown (em_strings m) i;
          Ret ((add_flag OR 5) # write_utf8 name @ write_utf8 v)
        }
      | Number v \<Rightarrow>
          Ret (if pair_name a = ln_op_code ln then [add_flag OR 7, ucast v]
               else if pair_name a = ln_version ln then [add_flag OR 10, ucast v]
               else (add_flag OR 6) # write_utf8 name @ write_varint v)
      | Record i \<Rightarrow> do {
          record \<leftarrow> try_get_record_data i m;
          Ret (record_label ln (pair_name a) (case record of Some r \<Rightarrow> r | None \<Rightarrow> []) add_flag)
        })
   }"

fun label_list_bytes ::
  "label_names \<Rightarrow> ('o, 'f) machine \<Rightarrow> attribute_pair list \<Rightarrow> byte list option" where
  "label_list_bytes ln m [] = Ret ((128 OR 5) # write_utf8 (plain ''Error'') @ write_utf8 (plain ''Expected actual values''))"
| "label_list_bytes ln m [a] = label_bytes ln m 128 a"
| "label_list_bytes ln m (a # b # as) = do {
     x \<leftarrow> label_bytes ln m 0 a;
     xs \<leftarrow> label_list_bytes ln m (b # as);
     Ret (x @ xs)
   }"

fun labels_bytes ::
  "label_names \<Rightarrow> ('o, 'f) machine \<Rightarrow> walker \<Rightarrow> (nat \<times> u32) list \<Rightarrow> byte list option" where
  "labels_bytes ln m wk [] = Ret []"
| "labels_bytes ln m wk ((attributes_id, _) # labels) = do {
     wk \<leftarrow> machine_attributes attributes_id wk m;
     x \<leftarrow> label_list_bytes ln m (wk_attributes wk);
     xs \<leftarrow> labels_bytes ln m wk labels;
     Ret (x @ xs)
   }"

definition write_labels :: "(byte list \<Rightarrow> u64) \<Rightarrow> ('o, 'f) machine \<Rightarrow> nt_writer \<Rightarrow> nt_writer option" where
  "write_labels h m w = do {
     ln \<leftarrow> label_names_of h (em_strings m);
     let (start, w) = reserve_u32 w;
     let (labels, w) = take_saved_labels w;
     let w = nt_out (u32_bytes 1 @ u32_bytes (of_nat (length labels))) w;
     body \<leftarrow> labels_bytes ln m (with_filter (label_wanted ln) walker_default) labels;
     Ret (write_end_block start 8 (nt_out body w))
   }"

section \<open>Events\<close>

text \<open>What the export takes from its surroundings.\<close>

record nt_env =
  nv_hash :: "byte list \<Rightarrow> u64"
  nv_metadata :: metadata_lookup
  nv_drain :: "((u32 \<times> u32) \<times> u32) list \<Rightarrow> ((u32 \<times> u32) \<times> u32) list"
  nv_date :: "nat \<Rightarrow> trace_date"
  nv_qpc_freq :: u64
  nv_cpu_count :: u32
  nv_sample_freq :: u32
  nv_page_size :: u64

definition add_event_bytes :: "byte list \<Rightarrow> nt_writer \<Rightarrow> nt_writer" where
  "add_event_bytes bs w = w\<lparr>nw_event_block := nw_event_block w @ bs\<rparr>"

definition flush_event_block :: "nt_env \<Rightarrow> ('o, 'f) machine \<Rightarrow> u64 \<Rightarrow> u64 \<Rightarrow> (nt_writer, unit) io" where
  "flush_event_block env m start_time end_time = (\<lambda>w. do {
     (x, w) \<leftarrow> write_callstacks (em_callstacks m) (write_seq_block start_time w);
     (case x of
        Inl e \<Rightarrow> Ret (Inl e, w)
      | Inr _ \<Rightarrow> do {
          w \<leftarrow> write_labels (nv_hash env) m (write_threads (nv_drain env) w);
          let w = write_block 2 (event_block_header start_time end_time @ nw_event_block w) w;
          Ret (Inr (), w\<lparr>nw_event_block := [], nw_flush_time := end_time, nw_last_time := 0\<rparr>)
        })
   })"

definition write_event_timestamp :: "u64 \<Rightarrow> nt_writer \<Rightarrow> nt_writer" where
  "write_event_timestamp time w = (
     let time = (if time < nw_sync_time w then nw_sync_time w else time);
         time = (if time < nw_last_time w then nw_last_time w else time);
         delta = time - nw_last_time w
     in add_event_bytes (write_varint delta) (w\<lparr>nw_last_time := time\<rparr>))"

definition get_pid_tid_id :: "'o export_process \<Rightarrow> replay \<Rightarrow> nt_writer \<Rightarrow> u32 \<times> nt_writer" where
  "get_pid_tid_id p r w = (
     let tid = (case sample_event p r of Some s \<Rightarrow> smp_tid s | None \<Rightarrow> 0);
         (i, saved) = saved_id (ep_pid p, tid) (of_nat (length (nw_saved_pid_tids w))) (nw_saved_pid_tids w)
     in (i, w\<lparr>nw_saved_pid_tids := saved\<rparr>))"

text \<open>Zero stands for none.\<close>

definition plus_one :: "u32 option \<Rightarrow> u32 option" where
  "plus_one i = (case i of Some i \<Rightarrow> if i = - 1 then Panic else Ret (i + 1) | None \<Rightarrow> Ret 0)"

definition EVENT_BLOCK_LIMIT :: nat where "EVENT_BLOCK_LIMIT = 1048576"

definition write_event_blob ::
  "nt_env \<Rightarrow> ('o, 'f) machine \<Rightarrow> u32 \<Rightarrow> u32 \<Rightarrow> u32 option \<Rightarrow> u32 option \<Rightarrow> 'o export_process \<Rightarrow> replay \<Rightarrow>
   byte list \<Rightarrow> (nt_writer, unit) io" where
  "write_event_blob env m meta_id cpu stack_id label_id p r payload = (\<lambda>w. (
     let (thread_id, w) = get_pid_tid_id p r w;
         w = add_event_bytes (223 # write_varint (ucast meta_id) @ write_varint 0 @ write_varint 0 @
           write_varint (ucast cpu) @ write_varint (ucast thread_id)) w in do {
     stack_id \<leftarrow> plus_one stack_id;
     let w = write_event_timestamp (rp_time r) (add_event_bytes (write_varint (ucast stack_id)) w);
     label_id \<leftarrow> plus_one label_id;
     let w = add_event_bytes (write_varint (ucast label_id) @ write_varint (of_nat (length payload)) @ payload) w;
     if EVENT_BLOCK_LIMIT \<le> length (nw_event_block w)
     then flush_event_block env m (nw_flush_time w) (nw_last_time w) w
     else Ret (Inr (), w)
   }))"

definition name_or_Unknown :: "interned_strings \<Rightarrow> nat \<Rightarrow> byte list option" where
  "name_or_Unknown strings i = do {
     s \<leftarrow> strings_from_id strings i;
     Ret (case s of Inr s \<Rightarrow> s | Inl _ \<Rightarrow> plain ''Unknown'')
   }"

definition write_created_replay_event ::
  "nt_env \<Rightarrow> ('o, 'f) machine \<Rightarrow> 'o export_process \<Rightarrow> replay \<Rightarrow> (nt_writer, unit) io" where
  "write_created_replay_event env m p r = (\<lambda>w. do {
     name \<leftarrow> (case ep_comm_id p of Some i \<Rightarrow> name_or_Unknown (em_strings m) i | None \<Rightarrow> Ret (plain ''Unknown''));
     let ns_pid = (case ep_ns_pid p of Some pid \<Rightarrow> pid | None \<Rightarrow> 0);
     let payload = write_varint (ucast ns_pid) @ write_short_utf8 name @ write_short_utf8 (plain ''Unknown'');
     let i = (if rp_time r < nw_sync_time w then nw_existing_event_id w else nw_create_event_id w);
     write_event_blob env m i 0 None None p r payload w
   })"

definition write_exited_replay_event ::
  "nt_env \<Rightarrow> ('o, 'f) machine \<Rightarrow> 'o export_process \<Rightarrow> replay \<Rightarrow> (nt_writer, unit) io" where
  "write_exited_replay_event env m p r = (\<lambda>w. write_event_blob env m (nw_exit_event_id w) 0 None None p r [] w)"

definition write_sample_replay_event ::
  "nt_env \<Rightarrow> ('o, 'f) machine \<Rightarrow> 'o export_process \<Rightarrow> replay \<Rightarrow> export_sample \<Rightarrow> (nt_writer, unit) io" where
  "write_sample_replay_event env m p r s = (\<lambda>w. (
     let (callstack_id, stack_list) = saved_id (smp_ip s, smp_callstack_id s)
           (of_nat (length (nw_saved_callstacks w))) (nw_saved_callstacks w);
         (label_id, labels) = saved_id (unat (smp_attributes_id s))
           (of_nat (length (nw_saved_labels w))) (nw_saved_labels w);
         w = w\<lparr>nw_saved_callstacks := stack_list, nw_saved_labels := labels\<rparr> in do {
     v \<leftarrow> default_convert (em_spans m) (smp_value s);
     (event_id, payload) \<leftarrow>
       (if has_record s then do {
          data \<leftarrow> sample_record_data s m;
          let event_id = nw_record_id_offset w + ucast (rd_type_id data);
          Ret (event_id,
            (if event_id \<in> nw_original_meta_event_ids w then [] else write_varint v) @ rd_data data)
        }
        else Ret (ucast (smp_kind s) + 1, write_varint v));
     write_event_blob env m event_id (ucast (smp_cpu s)) (Some callstack_id) (Some label_id) p r payload w
   }))"

text \<open>The texts of a mapping's module, empty where nothing is known of it.\<close>

definition metadata_texts :: "nt_env \<Rightarrow> ('o, 'f) machine \<Rightarrow> export_mapping \<Rightarrow> byte list option" where
  "metadata_texts env m mapping =
     (case get_mapping_metadata (nv_metadata env) mapping of
        None \<Rightarrow> Ret (write_short_utf8 [] @ write_short_utf8 [])
      | Some md \<Rightarrow> do {
          symbol \<leftarrow> to_symbol_metadata (em_strings m) md;
          version \<leftarrow> to_version_metadata (em_strings m) md;
          Ret (write_short_utf8 symbol @ write_short_utf8 version)
        })"

definition write_mapping_metadata_event ::
  "nt_env \<Rightarrow> ('o, 'f) machine \<Rightarrow> 'o export_process \<Rightarrow> replay \<Rightarrow> export_mapping \<Rightarrow> (nt_writer, u32) io" where
  "write_mapping_metadata_event env m p r mapping = (\<lambda>w.
     case map_node mapping of
       None \<Rightarrow> Ret (Inr 0, w)
     | Some node \<Rightarrow>
         (case map_of (nw_saved_meta_ids w) node of
            Some i \<Rightarrow> Ret (Inr i, w)
          | None \<Rightarrow> (
              let i = of_nat (length (nw_saved_meta_ids w)) + 1;
                  w = w\<lparr>nw_saved_meta_ids := nw_saved_meta_ids w @ [(node, i)]\<rparr> in do {
              texts \<leftarrow> metadata_texts env m mapping;
              (x, w) \<leftarrow> write_event_blob env m (nw_mapping_meta_event_id w) 0 None None p r
                (write_varint (ucast i) @ texts) w;
              Ret (case x of Inl e \<Rightarrow> Inl e | Inr _ \<Rightarrow> Inr i, w)
            })))"

definition write_mapping_replay_event ::
  "nt_env \<Rightarrow> ('o, 'f) machine \<Rightarrow> 'o export_process \<Rightarrow> replay \<Rightarrow> export_mapping \<Rightarrow> (nt_writer, unit) io" where
  "write_mapping_replay_event env m p r mapping =
     io_bind (write_mapping_metadata_event env m p r mapping) (\<lambda>meta_id w. do {
       name \<leftarrow> name_or_Unknown (em_strings m) (map_filename_id mapping);
       texts \<leftarrow> metadata_texts env m mapping;
       write_event_blob env m (nw_mapping_event_id w) 0 None None p r
         (write_varint (of_nat (map_id mapping)) @ write_varint (map_start mapping) @ write_varint (map_end mapping) @
          write_varint (map_file_offset mapping) @ write_short_utf8 name @ write_varint (ucast meta_id) @ texts) w
     })"

definition write_mapping_symbol_replay_event ::
  "nt_env \<Rightarrow> ('o, 'f) machine \<Rightarrow> 'o export_process \<Rightarrow> replay \<Rightarrow> export_mapping \<Rightarrow> export_symbol \<Rightarrow> (nt_writer, unit) io" where
  "write_mapping_symbol_replay_event env m p r mapping symbol = (\<lambda>w. do {
     name \<leftarrow> name_or_Unknown (em_strings m) (sym_name_id symbol);
     if nw_sym_id w = - 1 then Panic
     else write_event_blob env m (nw_symbol_event_id w) 0 None None p r
       (write_varint (ucast (nw_sym_id w)) @ write_varint (of_nat (map_id mapping)) @ write_varint (sym_start symbol) @
        write_varint (sym_end symbol) @ write_short_utf8 name) (w\<lparr>nw_sym_id := nw_sym_id w + 1\<rparr>)
   })"

fun write_symbols ::
  "nt_env \<Rightarrow> ('o, 'f) machine \<Rightarrow> 'o export_process \<Rightarrow> replay \<Rightarrow> export_mapping \<Rightarrow> export_symbol list \<Rightarrow> (nt_writer, unit) io" where
  "write_symbols env m p r mapping [] = io_return ()"
| "write_symbols env m p r mapping (symbol # symbols) =
     io_bind (write_mapping_symbol_replay_event env m p r mapping symbol) (\<lambda>_. write_symbols env m p r mapping symbols)"

definition write_replay_event ::
  "nt_env \<Rightarrow> ('o, 'f) machine \<Rightarrow> 'o export_process \<Rightarrow> replay \<Rightarrow> (nt_writer, unit) io" where
  "write_replay_event env m p r =
     io_bind (case sample_event p r of Some s \<Rightarrow> write_sample_replay_event env m p r s | None \<Rightarrow> io_return ()) (\<lambda>_.
     io_bind (if created_event p r then write_created_replay_event env m p r else io_return ()) (\<lambda>_.
     io_bind (if exited_event p r then write_exited_replay_event env m p r else io_return ()) (\<lambda>_.
     case mapping_event p r of
       None \<Rightarrow> io_return ()
     | Some mapping \<Rightarrow>
         io_bind (write_mapping_replay_event env m p r mapping) (\<lambda>_.
         write_symbols env m p r mapping (map_symbols mapping)))))"

section \<open>The export\<close>

definition nt_finish :: "nt_env \<Rightarrow> ('o, 'f) machine \<Rightarrow> (nt_writer, unit) io" where
  "nt_finish env m = (
     let end_time = (case em_end_qpc m of Some t \<Rightarrow> t | None \<Rightarrow> - 1) in
     io_bind (\<lambda>w. if nw_event_block w \<noteq> [] then flush_event_block env m (nw_flush_time w) end_time w
                  else Ret (Inr (), w)) (\<lambda>_ w.
     Ret (Inr (), nt_out (u32_bytes 0) (write_seq_block end_time w))))"

text \<open>The callback of the replay; a panic ends the replay with no writer left.\<close>

definition nt_callback :: "nt_env \<Rightarrow> ('o, 'f) machine \<Rightarrow> ('o, nt_writer option) replay_callback" where
  "nt_callback env m p r st =
     (case st of
        None \<Rightarrow> (Inl ''panicked'', None)
      | Some w \<Rightarrow> (case write_replay_event env m p r w of
            None \<Rightarrow> (Inl ''panicked'', None)
          | Some (x, w) \<Rightarrow> (x, Some w)))"

definition nt_begin :: "nt_env \<Rightarrow> nat \<Rightarrow> u64 \<Rightarrow> ('o, 'f) machine \<Rightarrow> nt_writer option" where
  "nt_begin env date qpc m = do {
     w \<leftarrow> write_trace_object (nv_date env date) qpc (nv_qpc_freq env) (nv_cpu_count env) (nv_sample_freq env)
       (nv_page_size env) writer_new;
     write_metadata_object (em_kinds m) (em_record_types m) w
   }"

definition to_net_trace ::
  "nt_env \<Rightarrow> u32 list \<Rightarrow> ('o export_process \<Rightarrow> bool) \<Rightarrow> ('o, 'f) machine \<Rightarrow>
   ((err + unit) \<times> ('o, 'f) machine \<times> byte list) option" where
  "to_net_trace env pids predicate m =
     (case (em_start_date m, em_start_qpc m) of
        (None, _) \<Rightarrow> Ret (Inl ''No start date saved, invoke mark_start().'', m, [])
      | (_, None) \<Rightarrow> Ret (Inl ''No start qpc saved, invoke mark_start().'', m, [])
      | (Some date, Some qpc) \<Rightarrow> do {
          w \<leftarrow> nt_begin env date qpc m;
          (x, m, st) \<leftarrow> replay_by_time pids predicate (nt_callback env) m (Some w);
          w \<leftarrow> st;
          (case x of
             Inl e \<Rightarrow> Ret (Inl e, m, nw_output w)
           | Inr _ \<Rightarrow> do {
               (x, w) \<leftarrow> nt_finish env m w;
               Ret (x, m, nw_output w)
             })
        })"

end
