(* ===== verification/NetTraceProps.thy ===== *)
theory NetTraceProps
  imports NetTrace
begin

text \<open>
  A reader of nettrace files, written from the format, and what it reads from the files of the writer: the
  samples of the replay with their stacks, threads, times and payloads.
\<close>

section \<open>Reading numbers\<close>

fun read_varint :: "byte list \<Rightarrow> (nat \<times> byte list) option" where
  "read_varint [] = None"
| "read_varint (b # bs) =
     (if b < 128 then Some (unat b, bs)
      else (case read_varint bs of Some (v, rest) \<Rightarrow> Some (unat b - 128 + 128 * v, rest) | None \<Rightarrow> None))"

lemma bit_needs: "bit (w :: 'a :: len word) n \<Longrightarrow> 2 ^ n \<le> unat w"
proof -
  assume "bit w n"
  then have "bit (unat w) n" by (simp add: bit_unsigned_iff)
  then have "odd (unat w div 2 ^ n)" using bit_iff_odd [of "unat w" n] by blast
  from odd_pos [OF this] show "2 ^ n \<le> unat w" by (simp only: div_greater_zero_iff)
qed

lemma varint_byte:
  assumes "n < 128"
  shows "unat ((of_nat n :: byte) OR 128) = n + 128" "unat (of_nat n :: byte) = n"
proof -
  show u: "unat (of_nat n :: byte) = n" using assms by (simp add: unat_of_nat take_bit_nat_eq_self)
  have "\<not> bit (of_nat n :: byte) 7" using bit_needs [of "of_nat n :: byte" 7] u assms by auto
  then have "\<not> bit (of_nat n :: byte) k \<or> \<not> bit (128 :: byte) k" for k
    using bit_exp_iff [of 7 k, where 'a = "8 word"] by (cases "k = 7") auto
  then have "(of_nat n :: byte) OR 128 = of_nat n + 128" by (intro disjunctive_add [symmetric]) blast
  then show "unat ((of_nat n :: byte) OR 128) = n + 128" using assms u
    by (simp add: unat_word_ariths)
qed

lemma varint_low: "ucast (v AND 127 :: u64) = (of_nat (unat v mod 128) :: byte)"
proof -
  have "unat (v AND 127) = unat v mod 2 ^ 7" using nat_and_mask [of "unat v" 7] by (simp add: unsigned_and_eq)
  then have "(of_nat (unat (v AND 127)) :: byte) = of_nat (unat v mod 128)" by simp
  then show ?thesis by simp
qed

lemma unat_drop7: "unat (drop_bit 7 v :: u64) = unat v div 128"
  by (simp add: drop_bit_eq_div unat_div)

lemma read_write_varint: "read_varint (write_varint v @ rest) = Some (unat v, rest)"
proof (induction v rule: write_varint.induct)
  case (1 v)
  define n where "n = unat v"
  have m: "n mod 128 < 128" by simp
  show ?case
  proof (cases "128 \<le> v")
    case True
    define b :: byte where "b = of_nat (n mod 128) OR 128"
    have b: "unat b = n mod 128 + 128" unfolding b_def using varint_byte(1) [OF m] .
    then have "\<not> b < 128" by (simp add: word_less_nat_alt)
    moreover have "write_varint v = b # write_varint (drop_bit 7 v)"
      using True by (subst write_varint.simps) (simp add: varint_low b_def n_def)
    ultimately show ?thesis using "1.IH" [OF True] b by (simp add: unat_drop7 flip: n_def)
  next
    case False
    then have n: "n < 128" by (simp add: n_def word_le_nat_alt)
    then have "(of_nat n :: byte) < 128" using varint_byte(2) [OF n] by (simp add: word_less_nat_alt)
    moreover have "write_varint v = [of_nat n]"
      using False n by (subst write_varint.simps) (simp add: varint_low n_def)
    ultimately show ?thesis using varint_byte(2) [OF n] by (simp add: n_def)
  qed
qed

lemma size_write_varint: "length (write_varint v) = size_varint v"
proof (induction v rule: write_varint.induct)
  case (1 v)
  then show ?case by (subst write_varint.simps, subst size_varint.simps) simp
qed

lemma size_varint_bound: "unat v < 128 ^ k \<Longrightarrow> 0 < k \<Longrightarrow> size_varint v \<le> k"
proof (induction v arbitrary: k rule: size_varint.induct)
  case (1 v)
  show ?case
  proof (cases "128 \<le> v")
    case True
    then have big: "128 \<le> unat v" by (simp add: word_le_nat_alt)
    then obtain j where j: "k = Suc j" "0 < j" using "1.prems" by (cases k; cases "k - 1") auto
    have "unat v div 128 < 128 ^ j" using "1.prems"(1) j by (simp add: less_mult_imp_div_less mult.commute)
    then show ?thesis using "1.IH" [OF True, of j] True j by (subst size_varint.simps) (simp add: unat_drop7)
  qed (subst size_varint.simps, use "1.prems" in simp)
qed

section \<open>Reading blocks\<close>

definition encode_block :: "nat \<times> byte list \<Rightarrow> byte list" where
  "encode_block b = u32_bytes (of_nat (length (snd b)) OR push_bit 24 (of_nat (fst b))) @ snd b"

text \<open>A size of 24 bits and a kind of 8; a size and kind of zero end the file.\<close>

function read_blocks :: "byte list \<Rightarrow> (nat \<times> byte list) list option" where
  "read_blocks bs =
     (if length bs < 4 then None
      else let h = le_nat (take 4 bs); rest = drop 4 bs; sz = h mod 2 ^ 24; kind = h div 2 ^ 24
           in if h = 0 then (if rest = [] then Some [] else None)
              else if length rest < sz then None
              else map_option (Cons (kind, take sz rest)) (read_blocks (drop sz rest)))"
  by pat_completeness auto
termination by (relation "measure length") auto

declare read_blocks.simps [simp del]

lemma le_nat_words: "le_nat (u16_bytes a) = unat a" "le_nat (u32_bytes b) = unat b" "le_nat (u64_bytes c) = unat c"
proof -
  have "unat a < 2 ^ 16" "unat b < 2 ^ 32" "unat c < 2 ^ 64"
    by (rule unsigned_less [THEN order_less_le_trans], simp)+
  then show "le_nat (u16_bytes a) = unat a" "le_nat (u32_bytes b) = unat b" "le_nat (u64_bytes c) = unat c"
    by (simp_all add: u16_bytes_def u32_bytes_def u64_bytes_def le_nat_to_le)
qed

lemma header_word:
  assumes "n < 2 ^ 24"
  shows "of_nat n OR push_bit 24 (of_nat k) = (of_nat (n + 2 ^ 24 * k) :: u32)"
proof -
  have un: "unat (of_nat n :: u32) = n" using assms by (simp add: unat_of_nat take_bit_nat_eq_self)
  have "\<not> bit (of_nat n :: u32) j" if "24 \<le> j" for j
  proof -
    have "n < 2 ^ j" using assms that by (meson less_le_trans one_le_numeral power_increasing)
    then show ?thesis using bit_needs [of "of_nat n :: u32" j] un by auto
  qed
  then have "\<not> bit (of_nat n :: u32) j \<or> \<not> bit (push_bit 24 (of_nat k) :: u32) j" for j
    by (cases "24 \<le> j") (auto simp: bit_push_bit_iff)
  then have "of_nat n OR push_bit 24 (of_nat k) = (of_nat n + push_bit 24 (of_nat k) :: u32)"
    by (intro disjunctive_add [symmetric]) blast
  then show ?thesis by (simp add: push_bit_eq_mult mult.commute)
qed

lemma block_header:
  assumes "n < 2 ^ 24" "k < 256"
  shows "le_nat (u32_bytes (of_nat n OR push_bit 24 (of_nat k))) = n + 2 ^ 24 * k"
proof -
  have "unat (of_nat (n + 2 ^ 24 * k) :: u32) = n + 2 ^ 24 * k"
    using assms by (intro unat_of_nat_word(2)) simp
  then show ?thesis by (simp only: le_nat_words header_word [OF assms(1)])
qed

lemma read_blocks_encoded:
  assumes "\<forall>b \<in> set blocks. 0 < fst b \<and> fst b < 256 \<and> length (snd b) < 2 ^ 24"
  shows "read_blocks (concat (map encode_block blocks) @ u32_bytes 0) = Some blocks"
  using assms
proof (induction blocks)
  case Nil
  have "le_nat (u32_bytes 0) = 0" by (simp add: u32_bytes_def le_nat_to_le)
  then show ?case by (subst read_blocks.simps) simp
next
  case (Cons b blocks)
  obtain k body where b: "b = (k, body)" by (cases b)
  let ?rest = "concat (map encode_block blocks) @ u32_bytes 0"
  have h: "le_nat (u32_bytes (of_nat (length body) OR push_bit 24 (of_nat k))) = length body + 2 ^ 24 * k"
    using Cons.prems b by (intro block_header) auto
  have "read_blocks ((u32_bytes (of_nat (length body) OR push_bit 24 (of_nat k)) @ body) @ ?rest) =
      map_option (Cons (k, body)) (read_blocks ?rest)"
    using h Cons.prems b by (subst read_blocks.simps) (simp add: Let_def)
  moreover have "concat (map encode_block (b # blocks)) @ u32_bytes 0 =
      (u32_bytes (of_nat (length body) OR push_bit 24 (of_nat k)) @ body) @ ?rest"
    by (simp add: b encode_block_def)
  ultimately show ?case using Cons by (simp only: b) simp
qed

section \<open>Reading events\<close>

record nt_raw =
  ra_meta :: u64
  ra_cpu :: u64
  ra_thread :: u64
  ra_stack :: u64
  ra_time :: u64
  ra_label :: u64
  ra_payload :: "byte list"

text \<open>An event as the writer encodes it behind one at a time.\<close>

definition encode_event :: "u64 \<Rightarrow> nt_raw \<Rightarrow> byte list" where
  "encode_event t0 e = 223 # write_varint (ra_meta e) @ write_varint 0 @ write_varint 0 @ write_varint (ra_cpu e) @
     write_varint (ra_thread e) @ write_varint (ra_stack e) @ write_varint (ra_time e - t0) @
     write_varint (ra_label e) @ write_varint (of_nat (length (ra_payload e))) @ ra_payload e"

definition read_word :: "byte list \<Rightarrow> (u64 \<times> byte list) option" where
  "read_word bs = map_option (\<lambda>(v, rest). (of_nat v, rest)) (read_varint bs)"

definition read_event :: "u64 \<Rightarrow> byte list \<Rightarrow> (nt_raw \<times> byte list) option" where
  "read_event t0 bs =
     (if bs = [] \<or> hd bs \<noteq> 223 then None
      else do {
        (meta, bs) \<leftarrow> read_word (tl bs);
        (_, bs) \<leftarrow> read_word bs;
        (_, bs) \<leftarrow> read_word bs;
        (cpu, bs) \<leftarrow> read_word bs;
        (thread, bs) \<leftarrow> read_word bs;
        (stack, bs) \<leftarrow> read_word bs;
        (delta, bs) \<leftarrow> read_word bs;
        (label, bs) \<leftarrow> read_word bs;
        (n, bs) \<leftarrow> read_word bs;
        if length bs < unat n then None
        else Some (\<lparr>ra_meta = meta, ra_cpu = cpu, ra_thread = thread, ra_stack = stack, ra_time = t0 + delta,
          ra_label = label, ra_payload = take (unat n) bs\<rparr>, drop (unat n) bs)
      })"

lemma read_word_written: "read_word (write_varint v @ rest) = Some (v, rest)"
  by (simp add: read_word_def read_write_varint)

lemma read_event_written:
  assumes "length (ra_payload e) < 2 ^ 64"
  shows "read_event t0 (encode_event t0 e @ rest) = Some (e, rest)"
  using unat_of_nat_word(3) [OF assms]
  by (simp add: read_event_def encode_event_def read_word_written)

function read_events :: "u64 \<Rightarrow> byte list \<Rightarrow> nt_raw list option" where
  "read_events t0 bs =
     (if bs = [] then Some []
      else (case read_event t0 bs of
          None \<Rightarrow> None
        | Some (e, rest) \<Rightarrow>
            if length rest < length bs then map_option (Cons e) (read_events (ra_time e) rest) else None))"
  by pat_completeness auto
termination by (relation "measure (length \<circ> snd)") auto

declare read_events.simps [simp del]

fun encode_events :: "u64 \<Rightarrow> nt_raw list \<Rightarrow> byte list" where
  "encode_events t0 [] = []"
| "encode_events t0 (e # es) = encode_event t0 e @ encode_events (ra_time e) es"

definition last_of :: "u64 \<Rightarrow> nt_raw list \<Rightarrow> u64" where
  "last_of t es = (if es = [] then t else ra_time (last es))"

lemma encode_events_snoc: "encode_events t (es @ [e]) = encode_events t es @ encode_event (last_of t es) e"
  by (induction es arbitrary: t) (simp_all add: last_of_def)

lemma read_events_written:
  assumes "\<forall>e \<in> set es. length (ra_payload e) < 2 ^ 64"
  shows "read_events t0 (encode_events t0 es) = Some es"
  using assms
proof (induction es arbitrary: t0)
  case Nil
  show ?case by (subst read_events.simps) simp
next
  case (Cons e es)
  have "read_event t0 (encode_event t0 e @ encode_events (ra_time e) es) = Some (e, encode_events (ra_time e) es)"
    using Cons.prems by (intro read_event_written) simp
  moreover have "encode_event t0 e \<noteq> []" by (simp add: encode_event_def)
  ultimately show ?case using Cons by (subst read_events.simps) simp
qed

section \<open>Reading stacks and threads\<close>

fun read_words :: "nat \<Rightarrow> byte list \<Rightarrow> u64 list" where
  "read_words 0 bs = []"
| "read_words (Suc n) bs = u64_of (take 8 bs) # read_words n (drop 8 bs)"

fun read_stack_list :: "nat \<Rightarrow> byte list \<Rightarrow> u64 list list option" where
  "read_stack_list 0 bs = (if bs = [] then Some [] else None)"
| "read_stack_list (Suc n) bs =
     (let sz = le_nat (take 4 bs); rest = drop 4 bs
      in if length bs < 4 \<or> length rest < sz then None
         else map_option (Cons (read_words (sz div 8) (take sz rest))) (read_stack_list n (drop sz rest)))"

definition read_stacks :: "byte list \<Rightarrow> u64 list list option" where
  "read_stacks bs = (if length bs < 8 then None else read_stack_list (le_nat (take 4 (drop 4 bs))) (drop 8 bs))"

lemma read_words_written: "read_words (length ws) (concat (map u64_bytes ws) @ rest) = ws"
  by (induction ws) simp_all

lemma read_stack_list_written:
  assumes "\<forall>s \<in> set tbl. length (snd s) < 2 ^ 28"
  shows "read_stack_list (length tbl) (concat (map (\<lambda>(ip, ips). stack_bytes ip ips) tbl)) =
    Some (map (\<lambda>(ip, ips). ip # ips) tbl)"
  using assms
proof (induction tbl)
  case (Cons s tbl)
  obtain ip ips where s: "s = (ip, ips)" by (cases s)
  have "(length ips + 1) * 8 < 2 ^ 32" using Cons.prems s by simp
  then have h: "le_nat (u32_bytes (of_nat ((length ips + 1) * 8))) = (length ips + 1) * 8"
    by (simp only: le_nat_words unat_of_nat_word(2))
  let ?ws = "concat (map u64_bytes (ip # ips))" and ?rest = "concat (map (\<lambda>(ip, ips). stack_bytes ip ips) tbl)"
  have l: "length ?ws = (length ips + 1) * 8" by (induction ips) simp_all
  have "read_words (length (ip # ips)) (?ws @ []) = ip # ips" by (rule read_words_written)
  then have w: "read_words ((length ips + 1) * 8 div 8) ?ws = ip # ips" by (simp del: read_words.simps)
  have sb: "stack_bytes ip ips = u32_bytes (of_nat ((length ips + 1) * 8)) @ ?ws" by (simp add: stack_bytes_def)
  have "read_stack_list (Suc (length tbl)) (stack_bytes ip ips @ ?rest) =
      map_option (Cons (ip # ips)) (read_stack_list (length tbl) ?rest)"
    unfolding sb read_stack_list.simps Let_def using h l w by (simp del: read_words.simps of_nat_mult of_nat_add)
  then show ?case using Cons s by simp
qed simp

fun read_thread_list :: "nat \<Rightarrow> byte list \<Rightarrow> (u64 \<times> u64 \<times> u64) list option" where
  "read_thread_list 0 bs = (if bs = [] then Some [] else None)"
| "read_thread_list (Suc n) bs =
     (if bs = [] then Some []
      else let sz = le_nat (take 2 bs); body = take sz (drop 2 bs); rest = drop sz (drop 2 bs) in
        if length (drop 2 bs) < sz then None
        else do {
          (i, body) \<leftarrow> read_word body;
          (pid, body) \<leftarrow> (if body \<noteq> [] \<and> hd body = 2 then read_word (tl body) else None);
          (tid, body) \<leftarrow> (if body \<noteq> [] \<and> hd body = 3 then read_word (tl body) else None);
          if body = [] then map_option (Cons (i, pid, tid)) (read_thread_list n rest) else None
        })"

definition read_threads :: "byte list \<Rightarrow> (u64 \<times> u64 \<times> u64) list option" where
  "read_threads bs = read_thread_list (length bs) bs"

definition thread_entry :: "(u32 \<times> u32) \<times> u32 \<Rightarrow> u64 \<times> u64 \<times> u64" where
  "thread_entry t = (ucast (snd t), ucast (fst (fst t)), ucast (snd (fst t)))"

lemma read_thread_list_written:
  "length tbl \<le> n \<Longrightarrow> read_thread_list n (concat (map thread_bytes tbl)) = Some (map thread_entry tbl)"
proof (induction tbl arbitrary: n)
  case Nil
  then show ?case by (cases n) simp_all
next
  case (Cons t tbl)
  obtain pid tid i where t: "t = ((pid, tid), i)" by (cases t) auto
  obtain k where n: "n = Suc k" "length tbl \<le> k" using Cons.prems by (cases n) auto
  define body where "body = write_varint (ucast i) @ 2 # write_varint (ucast pid) @ 3 # write_varint (ucast tid)"
  have sizes: "size_varint v \<le> 10" for v
  proof (rule size_varint_bound)
    have "unat v < 2 ^ 64" by (rule unsigned_less [THEN order_less_le_trans]) simp
    then show "unat v < 128 ^ 10" by simp
  qed simp
  have l: "length body = size_varint (ucast pid) + size_varint (ucast tid) + size_varint (ucast i) + 2"
    by (simp add: body_def size_write_varint)
  then have "length body < 2 ^ 16" using sizes [of "ucast pid"] sizes [of "ucast tid"] sizes [of "ucast i"] by simp
  then have h: "le_nat (u16_bytes (of_nat (length body))) = length body" by (simp only: le_nat_words unat_of_nat_word(1))
  have tb: "thread_bytes t = u16_bytes (of_nat (length body)) @ body"
    unfolding l by (simp add: thread_bytes_def t Let_def body_def)
  have tid: "read_word (write_varint (ucast tid)) = Some (ucast tid, [])" using read_word_written [of "ucast tid" "[]"] by simp
  have "2 \<le> length (thread_bytes t)" unfolding tb by (simp add: u16_bytes_def)
  then have ne: "thread_bytes t \<noteq> []" by auto
  have "read_thread_list (Suc k) (thread_bytes t @ concat (map thread_bytes tbl)) =
      map_option (Cons (ucast i, ucast pid, ucast tid)) (read_thread_list k (concat (map thread_bytes tbl)))"
    unfolding tb read_thread_list.simps Let_def using ne h tb
    by (simp add: body_def read_word_written tid)
  then show ?case using Cons.IH [OF n(2)] n(1) by (simp add: thread_entry_def t)
qed

lemma read_threads_written: "read_threads (concat (map thread_bytes tbl)) = Some (map thread_entry tbl)"
proof -
  have "thread_bytes t \<noteq> []" for t by (auto simp: thread_bytes_def Let_def split: prod.splits)
  then have "length tbl \<le> length (concat (map thread_bytes tbl))"
  proof (induction tbl)
    case (Cons t tbl)
    then have "1 \<le> length (thread_bytes t)" by (cases "thread_bytes t") auto
    then show ?case using Cons by simp
  qed simp
  then show ?thesis unfolding read_threads_def by (rule read_thread_list_written)
qed

section \<open>Reading a file\<close>

record nt_event =
  tv_meta :: u64
  tv_cpu :: u64
  tv_thread :: "u64 \<times> u64"
  tv_stack :: "u64 list option"
  tv_time :: u64
  tv_payload :: "byte list"

text \<open>An event with its thread and its stack looked up. Stacks and labels count from one.\<close>

definition resolve :: "u64 list list \<Rightarrow> (u64 \<times> u64 \<times> u64) list \<Rightarrow> nat \<Rightarrow> nt_raw \<Rightarrow> nt_event option" where
  "resolve S T labels ra = do {
     thread \<leftarrow> map_of T (ra_thread ra);
     if length S < unat (ra_stack ra) \<or> labels < unat (ra_label ra) then None
     else Some \<lparr>tv_meta = ra_meta ra, tv_cpu = ra_cpu ra, tv_thread = thread,
       tv_stack = (if ra_stack ra = 0 then None else Some (S ! (unat (ra_stack ra) - 1))),
       tv_time = ra_time ra, tv_payload = ra_payload ra\<rparr>
   }"

text \<open>The blocks after those of the trace and the metadata: sequence points, each with the stacks, threads,
  labels and events behind it, and one at the end.\<close>

fun read_segments :: "(nat \<times> byte list) list \<Rightarrow> nt_event list option" where
  "read_segments [b] = (if fst b = 4 then Some [] else None)"
| "read_segments (seq # stack_block # threads # labels # events # rest) =
     (if [fst seq, fst stack_block, fst threads, fst labels, fst events] = [4, 5, 6, 8, 2] then do {
        S \<leftarrow> read_stacks (snd stack_block);
        T \<leftarrow> read_threads (snd threads);
        raws \<leftarrow> read_events 0 (drop 20 (snd events));
        evs \<leftarrow> those (map (resolve S T (le_nat (take 4 (drop 4 (snd labels))))) raws);
        more \<leftarrow> read_segments rest;
        Some (evs @ more)
      } else None)"
| "read_segments _ = None"

definition nettrace_magic :: "byte list" where
  "nettrace_magic = plain ''Nettrace'' @ u32_bytes 0 @ u32_bytes 6 @ u32_bytes 0"

definition read_trace :: "byte list \<Rightarrow> nt_event list option" where
  "read_trace bs =
     (if take 20 bs \<noteq> nettrace_magic then None
      else do {
        blocks \<leftarrow> read_blocks (drop 20 bs);
        if map fst (take 2 blocks) = [1, 3] then read_segments (drop 2 blocks) else None
      })"

definition segs_ok :: "(nat \<times> byte list) list \<Rightarrow> nt_event list \<Rightarrow> bool" where
  "segs_ok blocks evs \<longleftrightarrow>
     (\<forall>rest more. read_segments rest = Some more \<longrightarrow> read_segments (blocks @ rest) = Some (evs @ more))"

lemma segs_ok_append: "segs_ok a xs \<Longrightarrow> segs_ok b ys \<Longrightarrow> segs_ok (a @ b) (xs @ ys)"
  by (simp add: segs_ok_def)

section \<open>What the writer keeps\<close>

definition ids_ok :: "('k \<times> u32) list \<Rightarrow> bool" where
  "ids_ok tbl \<longleftrightarrow> distinct (map fst tbl) \<and> map snd tbl = map of_nat [0..<length tbl]"

lemma ids_ok_Nil [simp]: "ids_ok []"
  by (simp add: ids_ok_def)

lemma table_nth: "ids_ok tbl \<Longrightarrow> j < length tbl \<Longrightarrow> snd (tbl ! j) = of_nat j"
  unfolding ids_ok_def by (metis add.left_neutral length_map nth_map nth_upt diff_zero length_upt)

lemma table_lookup:
  assumes "ids_ok tbl" "length tbl < 2 ^ 32" "map_of tbl k = Some i"
  shows "unat i < length tbl \<and> tbl ! unat i = (k, i)"
proof -
  obtain j where j: "j < length tbl" "tbl ! j = (k, i)"
    using map_of_SomeD [OF assms(3)] by (auto simp: in_set_conv_nth)
  then have "i = of_nat j" using table_nth [OF assms(1) j(1)] by simp
  then have "unat i = j" using j(1) assms(2) by (simp add: unat_of_nat take_bit_nat_eq_self)
  then show ?thesis using j by simp
qed

lemma saved_id_ok:
  assumes "ids_ok tbl" "saved_id k (of_nat (length tbl)) tbl = (i, tbl')"
  shows "ids_ok tbl' \<and> map_of tbl' k = Some i \<and> (\<forall>k' j. map_of tbl k' = Some j \<longrightarrow> map_of tbl' k' = Some j) \<and>
    length tbl' \<le> Suc (length tbl) \<and> length tbl \<le> length tbl'"
proof (cases "map_of tbl k")
  case None
  then have n: "k \<notin> fst ` set tbl" by (simp add: map_of_eq_None_iff)
  have tbl': "tbl' = tbl @ [(k, of_nat (length tbl))]" "i = of_nat (length tbl)"
    using assms(2) None by (auto simp: saved_id_def)
  have "map_of tbl' k = Some i" using None by (simp add: tbl' map_add_def)
  moreover have "map_of tbl' k' = Some j" if "map_of tbl k' = Some j" for k' j
    using that None by (auto simp: tbl' map_add_def)
  ultimately show ?thesis using assms(1) n by (simp add: ids_ok_def tbl')
next
  case (Some j)
  then show ?thesis using assms by (auto simp: saved_id_def)
qed

lemma table_sorted:
  assumes "ids_ok tbl" "length tbl < 2 ^ 32"
  shows "sort_key snd tbl = tbl"
proof (rule sort_key_id_if_sorted)
  have "sorted (map of_nat [0..<length tbl] :: u32 list)"
    unfolding sorted_iff_nth_mono using assms(2) unat_of_nat_word(2) by (auto simp: word_le_nat_alt)
  then show "sorted (map snd tbl)" using assms(1) by (simp add: ids_ok_def)
qed

definition frames_at :: "('o, 'f) machine \<Rightarrow> u32 \<Rightarrow> u64 list" where
  "frames_at m sid = (case from_id (em_callstacks m) (unat sid) of Some (Some fs) \<Rightarrow> fs | _ \<Rightarrow> [])"

definition thread_matches :: "nt_writer \<Rightarrow> nt_raw \<Rightarrow> nt_event \<Rightarrow> bool" where
  "thread_matches w ra e \<longleftrightarrow> (\<exists>pid tid i. map_of (nw_saved_pid_tids w) (pid, tid) = Some i \<and>
     ra_thread ra = ucast i \<and> tv_thread e = (ucast pid, ucast tid))"

definition stack_matches :: "('o, 'f) machine \<Rightarrow> nt_writer \<Rightarrow> nt_raw \<Rightarrow> nt_event \<Rightarrow> bool" where
  "stack_matches m w ra e \<longleftrightarrow> (case tv_stack e of
     None \<Rightarrow> ra_stack ra = 0
   | Some fs \<Rightarrow> \<exists>ip sid i. map_of (nw_saved_callstacks w) (ip, sid) = Some i \<and> i \<noteq> - 1 \<and>
       ra_stack ra = ucast (i + 1) \<and> fs = ip # frames_at m sid)"

definition matches :: "('o, 'f) machine \<Rightarrow> nt_writer \<Rightarrow> nt_raw \<Rightarrow> nt_event \<Rightarrow> bool" where
  "matches m w ra e \<longleftrightarrow> tv_meta e = ra_meta ra \<and> tv_cpu e = ra_cpu ra \<and> tv_time e = ra_time ra \<and>
     tv_payload e = ra_payload ra \<and> thread_matches w ra e \<and> stack_matches m w ra e \<and>
     unat (ra_label ra) \<le> length (nw_saved_labels w)"

lemma encode_events_length: "length raws \<le> length (encode_events t raws)"
proof (induction raws arbitrary: t)
  case (Cons a raws)
  have "length (encode_events t (a # raws)) = length (encode_event t a) + length (encode_events (ra_time a) raws)" by simp
  moreover have "1 \<le> length (encode_event t a)" by (simp add: encode_event_def)
  ultimately show ?case using Cons.IH [of "ra_time a"] by simp
qed simp

end
