(* ===== verification/NetTraceFile.thy ===== *)
theory NetTraceFile
  imports NetTraceProps
begin

text \<open>
  The file that an export writes, read back: blocks and their content, what one event adds, and the samples of
  the whole replay.
\<close>

section \<open>Blocks\<close>

lemma end_block:
  "write_end_block (length out + 4) k (w\<lparr>nw_output := out @ u32_bytes 0 @ body\<rparr>) =
    w\<lparr>nw_output := out @ encode_block (unat k, body)\<rparr>"
proof -
  have "length (u32_bytes x) = 4" for x by (simp add: u32_bytes_def)
  then show ?thesis by (simp add: write_end_block_def update_u32_def encode_block_def Let_def)
qed

lemma end_block_at:
  assumes "nw_output w = out @ u32_bytes 0 @ body"
  shows "write_end_block (length out + 4) k w = w\<lparr>nw_output := out @ encode_block (unat k, body)\<rparr>"
  using end_block [of out k body w] by (simp flip: assms)

lemma reserve: "reserve_u32 w = (length (nw_output w) + 4, w\<lparr>nw_output := nw_output w @ u32_bytes 0\<rparr>)"
  by (simp add: reserve_u32_def nt_out_def Let_def u32_bytes_def)

lemma write_block_out: "write_block k body w = nt_out (encode_block (unat k, body)) w"
  using end_block_at [of "nt_out body (w\<lparr>nw_output := nw_output w @ u32_bytes 0\<rparr>)" "nw_output w" body k]
  by (simp add: write_block_def reserve nt_out_def)

lemma write_stacks_out:
  assumes "write_stacks (em_callstacks m) tbl ips w = Some (Inr (), w')"
  shows "w' = nt_out (concat (map (\<lambda>(ip, ips). stack_bytes ip ips) (map (\<lambda>((ip, sid), _). (ip, frames_at m sid)) tbl))) w"
  using assms
proof (induction tbl arbitrary: ips w)
  case (Cons x tbl)
  obtain ip sid i where x: "x = ((ip, sid), i)" by (cases x) auto
  from Cons.prems x obtain fs where "from_id (em_callstacks m) (unat sid) = Some (Some fs)"
    "write_stacks (em_callstacks m) tbl fs (nt_out (stack_bytes ip fs) w) = Some (Inr (), w')"
    by (auto simp: callstacks_from_id_def split: option.splits bind_splits)
  with Cons.IH [OF this(2)] x show ?case by (simp add: nt_out_def frames_at_def)
qed (simp add: nt_out_def)

lemma write_callstacks_out:
  assumes "write_callstacks (em_callstacks m) w = Some (Inr (), w')"
    "ids_ok (nw_saved_callstacks w)" "length (nw_saved_callstacks w) < 2 ^ 32"
  shows "w' = (nt_out (encode_block (5, u32_bytes 1 @ u32_bytes (of_nat (length (nw_saved_callstacks w))) @
      concat (map (\<lambda>(ip, ips). stack_bytes ip ips)
        (map (\<lambda>((ip, sid), _). (ip, frames_at m sid)) (nw_saved_callstacks w))))) w)\<lparr>nw_saved_callstacks := []\<rparr>"
proof -
  note sorted = table_sorted [OF assms(2,3)]
  let ?tbl = "nw_saved_callstacks w"
  let ?head = "u32_bytes 1 @ u32_bytes (of_nat (length ?tbl))"
  let ?w = "nt_out ?head (w\<lparr>nw_output := nw_output w @ u32_bytes 0, nw_saved_callstacks := []\<rparr>)"
  obtain v where v: "write_stacks (em_callstacks m) ?tbl [] ?w = Some (Inr (), v)"
    "w' = write_end_block (length (nw_output w) + 4) 5 v"
    using assms(1)
    by (auto simp: write_callstacks_def reserve take_saved_callstacks_def sorted Let_def split: sum.splits bind_splits)
  let ?body = "?head @ concat (map (\<lambda>(ip, ips). stack_bytes ip ips) (map (\<lambda>((ip, sid), _). (ip, frames_at m sid)) ?tbl))"
  have "nw_output v = nw_output w @ u32_bytes 0 @ ?body"
    using write_stacks_out [OF v(1)] by (simp add: nt_out_def)
  from end_block_at [OF this, of 5] show ?thesis
    unfolding v(2) write_stacks_out [OF v(1)] by (simp add: nt_out_def)
qed

lemma write_threads_out:
  "write_threads drain w = (nt_out (encode_block (6, concat (map thread_bytes (drain (nw_saved_pid_tids w))))) w)
    \<lparr>nw_saved_pid_tids := [((0, 0), 0)]\<rparr>"
proof -
  let ?body = "concat (map thread_bytes (drain (nw_saved_pid_tids w)))"
  let ?w = "w\<lparr>nw_output := nw_output w @ u32_bytes 0 @ ?body, nw_saved_pid_tids := [((0, 0), 0)]\<rparr>"
  have "write_threads drain w = write_end_block (length (nw_output w) + 4) 6 ?w"
    by (simp add: write_threads_def reserve nt_out_def init_threads_def saved_id_def Let_def)
  also have "\<dots> = ?w\<lparr>nw_output := nw_output w @ encode_block (unat (6 :: byte), ?body)\<rparr>"
    by (rule end_block_at) simp
  finally show ?thesis by (simp add: nt_out_def)
qed

lemma write_labels_out:
  assumes "write_labels h m w = Some w'" "ids_ok (nw_saved_labels w)" "length (nw_saved_labels w) < 2 ^ 32"
  shows "\<exists>body. w' = (nt_out (encode_block (8, u32_bytes 1 @ u32_bytes (of_nat (length (nw_saved_labels w))) @ body)) w)
    \<lparr>nw_saved_labels := []\<rparr>"
proof -
  note sorted = table_sorted [OF assms(2,3)]
  let ?head = "u32_bytes 1 @ u32_bytes (of_nat (length (nw_saved_labels w)))"
  obtain body where w': "w' = write_end_block (length (nw_output w) + 4) 8
      (w\<lparr>nw_saved_labels := [], nw_output := nw_output w @ u32_bytes 0 @ ?head @ body\<rparr>)" (is "_ = write_end_block _ _ ?w")
    using assms(1) by (auto simp: write_labels_def reserve take_saved_labels_def sorted nt_out_def Let_def split: bind_splits)
  have "write_end_block (length (nw_output w) + 4) 8 ?w = ?w\<lparr>nw_output := nw_output w @ encode_block (unat (8 :: byte), ?head @ body)\<rparr>"
    by (rule end_block_at) simp
  then show ?thesis unfolding w' by (auto simp: nt_out_def intro: exI [of _ body])
qed

text \<open>The fields that flushing leaves alone.\<close>

definition settings :: "nt_writer \<Rightarrow> u32 \<times> u32 set \<times> u64" where
  "settings w = (nw_record_id_offset w, nw_original_meta_event_ids w, nw_sync_time w)"

definition tables_fit :: "nt_writer \<Rightarrow> bool" where
  "tables_fit w \<longleftrightarrow> ids_ok (nw_saved_labels w) \<and> ids_ok (nw_saved_callstacks w) \<and> ids_ok (nw_saved_pid_tids w) \<and>
     length (nw_saved_labels w) < 2 ^ 32 - 1 \<and> length (nw_saved_callstacks w) < 2 ^ 32 - 1 \<and>
     length (nw_saved_pid_tids w) < 2 ^ 32 - 1"

lemma flush_out:
  assumes "flush_event_block env m t0 t1 w = Some (Inr (), w')" "tables_fit w"
  shows "\<exists>labels. nw_output w' = nw_output w @ concat (map encode_block
      [(4, u64_bytes t0 @ u32_bytes 1 @ u32_bytes 0),
       (5, u32_bytes 1 @ u32_bytes (of_nat (length (nw_saved_callstacks w))) @ concat (map (\<lambda>(ip, ips). stack_bytes ip ips)
          (map (\<lambda>((ip, sid), _). (ip, frames_at m sid)) (nw_saved_callstacks w)))),
       (6, concat (map thread_bytes (nv_drain env (nw_saved_pid_tids w)))),
       (8, u32_bytes 1 @ u32_bytes (of_nat (length (nw_saved_labels w))) @ labels),
       (2, event_block_header t0 t1 @ nw_event_block w)]) \<and>
    nw_saved_labels w' = [] \<and> nw_saved_callstacks w' = [] \<and> nw_saved_pid_tids w' = [((0, 0), 0)] \<and>
    nw_event_block w' = [] \<and> nw_last_time w' = 0 \<and> settings w' = settings w"
proof -
  let ?w1 = "write_seq_block t0 w"
  have w1: "?w1 = nt_out (encode_block (4, u64_bytes t0 @ u32_bytes 1 @ u32_bytes 0)) w"
    by (simp add: write_seq_block_def write_block_out)
  obtain w2 w4 where w2: "write_callstacks (em_callstacks m) ?w1 = Some (Inr (), w2)"
    and w4: "write_labels (nv_hash env) m (write_threads (nv_drain env) w2) = Some w4"
    and w': "w' = (write_block 2 (event_block_header t0 t1 @ nw_event_block w4) w4)
      \<lparr>nw_event_block := [], nw_flush_time := t1, nw_last_time := 0\<rparr>"
    using assms(1) by (auto simp: flush_event_block_def Let_def split: sum.splits bind_splits)
  have "ids_ok (nw_saved_callstacks ?w1)" "length (nw_saved_callstacks ?w1) < 2 ^ 32"
    using assms(2) by (simp_all add: w1 nt_out_def tables_fit_def)
  note w2 = write_callstacks_out [OF w2 this]
  have "ids_ok (nw_saved_labels (write_threads (nv_drain env) w2))"
    "length (nw_saved_labels (write_threads (nv_drain env) w2)) < 2 ^ 32"
    using assms(2) by (simp_all add: write_threads_out w2 w1 nt_out_def tables_fit_def)
  from write_labels_out [OF w4 this] obtain body where w4: "w4 =
    (nt_out (encode_block (8, u32_bytes 1 @ u32_bytes (of_nat (length (nw_saved_labels (write_threads (nv_drain env) w2)))) @ body))
      (write_threads (nv_drain env) w2))\<lparr>nw_saved_labels := []\<rparr>" by blast
  show ?thesis
    by (rule exI [of _ body]) (simp add: w' w4 write_threads_out w2 w1 write_block_out nt_out_def settings_def)
qed

section \<open>Reading the blocks of a flush\<close>

lemma entry_ids:
  assumes "ids_ok tbl" "length tbl < 2 ^ 32"
  shows "distinct (map snd tbl)"
proof -
  have "inj_on (of_nat :: nat \<Rightarrow> u32) {..<length tbl}"
    using assms(2) by (auto intro!: inj_onI simp: unat_of_nat_word(2) dest!: arg_cong [of _ _ unat])
  then show ?thesis
    using assms(1) by (simp add: ids_ok_def distinct_map lessThan_atLeast0)
qed

lemma widened: "unat (ucast (x :: u32) :: u64) = unat x"
proof -
  have "unat x < 2 ^ 64" by (rule unsigned_less [THEN order_less_le_trans]) simp
  then show ?thesis by (simp add: unsigned_ucast_eq take_bit_nat_eq_self)
qed

lemma widened_eq: "(ucast (x :: u32) :: u64) = ucast y \<longleftrightarrow> x = y"
  by (metis widened word_unat_eq_iff)

lemma thread_found:
  assumes "ids_ok tbl" "length tbl < 2 ^ 32" "mset tbl' = mset tbl" "map_of tbl (pid, tid) = Some i"
  shows "map_of (map thread_entry tbl') (ucast i) = Some (ucast pid, ucast tid)"
proof -
  have "distinct (map snd tbl')"
    using entry_ids [OF assms(1,2)] assms(3) by (metis mset_map mset_eq_imp_distinct_iff)
  then have "distinct (map (\<lambda>t. ucast (snd t) :: u64) tbl')"
    unfolding distinct_map inj_on_def by (auto simp: widened_eq)
  then have d: "distinct (map fst (map thread_entry tbl'))" by (simp add: thread_entry_def comp_def)
  have "((pid, tid), i) \<in> set tbl'"
    using map_of_SomeD [OF assms(4)] mset_eq_setD [OF assms(3)] by blast
  then have "(ucast i, ucast pid, ucast tid) \<in> set (map thread_entry tbl')" by (force simp: thread_entry_def)
  with d show ?thesis by (simp only: map_of_eq_Some_iff)
qed

lemma resolved:
  assumes "matches m w ra e" "tables_fit w" "mset threads = mset (nw_saved_pid_tids w)"
  shows "resolve (map (\<lambda>(ip, ips). ip # ips) (map (\<lambda>((ip, sid), _). (ip, frames_at m sid)) (nw_saved_callstacks w)))
    (map thread_entry threads) (length (nw_saved_labels w)) ra = Some e"
proof -
  let ?S = "map (\<lambda>(ip, ips). ip # ips) (map (\<lambda>((ip, sid), _). (ip, frames_at m sid)) (nw_saved_callstacks w))"
  have fits: "ids_ok (nw_saved_pid_tids w)" "length (nw_saved_pid_tids w) < 2 ^ 32" "ids_ok (nw_saved_callstacks w)"
    "length (nw_saved_callstacks w) < 2 ^ 32"
    using assms(2) by (simp_all add: tables_fit_def)
  have thread: "map_of (map thread_entry threads) (ra_thread ra) = Some (tv_thread e)"
    using assms(1) thread_found [OF fits(1,2) assms(3)] by (auto simp: matches_def thread_matches_def)
  have stack: "unat (ra_stack ra) \<le> length ?S \<and>
      tv_stack e = (if ra_stack ra = 0 then None else Some (?S ! (unat (ra_stack ra) - 1)))"
  proof (cases "tv_stack e")
    case None
    then show ?thesis using assms(1) by (simp add: matches_def stack_matches_def)
  next
    case (Some fs)
    then obtain ip sid i where i: "map_of (nw_saved_callstacks w) (ip, sid) = Some i" "i \<noteq> - 1"
      "ra_stack ra = ucast (i + 1)" "fs = ip # frames_at m sid"
      using assms(1) by (auto simp: matches_def stack_matches_def)
    note j = table_lookup [OF fits(3,4) i(1)]
    have "1 + i \<noteq> 0" using i(2) by (metis add_eq_0_iff minus_minus)
    then have "unat (i + 1) = Suc (unat i)" using unatSuc [of i] by (simp add: add.commute)
    then have u: "unat (ra_stack ra) = Suc (unat i)" unfolding i(3) widened .
    have "?S ! unat i = fs" using j by (simp add: i(4))
    moreover have "ra_stack ra \<noteq> 0" using u by auto
    ultimately show ?thesis using u j Some by simp
  qed
  show ?thesis
    using assms(1) thread stack by (simp add: resolve_def matches_def)
qed

lemma read_callstacks:
  assumes "length tbl < 2 ^ 32" "\<forall>s \<in> set tbl. length (snd s) < 2 ^ 28"
  shows "read_stacks (u32_bytes 1 @ u32_bytes (of_nat (length tbl)) @ concat (map (\<lambda>(ip, ips). stack_bytes ip ips) tbl)) =
    Some (map (\<lambda>(ip, ips). ip # ips) tbl)"
proof -
  have "le_nat (u32_bytes (of_nat (length tbl))) = length tbl"
    using assms(1) by (simp only: le_nat_words unat_of_nat_word(2))
  moreover have "length (u32_bytes x) = 4" for x by (simp add: u32_bytes_def)
  ultimately show ?thesis using read_stack_list_written [OF assms(2)] by (simp add: read_stacks_def)
qed

lemma those_all: "list_all2 (\<lambda>x y. f x = Some y) xs ys \<Longrightarrow> those (map f xs) = Some ys"
  by (induction rule: list_all2_induct) simp_all

text \<open>What the state holds of the events since the last flush.\<close>

definition nt_pending :: "('o, 'f) machine \<Rightarrow> nt_writer \<Rightarrow> nt_raw list \<Rightarrow> nt_event list \<Rightarrow> bool" where
  "nt_pending m w raws evs \<longleftrightarrow> nw_event_block w = encode_events 0 raws \<and> nw_last_time w = last_of 0 raws \<and>
     list_all2 (matches m w) raws evs \<and> tables_fit w"

lemma payload_length: "ra \<in> set raws \<Longrightarrow> length (ra_payload ra) \<le> length (encode_events t raws)"
proof (induction raws arbitrary: t)
  case (Cons a raws)
  have "length (ra_payload a) \<le> length (encode_event t a)" by (simp add: encode_event_def)
  moreover have "length (ra_payload ra) \<le> length (encode_events (ra_time a) raws)" if "ra \<in> set raws" using Cons.IH that .
  ultimately show ?case using Cons.prems by fastforce
qed simp

lemma flush_reads:
  assumes "flush_event_block env m t0 t1 w = Some (Inr (), w')" "nt_pending m w raws evs"
    "\<forall>l. mset (nv_drain env l) = mset l" "\<forall>sid. length (frames_at m sid) < 2 ^ 28"
  shows "\<exists>blocks. nw_output w' = nw_output w @ concat (map encode_block blocks) \<and>
    (length (nw_output w') < 2 ^ 64 \<longrightarrow> segs_ok blocks evs) \<and>
    (\<forall>b \<in> set blocks. 0 < fst b \<and> fst b < 256) \<and> nt_pending m w' [] [] \<and> nw_event_block w' = [] \<and>
    nw_saved_labels w' = [] \<and> nw_saved_callstacks w' = [] \<and> length (nw_saved_pid_tids w') = 1 \<and> settings w' = settings w"
proof -
  have p: "nw_event_block w = encode_events 0 raws" "list_all2 (matches m w) raws evs"
    "tables_fit w"
    using assms(2) by (simp_all add: nt_pending_def)
  let ?cs = "map (\<lambda>((ip, sid), _). (ip, frames_at m sid)) (nw_saved_callstacks w)"
  obtain labels where out: "nw_output w' = nw_output w @ concat (map encode_block
      [(4, u64_bytes t0 @ u32_bytes 1 @ u32_bytes 0),
       (5, u32_bytes 1 @ u32_bytes (of_nat (length (nw_saved_callstacks w))) @ concat (map (\<lambda>(ip, ips). stack_bytes ip ips) ?cs)),
       (6, concat (map thread_bytes (nv_drain env (nw_saved_pid_tids w)))),
       (8, u32_bytes 1 @ u32_bytes (of_nat (length (nw_saved_labels w))) @ labels),
       (2, event_block_header t0 t1 @ nw_event_block w)])"
      (is "_ = _ @ concat (map encode_block ?blocks)")
    and rest: "nw_saved_labels w' = []" "nw_saved_callstacks w' = []" "nw_saved_pid_tids w' = [((0, 0), 0)]"
    "nw_event_block w' = []" "nw_last_time w' = 0" "settings w' = settings w"
    using flush_out [OF assms(1) p(3)] by blast
  have fits: "length (nw_saved_callstacks w) < 2 ^ 32" "length (nw_saved_labels w) < 2 ^ 32"
    using p(3) by (simp_all add: tables_fit_def)
  have "\<forall>s \<in> set ?cs. length (snd s) < 2 ^ 28" using assms(4) by auto
  from read_callstacks [OF _ this] fits have stacks: "read_stacks (u32_bytes 1 @ u32_bytes (of_nat (length (nw_saved_callstacks w))) @
      concat (map (\<lambda>(ip, ips). stack_bytes ip ips) ?cs)) = Some (map (\<lambda>(ip, ips). ip # ips) ?cs)" by simp
  have l: "length (u32_bytes x) = 4" for x by (simp add: u32_bytes_def)
  have labels: "le_nat (take 4 (drop 4 (u32_bytes 1 @ u32_bytes (of_nat (length (nw_saved_labels w))) @ labels))) =
      length (nw_saved_labels w)"
    using fits(2) by (simp add: l le_nat_words unat_of_nat_word(2) del: of_nat_eq_id)
  have events: "read_events 0 (drop 20 (event_block_header t0 t1 @ nw_event_block w)) = Some raws" if "length (nw_output w') < 2 ^ 64"
  proof -
    have "length (nw_event_block w) \<le> length (nw_output w')" unfolding out by (simp add: encode_block_def)
    then have "\<forall>ra \<in> set raws. length (ra_payload ra) < 2 ^ 64"
      using that payload_length [of _ raws 0] unfolding p(1) by fastforce
    moreover have "length (event_block_header t0 t1) = 20" by (simp add: event_block_header_def u16_bytes_def u64_bytes_def)
    ultimately show ?thesis using read_events_written [of raws 0] by (simp add: p(1))
  qed
  have "list_all2 (\<lambda>ra e. resolve (map (\<lambda>(ip, ips). ip # ips) ?cs) (map thread_entry (nv_drain env (nw_saved_pid_tids w)))
      (length (nw_saved_labels w)) ra = Some e) raws evs"
    using p(2) by (rule list_all2_mono) (rule resolved [OF _ p(3)], use assms(3) in simp_all)
  note those_all [OF this]
  then have "segs_ok ?blocks evs" if "length (nw_output w') < 2 ^ 64"
    using that stacks labels events read_threads_written unfolding segs_ok_def by simp
  moreover have "\<forall>b \<in> set ?blocks. 0 < fst b \<and> fst b < 256" by simp
  moreover have "nt_pending m w' [] []" by (simp add: nt_pending_def rest last_of_def tables_fit_def ids_ok_def)
  ultimately show ?thesis using out rest by (intro exI [of _ ?blocks]) (simp del: concat.simps list.map)
qed

section \<open>One event\<close>

definition table_sizes :: "nat \<Rightarrow> nat \<Rightarrow> nt_writer \<Rightarrow> bool" where
  "table_sizes k n w \<longleftrightarrow> length (nw_saved_labels w) \<le> n + k \<and> length (nw_saved_callstacks w) \<le> n + k \<and>
     length (nw_saved_pid_tids w) \<le> Suc n"

definition same_ids :: "('k \<times> u32) list \<Rightarrow> ('k \<times> u32) list \<Rightarrow> bool" where
  "same_ids tbl tbl' \<longleftrightarrow> (\<forall>k i. map_of tbl k = Some i \<longrightarrow> map_of tbl' k = Some i) \<and> length tbl \<le> length tbl'"

lemma matches_mono:
  assumes "matches m w ra e" "same_ids (nw_saved_pid_tids w) (nw_saved_pid_tids w')"
    "same_ids (nw_saved_callstacks w) (nw_saved_callstacks w')" "same_ids (nw_saved_labels w) (nw_saved_labels w')"
  shows "matches m w' ra e"
proof -
  have "thread_matches w' ra e" using assms(1,2) by (force simp: matches_def thread_matches_def same_ids_def)
  moreover have "stack_matches m w' ra e"
    using assms(1,3) unfolding matches_def stack_matches_def same_ids_def by (cases "tv_stack e") (simp, force)
  ultimately show ?thesis using assms(1,4) by (auto simp: matches_def same_ids_def)
qed

lemma small_tables:
  assumes "table_sizes k n w" "n + k \<le> 2 ^ 21" "ids_ok (nw_saved_labels w)" "ids_ok (nw_saved_callstacks w)"
    "ids_ok (nw_saved_pid_tids w)"
  shows "tables_fit w"
  using assms by (simp add: table_sizes_def tables_fit_def)

text \<open>The event a call stands for. Its time is that of the replay, not before the start of the trace.\<close>

definition event_of :: "u64 \<Rightarrow> u32 \<Rightarrow> u32 \<Rightarrow> u64 list option \<Rightarrow> 'o export_process \<Rightarrow> replay \<Rightarrow> byte list \<Rightarrow> nt_event" where
  "event_of sync meta_id cpu stack p r payload =
     \<lparr>tv_meta = ucast meta_id, tv_cpu = ucast cpu,
       tv_thread = (ucast (ep_pid p), ucast (case sample_event p r of Some s \<Rightarrow> smp_tid s | None \<Rightarrow> 0)),
       tv_stack = stack, tv_time = max sync (rp_time r), tv_payload = payload\<rparr>"

lemma no_overflow: "i < 2 ^ 32 - 1 \<Longrightarrow> (of_nat i :: u32) \<noteq> - 1"
proof
  assume i: "i < 2 ^ 32 - 1" "(of_nat i :: u32) = - 1"
  then have "unat (of_nat i :: u32) = 2 ^ 32 - 1" unfolding i(2) unsigned_minus_1_eq_mask by (simp add: mask_eq_exp_minus_1)
  moreover have "unat (of_nat i :: u32) = i" using i(1) by (intro unat_of_nat_word(2)) simp
  ultimately show False using i(1) by simp
qed

lemma table_id:
  assumes "ids_ok tbl" "length tbl < 2 ^ 32 - 1" "map_of tbl k = Some i"
  shows "i \<noteq> - 1" "unat (i + 1) \<le> length tbl" "plus_one (Some i) = Some (i + 1)"
proof -
  have l: "length tbl < 2 ^ 32" using assms(2) by simp
  note j = table_lookup [OF assms(1) l assms(3)]
  then have "i = of_nat (unat i)" "unat i < 2 ^ 32 - 1" using assms(2) by simp_all
  then show i: "i \<noteq> - 1" using no_overflow [of "unat i"] by metis
  then have "1 + i \<noteq> 0" by (metis add_eq_0_iff minus_minus)
  then have "unat (i + 1) = Suc (unat i)" using unatSuc [of i] by (simp add: add.commute)
  then show "unat (i + 1) \<le> length tbl" using j by simp
  show "plus_one (Some i) = Some (i + 1)" using i by (simp add: plus_one_def)
qed

text \<open>What the state holds in all: the blocks so far tell of some of the events, the rest is pending. At most
  \<open>k\<close> stacks and labels are saved ahead of their event.\<close>

definition holds ::
  "('o, 'f) machine \<Rightarrow> byte list \<Rightarrow> nat \<Rightarrow> u64 \<Rightarrow> nt_writer \<Rightarrow> nt_event list \<Rightarrow> bool" where
  "holds m start k now w es \<longleftrightarrow> (\<exists>blocks raws before evs.
     nw_output w = start @ concat (map encode_block blocks) \<and>
     (length (nw_output w) < 2 ^ 64 \<longrightarrow> segs_ok blocks before) \<and>
     (\<forall>b \<in> set blocks. 0 < fst b \<and> fst b < 256) \<and> es = before @ evs \<and> nt_pending m w raws evs \<and>
     length (nw_event_block w) < EVENT_BLOCK_LIMIT \<and> table_sizes k (length raws) w) \<and>
     nw_last_time w \<le> max (nw_sync_time w) now \<and> sorted (map tv_time es) \<and>
     (\<forall>e \<in> set es. tv_time e \<le> max (nw_sync_time w) now)"

lemma timestamp:
  assumes "nw_last_time w \<le> max (nw_sync_time w) time"
  shows "write_event_timestamp time w = add_event_bytes (write_varint (max (nw_sync_time w) time - nw_last_time w))
    (w\<lparr>nw_last_time := max (nw_sync_time w) time\<rparr>)"
proof -
  define t where "t = max (nw_sync_time w) time"
  have "(if time < nw_sync_time w then nw_sync_time w else time) = t" by (auto simp: t_def max_def)
  moreover have "\<not> t < nw_last_time w" using assms by (simp only: t_def not_less)
  ultimately show ?thesis by (simp add: write_event_timestamp_def flip: t_def)
qed

lemma blob_appends:
  assumes "write_event_blob env m meta_id cpu stack_id label_id p r payload w = Some (Inr (), w')"
    "nt_pending m w raws evs" "table_sizes 1 (length raws) w" "length (nw_event_block w) < EVENT_BLOCK_LIMIT"
    "nw_last_time w \<le> max (nw_sync_time w) (rp_time r)"
    "case stack_id of None \<Rightarrow> stack = None
     | Some i \<Rightarrow> \<exists>ip sid. map_of (nw_saved_callstacks w) (ip, sid) = Some i \<and> stack = Some (ip # frames_at m sid)"
    "case label_id of None \<Rightarrow> True | Some i \<Rightarrow> \<exists>k. map_of (nw_saved_labels w) k = Some i"
  shows "\<exists>w2 ra. nt_pending m w2 (raws @ [ra]) (evs @ [event_of (nw_sync_time w) meta_id cpu stack p r payload]) \<and>
    table_sizes 0 (length (raws @ [ra])) w2 \<and> settings w2 = settings w \<and> nw_output w2 = nw_output w \<and>
    nw_last_time w2 = max (nw_sync_time w) (rp_time r) \<and>
    (if EVENT_BLOCK_LIMIT \<le> length (nw_event_block w2)
     then flush_event_block env m (nw_flush_time w2) (nw_last_time w2) w2 = Some (Inr (), w') else w' = w2)"
proof -
  have p: "nw_event_block w = encode_events 0 raws" "nw_last_time w = last_of 0 raws" "list_all2 (matches m w) raws evs"
    "tables_fit w"
    using assms(2) by (simp_all add: nt_pending_def)
  have fits: "ids_ok (nw_saved_labels w)" "ids_ok (nw_saved_callstacks w)" "ids_ok (nw_saved_pid_tids w)"
    "length (nw_saved_labels w) < 2 ^ 32 - 1" "length (nw_saved_callstacks w) < 2 ^ 32 - 1"
    using p(4) by (simp_all add: tables_fit_def)
  have few: "length raws < 2 ^ 20"
    using assms(4) encode_events_length [of raws 0] by (simp add: p(1) EVENT_BLOCK_LIMIT_def)
  define tid where "tid = (case sample_event p r of Some s \<Rightarrow> smp_tid s | None \<Rightarrow> 0)"
  obtain i tbl where saved: "saved_id (ep_pid p, tid) (of_nat (length (nw_saved_pid_tids w))) (nw_saved_pid_tids w) = (i, tbl)"
    by (cases "saved_id (ep_pid p, tid) (of_nat (length (nw_saved_pid_tids w))) (nw_saved_pid_tids w)")
  note tbl = saved_id_ok [OF fits(3) saved]
  have thread: "get_pid_tid_id p r w = (i, w\<lparr>nw_saved_pid_tids := tbl\<rparr>)"
    using saved by (simp add: get_pid_tid_id_def Let_def flip: tid_def)
  from assms(1) obtain si li where si: "plus_one stack_id = Some si" and li: "plus_one label_id = Some li"
    by (auto simp: write_event_blob_def thread Let_def split: bind_splits)
  define t where "t = max (nw_sync_time w) (rp_time r)"
  define ra where "ra = \<lparr>ra_meta = ucast meta_id, ra_cpu = ucast cpu, ra_thread = ucast i, ra_stack = ucast si, ra_time = t,
    ra_label = ucast li, ra_payload = payload\<rparr>"
  define w2 where "w2 = w\<lparr>nw_saved_pid_tids := tbl, nw_last_time := t,
    nw_event_block := nw_event_block w @ encode_event (nw_last_time w) ra\<rparr>"
  have w': "if EVENT_BLOCK_LIMIT \<le> length (nw_event_block w2)
     then flush_event_block env m (nw_flush_time w2) (nw_last_time w2) w2 = Some (Inr (), w') else w' = w2"
  proof -
    have "add_event_bytes (write_varint (ucast li) @ write_varint (of_nat (length payload)) @ payload)
        (write_event_timestamp (rp_time r) (add_event_bytes (write_varint (ucast si))
          (add_event_bytes (223 # write_varint (ucast meta_id) @ write_varint 0 @ write_varint 0 @
            write_varint (ucast cpu) @ write_varint (ucast i)) (w\<lparr>nw_saved_pid_tids := tbl\<rparr>)))) = w2"
      using assms(5) by (simp add: timestamp add_event_bytes_def w2_def encode_event_def ra_def t_def)
    then show ?thesis
      using assms(1) by (simp add: write_event_blob_def thread si li Let_def split: if_splits)
  qed
  let ?e = "event_of (nw_sync_time w) meta_id cpu stack p r payload"
  have grown: "same_ids (nw_saved_pid_tids w) (nw_saved_pid_tids w2)" using tbl by (simp add: w2_def same_ids_def)
  have same: "same_ids (nw_saved_callstacks w) (nw_saved_callstacks w2)" "same_ids (nw_saved_labels w) (nw_saved_labels w2)"
    by (simp_all add: w2_def same_ids_def)
  have "thread_matches w2 ra ?e"
    using tbl by (auto simp: thread_matches_def w2_def ra_def event_of_def tid_def)
  moreover have "stack_matches m w2 ra ?e"
  proof (cases stack_id)
    case None
    then show ?thesis using assms(6) si by (simp add: stack_matches_def plus_one_def ra_def event_of_def)
  next
    case (Some j)
    then obtain ip sid where j: "map_of (nw_saved_callstacks w) (ip, sid) = Some j" "stack = Some (ip # frames_at m sid)"
      using assms(6) by auto
    note table_id [OF fits(2,5) j(1)]
    then show ?thesis using j si Some by (auto simp: stack_matches_def ra_def event_of_def w2_def)
  qed
  moreover have "unat (ra_label ra) \<le> length (nw_saved_labels w2)"
  proof (cases label_id)
    case None
    then show ?thesis using li by (simp add: plus_one_def ra_def)
  next
    case (Some j)
    then obtain k where "map_of (nw_saved_labels w) k = Some j" using assms(7) by auto
    note table_id [OF fits(1,4) this]
    then have "li = j + 1" "unat (j + 1) \<le> length (nw_saved_labels w)" using li Some by simp_all
    then show ?thesis by (simp add: ra_def w2_def widened)
  qed
  ultimately have "matches m w2 ra ?e" by (simp add: matches_def ra_def event_of_def t_def)
  moreover have "list_all2 (matches m w2) raws evs"
    using p(3) by (rule list_all2_mono) (rule matches_mono [OF _ grown same])
  ultimately have "list_all2 (matches m w2) (raws @ [ra]) (evs @ [?e])" by (simp add: list_all2_appendI)
  moreover have sizes: "table_sizes 0 (length (raws @ [ra])) w2" using assms(3) tbl by (simp add: table_sizes_def w2_def)
  moreover have "tables_fit w2"
    using fits tbl few by (intro small_tables [OF sizes]) (simp_all add: w2_def)
  ultimately have "nt_pending m w2 (raws @ [ra]) (evs @ [?e])"
    using p(1,2) by (simp add: nt_pending_def w2_def encode_events_snoc) (simp add: last_of_def ra_def)
  moreover have "settings w2 = settings w" "nw_output w2 = nw_output w" "nw_last_time w2 = t"
    by (simp_all add: w2_def settings_def)
  ultimately show ?thesis using w' sizes unfolding t_def by blast
qed

lemma sync_of: "settings w' = settings w \<Longrightarrow> nw_sync_time w' = nw_sync_time w"
  by (simp add: settings_def)

text \<open>How far the events of a writer go: in order, and none behind the time of the replay.\<close>

definition in_time :: "u64 \<Rightarrow> u64 \<Rightarrow> nt_event list \<Rightarrow> bool" where
  "in_time sync now es \<longleftrightarrow> sorted (map tv_time es) \<and> (\<forall>e \<in> set es. tv_time e \<le> max sync now)"

lemma in_time_later: "in_time sync now es \<Longrightarrow> now \<le> t \<Longrightarrow> in_time sync t es"
  unfolding in_time_def by (meson max.mono order_refl order_trans)

lemma in_time_snoc: "in_time sync now es \<Longrightarrow> tv_time e = max sync now \<Longrightarrow> in_time sync now (es @ [e])"
  by (auto simp: in_time_def sorted_append)

lemma blob_step:
  assumes "write_event_blob env m meta_id cpu stack_id label_id p r payload w = Some (Inr (), w')"
    "holds m start 1 now w es" "now \<le> rp_time r"
    "case stack_id of None \<Rightarrow> stack = None
     | Some i \<Rightarrow> \<exists>ip sid. map_of (nw_saved_callstacks w) (ip, sid) = Some i \<and> stack = Some (ip # frames_at m sid)"
    "case label_id of None \<Rightarrow> True | Some i \<Rightarrow> \<exists>k. map_of (nw_saved_labels w) k = Some i"
    "\<forall>l. mset (nv_drain env l) = mset l" "\<forall>sid. length (frames_at m sid) < 2 ^ 28"
  shows "holds m start 0 (rp_time r) w' (es @ [event_of (nw_sync_time w) meta_id cpu stack p r payload]) \<and> settings w' = settings w"
proof -
  let ?e = "event_of (nw_sync_time w) meta_id cpu stack p r payload" and ?sync = "nw_sync_time w"
  obtain blocks raws before evs where h: "nw_output w = start @ concat (map encode_block blocks)"
    "length (nw_output w) < 2 ^ 64 \<longrightarrow> segs_ok blocks before" "\<forall>b \<in> set blocks. 0 < fst b \<and> fst b < 256"
    "es = before @ evs" "nt_pending m w raws evs" "length (nw_event_block w) < EVENT_BLOCK_LIMIT" "table_sizes 1 (length raws) w"
    and time: "nw_last_time w \<le> max ?sync now" "in_time ?sync now es"
    using assms(2) unfolding holds_def in_time_def by blast
  have last: "nw_last_time w \<le> max ?sync (rp_time r)" using time(1) assms(3) by (meson max.mono order_refl order_trans)
  have order: "in_time ?sync (rp_time r) (es @ [?e])"
    using in_time_later [OF time(2) assms(3)] by (intro in_time_snoc) (simp_all add: event_of_def)
  from blob_appends [OF assms(1) h(5,7,6) last assms(4,5)] obtain w2 ra
    where w2: "nt_pending m w2 (raws @ [ra]) (evs @ [?e])" "table_sizes 0 (length (raws @ [ra])) w2" "settings w2 = settings w"
      "nw_output w2 = nw_output w" "nw_last_time w2 = max ?sync (rp_time r)"
    and w': "if EVENT_BLOCK_LIMIT \<le> length (nw_event_block w2)
     then flush_event_block env m (nw_flush_time w2) (nw_last_time w2) w2 = Some (Inr (), w') else w' = w2" by blast
  show ?thesis
  proof (cases "EVENT_BLOCK_LIMIT \<le> length (nw_event_block w2)")
    case False
    then have "w' = w2" using w' by simp
    have "holds m start 0 (rp_time r) w2 (es @ [?e])"
      unfolding holds_def
    proof (intro conjI exI)
      show "nw_output w2 = start @ concat (map encode_block blocks)" using h(1) w2(4) by simp
      show "length (nw_output w2) < 2 ^ 64 \<longrightarrow> segs_ok blocks before" using h(2) w2(4) by simp
      show "es @ [?e] = before @ evs @ [?e]" using h(4) by simp
      show "length (nw_event_block w2) < EVENT_BLOCK_LIMIT" using False by simp
      show "nw_last_time w2 \<le> max (nw_sync_time w2) (rp_time r)" using w2(5) sync_of [OF w2(3)] by simp
      show "sorted (map tv_time (es @ [?e]))" "\<forall>e \<in> set (es @ [?e]). tv_time e \<le> max (nw_sync_time w2) (rp_time r)"
        using order unfolding in_time_def sync_of [OF w2(3)] by blast+
    qed (rule h(3) w2(1,2))+
    then show ?thesis using \<open>w' = w2\<close> w2(3) by simp
  next
    case True
    then have flush: "flush_event_block env m (nw_flush_time w2) (nw_last_time w2) w2 = Some (Inr (), w')" using w' by simp
    from flush_reads [OF this w2(1) assms(6,7)] obtain more
      where more: "nw_output w' = nw_output w2 @ concat (map encode_block more)"
        "length (nw_output w') < 2 ^ 64 \<longrightarrow> segs_ok more (evs @ [?e])" "\<forall>b \<in> set more. 0 < fst b \<and> fst b < 256"
        "nt_pending m w' [] []" "nw_event_block w' = []" "nw_saved_labels w' = []" "nw_saved_callstacks w' = []"
        "length (nw_saved_pid_tids w') = 1" "settings w' = settings w2" by blast
    have set: "settings w' = settings w" using more(9) w2(3) by simp
    have "holds m start 0 (rp_time r) w' (es @ [?e])"
      unfolding holds_def
    proof (intro conjI exI)
      show "nw_output w' = start @ concat (map encode_block (blocks @ more))" using h(1) w2(4) more(1) by simp
      show "length (nw_output w') < 2 ^ 64 \<longrightarrow> segs_ok (blocks @ more) (es @ [?e])"
        using h(2) w2(4) more(1,2) h(4) segs_ok_append [of blocks before more "evs @ [?e]"] by auto
      show "\<forall>b \<in> set (blocks @ more). 0 < fst b \<and> fst b < 256" using h(3) more(3) by auto
      show "es @ [?e] = (es @ [?e]) @ []" by simp
      show "nt_pending m w' [] []" by (rule more(4))
      show "length (nw_event_block w') < EVENT_BLOCK_LIMIT" using more(5) by (simp add: EVENT_BLOCK_LIMIT_def)
      show "table_sizes 0 (length ([] :: nt_raw list)) w'" using more(6,7,8) by (simp add: table_sizes_def)
      show "nw_last_time w' \<le> max (nw_sync_time w') (rp_time r)" using more(4) by (simp add: nt_pending_def last_of_def)
      show "sorted (map tv_time (es @ [?e]))" "\<forall>e \<in> set (es @ [?e]). tv_time e \<le> max (nw_sync_time w') (rp_time r)"
        using order unfolding in_time_def sync_of [OF set] by blast+
    qed
    then show ?thesis using set by simp
  qed
qed

section \<open>The events of a replay\<close>

definition env_ok :: "nt_env \<Rightarrow> ('o, 'f) machine \<Rightarrow> bool" where
  "env_ok env m \<longleftrightarrow> (\<forall>l. mset (nv_drain env l) = mset l) \<and> (\<forall>sid. length (frames_at m sid) < 2 ^ 28)"

text \<open>A step that adds events at a time, none of them with a stack.\<close>

definition quiet :: "('o, 'f) machine \<Rightarrow> byte list \<Rightarrow> u64 \<Rightarrow> (nt_writer, 'a) io \<Rightarrow> bool" where
  "quiet m start t f \<longleftrightarrow> (\<forall>w y w' es now. f w = Some (Inr y, w') \<longrightarrow> holds m start 0 now w es \<longrightarrow> now \<le> t \<longrightarrow>
     (\<exists>xs. (\<forall>x \<in> set xs. tv_stack x = None) \<and> holds m start 0 t w' (es @ xs) \<and> settings w' = settings w))"

lemma holds_ahead: "holds m start 0 now w es \<Longrightarrow> holds m start 1 now w es"
proof -
  have "table_sizes 1 n w" if "table_sizes 0 n w" for n using that by (simp add: table_sizes_def)
  then show "holds m start 0 now w es \<Longrightarrow> holds m start 1 now w es" unfolding holds_def by blast
qed

lemma holds_later:
  assumes "holds m start k now w es" "now \<le> t"
  shows "holds m start k t w es"
proof -
  have "max (nw_sync_time w) now \<le> max (nw_sync_time w) t" using assms(2) by (simp add: max.coboundedI2)
  then show ?thesis
    using assms(1) unfolding holds_def by (elim conjE) (intro conjI; (assumption | blast intro: order_trans))
qed

lemma matches_other:
  "matches m (w\<lparr>nw_saved_meta_ids := x\<rparr>) = matches m w" "matches m (w\<lparr>nw_sym_id := y\<rparr>) = matches m w"
  by ((rule ext)+, simp add: matches_def thread_matches_def stack_matches_def split: option.split)+

lemma holds_other:
  "holds m start k now (w\<lparr>nw_saved_meta_ids := x\<rparr>) es = holds m start k now w es"
  "holds m start k now (w\<lparr>nw_sym_id := y\<rparr>) es = holds m start k now w es"
  "settings (w\<lparr>nw_saved_meta_ids := x\<rparr>) = settings w" "settings (w\<lparr>nw_sym_id := y\<rparr>) = settings w"
  by (simp_all add: holds_def nt_pending_def tables_fit_def table_sizes_def settings_def matches_other)

lemma quiet_return: "quiet m start t (io_return x)"
  unfolding quiet_def by (auto intro!: exI [of _ "[]"] intro: holds_later)

lemma quiet_bind:
  assumes "quiet m start t f" "\<And>x. quiet m start t (g x)"
  shows "quiet m start t (io_bind f g)"
  unfolding quiet_def
proof (intro allI impI)
  fix w y w' es now
  assume run: "io_bind f g w = Some (Inr y, w')" and h: "holds m start 0 now w es" "now \<le> t"
  from run obtain x w1 where f: "f w = Some (Inr x, w1)" and g: "g x w1 = Some (Inr y, w')" by (auto simp: io_bind_Some)
  obtain xs where xs: "\<forall>e \<in> set xs. tv_stack e = None" "holds m start 0 t w1 (es @ xs)" "settings w1 = settings w"
    using assms(1) f h unfolding quiet_def by blast
  obtain ys where "\<forall>e \<in> set ys. tv_stack e = None" "holds m start 0 t w' ((es @ xs) @ ys)" "settings w' = settings w1"
    using assms(2) g xs(2) unfolding quiet_def by (metis order_refl)
  then show "\<exists>xs. (\<forall>x \<in> set xs. tv_stack x = None) \<and> holds m start 0 t w' (es @ xs) \<and> settings w' = settings w"
    using xs by (intro exI [of _ "xs @ ys"]) auto
qed

lemma quiet_blob:
  assumes "env_ok env m"
  shows "quiet m start (rp_time r) (write_event_blob env m meta_id cpu None None p r payload)"
  unfolding quiet_def
proof (intro allI impI)
  fix w w' es now and y :: unit
  assume "write_event_blob env m meta_id cpu None None p r payload w = Some (Inr y, w')"
    and h: "holds m start 0 now w es" "now \<le> rp_time r"
  then have run: "write_event_blob env m meta_id cpu None None p r payload w = Some (Inr (), w')" by simp
  have "holds m start 0 (rp_time r) w' (es @ [event_of (nw_sync_time w) meta_id cpu None p r payload]) \<and> settings w' = settings w"
    using assms by (intro blob_step [OF run holds_ahead [OF h(1)] h(2)]) (simp_all add: env_ok_def)
  then show "\<exists>xs. (\<forall>x \<in> set xs. tv_stack x = None) \<and> holds m start 0 (rp_time r) w' (es @ xs) \<and> settings w' = settings w"
    by (intro exI [of _ "[event_of (nw_sync_time w) meta_id cpu None p r payload]"]) (simp add: event_of_def)
qed

lemma quiet_created: "env_ok env m \<Longrightarrow> quiet m start (rp_time r) (write_created_replay_event env m p r)"
  using quiet_blob [of env m start r _ _ p] unfolding quiet_def
  by (clarsimp simp: write_created_replay_event_def Let_def simp del: split_paired_Ex split: bind_splits)

lemma quiet_exited: "env_ok env m \<Longrightarrow> quiet m start (rp_time r) (write_exited_replay_event env m p r)"
  using quiet_blob [of env m start r _ _ p] unfolding quiet_def
  by (clarsimp simp: write_exited_replay_event_def Let_def simp del: split_paired_Ex)

lemma quiet_metadata:
  assumes "env_ok env m"
  shows "quiet m start (rp_time r) (write_mapping_metadata_event env m p r mapping)"
  unfolding quiet_def
proof (intro allI impI)
  fix w y w' es now
  assume run: "write_mapping_metadata_event env m p r mapping w = Some (Inr y, w')"
    and h: "holds m start 0 now w es" "now \<le> rp_time r"
  note run = run [unfolded write_mapping_metadata_event_def]
  have same: "\<exists>xs. (\<forall>x \<in> set xs. tv_stack x = None) \<and> holds m start 0 (rp_time r) w (es @ xs) \<and> settings w = settings w"
    using holds_later [OF h] by (intro exI [of _ "[]"]) simp
  show "\<exists>xs. (\<forall>x \<in> set xs. tv_stack x = None) \<and> holds m start 0 (rp_time r) w' (es @ xs) \<and> settings w' = settings w"
  proof (cases "map_node mapping")
    case None
    then show ?thesis using run same by simp
  next
    case (Some node)
    show ?thesis
    proof (cases "map_of (nw_saved_meta_ids w) node")
      case None
      let ?i = "of_nat (length (nw_saved_meta_ids w)) + 1 :: u32"
      let ?w = "w\<lparr>nw_saved_meta_ids := nw_saved_meta_ids w @ [(node, ?i)]\<rparr>"
      obtain texts where "metadata_texts env m mapping = Some texts" "write_event_blob env m (nw_mapping_meta_event_id w) 0 None None p r
          (write_varint (ucast ?i) @ texts) ?w = Some (Inr (), w')"
        using run Some None by (cases "metadata_texts env m mapping") (auto simp: Let_def split: bind_splits sum.splits)
      moreover have "holds m start 0 now ?w es" using h(1) by (simp add: holds_other)
      ultimately have "\<exists>xs. (\<forall>x \<in> set xs. tv_stack x = None) \<and> holds m start 0 (rp_time r) w' (es @ xs) \<and> settings w' = settings ?w"
        using quiet_blob [OF assms] h(2) unfolding quiet_def by blast
      then show ?thesis by (simp only: holds_other)
    qed (use run Some same in simp)
  qed
qed

lemma quiet_let: "(\<And>w. quiet m start t (f w)) \<Longrightarrow> quiet m start t (\<lambda>w. f w w)"
  unfolding quiet_def by blast

lemma quiet_checked: "(\<And>x. quiet m start t (f x)) \<Longrightarrow> quiet m start t (\<lambda>w. do { x \<leftarrow> v; f x w })"
  unfolding quiet_def by (cases v) simp_all

lemma quiet_mapping:
  assumes "env_ok env m"
  shows "quiet m start (rp_time r) (write_mapping_replay_event env m p r mapping)"
  unfolding write_mapping_replay_event_def
  by (intro quiet_bind quiet_metadata assms quiet_checked quiet_let [of m start _ "\<lambda>w. write_event_blob env m (nw_mapping_event_id w) 0 None None p r _"] quiet_blob)

lemma quiet_symbol:
  assumes "env_ok env m"
  shows "quiet m start (rp_time r) (write_mapping_symbol_replay_event env m p r mapping symbol)"
  unfolding write_mapping_symbol_replay_event_def
proof (rule quiet_checked)
  fix name
  show "quiet m start (rp_time r) (\<lambda>w. if nw_sym_id w = - 1 then Panic
     else write_event_blob env m (nw_symbol_event_id w) 0 None None p r
       (write_varint (ucast (nw_sym_id w)) @ write_varint (of_nat (map_id mapping)) @ write_varint (sym_start symbol) @
        write_varint (sym_end symbol) @ write_short_utf8 name) (w\<lparr>nw_sym_id := nw_sym_id w + 1\<rparr>))"
    unfolding quiet_def
  proof (intro allI impI)
    fix w y w' es now
    assume run: "(if nw_sym_id w = - 1 then Panic
     else write_event_blob env m (nw_symbol_event_id w) 0 None None p r
       (write_varint (ucast (nw_sym_id w)) @ write_varint (of_nat (map_id mapping)) @ write_varint (sym_start symbol) @
        write_varint (sym_end symbol) @ write_short_utf8 name) (w\<lparr>nw_sym_id := nw_sym_id w + 1\<rparr>)) = Some (Inr y, w')"
      and h: "holds m start 0 now w es" "now \<le> rp_time r"
    let ?w = "w\<lparr>nw_sym_id := nw_sym_id w + 1\<rparr>"
    have "holds m start 0 now ?w es" using h(1) by (simp add: holds_other)
    then have "\<exists>xs. (\<forall>x \<in> set xs. tv_stack x = None) \<and> holds m start 0 (rp_time r) w' (es @ xs) \<and> settings w' = settings ?w"
      using quiet_blob [OF assms] run h(2) unfolding quiet_def by (auto split: if_splits)
    then show "\<exists>xs. (\<forall>x \<in> set xs. tv_stack x = None) \<and> holds m start 0 (rp_time r) w' (es @ xs) \<and> settings w' = settings w"
      by (simp only: holds_other)
  qed
qed

lemma quiet_symbols: "env_ok env m \<Longrightarrow> quiet m start (rp_time r) (write_symbols env m p r mapping symbols)"
  by (induction symbols) (simp_all add: quiet_return quiet_bind quiet_symbol)

lemma same_ids_refl [simp]: "same_ids t t"
  by (simp add: same_ids_def)

lemma holds_saved:
  assumes "holds m start 0 now w es"
    "saved_id k (of_nat (length (nw_saved_callstacks w))) (nw_saved_callstacks w) = (i, cs)"
    "saved_id a (of_nat (length (nw_saved_labels w))) (nw_saved_labels w) = (j, ls)"
  shows "holds m start 1 now (w\<lparr>nw_saved_callstacks := cs, nw_saved_labels := ls\<rparr>) es"
proof -
  let ?w = "w\<lparr>nw_saved_callstacks := cs, nw_saved_labels := ls\<rparr>"
  have keep: "nt_pending m ?w raws evs \<and> table_sizes 1 (length raws) ?w"
    if p: "nt_pending m w raws evs" "table_sizes 0 (length raws) w" "length (nw_event_block w) < EVENT_BLOCK_LIMIT" for raws evs
  proof -
    have fits: "ids_ok (nw_saved_callstacks w)" "ids_ok (nw_saved_labels w)" "ids_ok (nw_saved_pid_tids w)"
      using p(1) by (simp_all add: nt_pending_def tables_fit_def)
    note cs = saved_id_ok [OF fits(1) assms(2)] and ls = saved_id_ok [OF fits(2) assms(3)]
    have "same_ids (nw_saved_callstacks w) cs" "same_ids (nw_saved_labels w) ls"
      using cs ls unfolding same_ids_def by blast+
    then have grown: "same_ids (nw_saved_pid_tids w) (nw_saved_pid_tids ?w)"
      "same_ids (nw_saved_callstacks w) (nw_saved_callstacks ?w)" "same_ids (nw_saved_labels w) (nw_saved_labels ?w)"
      by simp_all
    have few: "length raws < 2 ^ 20"
      using p(1,3) encode_events_length [of raws 0] by (simp add: nt_pending_def EVENT_BLOCK_LIMIT_def)
    have sizes: "table_sizes 1 (length raws) ?w" using p(2) cs ls by (simp add: table_sizes_def)
    have "tables_fit ?w" using few fits cs ls by (intro small_tables [OF sizes]) simp_all
    moreover have "list_all2 (matches m w) raws evs" using p(1) by (simp add: nt_pending_def)
    then have "list_all2 (matches m ?w) raws evs"
      by (rule list_all2_mono) (erule matches_mono [OF _ grown])
    ultimately show ?thesis using p(1) sizes by (simp add: nt_pending_def)
  qed
  obtain blocks raws before evs where h: "nw_output w = start @ concat (map encode_block blocks)"
    "length (nw_output w) < 2 ^ 64 \<longrightarrow> segs_ok blocks before" "\<forall>b \<in> set blocks. 0 < fst b \<and> fst b < 256"
    "es = before @ evs" "nt_pending m w raws evs" "length (nw_event_block w) < EVENT_BLOCK_LIMIT" "table_sizes 0 (length raws) w"
    using assms(1) unfolding holds_def by blast
  have "\<exists>blocks raws before evs.
     nw_output ?w = start @ concat (map encode_block blocks) \<and>
     (length (nw_output ?w) < 2 ^ 64 \<longrightarrow> segs_ok blocks before) \<and>
     (\<forall>b \<in> set blocks. 0 < fst b \<and> fst b < 256) \<and> es = before @ evs \<and> nt_pending m ?w raws evs \<and>
     length (nw_event_block ?w) < EVENT_BLOCK_LIMIT \<and> table_sizes 1 (length raws) ?w"
    using h keep [OF h(5,7,6)] by (intro exI [of _ blocks] exI [of _ raws] exI [of _ before] exI [of _ evs]) simp
  then show ?thesis using assms(1) unfolding holds_def by simp
qed

text \<open>What the file is to tell of a sample.\<close>

definition first_record_id :: "('o, 'f) machine \<Rightarrow> u32" where
  "first_record_id m = 1 + of_nat (length (em_kinds m))"

definition kept_ids :: "('o, 'f) machine \<Rightarrow> u32 set" where
  "kept_ids m = original_ids (first_record_id m) (em_record_types m)"

definition sample_payload :: "('o, 'f) machine \<Rightarrow> export_sample \<Rightarrow> (u32 \<times> byte list) option" where
  "sample_payload m s = do {
     v \<leftarrow> default_convert (em_spans m) (smp_value s);
     if has_record s then do {
       data \<leftarrow> sample_record_data s m;
       let i = first_record_id m + ucast (rd_type_id data);
       Ret (i, (if i \<in> kept_ids m then [] else write_varint v) @ rd_data data)
     } else Ret (ucast (smp_kind s) + 1, write_varint v)
   }"

definition sample_in_file :: "('o, 'f) machine \<Rightarrow> u64 \<Rightarrow> u32 \<Rightarrow> u64 \<Rightarrow> export_sample \<Rightarrow> nt_event option" where
  "sample_in_file m sync pid time s = map_option (\<lambda>(i, payload).
     \<lparr>tv_meta = ucast i, tv_cpu = ucast (ucast (smp_cpu s) :: u32), tv_thread = (ucast pid, ucast (smp_tid s)),
       tv_stack = Some (smp_ip s # frames_at m (smp_callstack_id s)), tv_time = max sync time, tv_payload = payload\<rparr>)
     (sample_payload m s)"

lemma sample_step:
  assumes "write_sample_replay_event env m p r s w = Some (Inr (), w')" "env_ok env m" "sample_event p r = Some s"
    "settings w = (first_record_id m, kept_ids m, sync)" "holds m start 0 now w es" "now \<le> rp_time r"
  shows "\<exists>e. sample_in_file m sync (ep_pid p) (rp_time r) s = Some e \<and>
    holds m start 0 (rp_time r) w' (es @ [e]) \<and> settings w' = settings w"
proof -
  obtain i cs where i: "saved_id (smp_ip s, smp_callstack_id s) (of_nat (length (nw_saved_callstacks w))) (nw_saved_callstacks w) = (i, cs)"
    by (cases "saved_id (smp_ip s, smp_callstack_id s) (of_nat (length (nw_saved_callstacks w))) (nw_saved_callstacks w)")
  obtain j ls where j: "saved_id (unat (smp_attributes_id s)) (of_nat (length (nw_saved_labels w))) (nw_saved_labels w) = (j, ls)"
    by (cases "saved_id (unat (smp_attributes_id s)) (of_nat (length (nw_saved_labels w))) (nw_saved_labels w)")
  let ?w = "w\<lparr>nw_saved_callstacks := cs, nw_saved_labels := ls\<rparr>"
  have set: "nw_record_id_offset w = first_record_id m" "nw_original_meta_event_ids w = kept_ids m" "nw_sync_time w = sync"
    "settings ?w = settings w"
    using assms(4) by (simp_all add: settings_def)
  obtain id payload where payload: "sample_payload m s = Some (id, payload)"
    and run: "write_event_blob env m id (ucast (smp_cpu s)) (Some i) (Some j) p r payload ?w = Some (Inr (), w')"
    using assms(1) by (auto simp: write_sample_replay_event_def i j sample_payload_def set Let_def split: bind_splits if_splits)
  have "\<exists>raws evs. nt_pending m w raws evs" using assms(5) unfolding holds_def by blast
  then have ok: "ids_ok (nw_saved_callstacks w)" "ids_ok (nw_saved_labels w)" by (auto simp: nt_pending_def tables_fit_def)
  note cs = saved_id_ok [OF ok(1) i] and ls = saved_id_ok [OF ok(2) j]
  let ?e = "event_of (nw_sync_time ?w) id (ucast (smp_cpu s)) (Some (smp_ip s # frames_at m (smp_callstack_id s))) p r payload"
  have "holds m start 0 (rp_time r) w' (es @ [?e]) \<and> settings w' = settings ?w"
    using cs ls assms(2) by (intro blob_step [OF run holds_saved [OF assms(5) i j] assms(6)]) (auto simp: env_ok_def)
  moreover have "sample_in_file m sync (ep_pid p) (rp_time r) s = Some ?e"
    using payload assms(3) by (simp add: sample_in_file_def event_of_def set)
  ultimately show ?thesis using set(4) by metis
qed

definition samples_in_file :: "('o, 'f) machine \<Rightarrow> u64 \<Rightarrow> (u32 \<times> replay_event) list \<Rightarrow> nt_event option list" where
  "samples_in_file m sync l = concat (map (\<lambda>(pid, re). case re_sample re of
     None \<Rightarrow> [] | Some s \<Rightarrow> [sample_in_file m sync pid (re_time re) s]) l)"

definition with_stack :: "nt_event list \<Rightarrow> nt_event option list" where
  "with_stack es = map Some (filter (\<lambda>e. tv_stack e \<noteq> None) es)"

lemma with_stack_append: "with_stack (xs @ ys) = with_stack xs @ with_stack ys"
  by (simp add: with_stack_def)

lemma with_stack_quiet: "\<forall>x \<in> set xs. tv_stack x = None \<Longrightarrow> with_stack xs = []"
  by (auto simp: with_stack_def filter_empty_conv)

lemma sample_in_file_stack: "sample_in_file m sync pid time s = Some e \<Longrightarrow> tv_stack e \<noteq> None"
  by (auto simp: sample_in_file_def)

definition shown :: "'o export_process \<times> replay \<Rightarrow> u32 \<times> replay_event" where
  "shown x = (case x of (p, r) \<Rightarrow> (ep_pid p, event_at p r))"

lemma visit_step:
  assumes "write_replay_event env m p r w = Some (Inr (), w')" "env_ok env m"
    "settings w = (first_record_id m, kept_ids m, sync)" "holds m start 0 now w es" "now \<le> rp_time r"
  shows "\<exists>xs. holds m start 0 (rp_time r) w' (es @ xs) \<and> settings w' = settings w \<and>
    with_stack xs = samples_in_file m sync [shown (p, r)]"
proof -
  let ?rest = "\<lambda>_ :: unit. io_bind (if created_event p r then write_created_replay_event env m p r else io_return ()) (\<lambda>_.
     io_bind (if exited_event p r then write_exited_replay_event env m p r else io_return ()) (\<lambda>_.
     case mapping_event p r of
       None \<Rightarrow> io_return ()
     | Some mapping \<Rightarrow>
         io_bind (write_mapping_replay_event env m p r mapping) (\<lambda>_.
         write_symbols env m p r mapping (map_symbols mapping))))"
  have rest: "quiet m start (rp_time r) (?rest ())"
    using assms(2) by (auto intro!: quiet_bind simp: quiet_return quiet_created quiet_exited quiet_mapping quiet_symbols split: option.split)
  obtain w1 where w1: "(case sample_event p r of Some s \<Rightarrow> write_sample_replay_event env m p r s | None \<Rightarrow> io_return ()) w = Some (Inr (), w1)"
    "?rest () w1 = Some (Inr (), w')"
    using assms(1) unfolding write_replay_event_def by (auto simp: io_bind_Some simp del: split_paired_Ex)
  have "\<exists>xs. holds m start 0 (rp_time r) w1 (es @ xs) \<and> settings w1 = settings w \<and>
      with_stack xs = samples_in_file m sync [shown (p, r)]"
  proof (cases "sample_event p r")
    case None
    then show ?thesis
      using w1(1) holds_later [OF assms(4,5)]
      by (intro exI [of _ "[]"]) (simp add: with_stack_def samples_in_file_def shown_def event_at_def)
  next
    case (Some s)
    then have "write_sample_replay_event env m p r s w = Some (Inr (), w1)" using w1(1) by simp
    from sample_step [OF this assms(2) Some assms(3,4,5)] obtain e
      where e: "sample_in_file m sync (ep_pid p) (rp_time r) s = Some e" "holds m start 0 (rp_time r) w1 (es @ [e])"
        "settings w1 = settings w" by blast
    have "with_stack [e] = [Some e]" using sample_in_file_stack [OF e(1)] by (simp add: with_stack_def)
    then show ?thesis
      using e Some by (intro exI [of _ "[e]"]) (simp add: samples_in_file_def shown_def event_at_def)
  qed
  then obtain xs where xs: "holds m start 0 (rp_time r) w1 (es @ xs)" "settings w1 = settings w"
    "with_stack xs = samples_in_file m sync [shown (p, r)]" by blast
  from rest w1(2) xs(1) obtain ys where ys: "\<forall>x \<in> set ys. tv_stack x = None"
    "holds m start 0 (rp_time r) w' ((es @ xs) @ ys)" "settings w' = settings w1" unfolding quiet_def by blast
  then show ?thesis
    using xs(2,3) by (intro exI [of _ "xs @ ys"]) (simp add: with_stack_append with_stack_quiet)
qed

section \<open>The replay with any callback\<close>

fun run_visits :: "('o, 's) replay_callback \<Rightarrow> ('o export_process \<times> replay) list \<Rightarrow> 's \<Rightarrow> (err + unit) \<times> 's" where
  "run_visits cb [] s = (Inr (), s)"
| "run_visits cb ((p, r) # vs) s = (case cb p r s of (Inl e, s) \<Rightarrow> (Inl e, s) | (Inr _, s) \<Rightarrow> run_visits cb vs s)"

lemma run_visits_append:
  "run_visits cb (a @ b) s = (case run_visits cb a s of (Inl e, s) \<Rightarrow> (Inl e, s) | (Inr _, s) \<Rightarrow> run_visits cb b s)"
  by (induction cb a s rule: run_visits.induct) (auto split: prod.splits sum.splits)

definition due :: "u64 \<Rightarrow> 'o export_process \<times> replay \<Rightarrow> bool" where
  "due t x = (case x of (p, r) \<Rightarrow> \<not> (replay_done r \<or> rp_time r \<noteq> t))"

lemma emit_at_runs:
  "emit_at cb t rs s = (case run_visits cb (filter (due t) rs) s of
     (Inl e, s) \<Rightarrow> (Inl e, s) | (Inr _, s) \<Rightarrow> (Inr (map (advance_at t) rs), s))"
  by (induction cb t rs s rule: emit_at.induct) (auto simp: due_def advance_at_def split: prod.splits sum.splits)

lemma shown_due: "emitted_at t rs = map shown (filter (due t) rs)"
  by (induction rs) (auto simp: emitted_at_def due_def shown_def)

lemma replay_loop_runs:
  assumes "\<forall>(p, r) \<in> set rs. live p r"
  shows "\<exists>vs. (\<forall>l. replay_loop log_event rs l = Some (Inr (), l @ map shown vs)) \<and>
    (\<forall>s. replay_loop cb rs s = Some (run_visits cb vs s))"
  using assms
proof (induction "left rs" arbitrary: rs rule: less_induct)
  case less
  let ?t = "earliest_time rs (- 1)"
  show ?case
  proof (cases "?t = - 1")
    case True
    then show ?thesis by (intro exI [of _ "[]"]) (subst (1 2) replay_loop.simps, simp)
  next
    case False
    obtain p r where first: "(p, r) \<in> set rs" "\<not> replay_done r" "rp_time r = ?t"
      using earliest_time_spec(3) [of rs "- 1"] False by auto
    let ?rs = "map (advance_at ?t) rs" and ?now = "filter (due ?t) rs"
    obtain vs where vs: "\<And>l. replay_loop log_event ?rs l = Some (Inr (), l @ map shown vs)"
      "\<And>s. replay_loop cb ?rs s = Some (run_visits cb vs s)"
      using less.hyps [OF left_less [OF less.prems first] advance_at_live [OF less.prems]] by blast
    have "replay_loop log_event rs l = Some (Inr (), l @ map shown (?now @ vs))" for l
      using False vs(1) by (subst replay_loop.simps) (simp add: emit_at_log shown_due)
    moreover have "replay_loop cb rs s = Some (run_visits cb (?now @ vs) s)" for s
      using False vs(2) by (subst replay_loop.simps) (auto simp: emit_at_runs run_visits_append split: prod.split sum.split)
    ultimately show ?thesis by blast
  qed
qed

lemma visits_step:
  assumes "run_visits (nt_callback env m) vs (Some w) = (Inr (), st)" "env_ok env m"
    "settings w = (first_record_id m, kept_ids m, sync)" "holds m start 0 now w es"
    "sorted (map (re_time \<circ> snd \<circ> shown) vs)" "\<forall>v \<in> set vs. now \<le> re_time (snd (shown v))"
  shows "\<exists>w' xs now'. st = Some w' \<and> holds m start 0 now' w' (es @ xs) \<and> settings w' = settings w \<and>
    with_stack xs = samples_in_file m sync (map shown vs)"
  using assms
proof (induction vs arbitrary: w es now)
  case Nil
  then show ?case by (intro exI [of _ w] exI [of _ "[]"] exI [of _ now]) (simp add: with_stack_def samples_in_file_def)
next
  case (Cons v vs)
  obtain p r where v: "v = (p, r)" by (cases v)
  have t: "re_time (snd (shown v)) = rp_time r" by (simp add: v shown_def event_at_def)
  obtain w1 where w1: "write_replay_event env m p r w = Some (Inr (), w1)" "run_visits (nt_callback env m) vs (Some w1) = (Inr (), st)"
    using Cons.prems(1) unfolding v by (auto simp: nt_callback_def [of env m p r] split: option.splits sum.splits)
  have "now \<le> rp_time r" using Cons.prems(6) t by auto
  from visit_step [OF w1(1) Cons.prems(2,3,4) this] obtain xs where xs: "holds m start 0 (rp_time r) w1 (es @ xs)"
    "settings w1 = settings w" "with_stack xs = samples_in_file m sync [shown v]" unfolding v by blast
  have "\<forall>v \<in> set vs. rp_time r \<le> re_time (snd (shown v))" using Cons.prems(5) t by (auto simp: comp_def)
  from Cons.IH [OF w1(2) Cons.prems(2) _ xs(1) _ this] Cons.prems(3,5) xs(2) obtain w' ys now'
    where "st = Some w'" "holds m start 0 now' w' ((es @ xs) @ ys)" "settings w' = settings w1"
      "with_stack ys = samples_in_file m sync (map shown vs)" by auto
  then show ?case
    using xs by (intro exI [of _ w'] exI [of _ "xs @ ys"] exI [of _ now']) (simp add: with_stack_append samples_in_file_def)
qed

section \<open>The whole file\<close>

lemma begins:
  assumes "nt_begin env date qpc m = Some w"
  shows "\<exists>trace metadata. holds m (nettrace_magic @ encode_block (1, trace) @ encode_block (3, metadata)) 0 0 w [] \<and>
    settings w = (first_record_id m, kept_ids m, qpc)"
proof -
  obtain w1 where w1: "write_trace_object (nv_date env date) qpc (nv_qpc_freq env) (nv_cpu_count env) (nv_sample_freq env)
       (nv_page_size env) writer_new = Some w1"
    and w: "write_metadata_object (em_kinds m) (em_record_types m) w1 = Some w"
    using assms by (auto simp: nt_begin_def split: bind_splits)
  have new: "nw_output writer_new = nettrace_magic" "nw_saved_pid_tids writer_new = [((0, 0), 0)]"
    "nw_event_block writer_new = []" "nw_last_time writer_new = 0" "nw_saved_labels writer_new = []"
    "nw_saved_callstacks writer_new = []" "nw_original_meta_event_ids writer_new = {}"
    by (simp_all add: writer_new_def nt_init_def init_threads_def saved_id_def nt_out_def nettrace_magic_def)
  obtain trace where trace: "w1 = nt_out (encode_block (1, trace)) (writer_new\<lparr>nw_sync_time := qpc, nw_flush_time := qpc\<rparr>)"
    using w1 by (auto simp: write_trace_object_def write_block_out Let_def split: if_splits)
  obtain metadata where out: "nw_output w = nw_output w1 @ encode_block (3, metadata)"
    using w by (auto simp: write_metadata_object_def write_block_out nt_out_def Let_def split: if_splits)
  have rest: "nw_saved_pid_tids w = [((0, 0), 0)]" "nw_event_block w = []" "nw_last_time w = 0" "nw_saved_labels w = []"
    "nw_saved_callstacks w = []"
    using w by (auto simp: write_metadata_object_def write_block_out nt_out_def trace new Let_def split: if_splits)
  have "settings w = (first_record_id m, kept_ids m, qpc)"
    using w by (auto simp: write_metadata_object_def write_block_out nt_out_def trace new settings_def first_record_id_def
        kept_ids_def Let_def split: if_splits)
  moreover have "holds m (nettrace_magic @ encode_block (1, trace) @ encode_block (3, metadata)) 0 0 w []"
    unfolding holds_def
  proof (intro conjI exI)
    show "nw_output w = (nettrace_magic @ encode_block (1, trace) @ encode_block (3, metadata)) @ concat (map encode_block [])"
      by (simp add: out trace nt_out_def new)
    show "nt_pending m w [] []" by (simp add: nt_pending_def rest last_of_def tables_fit_def ids_ok_def)
    show "length (nw_output w) < 2 ^ 64 \<longrightarrow> segs_ok [] []" by (simp add: segs_ok_def)
    show "length (nw_event_block w) < EVENT_BLOCK_LIMIT" by (simp add: rest EVENT_BLOCK_LIMIT_def)
  qed (simp_all add: rest table_sizes_def)
  ultimately show ?thesis by blast
qed

lemma finishes:
  assumes "nt_finish env m w = Some (Inr (), w')" "holds m start 0 now w es" "env_ok env m"
  shows "\<exists>blocks. nw_output w' = start @ concat (map encode_block blocks) @ u32_bytes 0 \<and>
    (length (nw_output w') < 2 ^ 64 \<longrightarrow> read_segments blocks = Some es) \<and>
    (\<forall>b \<in> set blocks. 0 < fst b \<and> fst b < 256) \<and> sorted (map tv_time es)"
proof -
  define t where "t = (case em_end_qpc m of Some t \<Rightarrow> t | None \<Rightarrow> - 1)"
  let ?last = "(4 :: nat, u64_bytes t @ u32_bytes 1 @ u32_bytes 0)"
  obtain w1 where w1: "(if nw_event_block w \<noteq> [] then flush_event_block env m (nw_flush_time w) t w else Ret (Inr (), w)) = Some (Inr (), w1)"
    and w': "w' = nt_out (u32_bytes 0) (write_seq_block t w1)"
    using assms(1) by (auto simp: nt_finish_def io_bind_Some simp flip: t_def)
  obtain blocks raws before evs where h: "nw_output w = start @ concat (map encode_block blocks)"
    "length (nw_output w) < 2 ^ 64 \<longrightarrow> segs_ok blocks before" "\<forall>b \<in> set blocks. 0 < fst b \<and> fst b < 256"
    "es = before @ evs" "nt_pending m w raws evs"
    and sorted: "sorted (map tv_time es)"
    using assms(2) unfolding holds_def by blast
  obtain more where more: "nw_output w1 = nw_output w @ concat (map encode_block more)"
    "length (nw_output w1) < 2 ^ 64 \<longrightarrow> segs_ok more evs" "\<forall>b \<in> set more. 0 < fst b \<and> fst b < 256"
  proof (cases "nw_event_block w = []")
    case True
    have "length raws \<le> length (encode_events 0 raws)" by (rule encode_events_length)
    then have "evs = []" using h(5) True by (simp add: nt_pending_def)
    then show thesis using w1 True by (intro that [of "[]"]) (simp_all add: segs_ok_def)
  next
    case False
    then have "flush_event_block env m (nw_flush_time w) t w = Some (Inr (), w1)" using w1 by simp
    from flush_reads [OF this h(5)] assms(3) show thesis using that unfolding env_ok_def by blast
  qed
  have out: "nw_output w' = nw_output w1 @ encode_block ?last @ u32_bytes 0"
    by (simp add: w' nt_out_def write_seq_block_def write_block_out)
  have "read_segments (blocks @ more @ [?last]) = Some es" if "length (nw_output w') < 2 ^ 64"
  proof -
    have "segs_ok (blocks @ more) es"
      unfolding h(4) using that h(2) more(1,2) out by (intro segs_ok_append) auto
    then show ?thesis unfolding segs_ok_def by (metis append.assoc append_Nil2 fst_conv read_segments.simps(1))
  qed
  then show ?thesis
    using h(1,3) more(1,3) out sorted by (intro exI [of _ "blocks @ more @ [?last]"]) auto
qed

lemma sample_in_file_procs: "sample_in_file (m\<lparr>em_procs := f\<rparr>) sync pid t s = sample_in_file m sync pid t s"
  unfolding sample_in_file_def sample_payload_def first_record_id_def kept_ids_def sample_record_data_def frames_at_def
  by (simp cong: if_cong)

lemma sample_in_file_sorted: "sample_in_file (sort_for_replay predicate m) = sample_in_file m"
  by (intro ext) (simp only: sort_for_replay_def sample_in_file_procs)

lemma replayed_settings:
  "first_record_id (sort_for_replay predicate m) = first_record_id m" "kept_ids (sort_for_replay predicate m) = kept_ids m"
  "frames_at (sort_for_replay predicate m) = frames_at m"
  by (simp_all add: first_record_id_def kept_ids_def frames_at_def sort_for_replay_def fun_eq_iff)

lemma holds_procs: "holds (sort_for_replay predicate m) = holds m"
proof -
  have "matches (sort_for_replay predicate m) = matches m"
    unfolding matches_def stack_matches_def replayed_settings ..
  then have "nt_pending (sort_for_replay predicate m) = nt_pending m" by (intro ext) (simp add: nt_pending_def)
  then show ?thesis by (intro ext) (simp add: holds_def)
qed

lemma export_parts:
  assumes "to_net_trace env pids predicate m = Some (Inr (), m', bytes)" "em_start_qpc m = Some sync"
    "\<And>s. replay_by_time pids predicate (nt_callback env) m s = Some (fst (R s), m1, snd (R s))"
  shows "\<exists>date w0 w1 w2. nt_begin env date sync m = Some w0 \<and> R (Some w0) = (Inr (), Some w1) \<and>
    nt_finish env m1 w1 = Some (Inr (), w2) \<and> bytes = nw_output w2 \<and> m' = m1"
proof -
  obtain date where date: "em_start_date m = Some date"
    using assms(1) by (cases "em_start_date m") (simp_all add: to_net_trace_def)
  obtain w0 where w0: "nt_begin env date sync m = Some w0"
    using assms(1,2) date by (cases "nt_begin env date sync m") (simp_all add: to_net_trace_def)
  obtain x st where x: "R (Some w0) = (x, st)" by fastforce
  obtain w1 where w1: "st = Some w1"
    using assms(1,2) date w0 assms(3) [of "Some w0"] x by (cases st) (simp_all add: to_net_trace_def)
  have inr: "x = Inr ()"
    using assms(1,2) date w0 assms(3) [of "Some w0"] x w1 by (cases x) (simp_all add: to_net_trace_def)
  obtain y w2 where f: "nt_finish env m1 w1 = Some (y, w2)"
    using assms(1,2) date w0 assms(3) [of "Some w0"] x w1 inr
    by (cases "nt_finish env m1 w1") (auto simp: to_net_trace_def)
  show ?thesis
    using assms(1,2) date w0 assms(3) [of "Some w0"] x w1 inr f
    by (intro exI [of _ date] exI [of _ w0] exI [of _ w1] exI [of _ w2]) (simp add: to_net_trace_def)
qed

lemma read_trace_blocks:
  assumes "bytes = nettrace_magic @ concat (map encode_block blocks) @ u32_bytes 0"
    "\<forall>b \<in> set blocks. 0 < fst b \<and> fst b < 256 \<and> length (snd b) < 2 ^ 24" "map fst (take 2 blocks) = [1, 3]"
  shows "read_trace bytes = read_segments (drop 2 blocks)"
proof -
  have "length nettrace_magic = 20" by (simp add: nettrace_magic_def plain_def as_bytes_def code_points_def utf8_char_def u32_bytes_def)
  then show ?thesis
    using read_blocks_encoded [OF assms(2)] assms(3) by (simp add: read_trace_def assms(1))
qed

end
