(* ===== verification/NetTraceRoundtrip.thy ===== *)
theory NetTraceRoundtrip
  imports NetTraceFile
begin

text \<open>
  The files that \<open>to_net_trace\<close> writes are read back: the theorem, and a small trace of one process with two samples
  on which it is applied.
\<close>

section \<open>Lengths\<close>

lemma varint_length: "length (write_varint v) \<le> 10"
proof -
  have "unat v < 2 ^ 64" by (rule unsigned_less [THEN order_less_le_trans]) simp
  then have "unat v < 128 ^ 10" by simp
  from size_varint_bound [OF this] show ?thesis by (simp add: size_write_varint)
qed

lemma utf8_length: "length (write_utf8 s) \<le> 10 + length s"
  using varint_length by (simp add: write_utf8_def)

lemma field_length: "length (field_metadata f) \<le> 14 + length (nf_name f)"
  using utf8_length [of "nf_name f"] by (simp add: field_metadata_def u16_bytes_def Let_def)

lemma guid_length: "length (guid_bytes n) = 16"
  by (simp add: guid_bytes_def u16_bytes_def u32_bytes_def u64_bytes_def)

lemma metadata_length:
  "length (event_metadata i p k name fs) \<le>
    70 + length (as_bytes (fst (provider_guid p))) + length name + (\<Sum>f \<leftarrow> fs. 14 + length (nf_name f))"
proof -
  have fs: "length (concat (map field_metadata fs)) \<le> (\<Sum>f \<leftarrow> fs. 14 + length (nf_name f))"
    unfolding length_concat map_map comp_def by (intro sum_list_mono field_length)
  show ?thesis
    using fs varint_length [of "ucast i"] varint_length [of "ucast k"] utf8_length [of "as_bytes (fst (provider_guid p))"]
      utf8_length [of name]
    by (cases "provider_guid p") (simp add: event_metadata_def Let_def guid_length split: option.split)
qed

lemma system_provider: "length (as_bytes (fst (provider_guid UNIVERSAL_SYSTEM))) = 16"
  "length (as_bytes (fst (provider_guid UNIVERSAL_EVENTS))) = 16"
  by (simp_all add: provider_guid_def split_once_def UNIVERSAL_SYSTEM_def UNIVERSAL_EVENTS_def as_bytes_def code_points_def utf8_char_def)

lemma plain_length: "list_all (\<lambda>c. (of_char c :: nat) < 128) s \<Longrightarrow> length (plain s) = length s"
  by (induction s) (auto simp: plain_def as_bytes_def code_points_def utf8_char_def)

section \<open>A small trace\<close>

definition traced_process :: "unit export_process" where
  "traced_process = add_sample (sample_new 7 (Count 300) 2 0 9 32 0) (add_sample (sample_new 3 (Count 1) 0 0 1 16 0) (process_new () 6))"

definition traced_machine :: "(unit, unit) machine" where
  "traced_machine = \<lparr>em_strings = snd (the (strings_to_id (\<lambda>_. 0) (strings_new 8) [])), em_callstacks = one_stack,
     em_procs = [6 \<mapsto> traced_process],
     em_records = [record_default], em_attributes = [attributes_default], em_spans = [], em_record_data = [],
     em_kinds = [plain ''cpu''], em_record_types = [record_type_default], em_map_index = 0, em_start_date = Some 0,
     em_start_qpc = Some 5, em_end_qpc = Some 9, em_duration = None, em_sample_hooks = [], em_process_fs = False,
     em_dev_nodes = Map.empty, em_va_offsets = Map.empty, em_cswitches = Map.empty\<rparr>"

definition plain_env :: nt_env where
  "plain_env = \<lparr>nv_hash = (\<lambda>_. 0), nv_metadata = Map.empty, nv_drain = (\<lambda>l. l),
     nv_date = (\<lambda>_. \<lparr>td_year = 2024, td_month = 1, td_weekday = 1, td_day = 1, td_hour = 0, td_minute = 0, td_second = 0,
       td_nanosecond = 0\<rparr>),
     nv_qpc_freq = 1000, nv_cpu_count = 4, nv_sample_freq = 1000, nv_page_size = 4096\<rparr>"

lemma decimal_sizes: "length (decimal_bytes 1000000) = 7" "length (decimal_bytes 4) = 1" "length (decimal_bytes 4096) = 4"
  by (simp_all add: decimal_bytes_def decimal.simps as_bytes_def utf8_char_def)

lemma no_bytes: "as_bytes [] = []"
  by (simp add: as_bytes_def)

lemma traced_begin:
  "\<exists>w. nt_begin plain_env 0 5 traced_machine = Some w \<and> length (nw_output w) < 5000 \<and> nw_event_block w = [] \<and>
     nw_saved_pid_tids w = [((0, 0), 0)] \<and> nw_saved_labels w = [] \<and> nw_saved_callstacks w = [] \<and>
     nw_sync_time w = 5 \<and> nw_last_time w = 0 \<and> nw_flush_time w = 5"
proof -
  obtain w1 where w1: "write_trace_object (nv_date plain_env 0) 5 (nv_qpc_freq plain_env) (nv_cpu_count plain_env)
      (nv_sample_freq plain_env) (nv_page_size plain_env) writer_new = Some w1"
    "length (nw_output w1) < 1000" "nw_event_block w1 = []" "nw_saved_pid_tids w1 = [((0, 0), 0)]" "nw_saved_labels w1 = []"
    "nw_saved_callstacks w1 = []" "nw_sync_time w1 = 5" "nw_last_time w1 = 0" "nw_flush_time w1 = 5"
    using utf8_length [of "plain ''HardwareThreadCount''"] utf8_length [of "plain ''ExpectedCPUSamplingRate''"]
      utf8_length [of "plain ''SystemPageSize''"] utf8_length [of "decimal_bytes 1000000"] utf8_length [of "decimal_bytes 4"]
      utf8_length [of "decimal_bytes 4096"]
    by (simp add: write_trace_object_def plain_env_def write_block_out nt_out_def encode_block_def key_value_def writer_new_def
        nt_init_def init_threads_def saved_id_def plain_length decimal_sizes Let_def)
  note sizes = metadata_length [of 1 UNIVERSAL_EVENTS 1 "plain ''cpu''" "[VALUE_FIELD]"]
    metadata_length [of 2 UNIVERSAL_EVENTS 2 "[]" "[VALUE_FIELD]"]
    metadata_length [of 3 UNIVERSAL_SYSTEM 0 "plain ''ExistingProcess''" PROCESS_CREATE_FIELDS]
    metadata_length [of 4 UNIVERSAL_SYSTEM 1 "plain ''ProcessCreate''" PROCESS_CREATE_FIELDS]
    metadata_length [of 5 UNIVERSAL_SYSTEM 2 "plain ''ProcessExit''" "[]"]
    metadata_length [of 6 UNIVERSAL_SYSTEM 3 "plain ''ProcessMapping''" PROCESS_MAPPING_FIELDS]
    metadata_length [of 7 UNIVERSAL_SYSTEM 4 "plain ''ProcessSymbol''" PROCESS_SYMBOL_FIELDS]
    metadata_length [of 8 UNIVERSAL_SYSTEM 5 "plain ''ProcessMappingMetadata''" PROCESS_MAPPING_META_FIELDS]
  obtain w where w: "write_metadata_object (em_kinds traced_machine) (em_record_types traced_machine) w1 = Some w"
    "length (nw_output w) < 5000" "nw_event_block w = nw_event_block w1" "nw_saved_pid_tids w = nw_saved_pid_tids w1"
    "nw_saved_labels w = nw_saved_labels w1" "nw_saved_callstacks w = nw_saved_callstacks w1" "nw_sync_time w = nw_sync_time w1"
    "nw_last_time w = nw_last_time w1" "nw_flush_time w = nw_flush_time w1"
    using w1(2) sizes
    by (simp add: write_metadata_object_def traced_machine_def write_block_out nt_out_def encode_block_def ids_fit_def
        record_type_metadata_def record_type_default_def is_original_data_def format_new_def system_metadata_def system_provider
        PROCESS_CREATE_FIELDS_def PROCESS_MAPPING_FIELDS_def PROCESS_SYMBOL_FIELDS_def PROCESS_MAPPING_META_FIELDS_def
        VALUE_FIELD_def field_of_def plain_length code_points_def no_bytes Let_def)
  show ?thesis using w1 w by (simp add: nt_begin_def)
qed


definition traced_sorted :: "unit export_process" where
  "traced_sorted = sorted_process traced_process"

definition traced_first :: replay where
  "traced_first = \<lparr>rp_time = 3, rp_sample_index = 0, rp_mapping_index = 0, rp_created = True, rp_exited = True\<rparr>"

definition traced_second :: replay where
  "traced_second = \<lparr>rp_time = 7, rp_sample_index = 1, rp_mapping_index = 0, rp_created = True, rp_exited = True\<rparr>"

lemma traced_samples:
  "ep_samples traced_process = [sample_new 3 (Count 1) 0 0 1 16 0, sample_new 7 (Count 300) 2 0 9 32 0]"
  "process_mappings traced_process = []" "ep_pid traced_process = 6" "times_ordinary traced_process"
  "ep_create_time traced_process = None" "ep_exit_time traced_process = None"
  by (simp_all add: traced_process_def add_sample_def process_new_def process_mappings_def eml_default_def times_ordinary_def sample_new_def)

lemma traced_sorted_simps:
  "ep_samples traced_sorted = [sample_new 3 (Count 1) 0 0 1 16 0, sample_new 7 (Count 300) 2 0 9 32 0]"
  "process_mappings traced_sorted = []" "ep_pid traced_sorted = 6" 
  "ep_create_time traced_sorted = None" "ep_exit_time traced_sorted = None"
  by (simp_all add: traced_sorted_def traced_samples) (simp_all add: sorted_process_def sample_new_def process_sort_mappings_def sort_samples_by_time_def traced_process_def  add_sample_def process_new_def)

lemma traced_steps:
  "replay_new traced_sorted = traced_first" "replay_advance traced_sorted traced_first = traced_second"
  "replay_done (replay_advance traced_sorted traced_second)"
  by (simp_all add: replay_new_def replay_advance_def traced_first_def traced_second_def sample_event_def mapping_event_def try_get_sample_def try_get_mapping_def
     created_event_def exited_event_def traced_sorted_simps earlier_def replay_done_def sample_new_def nth_opt_def Let_def cong: if_cong)


definition traced :: "(unit, unit) machine" where
  "traced = sort_for_replay (\<lambda>_. True) traced_machine"

lemma traced_events:
  "event_at traced_sorted traced_first = \<lparr>re_time = 3, re_sample = Some (sample_new 3 (Count 1) 0 0 1 16 0), re_mapping = None,
     re_created = False, re_exited = False\<rparr>"
  "event_at traced_sorted traced_second = \<lparr>re_time = 7, re_sample = Some (sample_new 7 (Count 300) 2 0 9 32 0), re_mapping = None,
     re_created = False, re_exited = False\<rparr>"
  by (simp_all add: event_at_def traced_first_def traced_second_def sample_event_def mapping_event_def try_get_sample_def
      try_get_mapping_def created_event_def exited_event_def traced_sorted_simps nth_opt_def) (simp_all add: sample_new_def)

lemma traced_loop:
  assumes "cb traced_sorted traced_first s = (Inr (), s1)" "cb traced_sorted traced_second s1 = (Inr (), s2)"
  shows "replay_loop cb [(traced_sorted, traced_first)] s = Some (Inr (), s2)"
proof -
  let ?third = "replay_advance traced_sorted traced_second"
  have live: "rp_time traced_first = 3" "rp_time traced_second = 7" "\<not> replay_done traced_first" "\<not> replay_done traced_second"
    by (simp_all add: traced_first_def traced_second_def replay_done_def)
  have "replay_loop cb [(traced_sorted, ?third)] s2 = Some (Inr (), s2)"
    by (subst replay_loop.simps) (simp add: traced_steps)
  then have "replay_loop cb [(traced_sorted, traced_second)] s1 = Some (Inr (), s2)"
    by (subst replay_loop.simps) (simp add: live assms)
  then show ?thesis by (subst replay_loop.simps) (simp add: live assms traced_steps)
qed

lemma traced_replay: "replay_by_time [6] (\<lambda>_. True) cb traced_machine s =
    (case replay_loop (cb traced) [(traced_sorted, traced_first)] s of None \<Rightarrow> None | Some (x, s) \<Rightarrow> Some (x, traced, s))"
proof -
  have "List.map_filter (em_procs traced) [6] = [traced_sorted]"
    by (simp add: traced_def sort_for_replay_def traced_machine_def traced_sorted_def sorted_process_def List.map_filter_simps)
  then show ?thesis
    by (simp add: replay_by_time_def traced_steps Let_def flip: traced_def split: option.split)
qed

lemma traced_fields: "em_callstacks traced = one_stack" "em_strings traced = em_strings traced_machine" "em_attributes traced = [attributes_default]"
  "em_end_qpc traced = Some 9" "em_spans traced = []"
  by (simp_all add: traced_def sort_for_replay_def traced_machine_def)

lemma small_varints: "write_varint 0 = [0]" "write_varint 1 = [1]" "write_varint 2 = [2]" "write_varint 3 = [3]"
  "write_varint 5 = [5]" "write_varint 300 = [172, 2]"
  by (subst write_varint.simps, simp add: word_le_nat_alt write_varint.simps)+

lemmas visit_defs = event_at_def write_replay_event_def io_bind_def io_return_def write_sample_replay_event_def saved_id_def
  default_convert_def has_record_def sample_new_def write_event_blob_def get_pid_tid_id_def plus_one_def
  write_event_timestamp_def add_event_bytes_def EVENT_BLOCK_LIMIT_def

lemma traced_visits:
  "nw_event_block w = [] \<Longrightarrow> nw_saved_pid_tids w = [((0, 0), 0)] \<Longrightarrow> nw_saved_labels w = [] \<Longrightarrow> nw_saved_callstacks w = [] \<Longrightarrow>
   nw_sync_time w = 5 \<Longrightarrow> nw_last_time w = 0 \<Longrightarrow>
   write_replay_event plain_env traced traced_sorted traced_first w = Some (Inr (), w\<lparr>nw_saved_callstacks := [((16, 0), 0)],
     nw_saved_labels := [(0, 0)], nw_saved_pid_tids := [((0, 0), 0), ((6, 1), 1)], nw_last_time := 5,
     nw_event_block := [223, 1, 0, 0, 0, 1, 1, 5, 1, 1, 1]\<rparr>)"
  "nw_event_block w = bs \<Longrightarrow> length bs < 100 \<Longrightarrow> nw_saved_pid_tids w = [((0, 0), 0), ((6, 1), 1)] \<Longrightarrow>
   nw_saved_labels w = [(0, 0)] \<Longrightarrow> nw_saved_callstacks w = [((16, 0), 0)] \<Longrightarrow> nw_sync_time w = 5 \<Longrightarrow> nw_last_time w = 5 \<Longrightarrow>
   write_replay_event plain_env traced traced_sorted traced_second w = Some (Inr (), w\<lparr>nw_saved_callstacks := [((16, 0), 0), ((32, 0), 1)],
     nw_saved_labels := [(0, 0)], nw_saved_pid_tids := [((0, 0), 0), ((6, 1), 1), ((6, 9), 2)], nw_last_time := 7,
     nw_event_block := bs @ [223, 1, 0, 0, 2, 2, 2, 2, 1, 2, 172, 2]\<rparr>)"
  using traced_events
  by (simp_all add: visit_defs traced_sorted_simps small_varints Let_def traced_first_def traced_second_def)


lemma traced_strings: "slices_inv (\<lambda>_. 0) (em_strings traced)"
proof -
  obtain i s where "to_id (\<lambda>_. 0) (slices_new 8) [] = Some (i, s :: byte interned_slices)" "slices_inv (\<lambda>_. 0) s"
    using sl.intern_spec [OF slices_new_inv [of "\<lambda>_. 0" 8], of "[]"] by blast
  then show ?thesis by (simp add: traced_fields traced_machine_def strings_to_id_def strings_new_def)
qed

lemma traced_names: "\<exists>ln. label_names_of (nv_hash plain_env) (em_strings traced) = Some ln"
  by (simp add: label_names_of_def find_name_def strings_find_id_def plain_env_def find_id_spec [OF traced_strings])

lemma traced_attributes: "\<exists>wk. machine_attributes 0 (with_filter f walker_default) traced = Some wk \<and> wk_attributes wk = []"
proof -
  let ?w = "walker_start (with_filter f walker_default)"
  let ?u = "(push_id 0 ?w)\<lparr>wk_ids := []\<rparr>"
  have w: "?w = \<lparr>wk_ids = [], wk_seen = {}, wk_attributes = [], wk_filter = Some f\<rparr>"
    by (simp add: walker_start_def with_filter_def walker_default_def)
  have "walk_loop [attributes_default] ?u = Some ?u"
    by (subst walk_loop.simps) (simp add: pop_id_def)
  then have "walk_loop [attributes_default] (push_id 0 ?w) = Some ?u"
    by (subst walk_loop.simps) (simp add: w pop_id_def push_id_def at_def attributes_default_def push_attributes_def)
  then show ?thesis
    by (simp add: machine_attributes_def walk_attributes_def traced_fields push_id_def w)
qed

lemma traced_frames: "callstacks_from_id one_stack 0 ips = Some (Inr (), [0x1010])"
  using one_stack_frames by (auto simp: callstacks_from_id_def split: bind_splits option.splits)

lemma traced_finish:
  assumes "nw_event_block w \<noteq> []" "length (nw_event_block w) < 200" "nw_saved_callstacks w = [((16, 0), 0), ((32, 0), 1)]"
    "nw_saved_labels w = [(0, 0)]" "nw_saved_pid_tids w = [((0, 0), 0), ((6, 1), 1), ((6, 9), 2)]"
  shows "\<exists>w'. nt_finish plain_env traced w = Some (Inr (), w') \<and> length (nw_output w') < length (nw_output w) + 1000"
proof -
  obtain ln where ln: "label_names_of (nv_hash plain_env) (em_strings traced) = Some ln" using traced_names by blast
  obtain wk where wk: "machine_attributes 0 (with_filter (label_wanted ln) walker_default) traced = Some wk" "wk_attributes wk = []"
    using traced_attributes by blast
  have error: "length (write_utf8 (plain ''Error'')) \<le> 15" "length (write_utf8 (plain ''Expected actual values'')) \<le> 32"
    using utf8_length [of "plain ''Error''"] utf8_length [of "plain ''Expected actual values''"] by (simp_all add: plain_length)
  have threads: "length (thread_bytes t) \<le> 34" for t
    using varint_length [of "ucast (snd t)"] varint_length [of "ucast (fst (fst t))"] varint_length [of "ucast (snd (fst t))"]
    by (cases t) (auto simp: thread_bytes_def Let_def)
  note threads = threads [of "((0, 0), 0)"] threads [of "((6, 1), 1)"] threads [of "((6, 9), 2)"]
  obtain w1 where w1: "flush_event_block plain_env traced (nw_flush_time w) 9 w = Some (Inr (), w1)"
    "length (nw_output w1) < length (nw_output w) + 900"
    using ln wk error threads assms
    by (simp add: flush_event_block_def write_seq_block_def write_block_out write_callstacks_def reserve take_saved_callstacks_def
      write_threads_out write_labels_def take_saved_labels_def traced_fields traced_frames stack_bytes_def io_return_def
      event_block_header_def nt_out_def encode_block_def write_end_block_def update_u32_def plain_env_def Let_def)
  then show ?thesis
    using assms(1) by (simp add: nt_finish_def io_bind_def traced_fields write_seq_block_def write_block_out nt_out_def encode_block_def)
qed

lemma one_stack_at: "from_id one_stack i = Some (if i = 0 then Some [0x1010] else None)"
proof -
  obtain k s where "to_id (\<lambda>_. 0) (slices_new 8) [0x1010 :: u64] = Some (k, s)" "slices_inv (\<lambda>_. 0) s"
    "slices_contents s = [[0x1010]]"
    using sl.intern_spec [OF slices_new_inv [of "\<lambda>_. 0" 8], of "[0x1010 :: u64]"] by auto
  then show ?thesis
    using sl.look_spec [of "\<lambda>_. 0" s i] by (simp add: one_stack_def callstacks_to_id_def callstacks_new_def)
qed

lemma traced_frames_at: "frames_at traced_machine sid = (if sid = 0 then [0x1010] else [])"
  by (simp add: frames_at_def traced_machine_def one_stack_at unat_eq_zero)

lemma traced_samples_in_file: "samples_in_file traced_machine 5 [shown (traced_sorted, traced_first), shown (traced_sorted, traced_second)] =
   [Some \<lparr>tv_meta = 1, tv_cpu = 0, tv_thread = (6, 1), tv_stack = Some [16, 0x1010], tv_time = 5, tv_payload = [1]\<rparr>,
    Some \<lparr>tv_meta = 1, tv_cpu = 2, tv_thread = (6, 9), tv_stack = Some [32, 0x1010], tv_time = 7, tv_payload = [172, 2]\<rparr>]"
  by (simp add: samples_in_file_def shown_def traced_events traced_sorted_simps sample_in_file_def sample_payload_def default_convert_def
      has_record_def sample_new_def traced_frames_at small_varints max_def word_le_nat_alt)

lemma traced_export: "\<exists>bytes. to_net_trace plain_env [6] (\<lambda>_. True) traced_machine = Some (Inr (), traced, bytes) \<and> length bytes < 6000"
proof -
  obtain w0 where w0: "nt_begin plain_env 0 5 traced_machine = Some w0" "length (nw_output w0) < 5000" "nw_event_block w0 = []"
    "nw_saved_pid_tids w0 = [((0, 0), 0)]" "nw_saved_labels w0 = []" "nw_saved_callstacks w0 = []" "nw_sync_time w0 = 5"
    "nw_last_time w0 = 0"
    using traced_begin by blast
  obtain w1 where w1: "nt_callback plain_env traced traced_sorted traced_first (Some w0) = (Inr (), Some w1)" "nw_output w1 = nw_output w0"
    "nw_event_block w1 = [223, 1, 0, 0, 0, 1, 1, 5, 1, 1, 1]" "nw_saved_pid_tids w1 = [((0, 0), 0), ((6, 1), 1)]" "nw_saved_labels w1 = [(0, 0)]"
    "nw_saved_callstacks w1 = [((16, 0), 0)]" "nw_sync_time w1 = 5" "nw_last_time w1 = 5"
    using traced_visits(1) [OF w0(3-8)] w0(7) by (simp add: nt_callback_def)
  have "length [223 :: byte, 1, 0, 0, 0, 1, 1, 5, 1, 1, 1] < 100" by simp
  from traced_visits(2) [OF w1(3) this w1(4-8)] obtain w2 where
    w2: "nt_callback plain_env traced traced_sorted traced_second (Some w1) = (Inr (), Some w2)" "nw_output w2 = nw_output w0"
    "nw_event_block w2 \<noteq> []" "length (nw_event_block w2) < 200" "nw_saved_callstacks w2 = [((16, 0), 0), ((32, 0), 1)]"
    "nw_saved_labels w2 = [(0, 0)]" "nw_saved_pid_tids w2 = [((0, 0), 0), ((6, 1), 1), ((6, 9), 2)]"
    using w1(2) by (simp add: nt_callback_def)
  obtain w3 where w3: "nt_finish plain_env traced w2 = Some (Inr (), w3)" "length (nw_output w3) < length (nw_output w2) + 1000"
    using traced_finish [OF w2(3-7)] by blast
  have "em_start_date traced_machine = Some 0" "em_start_qpc traced_machine = Some 5" by (simp_all add: traced_machine_def)
  then show ?thesis
    using w0(1,2) traced_loop [of "nt_callback plain_env traced", OF w1(1) w2(1)] w2(2) w3 by (simp add: to_net_trace_def traced_replay)
qed

lemma traced_log: "replay_by_time [6] (\<lambda>_. True) (\<lambda>_. log_event) traced_machine [] =
   Some (Inr (), traced, [shown (traced_sorted, traced_first), shown (traced_sorted, traced_second)])"
proof -
  have "replay_loop log_event [(traced_sorted, traced_first)] [] =
      Some (Inr (), [shown (traced_sorted, traced_first), shown (traced_sorted, traced_second)])"
    by (rule traced_loop) (simp_all add: log_event_def shown_def)
  then show ?thesis by (simp add: traced_replay)
qed

section \<open>The theorem\<close>

text \<open>C18. A nettrace file reads back. When the export returns, the bytes are the blocks of the format, the reader finds the
  trace and the metadata and then the events, in the order of their times; the events that have a stack are
  exactly the samples of the replay over all chosen processes, in its order, each with its address, its
  frames, its process and thread, its cpu, its payload under the id of its metadata, and its time or the
  start of the trace where that is later, whatever number of flushes came between. Where every block is
  below 16 MB the file as a whole reads back. (The drained map yields each entry once; no stack has \<open>2 ^ 28\<close> frames
  and the file not \<open>2 ^ 64\<close> bytes; for the replay, as above.)\<close>

theorem nettrace_reads_back:
  assumes "to_net_trace env pids predicate m = Some (Inr (), m', bytes)" "em_start_qpc m = Some sync"
    "distinct pids" "\<forall>pid p. em_procs m pid = Some p \<longrightarrow> ep_pid p = pid"
    "\<forall>p. predicate (process_sort_mappings (sort_samples_by_time p)) = predicate p"
    "\<forall>pid p. em_procs m pid = Some p \<longrightarrow> predicate p \<longrightarrow> times_ordinary p"
    "\<forall>l. mset (nv_drain env l) = mset l" "\<forall>sid. length (frames_at m sid) < 2 ^ 28" "length bytes < 2 ^ 64"
  shows "\<exists>l blocks es. replay_by_time pids predicate (\<lambda>_. log_event) m [] = Some (Inr (), m', l) \<and>
    bytes = nettrace_magic @ concat (map encode_block blocks) @ u32_bytes 0 \<and>
    map fst (take 2 blocks) = [1, 3] \<and> read_segments (drop 2 blocks) = Some es \<and> sorted (map tv_time es) \<and>
    map Some (filter (\<lambda>e. tv_stack e \<noteq> None) es) = samples_in_file m sync l \<and>
    ((\<forall>b \<in> set blocks. length (snd b) < 2 ^ 24) \<longrightarrow> read_trace bytes = Some es)"
proof -
  have pred: "\<forall>p. predicate (sorted_process p) = predicate p" using assms(5) by (simp add: sorted_process_def)
  let ?m = "sort_for_replay predicate m"
  let ?chosen = "filter predicate (List.map_filter (em_procs m) pids)"
  let ?rs = "map (\<lambda>p. (p, replay_new p)) (map sorted_process ?chosen)"
  have "distinct (map (ep_pid \<circ> fst) ?rs)"
    using distinct_chosen [OF assms(3,4), of predicate] by (simp add: comp_def)
  moreover have live: "\<forall>(p, r) \<in> set ?rs. live p r"
    using assms(6) by (auto simp: set_map_filter intro: live_new)
  ultimately obtain l where l: "replay_loop log_event ?rs [] = Some (Inr (), l)" "sorted (map (re_time \<circ> snd) l)"
    using replay_loop_log [of ?rs "[]"] by auto
  obtain vs where vs: "replay_loop log_event ?rs [] = Some (Inr (), map shown vs)"
    "\<And>s. replay_loop (nt_callback env ?m) ?rs s = Some (run_visits (nt_callback env ?m) vs s)"
    using replay_loop_runs [OF live, of "nt_callback env ?m"] by auto
  have l_vs: "l = map shown vs" using l(1) vs(1) by simp
  have log: "replay_by_time pids predicate (\<lambda>_. log_event) m [] = Some (Inr (), ?m, l)"
    using l(1) unfolding replay_by_time_def Let_def chosen_processes [OF pred] by simp
  have run: "replay_by_time pids predicate (nt_callback env) m s =
      Some (fst (run_visits (nt_callback env ?m) vs s), ?m, snd (run_visits (nt_callback env ?m) vs s))" for s
    using vs(2) unfolding replay_by_time_def Let_def chosen_processes [OF pred]
    by (cases "run_visits (nt_callback env ?m) vs s") simp
  obtain date w0 w1 w2 where w: "nt_begin env date sync m = Some w0"
    "run_visits (nt_callback env ?m) vs (Some w0) = (Inr (), Some w1)" "nt_finish env ?m w1 = Some (Inr (), w2)"
    "bytes = nw_output w2" "m' = ?m"
    using export_parts [OF assms(1,2) run] by blast
  obtain trace metadata where start: "holds m (nettrace_magic @ encode_block (1, trace) @ encode_block (3, metadata)) 0 0 w0 []"
      (is "holds m ?start _ _ _ _") "settings w0 = (first_record_id m, kept_ids m, sync)"
    using begins [OF w(1)] by blast
  have env: "env_ok env ?m" using assms(7,8) by (simp add: env_ok_def replayed_settings)
  obtain xs now where xs: "holds m ?start 0 now w1 xs" "with_stack xs = samples_in_file ?m sync (map shown vs)"
    using visits_step [OF w(2) env, of sync ?start 0 "[]"] start l(2)
    by (auto simp: holds_procs replayed_settings l_vs comp_def)
  from finishes [OF w(3) _ env, of ?start now xs] xs(1) obtain blocks where blocks:
    "bytes = ?start @ concat (map encode_block blocks) @ u32_bytes 0" "read_segments blocks = Some xs"
    "\<forall>b \<in> set blocks. 0 < fst b \<and> fst b < 256" "sorted (map tv_time xs)"
    using assms(9) by (auto simp: holds_procs w(4))
  let ?blocks = "(1, trace) # (3, metadata) # blocks"
  have bytes: "bytes = nettrace_magic @ concat (map encode_block ?blocks) @ u32_bytes 0" using blocks(1) by simp
  have "map Some (filter (\<lambda>e. tv_stack e \<noteq> None) xs) = samples_in_file m sync l"
    using xs(2) unfolding with_stack_def samples_in_file_def sample_in_file_sorted l_vs .
  moreover have "read_trace bytes = Some xs" if "\<forall>b \<in> set ?blocks. length (snd b) < 2 ^ 24"
    using read_trace_blocks [OF bytes] that blocks(2,3) by simp
  ultimately show ?thesis
    using log bytes blocks(2,4) w(5) by (intro exI [of _ l] exI [of _ ?blocks] exI [of _ xs]) simp
qed


theorem nettrace_reads_back_witness:
  "\<exists>bytes blocks es. to_net_trace plain_env [6] (\<lambda>_. True) traced_machine = Some (Inr (), traced, bytes) \<and>
    bytes = nettrace_magic @ concat (map encode_block blocks) @ u32_bytes 0 \<and> read_segments (drop 2 blocks) = Some es \<and>
    filter (\<lambda>e. tv_stack e \<noteq> None) es =
      [\<lparr>tv_meta = 1, tv_cpu = 0, tv_thread = (6, 1), tv_stack = Some [16, 0x1010], tv_time = 5, tv_payload = [1]\<rparr>,
       \<lparr>tv_meta = 1, tv_cpu = 2, tv_thread = (6, 9), tv_stack = Some [32, 0x1010], tv_time = 7, tv_payload = [172, 2]\<rparr>]"
proof -
  obtain bytes where bytes: "to_net_trace plain_env [6] (\<lambda>_. True) traced_machine = Some (Inr (), traced, bytes)"
    "length bytes < 6000"
    using traced_export by blast
  have machine: "em_start_qpc traced_machine = Some 5" "distinct [6 :: u32]"
    "\<forall>pid p. em_procs traced_machine pid = Some p \<longrightarrow> ep_pid p = pid"
    "\<forall>pid p. em_procs traced_machine pid = Some p \<longrightarrow> True \<longrightarrow> times_ordinary p"
    by (simp_all add: traced_machine_def traced_samples)
  have env: "\<forall>l. mset (nv_drain plain_env l) = mset l" "\<forall>sid. length (frames_at traced_machine sid) < 2 ^ 28" "length bytes < 2 ^ 64"
    using bytes(2) by (simp_all add: plain_env_def traced_frames_at)
  from nettrace_reads_back [OF bytes(1) machine(1,2,3) _ machine(4) env] obtain l blocks es
    where l: "replay_by_time [6] (\<lambda>_. True) (\<lambda>_. log_event) traced_machine [] = Some (Inr (), traced, l)"
    and read: "bytes = nettrace_magic @ concat (map encode_block blocks) @ u32_bytes 0" "read_segments (drop 2 blocks) = Some es"
    "map Some (filter (\<lambda>e. tv_stack e \<noteq> None) es) = samples_in_file traced_machine 5 l" by blast
  have l_is: "l = [shown (traced_sorted, traced_first), shown (traced_sorted, traced_second)]" using l traced_log by simp
  have "map Some (filter (\<lambda>e. tv_stack e \<noteq> None) es) = map Some
      [\<lparr>tv_meta = 1, tv_cpu = 0, tv_thread = (6, 1), tv_stack = Some [16, 0x1010], tv_time = 5, tv_payload = [1]\<rparr>,
       \<lparr>tv_meta = 1, tv_cpu = 2, tv_thread = (6, 9), tv_stack = Some [32, 0x1010], tv_time = 7, tv_payload = [172, 2]\<rparr>]"
    unfolding read(3) l_is traced_samples_in_file by simp
  then show ?thesis
    using bytes(1) read(1,2) unfolding inj_map_eq_map [OF inj_Some] by blast
qed

text \<open>C19. The size of a block is not kept below its 24 bits: a block of stacks of 16 to 32 MB, which the stacks of a
  single event block of 1 MB can come to, gets a size that is 16 MB too small, so a reader takes the rest of its stacks
  for the next block.\<close>

theorem oversized_stack_block:
  assumes "2 ^ 24 \<le> length body" "length body < 2 ^ 25"
  shows "\<exists>header. nw_output (write_block 5 body w) = nw_output w @ header @ body \<and> length header = 4 \<and>
    read_blocks (header @ body @ rest) = map_option (Cons (5, take (length body - 2 ^ 24) body))
      (read_blocks (drop (length body - 2 ^ 24) body @ rest))"
proof -
  define r where "r = length body - 2 ^ 24"
  have r: "length body = r + 2 ^ 24 * 1" "r < 2 ^ 24" using assms by (simp_all add: r_def)
  have five: "push_bit 24 (of_nat 1) OR push_bit 24 (of_nat 5) = (push_bit 24 (of_nat 5) :: u32)" by simp
  have "of_nat (length body) OR push_bit 24 (of_nat 5) = (of_nat r OR push_bit 24 (of_nat 5) :: u32)"
    unfolding r(1) header_word [OF r(2), symmetric] or.assoc five ..
  then have h: "le_nat (u32_bytes (of_nat (length body) OR push_bit 24 (of_nat 5))) = r + 2 ^ 24 * 5"
    using block_header [OF r(2), of 5] by simp
  let ?header = "u32_bytes (of_nat (length body) OR push_bit 24 (of_nat 5))"
  have "nw_output (write_block 5 body w) = nw_output w @ ?header @ body"
    by (simp add: write_block_out nt_out_def encode_block_def)
  moreover have "read_blocks (?header @ body @ rest) = map_option (Cons (5, take r body)) (read_blocks (drop r body @ rest))"
  proof -
    have "(r + 2 ^ 24 * 5) mod 2 ^ 24 = r" "(r + 2 ^ 24 * 5) div 2 ^ 24 = 5"
      using r(2) by (simp_all only: mod_mult_self2 div_mult_self2 mod_less div_less)
    then show ?thesis using h r by (subst read_blocks.simps) (simp add: Let_def)
  qed
  ultimately show ?thesis unfolding r_def [symmetric] by (intro exI [of _ ?header]) simp
qed

theorem oversized_stack_block_witness:
  "\<exists>header. nw_output (write_block 5 (replicate (2 ^ 24 + 8) 0) writer_new) = nw_output writer_new @ header @ replicate (2 ^ 24 + 8) 0 \<and>
    read_blocks (header @ replicate (2 ^ 24 + 8) 0 @ u32_bytes 0) =
      map_option (Cons (5, replicate 8 0)) (read_blocks (replicate (2 ^ 24) 0 @ u32_bytes 0))"
proof -
  have n: "2 ^ 24 \<le> length (replicate (2 ^ 24 + 8) (0 :: byte))" "length (replicate (2 ^ 24 + 8) (0 :: byte)) < 2 ^ 25" by simp_all
  have "length (replicate (2 ^ 24 + 8) (0 :: byte)) - 2 ^ 24 = 8" by simp
  moreover have "take 8 (replicate (2 ^ 24 + 8) (0 :: byte)) = replicate 8 0" "drop 8 (replicate (2 ^ 24 + 8) (0 :: byte)) = replicate (2 ^ 24) 0"
    unfolding take_replicate drop_replicate by simp_all
  ultimately show ?thesis using oversized_stack_block [OF n, of writer_new "u32_bytes 0"] by metis
qed

end
