(* ===== verification/PeFile.thy ===== *)
theory PeFile
  imports ModuleMetadata Elf
begin

text \<open>
  The reader of \<open>helpers/exporting/pe_file.rs\<close>: the headers, the debug directory and the version resource of a PE
  file. The buffer of the version resource is an array of bytes that is read as 16-bit units from the first even
  address on; whether the buffer starts at an odd address is a parameter.
\<close>

section \<open>Structures\<close>

record pe_header =
  peh_signature :: u32
  peh_machine :: u16
  peh_sec_count :: u16
  peh_date_time :: u32
  peh_sym_table :: u32
  peh_sym_count :: u32
  peh_opt_header_size :: u16
  peh_characteristics :: u16
  peh_magic :: u16

record pe_data_directory =
  pdd_virt_addr :: u32
  pdd_size :: u32

record pe_debug_directory =
  pdb_date_time :: u32
  pdb_major_ver :: u16
  pdb_minor_ver :: u16
  pdb_debug_type :: u32
  pdb_size :: u32
  pdb_virt_addr :: u32
  pdb_raw_offset :: u32

record pe_res_directory =
  prd_flags :: u32
  prd_date_time :: u32
  prd_major_ver :: u16
  prd_minor_ver :: u16
  prd_named_count :: u16
  prd_id_count :: u16

record pe_res_entry =
  pre_name_id_offset :: u32
  pre_dir_data_offset :: u32

record pe_res_data =
  pra_data_offset :: u32
  pra_size :: u32
  pra_code_page :: u32

record pe_section =
  pes_name :: "byte list"
  pes_virt_size :: u32
  pes_virt_addr :: u32
  pes_raw_size :: u32
  pes_raw_offset :: u32
  pes_rel_offset :: u32
  pes_line_offset :: u32
  pes_rel_count :: u16
  pes_line_count :: u16
  pes_characteristics :: u32

record code_view_nb10 =
  nb_offset :: u32
  nb_pdb_sig :: "byte list"
  nb_pdb_age :: u32
  nb_pdb_name :: "byte list"

record code_view_rsds =
  rs_pdb_sig :: "byte list"
  rs_pdb_age :: u32
  rs_pdb_name :: "byte list"

record code_view_perf_map =
  pm_magic :: u32
  pm_sig :: "byte list"
  pm_ver :: u32
  pm_name :: "byte list"

definition PERFMAP_MAGIC :: u32 where "PERFMAP_MAGIC = 0x4D523252"
definition TEXT_SECTION_NAME :: "byte list" where "TEXT_SECTION_NAME = ascii ''.text'' @ [0, 0, 0]"

definition is_named :: "pe_res_entry \<Rightarrow> bool" where
  "is_named e \<longleftrightarrow> pre_name_id_offset e AND 0x80000000 \<noteq> 0"

definition name_id_value :: "pe_res_entry \<Rightarrow> u32" where
  "name_id_value e = pre_name_id_offset e AND 0x7FFFFFFF"

definition is_dir :: "pe_res_entry \<Rightarrow> bool" where
  "is_dir e \<longleftrightarrow> pre_dir_data_offset e AND 0x80000000 \<noteq> 0"

definition dir_data_value :: "pe_res_entry \<Rightarrow> u32" where
  "dir_data_value e = pre_dir_data_offset e AND 0x7FFFFFFF"

section \<open>Reading them\<close>

text \<open>A structure is filled from as many bytes as it takes, padding included.\<close>

definition read_struct :: "nat \<Rightarrow> (byte list \<Rightarrow> 'a) \<Rightarrow> (file_reader, 'a) io" where
  "read_struct n decode = io_bind (read_exact n) (\<lambda>bs. io_return (decode bs))"

definition pe_read_header :: "(file_reader, pe_header) io" where
  "pe_read_header = read_struct 28 (\<lambda>bs. \<lparr>peh_signature = elf_word 0 bs, peh_machine = half 4 bs, peh_sec_count = half 6 bs,
     peh_date_time = elf_word 8 bs, peh_sym_table = elf_word 12 bs, peh_sym_count = elf_word 16 bs,
     peh_opt_header_size = half 20 bs, peh_characteristics = half 22 bs, peh_magic = half 24 bs\<rparr>)"

definition read_directory :: "(file_reader, pe_data_directory) io" where
  "read_directory = read_struct 8 (\<lambda>bs. \<lparr>pdd_virt_addr = elf_word 0 bs, pdd_size = elf_word 4 bs\<rparr>)"

definition read_cv_nb10 :: "(file_reader, code_view_nb10) io" where
  "read_cv_nb10 = read_struct 140 (\<lambda>bs. \<lparr>nb_offset = elf_word 0 bs, nb_pdb_sig = part 4 4 bs, nb_pdb_age = elf_word 8 bs,
     nb_pdb_name = part 12 128 bs\<rparr>)"

definition read_cv_rsds :: "(file_reader, code_view_rsds) io" where
  "read_cv_rsds = read_struct 148 (\<lambda>bs. \<lparr>rs_pdb_sig = part 0 16 bs, rs_pdb_age = elf_word 16 bs, rs_pdb_name = part 20 128 bs\<rparr>)"

definition read_cv_perfmap :: "(file_reader, code_view_perf_map) io" where
  "read_cv_perfmap = read_struct 152 (\<lambda>bs. \<lparr>pm_magic = elf_word 0 bs, pm_sig = part 4 16 bs, pm_ver = elf_word 20 bs,
     pm_name = part 24 128 bs\<rparr>)"

definition DEBUG_DIRECTORY_BYTES :: nat where "DEBUG_DIRECTORY_BYTES = 28"

definition read_debug_directory :: "(file_reader, pe_debug_directory) io" where
  "read_debug_directory = read_struct DEBUG_DIRECTORY_BYTES (\<lambda>bs. \<lparr>pdb_date_time = elf_word 4 bs, pdb_major_ver = half 8 bs,
     pdb_minor_ver = half 10 bs, pdb_debug_type = elf_word 12 bs, pdb_size = elf_word 16 bs,
     pdb_virt_addr = elf_word 20 bs, pdb_raw_offset = elf_word 24 bs\<rparr>)"

definition read_res_directory :: "(file_reader, pe_res_directory) io" where
  "read_res_directory = read_struct 16 (\<lambda>bs. \<lparr>prd_flags = elf_word 0 bs, prd_date_time = elf_word 4 bs,
     prd_major_ver = half 8 bs, prd_minor_ver = half 10 bs, prd_named_count = half 12 bs, prd_id_count = half 14 bs\<rparr>)"

definition read_res_entry :: "(file_reader, pe_res_entry) io" where
  "read_res_entry = read_struct 8 (\<lambda>bs. \<lparr>pre_name_id_offset = elf_word 0 bs, pre_dir_data_offset = elf_word 4 bs\<rparr>)"

definition read_res_data :: "(file_reader, pe_res_data) io" where
  "read_res_data = read_struct 16 (\<lambda>bs. \<lparr>pra_data_offset = elf_word 0 bs, pra_size = elf_word 4 bs, pra_code_page = elf_word 8 bs\<rparr>)"

definition read_section :: "(file_reader, pe_section) io" where
  "read_section = read_struct 40 (\<lambda>bs. \<lparr>pes_name = part 0 8 bs, pes_virt_size = elf_word 8 bs, pes_virt_addr = elf_word 12 bs,
     pes_raw_size = elf_word 16 bs, pes_raw_offset = elf_word 20 bs, pes_rel_offset = elf_word 24 bs,
     pes_line_offset = elf_word 28 bs, pes_rel_count = half 32 bs, pes_line_count = half 34 bs,
     pes_characteristics = elf_word 36 bs\<rparr>)"

definition pe_read_u32 :: "(file_reader, u32) io" where
  "pe_read_u32 = read_struct 4 u32_of"

section \<open>Addresses\<close>

definition get_pe_header :: "(file_reader, pe_header \<times> u64) io" where
  "get_pe_header =
     io_bind (seek_start 0x3C) (\<lambda>_. io_bind pe_read_u32 (\<lambda>off.
     io_bind (seek_start (ucast off)) (\<lambda>_. io_bind pe_read_header (\<lambda>header. io_return (header, ucast off)))))"

definition sections_start :: "pe_header \<Rightarrow> u64 \<Rightarrow> u64" where
  "sections_start header pe_offset = pe_offset + 24 + ucast (peh_opt_header_size header)"

definition add32 :: "u32 \<Rightarrow> u32 \<Rightarrow> u32 option" where
  "add32 a b = (if unat a + unat b < 2 ^ 32 then Ret (a + b) else Panic)"

text \<open>The first of some sections that a test finds something in; the test may panic.\<close>

fun scan_sections :: "(pe_section \<Rightarrow> 'a option option) \<Rightarrow> nat \<Rightarrow> (file_reader, 'a option) io" where
  "scan_sections f 0 = io_return None"
| "scan_sections f (Suc n) =
     io_bind read_section (\<lambda>sec. io_bind (io_checked (f sec)) (\<lambda>found.
       case found of Some x \<Rightarrow> io_return (Some x) | None \<Rightarrow> scan_sections f n))"

definition find_section :: "pe_header \<Rightarrow> u64 \<Rightarrow> (pe_section \<Rightarrow> 'a option option) \<Rightarrow> (file_reader, 'a option) io" where
  "find_section header pe_offset f =
     io_bind (seek_start (sections_start header pe_offset)) (\<lambda>_. scan_sections f (unat (peh_sec_count header)))"

definition offset_in_section :: "u32 \<Rightarrow> pe_section \<Rightarrow> u64 option option" where
  "offset_in_section va sec = do {
     let va_start = pes_virt_addr sec;
     va_end \<leftarrow> add32 va_start (pes_raw_size sec);
     if va_start \<le> va \<and> va < va_end then do {
       off \<leftarrow> add32 (va - va_start) (pes_raw_offset sec);
       Ret (Some (ucast off))
     } else Ret None
   }"

definition va_to_offset :: "pe_header \<Rightarrow> u64 \<Rightarrow> u32 \<Rightarrow> (file_reader, u64 option) io" where
  "va_to_offset header pe_offset va = find_section header pe_offset (offset_in_section va)"

definition get_text_addresses :: "pe_header \<Rightarrow> u64 \<Rightarrow> (file_reader, (u64 \<times> u64) option) io" where
  "get_text_addresses header pe_offset = find_section header pe_offset (\<lambda>sec.
     Ret (if pes_name sec = TEXT_SECTION_NAME then Some (ucast (pes_virt_addr sec), ucast (pes_raw_offset sec)) else None))"

definition get_directory_data :: "pe_header \<Rightarrow> u64 \<Rightarrow> u64 \<Rightarrow> (file_reader, u64 \<times> u64) io" where
  "get_directory_data header pe_offset index =
     (if peh_magic header \<notin> {0x10b, 0x20b} then io_fail ''Unexpected magic value''
      else
        io_bind (seek_start (pe_offset + 24 + (if peh_magic header = 0x10b then 96 else 112) + index * 8)) (\<lambda>_.
        io_bind read_directory (\<lambda>dir.
        if pdd_virt_addr dir = 0 then io_return (0, 0)
        else
          io_bind (find_section header pe_offset (offset_in_section (pdd_virt_addr dir))) (\<lambda>found.
          io_return (case found of Some off \<Rightarrow> off | None \<Rightarrow> 0, ucast (pdd_size dir))))))"

text \<open>An entry of a resource directory with an id, or the first entry without a name for the id zero.\<close>

fun scan_res_entries :: "u32 \<Rightarrow> nat \<Rightarrow> (file_reader, pe_res_entry option) io" where
  "scan_res_entries wanted_id 0 = io_return None"
| "scan_res_entries wanted_id (Suc n) =
     io_bind read_res_entry (\<lambda>e.
       if \<not> is_named e \<and> (name_id_value e AND 0xFFFF = wanted_id \<or> wanted_id = 0) then io_return (Some e)
       else scan_res_entries wanted_id n)"

definition find_res_entry :: "u64 \<Rightarrow> u32 \<Rightarrow> (file_reader, pe_res_entry option) io" where
  "find_res_entry off wanted_id =
     io_bind (seek_start off) (\<lambda>_. io_bind read_res_directory (\<lambda>dir.
     let count = unat (prd_named_count dir) + unat (prd_id_count dir) in
     io_bind (io_checked (if count < 2 ^ 16 then Ret count else Panic)) (scan_res_entries wanted_id)))"

section \<open>Texts\<close>

text \<open>\<open>String::from_utf16\<close>: a surrogate without its partner is an error.\<close>

fun from_utf16 :: "nat list \<Rightarrow> ustr option" where
  "from_utf16 [] = Some []"
| "from_utf16 [a] = (if 0xD800 \<le> a \<and> a \<le> 0xDFFF then None else Some [a])"
| "from_utf16 (a # b # us) =
     (if 0xD800 \<le> a \<and> a \<le> 0xDBFF \<and> 0xDC00 \<le> b \<and> b \<le> 0xDFFF then
        map_option (Cons (0x10000 + (a - 0xD800) * 1024 + (b - 0xDC00))) (from_utf16 us)
      else if 0xD800 \<le> a \<and> a \<le> 0xDFFF then None
      else map_option (Cons a) (from_utf16 (b # us)))"

fun u16_units :: "byte list \<Rightarrow> nat list" where
  "u16_units (a # b # bs) = (unat a + 256 * unat b) # u16_units bs"
| "u16_units bs = []"

definition get_unicode_string :: "bool \<Rightarrow> byte list \<Rightarrow> err + ustr" where
  "get_unicode_string odd_address name =
     (case from_utf16 (takeWhile (\<lambda>c. c \<noteq> 0) (u16_units (if odd_address then drop 1 name else name))) of
        Some s \<Rightarrow> Inr s
      | None \<Rightarrow> Inl ''invalid utf-16: lone surrogate found'')"

definition get_string :: "byte list \<Rightarrow> err + byte list" where
  "get_string name = read_str (takeWhile (\<lambda>b. b \<noteq> 0) name)"

text \<open>The part behind the last separator of either kind.\<close>

definition extract_filename :: "byte list \<Rightarrow> byte list" where
  "extract_filename path = rev (takeWhile (\<lambda>b. b \<noteq> 92 \<and> b \<noteq> 47) (rev path))"

section \<open>Version information\<close>

record version_texts =
  vt_product :: "ustr option"
  vt_file_ver :: "ustr option"
  vt_file_desc :: "ustr option"

definition aligned4 :: "nat \<Rightarrow> nat" where
  "aligned4 n = (n + 3) div 4 * 4"

text \<open>The value behind a header; a header that goes beyond the block panics.\<close>

definition version_value :: "bool \<Rightarrow> nat \<Rightarrow> byte list \<Rightarrow> (err + ustr) option" where
  "version_value odd_address header_len sl =
     (if length sl < header_len then Panic else Ret (get_unicode_string odd_address (drop header_len sl)))"

definition keep_version ::
  "bool \<Rightarrow> ustr \<Rightarrow> nat \<Rightarrow> byte list \<Rightarrow> version_texts \<Rightarrow> (err + version_texts) option" where
  "keep_version odd_address name header_len sl vt =
     (if name = code_points ''ProductVersion'' \<and> vt_product vt = None then do {
        v \<leftarrow> version_value odd_address header_len sl;
        Ret (case v of Inl e \<Rightarrow> Inl e | Inr s \<Rightarrow> Inr (vt\<lparr>vt_product := Some s\<rparr>))
      } else if name = code_points ''FileVersion'' \<and> vt_file_ver vt = None then do {
        v \<leftarrow> version_value odd_address header_len sl;
        Ret (case v of Inl e \<Rightarrow> Inl e | Inr s \<Rightarrow> Inr (vt\<lparr>vt_file_ver := Some s\<rparr>))
      } else if name = code_points ''FileDescription'' \<and> vt_file_desc vt = None then do {
        v \<leftarrow> version_value odd_address header_len sl;
        Ret (case v of Inl e \<Rightarrow> Inl e | Inr s \<Rightarrow> Inr (vt\<lparr>vt_file_desc := Some s\<rparr>))
      } else Ret (Inr vt))"

text \<open>The walk over the entries of the resource. The length of a text is in characters, and doubled.\<close>

function version_scan :: "bool \<Rightarrow> byte list \<Rightarrow> version_texts \<Rightarrow> (err + version_texts) option" where
  "version_scan odd_address sl vt =
     (if length sl \<le> 8 then Ret (Inr vt)
      else do {
        let data_len = le_nat (part 2 2 sl) * (if le_nat (part 4 2 sl) = 1 then 2 else 1);
        if 2 ^ 16 \<le> data_len then Panic
        else (case get_unicode_string odd_address (drop 6 sl) of
            Inl e \<Rightarrow> Ret (Inl e)
          | Inr name \<Rightarrow> do {
              let header_len = aligned4 (8 + length (as_bytes name) * 2);
              kept \<leftarrow> keep_version odd_address name header_len sl vt;
              (case kept of
                 Inl e \<Rightarrow> Ret (Inl e)
               | Inr vt \<Rightarrow>
                   let total_len = aligned4 (header_len + data_len)
                   in if length sl \<le> total_len \<or>
                         vt_product vt \<noteq> None \<and> vt_file_ver vt \<noteq> None \<and> vt_file_desc vt \<noteq> None
                      then Ret (Inr vt)
                      else version_scan odd_address (drop total_len sl) vt)
            })
      })"
  by pat_completeness auto
termination
  by (relation "measure (\<lambda>(_, sl, _). length sl)") (auto simp: aligned4_def)

declare version_scan.simps [simp del]

text \<open>The product version goes before the file version; without a description there is none.\<close>

definition version_name :: "version_texts \<Rightarrow> byte list option" where
  "version_name vt = (case vt_file_desc vt of
     None \<Rightarrow> None
   | Some desc \<Rightarrow>
       (case (vt_product vt, vt_file_ver vt) of
          (Some v, _) \<Rightarrow> Some (as_bytes (v @ code_points '', '' @ desc))
        | (None, Some v) \<Rightarrow> Some (as_bytes (v @ code_points '', '' @ desc))
        | (None, None) \<Rightarrow> None))"

section \<open>The whole file\<close>

record pe_reading =
  pr_file :: file_reader
  pr_module :: pe_module
  pr_strings :: interned_strings

definition pe_io :: "(file_reader, 'a) io \<Rightarrow> (pe_reading, 'a) io" where
  "pe_io m = (\<lambda>s. do { (x, r) \<leftarrow> m (pr_file s); Ret (x, s\<lparr>pr_file := r\<rparr>) })"

definition pe_set :: "(pe_module \<Rightarrow> pe_module) \<Rightarrow> (pe_reading, unit) io" where
  "pe_set f = (\<lambda>s. Ret (Inr (), s\<lparr>pr_module := f (pr_module s)\<rparr>))"

definition pe_intern :: "(byte list \<Rightarrow> u64) \<Rightarrow> byte list \<Rightarrow> (pe_reading, nat) io" where
  "pe_intern h text = (\<lambda>s. do {
     (i, strings) \<leftarrow> strings_to_id h (pr_strings s) text;
     Ret (Inr i, s\<lparr>pr_strings := strings\<rparr>)
   })"

definition pe_result :: "err + 'a \<Rightarrow> ('s, 'a) io" where
  "pe_result x = (\<lambda>s. Ret (x, s))"

definition symbol_name_from :: "(byte list \<Rightarrow> u64) \<Rightarrow> byte list \<Rightarrow> (pe_reading, unit) io" where
  "symbol_name_from h pdb_name =
     io_bind (pe_result (get_string pdb_name)) (\<lambda>path.
     io_bind (pe_intern h (extract_filename path)) (\<lambda>i. pe_set (\<lambda>m. m\<lparr>pe_symbol_name_id := i\<rparr>)))"

text \<open>Of an entry of the debug directory: the two kinds of code view, and the perf map.\<close>

definition read_code_view :: "(byte list \<Rightarrow> u64) \<Rightarrow> (pe_reading, unit) io" where
  "read_code_view h =
     io_bind (pe_io pe_read_u32) (\<lambda>cv_type.
     if cv_type = 0x3031424e then
       io_bind (pe_io read_cv_nb10) (\<lambda>cv.
       io_bind (pe_set (\<lambda>m. m\<lparr>pe_symbol_age := nb_pdb_age cv, pe_symbol_sig := nb_pdb_sig cv @ drop 4 (pe_symbol_sig m)\<rparr>)) (\<lambda>_.
       symbol_name_from h (nb_pdb_name cv)))
     else if cv_type = 0x53445352 then
       io_bind (pe_io read_cv_rsds) (\<lambda>cv.
       io_bind (pe_set (\<lambda>m. m\<lparr>pe_symbol_age := rs_pdb_age cv, pe_symbol_sig := rs_pdb_sig cv\<rparr>)) (\<lambda>_.
       symbol_name_from h (rs_pdb_name cv)))
     else io_return ())"

definition read_perf_map :: "(byte list \<Rightarrow> u64) \<Rightarrow> (pe_reading, unit) io" where
  "read_perf_map h =
     io_bind (pe_io read_cv_perfmap) (\<lambda>cv.
     if pm_magic cv = PERFMAP_MAGIC then
       io_bind (pe_set (\<lambda>m. m\<lparr>pe_perfmap_sig := pm_sig cv, pe_perfmap_version := pm_ver cv\<rparr>)) (\<lambda>_.
       io_bind (pe_result (get_string (pm_name cv))) (\<lambda>name.
       io_bind (pe_intern h name) (\<lambda>i. pe_set (\<lambda>m. m\<lparr>pe_perfmap_name_id := i\<rparr>))))
     else io_return ())"

definition read_debug_entry :: "(byte list \<Rightarrow> u64) \<Rightarrow> u64 \<Rightarrow> nat \<Rightarrow> (pe_reading, unit) io" where
  "read_debug_entry h dbg_offset i =
     io_bind (pe_io (seek_start (dbg_offset + of_nat (i * DEBUG_DIRECTORY_BYTES)))) (\<lambda>_.
     io_bind (pe_io read_debug_directory) (\<lambda>dir.
     if pdb_debug_type dir = 2 then
       io_bind (pe_io (seek_start (ucast (pdb_raw_offset dir)))) (\<lambda>_. read_code_view h)
     else if pdb_debug_type dir = 21 \<and> pdb_major_ver dir = 1 \<and> pdb_minor_ver dir = 0 then
       io_bind (pe_io (seek_start (ucast (pdb_raw_offset dir)))) (\<lambda>_. read_perf_map h)
     else io_return ()))"

definition read_debug_info :: "(byte list \<Rightarrow> u64) \<Rightarrow> u64 \<Rightarrow> u64 \<Rightarrow> (pe_reading, unit) io" where
  "read_debug_info h dbg_offset dbg_size =
     (if dbg_offset = 0 then io_return ()
      else
        io_bind (pe_io (seek_start dbg_offset)) (\<lambda>_.
        io_fold (\<lambda>i _. read_debug_entry h dbg_offset i) [0..<unat dbg_size div DEBUG_DIRECTORY_BYTES] ()))"

definition VERSION_BLOCK_BYTES :: nat where "VERSION_BLOCK_BYTES = 4096"

text \<open>The file offset of the version resource, found in the tree of directories under 16, 1 and the first id.\<close>

definition res_child :: "u64 \<Rightarrow> u64 option \<Rightarrow> u32 \<Rightarrow> (file_reader, u64 option) io" where
  "res_child res_offset off wanted_id = (case off of
     None \<Rightarrow> io_return None
   | Some off \<Rightarrow>
       io_bind (find_res_entry (res_offset + off) wanted_id) (\<lambda>entry.
       io_return (case entry of
           Some e \<Rightarrow> if is_dir e then Some (ucast (dir_data_value e)) else None
         | None \<Rightarrow> None)))"

definition find_version_data :: "u64 \<Rightarrow> (file_reader, pe_res_data option) io" where
  "find_version_data res_offset =
     io_bind (res_child res_offset (Some 0) 16) (\<lambda>a.
     io_bind (res_child res_offset a 1) (\<lambda>b.
     case b of
       None \<Rightarrow> io_return None
     | Some off \<Rightarrow>
         io_bind (find_res_entry (res_offset + off) 0) (\<lambda>entry.
         case entry of
           None \<Rightarrow> io_return None
         | Some e \<Rightarrow>
             io_bind (seek_start (res_offset + ucast (dir_data_value e))) (\<lambda>_.
             io_bind read_res_data (\<lambda>data. io_return (Some data))))))"

definition read_version_block :: "pe_header \<Rightarrow> u64 \<Rightarrow> pe_res_data \<Rightarrow> (file_reader, byte list option) io" where
  "read_version_block header pe_offset data =
     io_bind (va_to_offset header pe_offset (pra_data_offset data)) (\<lambda>found.
     case found of
       None \<Rightarrow> io_return None
     | Some off \<Rightarrow>
         io_bind (seek_start off) (\<lambda>_.
         io_bind (read_exact (min (unat (pra_size data)) VERSION_BLOCK_BYTES)) (\<lambda>block. io_return (Some block))))"

definition read_version_info ::
  "bool \<Rightarrow> (byte list \<Rightarrow> u64) \<Rightarrow> pe_header \<Rightarrow> u64 \<Rightarrow> u64 \<Rightarrow> (pe_reading, unit) io" where
  "read_version_info odd_address h header pe_offset res_offset =
     (if res_offset = 0 then io_return ()
      else
        io_bind (pe_io (find_version_data res_offset)) (\<lambda>data.
        case data of
          None \<Rightarrow> io_return ()
        | Some data \<Rightarrow>
            io_bind (pe_io (read_version_block header pe_offset data)) (\<lambda>block.
            case block of
              None \<Rightarrow> io_return ()
            | Some block \<Rightarrow>
                io_bind (io_checked (version_scan odd_address block \<lparr>vt_product = None, vt_file_ver = None, vt_file_desc = None\<rparr>)) (\<lambda>texts.
                io_bind (pe_result texts) (\<lambda>texts.
                case version_name texts of
                  None \<Rightarrow> io_return ()
                | Some name \<Rightarrow> io_bind (pe_intern h name) (\<lambda>i. pe_set (\<lambda>m. m\<lparr>pe_version_name_id := i\<rparr>)))))))"

text \<open>The fields of the perf map and the offset of the text are not reset before.\<close>

definition get_pe_info :: "bool \<Rightarrow> (byte list \<Rightarrow> u64) \<Rightarrow> (pe_reading, unit) io" where
  "get_pe_info odd_address h =
     io_bind (pe_set (\<lambda>m. m\<lparr>pe_machine := 0, pe_date_time := 0, pe_symbol_name_id := 0, pe_symbol_age := 0,
       pe_symbol_sig := replicate 16 0, pe_version_name_id := 0\<rparr>)) (\<lambda>_.
     io_bind (pe_io get_pe_header) (\<lambda>(header, pe_offset).
     io_bind (pe_set (\<lambda>m. m\<lparr>pe_machine := peh_machine header, pe_date_time := peh_date_time header\<rparr>)) (\<lambda>_.
     io_bind (pe_io (get_text_addresses header pe_offset)) (\<lambda>addresses.
     io_bind (case addresses of
         Some (virtual_address, file_offset) \<Rightarrow>
           io_bind (io_checked (sub64 virtual_address file_offset)) (\<lambda>off. pe_set (\<lambda>m. m\<lparr>pe_text_offset := off\<rparr>))
       | None \<Rightarrow> io_return ()) (\<lambda>_.
     io_bind (pe_io (get_directory_data header pe_offset 6)) (\<lambda>(dbg_offset, dbg_size).
     io_bind (read_debug_info h dbg_offset dbg_size) (\<lambda>_.
     io_bind (pe_io (get_directory_data header pe_offset 2)) (\<lambda>(res_offset, _).
     read_version_info odd_address h header pe_offset res_offset))))))))"

definition get_metadata_direct :: "bool \<Rightarrow> (byte list \<Rightarrow> u64) \<Rightarrow> (pe_reading, unit) io" where
  "get_metadata_direct odd_address h = get_pe_info odd_address h"

end
