(* ===== verification/PeProps.thy ===== *)
theory PeProps
  imports PeFile NetTraceProps
begin

text \<open>
  What the walk over a version resource finds in the entries that a compiler writes.
\<close>

section \<open>Entries\<close>

definition utf16_text :: "ustr \<Rightarrow> byte list" where
  "utf16_text s = concat (map (\<lambda>c. u16_bytes (of_nat c)) s)"

definition version_header_bytes :: "ustr \<Rightarrow> nat" where
  "version_header_bytes key = aligned4 (8 + 2 * length key)"

definition version_entry_bytes :: "ustr \<times> ustr \<Rightarrow> nat" where
  "version_entry_bytes e = aligned4 (version_header_bytes (fst e) + 2 * (length (snd e) + 1))"

text \<open>A \<open>String\<close> structure: its length, the length of the value in characters, the type, the key and the value, each
  ended by a zero and filled up to a multiple of four.\<close>

definition encode_version :: "ustr \<times> ustr \<Rightarrow> byte list" where
  "encode_version e =
     u16_bytes (of_nat (version_entry_bytes e)) @ u16_bytes (of_nat (length (snd e) + 1)) @ u16_bytes 1 @
     utf16_text (fst e) @ replicate (version_header_bytes (fst e) - 6 - 2 * length (fst e)) 0 @
     utf16_text (snd e) @ replicate (version_entry_bytes e - version_header_bytes (fst e) - 2 * length (snd e)) 0"

definition plain_text :: "ustr \<Rightarrow> bool" where
  "plain_text s \<longleftrightarrow> (\<forall>c \<in> set s. 0 < c \<and> c < 128)"

definition version_entry_ok :: "ustr \<times> ustr \<Rightarrow> bool" where
  "version_entry_ok e \<longleftrightarrow> plain_text (fst e) \<and> plain_text (snd e) \<and> length (snd e) < 2 ^ 15 - 1"

lemma aligned4_bounds: "n \<le> aligned4 n" "aligned4 n < n + 4"
  by (simp_all add: aligned4_def)

lemma utf16_length [simp]: "length (utf16_text s) = 2 * length s"
  by (induction s) (simp_all add: utf16_text_def)

lemma bytes_length: "plain_text s \<Longrightarrow> length (as_bytes s) = length s"
  by (induction s) (auto simp: plain_text_def as_bytes_def utf8_char_def)

lemma units_of_text: "\<forall>c \<in> set s. c < 2 ^ 16 \<Longrightarrow> u16_units (utf16_text s @ bs) = s @ u16_units bs"
proof (induction s)
  case (Cons c s)
  have "u16_bytes (of_nat c) = [of_nat (c mod 256), of_nat (c div 256 mod 256)]"
    using Cons.prems by (simp add: u16_bytes_def unat_of_nat_word(1) numeral_2_eq_2)
  moreover have "unat (of_nat (c mod 256) :: byte) + 256 * unat (of_nat (c div 256 mod 256) :: byte) = c"
  proof -
    have "c div 256 < 256" using Cons.prems by (simp add: less_mult_imp_div_less)
    then show ?thesis by (simp add: unat_of_nat take_bit_nat_eq_self)
  qed
  ultimately show ?case using Cons by (simp add: utf16_text_def)
qed (simp add: utf16_text_def)

lemma from_utf16_plain: "plain_text s \<Longrightarrow> from_utf16 s = Some s"
  by (induction s rule: from_utf16.induct) (auto simp: plain_text_def)

lemma text_read:
  assumes "plain_text s"
  shows "get_unicode_string False (utf16_text s @ 0 # 0 # bs) = Inr s"
proof -
  have "\<forall>c \<in> set s. c < 2 ^ 16" using assms by (auto simp: plain_text_def)
  moreover have "takeWhile (\<lambda>c. c \<noteq> 0) (s @ 0 # us) = s" for us
    using assms by (simp add: plain_text_def takeWhile_append2)
  ultimately show ?thesis using assms by (simp add: get_unicode_string_def units_of_text from_utf16_plain)
qed

section \<open>One step\<close>

definition first_text :: "ustr option \<Rightarrow> ustr \<Rightarrow> string \<Rightarrow> ustr \<times> ustr \<Rightarrow> ustr option" where
  "first_text old key name e = (if key = code_points name \<and> old = None then Some (snd e) else old)"

definition with_entry :: "ustr \<times> ustr \<Rightarrow> version_texts \<Rightarrow> version_texts" where
  "with_entry e vt = \<lparr>vt_product = first_text (vt_product vt) (fst e) ''ProductVersion'' e,
     vt_file_ver = first_text (vt_file_ver vt) (fst e) ''FileVersion'' e,
     vt_file_desc = first_text (vt_file_desc vt) (fst e) ''FileDescription'' e\<rparr>"

definition all_found :: "version_texts \<Rightarrow> bool" where
  "all_found vt \<longleftrightarrow> vt_product vt \<noteq> None \<and> vt_file_ver vt \<noteq> None \<and> vt_file_desc vt \<noteq> None"

lemma names_differ:
  "code_points ''ProductVersion'' \<noteq> code_points ''FileVersion''" "code_points ''ProductVersion'' \<noteq> code_points ''FileDescription''"
  "code_points ''FileVersion'' \<noteq> code_points ''FileDescription''"
  by (simp_all add: code_points_def)

lemma encoded_parts:
  assumes "version_entry_ok e"
  obtains pad1 pad2 where "encode_version e = u16_bytes (of_nat (version_entry_bytes e)) @ u16_bytes (of_nat (length (snd e) + 1)) @
      u16_bytes 1 @ utf16_text (fst e) @ 0 # 0 # pad1 @ utf16_text (snd e) @ 0 # 0 # pad2"
    "6 + 2 * length (fst e) + 2 + length pad1 = version_header_bytes (fst e)"
    "length (encode_version e) = version_entry_bytes e"
proof -
  let ?h = "version_header_bytes (fst e)" and ?n = "version_entry_bytes e"
  have h: "8 + 2 * length (fst e) \<le> ?h" unfolding version_header_bytes_def by (rule aligned4_bounds)
  have n: "?h + 2 * (length (snd e) + 1) \<le> ?n" unfolding version_entry_bytes_def by (rule aligned4_bounds)
  define i where "i = ?h - 8 - 2 * length (fst e)"
  define j where "j = ?n - ?h - 2 * length (snd e) - 2"
  have i: "?h - 6 - 2 * length (fst e) = Suc (Suc i)" using h by (simp add: i_def)
  have j: "?n - ?h - 2 * length (snd e) = Suc (Suc j)" using n by (simp add: j_def)
  show thesis
  proof (rule that)
    show "encode_version e = u16_bytes (of_nat ?n) @ u16_bytes (of_nat (length (snd e) + 1)) @
      u16_bytes 1 @ utf16_text (fst e) @ 0 # 0 # replicate i 0 @ utf16_text (snd e) @ 0 # 0 # replicate j 0"
      unfolding encode_version_def i j replicate_Suc by simp
    show "6 + 2 * length (fst e) + 2 + length (replicate i (0 :: byte)) = ?h" using h by (simp add: i_def)
    show "length (encode_version e) = ?n" using h n by (simp add: encode_version_def)
  qed
qed

lemma kept:
  assumes "version_value False (version_header_bytes (fst e)) sl = Some (Inr (snd e))"
  shows "keep_version False (fst e) (version_header_bytes (fst e)) sl vt = Some (Inr (with_entry e vt))"
  using assms names_differ
  by (cases "vt_product vt"; cases "vt_file_ver vt"; cases "vt_file_desc vt")
    (auto simp: keep_version_def with_entry_def first_text_def split: if_splits)

lemma version_step:
  assumes "version_entry_ok e"
  shows "version_scan False (encode_version e @ rest) vt =
    (if rest = [] \<or> all_found (with_entry e vt) then Some (Inr (with_entry e vt)) else version_scan False rest (with_entry e vt))"
proof -
  obtain pad1 pad2 where enc: "encode_version e = u16_bytes (of_nat (version_entry_bytes e)) @ u16_bytes (of_nat (length (snd e) + 1)) @
      u16_bytes 1 @ utf16_text (fst e) @ 0 # 0 # pad1 @ utf16_text (snd e) @ 0 # 0 # pad2"
    and pad1: "6 + 2 * length (fst e) + 2 + length pad1 = version_header_bytes (fst e)"
    and len: "length (encode_version e) = version_entry_bytes e"
    using encoded_parts [OF assms] .
  let ?sl = "encode_version e @ rest"
  have key: "get_unicode_string False (drop 6 ?sl) = Inr (fst e)"
    using assms text_read [of "fst e" "pad1 @ utf16_text (snd e) @ 0 # 0 # pad2 @ rest"] by (simp add: enc version_entry_ok_def)
  have "drop (version_header_bytes (fst e)) ?sl = utf16_text (snd e) @ 0 # 0 # pad2 @ rest"
    unfolding pad1 [symmetric] enc by simp
  moreover have long: "version_header_bytes (fst e) + 2 * (length (snd e) + 1) \<le> version_entry_bytes e"
    unfolding version_entry_bytes_def by (rule aligned4_bounds)
  ultimately have "version_value False (version_header_bytes (fst e)) ?sl = Some (Inr (snd e))"
    using assms len text_read [of "snd e" "pad2 @ rest"] by (simp add: version_value_def version_entry_ok_def)
  note keep = kept [OF this]
  have header: "aligned4 (8 + length (as_bytes (fst e)) * 2) = version_header_bytes (fst e)"
    using assms by (simp add: version_header_bytes_def version_entry_ok_def bytes_length mult.commute)
  have n: "length (snd e) + 1 < 2 ^ 16" using assms by (simp add: version_entry_ok_def)
  have "le_nat (part 2 2 ?sl) = length (snd e) + 1" "le_nat (part 4 2 ?sl) = 1"
    using n by (simp_all add: part_def enc le_nat_words unat_of_nat_word(1) del: of_nat_add of_nat_Suc)
  then have data: "le_nat (part 2 2 ?sl) * (if le_nat (part 4 2 ?sl) = 1 then 2 else 1) = 2 * (length (snd e) + 1)" by simp
  have fits: "\<not> 2 ^ 16 \<le> 2 * (length (snd e) + 1)" using assms by (simp add: version_entry_ok_def)
  have total: "aligned4 (version_header_bytes (fst e) + 2 * (length (snd e) + 1)) = version_entry_bytes e"
    by (simp add: version_entry_bytes_def)
  have "\<not> length ?sl \<le> 8" using pad1 long len by simp
  then have "version_scan False ?sl vt =
    (if length ?sl \<le> version_entry_bytes e \<or> all_found (with_entry e vt) then Some (Inr (with_entry e vt))
     else version_scan False (drop (version_entry_bytes e) ?sl) (with_entry e vt))"
    by (subst version_scan.simps) (simp only: data fits key header keep total if_False sum.case Let_def all_found_def bind.bind_lunit)
  then show ?thesis using len by simp
qed

section \<open>All entries\<close>

lemma found_stay: "all_found vt \<Longrightarrow> fold with_entry es vt = vt"
proof (induction es)
  case (Cons e es)
  have "with_entry e vt = vt" using Cons.prems by (simp add: with_entry_def first_text_def all_found_def)
  then show ?case using Cons by simp
qed simp

lemma fold_entries:
  "vt_product (fold with_entry es vt) =
     (case vt_product vt of Some s \<Rightarrow> Some s | None \<Rightarrow> map_of es (code_points ''ProductVersion''))"
  "vt_file_ver (fold with_entry es vt) =
     (case vt_file_ver vt of Some s \<Rightarrow> Some s | None \<Rightarrow> map_of es (code_points ''FileVersion''))"
  "vt_file_desc (fold with_entry es vt) =
     (case vt_file_desc vt of Some s \<Rightarrow> Some s | None \<Rightarrow> map_of es (code_points ''FileDescription''))"
  by (induction es arbitrary: vt) (auto simp: with_entry_def first_text_def split: option.splits)

lemma encoded_nonempty: "encode_version e \<noteq> []"
  by (auto simp: encode_version_def dest!: arg_cong [of _ _ length])

lemma version_scan_entries:
  assumes "\<forall>e \<in> set es. version_entry_ok e" "rest = [] \<or> \<not> all_found (fold with_entry es vt)" "rest = [] \<or> 8 < length rest"
  shows "version_scan False (concat (map encode_version es) @ rest) vt = version_scan False rest (fold with_entry es vt)"
  using assms(1,2)
proof (induction es arbitrary: vt)
  case (Cons e es)
  let ?rest = "concat (map encode_version es) @ rest"
  have ended: "version_scan False [] vt = Some (Inr vt)" for vt by (subst version_scan.simps) simp
  have step: "version_scan False (encode_version e @ ?rest) vt = (if ?rest = [] \<or> all_found (with_entry e vt)
      then Some (Inr (with_entry e vt)) else version_scan False ?rest (with_entry e vt))"
    using Cons.prems(1) by (intro version_step) simp
  show ?case
  proof (cases "?rest = [] \<or> all_found (with_entry e vt)")
    case True
    have "fold with_entry es (with_entry e vt) = with_entry e vt"
    proof (cases "all_found (with_entry e vt)")
      case False
      then have "es = []" using True encoded_nonempty by (cases es) auto
      then show ?thesis by simp
    qed (rule found_stay)
    moreover have "rest = []" using True Cons.prems(2) found_stay [of "with_entry e vt" es] by auto
    ultimately show ?thesis using step True by (simp add: ended)
  next
    case False
    moreover have "version_scan False ?rest (with_entry e vt) = version_scan False rest (fold with_entry es (with_entry e vt))"
      using Cons.prems by (intro Cons.IH) simp_all
    ultimately have "version_scan False (encode_version e @ ?rest) vt = version_scan False rest (fold with_entry es (with_entry e vt))"
      unfolding step by (simp only: if_False)
    then show ?thesis by simp
  qed
qed simp

definition no_texts :: version_texts where
  "no_texts = \<lparr>vt_product = None, vt_file_ver = None, vt_file_desc = None\<rparr>"



text \<open>A block that ends within the four bytes behind one of the keys, as one cut at 4096 bytes can, panics.\<close>

theorem cut_version_block_panics:
  assumes "\<forall>e \<in> set es. version_entry_ok e" "map_of es (code_points ''FileVersion'') = None" "n < 2 ^ 15"
  shows "version_scan False (concat (map encode_version es) @ u16_bytes l @ u16_bytes (of_nat n) @ u16_bytes 1 @
    utf16_text (code_points ''FileVersion'')) no_texts = None"
proof -
  let ?key = "code_points ''FileVersion''"
  let ?cut = "u16_bytes l @ u16_bytes (of_nat n) @ u16_bytes 1 @ utf16_text ?key"
  let ?vt = "fold with_entry es no_texts"
  have none: "vt_file_ver ?vt = None" using fold_entries(2) [of es no_texts] assms(2) by (simp add: no_texts_def)
  have key: "length ?key = 11" "plain_text ?key" by (simp_all add: code_points_def plain_text_def)
  have len: "length ?cut = 28" using key by simp
  have "version_scan False (concat (map encode_version es) @ ?cut) no_texts = version_scan False ?cut ?vt"
    using none len by (intro version_scan_entries [OF assms(1)]) (auto simp: all_found_def)
  moreover have "version_scan False ?cut ?vt = None"
  proof -
    have name: "get_unicode_string False (drop 6 ?cut) = Inr ?key"
    proof -
      have "\<forall>c \<in> set ?key. c < 2 ^ 16" using key(2) by (auto simp: plain_text_def)
      from units_of_text [OF this, of "[]"] have units: "u16_units (utf16_text ?key) = ?key" by simp
      have whole: "takeWhile (\<lambda>c. c \<noteq> 0) ?key = ?key" using key(2) by (auto simp: plain_text_def takeWhile_eq_all_conv)
      have "drop 6 ?cut = utf16_text ?key" by simp
      then show ?thesis
        unfolding get_unicode_string_def by (simp only: if_False units whole from_utf16_plain [OF key(2)] option.case)
    qed
    have data: "le_nat (part 2 2 ?cut) = n" "le_nat (part 4 2 ?cut) = 1"
      using assms(3) by (simp_all add: part_def le_nat_words unat_of_nat_word(1))
    have panics: "keep_version False ?key 32 ?cut ?vt = None"
      using none len names_differ by (simp add: keep_version_def version_value_def del: length_append)
    have step: "version_scan False cut ?vt = None"
      if "length cut = 28" "get_unicode_string False (drop 6 cut) = Inr ?key" "le_nat (part 2 2 cut) = n"
        "le_nat (part 4 2 cut) = 1" "keep_version False ?key 32 cut ?vt = None" for cut
      using that key assms(3) by (subst version_scan.simps) (simp add: bytes_length aligned4_def)
    show ?thesis by (rule step [OF len name data panics])
  qed
  ultimately show ?thesis by simp
qed

end
