(* ===== verification/Spec2Isabelle.thy ===== *)
theory Spec2Isabelle
  imports Intern Mappings EventFormat EventText EventObj PerfAbi RingBuf Process DynSymbols SymReaders Graph
    Attributes Machine MachineProps MachineReplay SessionProps RingSourceProps EnvironmentProps CfiRows NetTraceRoundtrip PeProps
begin

text \<open>
  A model of \<open>one_collect\<close>, the library that collects events and samples from the running system
  and exports them.
\<close>

end
